(* ===== verification/Prelude.thy ===== *)
theory Prelude
  imports Main "HOL-Library.AList" "HOL-Library.Word" "HOL-Library.Multiset"
begin

text \<open>
  What every component of the model shares: Go's machine integers, Go's maps, results that
  may be an error, and the contract of a step relation with an invariant.

  A Go map is an association list with one entry per key. The order of the entries stands
  for the order in which a \<open>range\<close> statement visits the map: Go leaves that order
  unspecified, and the theorems hold for every list, so for every order.
\<close>

named_theorems go_simps \<open>rewrite rules of the Go library model\<close>
named_theorems inv_intros \<open>preservation lemmas of the components' invariants\<close>

section \<open>Machine integers, errors\<close>

type_synonym uint = "64 word"
type_synonym uint64 = "64 word"
type_synonym uint32 = "32 word"

text \<open>An operation that returns \<open>(value, error)\<close> gives \<open>Inl error\<close> or \<open>Inr value\<close>.\<close>

type_synonym ('e, 'a) result = "'e + 'a"

definition bind_ok :: "'e + 'a \<Rightarrow> ('a \<Rightarrow> 'e + 'b) \<Rightarrow> 'e + 'b" where
  "bind_ok r f = (case r of Inl e \<Rightarrow> Inl e | Inr x \<Rightarrow> f x)"

lemma bind_ok_simps [simp]:
  "bind_ok (Inl e) f = Inl e"
  "bind_ok (Inr x) f = f x"
  by (simp_all add: bind_ok_def)

lemma bind_ok_eq_Inr: "bind_ok r f = Inr y \<longleftrightarrow> (\<exists>x. r = Inr x \<and> f x = Inr y)"
  by (cases r) simp_all

lemma bind_ok_eq_Inl: "bind_ok r f = Inl e \<longleftrightarrow> r = Inl e \<or> (\<exists>x. r = Inr x \<and> f x = Inl e)"
  by (cases r) simp_all

lemma bind_ok_cong [fundef_cong]:
  "r = r' \<Longrightarrow> (\<And>x. r' = Inr x \<Longrightarrow> f x = g x) \<Longrightarrow> bind_ok r f = bind_ok r' g"
  by (cases r') simp_all

text \<open>A loop over a list that stops at the first error.\<close>

fun fold_ok :: "('a \<Rightarrow> 's \<Rightarrow> 'e + 's) \<Rightarrow> 'a list \<Rightarrow> 's \<Rightarrow> 'e + 's" where
  "fold_ok f [] s = Inr s"
| "fold_ok f (x # xs) s = bind_ok (f x s) (fold_ok f xs)"

lemma fold_ok_append: "fold_ok f (xs @ ys) s = bind_ok (fold_ok f xs s) (fold_ok f ys)"
  by (induction xs arbitrary: s) (auto simp: bind_ok_def split: sum.splits)

lemma fold_ok_invariant:
  assumes "fold_ok f xs s = Inr t" and "P s"
    and "\<And>x s s'. x \<in> set xs \<Longrightarrow> P s \<Longrightarrow> f x s = Inr s' \<Longrightarrow> P s'"
  shows "P t"
  using assms
proof (induction xs arbitrary: s)
  case Nil
  then show ?case by simp
next
  case (Cons x xs)
  from Cons.prems(1) obtain s' where s': "f x s = Inr s'" "fold_ok f xs s' = Inr t"
    by (auto simp: bind_ok_eq_Inr)
  have "P s'" using Cons.prems(2,3) s'(1) by auto
  then show ?case using Cons.IH [OF s'(2)] Cons.prems(3) by auto
qed

lemma fold_ok_cong [fundef_cong]:
  "xs = ys \<Longrightarrow> s = t \<Longrightarrow> (\<And>x s. x \<in> set ys \<Longrightarrow> f x s = g x s) \<Longrightarrow> fold_ok f xs s = fold_ok g ys t"
proof (induction xs arbitrary: ys s t)
  case Nil
  then show ?case by auto
next
  case (Cons x xs)
  then show ?case by (auto simp: bind_ok_def split: sum.splits)
qed

section \<open>Go maps\<close>

type_synonym ('k, 'v) gomap = "('k \<times> 'v) list"

abbreviation gm_get :: "('k, 'v) gomap \<Rightarrow> 'k \<Rightarrow> 'v option" where
  "gm_get m k \<equiv> map_of m k"

abbreviation gm_put :: "'k \<Rightarrow> 'v \<Rightarrow> ('k, 'v) gomap \<Rightarrow> ('k, 'v) gomap" where
  "gm_put k v m \<equiv> AList.update k v m"

abbreviation gm_del :: "'k \<Rightarrow> ('k, 'v) gomap \<Rightarrow> ('k, 'v) gomap" where
  "gm_del k m \<equiv> AList.delete k m"

abbreviation gm_keys :: "('k, 'v) gomap \<Rightarrow> 'k list" where
  "gm_keys m \<equiv> map fst m"

definition gm_ok :: "('k, 'v) gomap \<Rightarrow> bool" where
  "gm_ok m \<longleftrightarrow> distinct (map fst m)"

definition gm_has :: "('k, 'v) gomap \<Rightarrow> 'k \<Rightarrow> bool" where
  "gm_has m k \<longleftrightarrow> map_of m k \<noteq> None"

lemma gm_has_iff: "gm_has m k \<longleftrightarrow> k \<in> fst ` set m"
  by (simp add: gm_has_def map_of_eq_None_iff)

lemma gm_ok_Nil [simp, intro]: "gm_ok []"
  by (simp add: gm_ok_def)

lemma gm_ok_put [simp, intro]: "gm_ok m \<Longrightarrow> gm_ok (gm_put k v m)"
  by (simp add: gm_ok_def distinct_update)

lemma gm_ok_del [simp, intro]: "gm_ok m \<Longrightarrow> gm_ok (gm_del k m)"
  by (simp add: gm_ok_def distinct_delete)

lemma gm_get_put [simp]: "map_of (gm_put k v m) = (map_of m)(k \<mapsto> v)"
  by (rule update_conv')

lemma gm_get_del [simp]: "map_of (gm_del k m) = (map_of m)(k := None)"
  by (rule delete_conv')

lemma gm_has_put [simp]: "gm_has (gm_put k v m) j \<longleftrightarrow> j = k \<or> gm_has m j"
  by (simp add: gm_has_def)

lemma gm_keys_put: "set (gm_keys (gm_put k v m)) = insert k (set (gm_keys m))"
  by (simp add: dom_update image_set [symmetric])

lemma gm_keys_del: "set (gm_keys (gm_del k m)) = set (gm_keys m) - {k}"
  by (auto simp: AList.delete_eq)

lemma gm_get_in: "gm_ok m \<Longrightarrow> map_of m k = Some v \<longleftrightarrow> (k, v) \<in> set m"
  by (auto simp: gm_ok_def)

text \<open>
  The contract of a map as the clients use it: what a lookup gives after an insertion or a
  deletion. Two facts follow for loops that insert or delete a list of keys.
\<close>

locale go_map =
  fixes get :: "'m \<Rightarrow> 'k \<Rightarrow> 'v option"
    and put :: "'k \<Rightarrow> 'v \<Rightarrow> 'm \<Rightarrow> 'm"
    and del :: "'k \<Rightarrow> 'm \<Rightarrow> 'm"
  assumes get_put: "get (put k v m) j = (if j = k then Some v else get m j)"
    and get_del: "get (del k m) j = (if j = k then None else get m j)"
begin

lemma get_put_all: "get (fold (\<lambda>k. put k v) ks m) j = (if j \<in> set ks then Some v else get m j)"
  by (induction ks arbitrary: m) (auto simp: get_put)

lemma get_del_all: "get (fold del ks m) j = (if j \<in> set ks then None else get m j)"
  by (induction ks arbitrary: m) (auto simp: get_del)

lemma get_put_entries:
  "distinct (map fst es) \<Longrightarrow>
   get (fold (\<lambda>(k, v). put k v) es m) j = (case map_of es j of Some v \<Rightarrow> Some v | None \<Rightarrow> get m j)"
proof (induction es arbitrary: m)
  case Nil
  then show ?case by simp
next
  case (Cons e es)
  then have "map_of es (fst e) = None"
    by (simp add: map_of_eq_None_iff)
  with Cons show ?case
    by (cases e) (auto simp: get_put split: option.splits)
qed

end

interpretation gm: go_map map_of "\<lambda>k v. AList.update k v" AList.delete
  by unfold_locales (simp_all add: fun_upd_def)

text \<open>
  The contract of a loader: named entries go into a map one by one, and an entry whose name
  is there already is an error. The environment loads command templates and tag
  descriptions that way.
\<close>

fun load_named :: "('e \<Rightarrow> 'k) \<Rightarrow> ('e \<Rightarrow> 'err) \<Rightarrow> 'e list \<Rightarrow> ('k, 'e) gomap \<Rightarrow> 'err + ('k, 'e) gomap" where
  "load_named nm dup [] m = Inr m"
| "load_named nm dup (e # es) m =
     (if gm_has m (nm e) then Inl (dup e) else load_named nm dup es (gm_put (nm e) e m))"

lemma load_named_ok:
  "load_named nm dup es m = Inr m' \<longleftrightarrow>
   distinct (map nm es) \<and> (\<forall>e\<in>set es. \<not> gm_has m (nm e)) \<and> m' = fold (\<lambda>e. gm_put (nm e) e) es m"
proof (induction es arbitrary: m)
  case Nil
  then show ?case by auto
next
  case (Cons e es)
  show ?case
  proof (cases "gm_has m (nm e)")
    case True
    then show ?thesis by auto
  next
    case False
    then have "load_named nm dup (e # es) m = load_named nm dup es (gm_put (nm e) e m)"
      by simp
    also have "\<dots> = Inr m' \<longleftrightarrow> distinct (map nm es) \<and>
        (\<forall>x\<in>set es. \<not> gm_has (gm_put (nm e) e m) (nm x)) \<and>
        m' = fold (\<lambda>e. gm_put (nm e) e) es (gm_put (nm e) e m)"
      by (rule Cons.IH)
    also have "(\<forall>x\<in>set es. \<not> gm_has (gm_put (nm e) e m) (nm x)) \<longleftrightarrow>
        nm e \<notin> nm ` set es \<and> (\<forall>x\<in>set es. \<not> gm_has m (nm x))"
    proof -
      have "nm e \<notin> nm ` set es \<longleftrightarrow> (\<forall>x\<in>set es. nm x \<noteq> nm e)"
        by (metis imageE imageI)
      then show ?thesis by (simp add: ball_conj_distrib)
    qed
    finally show ?thesis using False by auto
  qed
qed

lemma load_named_get:
  "load_named nm dup es m = Inr m' \<Longrightarrow>
   map_of m' k = (case find (\<lambda>e. nm e = k) es of Some e \<Rightarrow> Some e | None \<Rightarrow> map_of m k)"
proof (induction es arbitrary: m)
  case Nil
  then show ?case by simp
next
  case (Cons e es)
  from Cons.prems have ok: "load_named nm dup es (gm_put (nm e) e m) = Inr m'"
    by (simp split: if_splits)
  from Cons.prems have nd: "nm e \<notin> nm ` set es"
    unfolding load_named_ok by simp
  from nd have none: "find (\<lambda>x. nm x = nm e) es = None"
    unfolding find_None_iff by (metis imageI)
  show ?case
  proof (cases "k = nm e")
    case True
    with Cons.IH [OF ok] none show ?thesis by simp
  next
    case False
    with Cons.IH [OF ok] show ?thesis by (simp split: option.splits)
  qed
qed

section \<open>Step relations\<close>

text \<open>The states a relation reaches from the states that satisfy \<open>init\<close>.\<close>

inductive reachable :: "('s \<Rightarrow> bool) \<Rightarrow> ('s \<Rightarrow> 's \<Rightarrow> bool) \<Rightarrow> 's \<Rightarrow> bool"
  for init :: "'s \<Rightarrow> bool" and step :: "'s \<Rightarrow> 's \<Rightarrow> bool" where
  reach_init: "init s \<Longrightarrow> reachable init step s"
| reach_step: "reachable init step s \<Longrightarrow> step s t \<Longrightarrow> reachable init step t"

text \<open>
  The contract of a state machine with an invariant: the start states satisfy it and every
  step keeps it. It then holds in every reachable state.
\<close>

locale step_system =
  fixes init :: "'s \<Rightarrow> bool"
    and step :: "'s \<Rightarrow> 's \<Rightarrow> bool"
    and inv :: "'s \<Rightarrow> bool"
  assumes inv_init: "init s \<Longrightarrow> inv s"
    and inv_step: "step s t \<Longrightarrow> inv s \<Longrightarrow> inv t"
begin

lemma reachable_inv: "reachable init step s \<Longrightarrow> inv s"
  by (induction rule: reachable.induct) (auto intro: inv_init inv_step)

lemma steps_inv: "step\<^sup>*\<^sup>* s t \<Longrightarrow> inv s \<Longrightarrow> inv t"
  by (induction rule: rtranclp_induct) (auto intro: inv_step)

end

lemma reachable_steps: "reachable init step s \<Longrightarrow> step\<^sup>*\<^sup>* s t \<Longrightarrow> reachable init step t"
  by (rotate_tac 1, induction rule: rtranclp_induct) (auto intro: reach_step)

end
