(* ===== verification/GoStrings.thy ===== *)
theory GoStrings
  imports Prelude "HOL-Library.Sublist"
begin

text \<open>
  The string functions of Go's standard library that the program calls: \<open>strings\<close>,
  \<open>strconv\<close> and \<open>path\<close>. A string is a list of bytes; \<open>TrimSpace\<close> treats the ASCII white
  space, which is all that occurs in the files and output the program reads as ASCII.
\<close>

section \<open>strings\<close>

definition HasPrefix :: "string \<Rightarrow> string \<Rightarrow> bool" where
  "HasPrefix s p \<longleftrightarrow> prefix p s"

definition HasSuffix :: "string \<Rightarrow> string \<Rightarrow> bool" where
  "HasSuffix s p \<longleftrightarrow> suffix p s"

lemma HasPrefix_append [simp]: "HasPrefix (p @ s) p"
  by (simp add: HasPrefix_def)

lemma HasPrefixE: "HasPrefix s p \<Longrightarrow> (\<And>t. s = p @ t \<Longrightarrow> P) \<Longrightarrow> P"
  by (auto simp: HasPrefix_def prefix_def)

text \<open>The first position of \<open>sub\<close> in \<open>s\<close>; \<open>None\<close> is Go's \<open>-1\<close>.\<close>

fun Index :: "string \<Rightarrow> string \<Rightarrow> nat option" where
  "Index [] sub = (if sub = [] then Some 0 else None)"
| "Index (c # s) sub = (if prefix sub (c # s) then Some 0 else map_option Suc (Index s sub))"

definition Contains :: "string \<Rightarrow> string \<Rightarrow> bool" where
  "Contains s sub \<longleftrightarrow> Index s sub \<noteq> None"

definition ContainsAny :: "string \<Rightarrow> string \<Rightarrow> bool" where
  "ContainsAny s chars \<longleftrightarrow> (\<exists>c\<in>set s. c \<in> set chars)"

lemma Index_Some: "Index s sub = Some i \<Longrightarrow> s = take i s @ sub @ drop (i + length sub) s"
proof (induction s sub arbitrary: i rule: Index.induct)
  case (1 sub)
  then show ?case by (auto split: if_splits)
next
  case (2 c s sub)
  show ?case
  proof (cases "prefix sub (c # s)")
    case True
    with 2(2) show ?thesis by (auto simp: prefix_def)
  next
    case False
    with 2(2) obtain j where "Index s sub = Some j" "i = Suc j" by auto
    with 2(1) [OF False] show ?thesis by simp
  qed
qed

text \<open>\<open>strings.Split\<close> with a separator of one byte.\<close>

fun Split :: "char \<Rightarrow> string \<Rightarrow> string list" where
  "Split c [] = [[]]"
| "Split c (x # xs) =
     (if x = c then [] # Split c xs
      else (case Split c xs of [] \<Rightarrow> [[x]] | w # ws \<Rightarrow> (x # w) # ws))"

fun Join_with :: "string \<Rightarrow> string list \<Rightarrow> string" where
  "Join_with sep [] = []"
| "Join_with sep [w] = w"
| "Join_with sep (w # v # ws) = w @ sep @ Join_with sep (v # ws)"

lemma Split_not_Nil [simp]: "Split c s \<noteq> []"
  by (induction s) (auto split: list.splits)

lemma Join_Split: "Join_with [c] (Split c s) = s"
proof (induction s)
  case Nil
  then show ?case by simp
next
  case (Cons x s)
  obtain w ws where sp: "Split c s = w # ws"
    by (cases "Split c s") auto
  then show ?case using Cons by (cases ws) auto
qed

lemma Split_no_sep: "w \<in> set (Split c s) \<Longrightarrow> c \<notin> set w"
proof (induction s arbitrary: w)
  case Nil
  then show ?case by simp
next
  case (Cons x s)
  obtain v vs where sp: "Split c s = v # vs"
    by (cases "Split c s") auto
  show ?case
  proof (cases "x = c")
    case True
    with Cons show ?thesis by auto
  next
    case False
    with Cons.prems sp have "w = x # v \<or> w \<in> set vs" by auto
    with Cons.IH sp False show ?thesis by auto
  qed
qed

lemma Split_plain: "c \<notin> set s \<Longrightarrow> Split c s = [s]"
  by (induction s) auto

lemma Split_append_sep: "c \<notin> set s \<Longrightarrow> Split c (s @ c # t) = s # Split c t"
  by (induction s) auto

lemma Split_Join:
  "ws \<noteq> [] \<Longrightarrow> \<forall>w\<in>set ws. c \<notin> set w \<Longrightarrow> Split c (Join_with [c] ws) = ws"
  by (induction "[c]" ws rule: Join_with.induct) (auto simp: Split_plain Split_append_sep)

definition is_space :: "char \<Rightarrow> bool" where
  "is_space c \<longleftrightarrow> c \<in> {CHR '' '', CHR 0x09, CHR 0x0A, CHR 0x0B, CHR 0x0C, CHR 0x0D}"

definition TrimSpace :: "string \<Rightarrow> string" where
  "TrimSpace s = rev (dropWhile is_space (rev (dropWhile is_space s)))"

lemma TrimSpace_Nil [simp]: "TrimSpace [] = []"
  by (simp add: TrimSpace_def)

lemma dropWhile_idem: "dropWhile P (dropWhile P xs) = dropWhile P xs"
  by (induction xs) auto

lemma TrimSpace_id:
  "s = [] \<or> (\<not> is_space (hd s) \<and> \<not> is_space (last s)) \<Longrightarrow> TrimSpace s = s"
proof (cases s rule: rev_cases)
  case (snoc ys y)
  moreover assume "s = [] \<or> (\<not> is_space (hd s) \<and> \<not> is_space (last s))"
  ultimately have "\<not> is_space (hd (ys @ [y]))" "\<not> is_space y" by auto
  then have "dropWhile is_space (ys @ [y]) = ys @ [y]"
    by (cases ys) auto
  with snoc \<open>\<not> is_space y\<close> show ?thesis by (simp add: TrimSpace_def)
qed simp

lemma last_rev_dropWhile:
  "rev (dropWhile P xs) \<noteq> [] \<Longrightarrow> \<not> P (last (rev (dropWhile P xs)))"
  by (induction xs) auto

lemma TrimSpace_ends:
  "TrimSpace s = [] \<or> (\<not> is_space (hd (TrimSpace s)) \<and> \<not> is_space (last (TrimSpace s)))"
proof (cases "TrimSpace s = []")
  case False
  let ?d = "dropWhile is_space s"
  obtain ys where d: "?d = TrimSpace s @ ys"
    unfolding TrimSpace_def
    by (metis dropWhile_eq_drop append_take_drop_id rev_append rev_rev_ident takeWhile_dropWhile_id)
  with False have "hd ?d = hd (TrimSpace s)" "?d \<noteq> []" by auto
  moreover from \<open>?d \<noteq> []\<close> have "\<not> is_space (hd ?d)" by (rule hd_dropWhile)
  moreover have "\<not> is_space (last (TrimSpace s))"
    using False unfolding TrimSpace_def by (rule last_rev_dropWhile)
  ultimately show ?thesis by simp
qed simp

lemma TrimSpace_idem [simp]: "TrimSpace (TrimSpace s) = TrimSpace s"
  by (rule TrimSpace_id [OF TrimSpace_ends])

text \<open>\<open>strings.Replace(s, old, new, 1)\<close>: the first occurrence only.\<close>

definition ReplaceOne :: "string \<Rightarrow> string \<Rightarrow> string \<Rightarrow> string" where
  "ReplaceOne s old new =
     (case Index s old of None \<Rightarrow> s | Some i \<Rightarrow> take i s @ new @ drop (i + length old) s)"

section \<open>strconv\<close>

definition is_digit :: "char \<Rightarrow> bool" where
  "is_digit c \<longleftrightarrow> (48::nat) \<le> of_char c \<and> (of_char c :: nat) \<le> 57"

definition digit_val :: "char \<Rightarrow> nat" where
  "digit_val c = of_char c - 48"

fun dec_val :: "nat \<Rightarrow> string \<Rightarrow> nat" where
  "dec_val acc [] = acc"
| "dec_val acc (c # cs) = dec_val (10 * acc + digit_val c) cs"

definition is_number :: "string \<Rightarrow> bool" where
  "is_number s \<longleftrightarrow> s \<noteq> [] \<and> list_all is_digit s"

text \<open>\<open>strconv.Atoi\<close>: an optional sign, decimal digits, and the value in 64 bits.\<close>

definition Atoi :: "string \<Rightarrow> int option" where
  "Atoi s =
     (let neg = (case s of c # _ \<Rightarrow> c = CHR ''-'' | [] \<Rightarrow> False);
          ds = (case s of c # cs \<Rightarrow> if c = CHR ''-'' \<or> c = CHR ''+'' then cs else s | [] \<Rightarrow> s)
      in if is_number ds then
           (let v = int (dec_val 0 ds); r = (if neg then - v else v)
            in if - (2 ^ 63) \<le> r \<and> r < 2 ^ 63 then Some r else None)
         else None)"

text \<open>The decimal text of an unsigned number, as \<open>fmt\<close> prints it with \<open>%v\<close>.\<close>

fun Itoa :: "nat \<Rightarrow> string" where
  "Itoa n = (if n < 10 then [char_of (48 + n)] else Itoa (n div 10) @ [char_of (48 + n mod 10)])"

declare Itoa.simps [simp del]

lemma digit_char [simp]: "d < 10 \<Longrightarrow> is_digit (char_of (48 + d))" "d < 10 \<Longrightarrow> digit_val (char_of (48 + d)) = d"
  by (auto simp: is_digit_def digit_val_def)

lemma dec_val_append: "dec_val a (s @ t) = dec_val (dec_val a s) t"
  by (induction s arbitrary: a) auto

lemma Itoa_number: "is_number (Itoa n)"
proof (induction n rule: Itoa.induct)
  case (1 n)
  then show ?case by (subst Itoa.simps) (auto simp: is_number_def)
qed

lemma dec_val_Itoa: "dec_val 0 (Itoa n) = n"
proof (induction n rule: Itoa.induct)
  case (1 n)
  then show ?case by (subst Itoa.simps) (auto simp: dec_val_append)
qed

lemma digit_not_sign: "is_digit c \<Longrightarrow> c \<noteq> CHR ''-'' \<and> c \<noteq> CHR ''+'' \<and> c \<noteq> CHR '' '' \<and> \<not> is_space c"
  by (auto simp: is_digit_def is_space_def)

lemma Atoi_Itoa: "n < 2 ^ 63 \<Longrightarrow> Atoi (Itoa n) = Some (int n)"
proof -
  assume n: "n < 2 ^ 63"
  obtain c cs where I: "Itoa n = c # cs" and "is_digit c"
    using Itoa_number [of n] by (cases "Itoa n") (auto simp: is_number_def)
  then have "c \<noteq> CHR ''-''" "c \<noteq> CHR ''+''" by (auto dest: digit_not_sign)
  with I Itoa_number [of n] dec_val_Itoa [of n] n show ?thesis
    by (simp add: Atoi_def)
qed

lemma Atoi_digits:
  "is_number ds \<Longrightarrow> Atoi ds = (if dec_val 0 ds < 2 ^ 63 then Some (int (dec_val 0 ds)) else None)"
proof -
  assume d: "is_number ds"
  then obtain c cs where I: "ds = c # cs" and "is_digit c"
    by (cases ds) (auto simp: is_number_def)
  then have "c \<noteq> CHR ''-''" "c \<noteq> CHR ''+''" by (auto dest: digit_not_sign)
  with I d show ?thesis
    by (simp add: Atoi_def)
qed

section \<open>path\<close>

text \<open>
  \<open>path.Clean\<close> works on the components between slashes: empty components and \<open>.\<close> vanish,
  \<open>..\<close> takes the component before it away, or vanishes at the root.
\<close>

fun clean_comps :: "bool \<Rightarrow> string list \<Rightarrow> string list \<Rightarrow> string list" where
  "clean_comps rooted acc [] = rev acc"
| "clean_comps rooted acc (w # ws) =
     (if w = [] \<or> w = ''.'' then clean_comps rooted acc ws
      else if w = ''..'' then
        (case acc of
           [] \<Rightarrow> if rooted then clean_comps rooted [] ws else clean_comps rooted [w] ws
         | a # as \<Rightarrow> if a = ''..'' then clean_comps rooted (w # acc) ws
                    else clean_comps rooted as ws)
      else clean_comps rooted (w # acc) ws)"

definition rooted :: "string \<Rightarrow> bool" where
  "rooted p \<longleftrightarrow> HasPrefix p ''/''"

definition path_Clean :: "string \<Rightarrow> string" where
  "path_Clean p =
     (let cs = clean_comps (rooted p) [] (Split CHR ''/'' p); body = Join_with ''/'' cs
      in if rooted p then CHR ''/'' # body else if cs = [] then ''.'' else body)"

definition path_Join :: "string list \<Rightarrow> string" where
  "path_Join ps =
     (let qs = filter (\<lambda>p. p \<noteq> []) ps in if qs = [] then [] else path_Clean (Join_with ''/'' qs))"

text \<open>\<open>path.Dir\<close>: everything up to the last slash, cleaned.\<close>

definition path_Dir :: "string \<Rightarrow> string" where
  "path_Dir p = path_Clean (rev (dropWhile (\<lambda>c. c \<noteq> CHR ''/'') (rev p)))"

text \<open>\<open>filepath.Rel\<close> of two clean absolute paths.\<close>

fun drop_common :: "string list \<Rightarrow> string list \<Rightarrow> string list \<times> string list" where
  "drop_common (a # as) (b # bs) = (if a = b then drop_common as bs else (a # as, b # bs))"
| "drop_common as bs = (as, bs)"

definition path_Rel :: "string \<Rightarrow> string \<Rightarrow> string" where
  "path_Rel base targ =
     (let comps = (\<lambda>p. filter (\<lambda>w. w \<noteq> []) (Split CHR ''/'' p));
          (as, bs) = drop_common (comps base) (comps targ);
          cs = map (\<lambda>_. ''..'') as @ bs
      in if cs = [] then ''.'' else Join_with ''/'' cs)"

end
