(* ===== verification/GoFloat.thy ===== *)
theory GoFloat
  imports Prelude Complex_Main
begin

text \<open>
  Go's floating point numbers as rationals with the rounding written out: every operation is
  the exact one followed by rounding to the nearest value with \<open>p\<close> significant bits, ties to
  even (\<open>p = 24\<close> for \<open>float32\<close>, \<open>p = 53\<close> for \<open>float64\<close>). The values the program computes
  (points, times in seconds, instruction counts and their ratios) stay in the normal exponent
  range, so neither underflow nor overflow is modelled. A division by zero gives an infinity
  or NaN, as in IEEE 754.
\<close>

section \<open>Rounding\<close>

definition round_half_even :: "rat \<Rightarrow> int" where
  "round_half_even r =
     (let f = \<lfloor>r\<rfloor>; d = r - of_int f
      in if d < 1 / 2 then f else if 1 / 2 < d then f + 1 else if even f then f else f + 1)"

lemma round_half_even_le: "r \<le> of_int m \<Longrightarrow> round_half_even r \<le> m"
proof -
  assume r: "r \<le> of_int m"
  have f: "\<lfloor>r\<rfloor> \<le> m" using r by linarith
  show ?thesis
  proof (cases "\<lfloor>r\<rfloor> = m")
    case True
    with r have "r - of_int \<lfloor>r\<rfloor> \<le> 0" by simp
    with True show ?thesis by (simp add: round_half_even_def)
  next
    case False
    with f have "\<lfloor>r\<rfloor> + 1 \<le> m" by simp
    with f show ?thesis by (simp add: round_half_even_def Let_def)
  qed
qed

lemma round_half_even_ge: "of_int m \<le> r \<Longrightarrow> m \<le> round_half_even r"
proof -
  assume r: "of_int m \<le> r"
  then have "m \<le> \<lfloor>r\<rfloor>" by (simp add: le_floor_iff)
  then show ?thesis by (simp add: round_half_even_def Let_def)
qed

text \<open>The number of binary digits of a positive integer.\<close>

fun bit_len :: "int \<Rightarrow> nat" where
  "bit_len n = (if n \<le> 0 then 0 else Suc (bit_len (n div 2)))"

declare bit_len.simps [simp del]

lemma bit_len_bounds: "0 < n \<Longrightarrow> 2 ^ (bit_len n - 1) \<le> n \<and> n < 2 ^ bit_len n \<and> 0 < bit_len n"
proof (induction n rule: bit_len.induct)
  case (1 n)
  show ?case
  proof (cases "n div 2 = 0")
    case True
    with 1(2) have "n = 1" by linarith
    then show ?thesis by (simp add: bit_len.simps)
  next
    case False
    with 1(2) have "0 < n div 2" by linarith
    with 1 have IH: "2 ^ (bit_len (n div 2) - 1) \<le> n div 2" "n div 2 < 2 ^ bit_len (n div 2)"
      "0 < bit_len (n div 2)" by auto
    obtain k where k: "bit_len (n div 2) = Suc k" using IH(3) by (cases "bit_len (n div 2)") auto
    have b: "bit_len n = Suc (Suc k)"
      using 1(2) k by (subst bit_len.simps) simp
    have "2 ^ Suc k \<le> n" using IH(1) k by simp
    moreover have "n < 2 ^ Suc (Suc k)" using IH(2) k by simp
    ultimately show ?thesis by (simp add: b)
  qed
qed

definition pow2 :: "int \<Rightarrow> rat" where
  "pow2 k = (if 0 \<le> k then 2 ^ nat k else 1 / 2 ^ nat (- k))"

lemma pow2_pos [simp]: "0 < pow2 k"
  by (simp add: pow2_def)

lemma pow2_powi: "pow2 k = 2 powi k"
  by (simp add: pow2_def power_int_def field_simps)

lemma pow2_add: "pow2 (i + j) = pow2 i * pow2 j"
  unfolding pow2_powi by (rule power_int_add) simp

lemma pow2_nat: "pow2 (int n) = 2 ^ n"
  by (simp add: pow2_def)

lemma pow2_mono: "i \<le> j \<Longrightarrow> pow2 i \<le> pow2 j"
  unfolding pow2_powi by (rule power_int_increasing) simp_all

text \<open>The exponent \<open>e\<close> of a positive rational, \<open>2 powi e \<le> x\<close>.\<close>

definition expo :: "rat \<Rightarrow> int" where
  "expo x =
     (let (a, b) = quotient_of x;
          e = int (bit_len a) - int (bit_len b)
      in if pow2 e \<le> x then e else e - 1)"

lemma expo_le: "0 < x \<Longrightarrow> pow2 (expo x) \<le> x"
proof -
  assume x: "0 < x"
  obtain a b where q: "quotient_of x = (a, b)" by force
  have b0: "0 < b" using quotient_of_denom_pos [OF q] .
  have xq: "x = of_int a / of_int b" using quotient_of_div [OF q] .
  with x b0 have a0: "0 < a" by (simp add: zero_less_divide_iff)
  let ?la = "bit_len a" and ?lb = "bit_len b"
  have la: "2 ^ (?la - 1) \<le> a" "0 < ?la" using bit_len_bounds [of a] a0 by auto
  have lb: "b < 2 ^ ?lb" using bit_len_bounds [of b] b0 by auto
  have A: "(2::rat) ^ (?la - 1) \<le> of_int a"
  proof -
    have "rat_of_int (2 ^ (?la - 1)) \<le> of_int a" using la(1) by (simp only: of_int_le_iff)
    then show ?thesis by simp
  qed
  have B: "of_int b \<le> (2::rat) ^ ?lb"
  proof -
    have "of_int b \<le> rat_of_int (2 ^ ?lb)" using lb by (simp only: of_int_le_iff less_imp_le)
    then show ?thesis by simp
  qed
  have "pow2 (int ?la - int ?lb - 1) * 2 ^ ?lb = 2 ^ (?la - 1)"
  proof -
    have "pow2 (int ?la - int ?lb - 1) * 2 ^ ?lb = pow2 (int (?la - 1))"
      using la(2) by (simp add: pow2_nat [symmetric] pow2_add [symmetric] of_nat_diff algebra_simps)
    then show ?thesis by (simp only: pow2_nat)
  qed
  with A have "pow2 (int ?la - int ?lb - 1) * 2 ^ ?lb \<le> of_int a" by simp
  moreover have "pow2 (int ?la - int ?lb - 1) * of_int b \<le> pow2 (int ?la - int ?lb - 1) * 2 ^ ?lb"
    using B by (intro mult_left_mono) (simp_all add: less_imp_le)
  ultimately have "pow2 (int ?la - int ?lb - 1) * of_int b \<le> of_int a" by linarith
  then have "pow2 (int ?la - int ?lb - 1) \<le> x"
    using b0 by (simp add: xq pos_le_divide_eq)
  then show ?thesis by (simp add: expo_def q Let_def)
qed

definition fl_round_pos :: "nat \<Rightarrow> rat \<Rightarrow> rat" where
  "fl_round_pos p x =
     (let q = pow2 (expo x - int p + 1) in of_int (round_half_even (x / q)) * q)"

definition fl_round :: "nat \<Rightarrow> rat \<Rightarrow> rat" where
  "fl_round p x =
     (if x = 0 then 0 else if 0 < x then fl_round_pos p x else - fl_round_pos p (- x))"

text \<open>
  An integer below \<open>2 ^ p\<close> has no rounding error, and rounding never crosses it.
\<close>

lemma fl_round_le_nat:
  assumes "0 \<le> x" and "x \<le> of_nat n" and "n < 2 ^ p" and "0 < p"
  shows "fl_round p x \<le> of_nat n"
proof (cases "x = 0")
  case True
  then show ?thesis by (simp add: fl_round_def)
next
  case False
  with assms(1) have x: "0 < x" by simp
  let ?k = "expo x - int p + 1"
  let ?q = "pow2 ?k"
  show ?thesis
  proof (cases "?k \<le> 0")
    case True
    have nq: "of_nat n / ?q = of_int (int n * 2 ^ nat (- ?k))"
      using True by (simp add: pow2_def)
    have "x / ?q \<le> of_nat n / ?q" using assms(2) by (simp add: divide_right_mono less_imp_le)
    then have "round_half_even (x / ?q) \<le> int n * 2 ^ nat (- ?k)"
      unfolding nq by (rule round_half_even_le)
    then have "rat_of_int (round_half_even (x / ?q)) \<le> of_nat n / ?q"
      unfolding nq by (simp only: of_int_le_iff)
    then have "of_int (round_half_even (x / ?q)) * ?q \<le> of_nat n"
      by (simp add: pos_le_divide_eq)
    then show ?thesis using x by (simp add: fl_round_def fl_round_pos_def Let_def)
  next
    case False
    then have "pow2 (int p) \<le> pow2 (expo x)" by (intro pow2_mono) simp
    with expo_le [OF x] have "2 ^ p \<le> x" by (simp add: pow2_nat)
    moreover have "of_nat n < (2::rat) ^ p"
      using assms(3) by (metis of_nat_less_iff of_nat_numeral of_nat_power)
    ultimately show ?thesis using assms(2) by linarith
  qed
qed

lemma fl_round_ge_nat:
  assumes "of_nat n \<le> x" and "n < 2 ^ p" and "0 < p"
  shows "of_nat n \<le> fl_round p x"
proof (cases "x = 0")
  case True
  with assms show ?thesis by (simp add: fl_round_def)
next
  case False
  with assms(1) have x: "0 < x" by (metis of_nat_0_le_iff order.not_eq_order_implies_strict order_trans)
  let ?k = "expo x - int p + 1"
  let ?q = "pow2 ?k"
  have R: "fl_round p x = of_int (round_half_even (x / ?q)) * ?q"
    using x by (simp add: fl_round_def fl_round_pos_def Let_def)
  show ?thesis
  proof (cases "?k \<le> 0")
    case True
    have nq: "of_nat n / ?q = of_int (int n * 2 ^ nat (- ?k))"
      using True by (simp add: pow2_def)
    have "of_nat n / ?q \<le> x / ?q" using assms(1) by (simp add: divide_right_mono less_imp_le)
    then have "int n * 2 ^ nat (- ?k) \<le> round_half_even (x / ?q)"
      unfolding nq by (rule round_half_even_ge)
    then have "of_nat n / ?q \<le> rat_of_int (round_half_even (x / ?q))"
      unfolding nq by (simp only: of_int_le_iff)
    then show ?thesis by (simp add: R pos_divide_le_eq)
  next
    case False
    have e: "expo x = int (p - 1) + ?k" using assms(3) by (simp add: of_nat_diff)
    have "pow2 (int (p - 1)) * ?q \<le> x"
      using expo_le [OF x] e by (metis pow2_add)
    then have "of_int (2 ^ (p - 1)) \<le> x / ?q"
      by (simp add: pow2_nat pos_le_divide_eq)
    then have "2 ^ (p - 1) \<le> round_half_even (x / ?q)" by (rule round_half_even_ge)
    then have "rat_of_int (2 ^ (p - 1)) \<le> of_int (round_half_even (x / ?q))"
      by (simp only: of_int_le_iff)
    then have "pow2 (int (p - 1)) * ?q \<le> fl_round p x"
      unfolding R by (intro mult_right_mono) (simp_all add: pow2_nat less_imp_le)
    then have "pow2 (expo x) \<le> fl_round p x" using e by (metis pow2_add)
    moreover have "pow2 (int p) \<le> pow2 (expo x)" using False by (intro pow2_mono) simp
    moreover have "of_nat n \<le> pow2 (int p)"
      unfolding pow2_nat using assms(2) by (metis less_imp_le of_nat_le_iff of_nat_numeral of_nat_power)
    ultimately show ?thesis by linarith
  qed
qed

lemma fl_round_nat: "n < 2 ^ p \<Longrightarrow> 0 < p \<Longrightarrow> fl_round p (of_nat n) = of_nat n"
  by (intro antisym fl_round_le_nat fl_round_ge_nat) simp_all

section \<open>The two formats\<close>

type_synonym float32 = rat
type_synonym float64 = rat

definition f32 :: "rat \<Rightarrow> float32" where
  "f32 = fl_round 24"

definition f64 :: "rat \<Rightarrow> float64" where
  "f64 = fl_round 53"

lemma f32_0 [simp]: "f32 0 = 0"
  by (simp add: f32_def fl_round_def)

lemma f64_0 [simp]: "f64 0 = 0"
  by (simp add: f64_def fl_round_def)

lemma f32_nonneg: "0 \<le> x \<Longrightarrow> 0 \<le> f32 x"
  using fl_round_ge_nat [of 0 x 24] by (simp add: f32_def)

lemma f64_nonneg: "0 \<le> x \<Longrightarrow> 0 \<le> f64 x"
  using fl_round_ge_nat [of 0 x 53] by (simp add: f64_def)

text \<open>A quotient may be infinite or not a number; comparisons with NaN are false.\<close>

datatype gofloat = Fin rat | PInf | NInf | NaN

definition fdiv64 :: "float64 \<Rightarrow> float64 \<Rightarrow> gofloat" where
  "fdiv64 x y =
     (if y = 0 then (if x = 0 then NaN else if 0 < x then PInf else NInf) else Fin (f64 (x / y)))"

fun flt :: "gofloat \<Rightarrow> gofloat \<Rightarrow> bool" where
  "flt NaN _ = False"
| "flt _ NaN = False"
| "flt (Fin x) (Fin y) = (x < y)"
| "flt (Fin _) PInf = True"
| "flt NInf PInf = True"
| "flt NInf (Fin _) = True"
| "flt _ _ = False"

end
