(* ===== verification/Version.thy ===== *)
theory Version
  imports Prelude GoStrings
begin

text \<open>
  \<open>version.go\<close>: the program version a client sends with its requests, its text and its
  order. The server refuses clients below a minimum version, and the client refuses an old
  \<open>git\<close>. \<open>CompareTo\<close> is the comparison of a linear order, so the type is an instance of
  \<open>linorder\<close> through it.
\<close>

datatype ProgramVersion = ProgramVersion (Major: uint) (Minor: uint) (Revision: uint)

definition this_Version :: ProgramVersion where
  "this_Version = ProgramVersion 1 3 2"

definition ProgramVersion_String :: "ProgramVersion \<Rightarrow> string" where
  "ProgramVersion_String v =
     Itoa (unat (Major v)) @ ''.'' @ Itoa (unat (Minor v)) @ ''.'' @ Itoa (unat (Revision v))"

definition CompareTo :: "ProgramVersion \<Rightarrow> ProgramVersion \<Rightarrow> int" where
  "CompareTo this other =
     (if Major this > Major other then 1
      else if Major this < Major other then - 1
      else if Minor this > Minor other then 1
      else if Minor this < Minor other then - 1
      else if Revision this > Revision other then 1
      else if Revision this < Revision other then - 1
      else 0)"

lemma CompareTo_range: "CompareTo v w \<in> {- 1, 0, 1}"
  by (simp add: CompareTo_def)

lemma CompareTo_self [simp]: "CompareTo v v = 0"
  by (simp add: CompareTo_def)

lemma CompareTo_eq_0 [simp]: "CompareTo v w = 0 \<longleftrightarrow> v = w"
  by (cases v; cases w) (auto simp: CompareTo_def)

lemma CompareTo_swap: "CompareTo w v = - CompareTo v w"
  by (auto simp: CompareTo_def)

lemma CompareTo_less:
  "CompareTo v w < 0 \<longleftrightarrow>
   (Major v < Major w \<or> Major v = Major w \<and>
     (Minor v < Minor w \<or> Minor v = Minor w \<and> Revision v < Revision w))"
  by (auto simp: CompareTo_def)

instantiation ProgramVersion :: linorder
begin

definition less_eq_ProgramVersion :: "ProgramVersion \<Rightarrow> ProgramVersion \<Rightarrow> bool" where
  "less_eq_ProgramVersion v w \<longleftrightarrow> CompareTo v w \<le> 0"

definition less_ProgramVersion :: "ProgramVersion \<Rightarrow> ProgramVersion \<Rightarrow> bool" where
  "less_ProgramVersion v w \<longleftrightarrow> CompareTo v w < 0"

instance
proof
  fix u v w :: ProgramVersion
  have le: "a \<le> b \<longleftrightarrow> a < b \<or> a = b" for a b :: ProgramVersion
    by (auto simp: less_eq_ProgramVersion_def less_ProgramVersion_def le_less)
  show "v < w \<longleftrightarrow> v \<le> w \<and> \<not> w \<le> v"
    using CompareTo_swap [of v w] by (auto simp: less_eq_ProgramVersion_def less_ProgramVersion_def)
  show "v \<le> v" by (simp add: less_eq_ProgramVersion_def)
  have trans: "u < v \<Longrightarrow> v < w \<Longrightarrow> u < w"
    unfolding less_ProgramVersion_def CompareTo_less by auto
  show "u \<le> v \<Longrightarrow> v \<le> w \<Longrightarrow> u \<le> w"
    using trans by (auto simp: le)
  show "v \<le> w \<Longrightarrow> w \<le> v \<Longrightarrow> v = w"
    using CompareTo_swap [of v w] by (auto simp: less_eq_ProgramVersion_def)
  show "v \<le> w \<or> w \<le> v"
    using CompareTo_swap [of v w] by (auto simp: less_eq_ProgramVersion_def)
qed

end

text \<open>
  \<open>CompareTo\<close> is a three-way comparison: its result is the sign of the order it defines,
  it is antisymmetric and transitive, and it is 0 exactly on equal versions.
\<close>

theorem CompareTo_three_way:
  "CompareTo u v \<in> {- 1, 0, 1} \<and> CompareTo v u = - CompareTo u v \<and>
   (CompareTo u v = 0 \<longleftrightarrow> u = v) \<and>
   (CompareTo u v \<ge> 0 \<and> CompareTo v w \<ge> 0 \<longrightarrow> CompareTo u w \<ge> 0)"
proof -
  have "CompareTo a b \<ge> 0 \<longleftrightarrow> b \<le> a" for a b
    using CompareTo_swap [of b a] by (simp add: less_eq_ProgramVersion_def)
  then show ?thesis
    using CompareTo_range [of u v] CompareTo_swap [of v u] by (auto intro: order_trans)
qed

theorem CompareTo_three_way_witness:
  "CompareTo (ProgramVersion 2 3 0) (ProgramVersion 1 9 9) \<ge> 0 \<and>
   CompareTo (ProgramVersion 1 9 9) (ProgramVersion 1 9 0) \<ge> 0 \<and>
   CompareTo (ProgramVersion 2 3 0) (ProgramVersion 1 9 0) \<ge> 0"
  using CompareTo_three_way [of "ProgramVersion 2 3 0" "ProgramVersion 1 9 9" "ProgramVersion 1 9 0"]
  by (simp add: CompareTo_def)

end
