(* ===== verification/Graph.thy ===== *)
theory Graph
  imports Prelude GoStrings
begin

text \<open>
  \<open>graph/graph.go\<close>: the directed graph of the tests' dependencies and its topological sort.
  A graph is a map from names to nodes, and a node keeps the names of the nodes its edges lead
  to and come from. A \<open>*Node\<close> in an edge map is the node the graph holds under that name, so
  the model keeps the name and reads the node through the graph's map: this is the program as
  long as \<open>AddNode\<close> is not called twice with one key, which \<open>wf_graph\<close> carries along.
  The type \<open>'v\<close> is the \<open>Keyer\<close> and the argument \<open>key\<close> its method \<open>Key\<close>.
\<close>

section \<open>Nodes and edges\<close>

record 'v node =
  n_Name :: string
  n_Value :: 'v
  n_EdgesOut :: "string list"
  n_EdgesIn :: "string list"

record 'v graph =
  g_NodeMap :: "(string, 'v node) gomap"

definition g_node :: "'v graph \<Rightarrow> string \<Rightarrow> 'v node option" where
  "g_node g k = map_of (g_NodeMap g) k"

definition g_names :: "'v graph \<Rightarrow> string list" where
  "g_names g = gm_keys (g_NodeMap g)"

text \<open>Writing through a node pointer.\<close>

definition upd_node :: "string \<Rightarrow> ('v node \<Rightarrow> 'v node) \<Rightarrow> 'v graph \<Rightarrow> 'v graph" where
  "upd_node k f g = g\<lparr>g_NodeMap := map (\<lambda>(j, n). if j = k then (j, f n) else (j, n)) (g_NodeMap g)\<rparr>"

definition addEdgeIn :: "string \<Rightarrow> 'v node \<Rightarrow> 'v node" where
  "addEdgeIn edgeNode n =
     n\<lparr>n_EdgesIn := (if edgeNode \<in> set (n_EdgesIn n) then n_EdgesIn n else n_EdgesIn n @ [edgeNode])\<rparr>"

definition addEdgeOut :: "string \<Rightarrow> 'v node \<Rightarrow> 'v node" where
  "addEdgeOut edgeNode n =
     n\<lparr>n_EdgesOut := (if edgeNode \<in> set (n_EdgesOut n) then n_EdgesOut n else n_EdgesOut n @ [edgeNode])\<rparr>"

definition removeEdgeIn :: "string \<Rightarrow> 'v node \<Rightarrow> 'v node" where
  "removeEdgeIn edgeNode n = n\<lparr>n_EdgesIn := removeAll edgeNode (n_EdgesIn n)\<rparr>"

definition removeEdgeOut :: "string \<Rightarrow> 'v node \<Rightarrow> 'v node" where
  "removeEdgeOut edgeNode n = n\<lparr>n_EdgesOut := removeAll edgeNode (n_EdgesOut n)\<rparr>"

section \<open>Graphs\<close>

definition AddNode :: "('v \<Rightarrow> string) \<Rightarrow> 'v \<Rightarrow> 'v graph \<Rightarrow> 'v graph" where
  "AddNode key v g =
     g\<lparr>g_NodeMap := gm_put (key v) \<lparr>n_Name = key v, n_Value = v, n_EdgesOut = [], n_EdgesIn = []\<rparr> (g_NodeMap g)\<rparr>"

definition New :: "('v \<Rightarrow> string) \<Rightarrow> 'v list \<Rightarrow> 'v graph" where
  "New key nodes = fold (AddNode key) nodes \<lparr>g_NodeMap = []\<rparr>"

definition addEdge :: "string \<Rightarrow> string \<Rightarrow> 'v graph \<Rightarrow> 'v graph" where
  "addEdge from to g = upd_node to (addEdgeIn from) (upd_node from (addEdgeOut to) g)"

definition AddEdge :: "('v \<Rightarrow> string) \<Rightarrow> 'v \<Rightarrow> 'v \<Rightarrow> 'v graph \<Rightarrow> string + 'v graph" where
  "AddEdge key from to g =
     (if from = to then Inl ''From node cannot be the same as To node''
      else if g_node g (key from) = None then Inl ''from node not found''
      else if g_node g (key to) = None then Inl ''to node not found''
      else Inr (addEdge (key from) (key to) g))"

definition copy :: "('v \<Rightarrow> string) \<Rightarrow> 'v graph \<Rightarrow> 'v graph" where
  "copy key g =
     (let other = New key (map (n_Value \<circ> snd) (g_NodeMap g))
      in fold (\<lambda>(fromId, node). fold (addEdge fromId) (n_EdgesOut node)) (g_NodeMap g) other)"

section \<open>Topological sort\<close>

text \<open>The inner loop: the edges that leave \<open>node\<close> are deleted one after the other.\<close>

fun relax :: "string \<Rightarrow> string list \<Rightarrow> 'v graph \<Rightarrow> string list \<Rightarrow> 'v graph \<times> string list" where
  "relax node [] g queue = (g, queue)"
| "relax node (outgoing # outs) g queue =
     (let g' = upd_node outgoing (removeEdgeIn node) g
      in relax node outs g'
           (case g_node g' outgoing of
              Some n \<Rightarrow> if n_EdgesIn n = [] then queue @ [outgoing] else queue
            | None \<Rightarrow> queue))"

definition out_edges :: "'v graph \<Rightarrow> string \<Rightarrow> string list" where
  "out_edges g k = (case g_node g k of Some n \<Rightarrow> n_EdgesOut n | None \<Rightarrow> [])"

definition in_edges :: "'v graph \<Rightarrow> string \<Rightarrow> string list" where
  "in_edges g k = (case g_node g k of Some n \<Rightarrow> n_EdgesIn n | None \<Rightarrow> [])"

definition clear_out :: "string \<Rightarrow> 'v graph \<Rightarrow> 'v graph" where
  "clear_out k = upd_node k (\<lambda>n. n\<lparr>n_EdgesOut := []\<rparr>)"

definition edge_count :: "'v graph \<Rightarrow> nat" where
  "edge_count g = sum_list (map (\<lambda>(_, n). length (n_EdgesOut n)) (g_NodeMap g))"

lemma g_node_upd [simp]:
  "g_node (upd_node k f g) j = (if j = k then map_option f (g_node g j) else g_node g j)"
proof -
  have "map_of (map (\<lambda>(j, n). if j = k then (j, f n) else (j, n)) m) j =
      (if j = k then map_option f (map_of m j) else map_of m j)" for m
    by (induction m) auto
  then show ?thesis by (simp add: g_node_def upd_node_def)
qed

lemma g_names_upd [simp]: "g_names (upd_node k f g) = g_names g"
  by (auto simp: g_names_def upd_node_def comp_def intro!: map_cong split: prod.splits)

lemma edge_count_upd_same:
  "(\<And>n. length (n_EdgesOut (f n)) = length (n_EdgesOut n)) \<Longrightarrow> edge_count (upd_node k f g) = edge_count g"
  by (auto simp: edge_count_def upd_node_def comp_def intro!: arg_cong [where f = sum_list] map_cong
      split: prod.splits)

lemma edge_count_clear: "edge_count (clear_out k g) + length (out_edges g k) \<le> edge_count g"
proof -
  have "sum_list (map (\<lambda>(_, n). length (n_EdgesOut n)) (map (\<lambda>(j, n). if j = k then (j, n\<lparr>n_EdgesOut := []\<rparr>) else (j, n)) m)) +
      length (case map_of m k of Some n \<Rightarrow> n_EdgesOut n | None \<Rightarrow> [])
      \<le> sum_list (map (\<lambda>(_, n). length (n_EdgesOut n)) m)" for m
    by (induction m) (auto split: option.splits)
  then show ?thesis by (simp add: edge_count_def clear_out_def upd_node_def out_edges_def g_node_def)
qed

lemma relax_measure:
  "relax node outs g queue = (g', queue') \<Longrightarrow>
   edge_count g' = edge_count g \<and> length queue' \<le> length queue + length outs \<and>
   out_edges g' = out_edges g"
proof (induction node outs g queue arbitrary: g' queue' rule: relax.induct)
  case (1 node g queue)
  then show ?case by simp
next
  case (2 node outgoing outs g queue)
  let ?g = "upd_node outgoing (removeEdgeIn node) g"
  let ?e = "case g_node ?g outgoing of
      Some n \<Rightarrow> if n_EdgesIn n = [] then queue @ [outgoing] else queue | None \<Rightarrow> queue"
  have r: "relax node outs ?g ?e = (g', queue')" using 2(2) by (simp add: Let_def)
  have "out_edges ?g = out_edges g"
    by (rule ext) (auto simp: out_edges_def removeEdgeIn_def split: option.splits)
  moreover have "edge_count ?g = edge_count g"
    by (rule edge_count_upd_same) (simp add: removeEdgeIn_def)
  moreover have "length ?e \<le> length queue + 1" by (auto split: option.splits)
  ultimately show ?case using 2(1) [OF refl r] by auto
qed

text \<open>
  The outer loop ends for every graph: a round deletes the edges of one node and lengthens the
  queue by at most their number, after taking one name off it.
\<close>

function topsort_loop :: "'v graph \<Rightarrow> string list \<Rightarrow> string list \<Rightarrow> 'v graph \<times> string list" where
  "topsort_loop g [] sorted_names = (g, sorted_names)"
| "topsort_loop g (node # queue) sorted_names =
     (case relax node (out_edges g node) g queue of
        (g', queue') \<Rightarrow> topsort_loop (clear_out node g') queue' (sorted_names @ [node]))"
  by pat_completeness auto
termination
proof (relation "measure (\<lambda>(g, queue, sorted_names). edge_count g + length queue)", goal_cases)
  case 1
  show ?case by simp
next
  case (2 g node queue sorted_names g' queue')
  then have r: "relax node (out_edges g node) g queue = (g', queue')" by simp
  from relax_measure [OF r] have "edge_count (clear_out node g') + length (out_edges g node) \<le> edge_count g"
    using edge_count_clear [of node g'] by simp
  with relax_measure [OF r] show ?case by simp
qed

definition has_edges :: "'v node \<Rightarrow> bool" where
  "has_edges n \<longleftrightarrow> n_EdgesIn n \<noteq> [] \<or> n_EdgesOut n \<noteq> []"

definition TopSort :: "('v \<Rightarrow> string) \<Rightarrow> 'v graph \<Rightarrow> string + string list" where
  "TopSort key g =
     (let c = copy key g;
          queue = map fst (filter (\<lambda>(_, n). n_EdgesIn n = []) (g_NodeMap c));
          (c', sorted_names) = topsort_loop c queue []
      in if list_ex (\<lambda>(_, n). has_edges n) (g_NodeMap c') then Inl ''Cycle!'' else Inr sorted_names)"

section \<open>Well-formed graphs\<close>

definition edges :: "'v graph \<Rightarrow> (string \<times> string) set" where
  "edges g = {(u, v). v \<in> set (out_edges g u)}"

definition wf_graph :: "('v \<Rightarrow> string) \<Rightarrow> 'v graph \<Rightarrow> bool" where
  "wf_graph key g \<longleftrightarrow>
     distinct (g_names g) \<and>
     (\<forall>k n. g_node g k = Some n \<longrightarrow>
        n_Name n = k \<and> key (n_Value n) = k \<and> distinct (n_EdgesOut n) \<and> distinct (n_EdgesIn n)) \<and>
     (\<forall>u v. v \<in> set (out_edges g u) \<longleftrightarrow> u \<in> set (in_edges g v))"

lemma g_node_names: "g_node g k \<noteq> None \<longleftrightarrow> k \<in> set (g_names g)"
  by (simp add: g_node_def g_names_def map_of_eq_None_iff)

lemma g_names_iff: "k \<in> set (g_names g) \<longleftrightarrow> (\<exists>n. g_node g k = Some n)"
  using g_node_names [of g k] by auto

lemma g_node_in: "distinct (g_names g) \<Longrightarrow> g_node g k = Some n \<longleftrightarrow> (k, n) \<in> set (g_NodeMap g)"
  by (simp add: g_node_def g_names_def)

lemma out_edges_names: "v \<in> set (out_edges g u) \<Longrightarrow> u \<in> set (g_names g)"
  by (cases "g_node g u") (auto simp: out_edges_def g_names_iff)

lemma in_edges_names: "v \<in> set (in_edges g u) \<Longrightarrow> u \<in> set (g_names g)"
  by (cases "g_node g u") (auto simp: in_edges_def g_names_iff)

lemma wf_edges_names: "wf_graph key g \<Longrightarrow> (u, v) \<in> edges g \<Longrightarrow> u \<in> set (g_names g) \<and> v \<in> set (g_names g)"
  using out_edges_names [of v g u] in_edges_names [of u g v] by (auto simp: edges_def wf_graph_def)

lemma wf_graph_edges: "wf_graph key g \<Longrightarrow> (u, v) \<in> edges g \<longleftrightarrow> u \<in> set (in_edges g v)"
  by (simp add: edges_def wf_graph_def)

lemma wf_distinct_out: "wf_graph key g \<Longrightarrow> distinct (out_edges g u)"
  by (auto simp: wf_graph_def out_edges_def split: option.splits)

subsection \<open>Building a graph\<close>

lemma g_node_AddNode:
  "g_node (AddNode key v g) k =
   (if k = key v then Some \<lparr>n_Name = key v, n_Value = v, n_EdgesOut = [], n_EdgesIn = []\<rparr> else g_node g k)"
  by (simp add: g_node_def AddNode_def)

lemma set_g_names_AddNode: "set (g_names (AddNode key v g)) = insert (key v) (set (g_names g))"
  by (simp add: g_names_def AddNode_def gm_keys_put del: set_map)

lemma New_props:
  "distinct (g_names (New key vs)) \<and> set (g_names (New key vs)) = key ` set vs \<and>
   (\<forall>k n. g_node (New key vs) k = Some n \<longrightarrow>
      n_Name n = k \<and> key (n_Value n) = k \<and> n_EdgesOut n = [] \<and> n_EdgesIn n = [])"
proof -
  have "distinct (g_names (fold (AddNode key) vs g)) \<and>
      set (g_names (fold (AddNode key) vs g)) = set (g_names g) \<union> key ` set vs \<and>
      (\<forall>k n. g_node (fold (AddNode key) vs g) k = Some n \<longrightarrow>
        n_Name n = k \<and> key (n_Value n) = k \<and> n_EdgesOut n = [] \<and> n_EdgesIn n = [])"
    if "distinct (g_names g)"
      "\<forall>k n. g_node g k = Some n \<longrightarrow>
        n_Name n = k \<and> key (n_Value n) = k \<and> n_EdgesOut n = [] \<and> n_EdgesIn n = []" for g
    using that
  proof (induction vs arbitrary: g)
    case Nil
    then show ?case by simp
  next
    case (Cons v vs)
    have "distinct (g_names (AddNode key v g))"
      using Cons.prems(1) by (simp add: g_names_def AddNode_def distinct_update)
    moreover have "\<forall>k n. g_node (AddNode key v g) k = Some n \<longrightarrow>
        n_Name n = k \<and> key (n_Value n) = k \<and> n_EdgesOut n = [] \<and> n_EdgesIn n = []"
      using Cons.prems(2) by (auto simp: g_node_AddNode)
    ultimately have "distinct (g_names (fold (AddNode key) vs (AddNode key v g))) \<and>
        set (g_names (fold (AddNode key) vs (AddNode key v g))) = set (g_names (AddNode key v g)) \<union> key ` set vs \<and>
        (\<forall>k n. g_node (fold (AddNode key) vs (AddNode key v g)) k = Some n \<longrightarrow>
          n_Name n = k \<and> key (n_Value n) = k \<and> n_EdgesOut n = [] \<and> n_EdgesIn n = [])"
      by (rule Cons.IH)
    then show ?case unfolding set_g_names_AddNode by simp
  qed
  from this [of "\<lparr>g_NodeMap = []\<rparr>"] show ?thesis
    by (simp add: New_def g_names_def g_node_def)
qed

lemma wf_New: "wf_graph key (New key vs)" and edges_New: "edges (New key vs) = {}"
  and names_New: "set (g_names (New key vs)) = key ` set vs"
proof -
  have "out_edges (New key vs) u = [] \<and> in_edges (New key vs) u = []" for u
    using New_props [of key vs] by (auto simp: out_edges_def in_edges_def split: option.splits)
  with New_props [of key vs] show "wf_graph key (New key vs)" "edges (New key vs) = {}"
    by (auto simp: wf_graph_def edges_def)
  show "set (g_names (New key vs)) = key ` set vs" using New_props by blast
qed

lemma out_edges_addEdge:
  "g_node g u \<noteq> None \<Longrightarrow>
   out_edges (addEdge u v g) k =
     (if k = u then (if v \<in> set (out_edges g u) then out_edges g u else out_edges g u @ [v]) else out_edges g k)"
  by (auto simp: out_edges_def addEdge_def addEdgeOut_def addEdgeIn_def split: option.splits)

lemma in_edges_addEdge:
  "g_node g v \<noteq> None \<Longrightarrow>
   in_edges (addEdge u v g) k =
     (if k = v then (if u \<in> set (in_edges g v) then in_edges g v else in_edges g v @ [u]) else in_edges g k)"
  by (auto simp: in_edges_def addEdge_def addEdgeOut_def addEdgeIn_def split: option.splits)

lemma names_addEdge [simp]: "g_names (addEdge u v g) = g_names g"
  by (simp add: addEdge_def)

lemma g_node_addEdge:
  "g_node (addEdge u v g) k = Some n \<Longrightarrow>
   \<exists>m. g_node g k = Some m \<and> n_Name n = n_Name m \<and> n_Value n = n_Value m"
  by (cases "g_node g k") (auto simp: addEdge_def addEdgeOut_def addEdgeIn_def split: if_splits)

lemma g_node_edges: "g_node g k = Some n \<Longrightarrow> n_EdgesOut n = out_edges g k \<and> n_EdgesIn n = in_edges g k"
  by (simp add: out_edges_def in_edges_def)

lemma wf_addEdge:
  assumes wf: "wf_graph key g" and uv: "u \<in> set (g_names g)" "v \<in> set (g_names g)"
  shows "wf_graph key (addEdge u v g) \<and> edges (addEdge u v g) = insert (u, v) (edges g)"
proof -
  from uv have some: "g_node g u \<noteq> None" "g_node g v \<noteq> None" by (auto simp: g_names_iff)
  have sym: "y \<in> set (out_edges g x) \<longleftrightarrow> x \<in> set (in_edges g y)" for x y
    using wf by (simp add: wf_graph_def)
  have "n_Name n = k \<and> key (n_Value n) = k \<and> distinct (n_EdgesOut n) \<and> distinct (n_EdgesIn n)"
    if "g_node (addEdge u v g) k = Some n" for k n
  proof -
    from g_node_addEdge [OF that] obtain m where m: "g_node g k = Some m"
      "n_Name n = n_Name m" "n_Value n = n_Value m" by blast
    have "distinct (out_edges g k)" "distinct (in_edges g k)" "n_Name m = k" "key (n_Value m) = k"
      using wf m by (auto simp: wf_graph_def out_edges_def in_edges_def)
    with m g_node_edges [OF that] show ?thesis
      by (auto simp: out_edges_addEdge [OF some(1)] in_edges_addEdge [OF some(2)])
  qed
  then have "wf_graph key (addEdge u v g)"
    using wf by (auto simp: wf_graph_def out_edges_addEdge [OF some(1)] in_edges_addEdge [OF some(2)] sym)
  moreover have "edges (addEdge u v g) = insert (u, v) (edges g)"
    by (auto simp: edges_def out_edges_addEdge [OF some(1)] split: if_splits)
  ultimately show ?thesis by blast
qed

lemma AddEdge_ok:
  assumes "wf_graph key g" and "AddEdge key from to g = Inr g'"
  shows "wf_graph key g' \<and> edges g' = insert (key from, key to) (edges g) \<and> g_names g' = g_names g \<and>
    from \<noteq> to \<and> key from \<in> set (g_names g) \<and> key to \<in> set (g_names g)"
  using assms wf_addEdge [OF assms(1), of "key from" "key to"]
  by (auto simp: AddEdge_def g_names_iff split: if_splits)

lemma fold_addEdge:
  assumes "wf_graph key g" and "u \<in> set (g_names g)" and "set vs \<subseteq> set (g_names g)"
  shows "wf_graph key (fold (addEdge u) vs g) \<and> g_names (fold (addEdge u) vs g) = g_names g \<and>
    edges (fold (addEdge u) vs g) = edges g \<union> {u} \<times> set vs"
  using assms
proof (induction vs arbitrary: g)
  case Nil
  then show ?case by simp
next
  case (Cons v vs)
  from wf_addEdge [OF Cons.prems(1,2), of v] Cons.prems(3)
  have "wf_graph key (addEdge u v g)" "edges (addEdge u v g) = insert (u, v) (edges g)" by auto
  with Cons.IH [of "addEdge u v g"] Cons.prems show ?case by auto
qed

text \<open>The copy has the nodes and edges of the original.\<close>

lemma copy_props:
  assumes wf: "wf_graph key g"
  shows "wf_graph key (copy key g) \<and> set (g_names (copy key g)) = set (g_names g) \<and>
    edges (copy key g) = edges g"
proof -
  let ?m = "g_NodeMap g"
  let ?other = "New key (map (n_Value \<circ> snd) ?m)"
  have dist: "distinct (g_names g)" using wf by (simp add: wf_graph_def)
  have keys: "key (n_Value n) = k" if "(k, n) \<in> set ?m" for k n
    using wf that g_node_in [OF dist, of k n] by (simp add: wf_graph_def)
  have "(key \<circ> n_Value \<circ> snd) ` set ?m = fst ` set ?m"
    using keys by (intro image_cong) auto
  then have names: "set (g_names ?other) = set (g_names g)"
    unfolding names_New by (simp add: g_names_def image_comp comp_assoc)
  have loop: "wf_graph key (fold (\<lambda>(fromId, node). fold (addEdge fromId) (n_EdgesOut node)) es h) \<and>
      g_names (fold (\<lambda>(fromId, node). fold (addEdge fromId) (n_EdgesOut node)) es h) = g_names h \<and>
      edges (fold (\<lambda>(fromId, node). fold (addEdge fromId) (n_EdgesOut node)) es h) =
        edges h \<union> {(u, v). \<exists>n. (u, n) \<in> set es \<and> v \<in> set (n_EdgesOut n)}"
    if "wf_graph key h" "set (g_names h) = set (g_names g)" "set es \<subseteq> set ?m" for h es
    using that
  proof (induction es arbitrary: h)
    case Nil
    then show ?case by simp
  next
    case (Cons e es)
    obtain u n where e: "e = (u, n)" by (cases e)
    with Cons.prems(3) have un: "g_node g u = Some n" using g_node_in [OF dist, of u n] by simp
    have u: "u \<in> set (g_names h)" using un Cons.prems(2) by (auto simp: g_names_iff)
    have vs: "set (n_EdgesOut n) \<subseteq> set (g_names h)"
      using wf_edges_names [OF wf, of u] un Cons.prems(2) by (auto simp: edges_def out_edges_def)
    from fold_addEdge [OF Cons.prems(1) u vs] Cons.IH [of "fold (addEdge u) (n_EdgesOut n) h"] Cons.prems(2,3) e
    show ?case by auto
  qed
  have "{(u, v). \<exists>n. (u, n) \<in> set ?m \<and> v \<in> set (n_EdgesOut n)} = edges g"
    using g_node_in [OF dist] by (force simp: edges_def out_edges_def split: option.splits)
  with loop [OF wf_New names subset_refl] names show ?thesis
    by (simp add: copy_def Let_def edges_New)
qed

section \<open>The sort is correct\<close>

definition comes_before :: "'a list \<Rightarrow> 'a \<Rightarrow> 'a \<Rightarrow> bool" where
  "comes_before xs u v \<longleftrightarrow> (\<exists>as bs cs. xs = as @ u # bs @ v # cs)"

lemma comes_before_append: "comes_before xs u v \<Longrightarrow> comes_before (xs @ ys) u v"
  unfolding comes_before_def by fastforce

lemma comes_before_last: "u \<in> set xs \<Longrightarrow> comes_before (xs @ [v]) u v"
  unfolding comes_before_def by (fastforce dest: split_list)

text \<open>An order of the nodes that every edge follows rules out a cycle.\<close>

lemma ordered_acyclic:
  assumes "distinct xs" and "\<And>u v. (u, v) \<in> r \<Longrightarrow> comes_before xs u v"
  shows "acyclic r"
proof -
  let ?pos = "\<lambda>v. length (takeWhile (\<lambda>x. x \<noteq> v) xs)"
  have "?pos u < ?pos v" if "(u, v) \<in> r" for u v
  proof -
    from assms(2) [OF that] obtain as bs cs where xs: "xs = as @ u # bs @ v # cs"
      unfolding comes_before_def by blast
    with assms(1) have "u \<notin> set as" "v \<notin> set as" "u \<noteq> v" "v \<notin> set bs" by auto
    then have "takeWhile (\<lambda>x. x \<noteq> u) xs = as" "takeWhile (\<lambda>x. x \<noteq> v) xs = as @ u # bs"
      unfolding xs by (auto simp: takeWhile_append)
    then show ?thesis by simp
  qed
  then have "r \<subseteq> measure ?pos" by auto
  then show ?thesis using wf_acyclic wf_measure wf_subset by blast
qed

lemma out_edges_relaxed:
  "(\<And>n. n_EdgesOut (f n) = n_EdgesOut n) \<Longrightarrow> out_edges (upd_node k f g) = out_edges g"
  by (rule ext) (auto simp: out_edges_def split: option.splits)

lemma in_edges_removed:
  "in_edges (upd_node k (removeEdgeIn u) g) v = (if v = k then removeAll u (in_edges g v) else in_edges g v)"
  by (auto simp: in_edges_def removeEdgeIn_def split: option.splits)

lemma in_edges_clear [simp]: "in_edges (clear_out k g) = in_edges g"
  by (rule ext) (auto simp: in_edges_def clear_out_def split: option.splits)

lemma out_edges_clear: "out_edges (clear_out k g) u = (if u = k then [] else out_edges g u)"
  by (auto simp: out_edges_def clear_out_def split: option.splits)

lemma names_clear [simp]: "g_names (clear_out k g) = g_names g"
  by (simp add: clear_out_def)

text \<open>What the inner loop does: the edges leave, and the targets left without an incoming edge queue up.\<close>

lemma relax_spec:
  assumes "relax node outs g queue = (g', queue')" and "distinct outs" and "set outs \<subseteq> set (g_names g)"
  shows "g_names g' = g_names g \<and> out_edges g' = out_edges g \<and>
    (\<forall>v. in_edges g' v = (if v \<in> set outs then removeAll node (in_edges g v) else in_edges g v)) \<and>
    queue' = queue @ filter (\<lambda>v. removeAll node (in_edges g v) = []) outs"
  using assms
proof (induction node outs g queue arbitrary: g' queue' rule: relax.induct)
  case (1 node g queue)
  then show ?case by simp
next
  case (2 node v outs g queue)
  let ?g = "upd_node v (removeEdgeIn node) g"
  let ?q = "if removeAll node (in_edges g v) = [] then queue @ [v] else queue"
  obtain n where n: "g_node g v = Some n" using 2(4) by (auto simp: g_names_iff)
  then have "(case g_node ?g v of Some n \<Rightarrow> if n_EdgesIn n = [] then queue @ [v] else queue
      | None \<Rightarrow> queue) = ?q"
    by (simp add: removeEdgeIn_def in_edges_def)
  then have r: "relax node outs ?g ?q = (g', queue')" using 2(2) by (simp add: Let_def)
  have IH: "g_names g' = g_names ?g \<and> out_edges g' = out_edges ?g \<and>
    (\<forall>v. in_edges g' v = (if v \<in> set outs then removeAll node (in_edges ?g v) else in_edges ?g v)) \<and>
    queue' = ?q @ filter (\<lambda>v. removeAll node (in_edges ?g v) = []) outs"
    using 2(1) [OF refl, of g' queue'] r 2(3,4) n by (simp add: removeEdgeIn_def in_edges_def)
  have out: "out_edges ?g = out_edges g"
    by (rule out_edges_relaxed) (simp add: removeEdgeIn_def)
  have "v \<notin> set outs" using 2(3) by simp
  then have f: "filter (\<lambda>v. removeAll node (in_edges ?g v) = []) outs =
      filter (\<lambda>v. removeAll node (in_edges g v) = []) outs"
    by (intro filter_cong refl) (auto simp: in_edges_removed)
  show ?case using IH out f \<open>v \<notin> set outs\<close> by (auto simp: in_edges_removed)
qed

definition kahn_inv :: "string list \<Rightarrow> (string \<times> string) set \<Rightarrow> 'v graph \<Rightarrow> string list \<Rightarrow> string list \<Rightarrow> bool" where
  "kahn_inv N E g queue done_names \<longleftrightarrow>
     g_names g = N \<and> distinct (done_names @ queue) \<and> set (done_names @ queue) \<subseteq> set N \<and>
     (\<forall>u. distinct (out_edges g u)) \<and>
     (\<forall>u v. v \<in> set (out_edges g u) \<longleftrightarrow> (u, v) \<in> E \<and> u \<notin> set done_names) \<and>
     (\<forall>u v. u \<in> set (in_edges g v) \<longleftrightarrow> (u, v) \<in> E \<and> u \<notin> set done_names) \<and>
     (\<forall>v\<in>set N. in_edges g v = [] \<longleftrightarrow> v \<in> set (done_names @ queue)) \<and>
     (\<forall>u v. (u, v) \<in> E \<longrightarrow> v \<in> set done_names \<longrightarrow> comes_before done_names u v)"

lemma empty_iff_no_member: "xs = [] \<longleftrightarrow> (\<forall>x. x \<notin> set xs)"
  by (cases xs) auto

lemma kahn_step:
  assumes inv: "kahn_inv N E g (node # queue) done_names" and EN: "E \<subseteq> set N \<times> set N"
    and r: "relax node (out_edges g node) g queue = (g', queue')"
  shows "kahn_inv N E (clear_out node g') queue' (done_names @ [node])"
proof -
  let ?outs = "out_edges g node"
  from inv have N: "g_names g = N" and dist: "distinct (done_names @ node # queue)"
    and sub: "set (done_names @ node # queue) \<subseteq> set N" and dout: "\<And>u. distinct (out_edges g u)"
    and out: "\<And>u v. v \<in> set (out_edges g u) \<longleftrightarrow> (u, v) \<in> E \<and> u \<notin> set done_names"
    and ins: "\<And>u v. u \<in> set (in_edges g v) \<longleftrightarrow> (u, v) \<in> E \<and> u \<notin> set done_names"
    and emp: "\<And>v. v \<in> set N \<Longrightarrow> in_edges g v = [] \<longleftrightarrow> v \<in> set (done_names @ node # queue)"
    and ord: "\<And>u v. (u, v) \<in> E \<Longrightarrow> v \<in> set done_names \<Longrightarrow> comes_before done_names u v"
    unfolding kahn_inv_def by auto
  have outsN: "set ?outs \<subseteq> set (g_names g)" using out EN N by auto
  note rs = relax_spec [OF r dout outsN]
  have in': "in_edges (clear_out node g') v = removeAll node (in_edges g v)" for v
  proof (cases "v \<in> set ?outs")
    case True
    then show ?thesis using rs by simp
  next
    case False
    then have "node \<notin> set (in_edges g v)" using ins out by blast
    then show ?thesis using rs False by simp
  qed
  have q': "queue' = queue @ filter (\<lambda>v. removeAll node (in_edges g v) = []) ?outs" using rs by blast
  have fresh: "v \<notin> set (done_names @ node # queue)" if "v \<in> set ?outs" for v
  proof -
    have "in_edges g v \<noteq> []" using that ins [of node v] out [of v node] by auto
    then show ?thesis using emp outsN N that by auto
  qed
  have no_pred: "in_edges g node = []" using emp sub by auto
  have c1: "g_names (clear_out node g') = N" using rs N by simp
  have c2: "distinct ((done_names @ [node]) @ queue')" "set ((done_names @ [node]) @ queue') \<subseteq> set N"
    using q' dist fresh dout sub outsN N by auto
  have c3: "distinct (out_edges (clear_out node g') u)" for u
    using rs dout by (simp add: out_edges_clear)
  have c4: "v \<in> set (out_edges (clear_out node g') u) \<longleftrightarrow> (u, v) \<in> E \<and> u \<notin> set (done_names @ [node])" for u v
    using rs out by (auto simp: out_edges_clear)
  have c5: "u \<in> set (in_edges (clear_out node g') v) \<longleftrightarrow> (u, v) \<in> E \<and> u \<notin> set (done_names @ [node])" for u v
    unfolding in' using ins by auto
  have c6: "in_edges (clear_out node g') v = [] \<longleftrightarrow> v \<in> set ((done_names @ [node]) @ queue')"
    if "v \<in> set N" for v
  proof -
    have "removeAll node (in_edges g v) = [] \<longleftrightarrow>
        in_edges g v = [] \<or> v \<in> set ?outs \<and> removeAll node (in_edges g v) = []"
      using ins [of node v] ins [of _ v] out [of v node]
      by (cases "node \<in> set (in_edges g v)") auto
    then show ?thesis unfolding in' using emp [OF that] q' by auto
  qed
  have c7: "comes_before (done_names @ [node]) u v" if "(u, v) \<in> E" "v \<in> set (done_names @ [node])" for u v
  proof (cases "v = node")
    case True
    then have "u \<in> set done_names" using ins [of u node] no_pred that by auto
    then show ?thesis using True comes_before_last by simp
  next
    case False
    then show ?thesis using that ord comes_before_append by fastforce
  qed
  show ?thesis unfolding kahn_inv_def using c1 c2 c3 c4 c5 c6 c7 by blast
qed

lemma kahn_loop:
  "topsort_loop g queue done_names = (g', done') \<Longrightarrow> kahn_inv N E g queue done_names \<Longrightarrow>
   E \<subseteq> set N \<times> set N \<Longrightarrow> kahn_inv N E g' [] done'"
proof (induction g queue done_names arbitrary: g' done' rule: topsort_loop.induct)
  case (1 g done_names)
  then show ?case by simp
next
  case (2 g node queue done_names)
  obtain h q where r: "relax node (out_edges g node) g queue = (h, q)" by (cases "relax node (out_edges g node) g queue")
  with 2(2) have "topsort_loop (clear_out node h) q (done_names @ [node]) = (g', done')" by simp
  then show ?case using 2(1) [OF r [symmetric]] kahn_step [OF 2(3,4) r] 2(4) by blast
qed

lemma kahn_start:
  assumes wf: "wf_graph key g"
  shows "kahn_inv (g_names g) (edges g) g (map fst (filter (\<lambda>(_, n). n_EdgesIn n = []) (g_NodeMap g))) []"
proof -
  let ?q = "map fst (filter (\<lambda>(_, n). n_EdgesIn n = []) (g_NodeMap g))"
  have dist: "distinct (g_names g)" using wf by (simp add: wf_graph_def)
  have mem: "v \<in> set ?q \<longleftrightarrow> (\<exists>n. g_node g v = Some n \<and> n_EdgesIn n = [])" for v
    using g_node_in [OF dist, of v] by force
  have "in_edges g v = [] \<longleftrightarrow> v \<in> set ?q" if "v \<in> set (g_names g)" for v
    using that unfolding mem by (auto simp: g_names_iff in_edges_def)
  moreover have "distinct ?q" using dist by (simp add: g_names_def distinct_map_filter)
  moreover have "set ?q \<subseteq> set (g_names g)" unfolding subset_iff mem g_names_iff by blast
  moreover have "distinct (out_edges g u)" for u using wf_distinct_out [OF wf] .
  moreover have "u \<in> set (in_edges g v) \<longleftrightarrow> v \<in> set (out_edges g u)" for u v
    using wf by (simp add: wf_graph_def)
  ultimately show ?thesis unfolding kahn_inv_def by (simp add: edges_def)
qed

text \<open>What is left when the queue is empty: a node with edges is one that was never sorted.\<close>

lemma kahn_end:
  assumes "kahn_inv N E g [] done_names" and "E \<subseteq> set N \<times> set N" and "distinct N"
  shows "list_ex (\<lambda>(_, n). has_edges n) (g_NodeMap g) \<longleftrightarrow> set done_names \<noteq> set N"
proof -
  from assms(1) have N: "g_names g = N" and sub: "set done_names \<subseteq> set N"
    and out: "\<And>u v. v \<in> set (out_edges g u) \<longleftrightarrow> (u, v) \<in> E \<and> u \<notin> set done_names"
    and emp: "\<And>v. v \<in> set N \<Longrightarrow> in_edges g v = [] \<longleftrightarrow> v \<in> set done_names"
    unfolding kahn_inv_def by auto
  have node: "has_edges n \<longleftrightarrow> k \<notin> set done_names" if "(k, n) \<in> set (g_NodeMap g)" for k n
  proof -
    from that N assms(3) have kn: "g_node g k = Some n" "k \<in> set N"
      by (auto simp: g_node_in g_names_iff)
    have "out_edges g k = []" if "k \<in> set done_names" using that out by (auto simp: empty_iff_no_member)
    then show ?thesis using emp [OF kn(2)] g_node_edges [OF kn(1)] by (auto simp: has_edges_def)
  qed
  have "list_ex (\<lambda>(_, n). has_edges n) (g_NodeMap g) \<longleftrightarrow> (\<exists>(k, n)\<in>set (g_NodeMap g). k \<notin> set done_names)"
    using node by (fastforce simp: list_ex_iff)
  also have "\<dots> \<longleftrightarrow> (\<exists>k\<in>set N. k \<notin> set done_names)"
    unfolding N [symmetric] g_names_def by force
  finally show ?thesis using sub by auto
qed

lemma TopSort_cases:
  assumes wf: "wf_graph key g"
  obtains (sorted_all) s where "TopSort key g = Inr s" "distinct s" "set s = set (g_names g)"
      "\<And>u v. (u, v) \<in> edges g \<Longrightarrow> comes_before s u v"
  | (stuck) "TopSort key g = Inl ''Cycle!''" "\<not> acyclic (edges g)"
proof -
  let ?c = "copy key g"
  let ?q = "map fst (filter (\<lambda>(_, n). n_EdgesIn n = []) (g_NodeMap ?c))"
  let ?N = "g_names ?c"
  obtain c' s where l: "topsort_loop ?c ?q [] = (c', s)" by (cases "topsort_loop ?c ?q []")
  note cp = copy_props [OF wf]
  have wfc: "wf_graph key ?c" and E: "edges ?c = edges g" and names: "set ?N = set (g_names g)"
    using cp by auto
  have EN: "edges g \<subseteq> set ?N \<times> set ?N" using wf_edges_names [OF wfc] E by auto
  have dist: "distinct ?N" using wfc by (simp add: wf_graph_def)
  have inv: "kahn_inv ?N (edges g) c' [] s" using kahn_loop [OF l kahn_start [OF wfc]] E EN by simp
  have stop: "list_ex (\<lambda>(_, n). has_edges n) (g_NodeMap c') \<longleftrightarrow> set s \<noteq> set ?N"
    by (rule kahn_end [OF inv EN dist])
  show thesis
  proof (cases "set s = set ?N")
    case True
    have "comes_before s u v" if "(u, v) \<in> edges g" for u v
      using inv that EN True unfolding kahn_inv_def by auto
    moreover have "distinct s" using inv unfolding kahn_inv_def by simp
    moreover have "TopSort key g = Inr s" using l stop True by (simp add: TopSort_def Let_def)
    moreover have "set s = set (g_names g)" using True names by simp
    ultimately show thesis by (intro sorted_all)
  next
    case False
    let ?R = "set ?N - set s"
    have sub: "set s \<subseteq> set ?N" using inv unfolding kahn_inv_def by simp
    have pred: "\<exists>u\<in>?R. (u, v) \<in> edges g" if v: "v \<in> ?R" for v
    proof -
      have "in_edges c' v \<noteq> []" using inv v unfolding kahn_inv_def by simp
      then obtain u where "u \<in> set (in_edges c' v)" using empty_iff_no_member by metis
      then show ?thesis using inv EN unfolding kahn_inv_def by blast
    qed
    have "\<not> acyclic (edges g)"
    proof
      assume "acyclic (edges g)"
      moreover have "finite (edges g)" using EN finite_subset by blast
      ultimately have "wf (edges g)" by (simp add: finite_acyclic_wf)
      moreover obtain x where "x \<in> ?R" using False sub by blast
      ultimately obtain z where "z \<in> ?R" "\<And>y. (y, z) \<in> edges g \<Longrightarrow> y \<notin> ?R"
        by (metis wfE_min)
      then show False using pred by blast
    qed
    moreover have "TopSort key g = Inl ''Cycle!''" using l stop False by (simp add: TopSort_def Let_def)
    ultimately show thesis by (rule stuck [rotated])
  qed
qed

text \<open>
  C11. Topological sort, soundness: when \<open>TopSort\<close> returns a list it holds every node exactly
  once, and the source of every edge stands before its target.
\<close>

theorem TopSort_sound:
  assumes "wf_graph key g" and "TopSort key g = Inr s"
  shows "distinct s \<and> set s = set (g_names g) \<and> (\<forall>(u, v)\<in>edges g. comes_before s u v)"
proof (rule TopSort_cases [OF assms(1)])
  fix t assume "TopSort key g = Inr t" "distinct t" "set t = set (g_names g)"
    "\<And>u v. (u, v) \<in> edges g \<Longrightarrow> comes_before t u v"
  moreover from this assms(2) have "t = s" by simp
  ultimately show ?thesis by blast
next
  assume "TopSort key g = Inl ''Cycle!''"
  then show ?thesis using assms(2) by simp
qed

text \<open>
  C12. Topological sort, completeness: on a well-formed graph \<open>TopSort\<close> fails exactly when the
  edges have a cycle, and the error is always the same.
\<close>

theorem TopSort_error_iff_cycle:
  assumes "wf_graph key g"
  shows "TopSort key g = Inl e \<longleftrightarrow> e = ''Cycle!'' \<and> \<not> acyclic (edges g)"
proof (rule TopSort_cases [OF assms])
  fix s assume s: "TopSort key g = Inr s" "distinct s" "\<And>u v. (u, v) \<in> edges g \<Longrightarrow> comes_before s u v"
  then have "acyclic (edges g)" using ordered_acyclic [of s "edges g"] by blast
  with s(1) show ?thesis by simp
qed auto

text \<open>The graph of a test group: \<open>shell\<close> depends on \<open>boot\<close>, \<open>fork\<close> on both.\<close>

definition sample_graph :: "string graph" where
  "sample_graph = addEdge ''fork'' ''boot'' (addEdge ''fork'' ''shell'' (addEdge ''shell'' ''boot''
     (New id [''boot'', ''shell'', ''fork''])))"

lemma sample_graph_wf: "wf_graph id sample_graph"
  unfolding sample_graph_def
  by (intro conjunct1 [OF wf_addEdge] wf_New) (simp_all add: names_New)

lemma sample_graph_sort: "TopSort id sample_graph = Inr [''fork'', ''shell'', ''boot'']"
  by code_simp

lemma TopSort_sound_witness: "comes_before [''fork'', ''shell'', ''boot''] ''fork'' ''boot''"
proof -
  have "(''fork'', ''boot'') \<in> edges sample_graph" by (simp add: edges_def) code_simp
  with TopSort_sound [OF sample_graph_wf sample_graph_sort] show ?thesis by blast
qed

definition cyclic_graph :: "string graph" where
  "cyclic_graph = addEdge ''b'' ''a'' (addEdge ''a'' ''b'' (New id [''a'', ''b'', ''c'']))"

lemma cyclic_graph_wf: "wf_graph id cyclic_graph"
  unfolding cyclic_graph_def
  by (intro conjunct1 [OF wf_addEdge] wf_New) (simp_all add: names_New)

lemma TopSort_error_iff_cycle_witness: "\<not> acyclic (edges cyclic_graph)"
proof -
  have "TopSort id cyclic_graph = Inl ''Cycle!''" by code_simp
  then show ?thesis using TopSort_error_iff_cycle [OF cyclic_graph_wf] by blast
qed

end
