(* ===== verification/TestTypes.thy ===== *)
theory TestTypes
  imports GoStrings GoFloat
begin

text \<open>
  The data of the test161 package: \<open>Test\<close>, \<open>Command\<close> and their parts (\<open>run.go\<close>),
  the configuration blocks (\<open>conf.go\<close>), command templates (\<open>commands.go\<close>), statistics
  (\<open>stats.go\<close>), targets (\<open>target.go\<close>) and the environment (\<open>environment.go\<close>).

  Field names carry a prefix, one per Go type, because record fields are global here. A
  \<open>*Test\<close> is known by its \<open>DependencyID\<close> and a \<open>*Target\<close> by its name, the keys under
  which the program keeps them in its maps. Options that the YAML files give as text stay
  text, since the code compares them with text. A compiled prompt pattern is the quoted prompt
  it was built from. Times are floating point numbers, kept as rationals.
\<close>

type_synonym TimeFixedPoint = float64

section \<open>Constants\<close>

abbreviation "CMD_OPT_NO \<equiv> ''no''"
abbreviation "CMD_OPT_MAYBE \<equiv> ''maybe''"
abbreviation "CMD_OPT_YES \<equiv> ''yes''"

abbreviation "TEST_SCORING_ENTIRE \<equiv> ''entire''"
abbreviation "TEST_SCORING_PARTIAL \<equiv> ''partial''"

datatype CommandStatus = COMMAND_STATUS_NONE | COMMAND_STATUS_RUNNING
  | COMMAND_STATUS_CORRECT | COMMAND_STATUS_INCORRECT

datatype TestResult = TEST_RESULT_NONE | TEST_RESULT_RUNNING | TEST_RESULT_CORRECT
  | TEST_RESULT_INCORRECT | TEST_RESULT_ABORT | TEST_RESULT_SKIP

section \<open>Configuration\<close>

record DiskConf =
  dk_Enabled :: string
  dk_RPM :: uint
  dk_Bytes :: string
  dk_NoDoom :: string

record Sys161Conf =
  sys_Path :: string
  sys_CPUs :: uint
  sys_RAM :: string
  sys_Disk1 :: DiskConf
  sys_Disk2 :: DiskConf
  sys_Random :: uint32

record StatConf =
  sc_Resolution :: float32
  sc_Window :: uint

record Limits =
  lim_EnableMin :: string
  lim_Min :: float64
  lim_Max :: float64

record MonitorConf =
  mon_Enabled :: string
  mon_Window :: uint
  mon_Kernel :: Limits
  mon_User :: Limits
  mon_ProgressTimeout :: float32
  mon_CommandTimeout :: float32

record MiscConf =
  misc_CommandRetries :: uint
  misc_PromptTimeout :: float32
  misc_CharacterTimeout :: uint
  misc_TempDir :: string
  misc_RetryCharacters :: string
  misc_KillOnExit :: string

record CommandConf =
  cc_Prefix :: string
  cc_Prompt :: string
  cc_Start :: string
  cc_End :: string

section \<open>Command templates and expected output\<close>

record TemplOutputLine =
  tol_Text :: string
  tol_Trusted :: string
  tol_External :: string

record CommandTemplate =
  ct_Name :: string
  ct_Output :: "TemplOutputLine list"
  ct_Input :: "string list"
  ct_Panic :: string
  ct_TimesOut :: string
  ct_Timeout :: float32

record ExpectedOutputLine =
  eo_Text :: string
  eo_Trusted :: bool
  eo_KeyName :: string

section \<open>Statistics\<close>

record Stat =
  st_initialized :: bool
  st_Start :: TimeFixedPoint
  st_End :: TimeFixedPoint
  st_Length :: TimeFixedPoint
  st_Count :: uint
  st_WallStart :: TimeFixedPoint
  st_WallEnd :: TimeFixedPoint
  st_WallLength :: TimeFixedPoint
  st_Nsec :: uint64
  st_Kinsns :: uint32
  st_Uinsns :: uint32
  st_Udud :: uint32
  st_Idle :: uint32
  st_IRQs :: uint32
  st_Exns :: uint32
  st_Disk :: uint32
  st_Con :: uint32
  st_Emu :: uint32
  st_Net :: uint32
  st_Insns :: uint32

section \<open>Commands\<close>

record InputLine =
  in_WallTime :: TimeFixedPoint
  in_SimTime :: TimeFixedPoint
  in_Line :: string

record OutputLine =
  ol_WallTime :: TimeFixedPoint
  ol_SimTime :: TimeFixedPoint
  ol_Buffer :: string
  ol_Line :: string
  ol_Trusted :: bool
  ol_KeyName :: string

record Command =
  c_ID :: string
  c_Type :: string
  c_PromptPattern :: "string option"
  c_Input :: InputLine
  c_Config :: CommandTemplate
  c_PointsAvailable :: uint
  c_PointsEarned :: uint
  c_Panic :: string
  c_Timeout :: float32
  c_TimesOut :: string
  c_ExpectedOutput :: "ExpectedOutputLine list"
  c_Output :: "OutputLine list"
  c_SummaryStats :: Stat
  c_AllStats :: "Stat list"
  c_StartTime :: TimeFixedPoint
  c_EndTime :: TimeFixedPoint
  c_TimedOut :: bool
  c_Status :: CommandStatus

section \<open>Tests\<close>

record Status =
  sta_WallTime :: TimeFixedPoint
  sta_SimTime :: TimeFixedPoint
  sta_Status :: string
  sta_Message :: string

text \<open>
  The fields a test has before and after a run. The fields a run uses on the way (\<open>env\<close>,
  \<open>salts\<close>, \<open>commandCounter\<close>, \<open>currentOutput\<close> and so on) extend this record in the theory
  of the run. \<open>ExpandedDeps\<close> holds the keys of the Go map, \<open>requiredBy\<close> those set to true.
\<close>

record Test =
  t_ID :: string
  t_SubmissionID :: string
  t_Name :: string
  t_Description :: string
  t_Tags :: "string list"
  t_Depends :: "string list"
  t_Sys161 :: Sys161Conf
  t_Stat :: StatConf
  t_Monitor :: MonitorConf
  t_CommandConf :: "CommandConf list"
  t_Misc :: MiscConf
  t_CommandOverrides :: "CommandTemplate list"
  t_Content :: string
  t_ConfString :: string
  t_WallTime :: TimeFixedPoint
  t_SimTime :: TimeFixedPoint
  t_Commands :: "Command list"
  t_Status :: "Status list"
  t_Result :: TestResult
  t_DependencyID :: string
  t_ExpandedDeps :: "string list"
  t_IsDependency :: bool
  t_PointsAvailable :: uint
  t_PointsEarned :: uint
  t_ScoringMethod :: string
  t_TargetName :: string
  t_requiredBy :: "string list"
  t_MemLeakBytes :: int
  t_MemLeakChecked :: bool
  t_MemLeakPoints :: uint
  t_MemLeakDeducted :: uint

section \<open>Targets\<close>

record TargetCommand =
  tc_Id :: string
  tc_Index :: int
  tc_Points :: uint
  tc_Args :: "string list"

record TargetTest =
  tt_Id :: string
  tt_Scoring :: string
  tt_Points :: uint
  tt_MemLeakPoints :: uint
  tt_Commands :: "TargetCommand list"

record Target =
  tgt_ID :: string
  tgt_Name :: string
  tgt_Active :: string
  tgt_Version :: uint
  tgt_Type :: string
  tgt_Points :: uint
  tgt_KConfig :: string
  tgt_RequiredCommit :: string
  tgt_RequiresUserland :: bool
  tgt_Tests :: "TargetTest list"
  tgt_FileHash :: string
  tgt_FileName :: string
  tgt_IsMetaTarget :: bool
  tgt_SubTargetNames :: "string list"
  tgt_MetaName :: string
  tgt_PrintName :: string
  tgt_Description :: string
  tgt_Link :: string
  tgt_Leaderboard :: string
  tgt_metaTarget :: "string option"
  tgt_previousSubTargets :: "string list"

section \<open>The environment\<close>

record TagDescription =
  tag_Name :: string
  tag_Description :: string

text \<open>
  The persistence manager, the job manager and the logger of the environment are interfaces
  to the outside; the operations that call them say so. \<open>env_HasPersistence\<close> is the test
  \<open>env.Persistence != nil\<close>.
\<close>

record TestEnvironment =
  env_TestDir :: string
  env_Commands :: "(string, CommandTemplate) gomap"
  env_Targets :: "(string, Target) gomap"
  env_Tags :: "(string, TagDescription) gomap"
  env_CacheDir :: string
  env_OverlayRoot :: string
  env_KeyDir :: string
  env_HasPersistence :: bool
  env_keyMap :: "(string, string) gomap"
  env_RootDir :: string

section \<open>A test while it runs\<close>

datatype notify_msg = MSG_PERSIST_CREATE | MSG_PERSIST_UPDATE | MSG_PERSIST_OUTPUT
  | MSG_PERSIST_COMPLETE | MSG_TARGET_LOAD

text \<open>The bits of a field mask.\<close>

abbreviation "MSG_FIELD_SCORE \<equiv> (1 :: nat)"
abbreviation "MSG_FIELD_STATUS \<equiv> (2 :: nat)"
abbreviation "MSG_FIELD_TESTS \<equiv> (4 :: nat)"
abbreviation "MSG_FIELD_OUTPUT \<equiv> (8 :: nat)"
abbreviation "MSG_FIELD_STATUSES \<equiv> (16 :: nat)"

text \<open>
  A notification names the test itself or the command at a position. The persistence manager's
  errors are only logged, so a run keeps nothing of a notification but that it was sent.
\<close>

datatype entity = ETest | ECommand nat

datatype stat_error = monitorError string | otherError string

text \<open>
  \<open>currentCommand\<close> is \<open>Commands[commandCounter]\<close>: the code sets the two together.
  \<open>r_salts\<close> holds the keys of the map.
\<close>

record RunTest = Test +
  r_env :: TestEnvironment
  r_statStarted :: bool
  r_allCorrect :: bool
  r_salts :: "string list"
  r_running :: bool
  r_progressTime :: float64
  r_commandCounter :: nat
  r_currentOutput :: OutputLine
  r_statActive :: bool
  r_statErr :: "stat_error option"
  r_statRecord :: bool
  r_notes :: "(entity \<times> notify_msg \<times> nat) list"

end
