(* ===== verification/Samples.thy ===== *)
theory Samples
  imports TestTypes
begin

text \<open>
  Values with every field at Go's zero value, from which the concrete inputs of the witnesses are
  built. They model no code.
\<close>

definition blank_line :: OutputLine where
  "blank_line = \<lparr>ol_WallTime = 0, ol_SimTime = 0, ol_Buffer = [], ol_Line = [], ol_Trusted = False, ol_KeyName = []\<rparr>"

definition zero_stat :: Stat where
  "zero_stat = \<lparr>st_initialized = False, st_Start = 0, st_End = 0, st_Length = 0, st_Count = 0,
     st_WallStart = 0, st_WallEnd = 0, st_WallLength = 0, st_Nsec = 0, st_Kinsns = 0, st_Uinsns = 0,
     st_Udud = 0, st_Idle = 0, st_IRQs = 0, st_Exns = 0, st_Disk = 0, st_Con = 0, st_Emu = 0,
     st_Net = 0, st_Insns = 0\<rparr>"

definition blank_template :: CommandTemplate where
  "blank_template = \<lparr>ct_Name = [], ct_Output = [], ct_Input = [], ct_Panic = [], ct_TimesOut = [], ct_Timeout = 0\<rparr>"

definition blank_command :: "string \<Rightarrow> Command" where
  "blank_command line =
     \<lparr>c_ID = [], c_Type = ''user'', c_PromptPattern = None,
      c_Input = \<lparr>in_WallTime = 0, in_SimTime = 0, in_Line = line\<rparr>, c_Config = blank_template,
      c_PointsAvailable = 0, c_PointsEarned = 0, c_Panic = ''no'', c_Timeout = 0, c_TimesOut = ''no'',
      c_ExpectedOutput = [], c_Output = [], c_SummaryStats = zero_stat, c_AllStats = [],
      c_StartTime = 0, c_EndTime = 0, c_TimedOut = False, c_Status = COMMAND_STATUS_NONE\<rparr>"

definition blank_env :: TestEnvironment where
  "blank_env = \<lparr>env_TestDir = ''/t'', env_Commands = [], env_Targets = [], env_Tags = [], env_CacheDir = [],
     env_OverlayRoot = [], env_KeyDir = [], env_HasPersistence = False, env_keyMap = [], env_RootDir = []\<rparr>"

definition blank_disk :: DiskConf where
  "blank_disk = \<lparr>dk_Enabled = [], dk_RPM = 0, dk_Bytes = [], dk_NoDoom = []\<rparr>"

definition blank_limits :: Limits where
  "blank_limits = \<lparr>lim_EnableMin = [], lim_Min = 0, lim_Max = 0\<rparr>"

definition blank_test :: "string \<Rightarrow> Test" where
  "blank_test ident =
     \<lparr>t_ID = [], t_SubmissionID = [], t_Name = [], t_Description = [], t_Tags = [], t_Depends = [],
      t_Sys161 = \<lparr>sys_Path = [], sys_CPUs = 0, sys_RAM = [], sys_Disk1 = blank_disk, sys_Disk2 = blank_disk, sys_Random = 0\<rparr>,
      t_Stat = \<lparr>sc_Resolution = 0, sc_Window = 0\<rparr>,
      t_Monitor = \<lparr>mon_Enabled = [], mon_Window = 0, mon_Kernel = blank_limits, mon_User = blank_limits,
        mon_ProgressTimeout = 0, mon_CommandTimeout = 0\<rparr>,
      t_CommandConf = [],
      t_Misc = \<lparr>misc_CommandRetries = 0, misc_PromptTimeout = 0, misc_CharacterTimeout = 0, misc_TempDir = [],
        misc_RetryCharacters = [], misc_KillOnExit = []\<rparr>,
      t_CommandOverrides = [], t_Content = [], t_ConfString = [], t_WallTime = 0, t_SimTime = 0, t_Commands = [],
      t_Status = [], t_Result = TEST_RESULT_NONE, t_DependencyID = ident, t_ExpandedDeps = [], t_IsDependency = False,
      t_PointsAvailable = 0, t_PointsEarned = 0, t_ScoringMethod = [], t_TargetName = [], t_requiredBy = [],
      t_MemLeakBytes = 0, t_MemLeakChecked = False, t_MemLeakPoints = 0, t_MemLeakDeducted = 0\<rparr>"

definition blank_run :: RunTest where
  "blank_run = Test.extend (blank_test ''sync/lt1.t'')
     \<lparr>r_env = blank_env, r_statStarted = False, r_allCorrect = True, r_salts = [], r_running = False,
      r_progressTime = 0, r_commandCounter = 0, r_currentOutput = blank_line, r_statActive = False,
      r_statErr = None, r_statRecord = False, r_notes = []\<rparr>"

end
