(* ===== verification/InputLine.thy ===== *)
theory InputLine
  imports TestTypes
begin

text \<open>
  The input line of a command (\<open>run.go\<close>: \<open>splitArgs\<close>, \<open>InputLine.splitCommand\<close>,
  \<open>InputLine.replaceArgs\<close>; \<open>commands.go\<close>: \<open>Command.Id\<close>). \<open>splitCommand\<close> reads \<open>args[0]\<close>
  without a test, so it panics on a line without words: that is \<open>None\<close>.
\<close>

section \<open>Words of a line\<close>

text \<open>
  The scan keeps the bytes since \<open>start\<close> in \<open>cur\<close>. A quote toggles unless it is escaped, a
  backslash escapes the next byte, and a space outside quotes ends the word.
\<close>

fun split_args_loop :: "string \<Rightarrow> string \<Rightarrow> bool \<Rightarrow> bool \<Rightarrow> string list \<Rightarrow> string list" where
  "split_args_loop [] cur inQuote escape args = (if cur \<noteq> [] then args @ [cur] else args)"
| "split_args_loop (c # cs) cur inQuote escape args =
     (if c = CHR 0x22 \<and> \<not> escape then split_args_loop cs (cur @ [c]) (\<not> inQuote) escape args
      else if escape \<or> c = CHR 0x5C then split_args_loop cs (cur @ [c]) inQuote (\<not> escape) args
      else if \<not> inQuote \<and> c = CHR '' '' then split_args_loop cs [] inQuote escape (args @ [cur])
      else split_args_loop cs (cur @ [c]) inQuote escape args)"

definition splitArgs :: "string \<Rightarrow> string list" where
  "splitArgs line = split_args_loop line [] False False []"

definition splitCommand :: "string \<Rightarrow> (string \<times> string \<times> string list) option" where
  "splitCommand line =
     (let (pfx, command) = (if HasPrefix line ''p '' then (''p'', drop 2 line) else ('''', line))
      in case splitArgs command of
           [] \<Rightarrow> None
         | base # args \<Rightarrow> Some (pfx, base, args))"

definition replaceArgs :: "string list \<Rightarrow> string \<Rightarrow> string option" where
  "replaceArgs args line =
     (case splitCommand line of
        None \<Rightarrow> None
      | Some (pfx, base, _) \<Rightarrow>
          Some (foldl (\<lambda>l a. l @ '' '' @ a) ((if pfx \<noteq> [] then pfx @ '' '' else []) @ base) args))"

definition Command_Id :: "Command \<Rightarrow> string option" where
  "Command_Id c = map_option (\<lambda>(_, base, _). base) (splitCommand (in_Line (c_Input c)))"

section \<open>Scanning a word\<close>

text \<open>The state of the scan after a word, or \<open>None\<close> when the word has a space outside quotes.\<close>

fun scan :: "string \<Rightarrow> bool \<Rightarrow> bool \<Rightarrow> (bool \<times> bool) option" where
  "scan [] q e = Some (q, e)"
| "scan (c # cs) q e =
     (if c = CHR 0x22 \<and> \<not> e then scan cs (\<not> q) e
      else if e \<or> c = CHR 0x5C then scan cs q (\<not> e)
      else if \<not> q \<and> c = CHR '' '' then None
      else scan cs q e)"

definition word_ok :: "string \<Rightarrow> bool" where
  "word_ok w \<longleftrightarrow> scan w False False = Some (False, False)"

lemma split_loop_args: "split_args_loop cs cur q e args = args @ split_args_loop cs cur q e []"
proof (induction cs arbitrary: cur q e args)
  case Nil
  then show ?case by simp
next
  case (Cons c cs)
  have "split_args_loop cs [] q e (args @ [cur]) = args @ split_args_loop cs [] q e [cur]"
    unfolding Cons.IH [of "[]" q e "args @ [cur]"] Cons.IH [of "[]" q e "[cur]"] by simp
  then show ?case
    using Cons.IH [of "cur @ [c]" _ _ args] by auto
qed

lemma split_loop_word:
  "scan w q e = Some (q', e') \<Longrightarrow> split_args_loop (w @ cs) cur q e args = split_args_loop cs (cur @ w) q' e' args"
proof (induction w arbitrary: cur q e)
  case Nil
  then show ?case by simp
next
  case (Cons c w)
  then show ?case by (auto split: if_splits)
qed

lemma split_loop_reassemble:
  "Join_with '' '' (split_args_loop cs cur q e []) = cur @ cs \<or>
   Join_with '' '' (split_args_loop cs cur q e []) @ '' '' = cur @ cs"
proof (induction cs arbitrary: cur q e)
  case Nil
  then show ?case by simp
next
  case (Cons c cs)
  show ?case
  proof (cases "c = CHR '' '' \<and> \<not> q \<and> \<not> e")
    case True
    then have l: "split_args_loop (c # cs) cur q e [] = cur # split_args_loop cs [] q e []"
      using split_loop_args [of cs "[]" q e "[cur]"] by simp
    show ?thesis
    proof (cases "split_args_loop cs [] q e []")
      case Nil
      with Cons.IH [of "[]" q e] l True show ?thesis by auto
    next
      case (Cons v vs)
      with Cons.IH [of "[]" q e] l True show ?thesis by auto
    qed
  next
    case False
    with Cons.IH [of "cur @ [c]"] show ?thesis by (auto split: if_splits)
  qed
qed

lemma splitArgs_words:
  assumes "\<forall>w\<in>set ws. word_ok w" and "ws \<noteq> []" and "last ws \<noteq> []"
  shows "splitArgs (Join_with '' '' ws) = ws"
proof -
  have "split_args_loop (Join_with '' '' ws) [] False False [] = ws"
    using assms
  proof (induction ws rule: Join_with.induct [of "\<lambda>_ ws. _ ws" "'' ''"])
    case (2 sep w)
    then show ?case using split_loop_word [of w False False False False "[]"] by (simp add: word_ok_def)
  next
    case (3 sep w v ws)
    then have w: "scan w False False = Some (False, False)" by (simp add: word_ok_def)
    from 3 have "split_args_loop (Join_with '' '' (v # ws)) [] False False [] = v # ws" by simp
    then show ?case
      using split_loop_word [OF w, of "'' '' @ Join_with '' '' (v # ws)" "[]" "[]"]
        split_loop_args [of "Join_with '' '' (v # ws)" "[]" False False "[w]"] by simp
  qed simp
  then show ?thesis by (simp add: splitArgs_def)
qed

section \<open>Properties\<close>

lemma Join_with_Cons: "ws \<noteq> [] \<Longrightarrow> Join_with sep (w # ws) = w @ sep @ Join_with sep ws"
  by (cases ws) simp_all

lemma foldl_args: "foldl (\<lambda>l a. l @ CHR '' '' # a) b args = Join_with '' '' (b # args)"
proof (induction args arbitrary: b)
  case Nil
  then show ?case by simp
next
  case (Cons a args)
  show ?case using Cons.IH [of "b @ CHR '' '' # a"] by (cases args) simp_all
qed

text \<open>
  C1. Splitting a line loses no text: the words joined by single spaces are the line again,
  except that one trailing space outside quotes is dropped.
\<close>

theorem splitArgs_reassemble:
  "Join_with '' '' (splitArgs line) = line \<or> Join_with '' '' (splitArgs line) @ '' '' = line"
  using split_loop_reassemble [of line "[]" False False] by (simp add: splitArgs_def)

lemma splitCommand_base:
  assumes "splitCommand line = Some (pfx, base, args)"
  obtains cmd where "splitArgs cmd = base # args"
    "pfx = ''p'' \<and> line = ''p '' @ cmd \<or> pfx = [] \<and> line = cmd \<and> \<not> HasPrefix line ''p ''"
  using assms that
  by (auto simp: splitCommand_def Let_def HasPrefix_def prefix_def split: if_splits list.splits)

text \<open>
  Replacing the arguments of a command keeps its prefix and its base command and sets exactly
  the new arguments, quoted words included: reading the new line back gives them. (A line that is
  the bare word \<open>p\<close> is the exception: with arguments it reads as the prefix.)
\<close>

theorem replaceArgs_split:
  assumes split: "splitCommand line = Some (pfx, base, old)"
    and base: "word_ok base" "base \<noteq> []" "pfx = [] \<longrightarrow> base \<noteq> ''p''"
    and args: "\<forall>a\<in>set args. word_ok a" "args = [] \<or> last args \<noteq> []"
  shows "\<exists>line'. replaceArgs args line = Some line' \<and> splitCommand line' = Some (pfx, base, args)"
proof -
  let ?cmd = "Join_with '' '' (base # args)"
  have words: "splitArgs ?cmd = base # args"
    using base args by (intro splitArgs_words) auto
  have pfx: "pfx = ''p'' \<or> pfx = []" using splitCommand_base [OF split] by metis
  show ?thesis
  proof (cases "pfx = []")
    case True
    have "\<not> HasPrefix ?cmd ''p ''"
    proof
      assume "HasPrefix ?cmd ''p ''"
      then obtain t where "?cmd = CHR ''p'' # CHR '' '' # t" by (auto simp: HasPrefix_def prefix_def)
      moreover obtain c b where b: "base = c # b" using base(2) by (cases base) auto
      ultimately have "b = [] \<or> (\<exists>b'. b = CHR '' '' # b')" "c = CHR ''p''"
        by (cases args; cases b; auto)+
      then show False using base b True by (auto simp: word_ok_def)
    qed
    then have "splitCommand ?cmd = Some (pfx, base, args)"
      using words True by (simp add: splitCommand_def)
    then show ?thesis using split True by (simp add: replaceArgs_def foldl_args)
  next
    case False
    have eq: "foldl (\<lambda>l a. l @ CHR '' '' # a) ((pfx @ '' '') @ base) args = ''p '' @ ?cmd"
      unfolding foldl_args using pfx False by (cases args) auto
    have "splitCommand (''p '' @ ?cmd) = Some (pfx, base, args)"
      using words pfx False by (simp add: splitCommand_def HasPrefix_def)
    then show ?thesis using split False eq by (simp add: replaceArgs_def)
  qed
qed

lemma replaceArgs_split_witness:
  "\<exists>line'. replaceArgs [''2'', ''\"a b\"''] ''p /testbin/add 1'' = Some line' \<and>
     splitCommand line' = Some (''p'', ''/testbin/add'', [''2'', ''\"a b\"''])"
  by (rule replaceArgs_split [of _ _ _ "[''1'']"]) (simp_all add: word_ok_def splitCommand_def splitArgs_def HasPrefix_def)

end
