(* ===== verification/Grading.thy ===== *)
theory Grading
  imports InputLine Samples
begin

text \<open>
  Grading (\<open>run.go\<close>): the evaluation of a finished command against its expected output and
  its partial credit line, the recognition of trusted (\<open>secprintf\<close>) output lines, and the
  memory leak check with its deduction. A regular expression of the program is a recogniser
  written for it, which follows the leftmost-longest choices Go's matcher makes for the
  expression. The keyed hash (HMAC with SHA-256, in lower case hex) is the parameter \<open>hmac\<close>.
  A panic is \<open>None\<close>.
\<close>

section \<open>Partial credit lines\<close>

text \<open>\<open>([0-9]+) OF ([0-9]+)$\<close>.\<close>

definition credit_numbers :: "string \<Rightarrow> (string \<times> string) option" where
  "credit_numbers s =
     (let d1 = takeWhile is_digit s; rest = drop (length d1) s; d2 = drop 4 rest
      in if d1 \<noteq> [] \<and> take 4 rest = '' OF '' \<and> is_number d2 then Some (d1, d2) else None)"

text \<open>\<open>^.*PARTIAL CREDIT ([0-9]+) OF ([0-9]+)$\<close>; the dot does not match a line feed.\<close>

fun partialCreditExp :: "string \<Rightarrow> (string \<times> string) option" where
  "partialCreditExp [] = None"
| "partialCreditExp (c # cs) =
     (case (if HasPrefix (c # cs) ''PARTIAL CREDIT '' then credit_numbers (drop 15 (c # cs)) else None) of
        Some r \<Rightarrow> Some r
      | None \<Rightarrow> if c = CHR 0x0A then None else partialCreditExp cs)"

section \<open>Evaluating a command\<close>

definition hasKey :: "(string, string) gomap \<Rightarrow> string \<Rightarrow> bool" where
  "hasKey keyMap k = gm_has keyMap k"

text \<open>An output line counts for an expected one: same text, and trusted where that can be checked.\<close>

definition line_matches :: "(string, string) gomap \<Rightarrow> ExpectedOutputLine \<Rightarrow> OutputLine \<Rightarrow> bool" where
  "line_matches keyMap expected actual \<longleftrightarrow>
     ol_Line actual = eo_Text expected \<and>
     (\<not> eo_Trusted expected \<or> \<not> hasKey keyMap (eo_KeyName expected) \<or>
      (ol_Trusted actual \<and> ol_KeyName actual = eo_KeyName expected))"

text \<open>The expected lines left over after one pass over the output.\<close>

fun match_output :: "(string, string) gomap \<Rightarrow> OutputLine list \<Rightarrow> ExpectedOutputLine list \<Rightarrow> ExpectedOutputLine list" where
  "match_output keyMap outs [] = []"
| "match_output keyMap [] (e # es) = e # es"
| "match_output keyMap (a # as) (e # es) =
     (if line_matches keyMap e a then match_output keyMap as es else match_output keyMap as (e # es))"

definition our_line :: "(string, string) gomap \<Rightarrow> string \<Rightarrow> OutputLine \<Rightarrow> bool" where
  "our_line keyMap ident line \<longleftrightarrow> \<not> hasKey keyMap ident \<or> (ol_Trusted line \<and> ol_KeyName line = ident)"

text \<open>The totals \<open>(totalEarned, totalAvail)\<close>: the first partial credit line decides.\<close>

fun partial_totals :: "(string, string) gomap \<Rightarrow> string \<Rightarrow> OutputLine list \<Rightarrow> int \<times> int" where
  "partial_totals keyMap ident [] = (0, 0)"
| "partial_totals keyMap ident (line # outs) =
     (if our_line keyMap ident line then
        (case partialCreditExp (ol_Line line) of
           Some (d1, d2) \<Rightarrow>
             (case (Atoi d1, Atoi d2) of
                (Some earned, Some avail) \<Rightarrow> if 0 < earned \<and> 0 < avail then (earned, avail) else (0, 0)
              | _ \<Rightarrow> (0, 0))
         | None \<Rightarrow> partial_totals keyMap ident outs)
      else partial_totals keyMap ident outs)"

text \<open>\<open>uint(float32(c.PointsAvailable) * (float32(totalEarned) / float32(totalAvail)))\<close>.\<close>

definition partial_points :: "uint \<Rightarrow> int \<Rightarrow> int \<Rightarrow> uint" where
  "partial_points avail e a =
     word_of_int \<lfloor>f32 (f32 (of_nat (unat avail)) * f32 (f32 (of_int e) / f32 (of_int a)))\<rfloor>"

definition evaluate :: "(string, string) gomap \<Rightarrow> bool \<Rightarrow> Command \<Rightarrow> Command option" where
  "evaluate keyMap eof c0 =
     (let c = c0\<lparr>c_PointsEarned := 0\<rparr>;
          wrong = c\<lparr>c_Status := COMMAND_STATUS_INCORRECT\<rparr>;
          right = c\<lparr>c_Status := COMMAND_STATUS_CORRECT, c_PointsEarned := c_PointsAvailable c\<rparr>
      in if c_TimesOut c = CMD_OPT_NO \<and> c_TimedOut c then Some wrong
         else if c_Panic c = CMD_OPT_NO \<and> eof \<and> \<not> (c_TimesOut c \<noteq> CMD_OPT_NO \<and> c_TimedOut c) then Some wrong
         else if c_Panic c = CMD_OPT_YES \<and> \<not> eof then Some wrong
         else if c_TimesOut c = CMD_OPT_YES \<and> \<not> c_TimedOut c then Some wrong
         else if c_ExpectedOutput c = [] then Some right
         else if match_output keyMap (c_Output c) (c_ExpectedOutput c) = [] then Some right
         else (case Command_Id c of
                 None \<Rightarrow> None
               | Some ident \<Rightarrow>
                   (case partial_totals keyMap ident (c_Output c) of
                      (totalEarned, totalAvail) \<Rightarrow>
                        if 0 < totalEarned \<and> 0 < totalAvail then
                          Some (wrong\<lparr>c_PointsEarned := partial_points (c_PointsAvailable c) totalEarned totalAvail,
                                      c_Status := (if totalAvail = totalEarned then COMMAND_STATUS_CORRECT
                                                   else COMMAND_STATUS_INCORRECT)\<rparr>)
                        else Some wrong)))"

section \<open>Trusted output lines\<close>

text \<open>The ways to write a string as \<open>a @ sep @ b\<close>, the longest \<open>a\<close> first (a greedy group).\<close>

fun splits_at :: "string \<Rightarrow> string \<Rightarrow> (string \<times> string) list" where
  "splits_at sep [] = (if sep = [] then [([], [])] else [])"
| "splits_at sep (c # cs) =
     map (\<lambda>(a, b). (c # a, b)) (splits_at sep cs) @
     (if HasPrefix (c # cs) sep then [([], drop (length sep) (c # cs))] else [])"

definition is_hex :: "char \<Rightarrow> bool" where
  "is_hex c \<longleftrightarrow> is_digit c \<or> (97::nat) \<le> of_char c \<and> (of_char c :: nat) \<le> 102"

text \<open>\<open>^\((.*), ([0-9a-f]*), ([0-9a-f].*), (.*)\)$\<close>: id, hash, salt, message.\<close>

definition secure_fields :: "string \<Rightarrow> (string \<times> string \<times> string \<times> string) list" where
  "secure_fields body =
     concat (map (\<lambda>(ident, r1).
       concat (map (\<lambda>(hash, r2).
         map (\<lambda>(salt, msg). (ident, hash, salt, msg))
           (filter (\<lambda>(salt, msg). salt \<noteq> [] \<and> is_hex (hd salt)) (splits_at '', '' r2)))
         (filter (\<lambda>(hash, r2). list_all is_hex hash) (splits_at '', '' r1))))
       (splits_at '', '' body))"

definition os161Secure :: "string \<Rightarrow> (string \<times> string \<times> string \<times> string) option" where
  "os161Secure line =
     (case line of
        [] \<Rightarrow> None
      | c # cs \<Rightarrow>
          if c = CHR ''('' \<and> cs \<noteq> [] \<and> last cs = CHR '')'' \<and> CHR 0x0A \<notin> set cs then
            (case secure_fields (butlast cs) of [] \<Rightarrow> None | f # _ \<Rightarrow> Some f)
          else None)"

definition is_eol :: "char \<Rightarrow> bool" where
  "is_eol c \<longleftrightarrow> c = CHR 0x0D \<or> c = CHR 0x0A"

definition strip_eol :: "string \<Rightarrow> string" where
  "strip_eol s = rev (dropWhile is_eol (rev s))"

text \<open>
  A line that is one byte long after the line end is taken off (\<open>pos == 0\<close>) is cleared and
  not looked at further.
\<close>

definition outputLineComplete :: "(string \<Rightarrow> string \<Rightarrow> string) \<Rightarrow> 'a RunTest_scheme \<Rightarrow> 'a RunTest_scheme" where
  "outputLineComplete hmac t =
     (let line = r_currentOutput t; s = strip_eol (ol_Line line)
      in if length s = 1 then t\<lparr>r_currentOutput := line\<lparr>ol_Line := []\<rparr>\<rparr>
         else
           (let text = filter (\<lambda>c. c \<noteq> CHR 0x00) s; line = line\<lparr>ol_Line := text\<rparr>
            in case os161Secure text of
                 None \<Rightarrow> t\<lparr>r_currentOutput := line\<rparr>
               | Some (ident, hash, salt, msg) \<Rightarrow>
                   let key = (case gm_get (env_keyMap (r_env t)) ident of Some k \<Rightarrow> k | None \<Rightarrow> []) @ salt
                   in if salt \<in> set (r_salts t) then t\<lparr>r_currentOutput := line\<lparr>ol_Trusted := False\<rparr>\<rparr>
                      else t\<lparr>r_salts := salt # r_salts t,
                             r_currentOutput :=
                               (if hmac key msg = hash
                                then line\<lparr>ol_Trusted := True, ol_KeyName := ident, ol_Line := msg\<rparr>
                                else line)\<rparr>))"

section \<open>The expected output\<close>

text \<open>The greedy pass finds the expected lines in order whenever they are there at all.\<close>

lemma match_output_sound:
  "match_output keyMap outs es = [] \<Longrightarrow> \<exists>sub. subseq sub outs \<and> list_all2 (line_matches keyMap) es sub"
proof (induction keyMap outs es rule: match_output.induct)
  case (1 keyMap outs)
  show ?case by (intro exI [of _ "[]"]) simp
next
  case (2 keyMap e es)
  then show ?case by simp
next
  case (3 keyMap a as e es)
  show ?case
  proof (cases "line_matches keyMap e a")
    case True
    with 3 obtain sub where "subseq sub as" "list_all2 (line_matches keyMap) es sub" by auto
    with True show ?thesis by (intro exI [of _ "a # sub"]) simp
  next
    case False
    with 3 obtain sub where "subseq sub as" "list_all2 (line_matches keyMap) (e # es) sub" by auto
    then show ?thesis by (intro exI [of _ sub]) (auto intro: list_emb_Cons)
  qed
qed

lemma match_output_complete:
  "subseq sub outs \<Longrightarrow> list_all2 (line_matches keyMap) es sub \<Longrightarrow> match_output keyMap outs es = []"
proof (induction keyMap outs es arbitrary: sub rule: match_output.induct)
  case (1 keyMap outs)
  then show ?case by simp
next
  case (2 keyMap e es)
  then show ?case by (cases sub) auto
next
  case (3 keyMap a as e es)
  then obtain b bs where sub: "sub = b # bs" "line_matches keyMap e b" "list_all2 (line_matches keyMap) es bs"
    by (auto simp: list_all2_Cons1)
  show ?case
  proof (cases "line_matches keyMap e a")
    case True
    have "subseq bs as" using 3(3) sub(1) by (cases "b = a") (auto dest: subseq_Cons')
    with 3(1) [OF True] sub(3) True show ?thesis by simp
  next
    case False
    with sub(2) have "b \<noteq> a" by auto
    with 3(3) sub(1) have "subseq sub as" by simp
    with 3(2) [OF False] 3(4) False show ?thesis by simp
  qed
qed

lemma match_output_iff:
  "match_output keyMap outs es = [] \<longleftrightarrow>
   (\<exists>sub. subseq sub outs \<and> list_all2 (line_matches keyMap) es sub)"
  using match_output_sound match_output_complete by blast

section \<open>Points\<close>

lemma f32_nat: "n < 2 ^ 24 \<Longrightarrow> f32 (of_nat n) = of_nat n"
  by (simp add: f32_def fl_round_nat)

lemma partial_share:
  assumes "0 < e" and "e \<le> a" and "a < 2 ^ 24"
  shows "0 \<le> f32 (f32 (of_int e) / f32 (of_int a))" and "f32 (f32 (of_int e) / f32 (of_int a)) \<le> 1"
    and "e = a \<Longrightarrow> f32 (f32 (of_int e) / f32 (of_int a)) = 1"
proof -
  have e: "f32 (of_int e) = of_int e" using f32_nat [of "nat e"] assms by simp
  have a: "f32 (of_int a) = of_int a" using f32_nat [of "nat a"] assms by simp
  have q: "0 \<le> (of_int e / of_int a :: rat)" "of_int e / of_int a \<le> (1 :: rat)"
    using assms by (simp_all add: divide_le_eq)
  show "0 \<le> f32 (f32 (of_int e) / f32 (of_int a))" unfolding e a by (rule f32_nonneg [OF q(1)])
  show "f32 (f32 (of_int e) / f32 (of_int a)) \<le> 1"
    unfolding e a using fl_round_le_nat [OF q(1), of 1 24] q(2) by (simp add: f32_def)
  show "f32 (f32 (of_int e) / f32 (of_int a)) = 1" if "e = a"
    unfolding e a using that assms f32_nat [of 1] by simp
qed

lemma partial_points_le:
  assumes "0 < e" and "e \<le> a" and "a < 2 ^ 24" and "unat avail < 2 ^ 24"
  shows "partial_points avail e a \<le> avail" and "e = a \<Longrightarrow> partial_points avail e a = avail"
proof -
  define q where "q = f32 (f32 (of_int e) / f32 (of_int a))"
  define n where "n = unat avail"
  have q: "0 \<le> q" "q \<le> 1" "e = a \<Longrightarrow> q = 1" unfolding q_def by (rule partial_share [OF assms(1-3)])+
  have n24: "n < 2 ^ 24" using assms(4) by (simp add: n_def)
  have n: "f32 (of_nat n) = of_nat n" by (rule f32_nat [OF n24])
  have le: "of_nat n * q \<le> (of_nat n :: rat)" "0 \<le> of_nat n * q"
    using q(1,2) by (simp_all add: mult_left_le)
  have r: "0 \<le> f32 (of_nat n * q)" "f32 (of_nat n * q) \<le> of_nat n"
    using f32_nonneg [OF le(2)] fl_round_le_nat [OF le(2,1) n24] by (simp_all add: f32_def)
  define v where "v = \<lfloor>f32 (of_nat n * q)\<rfloor>"
  have pp: "partial_points avail e a = word_of_int v"
    unfolding partial_points_def v_def q_def [symmetric] n_def [symmetric] n ..
  have v: "0 \<le> v" "v \<le> int n" using r by (simp_all add: v_def floor_le_iff)
  moreover have "int n < 2 ^ 64" using n24 by simp
  ultimately have "uint (word_of_int v :: 64 word) = v"
    by (simp add: uint_word_of_int)
  then have "uint (partial_points avail e a) \<le> uint avail"
    using v(2) by (simp add: pp n_def)
  then show "partial_points avail e a \<le> avail" by (simp add: word_le_def)
  show "partial_points avail e a = avail" if "e = a"
  proof -
    have "v = int n" using q(3) [OF that] n by (simp add: v_def)
    then show ?thesis by (simp add: pp n_def)
  qed
qed

section \<open>What an evaluation decides\<close>

text \<open>The command ended the way its template allows: panics and timeouts as declared.\<close>

definition crash_ok :: "bool \<Rightarrow> Command \<Rightarrow> bool" where
  "crash_ok eof c \<longleftrightarrow>
     (c_TimedOut c \<longrightarrow> c_TimesOut c \<noteq> CMD_OPT_NO) \<and>
     (eof \<longrightarrow> c_Panic c \<noteq> CMD_OPT_NO \<or> (c_TimesOut c \<noteq> CMD_OPT_NO \<and> c_TimedOut c)) \<and>
     (c_Panic c = CMD_OPT_YES \<longrightarrow> eof) \<and> (c_TimesOut c = CMD_OPT_YES \<longrightarrow> c_TimedOut c)"

lemma evaluate_cases:
  assumes "evaluate keyMap eof c = Some c'"
  obtains (crash) "\<not> crash_ok eof c" "c' = c\<lparr>c_PointsEarned := 0, c_Status := COMMAND_STATUS_INCORRECT\<rparr>"
  | (matched) "crash_ok eof c" "match_output keyMap (c_Output c) (c_ExpectedOutput c) = []"
      "c' = c\<lparr>c_PointsEarned := c_PointsAvailable c, c_Status := COMMAND_STATUS_CORRECT\<rparr>"
  | (partial_credit) ident e a where "crash_ok eof c" "match_output keyMap (c_Output c) (c_ExpectedOutput c) \<noteq> []"
      "Command_Id c = Some ident" "partial_totals keyMap ident (c_Output c) = (e, a)"
      "c' = (if 0 < e \<and> 0 < a
             then c\<lparr>c_PointsEarned := partial_points (c_PointsAvailable c) e a,
                    c_Status := if a = e then COMMAND_STATUS_CORRECT else COMMAND_STATUS_INCORRECT\<rparr>
             else c\<lparr>c_PointsEarned := 0, c_Status := COMMAND_STATUS_INCORRECT\<rparr>)"
proof -
  have id: "Command_Id (c\<lparr>c_PointsEarned := 0\<rparr>) = Command_Id c" by (simp add: Command_Id_def)
  have nil: "c_ExpectedOutput c = [] \<Longrightarrow> match_output keyMap (c_Output c) (c_ExpectedOutput c) = []" by simp
  show thesis
  proof (cases "crash_ok eof c")
    case False
    then have "evaluate keyMap eof c = Some (c\<lparr>c_PointsEarned := 0, c_Status := COMMAND_STATUS_INCORRECT\<rparr>)"
      unfolding crash_ok_def evaluate_def Let_def by auto
    with assms False crash show thesis by simp
  next
    case True
    have ev: "evaluate keyMap eof c =
      (if match_output keyMap (c_Output c) (c_ExpectedOutput c) = []
       then Some (c\<lparr>c_PointsEarned := c_PointsAvailable c, c_Status := COMMAND_STATUS_CORRECT\<rparr>)
       else (case Command_Id c of None \<Rightarrow> None | Some ident \<Rightarrow>
         (case partial_totals keyMap ident (c_Output c) of (e, a) \<Rightarrow>
           if 0 < e \<and> 0 < a
           then Some (c\<lparr>c_PointsEarned := partial_points (c_PointsAvailable c) e a,
                    c_Status := if a = e then COMMAND_STATUS_CORRECT else COMMAND_STATUS_INCORRECT\<rparr>)
           else Some (c\<lparr>c_PointsEarned := 0, c_Status := COMMAND_STATUS_INCORRECT\<rparr>))))"
      using True nil unfolding crash_ok_def evaluate_def Let_def id
      by (auto simp: id split: option.split prod.split)
    show thesis
    proof (cases "match_output keyMap (c_Output c) (c_ExpectedOutput c) = []")
      case match: True
      then show thesis using True assms unfolding ev by (intro matched) auto
    next
      case no_match: False
      with assms obtain ident where ident: "Command_Id c = Some ident" unfolding ev by (cases "Command_Id c") auto
      obtain e a where ea: "partial_totals keyMap ident (c_Output c) = (e, a)" by (cases "partial_totals keyMap ident (c_Output c)")
      show thesis
        using True no_match ident ea assms unfolding ev by (intro partial_credit [of ident e a]) (auto split: if_splits)
    qed
  qed
qed

text \<open>
  C2. A command is graded correct exactly when it ended the way its template allows and either
  its expected lines appear in its output in order (each trusted where the key is known), or the
  first partial credit line it may use claims all of its points.
\<close>

theorem evaluate_correct_iff:
  assumes "evaluate keyMap eof c = Some c'"
  shows "c_Status c' = COMMAND_STATUS_CORRECT \<longleftrightarrow>
    crash_ok eof c \<and>
    ((\<exists>sub. subseq sub (c_Output c) \<and> list_all2 (line_matches keyMap) (c_ExpectedOutput c) sub) \<or>
     (\<exists>ident n. Command_Id c = Some ident \<and> partial_totals keyMap ident (c_Output c) = (n, n) \<and> 0 < n))"
  unfolding match_output_iff [symmetric]
  using assms by (rule evaluate_cases) (auto split: if_splits)

text \<open>
  C6. The points of a command: none when it is graded incorrect without partial credit, all of
  them when it is correct, and never more than are available as long as the partial credit line
  does not claim more than it offers (below $2^{24}$, where \<open>float32\<close> is exact).
\<close>

theorem evaluate_points_bound:
  assumes ev: "evaluate keyMap eof c = Some c'" and avail: "unat (c_PointsAvailable c) < 2 ^ 24"
    and sane: "\<And>ident e a. Command_Id c = Some ident \<Longrightarrow> partial_totals keyMap ident (c_Output c) = (e, a) \<Longrightarrow>
      e \<le> a \<and> a < 2 ^ 24"
  shows "c_PointsEarned c' \<le> c_PointsAvailable c \<and>
    (c_Status c' = COMMAND_STATUS_CORRECT \<longrightarrow> c_PointsEarned c' = c_PointsAvailable c)"
  using ev
proof (rule evaluate_cases, goal_cases)
  case (3 ident e a)
  have ea: "e \<le> a" "a < 2 ^ 24" using sane [OF 3(3,4)] by auto
  show ?case
  proof (cases "0 < e \<and> 0 < a")
    case True
    with partial_points_le [OF _ ea avail] 3(5) show ?thesis by auto
  next
    case False
    with 3(5) show ?thesis by simp
  qed
qed simp_all

text \<open>
  C3. Output that is not signed. When a trusted line is expected under a known key and no output line
  is trusted, the expected output does not count as given: the command is incorrect and earns
  nothing, with one exception. If there is no key for the name of the command itself, its credit line
  needs no signature; then its points are the share this line claims, and it is correct only if
  the line claims everything.
\<close>

theorem untrusted_output_earns_nothing:
  assumes ev: "evaluate keyMap eof c = Some c'"
    and e: "e \<in> set (c_ExpectedOutput c)" "eo_Trusted e" "hasKey keyMap (eo_KeyName e)"
    and untrusted: "\<forall>l\<in>set (c_Output c). \<not> ol_Trusted l"
  shows "c_Status c' = COMMAND_STATUS_INCORRECT \<and> c_PointsEarned c' = 0 \<or>
    (\<exists>ident earned avail. Command_Id c = Some ident \<and> \<not> hasKey keyMap ident \<and>
       partial_totals keyMap ident (c_Output c) = (earned, avail) \<and> 0 < earned \<and> 0 < avail \<and>
       c_PointsEarned c' = partial_points (c_PointsAvailable c) earned avail \<and>
       (c_Status c' = COMMAND_STATUS_CORRECT \<longleftrightarrow> earned = avail))"
proof -
  have nomatch: "match_output keyMap (c_Output c) (c_ExpectedOutput c) \<noteq> []"
  proof
    assume "match_output keyMap (c_Output c) (c_ExpectedOutput c) = []"
    then obtain sub where sub: "subseq sub (c_Output c)" "list_all2 (line_matches keyMap) (c_ExpectedOutput c) sub"
      using match_output_sound by blast
    from sub(2) e(1) obtain l where "l \<in> set sub" "line_matches keyMap e l"
      unfolding list_all2_conv_all_nth in_set_conv_nth by metis
    moreover have "set sub \<subseteq> set (c_Output c)" using list_emb_set [OF sub(1)] by blast
    ultimately show False using e untrusted by (auto simp: line_matches_def)
  qed
  have totals: "partial_totals keyMap ident outs = (0, 0)"
    if "hasKey keyMap ident" "\<forall>l\<in>set outs. \<not> ol_Trusted l" for ident outs
    using that(2) by (induction outs) (simp_all add: our_line_def that(1))
  show ?thesis
    using ev
  proof (rule evaluate_cases, goal_cases)
    case (3 ident earned avail)
    with totals [of ident] untrusted show ?thesis by (cases "hasKey keyMap ident") auto
  qed (use nomatch in auto)
qed

text \<open>A command of the target \<open>asst2\<close> that forks: trusted output is expected under its own key.\<close>

definition forktest :: "bool \<Rightarrow> string \<Rightarrow> Command" where
  "forktest trusted out =
     (blank_command ''/testbin/forktest'')
       \<lparr>c_PointsAvailable := 10,
        c_ExpectedOutput := [\<lparr>eo_Text = ''forktest: SUCCESS'', eo_Trusted = True, eo_KeyName = ''/testbin/forktest''\<rparr>],
        c_Output := [blank_line\<lparr>ol_Line := ''forktest: Starting''\<rparr>,
                     blank_line\<lparr>ol_Line := out, ol_Trusted := trusted, ol_KeyName := ''/testbin/forktest''\<rparr>]\<rparr>"

definition fork_keys :: "(string, string) gomap" where
  "fork_keys = [(''/testbin/forktest'', ''k3y'')]"

lemma evaluate_correct_iff_witness:
  "c_Status (the (evaluate fork_keys False (forktest True ''forktest: SUCCESS''))) = COMMAND_STATUS_CORRECT \<and>
   (\<exists>sub. subseq sub (c_Output (forktest True ''forktest: SUCCESS'')) \<and>
      list_all2 (line_matches fork_keys) (c_ExpectedOutput (forktest True ''forktest: SUCCESS'')) sub)"
proof -
  let ?c = "forktest True ''forktest: SUCCESS''"
  have st: "c_Status (the (evaluate fork_keys False ?c)) = COMMAND_STATUS_CORRECT" by code_simp
  have ev: "evaluate fork_keys False ?c = Some (the (evaluate fork_keys False ?c))" by code_simp
  have tot: "Command_Id ?c = Some ''/testbin/forktest'' \<and>
      partial_totals fork_keys ''/testbin/forktest'' (c_Output ?c) = (0, 0)" by code_simp
  from evaluate_correct_iff [OF ev] st tot show ?thesis by auto
qed

lemma evaluate_points_bound_witness:
  "c_PointsEarned (the (evaluate fork_keys False (forktest True ''PARTIAL CREDIT 3 OF 4''))) \<le> 10"
proof -
  let ?c = "forktest True ''PARTIAL CREDIT 3 OF 4''"
  have tot: "Command_Id ?c = Some ''/testbin/forktest'' \<and>
      partial_totals fork_keys ''/testbin/forktest'' (c_Output ?c) = (3, 4)" by code_simp
  have ev: "evaluate fork_keys False ?c = Some (the (evaluate fork_keys False ?c))" by code_simp
  have "c_PointsEarned (the (evaluate fork_keys False ?c)) \<le> c_PointsAvailable ?c"
    by (rule conjunct1 [OF evaluate_points_bound [OF ev]]) (use tot in \<open>auto simp: forktest_def\<close>)
  then show ?thesis by (simp add: forktest_def)
qed

lemma untrusted_output_earns_nothing_witness:
  "c_PointsEarned (the (evaluate fork_keys False (forktest False ''forktest: SUCCESS''))) = 0"
proof -
  let ?c = "forktest False ''forktest: SUCCESS''"
  have id: "Command_Id ?c = Some ''/testbin/forktest'' \<and> hasKey fork_keys ''/testbin/forktest''" by code_simp
  have ev: "evaluate fork_keys False ?c = Some (the (evaluate fork_keys False ?c))" by code_simp
  have e: "hd (c_ExpectedOutput ?c) \<in> set (c_ExpectedOutput ?c)" "eo_Trusted (hd (c_ExpectedOutput ?c))"
    "hasKey fork_keys (eo_KeyName (hd (c_ExpectedOutput ?c)))" "\<forall>l\<in>set (c_Output ?c). \<not> ol_Trusted l"
    by (auto simp: forktest_def blank_line_def hasKey_def gm_has_def fork_keys_def)
  from untrusted_output_earns_nothing [OF ev e] id show ?thesis by auto
qed

text \<open>
  The exception occurs: a command that expects the signed line of another program, but has no key of
  its own, gets all its points for a credit line that anybody can print.
\<close>

lemma unsigned_credit_counts:
  "map_option (\<lambda>c. (c_Status c, c_PointsEarned c))
     (evaluate fork_keys False
       ((forktest False ''PARTIAL CREDIT 5 OF 5'')\<lparr>c_Input := \<lparr>in_WallTime = 0, in_SimTime = 0, in_Line = ''/bin/sh''\<rparr>\<rparr>)) =
   Some (COMMAND_STATUS_CORRECT, 10)"
  by code_simp

text \<open>
  The share of a partial credit line is computed in \<open>float32\<close> and cut off: 53 of 100 is worth
  52 of 100 points, and nothing stops a line from claiming more than the command is worth.
\<close>

theorem partial_points_rounding:
  "partial_points 100 53 100 = 52 \<and> partial_points 100 3 4 = 75 \<and> partial_points 10 200 100 = 20"
proof -
  have "partial_points 100 53 100 = 52" by code_simp
  moreover have "partial_points 100 3 4 = 75" by code_simp
  moreover have "partial_points 10 200 100 = 20" by code_simp
  ultimately show ?thesis by simp
qed

end
