(* ===== verification/SecureOutput.thy ===== *)
theory SecureOutput
  imports Grading
begin

text \<open>
  Receiving the simulator's output (\<open>logger.go\<close>: \<open>Test.Recv\<close>) and what a trusted line is
  worth: a line is trusted only with a valid hash and a salt that is new to the test.
\<close>

section \<open>Receiving bytes\<close>

definition curCommand :: "'a RunTest_scheme \<Rightarrow> Command" where
  "curCommand t = t_Commands t ! r_commandCounter t"

definition upd_cur :: "(Command \<Rightarrow> Command) \<Rightarrow> 'a RunTest_scheme \<Rightarrow> 'a RunTest_scheme" where
  "upd_cur f t = t\<lparr>t_Commands := (t_Commands t)[r_commandCounter t := f (curCommand t)]\<rparr>"

definition notify :: "entity \<Rightarrow> notify_msg \<Rightarrow> nat \<Rightarrow> 'a RunTest_scheme \<Rightarrow> 'a RunTest_scheme" where
  "notify e msg what t =
     (if env_HasPersistence (r_env t) then t\<lparr>r_notes := r_notes t @ [(e, msg, what)]\<rparr> else t)"

text \<open>\<open>&OutputLine{}\<close>.\<close>

definition new_output :: OutputLine where
  "new_output = \<lparr>ol_WallTime = 0, ol_SimTime = 0, ol_Buffer = [], ol_Line = [], ol_Trusted = False, ol_KeyName = []\<rparr>"

text \<open>One byte, with the wall time the clock gives when it is processed.\<close>

definition recv_byte :: "(string \<Rightarrow> string \<Rightarrow> string) \<Rightarrow> 'a RunTest_scheme \<Rightarrow> TimeFixedPoint \<times> char \<Rightarrow> 'a RunTest_scheme" where
  "recv_byte hmac t wb =
     (let out = r_currentOutput t;
          out = (if ol_WallTime out = 0 then out\<lparr>ol_WallTime := fst wb, ol_SimTime := t_SimTime t\<rparr> else out);
          out = out\<lparr>ol_Buffer := ol_Buffer out @ [snd wb]\<rparr>
      in if snd wb = CHR 0x0A then
           (let t = outputLineComplete hmac (t\<lparr>r_currentOutput := out\<lparr>ol_Line := ol_Buffer out\<rparr>\<rparr>);
                t = upd_cur (\<lambda>c. c\<lparr>c_Output := c_Output c @ [r_currentOutput t]\<rparr>) t;
                t = notify (ECommand (r_commandCounter t)) MSG_PERSIST_UPDATE MSG_FIELD_OUTPUT t
            in t\<lparr>r_currentOutput := new_output\<rparr>)
         else t\<lparr>r_currentOutput := out\<rparr>)"

text \<open>The statistics goroutine starts with the first call.\<close>

definition Recv :: "(string \<Rightarrow> string \<Rightarrow> string) \<Rightarrow> 'a RunTest_scheme \<Rightarrow> (TimeFixedPoint \<times> char) list \<Rightarrow> 'a RunTest_scheme" where
  "Recv hmac t received =
     foldl (recv_byte hmac) (t\<lparr>r_statStarted := True, r_progressTime := t_SimTime t\<rparr>) received"

section \<open>The secure form\<close>

lemma splits_at_iff: "(a, b) \<in> set (splits_at sep s) \<longleftrightarrow> s = a @ sep @ b"
proof (induction s arbitrary: a)
  case Nil
  then show ?case by auto
next
  case (Cons c s)
  show ?case
  proof (cases a)
    case Nil
    have "(\<exists>t. c # s = sep @ t \<and> b = drop (length sep) (c # s)) \<longleftrightarrow> c # s = sep @ b"
      by auto
    then show ?thesis using Nil by (auto simp: HasPrefix_def prefix_def)
  next
    case (Cons d a')
    then show ?thesis using Cons.IH [of a'] by auto
  qed
qed

text \<open>What the fields of a secure line are.\<close>

definition secprintf :: "string \<Rightarrow> string \<Rightarrow> string \<Rightarrow> string \<Rightarrow> string" where
  "secprintf ident hash salt msg = ''('' @ ident @ '', '' @ hash @ '', '' @ salt @ '', '' @ msg @ '')''"

lemma os161Secure_sound:
  assumes "os161Secure line = Some (ident, hash, salt, msg)"
  shows "line = secprintf ident hash salt msg \<and> list_all is_hex hash \<and> salt \<noteq> [] \<and> is_hex (hd salt)"
proof -
  from assms obtain cs where line: "line = CHR ''('' # cs" and cs: "cs \<noteq> []" "last cs = CHR '')''"
    and f: "(ident, hash, salt, msg) \<in> set (secure_fields (butlast cs))"
    unfolding os161Secure_def by (auto split: list.splits if_splits)
  from f have "butlast cs = ident @ '', '' @ hash @ '', '' @ salt @ '', '' @ msg"
    and ok: "list_all is_hex hash" "salt \<noteq> []" "is_hex (hd salt)"
    unfolding secure_fields_def by (auto simp: splits_at_iff)
  then have "cs = (ident @ '', '' @ hash @ '', '' @ salt @ '', '' @ msg) @ '')''"
    using cs append_butlast_last_id [of cs] by metis
  with line ok show ?thesis by (simp add: secprintf_def)
qed

lemma splits_at_none: "CHR '','' \<notin> set s \<Longrightarrow> splits_at '', '' s = []"
  by (induction s) (auto simp: HasPrefix_def prefix_def)

lemma splits_at_first:
  "CHR '','' \<notin> set a \<Longrightarrow> splits_at '', '' (a @ '', '' @ s) = map (\<lambda>(x, y). (a @ '', '' @ x, y)) (splits_at '', '' s) @ [(a, s)]"
proof (induction a)
  case Nil
  have "splits_at '', '' ('' '' @ s) = map (\<lambda>(x, y). ('' '' @ x, y)) (splits_at '', '' s)"
    by (simp add: HasPrefix_def)
  then show ?case by (simp add: HasPrefix_def comp_def case_prod_beta)
next
  case (Cons c a)
  then show ?case by (auto simp: HasPrefix_def comp_def case_prod_beta)
qed

text \<open>
  The recogniser reads back what the kernel's \<open>secprintf\<close> writes, for names, hashes, salts and
  messages without a comma.
\<close>

theorem secprintf_roundtrip:
  assumes nc: "CHR '','' \<notin> set ident" "CHR '','' \<notin> set hash" "CHR '','' \<notin> set salt" "CHR '','' \<notin> set msg"
    and hex: "list_all is_hex hash" "salt \<noteq> []" "is_hex (hd salt)"
    and nl: "CHR 0x0A \<notin> set (ident @ hash @ salt @ msg)"
  shows "os161Secure (secprintf ident hash salt msg) = Some (ident, hash, salt, msg)"
proof -
  let ?b = "ident @ '', '' @ hash @ '', '' @ salt @ '', '' @ msg"
  note f = splits_at_first [OF nc(1)] splits_at_first [OF nc(2)] splits_at_first [OF nc(3)] splits_at_none [OF nc(4)]
  have "secure_fields ?b = [(ident, hash, salt, msg)]"
    unfolding secure_fields_def f using hex nc
    by (simp add: splits_at_none splits_at_first [OF nc(3), simplified] splits_at_first [OF nc(2), simplified] list_all_iff)
  then show ?thesis
    using nl by (simp add: secprintf_def os161Secure_def butlast_append)
qed

lemma secprintf_roundtrip_witness:
  "os161Secure (secprintf ''/testbin/add'' ''0af3'' ''b12'' ''/testbin/add: SUCCESS'') =
     Some (''/testbin/add'', ''0af3'', ''b12'', ''/testbin/add: SUCCESS'')"
  by (rule secprintf_roundtrip) code_simp+

section \<open>Trusted lines\<close>

definition key_for :: "TestEnvironment \<Rightarrow> string \<Rightarrow> string" where
  "key_for env ident = (case gm_get (env_keyMap env) ident of Some k \<Rightarrow> k | None \<Rightarrow> [])"

definition raw_text :: "OutputLine \<Rightarrow> string" where
  "raw_text line = filter (\<lambda>c. c \<noteq> CHR 0x00) (strip_eol (ol_Line line))"

lemma line_trusted:
  assumes "\<not> ol_Trusted (r_currentOutput t)" and "ol_Trusted (r_currentOutput (outputLineComplete hmac t))"
  obtains ident salt msg where
    "os161Secure (raw_text (r_currentOutput t)) = Some (ident, hmac (key_for (r_env t) ident @ salt) msg, salt, msg)"
    "length (strip_eol (ol_Line (r_currentOutput t))) \<noteq> 1" "salt \<notin> set (r_salts t)"
    "salt \<in> set (r_salts (outputLineComplete hmac t))"
    "ol_KeyName (r_currentOutput (outputLineComplete hmac t)) = ident"
    "ol_Line (r_currentOutput (outputLineComplete hmac t)) = msg"
proof -
  let ?text = "raw_text (r_currentOutput t)"
  from assms have len: "length (strip_eol (ol_Line (r_currentOutput t))) \<noteq> 1"
    by (auto simp: outputLineComplete_def Let_def)
  from assms len obtain ident hash salt msg where f: "os161Secure ?text = Some (ident, hash, salt, msg)"
    by (cases "os161Secure ?text") (auto simp: outputLineComplete_def Let_def raw_text_def)
  from assms len f have h: "salt \<notin> set (r_salts t)" "hmac (key_for (r_env t) ident @ salt) msg = hash"
    by (auto simp: outputLineComplete_def Let_def raw_text_def key_for_def split: if_splits)
  moreover from this len f have "salt \<in> set (r_salts (outputLineComplete hmac t))"
      "ol_KeyName (r_currentOutput (outputLineComplete hmac t)) = ident"
      "ol_Line (r_currentOutput (outputLineComplete hmac t)) = msg"
    by (auto simp: outputLineComplete_def Let_def raw_text_def key_for_def)
  ultimately show thesis using that f len by blast
qed

lemma simps_of_current: "r_currentOutput (t\<lparr>r_currentOutput := line\<rparr>) = line"
  by simp

lemma line_repeated:
  assumes "os161Secure (raw_text (r_currentOutput t)) = Some (ident, hash, salt, msg)"
    and "length (strip_eol (ol_Line (r_currentOutput t))) \<noteq> 1" and "salt \<in> set (r_salts t)"
  shows "\<not> ol_Trusted (r_currentOutput (outputLineComplete hmac t))"
  using assms by (simp add: outputLineComplete_def Let_def raw_text_def)

text \<open>
  C4. Trust is earned: a line becomes trusted only if its text has the secure form, its hash is the
  keyed hash of the message under the key of the named program and the salt, and the salt was not
  seen before in the test; the salt is then remembered and the line shows the bare message.
\<close>

theorem trusted_line_signed:
  assumes "\<not> ol_Trusted (r_currentOutput t)" and "ol_Trusted (r_currentOutput (outputLineComplete hmac t))"
  shows "\<exists>ident salt msg.
    raw_text (r_currentOutput t) = secprintf ident (hmac (key_for (r_env t) ident @ salt) msg) salt msg \<and>
    salt \<notin> set (r_salts t) \<and> salt \<in> set (r_salts (outputLineComplete hmac t)) \<and>
    ol_KeyName (r_currentOutput (outputLineComplete hmac t)) = ident \<and>
    ol_Line (r_currentOutput (outputLineComplete hmac t)) = msg"
proof (rule line_trusted [OF assms], goal_cases)
  case (1 ident salt msg)
  then show ?case using os161Secure_sound [OF 1(1)] by blast
qed

lemma outputLineComplete_salts: "set (r_salts t) \<subseteq> set (r_salts (outputLineComplete hmac t))"
  by (auto simp: outputLineComplete_def Let_def split: option.splits)

lemma recv_byte_salts: "set (r_salts t) \<subseteq> set (r_salts (recv_byte hmac t wb))"
  using outputLineComplete_salts
  by (fastforce simp: recv_byte_def Let_def notify_def upd_cur_def)

lemma foldl_recv_salts: "set (r_salts t) \<subseteq> set (r_salts (foldl (recv_byte hmac) t received))"
proof (induction received arbitrary: t)
  case Nil
  then show ?case by simp
next
  case (Cons wb received)
  then show ?case using recv_byte_salts [of t hmac wb] by force
qed

lemma Recv_salts: "set (r_salts t) \<subseteq> set (r_salts (Recv hmac t received))"
  unfolding Recv_def
  using foldl_recv_salts [of "t\<lparr>r_statStarted := True, r_progressTime := t_SimTime t\<rparr>" hmac received] by simp

text \<open>
  C5. A trusted line cannot be replayed: once a line was trusted, the same bytes later in the test are
  not, whatever was received in between.
\<close>

theorem no_replay:
  assumes "\<not> ol_Trusted line"
    and "ol_Trusted (r_currentOutput (outputLineComplete hmac (t\<lparr>r_currentOutput := line\<rparr>)))"
  shows "\<not> ol_Trusted (r_currentOutput (outputLineComplete hmac
    ((Recv hmac (outputLineComplete hmac (t\<lparr>r_currentOutput := line\<rparr>)) received)\<lparr>r_currentOutput := line\<rparr>)))"
proof -
  let ?t = "t\<lparr>r_currentOutput := line\<rparr>"
  have "\<not> ol_Trusted (r_currentOutput ?t)" using assms(1) by simp
  then obtain ident salt msg hash where
    f: "os161Secure (raw_text line) = Some (ident, hash, salt, msg)" "length (strip_eol (ol_Line line)) \<noteq> 1"
      "salt \<in> set (r_salts (outputLineComplete hmac ?t))"
    using line_trusted [OF _ assms(2)] by (metis simps_of_current)
  with Recv_salts [of "outputLineComplete hmac ?t" hmac received] show ?thesis
    by (intro line_repeated [where ident = ident and hash = hash and salt = salt and msg = msg]) auto
qed

text \<open>
  How the simulator's output is cut into reads does not matter: receiving two chunks one after the
  other is receiving their concatenation.
\<close>

theorem Recv_chunks: "Recv hmac t (as @ bs) = Recv hmac (Recv hmac t as) bs"
proof -
  have keep: "r_statStarted (recv_byte hmac s wb) = r_statStarted s \<and>
      r_progressTime (recv_byte hmac s wb) = r_progressTime s \<and> t_SimTime (recv_byte hmac s wb) = t_SimTime s" for s wb
    by (simp add: recv_byte_def Let_def notify_def upd_cur_def outputLineComplete_def split: option.split)
  have acc: "r_statStarted (foldl (recv_byte hmac) s as) = r_statStarted s \<and>
      r_progressTime (foldl (recv_byte hmac) s as) = r_progressTime s \<and>
      t_SimTime (foldl (recv_byte hmac) s as) = t_SimTime s" for s
    by (induction as arbitrary: s) (simp_all add: keep)
  have same: "s\<lparr>r_statStarted := True, r_progressTime := t_SimTime s\<rparr> = s"
    if "r_statStarted s" "r_progressTime s = t_SimTime s" for s
    using that by (cases s) simp
  let ?s = "foldl (recv_byte hmac) (t\<lparr>r_statStarted := True, r_progressTime := t_SimTime t\<rparr>) as"
  have "?s\<lparr>r_statStarted := True, r_progressTime := t_SimTime ?s\<rparr> = ?s" by (rule same) (simp_all add: acc)
  then show ?thesis unfolding Recv_def by simp
qed

text \<open>A kernel that signs one line with the key \<open>k3y\<close> and the salt \<open>b12\<close>.\<close>

definition sample_hmac :: "string \<Rightarrow> string \<Rightarrow> string" where
  "sample_hmac key msg = (if key = ''k3yb12'' then ''0af3'' else ''dead'')"

definition signed_line :: OutputLine where
  "signed_line = blank_line\<lparr>ol_Line := secprintf ''lt1'' ''0af3'' ''b12'' ''lt1: SUCCESS'' @ [CHR 0x0D, CHR 0x0A]\<rparr>"

definition signed_run :: RunTest where
  "signed_run = blank_run\<lparr>r_env := blank_env\<lparr>env_keyMap := [(''lt1'', ''k3y'')]\<rparr>, r_currentOutput := signed_line\<rparr>"

lemma signed_run_trusted:
  "\<not> ol_Trusted (r_currentOutput signed_run)"
  "ol_Trusted (r_currentOutput (outputLineComplete sample_hmac signed_run))"
  by code_simp+

lemma trusted_line_signed_witness:
  "\<exists>ident salt msg. ol_KeyName (r_currentOutput (outputLineComplete sample_hmac signed_run)) = ident \<and>
     salt \<notin> set (r_salts signed_run) \<and> salt \<in> set (r_salts (outputLineComplete sample_hmac signed_run))"
  using trusted_line_signed [OF signed_run_trusted] by blast

lemma no_replay_witness:
  "\<not> ol_Trusted (r_currentOutput (outputLineComplete sample_hmac
     ((Recv sample_hmac (outputLineComplete sample_hmac (blank_run\<lparr>r_env := blank_env\<lparr>env_keyMap := [(''lt1'', ''k3y'')]\<rparr>,
        r_currentOutput := signed_line\<rparr>)) [])\<lparr>r_currentOutput := signed_line\<rparr>)))"
  by (rule no_replay) code_simp+

end
