(* ===== verification/MemLeaks.thy ===== *)
theory MemLeaks
  imports SecureOutput
begin

text \<open>
  The end of a test (\<open>run.go\<close>): status messages, the memory leak check over the \<open>khu\<close> commands
  with its deduction, and \<open>finishAndEvaluate\<close>. The clock's reading is the argument \<open>wall\<close>.
\<close>

section \<open>Statuses\<close>

definition addStatus :: "TimeFixedPoint \<Rightarrow> string \<Rightarrow> string \<Rightarrow> 'a RunTest_scheme \<Rightarrow> 'a RunTest_scheme" where
  "addStatus wall status message t =
     notify ETest MSG_PERSIST_UPDATE MSG_FIELD_STATUSES
       (t\<lparr>t_Status := t_Status t @
           [\<lparr>sta_WallTime = wall, sta_SimTime = t_SimTime t, sta_Status = status, sta_Message = message\<rparr>]\<rparr>)"

definition show_int :: "int \<Rightarrow> string" where
  "show_int i = (if i < 0 then CHR ''-'' # Itoa (nat (- i)) else Itoa (nat i))"

definition show_uint :: "uint \<Rightarrow> string" where
  "show_uint n = Itoa (unat n)"

section \<open>Deductions\<close>

definition deductMemLeakPoints :: "'a Test_scheme \<Rightarrow> 'a Test_scheme" where
  "deductMemLeakPoints t =
     (if 0 < t_PointsAvailable t \<and> 0 < t_MemLeakPoints t then
        (if t_PointsEarned t < t_MemLeakPoints t
         then t\<lparr>t_MemLeakDeducted := t_PointsEarned t, t_PointsEarned := 0\<rparr>
         else t\<lparr>t_PointsEarned := t_PointsEarned t - t_MemLeakPoints t, t_MemLeakDeducted := t_MemLeakPoints t\<rparr>)
      else t)"

definition addMemLeakStatus :: "TimeFixedPoint \<Rightarrow> bool \<Rightarrow> 'a RunTest_scheme \<Rightarrow> 'a RunTest_scheme" where
  "addMemLeakStatus wall badOutput t =
     (if badOutput then
        (if 0 < t_MemLeakDeducted t
         then addStatus wall ''memory leak''
           (''Unable to determine memory leak, corrupted output. Memory leak deduction: '' @
            show_uint (t_MemLeakDeducted t) @ '' points'') t
         else addStatus wall ''memory leak'' ''Unable to determine memory leak, corrupted output'' t)
      else if 0 < t_PointsAvailable t \<and> 0 < t_MemLeakPoints t
      then addStatus wall ''memory leak''
        (''Memory leak deduction ('' @ show_int (t_MemLeakBytes t) @ '' bytes): '' @
         show_uint (t_MemLeakDeducted t) @ '' points'') t
      else addStatus wall ''memory leak''
        (''Warning: memory leak detected ('' @ show_int (t_MemLeakBytes t) @ '' bytes)'') t)"

section \<open>The check\<close>

text \<open>\<open>^khu: (\d+)$\<close>. Out of 64 bits \<open>Atoi\<close> gives its largest value, and the error is dropped.\<close>

definition memLeakRegex :: "string \<Rightarrow> int option" where
  "memLeakRegex line =
     (if HasPrefix line ''khu: '' \<and> is_number (drop 5 line)
      then Some (case Atoi (drop 5 line) of Some v \<Rightarrow> v | None \<Rightarrow> 2 ^ 63 - 1) else None)"

text \<open>The reading of one \<open>khu\<close> command: its first acceptable line.\<close>

fun khu_reading :: "(string, string) gomap \<Rightarrow> OutputLine list \<Rightarrow> int option" where
  "khu_reading keyMap [] = None"
| "khu_reading keyMap (line # outs) =
     (case (if our_line keyMap ''khu'' line then memLeakRegex (ol_Line line) else None) of
        Some usedMem \<Rightarrow> Some usedMem
      | None \<Rightarrow> khu_reading keyMap outs)"

fun mem_leak_loop :: "TimeFixedPoint \<Rightarrow> int \<Rightarrow> Command list \<Rightarrow> 'a RunTest_scheme \<Rightarrow> 'a RunTest_scheme option" where
  "mem_leak_loop wall expectedMem [] t = Some t"
| "mem_leak_loop wall expectedMem (c # cs) t =
     (case Command_Id c of
        None \<Rightarrow> None
      | Some ident \<Rightarrow>
          if ident \<noteq> ''khu'' then mem_leak_loop wall expectedMem cs t
          else
            (let t = t\<lparr>t_MemLeakChecked := True\<rparr>
             in case khu_reading (env_keyMap (r_env t)) (c_Output c) of
                  None \<Rightarrow> Some (addMemLeakStatus wall True (deductMemLeakPoints t))
                | Some usedMem \<Rightarrow>
                    if expectedMem = 0 then mem_leak_loop wall usedMem cs t
                    else if expectedMem \<noteq> usedMem then
                      Some (addMemLeakStatus wall False
                        ((deductMemLeakPoints t)\<lparr>t_MemLeakBytes := usedMem - expectedMem\<rparr>))
                    else mem_leak_loop wall expectedMem cs t))"

definition evaluateMemLeaks :: "TimeFixedPoint \<Rightarrow> 'a RunTest_scheme \<Rightarrow> 'a RunTest_scheme option" where
  "evaluateMemLeaks wall t = mem_leak_loop wall 0 (t_Commands t) t"

definition finishAndEvaluate :: "TimeFixedPoint \<Rightarrow> 'a RunTest_scheme \<Rightarrow> 'a RunTest_scheme option" where
  "finishAndEvaluate wall t =
     evaluateMemLeaks wall
       (if r_allCorrect t then
          t\<lparr>t_Result := TEST_RESULT_CORRECT,
            t_PointsEarned := (if t_ScoringMethod t = TEST_SCORING_ENTIRE then t_PointsAvailable t else t_PointsEarned t)\<rparr>
        else t\<lparr>t_Result := TEST_RESULT_INCORRECT\<rparr>)"

section \<open>Properties\<close>

lemma addStatus_fields [simp]:
  "t_PointsEarned (addStatus wall s m t) = t_PointsEarned t"
  "t_PointsAvailable (addStatus wall s m t) = t_PointsAvailable t"
  "t_MemLeakDeducted (addStatus wall s m t) = t_MemLeakDeducted t"
  "t_MemLeakChecked (addStatus wall s m t) = t_MemLeakChecked t"
  "t_Result (addStatus wall s m t) = t_Result t"
  "t_Commands (addStatus wall s m t) = t_Commands t"
  "t_ScoringMethod (addStatus wall s m t) = t_ScoringMethod t"
  "t_SimTime (addStatus wall s m t) = t_SimTime t"
  "r_env (addStatus wall s m t) = r_env t"
  "r_allCorrect (addStatus wall s m t) = r_allCorrect t"
  "r_commandCounter (addStatus wall s m t) = r_commandCounter t"
  by (simp_all add: addStatus_def notify_def)

lemma addStatus_Status [simp]: "length (t_Status (addStatus wall s m t)) = Suc (length (t_Status t))"
  by (simp add: addStatus_def notify_def)

lemma addMemLeakStatus_eq: "\<exists>m. addMemLeakStatus wall bad t = addStatus wall ''memory leak'' m t"
  by (auto simp: addMemLeakStatus_def)

text \<open>
  A deduction moves points, it never creates or loses any: what is left and what was deducted add
  up to what was earned, without wrap-around, and at most the configured penalty is taken.
\<close>

theorem deductMemLeakPoints_conserves:
  assumes "0 < t_PointsAvailable t" and "0 < t_MemLeakPoints t"
  shows "unat (t_PointsEarned (deductMemLeakPoints t)) + unat (t_MemLeakDeducted (deductMemLeakPoints t)) =
      unat (t_PointsEarned t) \<and>
    t_MemLeakDeducted (deductMemLeakPoints t) = min (t_PointsEarned t) (t_MemLeakPoints t)"
proof (cases "t_PointsEarned t < t_MemLeakPoints t")
  case True
  with assms show ?thesis by (simp add: deductMemLeakPoints_def)
next
  case False
  then have le: "t_MemLeakPoints t \<le> t_PointsEarned t" by simp
  then have "unat (t_PointsEarned t - t_MemLeakPoints t) = unat (t_PointsEarned t) - unat (t_MemLeakPoints t)"
    by (simp add: unat_sub)
  moreover have "unat (t_MemLeakPoints t) \<le> unat (t_PointsEarned t)" using le by (simp add: word_le_nat_alt)
  ultimately show ?thesis using assms False le by (simp add: deductMemLeakPoints_def min_absorb2)
qed

lemma deductMemLeakPoints_conserves_witness:
  "unat (t_MemLeakDeducted (deductMemLeakPoints
     ((blank_test ''boot.t'')\<lparr>t_PointsAvailable := 10, t_PointsEarned := 3, t_MemLeakPoints := 5\<rparr>))) = 3"
  using deductMemLeakPoints_conserves
    [of "(blank_test ''boot.t'')\<lparr>t_PointsAvailable := 10, t_PointsEarned := 3, t_MemLeakPoints := 5\<rparr>"]
  by (simp add: min_def)

text \<open>
  The specification of the check. The baseline is the first reading that is not zero; the memory
  is clean when every \<open>khu\<close> command has a reading and all readings from the baseline on agree.
\<close>

definition khu_readings :: "(string, string) gomap \<Rightarrow> Command list \<Rightarrow> int option list" where
  "khu_readings keyMap cs =
     map (khu_reading keyMap \<circ> c_Output) (filter (\<lambda>c. Command_Id c = Some ''khu'') cs)"

definition mem_clean :: "int \<Rightarrow> int option list \<Rightarrow> bool" where
  "mem_clean baseline rs \<longleftrightarrow> None \<notin> set rs \<and>
     (let vs = dropWhile (\<lambda>v. v = 0) (baseline # map the rs) in \<forall>v\<in>set vs. v = hd vs)"

lemma mem_clean_Nil [simp]: "mem_clean b []"
  by (simp add: mem_clean_def)

lemma mem_clean_Cons:
  "mem_clean b (r # rs) \<longleftrightarrow>
   (case r of None \<Rightarrow> False | Some v \<Rightarrow> if b = 0 then mem_clean v rs else v = b \<and> mem_clean b rs)"
  by (auto simp: mem_clean_def Let_def split: option.split)

text \<open>
  The memory leak check deducts points exactly when the readings are not clean (a reading is
  missing, corrupted or untrusted, or differs from the baseline), it then leaves one status
  message, and a clean test keeps its points.
\<close>

theorem evaluateMemLeaks_spec:
  assumes "evaluateMemLeaks wall t = Some t'"
  shows "let clean = mem_clean 0 (khu_readings (env_keyMap (r_env t)) (t_Commands t)) in
    t_PointsEarned t' = t_PointsEarned (if clean then t else deductMemLeakPoints t) \<and>
    t_MemLeakDeducted t' = t_MemLeakDeducted (if clean then t else deductMemLeakPoints t) \<and>
    length (t_Status t') = length (t_Status t) + (if clean then 0 else 1) \<and>
    t_Result t' = t_Result t"
proof -
  have loop: "let clean = mem_clean b (khu_readings (env_keyMap (r_env t)) cs) in
      t_PointsEarned t' = t_PointsEarned (if clean then t else deductMemLeakPoints t) \<and>
      t_MemLeakDeducted t' = t_MemLeakDeducted (if clean then t else deductMemLeakPoints t) \<and>
      length (t_Status t') = length (t_Status t) + (if clean then 0 else 1) \<and>
      t_Result t' = t_Result t"
    if "mem_leak_loop wall b cs t = Some t'" for b cs t
    using that
  proof (induction cs arbitrary: b t)
    case Nil
    then show ?case by (simp add: khu_readings_def)
  next
    case (Cons c cs)
    then obtain ident where ident: "Command_Id c = Some ident" by (cases "Command_Id c") auto
    have deduct: "t_PointsEarned (deductMemLeakPoints (t\<lparr>t_MemLeakChecked := True\<rparr>)) = t_PointsEarned (deductMemLeakPoints t)"
      "t_MemLeakDeducted (deductMemLeakPoints (t\<lparr>t_MemLeakChecked := True\<rparr>)) = t_MemLeakDeducted (deductMemLeakPoints t)"
      "t_Status (deductMemLeakPoints t) = t_Status t" "t_Result (deductMemLeakPoints t) = t_Result t" for t :: "'a RunTest_scheme"
      by (simp_all add: deductMemLeakPoints_def)
    show ?case
    proof (cases "ident = ''khu''")
      case False
      with Cons ident show ?thesis by (simp add: khu_readings_def)
    next
      case True
      let ?t = "t\<lparr>t_MemLeakChecked := True\<rparr>"
      have rs: "khu_readings (env_keyMap (r_env t)) (c # cs) =
          khu_reading (env_keyMap (r_env t)) (c_Output c) # khu_readings (env_keyMap (r_env t)) cs"
        using True ident by (simp add: khu_readings_def)
      show ?thesis
      proof (cases "khu_reading (env_keyMap (r_env t)) (c_Output c)")
        case None
        then have t': "t' = addMemLeakStatus wall True (deductMemLeakPoints ?t)"
          using Cons.prems True ident by (simp add: Let_def)
        show ?thesis
          using addMemLeakStatus_eq [of wall True "deductMemLeakPoints ?t"] None
          by (auto simp: t' rs mem_clean_Cons Let_def deduct)
      next
        case (Some v)
        consider "b = 0" | "b \<noteq> 0" "b = v" | "b \<noteq> 0" "b \<noteq> v" by blast
        then show ?thesis
        proof cases
          case 3
          then have t': "t' = addMemLeakStatus wall False ((deductMemLeakPoints ?t)\<lparr>t_MemLeakBytes := v - b\<rparr>)"
            using Cons.prems True ident Some by (simp add: Let_def)
          show ?thesis
            using addMemLeakStatus_eq [of wall False "(deductMemLeakPoints ?t)\<lparr>t_MemLeakBytes := v - b\<rparr>"] Some 3
            by (auto simp: t' rs mem_clean_Cons Let_def deduct)
        qed (use Cons.prems True ident Some Cons.IH [of v ?t] Cons.IH [of b ?t] in
            \<open>auto simp: rs mem_clean_Cons Let_def deduct\<close>)
      qed
    qed
  qed
  show ?thesis using loop [OF assms [unfolded evaluateMemLeaks_def]] .
qed

lemma deductMemLeakPoints_le: "t_PointsEarned (deductMemLeakPoints t) \<le> t_PointsEarned t"
  by (auto simp: deductMemLeakPoints_def not_less word_sub_le)

text \<open>The check does not panic as long as every command line has a word.\<close>

lemma mem_leak_loop_total: "\<forall>c\<in>set cs. Command_Id c \<noteq> None \<Longrightarrow> \<exists>t'. mem_leak_loop wall b cs t = Some t'"
  by (induction cs arbitrary: b t) (auto simp: Let_def split: option.splits)

lemma finishAndEvaluate_total:
  "\<forall>c\<in>set (t_Commands t). Command_Id c \<noteq> None \<Longrightarrow> \<exists>t'. finishAndEvaluate wall t = Some t'"
  unfolding finishAndEvaluate_def evaluateMemLeaks_def by (rule mem_leak_loop_total) simp

text \<open>A boot with two \<open>khu\<close> commands that report different amounts of memory.\<close>

definition khu_command :: "string \<Rightarrow> Command" where
  "khu_command out = (blank_command ''khu'')\<lparr>c_Output := [blank_line\<lparr>ol_Line := out\<rparr>]\<rparr>"

definition leaky_run :: RunTest where
  "leaky_run = blank_run\<lparr>t_Commands := [khu_command ''khu: 4096'', blank_command ''sy1'', khu_command ''khu: 8192''],
     t_PointsAvailable := 10, t_PointsEarned := 10, t_MemLeakPoints := 4, t_ScoringMethod := ''entire''\<rparr>"

lemma leaky_run_ids: "\<forall>c\<in>set (t_Commands leaky_run). Command_Id c \<noteq> None"
  by code_simp

lemma leaky_run_unclean: "\<not> mem_clean 0 (khu_readings (env_keyMap (r_env leaky_run)) (t_Commands leaky_run))"
  by code_simp

lemma evaluateMemLeaks_spec_witness:
  "\<exists>t'. evaluateMemLeaks 1 leaky_run = Some t' \<and> t_PointsEarned t' = 6"
proof -
  obtain t' where ev: "evaluateMemLeaks 1 leaky_run = Some t'"
    using mem_leak_loop_total [OF leaky_run_ids] unfolding evaluateMemLeaks_def by blast
  have "t_PointsEarned (deductMemLeakPoints leaky_run) = 6" by code_simp
  with evaluateMemLeaks_spec [OF ev] leaky_run_unclean ev show ?thesis by (simp add: Let_def)
qed

text \<open>The check changes no field that it reads.\<close>

lemma addMemLeakStatus_fields [simp]:
  "t_PointsAvailable (addMemLeakStatus wall bad t) = t_PointsAvailable t"
  "t_MemLeakPoints (addMemLeakStatus wall bad t) = t_MemLeakPoints t"
  "t_Commands (addMemLeakStatus wall bad t) = t_Commands t"
  "t_ScoringMethod (addMemLeakStatus wall bad t) = t_ScoringMethod t"
  "r_env (addMemLeakStatus wall bad t) = r_env t"
  by (simp_all add: addMemLeakStatus_def addStatus_def notify_def)

lemma deductMemLeakPoints_fields [simp]:
  "t_PointsAvailable (deductMemLeakPoints t) = t_PointsAvailable t"
  "t_MemLeakPoints (deductMemLeakPoints t) = t_MemLeakPoints t"
  "t_Commands (deductMemLeakPoints t) = t_Commands t"
  "t_ScoringMethod (deductMemLeakPoints t) = t_ScoringMethod t"
  "r_env (deductMemLeakPoints (u :: 'a RunTest_scheme)) = r_env u"
  by (simp_all add: deductMemLeakPoints_def)

lemma mem_leak_loop_frame:
  "mem_leak_loop wall b cs t = Some t' \<Longrightarrow> t_PointsAvailable t' = t_PointsAvailable t \<and> t_MemLeakPoints t' = t_MemLeakPoints t \<and>
     t_Commands t' = t_Commands t \<and> t_ScoringMethod t' = t_ScoringMethod t \<and> r_env t' = r_env t"
proof (induction cs arbitrary: b t)
  case (Cons c cs)
  show ?case
  proof (cases "Command_Id c = Some ''khu''")
    case False
    then show ?thesis using Cons.prems Cons.IH [of b t] by (auto split: option.splits)
  next
    case True
    let ?t = "t\<lparr>t_MemLeakChecked := True\<rparr>"
    consider (none) "khu_reading (env_keyMap (r_env t)) (c_Output c) = None"
      | (first) v where "khu_reading (env_keyMap (r_env t)) (c_Output c) = Some v" "b = 0"
      | (same) "khu_reading (env_keyMap (r_env t)) (c_Output c) = Some b" "b \<noteq> 0"
      | (other) v where "khu_reading (env_keyMap (r_env t)) (c_Output c) = Some v" "b \<noteq> 0" "b \<noteq> v" by (cases "b = 0") blast+
    then show ?thesis
    proof cases
      case none
      with Cons.prems True have "t' = addMemLeakStatus wall True (deductMemLeakPoints ?t)" by (simp add: Let_def)
      then show ?thesis by simp
    next
      case first
      with Cons.prems True Cons.IH [of _ ?t] show ?thesis by (simp add: Let_def)
    next
      case same
      with Cons.prems True Cons.IH [of b ?t] show ?thesis by (simp add: Let_def)
    next
      case other
      with Cons.prems True have "t' = addMemLeakStatus wall False ((deductMemLeakPoints ?t)\<lparr>t_MemLeakBytes := v - b\<rparr>)"
        by (simp add: Let_def)
      then show ?thesis by simp
    qed
  qed
qed simp

text \<open>
  What is left of some points after the check: all of them if the readings are clean or there is no
  penalty, otherwise the penalty is taken as far as the points reach.
\<close>

definition leak_free :: "'a RunTest_scheme \<Rightarrow> bool" where
  "leak_free t \<longleftrightarrow> mem_clean 0 (khu_readings (env_keyMap (r_env t)) (t_Commands t))"

definition less_penalty :: "'a RunTest_scheme \<Rightarrow> uint \<Rightarrow> uint" where
  "less_penalty t points =
     (if leak_free t \<or> t_PointsAvailable t = 0 \<or> t_MemLeakPoints t = 0 then points
      else points - min points (t_MemLeakPoints t))"

lemma deduct_earned: "t_PointsEarned (deductMemLeakPoints t) =
    (if t_PointsAvailable t = 0 \<or> t_MemLeakPoints t = 0 then t_PointsEarned t
     else t_PointsEarned t - min (t_PointsEarned t) (t_MemLeakPoints t))"
  by (auto simp: deductMemLeakPoints_def word_gt_0 min_def)

lemma finishAndEvaluate_result:
  assumes "finishAndEvaluate wall t = Some t'"
  shows "t_Commands t' = t_Commands t \<and> t_PointsAvailable t' = t_PointsAvailable t \<and> t_ScoringMethod t' = t_ScoringMethod t \<and>
    t_Result t' = (if r_allCorrect t then TEST_RESULT_CORRECT else TEST_RESULT_INCORRECT) \<and>
    t_PointsEarned t' =
      less_penalty t' (if r_allCorrect t \<and> t_ScoringMethod t = TEST_SCORING_ENTIRE then t_PointsAvailable t else t_PointsEarned t)"
proof -
  let ?t = "if r_allCorrect t then
      t\<lparr>t_Result := TEST_RESULT_CORRECT,
        t_PointsEarned := (if t_ScoringMethod t = TEST_SCORING_ENTIRE then t_PointsAvailable t else t_PointsEarned t)\<rparr>
    else t\<lparr>t_Result := TEST_RESULT_INCORRECT\<rparr>"
  from assms have ev: "evaluateMemLeaks wall ?t = Some t'" by (simp only: finishAndEvaluate_def)
  then have same: "t_PointsAvailable t' = t_PointsAvailable t" "t_MemLeakPoints t' = t_MemLeakPoints t"
    "t_Commands t' = t_Commands t" "t_ScoringMethod t' = t_ScoringMethod t" "r_env t' = r_env t"
    using mem_leak_loop_frame [of wall 0 "t_Commands ?t" ?t t'] by (auto simp: evaluateMemLeaks_def split: if_splits)
  from evaluateMemLeaks_spec [OF ev] same show ?thesis
    by (auto simp: Let_def less_penalty_def leak_free_def deduct_earned)
qed

end
