(* ===== verification/Stats.thy ===== *)
theory Stats
  imports MemLeaks
begin

text \<open>
  Statistics and the monitor (\<open>stats.go\<close>): arithmetic on \<open>Stat\<close> (machine words, so it wraps),
  the goroutine \<open>getStats\<close> that reads the simulator's counters, and the flags it shares with the
  runner. \<open>getStats\<close> is a function of one line: its locals are the record \<open>StatsLocal\<close>, and
  the part of its body up to the monitor's verdict is kept apart from the final check of the shared
  state (\<open>stat_blowup\<close>), between which the runner may move on. How Go prints a floating point
  number is the parameter \<open>show_float\<close>, the clock's reading the argument \<open>wall\<close>. A panic is \<open>None\<close>.
\<close>

section \<open>Arithmetic\<close>

definition Stat_Add :: "Stat \<Rightarrow> Stat \<Rightarrow> Stat" where
  "Stat_Add i j = i\<lparr>st_Nsec := st_Nsec i + st_Nsec j, st_Kinsns := st_Kinsns i + st_Kinsns j,
     st_Uinsns := st_Uinsns i + st_Uinsns j, st_Udud := st_Udud i + st_Udud j,
     st_Idle := st_Idle i + st_Idle j, st_IRQs := st_IRQs i + st_IRQs j,
     st_Exns := st_Exns i + st_Exns j, st_Disk := st_Disk i + st_Disk j, st_Con := st_Con i + st_Con j,
     st_Emu := st_Emu i + st_Emu j, st_Net := st_Net i + st_Net j, st_Insns := st_Insns i + st_Insns j\<rparr>"

definition Stat_Sub :: "Stat \<Rightarrow> Stat \<Rightarrow> Stat" where
  "Stat_Sub i j = i\<lparr>st_Nsec := st_Nsec i - st_Nsec j, st_Kinsns := st_Kinsns i - st_Kinsns j,
     st_Uinsns := st_Uinsns i - st_Uinsns j, st_Udud := st_Udud i - st_Udud j,
     st_Idle := st_Idle i - st_Idle j, st_IRQs := st_IRQs i - st_IRQs j,
     st_Exns := st_Exns i - st_Exns j, st_Disk := st_Disk i - st_Disk j, st_Con := st_Con i - st_Con j,
     st_Emu := st_Emu i - st_Emu j, st_Net := st_Net i - st_Net j, st_Insns := st_Insns i - st_Insns j\<rparr>"

definition time_diff :: "TimeFixedPoint \<Rightarrow> TimeFixedPoint \<Rightarrow> TimeFixedPoint" where
  "time_diff x y = f64 (x - y)"

definition Stat_Append :: "Stat \<Rightarrow> Stat \<Rightarrow> Stat option" where
  "Stat_Append i j =
     (if st_initialized i \<and> 1 / 100000 < time_diff (st_End i) (st_Start j) then None
      else
        (let i = (if st_initialized i then i
                  else i\<lparr>st_initialized := True, st_Count := 0, st_Start := st_Start j, st_WallStart := st_WallStart j\<rparr>);
             i = i\<lparr>st_Count := st_Count i + 1, st_End := st_End j,
                   st_Length := time_diff (st_End j) (st_Start i), st_WallEnd := st_WallEnd j,
                   st_WallLength := time_diff (st_WallEnd j) (st_WallStart i)\<rparr>
         in Some (Stat_Add i j)))"

definition Stat_Shift :: "Stat \<Rightarrow> Stat \<Rightarrow> Stat option" where
  "Stat_Shift i j =
     (if \<not> st_initialized i then None
      else if 1 / 100000 < time_diff (st_Start i) (st_Start j) then None
      else
        (let i = i\<lparr>st_Count := st_Count i - 1, st_Start := st_End j,
                   st_Length := time_diff (st_End i) (st_End j), st_WallStart := st_WallEnd j,
                   st_WallLength := time_diff (st_WallEnd i) (st_WallEnd j)\<rparr>
         in Some (Stat_Sub i j)))"

section \<open>Reading a line of counters\<close>

text \<open>The class \<open>\s\<close> of the matcher.\<close>

definition re_space :: "char \<Rightarrow> bool" where
  "re_space c \<longleftrightarrow> c \<in> {CHR '' '', CHR 0x09, CHR 0x0A, CHR 0x0C, CHR 0x0D}"

definition skip_spaces :: "string \<Rightarrow> string option" where
  "skip_spaces s = (case s of c # _ \<Rightarrow> if re_space c then Some (dropWhile re_space s) else None | [] \<Rightarrow> None)"

fun match_words :: "string list \<Rightarrow> string \<Rightarrow> bool" where
  "match_words [] s = True"
| "match_words (w # ws) s =
     (case skip_spaces s of None \<Rightarrow> False
      | Some r \<Rightarrow> HasPrefix r w \<and> match_words ws (drop (length w) r))"

definition validHead :: "string \<Rightarrow> bool" where
  "validHead s \<longleftrightarrow> HasPrefix s ''HEAD'' \<and>
     match_words [''nsec'', ''kinsns'', ''uinsns'', ''udud'', ''idle'', ''irqs'', ''exns'', ''disk'', ''con'', ''emu'', ''net''] (drop 4 s)"

fun match_numbers :: "nat \<Rightarrow> string \<Rightarrow> string list option" where
  "match_numbers 0 s = Some []"
| "match_numbers (Suc n) s =
     (case skip_spaces s of None \<Rightarrow> None
      | Some r \<Rightarrow>
          (let d = takeWhile is_digit r
           in if d = [] then None else map_option (Cons d) (match_numbers n (drop (length d) r))))"

definition validStat :: "string \<Rightarrow> string list option" where
  "validStat s = (if HasPrefix s ''DATA'' then match_numbers 11 (drop 4 s) else None)"

text \<open>\<open>strconv.ParseUint(x, 10, 32)\<close>; a field out of range keeps its zero.\<close>

definition field32 :: "string \<Rightarrow> uint32" where
  "field32 d = (let v = dec_val 0 d in if v < 2 ^ 32 then of_nat v else 0)"

text \<open>\<open>x, _ = strconv.ParseUint(x, 10, 64)\<close>: the largest value when out of range.\<close>

definition field64 :: "string \<Rightarrow> uint64" where
  "field64 d = (let v = dec_val 0 d in if v < 2 ^ 64 then of_nat v else - 1)"

definition zeroStat :: Stat where
  "zeroStat = \<lparr>st_initialized = False, st_Start = 0, st_End = 0, st_Length = 0, st_Count = 0,
     st_WallStart = 0, st_WallEnd = 0, st_WallLength = 0, st_Nsec = 0, st_Kinsns = 0, st_Uinsns = 0,
     st_Udud = 0, st_Idle = 0, st_IRQs = 0, st_Exns = 0, st_Disk = 0, st_Con = 0, st_Emu = 0,
     st_Net = 0, st_Insns = 0\<rparr>"

text \<open>The cumulative counters of a line, between the given time stamps.\<close>

definition stat_of_fields :: "TimeFixedPoint \<Rightarrow> TimeFixedPoint \<Rightarrow> TimeFixedPoint \<Rightarrow> string list \<Rightarrow> Stat" where
  "stat_of_fields simStart wallStart wallEnd f =
     (let nsec = field64 (f ! 0); kinsns = field32 (f ! 1); uinsns = field32 (f ! 2); idle = field32 (f ! 4);
          end_time = f64 (f64 (of_nat (unat nsec)) / 1000000000)
      in zeroStat\<lparr>st_WallStart := wallStart, st_WallEnd := wallEnd, st_WallLength := time_diff wallEnd wallStart,
           st_Nsec := nsec, st_Kinsns := kinsns, st_Uinsns := uinsns, st_Udud := field32 (f ! 3), st_Idle := idle,
           st_IRQs := field32 (f ! 5), st_Exns := field32 (f ! 6), st_Disk := field32 (f ! 7),
           st_Con := field32 (f ! 8), st_Emu := field32 (f ! 9), st_Net := field32 (f ! 10),
           st_Insns := kinsns + uinsns + idle,
           st_Start := simStart, st_End := end_time, st_Length := time_diff end_time simStart\<rparr>)"

section \<open>Shared flags\<close>

definition stop161 :: "TimeFixedPoint \<Rightarrow> 'a RunTest_scheme \<Rightarrow> 'a RunTest_scheme" where
  "stop161 wall t = (if r_running t then t\<lparr>r_running := False, t_WallTime := wall\<rparr> else t)"

definition stopStats :: "TimeFixedPoint \<Rightarrow> string \<Rightarrow> string \<Rightarrow> stat_error option \<Rightarrow> 'a RunTest_scheme \<Rightarrow> 'a RunTest_scheme" where
  "stopStats wall status message statErr t =
     (let t = (if status \<noteq> [] then addStatus wall status message t else t);
          t = t\<lparr>r_statErr := statErr, r_statActive := False\<rparr>
      in if statErr \<noteq> None \<or> message \<noteq> [] then stop161 wall t else t)"

text \<open>Both return \<open>(false, statErr)\<close> when the statistics have stopped.\<close>

definition enableStats :: "'a RunTest_scheme \<Rightarrow> 'a RunTest_scheme \<times> bool \<times> stat_error option" where
  "enableStats t =
     (if \<not> r_statActive t then (t, False, r_statErr t) else (t\<lparr>r_statRecord := True\<rparr>, True, None))"

definition disableStats :: "'a RunTest_scheme \<Rightarrow> 'a RunTest_scheme \<times> bool \<times> stat_error option" where
  "disableStats t =
     (if \<not> r_statActive t then (t, False, r_statErr t) else (t\<lparr>r_statRecord := False\<rparr>, True, None))"

end
