(* ===== verification/Monitor.thy ===== *)
theory Monitor
  imports Stats
begin

text \<open>
  The statistics goroutine (\<open>stats.go\<close>: \<open>getStats\<close>) as a function of one line, and its
  invariants: the monitor's window is the sum of the cached statistics, holds at most
  \<open>Monitor.Window\<close> of them, and never panics.
\<close>

section \<open>One line\<close>

record StatsLocal =
  gs_wallStart :: TimeFixedPoint
  gs_simStart :: TimeFixedPoint
  gs_lastStat :: Stat
  gs_monitorWindow :: Stat
  gs_monitorCache :: "Stat list"
  gs_lastCounter :: int

definition StatsLocal_init :: "TimeFixedPoint \<Rightarrow> StatsLocal" where
  "StatsLocal_init wall = \<lparr>gs_wallStart = wall, gs_simStart = 0, gs_lastStat = zeroStat,
     gs_monitorWindow = zeroStat, gs_monitorCache = [], gs_lastCounter = -1\<rparr>"

text \<open>The statistics recorded with the current command, in windows of \<open>Stat.Window\<close>.\<close>

definition record_stats :: "Stat \<Rightarrow> 'a RunTest_scheme \<Rightarrow> 'a RunTest_scheme option" where
  "record_stats stats t =
     (let c = curCommand t;
          all = (if c_AllStats c = [] \<or> st_Count (last (c_AllStats c)) = sc_Window (t_Stat t)
                 then c_AllStats c @ [zeroStat] else c_AllStats c)
      in case (Stat_Append (last all) stats, Stat_Append (c_SummaryStats c) stats) of
           (Some l, Some s) \<Rightarrow> Some (upd_cur (\<lambda>c. c\<lparr>c_AllStats := butlast all @ [l], c_SummaryStats := s\<rparr>) t)
         | _ \<Rightarrow> None)"

text \<open>The oldest entry leaves a full cache, then the new one enters.\<close>

definition slide_window :: "uint \<Rightarrow> Stat \<Rightarrow> Stat list \<Rightarrow> Stat \<Rightarrow> (Stat list \<times> Stat) option" where
  "slide_window w stats cache window =
     (case (if of_nat (length cache) = w then
              (case cache of [] \<Rightarrow> None | head # rest \<Rightarrow> map_option (Pair rest) (Stat_Shift window head))
            else Some (cache, window)) of
        None \<Rightarrow> None
      | Some (cache, window) \<Rightarrow> map_option (Pair (cache @ [stats])) (Stat_Append window stats))"

definition ratio :: "uint32 \<Rightarrow> uint32 \<Rightarrow> gofloat" where
  "ratio a b = fdiv64 (of_nat (unat a)) (of_nat (unat b))"

text \<open>The monitor's verdict on a full window.\<close>

definition window_error :: "MonitorConf \<Rightarrow> string \<Rightarrow> Stat \<Rightarrow> string" where
  "window_error mon currentType w =
     (if currentType = ''kernel'' \<and> 0 < st_Uinsns w then ''non-zero user instructions during kernel operation''
      else if lim_EnableMin (mon_Kernel mon) = ''true'' \<and>
        flt (ratio (st_Kinsns w) (st_Insns w)) (Fin (lim_Min (mon_Kernel mon)))
      then ''insufficient kernel instructions (potential deadlock)''
      else if flt (Fin (lim_Max (mon_Kernel mon))) (ratio (st_Kinsns w) (st_Insns w))
      then ''too many kernel instructions (potential livelock)''
      else if currentType = ''user'' \<and> lim_EnableMin (mon_User mon) = ''true'' \<and>
        flt (ratio (st_Uinsns w) (st_Insns w)) (Fin (lim_Min (mon_User mon)))
      then ''insufficient user instructions''
      else if currentType = ''user'' \<and> flt (Fin (lim_Max (mon_User mon))) (ratio (st_Uinsns w) (st_Insns w))
      then ''too many user instructions''
      else '''')"

text \<open>
  What a line leads to: the loop goes on, or goes on with a monitor error to be confirmed against the
  command counter it was found for, or the goroutine has returned.
\<close>

datatype verdict = Continue | Suspect string nat | Stopped

definition monitor_verdict :: "(rat \<Rightarrow> string) \<Rightarrow> float64 \<Rightarrow> float64 \<Rightarrow> StatsLocal \<Rightarrow> 'a RunTest_scheme \<Rightarrow> 'a RunTest_scheme \<times> verdict" where
  "monitor_verdict show_float progressTime commandTime l t =
     (let c = curCommand t; mon = t_Monitor t
      in if mon_ProgressTimeout mon < progressTime then
           (t, Suspect (''no progress for '' @ show_float (mon_ProgressTimeout mon) @ '' s in '' @ c_Type c @ '' mode'') (r_commandCounter t))
         else if 0 < c_Timeout c \<and> c_Timeout c < commandTime then
           (upd_cur (\<lambda>c. c\<lparr>c_TimedOut := True\<rparr>) t,
            Suspect (''command timed out after '' @ show_float commandTime @ '' seconds'') (r_commandCounter t))
         else
           (let msg = (if mon_Window mon \<le> of_nat (length (gs_monitorCache l))
                       then window_error mon (c_Type c) (gs_monitorWindow l) else '''')
            in (t, if msg = '''' then Continue else Suspect msg (r_commandCounter t))))"

definition stat_data :: "(rat \<Rightarrow> string) \<Rightarrow> TimeFixedPoint \<Rightarrow> string list \<Rightarrow> StatsLocal \<Rightarrow> 'a RunTest_scheme \<Rightarrow>
    (StatsLocal \<times> 'a RunTest_scheme \<times> verdict) option" where
  "stat_data show_float wallEnd nums l t =
     (let statRecord = r_statRecord t;
          cum = stat_of_fields (gs_simStart l) (gs_wallStart l) wallEnd nums;
          stats = Stat_Sub cum (gs_lastStat l);
          l = l\<lparr>gs_wallStart := wallEnd, gs_simStart := st_End cum, gs_lastStat := cum\<rparr>;
          t = t\<lparr>t_SimTime := st_End stats\<rparr>
      in case (if statRecord then record_stats stats t else Some t) of
           None \<Rightarrow> None
         | Some t \<Rightarrow>
             (let progressTime = f64 (t_SimTime t - r_progressTime t);
                  commandTime = f64 (t_SimTime t - c_StartTime (curCommand t));
                  l = (if statRecord \<and> int (r_commandCounter t) \<noteq> gs_lastCounter l
                       then l\<lparr>gs_monitorCache := [], gs_monitorWindow := zeroStat, gs_lastCounter := int (r_commandCounter t)\<rparr>
                       else l)
              in if mon_Enabled (t_Monitor t) \<noteq> ''true'' \<or> \<not> statRecord then Some (l, t, Continue)
                 else (case slide_window (mon_Window (t_Monitor t)) stats (gs_monitorCache l) (gs_monitorWindow l) of
                         None \<Rightarrow> None
                       | Some (cache, window) \<Rightarrow>
                           (let l = l\<lparr>gs_monitorCache := cache, gs_monitorWindow := window\<rparr>
                            in Some (l, monitor_verdict show_float progressTime commandTime l t)))))"

definition stat_line :: "(rat \<Rightarrow> string) \<Rightarrow> TimeFixedPoint \<Rightarrow> string \<Rightarrow> StatsLocal \<Rightarrow> 'a RunTest_scheme \<Rightarrow>
    (StatsLocal \<times> 'a RunTest_scheme \<times> verdict) option" where
  "stat_line show_float wallEnd line l t =
     (if HasPrefix line ''HEAD '' \<and> \<not> validHead line then
        Some (l, stopStats wallEnd ''stats'' (''incorrect stat format: '' @ line) (Some (otherError ''incorrect stat format'')) t, Stopped)
      else if \<not> HasPrefix line ''DATA '' then Some (l, t, Continue)
      else (case validStat line of
              None \<Rightarrow> Some (l, stopStats wallEnd ''stats'' ''couldn't parse stat message''
                        (Some (otherError ''couldn't parse stat message'')) t, Stopped)
            | Some nums \<Rightarrow> stat_data show_float wallEnd nums l t))"

text \<open>The final check before the monitor shuts the test down.\<close>

definition stat_blowup :: "TimeFixedPoint \<Rightarrow> string \<Rightarrow> nat \<Rightarrow> 'a RunTest_scheme \<Rightarrow> 'a RunTest_scheme \<times> bool" where
  "stat_blowup wall msg currentCounter t =
     (if r_statRecord t \<and> currentCounter = r_commandCounter t
      then (stopStats wall ''monitor'' msg (Some (monitorError msg)) t, True) else (t, False))"

text \<open>The end of the stream, and an error of the socket or of its set-up.\<close>

definition stat_eof :: "TimeFixedPoint \<Rightarrow> 'a RunTest_scheme \<Rightarrow> 'a RunTest_scheme" where
  "stat_eof wall t = stopStats wall '''' '''' None t"

definition stat_failure :: "TimeFixedPoint \<Rightarrow> string \<Rightarrow> stat_error \<Rightarrow> 'a RunTest_scheme \<Rightarrow> 'a RunTest_scheme" where
  "stat_failure wall message err t = stopStats wall ''stats'' message (Some err) t"

section \<open>The window is the sum of the cache\<close>

text \<open>The counters of a statistic as one value, for sums.\<close>

definition counters :: "Stat \<Rightarrow> uint64 \<times> uint32 \<times> uint32 \<times> uint32 \<times> uint32 \<times> uint32 \<times> uint32 \<times> uint32 \<times> uint32 \<times> uint32 \<times> uint32 \<times> uint32" where
  "counters s = (st_Nsec s, st_Kinsns s, st_Uinsns s, st_Udud s, st_Idle s, st_IRQs s, st_Exns s, st_Disk s,
     st_Con s, st_Emu s, st_Net s, st_Insns s)"

definition sum_stats :: "Stat list \<Rightarrow> Stat" where
  "sum_stats ss = foldl Stat_Add zeroStat ss"

lemma counters_Add: "counters a = counters a' \<Longrightarrow> counters (Stat_Add a j) = counters (Stat_Add a' j)"
  by (simp add: counters_def Stat_Add_def)

lemma counters_Sub: "counters a = counters a' \<Longrightarrow> counters (Stat_Sub a j) = counters (Stat_Sub a' j)"
  by (simp add: counters_def Stat_Sub_def)

lemma counters_Sub_Add: "counters (Stat_Sub (Stat_Add i j) j) = counters i"
  by (simp add: counters_def Stat_Add_def Stat_Sub_def)

lemma counters_Add_swap: "counters (Stat_Add (Stat_Add a i) j) = counters (Stat_Add (Stat_Add a j) i)"
  by (simp add: counters_def Stat_Add_def)

lemma counters_foldl: "counters a = counters b \<Longrightarrow> counters (foldl Stat_Add a ss) = counters (foldl Stat_Add b ss)"
proof (induction ss arbitrary: a b)
  case Nil
  then show ?case by simp
next
  case (Cons s ss)
  show ?case using Cons.IH [OF counters_Add [OF Cons.prems]] by simp
qed

lemma counters_foldl_out: "counters (foldl Stat_Add (Stat_Add a s) ss) = counters (Stat_Add (foldl Stat_Add a ss) s)"
proof (induction ss arbitrary: a)
  case Nil
  then show ?case by simp
next
  case (Cons r ss)
  have "counters (foldl Stat_Add (Stat_Add (Stat_Add a s) r) ss) = counters (foldl Stat_Add (Stat_Add (Stat_Add a r) s) ss)"
    by (rule counters_foldl [OF counters_Add_swap])
  with Cons show ?case by simp
qed

lemma counters_Append: "Stat_Append i j = Some r \<Longrightarrow> counters r = counters (Stat_Add i j)"
  by (auto simp: Stat_Append_def Let_def counters_def Stat_Add_def split: if_splits)

lemma counters_Shift: "Stat_Shift i j = Some r \<Longrightarrow> counters r = counters (Stat_Sub i j)"
  by (auto simp: Stat_Shift_def Let_def counters_def Stat_Sub_def split: if_splits)

lemma counters_drop_head: "counters (Stat_Sub (sum_stats (s # ss)) s) = counters (sum_stats ss)"
proof -
  have "counters (Stat_Sub (sum_stats (s # ss)) s) = counters (Stat_Sub (Stat_Add (sum_stats ss) s) s)"
    unfolding sum_stats_def by (rule counters_Sub) (simp add: counters_foldl_out)
  then show ?thesis by (simp add: counters_Sub_Add)
qed

definition cache_inv :: "uint \<Rightarrow> Stat list \<Rightarrow> Stat \<Rightarrow> TimeFixedPoint \<Rightarrow> bool" where
  "cache_inv w cache window T \<longleftrightarrow>
     length cache \<le> unat w \<and> counters window = counters (sum_stats cache) \<and>
     (cache = [] \<longrightarrow> window = zeroStat) \<and>
     (cache \<noteq> [] \<longrightarrow> st_initialized window \<and> (\<forall>s\<in>set cache. st_Start window \<le> st_Start s) \<and>
       st_Start window \<le> T \<and> st_End window \<le> T) \<and>
     sorted_wrt (\<lambda>a b. st_End a \<le> st_Start b) cache \<and> (\<forall>s\<in>set cache. st_End s \<le> T)"

lemma cache_inv_Nil [simp]: "cache_inv w [] zeroStat T"
  by (simp add: cache_inv_def sum_stats_def)

lemma cache_inv_mono: "cache_inv w cache window T \<Longrightarrow> T \<le> T' \<Longrightarrow> cache_inv w cache window T'"
  unfolding cache_inv_def by (meson order_trans)

lemma f64_nonpos: "x \<le> 0 \<Longrightarrow> f64 x \<le> 0"
proof -
  assume "x \<le> 0"
  then have "0 \<le> f64 (- x)" by (intro f64_nonneg) simp
  moreover have "f64 (- x) = - f64 x"
    by (cases "x = 0") (auto simp: f64_def fl_round_def)
  ultimately show ?thesis by simp
qed

lemma time_diff_le: "x \<le> y \<Longrightarrow> \<not> 1 / 100000 < time_diff x y"
  using f64_nonpos [of "x - y"] by (simp add: time_diff_def)

lemma Append_ok:
  assumes "st_initialized i \<Longrightarrow> st_End i \<le> st_Start j"
  shows "\<exists>r. Stat_Append i j = Some r \<and> st_initialized r \<and> st_End r = st_End j \<and>
    st_Start r = (if st_initialized i then st_Start i else st_Start j)"
  using assms time_diff_le [of "st_End i" "st_Start j"]
  by (auto simp: Stat_Append_def Let_def Stat_Add_def)

lemma Shift_ok:
  assumes "st_initialized i" and "st_Start i \<le> st_Start j"
  shows "\<exists>r. Stat_Shift i j = Some r \<and> st_initialized r \<and> st_End r = st_End i \<and> st_Start r = st_End j"
  using assms time_diff_le [of "st_Start i" "st_Start j"]
  by (auto simp: Stat_Shift_def Let_def Stat_Sub_def)

lemma sum_stats_snoc: "sum_stats (ss @ [s]) = Stat_Add (sum_stats ss) s"
  by (simp add: sum_stats_def)

lemma slide_window_ok:
  assumes w: "0 < w" and inv: "cache_inv w cache window T"
    and later: "T \<le> st_Start stats" "st_Start stats \<le> st_End stats"
  obtains cache' window' where "slide_window w stats cache window = Some (cache', window')"
    "cache_inv w cache' window' (st_End stats)"
    "cache' = (if length cache = unat w then tl cache else cache) @ [stats]"
proof -
  from inv have len: "length cache \<le> unat w" and cnt: "counters window = counters (sum_stats cache)"
    and nil: "cache = [] \<Longrightarrow> window = zeroStat"
    and cons: "cache \<noteq> [] \<Longrightarrow> st_initialized window \<and> (\<forall>s\<in>set cache. st_Start window \<le> st_Start s) \<and>
       st_Start window \<le> T \<and> st_End window \<le> T"
    and srt: "sorted_wrt (\<lambda>a b. st_End a \<le> st_Start b) cache" and T: "\<forall>s\<in>set cache. st_End s \<le> T"
    unfolding cache_inv_def by auto
  have full: "of_nat (length cache) = w \<longleftrightarrow> length cache = unat w"
    using len le_unat_uoi by fastforce
  have w0: "0 < unat w" using w by (simp add: word_less_nat_alt)
  let ?rest = "if length cache = unat w then tl cache else cache"
  obtain win where win: "(if of_nat (length cache) = w then
        (case cache of [] \<Rightarrow> None | head # rest \<Rightarrow> map_option (Pair rest) (Stat_Shift window head))
      else Some (cache, window)) = Some (?rest, win)"
    and wcnt: "counters win = counters (sum_stats ?rest)"
    and wok: "st_initialized win \<Longrightarrow> st_End win \<le> T \<and> (\<forall>s\<in>set ?rest. st_Start win \<le> st_Start s) \<and> st_Start win \<le> T"
      "?rest \<noteq> [] \<Longrightarrow> st_initialized win"
  proof (cases "length cache = unat w")
    case True
    then obtain h rest where c: "cache = h # rest" using w0 by (cases cache) auto
    obtain r where r: "Stat_Shift window h = Some r" "st_initialized r" "st_End r = st_End window" "st_Start r = st_End h"
      using Shift_ok [of window h] cons c by auto
    have "counters r = counters (sum_stats rest)"
      using counters_Shift [OF r(1)] counters_Sub [OF cnt, of h] counters_drop_head [of h rest] c by simp
    moreover have "1 + of_nat (length rest) = w"
    proof -
      have "of_nat (length cache) = w" using full True by blast
      with c show ?thesis by simp
    qed
    ultimately show ?thesis using that [of r] r c True srt T cons by auto
  next
    case False
    have "\<not> st_initialized zeroStat" by (simp add: zeroStat_def)
    with nil cons have "st_initialized window \<Longrightarrow> st_End window \<le> T \<and> (\<forall>s\<in>set cache. st_Start window \<le> st_Start s) \<and> st_Start window \<le> T"
      by (cases "cache = []") auto
    with False show ?thesis using that [of window] full cnt cons by auto
  qed
  obtain r where r: "Stat_Append win stats = Some r" "st_initialized r" "st_End r = st_End stats"
      "st_Start r = (if st_initialized win then st_Start win else st_Start stats)"
    using Append_ok [of win stats] wok(1) later by (auto intro: order_trans)
  have sw: "slide_window w stats cache window = Some (?rest @ [stats], r)"
    unfolding slide_window_def win by (simp add: r(1))
  have "cache_inv w (?rest @ [stats]) r (st_End stats)"
    unfolding cache_inv_def
  proof (intro conjI)
    show "length (?rest @ [stats]) \<le> unat w" using len w0 by (cases cache) auto
    show "counters r = counters (sum_stats (?rest @ [stats]))"
      using counters_Append [OF r(1)] counters_Add [OF wcnt, of stats] by (simp add: sum_stats_snoc)
    show "sorted_wrt (\<lambda>a b. st_End a \<le> st_Start b) (?rest @ [stats])"
      using srt T later by (cases cache) (auto simp: sorted_wrt_append intro: order_trans)
    show "\<forall>s\<in>set (?rest @ [stats]). st_End s \<le> st_End stats"
      using T later by (cases cache) (auto intro: order_trans)
    show "?rest @ [stats] \<noteq> [] \<longrightarrow> st_initialized r \<and>
        (\<forall>s\<in>set (?rest @ [stats]). st_Start r \<le> st_Start s) \<and> st_Start r \<le> st_End stats \<and> st_End r \<le> st_End stats"
    proof (cases "st_initialized win")
      case True
      then show ?thesis using r wok(1) later by (auto split: if_splits intro: order_trans)
    next
      case False
      with wok(2) have none: "?rest = []" by blast
      show ?thesis unfolding none using r later False by simp
    qed
  qed simp
  with sw show thesis by (rule that) simp
qed

section \<open>The goroutine never panics\<close>

text \<open>What the recorded statistics of a command need: their last end is not in the future.\<close>

definition recorded_ok :: "TimeFixedPoint \<Rightarrow> Command \<Rightarrow> bool" where
  "recorded_ok T c \<longleftrightarrow>
     (st_initialized (c_SummaryStats c) \<longrightarrow> st_End (c_SummaryStats c) \<le> T) \<and>
     (c_AllStats c \<noteq> [] \<and> st_initialized (last (c_AllStats c)) \<longrightarrow> st_End (last (c_AllStats c)) \<le> T)"

definition fresh_command :: "Command \<Rightarrow> bool" where
  "fresh_command c \<longleftrightarrow> c_SummaryStats c = zeroStat \<and> c_AllStats c = []"

definition stats_inv :: "StatsLocal \<times> RunTest \<Rightarrow> bool" where
  "stats_inv = (\<lambda>(l, t).
     0 < mon_Window (t_Monitor t) \<and> r_commandCounter t < length (t_Commands t) \<and>
     cache_inv (mon_Window (t_Monitor t)) (gs_monitorCache l) (gs_monitorWindow l) (gs_simStart l) \<and>
     recorded_ok (gs_simStart l) (curCommand t) \<and>
     (\<forall>j. r_commandCounter t < j \<longrightarrow> j < length (t_Commands t) \<longrightarrow> fresh_command (t_Commands t ! j)))"

lemma zeroStat_init [simp]: "\<not> st_initialized zeroStat"
  by (simp add: zeroStat_def)

lemma fresh_recorded: "fresh_command c \<Longrightarrow> recorded_ok T c"
  by (simp add: fresh_command_def recorded_ok_def)

lemma curCommand_upd_cur:
  "r_commandCounter t < length (t_Commands t) \<Longrightarrow> curCommand (upd_cur f t) = f (curCommand t)"
  by (simp add: curCommand_def upd_cur_def)

lemma upd_cur_fields [simp]:
  "r_commandCounter (upd_cur f t) = r_commandCounter t" "length (t_Commands (upd_cur f t)) = length (t_Commands t)"
  "t_Monitor (upd_cur f t) = t_Monitor t" "t_Stat (upd_cur f t) = t_Stat t" "t_SimTime (upd_cur f t) = t_SimTime t"
  "r_env (upd_cur f t) = r_env t" "r_progressTime (upd_cur f t) = r_progressTime t"
  "j \<noteq> r_commandCounter t \<Longrightarrow> t_Commands (upd_cur f t) ! j = t_Commands t ! j"
  by (simp_all add: upd_cur_def)

lemma record_stats_ok:
  assumes "recorded_ok T (curCommand t)" and "T \<le> st_Start stats" and "r_commandCounter t < length (t_Commands t)"
    and "st_Start stats \<le> st_End stats"
  obtains f where "record_stats stats t = Some (upd_cur f t)" "recorded_ok (st_End stats) (f (curCommand t))"
proof -
  let ?c = "curCommand t"
  let ?all = "if c_AllStats ?c = [] \<or> st_Count (last (c_AllStats ?c)) = sc_Window (t_Stat t)
      then c_AllStats ?c @ [zeroStat] else c_AllStats ?c"
  have "st_initialized (last ?all) \<Longrightarrow> st_End (last ?all) \<le> st_Start stats"
    using assms(1,2) by (auto simp: recorded_ok_def split: if_splits)
  then obtain l where l: "Stat_Append (last ?all) stats = Some l" "st_End l = st_End stats" using Append_ok by blast
  have "st_initialized (c_SummaryStats ?c) \<Longrightarrow> st_End (c_SummaryStats ?c) \<le> st_Start stats"
    using assms(1,2) by (auto simp: recorded_ok_def)
  then obtain s where s: "Stat_Append (c_SummaryStats ?c) stats = Some s" "st_End s = st_End stats" using Append_ok by blast
  have "record_stats stats t = Some (upd_cur (\<lambda>c. c\<lparr>c_AllStats := butlast ?all @ [l], c_SummaryStats := s\<rparr>) t)"
    unfolding record_stats_def Let_def l(1) s(1) by simp
  then show thesis by (rule that) (simp add: recorded_ok_def l s)
qed

lemma stat_of_fields_simps [simp]:
  "st_Start (Stat_Sub (stat_of_fields a b c nums) s) = a"
  "st_End (Stat_Sub (stat_of_fields a b c nums) s) = st_End (stat_of_fields a b c nums)"
  by (simp_all add: stat_of_fields_def Let_def Stat_Sub_def)

lemma stat_of_fields_End:
  "st_End (stat_of_fields a b c nums) = f64 (f64 (of_nat (unat (field64 (nums ! 0)))) / 1000000000)"
  by (simp add: stat_of_fields_def Let_def)

text \<open>The simulator's clock does not run backwards.\<close>

definition clock_ok :: "StatsLocal \<Rightarrow> string \<Rightarrow> bool" where
  "clock_ok l line \<longleftrightarrow> (\<forall>nums. validStat line = Some nums \<longrightarrow>
     gs_simStart l \<le> f64 (f64 (of_nat (unat (field64 (nums ! 0)))) / 1000000000))"

lemma stats_inv_stop: "stats_inv (l, stopStats wall s m e t) \<longleftrightarrow> stats_inv (l, t)"
  by (simp add: stats_inv_def stopStats_def stop161_def addStatus_def notify_def curCommand_def Let_def)

lemma stats_inv_upd:
  assumes "stats_inv (l, t)" and "recorded_ok (gs_simStart l) (f (curCommand t))"
  shows "stats_inv (l, upd_cur f t)"
  using assms by (auto simp: stats_inv_def curCommand_upd_cur)

lemma stats_inv_SimTime: "stats_inv (l, t\<lparr>t_SimTime := x\<rparr>) \<longleftrightarrow> stats_inv (l, t)"
  by (simp add: stats_inv_def curCommand_def)

lemma monitor_verdict_state:
  "fst (monitor_verdict sf p c l t) = t \<or> fst (monitor_verdict sf p c l t) = upd_cur (\<lambda>c. c\<lparr>c_TimedOut := True\<rparr>) t"
  by (simp add: monitor_verdict_def Let_def)

lemma stats_inv_verdict:
  assumes "stats_inv (l, t)"
  shows "stats_inv (l, fst (monitor_verdict sf p c l' t))"
proof -
  have "stats_inv (l, upd_cur (\<lambda>c. c\<lparr>c_TimedOut := True\<rparr>) t)"
    using assms by (intro stats_inv_upd) (auto simp: stats_inv_def recorded_ok_def)
  with assms monitor_verdict_state [of sf p c l' t] show ?thesis by metis
qed

lemma stat_data_ok:
  assumes inv: "stats_inv (l, t)" and clock: "gs_simStart l \<le> f64 (f64 (of_nat (unat (field64 (nums ! 0)))) / 1000000000)"
  shows "\<exists>l' t' v. stat_data sf wall nums l t = Some (l', t', v) \<and> stats_inv (l', t')"
proof -
  define cum where "cum = stat_of_fields (gs_simStart l) (gs_wallStart l) wall nums"
  define stats where "stats = Stat_Sub cum (gs_lastStat l)"
  define E where "E = st_End cum"
  have E: "st_Start stats = gs_simStart l" "st_End stats = E" "gs_simStart l \<le> E"
    using clock by (simp_all only: stats_def cum_def E_def stat_of_fields_simps stat_of_fields_End)
  define l1 where "l1 = l\<lparr>gs_wallStart := wall, gs_simStart := E, gs_lastStat := cum\<rparr>"
  define t1 where "t1 = t\<lparr>t_SimTime := E\<rparr>"
  have inv1: "stats_inv (l, t1)" using inv by (simp add: t1_def stats_inv_SimTime)
  then have cnt: "r_commandCounter t1 < length (t_Commands t1)" and w: "0 < mon_Window (t_Monitor t1)"
    and rec: "recorded_ok (gs_simStart l) (curCommand t1)"
    and ci: "cache_inv (mon_Window (t_Monitor t1)) (gs_monitorCache l) (gs_monitorWindow l) (gs_simStart l)"
    by (auto simp: stats_inv_def)
  have "recorded_ok E (curCommand t1)" using rec E(3) by (auto simp: recorded_ok_def)
  then obtain t2 where t2: "(if r_statRecord t then record_stats stats t1 else Some t1) = Some t2"
    and t2': "t2 = t1 \<or> (\<exists>f. t2 = upd_cur f t1)" "recorded_ok E (curCommand t2)"
    using record_stats_ok [OF rec _ cnt] E curCommand_upd_cur [OF cnt] by (metis order_refl)
  have inv2: "stats_inv (l'', t2)" if "gs_simStart l'' = E"
      "cache_inv (mon_Window (t_Monitor t1)) (gs_monitorCache l'') (gs_monitorWindow l'') E" for l''
    using t2' inv1 that by (auto simp: stats_inv_def)
  define l2 where "l2 = (if r_statRecord t \<and> int (r_commandCounter t2) \<noteq> gs_lastCounter l1
      then l1\<lparr>gs_monitorCache := [], gs_monitorWindow := zeroStat, gs_lastCounter := int (r_commandCounter t2)\<rparr> else l1)"
  have ci2: "cache_inv (mon_Window (t_Monitor t1)) (gs_monitorCache l2) (gs_monitorWindow l2) (gs_simStart l)"
    using ci by (simp add: l2_def l1_def)
  have s2: "gs_simStart l2 = E" by (simp add: l2_def l1_def)
  have mon: "t_Monitor t2 = t_Monitor t1" using t2'(1) by auto
  have data: "stat_data sf wall nums l t =
     (if mon_Enabled (t_Monitor t2) \<noteq> ''true'' \<or> \<not> r_statRecord t then Some (l2, t2, Continue)
      else (case slide_window (mon_Window (t_Monitor t2)) stats (gs_monitorCache l2) (gs_monitorWindow l2) of
              None \<Rightarrow> None
            | Some (cache, window) \<Rightarrow>
                (let l3 = l2\<lparr>gs_monitorCache := cache, gs_monitorWindow := window\<rparr>
                 in Some (l3, monitor_verdict sf (f64 (t_SimTime t2 - r_progressTime t2))
                      (f64 (t_SimTime t2 - c_StartTime (curCommand t2))) l3 t2))))"
    unfolding stat_data_def Let_def cum_def [symmetric] stats_def [symmetric] E_def [symmetric]
      l1_def [symmetric] E(2) t1_def [symmetric] t2 option.case l2_def [symmetric] by (rule refl)
  show ?thesis
  proof (cases "mon_Enabled (t_Monitor t2) \<noteq> ''true'' \<or> \<not> r_statRecord t")
    case True
    then show ?thesis unfolding data using inv2 [OF s2 cache_inv_mono [OF ci2 E(3)]] by simp
  next
    case False
    obtain cache window where sw: "slide_window (mon_Window (t_Monitor t2)) stats (gs_monitorCache l2) (gs_monitorWindow l2) = Some (cache, window)"
      "cache_inv (mon_Window (t_Monitor t1)) cache window E"
      using slide_window_ok [OF w ci2, of stats] E mon by (metis order_refl)
    let ?l3 = "l2\<lparr>gs_monitorCache := cache, gs_monitorWindow := window\<rparr>"
    have "stats_inv (?l3, t2)" by (rule inv2) (simp_all add: s2 sw(2))
    then show ?thesis
      unfolding data using False sw(1) stats_inv_verdict [of ?l3 t2] by (auto simp: Let_def) (metis prod.collapse)
  qed
qed

text \<open>
  The statistics goroutine does not panic: as long as the simulator's clock does not run
  backwards, every line is handled, and afterwards the monitor's window is again the exact sum of at
  most \<open>Monitor.Window\<close> cached statistics.
\<close>

theorem stat_line_ok:
  assumes "stats_inv (l, t)" and "clock_ok l line"
  shows "\<exists>l' t' v. stat_line show_float wall line l t = Some (l', t', v) \<and> stats_inv (l', t')"
proof -
  consider "HasPrefix line ''HEAD '' \<and> \<not> validHead line" | "\<not> HasPrefix line ''DATA ''" "\<not> (HasPrefix line ''HEAD '' \<and> \<not> validHead line)"
    | "HasPrefix line ''DATA ''" "\<not> (HasPrefix line ''HEAD '' \<and> \<not> validHead line)" by blast
  then show ?thesis
  proof cases
    case 3
    show ?thesis
    proof (cases "validStat line")
      case None
      then show ?thesis using 3 assms(1) by (simp add: stat_line_def stats_inv_stop)
    next
      case (Some nums)
      with assms(2) have "gs_simStart l \<le> f64 (f64 (of_nat (unat (field64 (nums ! 0)))) / 1000000000)"
        by (simp add: clock_ok_def)
      from stat_data_ok [OF assms(1) this] show ?thesis using 3 Some by (auto simp: stat_line_def)
    qed
  qed (use assms(1) in \<open>auto simp: stat_line_def stats_inv_stop\<close>)
qed

text \<open>A kernel that just booted: the first line of counters.\<close>

definition first_line :: string where
  "first_line = ''DATA 1000000000 5 0 0 95 0 0 0 0 0 0''"

definition booting_run :: RunTest where
  "booting_run = blank_run\<lparr>t_Commands := [blank_command ''boot'', blank_command ''sy1''],
     t_Monitor := (t_Monitor blank_run)\<lparr>mon_Enabled := ''true'', mon_Window := 400\<rparr>,
     t_Stat := \<lparr>sc_Resolution = 1 / 100, sc_Window = 1\<rparr>, r_statActive := True, r_statRecord := True\<rparr>"

lemma booting_run_inv: "stats_inv (StatsLocal_init 0, booting_run)"
  by (auto simp: stats_inv_def booting_run_def StatsLocal_init_def curCommand_def blank_run_def blank_command_def
      Test.defs fresh_command_def recorded_ok_def zeroStat_def zero_stat_def less_Suc_eq sum_stats_def cache_inv_def)

lemma first_line_clock: "clock_ok (StatsLocal_init 0) first_line"
  unfolding clock_ok_def
proof (intro allI impI)
  fix nums :: "string list"
  have "0 \<le> f64 (f64 (of_nat (unat (field64 (nums ! 0)))) / 1000000000)"
    by (intro f64_nonneg divide_nonneg_nonneg of_nat_0_le_iff) simp
  then show "gs_simStart (StatsLocal_init 0) \<le> f64 (f64 (of_nat (unat (field64 (nums ! 0)))) / 1000000000)"
    by (simp only: StatsLocal_init_def StatsLocal.simps)
qed

lemma stat_line_ok_witness:
  "\<exists>l' t' v. stat_line (\<lambda>_. []) 1 first_line (StatsLocal_init 0) booting_run = Some (l', t', v) \<and> stats_inv (l', t')"
  by (rule stat_line_ok [OF booting_run_inv first_line_clock])

section \<open>The goroutine among the others\<close>

text \<open>
  What can happen to the goroutine's locals and the shared test: a line of counters, the final
  check of a monitor error, the end of the stream or a failure, output from the simulator, and the
  runner switching recording on and off or moving on to the next command.
\<close>

inductive gs_step :: "(rat \<Rightarrow> string) \<Rightarrow> (string \<Rightarrow> string \<Rightarrow> string) \<Rightarrow> StatsLocal \<times> RunTest \<Rightarrow> StatsLocal \<times> RunTest \<Rightarrow> bool"
  for show_float hmac where
  gs_line: "clock_ok l line \<Longrightarrow> stat_line show_float wall line l t = Some (l', t', v) \<Longrightarrow>
    gs_step show_float hmac (l, t) (l', t')"
| gs_blowup: "gs_step show_float hmac (l, t) (l, fst (stat_blowup wall msg cnt t))"
| gs_eof: "gs_step show_float hmac (l, t) (l, stat_eof wall t)"
| gs_failure: "gs_step show_float hmac (l, t) (l, stat_failure wall msg err t)"
| gs_recv: "gs_step show_float hmac (l, t) (l, Recv hmac t received)"
| gs_enable: "gs_step show_float hmac (l, t) (l, fst (enableStats t))"
| gs_disable: "gs_step show_float hmac (l, t) (l, fst (disableStats t))"
| gs_next: "Suc (r_commandCounter t) < length (t_Commands t) \<Longrightarrow>
    gs_step show_float hmac (l, t) (l, t\<lparr>r_commandCounter := Suc (r_commandCounter t), r_currentOutput := new_output\<rparr>)"

inductive_cases gs_stepE: "gs_step show_float hmac s s'"

definition gs_init :: "StatsLocal \<times> RunTest \<Rightarrow> bool" where
  "gs_init = (\<lambda>(l, t). (\<exists>wall. l = StatsLocal_init wall) \<and> 0 < mon_Window (t_Monitor t) \<and>
     r_commandCounter t < length (t_Commands t) \<and> (\<forall>c\<in>set (t_Commands t). fresh_command c))"

lemma gs_init_inv: "gs_init s \<Longrightarrow> stats_inv s"
  by (auto simp: gs_init_def stats_inv_def StatsLocal_init_def fresh_recorded curCommand_def split: prod.splits)

lemma outputLineComplete_fields:
  "t_Commands (outputLineComplete hmac t) = t_Commands t" "r_commandCounter (outputLineComplete hmac t) = r_commandCounter t"
  "t_Monitor (outputLineComplete hmac t) = t_Monitor t"
  by (simp_all add: outputLineComplete_def Let_def split: option.split)

lemma stats_inv_cong:
  "t_Commands t' = t_Commands t \<Longrightarrow> r_commandCounter t' = r_commandCounter t \<Longrightarrow> t_Monitor t' = t_Monitor t \<Longrightarrow>
   stats_inv (l, t) \<Longrightarrow> stats_inv (l, t')"
  by (simp add: stats_inv_def curCommand_def)

lemma stats_inv_recv_byte:
  assumes "stats_inv (l, t)"
  shows "stats_inv (l, recv_byte hmac t wb)"
proof -
  have out: "stats_inv (l, upd_cur (\<lambda>c. c\<lparr>c_Output := outs c\<rparr>) s)" if "stats_inv (l, s)" for outs s
    using that by (intro stats_inv_upd) (auto simp: stats_inv_def recorded_ok_def)
  show ?thesis
  proof (cases "snd wb = CHR 0x0A")
    case True
    then obtain o' where rb: "recv_byte hmac t wb =
        (let s = outputLineComplete hmac (t\<lparr>r_currentOutput := o'\<rparr>);
             s = upd_cur (\<lambda>c. c\<lparr>c_Output := c_Output c @ [r_currentOutput s]\<rparr>) s;
             s = notify (ECommand (r_commandCounter s)) MSG_PERSIST_UPDATE MSG_FIELD_OUTPUT s
         in s\<lparr>r_currentOutput := new_output\<rparr>)"
      unfolding recv_byte_def Let_def by simp
    have "stats_inv (l, outputLineComplete hmac (t\<lparr>r_currentOutput := o'\<rparr>))"
      by (rule stats_inv_cong [OF _ _ _ assms]) (simp_all add: outputLineComplete_fields)
    from out [OF this] show ?thesis
      unfolding rb Let_def by (rule stats_inv_cong [rotated -1]) (simp_all add: notify_def)
  next
    case False
    show ?thesis
      by (rule stats_inv_cong [OF _ _ _ assms]) (simp_all add: recv_byte_def Let_def False)
  qed
qed

lemma stats_inv_Recv:
  assumes "stats_inv (l, t)"
  shows "stats_inv (l, Recv hmac t received)"
proof -
  have loop: "stats_inv (l, foldl (recv_byte hmac) s received)" if "stats_inv (l, s)" for s
    using that by (induction received arbitrary: s) (auto intro: stats_inv_recv_byte)
  show ?thesis unfolding Recv_def by (rule loop, rule stats_inv_cong [OF _ _ _ assms]) simp_all
qed

lemma gs_step_inv:
  assumes "gs_step show_float hmac s s'" and "stats_inv s"
  shows "stats_inv s'"
  using assms
proof cases
  case (gs_line l line wall t l' t' v)
  then show ?thesis using stat_line_ok [of l t line show_float wall] assms(2) by auto
next
  case (gs_next t l)
  then show ?thesis using assms(2) by (auto simp: stats_inv_def curCommand_def fresh_recorded)
qed (use assms(2) in \<open>auto simp: stat_blowup_def stat_eof_def stat_failure_def stats_inv_stop enableStats_def
      disableStats_def intro: stats_inv_Recv stats_inv_cong\<close>)

interpretation stats: step_system gs_init "gs_step show_float hmac" stats_inv
  for show_float hmac
  by unfold_locales (auto intro: gs_init_inv gs_step_inv)

text \<open>
  C28. Whatever the interleaving of counter lines, output and the runner's steps, the window the
  monitor judges is the wrap-around exact sum of the statistics in its cache, and it never spans more
  than \<open>Monitor.Window\<close> of them.
\<close>

theorem monitor_window_exact:
  assumes "reachable gs_init (gs_step show_float hmac) (l, t)"
  shows "counters (gs_monitorWindow l) = counters (sum_stats (gs_monitorCache l)) \<and>
    length (gs_monitorCache l) \<le> unat (mon_Window (t_Monitor t))"
  using stats.reachable_inv [OF assms] by (simp add: stats_inv_def cache_inv_def)

lemma monitor_window_exact_witness:
  "\<exists>l t. gs_step (\<lambda>_. []) (\<lambda>_ _. []) (StatsLocal_init 0, booting_run) (l, t) \<and>
     counters (gs_monitorWindow l) = counters (sum_stats (gs_monitorCache l))"
proof -
  have init: "gs_init (StatsLocal_init 0, booting_run)"
    by (auto simp: gs_init_def booting_run_def blank_run_def blank_command_def Test.defs fresh_command_def
        zeroStat_def zero_stat_def)
  have data: "validStat first_line = Some [''1000000000'', ''5'', ''0'', ''0'', ''95'', ''0'', ''0'', ''0'', ''0'', ''0'', ''0'']"
    by code_simp
  from data first_line_clock have le: "gs_simStart (StatsLocal_init 0) \<le>
      f64 (f64 (of_nat (unat (field64 ([''1000000000'', ''5'', ''0'', ''0'', ''95'', ''0'', ''0'', ''0'', ''0'', ''0'', ''0''] ! 0)))) / 1000000000)"
    by (simp only: clock_ok_def)
  from stat_data_ok [OF booting_run_inv le] obtain l t v where
    "stat_data (\<lambda>_. []) 1 [''1000000000'', ''5'', ''0'', ''0'', ''95'', ''0'', ''0'', ''0'', ''0'', ''0'', ''0''] (StatsLocal_init 0) booting_run = Some (l, t, v)"
    by blast
  then have "stat_line (\<lambda>_. []) 1 first_line (StatsLocal_init 0) booting_run = Some (l, t, v)"
    using data by (simp add: stat_line_def first_line_def HasPrefix_def)
  with first_line_clock have step: "gs_step (\<lambda>_. []) (\<lambda>_ _. []) (StatsLocal_init 0, booting_run) (l, t)" by (rule gs_line)
  with init have "reachable gs_init (gs_step (\<lambda>_. []) (\<lambda>_ _. [])) (l, t)" by (intro reach_step [OF reach_init])
  with step show ?thesis using monitor_window_exact by blast
qed

end
