(* ===== verification/Templates.thy ===== *)
theory Templates
  imports Samples InputLine
begin

text \<open>
  Command templates (\<open>commands.go\<close>): defaults, the expansion of expected output through
  references to other commands, and the instantiation of a command.

  The text template engine is the parameter \<open>exec\<close>: the parse error, or the text written when
  execution ends. The program drops the error of the execution itself (the result of
  \<open>tmpl.Execute\<close> is not assigned), so what was written up to it is used. The library that
  merges overrides into a template is the parameter \<open>merge\<close>.
\<close>

section \<open>Functions for templates\<close>

definition add :: "int \<Rightarrow> int \<Rightarrow> int" where
  "add a b = a + b"

text \<open>\<open>rand.Intn(max - min)\<close> gives \<open>r\<close>.\<close>

definition randInt :: "int \<Rightarrow> int \<Rightarrow> int \<Rightarrow> string + int" where
  "randInt lo hi r = (if hi \<le> lo then Inl ''max must be greater than min'' else Inr (lo + r))"

text \<open>\<open>int\<close> arithmetic of 64 bits; a negative argument runs through all integers below it.\<close>

partial_function (option) factorial :: "64 word \<Rightarrow> 64 word option" where
  "factorial n =
     (if n = 0 then Some 1
      else Option.bind (factorial (n - 1)) (\<lambda>r. Some (n * r)))"

definition stringChars :: string where
  "stringChars = ''abcdefghijklmnopqrstuvwxyzABCDEFGHIJKLMNOPQRSTUVWXYZ0123456789!@#$%^&*()''"

text \<open>
  \<open>picks\<close> gives the random numbers of the loop, each below the number of characters. A negative length
  is a panic, the outer \<open>None\<close>.
\<close>

definition randString :: "int \<Rightarrow> int \<Rightarrow> int \<Rightarrow> (nat \<Rightarrow> nat) \<Rightarrow> (string + string) option" where
  "randString lo hi r picks =
     (case randInt lo hi r of
        Inl err \<Rightarrow> Some (Inl err)
      | Inr l \<Rightarrow> if l < 0 then None else Some (Inr (map (\<lambda>i. stringChars ! picks i) [0..<nat l])))"

text \<open>The names under which templates reach the functions.\<close>

definition funcMap :: "string list" where
  "funcMap = [''add'', ''atoi'', ''factorial'', ''randInt'', ''randString'', ''ranger'']"

definition ranger :: "nat \<Rightarrow> nat list" where
  "ranger n = [0..<n]"

record templateData =
  td_Args :: "string list"
  td_ArgLen :: nat

section \<open>Templates\<close>

definition Clone :: "CommandTemplate \<Rightarrow> CommandTemplate" where
  "Clone ct = ct\<lparr>ct_Output := map (\<lambda>l. l) (ct_Output ct), ct_Input := map (\<lambda>s. s) (ct_Input ct)\<rparr>"

definition template_fixDefaults :: "CommandTemplate \<Rightarrow> CommandTemplate" where
  "template_fixDefaults t =
     (let t = (if ct_Panic t \<noteq> CMD_OPT_MAYBE \<and> ct_Panic t \<noteq> CMD_OPT_YES then t\<lparr>ct_Panic := CMD_OPT_NO\<rparr> else t);
          t = (if ct_TimesOut t \<noteq> CMD_OPT_MAYBE \<and> ct_TimesOut t \<noteq> CMD_OPT_YES then t\<lparr>ct_TimesOut := CMD_OPT_NO\<rparr> else t)
      in case ct_Output t of
           [] \<Rightarrow> t\<lparr>ct_Output := [\<lparr>tol_Text = ct_Name t @ '': SUCCESS'', tol_Trusted = ''true'', tol_External = ''false''\<rparr>]\<rparr>
         | l # ls \<Rightarrow>
             if ls = [] \<and> TrimSpace (tol_Text l) = [] then t\<lparr>ct_Output := []\<rparr>
             else t\<lparr>ct_Output := map (\<lambda>l. l\<lparr>tol_Trusted := (if tol_Trusted l \<noteq> ''false'' then ''true'' else tol_Trusted l),
                     tol_External := (if tol_External l \<noteq> ''true'' then ''false'' else tol_External l)\<rparr>) (l # ls)\<rparr>)"

text \<open>\<open>yaml.Unmarshal\<close> is the parameter \<open>parse\<close>.\<close>

definition CommandTemplatesFromString :: "(string \<Rightarrow> string + CommandTemplate list) \<Rightarrow> string \<Rightarrow> string + CommandTemplate list" where
  "CommandTemplatesFromString parse text = bind_ok (parse text) (\<lambda>ts. Inr (map template_fixDefaults ts))"

definition CommandTemplatesFromFile :: "(string \<Rightarrow> string + CommandTemplate list) \<Rightarrow> (string \<Rightarrow> string + string) \<Rightarrow> string \<Rightarrow>
    string + CommandTemplate list" where
  "CommandTemplatesFromFile parse read file =
     (case read file of
        Inl err \<Rightarrow> Inl (''Error reading commands file '' @ file @ '': '' @ err)
      | Inr data \<Rightarrow>
          (case CommandTemplatesFromString parse data of
             Inl err \<Rightarrow> Inl (''Error loading commands file '' @ file @ '': '' @ err)
           | Inr c \<Rightarrow> Inr c))"

section \<open>Expanding\<close>

definition expandLine :: "(string \<Rightarrow> templateData option \<Rightarrow> string + string) \<Rightarrow> string \<Rightarrow> templateData option \<Rightarrow> string + string list" where
  "expandLine exec t data =
     bind_ok (exec t data) (\<lambda>text. Inr (filter (\<lambda>l. TrimSpace l \<noteq> []) (Split CHR 0x0A text)))"

definition expected_lines :: "string \<Rightarrow> TemplOutputLine \<Rightarrow> string list \<Rightarrow> ExpectedOutputLine list" where
  "expected_lines ident origline lines =
     map (\<lambda>l. if tol_Trusted origline = ''true'' then \<lparr>eo_Text = l, eo_Trusted = True, eo_KeyName = ident\<rparr>
              else \<lparr>eo_Text = l, eo_Trusted = False, eo_KeyName = []\<rparr>) lines"

definition cycle_error :: "string \<Rightarrow> string" where
  "cycle_error ident = ''Cycle detected in command template output.  ID: '' @ ident"

text \<open>
  The loop over the output lines of \<open>ident\<close>, which is among the \<open>processed\<close> ones. An external line
  starts the loop of another command with a copy of that set, unless it is in it.
\<close>

function expand_lines :: "(string \<Rightarrow> templateData option \<Rightarrow> string + string) \<Rightarrow> (string, CommandTemplate) gomap \<Rightarrow> templateData \<Rightarrow>
    string \<Rightarrow> TemplOutputLine list \<Rightarrow> string set \<Rightarrow> string + ExpectedOutputLine list" where
  "expand_lines exec cmds td ident [] processed = Inr []"
| "expand_lines exec cmds td ident (origline # ls) processed =
     bind_ok
       (if tol_External origline = ''true'' then
          (case gm_get cmds (tol_Text origline) of
             None \<Rightarrow> Inr []
           | Some other \<Rightarrow>
               if tol_Text origline \<in> processed then Inl (cycle_error (tol_Text origline))
               else expand_lines exec cmds td (tol_Text origline) (ct_Output other) (insert (tol_Text origline) processed))
        else bind_ok (expandLine exec (tol_Text origline) (Some td)) (\<lambda>lines. Inr (expected_lines ident origline lines)))
       (\<lambda>more. bind_ok (expand_lines exec cmds td ident ls processed) (\<lambda>rest. Inr (more @ rest)))"
  by pat_completeness auto
termination
proof (relation "inv_image (less_than <*lex*> less_than) (\<lambda>(_, cmds, _, _, ls, processed). (card (set (gm_keys cmds) - processed), length ls))",
    goal_cases)
  case (2 exec cmds td ident origline ls processed other)
  let ?n = "tol_Text origline"
  have "?n \<in> set (gm_keys cmds)" using 2(2) by (force dest: map_of_SomeD)
  with 2(3) have "set (gm_keys cmds) - insert ?n processed \<subset> set (gm_keys cmds) - processed" by auto
  then have "card (set (gm_keys cmds) - insert ?n processed) < card (set (gm_keys cmds) - processed)"
    by (intro psubset_card_mono) auto
  then show ?case by simp
qed auto

definition expandOutput :: "(string \<Rightarrow> templateData option \<Rightarrow> string + string) \<Rightarrow> (string, CommandTemplate) gomap \<Rightarrow> templateData \<Rightarrow>
    string \<Rightarrow> CommandTemplate \<Rightarrow> string set \<Rightarrow> string + ExpectedOutputLine list" where
  "expandOutput exec cmds td ident tmpl processed =
     (if ident \<in> processed then Inl (cycle_error ident)
      else expand_lines exec cmds td ident (ct_Output tmpl) (insert ident processed))"

section \<open>Instantiating a command\<close>

definition expand_all :: "(string \<Rightarrow> templateData option \<Rightarrow> string + string) \<Rightarrow> string list \<Rightarrow> string + string list" where
  "expand_all exec lines =
     fold_ok (\<lambda>line args. bind_ok (expandLine exec line None) (\<lambda>temp. Inr (args @ temp))) lines []"

text \<open>The outer \<open>option\<close> is the panic of \<open>splitCommand\<close> on an empty line.\<close>

definition Instantiate :: "(string \<Rightarrow> templateData option \<Rightarrow> string + string) \<Rightarrow>
    (CommandTemplate \<Rightarrow> CommandTemplate \<Rightarrow> string + CommandTemplate) \<Rightarrow>
    (string, CommandTemplate) gomap \<Rightarrow> Command \<Rightarrow> (string + Command) option" where
  "Instantiate exec merge cmds c =
     (case splitCommand (in_Line (c_Input c)) of
        None \<Rightarrow> None
      | Some (pfx, ident, args) \<Rightarrow> Some
          (case gm_get cmds ident of
             None \<Rightarrow> Inl (''Command '' @ [CHR 0x27] @ ident @ [CHR 0x27] @ '' is not recognized by test161.'' @ [CHR 0x0A])
           | Some tmpl \<Rightarrow>
               bind_ok (merge (Clone tmpl) (c_Config c)) (\<lambda>tmpl.
               bind_ok
                 (if args = [] \<and> ct_Input tmpl \<noteq> [] then expand_all exec (ct_Input tmpl)
                  else if args \<noteq> [] then
                    bind_ok (expandLine exec (Join_with '' '' args) None) (\<lambda>temp. Inr (concat (map splitArgs temp)))
                  else Inr args) (\<lambda>args.
               bind_ok (expandOutput exec cmds \<lparr>td_Args = args, td_ArgLen = length args\<rparr> ident tmpl {}) (\<lambda>expected.
               Inr (c\<lparr>c_Panic := ct_Panic tmpl, c_TimesOut := ct_TimesOut tmpl, c_Timeout := ct_Timeout tmpl,
                      c_Input := (c_Input c)\<lparr>in_Line :=
                        (if pfx \<noteq> [] then pfx @ '' '' else []) @ ident @ concat (map (\<lambda>a. '' '' @ a) args)\<rparr>,
                      c_ExpectedOutput := expected\<rparr>))))))"

section \<open>Properties\<close>

text \<open>
  \<open>factorial\<close> returns for every natural number and gives the factorial modulo $2^{64}$.
\<close>

theorem factorial_returns: "n < 2 ^ 64 \<Longrightarrow> factorial (of_nat n) = Some (of_nat (fact n))"
proof (induction n)
  case 0
  show ?case by (subst factorial.simps) simp
next
  case (Suc n)
  then have "of_nat (Suc n) \<noteq> (0 :: 64 word)"
    by (auto simp: word_of_nat_eq_0_iff simp del: of_nat_Suc dest: dvd_imp_le)
  with Suc show ?case by (subst factorial.simps) (simp add: distrib_right)
qed

lemma factorial_returns_witness: "factorial 5 = Some 120"
  using factorial_returns [of 5] by (simp add: fact_numeral)

text \<open>
  After \<open>fixDefaults\<close> a template is complete: the panic and timeout options are one of their
  three values, every output line says whether it is trusted and whether it is external (except a
  default or deliberately empty output), and applying it again changes nothing.
\<close>

theorem fixDefaults_complete:
  "ct_Panic (template_fixDefaults t) \<in> {''no'', ''maybe'', ''yes''} \<and>
   ct_TimesOut (template_fixDefaults t) \<in> {''no'', ''maybe'', ''yes''} \<and>
   list_all (\<lambda>l. tol_Trusted l \<in> {''true'', ''false''} \<and> tol_External l \<in> {''true'', ''false''}) (ct_Output (template_fixDefaults t)) \<and>
   (ct_Output t = [] \<longrightarrow> ct_Output (template_fixDefaults t) =
      [\<lparr>tol_Text = ct_Name t @ '': SUCCESS'', tol_Trusted = ''true'', tol_External = ''false''\<rparr>])"
  by (auto simp: template_fixDefaults_def Let_def list_all_iff split: list.splits)

lemma fixDefaults_complete_witness:
  "ct_Output (template_fixDefaults (blank_template\<lparr>ct_Name := ''sy1''\<rparr>)) =
     [\<lparr>tol_Text = ''sy1: SUCCESS'', tol_Trusted = ''true'', tol_External = ''false''\<rparr>]"
  using fixDefaults_complete [of "blank_template\<lparr>ct_Name := ''sy1''\<rparr>"] by (simp add: blank_template_def)

text \<open>The commands whose output a command refers to.\<close>

definition ext_names :: "(string, CommandTemplate) gomap \<Rightarrow> TemplOutputLine list \<Rightarrow> string set" where
  "ext_names cmds ls = {tol_Text l | l. l \<in> set ls \<and> tol_External l = ''true'' \<and> gm_has cmds (tol_Text l)}"

definition ext_rel :: "(string, CommandTemplate) gomap \<Rightarrow> (string \<times> string) set" where
  "ext_rel cmds = {(a, b). \<exists>t. gm_get cmds a = Some t \<and> b \<in> ext_names cmds (ct_Output t)}"

lemma ext_names_Cons:
  "ext_names cmds (l # ls) =
   (if tol_External l = ''true'' \<and> gm_has cmds (tol_Text l) then {tol_Text l} else {}) \<union> ext_names cmds ls"
  by (auto simp: ext_names_def)

text \<open>A command that was expanded reaches no cycle: its references are expanded with a larger set.\<close>

lemma expand_lines_refs:
  "expand_lines exec cmds td ident ls processed = Inr r \<Longrightarrow> b \<in> ext_names cmds ls \<Longrightarrow>
   b \<notin> processed \<and> (\<exists>other r'. gm_get cmds b = Some other \<and>
     expand_lines exec cmds td b (ct_Output other) (insert b processed) = Inr r')"
proof (induction ls arbitrary: r)
  case Nil
  then show ?case by (simp add: ext_names_def)
next
  case (Cons l ls)
  from Cons.prems(1) obtain more rest where
    more: "(if tol_External l = ''true'' then
          (case gm_get cmds (tol_Text l) of None \<Rightarrow> Inr []
           | Some other \<Rightarrow> if tol_Text l \<in> processed then Inl (cycle_error (tol_Text l))
               else expand_lines exec cmds td (tol_Text l) (ct_Output other) (insert (tol_Text l) processed))
        else bind_ok (expandLine exec (tol_Text l) (Some td)) (\<lambda>lines. Inr (expected_lines ident l lines))) = Inr more"
    and rest: "expand_lines exec cmds td ident ls processed = Inr rest"
    by (auto simp: bind_ok_eq_Inr)
  show ?case
  proof (cases "b \<in> ext_names cmds ls")
    case True
    then show ?thesis by (rule Cons.IH [OF rest])
  next
    case False
    with Cons.prems(2) have "tol_External l = ''true''" "gm_has cmds b" "b = tol_Text l"
      by (auto simp: ext_names_Cons split: if_splits)
    with more show ?thesis by (auto simp: gm_has_def split: option.splits if_splits)
  qed
qed

lemma expand_lines_path:
  assumes "expand_lines exec cmds td ident ls processed = Inr r" and "b \<in> ext_names cmds ls"
    and "(b, x) \<in> (ext_rel cmds)\<^sup>*"
  obtains P other r' where "processed \<subseteq> P" "x \<notin> P" "gm_get cmds x = Some other"
    "expand_lines exec cmds td x (ct_Output other) (insert x P) = Inr r'"
proof -
  from assms(3) have "\<exists>P other r'. processed \<subseteq> P \<and> x \<notin> P \<and> gm_get cmds x = Some other \<and>
      expand_lines exec cmds td x (ct_Output other) (insert x P) = Inr r'"
  proof (induction rule: rtrancl_induct)
    case base
    from expand_lines_refs [OF assms(1,2)] show ?case by blast
  next
    case (step y z)
    then obtain P other r' where P: "processed \<subseteq> P" "y \<notin> P" "gm_get cmds y = Some other"
      "expand_lines exec cmds td y (ct_Output other) (insert y P) = Inr r'" by blast
    from step(2) P(3) have "z \<in> ext_names cmds (ct_Output other)" by (auto simp: ext_rel_def)
    from expand_lines_refs [OF P(4) this] P(1) show ?case by blast
  qed
  then show thesis using that by blast
qed

lemma expand_lines_no_cycle:
  assumes "expand_lines exec cmds td ident ls processed = Inr r" and "b \<in> ext_names cmds ls"
    and "(b, x) \<in> (ext_rel cmds)\<^sup>*"
  shows "x \<notin> processed \<and> (x, x) \<notin> (ext_rel cmds)\<^sup>+"
proof -
  obtain P other r' where P: "processed \<subseteq> P" "x \<notin> P" "gm_get cmds x = Some other"
    "expand_lines exec cmds td x (ct_Output other) (insert x P) = Inr r'"
    using expand_lines_path [OF assms] by blast
  have "(x, x) \<notin> (ext_rel cmds)\<^sup>+"
  proof
    assume "(x, x) \<in> (ext_rel cmds)\<^sup>+"
    then obtain y where y: "(x, y) \<in> ext_rel cmds" "(y, x) \<in> (ext_rel cmds)\<^sup>*" by (auto dest: tranclD)
    from y(1) P(3) have "y \<in> ext_names cmds (ct_Output other)" by (auto simp: ext_rel_def)
    from expand_lines_path [OF P(4) this y(2)] show False by blast
  qed
  with P(1,2) show ?thesis by blast
qed

text \<open>The lines of a template that are texts of their own, and the ones that an expansion reaches.\<close>

definition own_lines :: "TemplOutputLine list \<Rightarrow> string set" where
  "own_lines ls = {tol_Text l | l. l \<in> set ls \<and> tol_External l \<noteq> ''true''}"

definition referred :: "(string, CommandTemplate) gomap \<Rightarrow> TemplOutputLine list \<Rightarrow> string set" where
  "referred cmds ls = {x. \<exists>b\<in>ext_names cmds ls. (b, x) \<in> (ext_rel cmds)\<^sup>*}"

definition reached_lines :: "(string, CommandTemplate) gomap \<Rightarrow> TemplOutputLine list \<Rightarrow> string set" where
  "reached_lines cmds ls = own_lines ls \<union> {text. \<exists>x\<in>referred cmds ls. \<exists>u. gm_get cmds x = Some u \<and> text \<in> own_lines (ct_Output u)}"

lemma expand_lines_own:
  "expand_lines exec cmds td ident ls processed = Inr r \<Longrightarrow> text \<in> own_lines ls \<Longrightarrow> \<exists>out. exec text (Some td) = Inr out"
proof (induction ls arbitrary: r)
  case (Cons l ls)
  from Cons.prems(1) obtain rest where rest: "expand_lines exec cmds td ident ls processed = Inr rest"
    by (auto simp: bind_ok_eq_Inr)
  show ?case
  proof (cases "text \<in> own_lines ls")
    case True
    with Cons.IH rest show ?thesis by blast
  next
    case False
    with Cons.prems(2) have "tol_External l \<noteq> ''true''" "text = tol_Text l" by (auto simp: own_lines_def)
    with Cons.prems(1) show ?thesis by (auto simp: bind_ok_eq_Inr expandLine_def)
  qed
qed (simp add: own_lines_def)

lemma expand_lines_reached:
  assumes "expand_lines exec cmds td ident ls processed = Inr r" and "text \<in> reached_lines cmds ls"
  shows "\<exists>out. exec text (Some td) = Inr out"
proof (cases "text \<in> own_lines ls")
  case True
  with assms(1) show ?thesis by (rule expand_lines_own)
next
  case False
  with assms(2) obtain b x u where "b \<in> ext_names cmds ls" "(b, x) \<in> (ext_rel cmds)\<^sup>*" "gm_get cmds x = Some u" "text \<in> own_lines (ct_Output u)"
    by (auto simp: reached_lines_def referred_def)
  with expand_lines_path [OF assms(1)] expand_lines_own show ?thesis by (metis option.inject)
qed

text \<open>Where an error comes from: a line that is reached, or a name that is met again on its own path.\<close>

lemma expand_lines_error:
  "expand_lines exec cmds td ident ls processed = Inl err \<Longrightarrow>
   (\<exists>x\<in>referred cmds ls. err = cycle_error x \<and> (x \<in> processed \<or> (x, x) \<in> (ext_rel cmds)\<^sup>+)) \<or>
   (\<exists>text\<in>reached_lines cmds ls. exec text (Some td) = Inl err)"
proof (induction exec cmds td ident ls processed rule: expand_lines.induct)
  case (2 exec cmds td ident l ls processed)
  let ?n = "tol_Text l"
  let ?first = "if tol_External l = ''true'' then
          (case gm_get cmds ?n of None \<Rightarrow> Inr []
           | Some other \<Rightarrow> if ?n \<in> processed then Inl (cycle_error ?n)
               else expand_lines exec cmds td ?n (ct_Output other) (insert ?n processed))
        else bind_ok (expandLine exec ?n (Some td)) (\<lambda>lines. Inr (expected_lines ident l lines))"
  have mono: "referred cmds ls \<subseteq> referred cmds (l # ls)" "own_lines ls \<subseteq> own_lines (l # ls)"
    by (auto simp: referred_def ext_names_Cons own_lines_def)
  then have mono': "reached_lines cmds ls \<subseteq> reached_lines cmds (l # ls)" by (auto simp: reached_lines_def)
  show ?case
  proof (cases ?first)
    case (Inr more)
    with 2(3) have "expand_lines exec cmds td ident ls processed = Inl err"
      unfolding expand_lines.simps by (cases "expand_lines exec cmds td ident ls processed") (simp_all add: bind_ok_def)
    with 2(2) [OF Inr] mono mono' show ?thesis by blast
  next
    case (Inl e)
    with 2(3) have e: "e = err" unfolding expand_lines.simps by (simp add: bind_ok_def)
    show ?thesis
    proof (cases "tol_External l = ''true''")
      case False
      with Inl e have "exec ?n (Some td) = Inl err" by (auto simp: bind_ok_def expandLine_def split: sum.splits)
      moreover have "?n \<in> reached_lines cmds (l # ls)" using False by (auto simp: reached_lines_def own_lines_def)
      ultimately show ?thesis by blast
    next
      case ext: True
      with Inl obtain other where other: "gm_get cmds ?n = Some other" by (auto split: option.splits)
      have n: "?n \<in> ext_names cmds (l # ls)" using ext other by (simp add: ext_names_Cons gm_has_def)
      then have nr: "?n \<in> referred cmds (l # ls)" by (auto simp: referred_def)
      have step: "(?n, b) \<in> ext_rel cmds" if "b \<in> ext_names cmds (ct_Output other)" for b
        using that other by (auto simp: ext_rel_def)
      have below: "x \<in> referred cmds (l # ls) \<and> (?n, x) \<in> (ext_rel cmds)\<^sup>+" if "x \<in> referred cmds (ct_Output other)" for x
        using that step n unfolding referred_def by (blast intro: converse_rtrancl_into_rtrancl rtrancl_into_trancl2)
      have lines: "reached_lines cmds (ct_Output other) \<subseteq> reached_lines cmds (l # ls)"
        using below nr other by (auto simp: reached_lines_def)
      show ?thesis
      proof (cases "?n \<in> processed")
        case True
        with Inl ext other e nr show ?thesis by auto
      next
        case False
        with Inl ext other e have "expand_lines exec cmds td ?n (ct_Output other) (insert ?n processed) = Inl err" by simp
        from 2(1) [OF ext other False this] below lines show ?thesis by blast
      qed
    qed
  qed
qed simp

text \<open>
  C14. Expanding the expected output of a command. It succeeds only if no reference that it follows comes back
  to the command itself or lies on a cycle of references, and every line that it reaches could be
  expanded. An error is the cycle error, with the name of a command that was reached and is the
  command itself or lies on a cycle, or it is the error of the template engine for a line that was reached.
  So without a line that fails, it fails with the cycle error exactly when a cycle is reached.
\<close>

theorem expandOutput_cycle_iff:
  "case expandOutput exec cmds td ident t {} of
     Inr r \<Rightarrow>
       \<not> (\<exists>x\<in>referred cmds (ct_Output t). x = ident \<or> (x, x) \<in> (ext_rel cmds)\<^sup>+) \<and>
       \<not> (\<exists>text\<in>reached_lines cmds (ct_Output t). \<exists>err. exec text (Some td) = Inl err)
   | Inl err \<Rightarrow>
       (\<exists>x\<in>referred cmds (ct_Output t). err = cycle_error x \<and> (x = ident \<or> (x, x) \<in> (ext_rel cmds)\<^sup>+)) \<or>
       (\<exists>text\<in>reached_lines cmds (ct_Output t). exec text (Some td) = Inl err)"
proof -
  have eq: "expandOutput exec cmds td ident t {} = expand_lines exec cmds td ident (ct_Output t) {ident}"
    by (simp add: expandOutput_def)
  show ?thesis
  proof (cases "expandOutput exec cmds td ident t {}")
    case (Inl err)
    with expand_lines_error [of exec cmds td ident "ct_Output t" "{ident}" err] show ?thesis by (simp add: eq)
  next
    case (Inr r)
    then have r: "expand_lines exec cmds td ident (ct_Output t) {ident} = Inr r" by (simp add: eq)
    have "x \<noteq> ident \<and> (x, x) \<notin> (ext_rel cmds)\<^sup>+" if "x \<in> referred cmds (ct_Output t)" for x
      using that expand_lines_no_cycle [OF r] by (auto simp: referred_def)
    with expand_lines_reached [OF r] Inr show ?thesis by fastforce
  qed
qed

text \<open>A template that refers to itself.\<close>

definition loop_template :: CommandTemplate where
  "loop_template = blank_template\<lparr>ct_Name := ''triplehuge'',
     ct_Output := [\<lparr>tol_Text = ''triplehuge'', tol_Trusted = ''true'', tol_External = ''true''\<rparr>]\<rparr>"

lemma expandOutput_cycle_iff_witness:
  "\<exists>err. expandOutput (\<lambda>s d. Inr s) [(''triplehuge'', loop_template)] \<lparr>td_Args = [], td_ArgLen = 0\<rparr> ''triplehuge'' loop_template {} = Inl err \<and>
     (\<exists>x. err = cycle_error x)"
proof -
  let ?cmds = "[(''triplehuge'', loop_template)]"
  have "''triplehuge'' \<in> referred ?cmds (ct_Output loop_template)"
    by (auto simp: referred_def ext_names_def loop_template_def gm_has_def)
  then show ?thesis
    using expandOutput_cycle_iff [where exec = "\<lambda>s d. Inr s" and cmds = ?cmds and td = "\<lparr>td_Args = [], td_ArgLen = 0\<rparr>"
      and ident = "''triplehuge''" and t = loop_template]
    by (auto split: sum.splits)
qed

text \<open>
  Who signs what: every line a command expects is either untrusted and names no key, or trusted
  under the name of the command whose template holds the line (itself or one it refers to).
\<close>

theorem expandOutput_keys:
  assumes "expandOutput exec cmds td ident t processed = Inr r" and "e \<in> set r"
  shows "eo_KeyName e = (if eo_Trusted e then eo_KeyName e else []) \<and>
    (eo_Trusted e \<longrightarrow> eo_KeyName e = ident \<or> gm_has cmds (eo_KeyName e))"
proof -
  have "eo_Trusted e \<and> (eo_KeyName e = ident \<or> gm_has cmds (eo_KeyName e)) \<or> \<not> eo_Trusted e \<and> eo_KeyName e = []"
    if "expand_lines exec cmds td ident ls processed = Inr r" "e \<in> set r" for ident ls processed r
    using that
  proof (induction exec cmds td ident ls processed arbitrary: r rule: expand_lines.induct)
    case (1 exec cmds td ident processed)
    then show ?case by simp
  next
    case (2 exec cmds td ident l ls processed)
    let ?first = "if tol_External l = ''true'' then
          (case gm_get cmds (tol_Text l) of None \<Rightarrow> Inr []
           | Some other \<Rightarrow> if tol_Text l \<in> processed then Inl (cycle_error (tol_Text l))
               else expand_lines exec cmds td (tol_Text l) (ct_Output other) (insert (tol_Text l) processed))
        else bind_ok (expandLine exec (tol_Text l) (Some td)) (\<lambda>lines. Inr (expected_lines ident l lines))"
    from 2(3) obtain more rest where m: "?first = Inr more" "expand_lines exec cmds td ident ls processed = Inr rest"
      "r = more @ rest" unfolding expand_lines.simps bind_ok_eq_Inr by blast
    from 2(4) m(3) consider "e \<in> set rest" | "e \<in> set more" by auto
    then show ?case
    proof cases
      case 1
      with 2(2) [OF m(1,2)] show ?thesis by blast
    next
      case more: 2
      show ?thesis
      proof (cases "tol_External l = ''true''")
        case False
        with m(1) more show ?thesis by (auto simp: bind_ok_eq_Inr expected_lines_def split: if_splits)
      next
        case True
        then obtain other where o: "gm_get cmds (tol_Text l) = Some other" "tol_Text l \<notin> processed"
          "expand_lines exec cmds td (tol_Text l) (ct_Output other) (insert (tol_Text l) processed) = Inr more"
          using m(1) more by (auto split: option.splits if_splits)
        from 2(1) [OF True o more] o(1) show ?thesis by (auto simp: gm_has_def)
      qed
    qed
  qed
  from this [of ident "ct_Output t" "insert ident processed" r] assms show ?thesis
    by (auto simp: expandOutput_def split: if_splits)
qed

lemma expandOutput_keys_witness:
  "\<exists>r e. expandOutput (\<lambda>s d. Inr s) [] \<lparr>td_Args = [], td_ArgLen = 0\<rparr> ''sy1'' (template_fixDefaults (blank_template\<lparr>ct_Name := ''sy1''\<rparr>)) {} = Inr r \<and>
     e \<in> set r \<and> (eo_Trusted e \<longrightarrow> eo_KeyName e = ''sy1'' \<or> gm_has ([] :: (string, CommandTemplate) gomap) (eo_KeyName e))"
proof -
  have r: "expandOutput (\<lambda>s d. Inr s) [] \<lparr>td_Args = [], td_ArgLen = 0\<rparr> ''sy1'' (template_fixDefaults (blank_template\<lparr>ct_Name := ''sy1''\<rparr>)) {} =
      Inr [\<lparr>eo_Text = ''sy1: SUCCESS'', eo_Trusted = True, eo_KeyName = ''sy1''\<rparr>]" by code_simp
  from expandOutput_keys [OF r] r show ?thesis by force
qed

section \<open>Random strings\<close>

text \<open>A random string has a length between the bounds, the upper one excluded, and only known characters.\<close>

lemma randString_ok:
  assumes "0 \<le> r" and "r < hi - lo" and "0 \<le> lo" and "\<And>i. picks i < length stringChars"
  shows "\<exists>s. randString lo hi r picks = Some (Inr s) \<and> lo \<le> int (length s) \<and> int (length s) < hi \<and> set s \<subseteq> set stringChars"
proof -
  have "randString lo hi r picks = Some (Inr (map (\<lambda>i. stringChars ! picks i) [0..<nat (lo + r)]))"
    using assms(1-3) by (simp add: randString_def randInt_def)
  moreover have "set (map (\<lambda>i. stringChars ! picks i) [0..<nat (lo + r)]) \<subseteq> set stringChars"
    using nth_mem [OF assms(4)] by (simp only: set_map) blast
  moreover have "length (map (\<lambda>i. stringChars ! picks i) [0..<nat (lo + r)]) = nat (lo + r)" by simp
  moreover have "lo \<le> int (nat (lo + r))" "int (nat (lo + r)) < hi" using assms(1-3) by simp_all
  ultimately show ?thesis by metis
qed

text \<open>A negative lower bound can make the program panic.\<close>

lemma randString_negative: "lo < 0 \<Longrightarrow> lo < hi \<Longrightarrow> randString lo hi 0 picks = None"
  by (simp add: randString_def randInt_def)

end
