(* ===== verification/ConfCommands.thy ===== *)
theory ConfCommands
  imports Samples InputLine
begin

text \<open>
  Test files (\<open>conf.go\<close>): the default configuration, the configuration text for sys161, and
  the expansion of a test's content into its list of commands.

  The front matter parser, the random number generator and the generator of identifiers are
  parameters. In \<open>initCommands\<close> the program compares pointers to command configurations: the two
  built-in ones keep their identity (\<open>PKernel\<close>, \<open>PShell\<close>), while the address of a loop variable is
  a new pointer each time (\<open>PFresh\<close>), equal to no other.
\<close>

section \<open>Defaults and the simulator's configuration\<close>

definition default_disk :: "string \<Rightarrow> DiskConf" where
  "default_disk nodoom = \<lparr>dk_Enabled = ''false'', dk_RPM = 7200, dk_Bytes = ''32M'', dk_NoDoom = nodoom\<rparr>"

definition default_Sys161 :: Sys161Conf where
  "default_Sys161 = \<lparr>sys_Path = ''sys161'', sys_CPUs = 8, sys_RAM = ''1M'',
     sys_Disk1 = default_disk ''true'', sys_Disk2 = default_disk ''false'', sys_Random = 0\<rparr>"

definition default_Stat :: StatConf where
  "default_Stat = \<lparr>sc_Resolution = f32 (1 / 100), sc_Window = 1\<rparr>"

definition default_Monitor :: MonitorConf where
  "default_Monitor = \<lparr>mon_Enabled = ''true'', mon_Window = 400,
     mon_Kernel = \<lparr>lim_EnableMin = ''false'', lim_Min = f64 (1 / 1000), lim_Max = 1\<rparr>,
     mon_User = \<lparr>lim_EnableMin = ''false'', lim_Min = f64 (1 / 10000), lim_Max = 1\<rparr>,
     mon_ProgressTimeout = 10, mon_CommandTimeout = 60\<rparr>"

definition default_Misc :: MiscConf where
  "default_Misc = \<lparr>misc_CommandRetries = 5, misc_PromptTimeout = 1800, misc_CharacterTimeout = 1000,
     misc_TempDir = [], misc_RetryCharacters = ''true'', misc_KillOnExit = ''false''\<rparr>"

definition disk_line :: "string \<Rightarrow> string \<Rightarrow> DiskConf \<Rightarrow> string" where
  "disk_line slot file d =
     (if dk_Enabled d = ''true'' then
        [CHR 0x0A] @ slot @ [CHR 0x09] @ ''disk rpm='' @ Itoa (unat (dk_RPM d)) @ '' file='' @ file @ '' '' @
        (if dk_NoDoom d = ''true'' then ''nodoom'' else []) @ '' # bytes='' @ dk_Bytes d @ [CHR 0x0A]
      else []) @ [CHR 0x0A]"

text \<open>The text of \<open>SYS161_TEMPLATE\<close> for a configuration.\<close>

definition sys161_text :: "Sys161Conf \<Rightarrow> string" where
  "sys161_text s =
     ''0 serial'' @ [CHR 0x0A] @ ''1'' @ [CHR 0x09] @ ''emufs'' @ [CHR 0x0A] @
     disk_line ''2'' ''LHD0.img'' (sys_Disk1 s) @ disk_line ''3'' ''LHD1.img'' (sys_Disk2 s) @
     ''28'' @ [CHR 0x09] @ ''random seed='' @ Itoa (unat (sys_Random s)) @ [CHR 0x0A] @
     ''29'' @ [CHR 0x09] @ ''timer'' @ [CHR 0x0A] @ ''30'' @ [CHR 0x09] @ ''trace'' @ [CHR 0x0A] @
     ''31'' @ [CHR 0x09] @ ''mainboard ramsize='' @ sys_RAM s @ '' cpus='' @ Itoa (unat (sys_CPUs s))"

definition PrintConf :: "'a Test_scheme \<Rightarrow> string" where
  "PrintConf t =
     concat (map (\<lambda>line. line @ [CHR 0x0A])
       (filter (\<lambda>line. TrimSpace line \<noteq> []) (Split CHR 0x0A (TrimSpace (sys161_text (t_Sys161 t))))))"

definition confEqual :: "'a Test_scheme \<Rightarrow> 'b Test_scheme \<Rightarrow> bool" where
  "confEqual t t2 \<longleftrightarrow> t_Sys161 t = t_Sys161 t2 \<and> t_Stat t = t_Stat t2 \<and> t_Monitor t = t_Monitor t2 \<and>
     t_Misc t = t_Misc t2 \<and> t_CommandConf t = t_CommandConf t2"

section \<open>Prefixes\<close>

definition prefix_chars :: string where
  "prefix_chars = ''!@#$%^&*''"

text \<open>\<open>^([!@#$%^&*]) \<close> on the trimmed line; the rest is cut from the line as it was given.\<close>

definition splitPrefix :: "string \<Rightarrow> string \<times> string" where
  "splitPrefix commandLine =
     (case TrimSpace commandLine of
        c # d # _ \<Rightarrow>
          if c \<in> set prefix_chars \<and> d = CHR '' '' then ([c], TrimSpace (drop 1 commandLine))
          else ([], TrimSpace commandLine)
      | _ \<Rightarrow> ([], TrimSpace commandLine))"

definition show_conf :: "CommandConf \<Rightarrow> string" where
  "show_conf c = ''{'' @ cc_Prefix c @ '' '' @ cc_Prompt c @ '' '' @ cc_Start c @ '' '' @ cc_End c @ ''}''"

definition conf_error :: "string \<Rightarrow> CommandConf \<Rightarrow> string" where
  "conf_error msg c = ''test161: '' @ msg @ '' ('' @ show_conf c @ '')''"

text \<open>The first loop, one configuration against the prefixes seen so far.\<close>

definition check_conf :: "CommandConf \<Rightarrow> string \<Rightarrow> string + string" where
  "check_conf c seen =
     (if cc_Prefix c = [] \<or> cc_Prompt c = [] \<or> cc_Start c = [] \<or> cc_End c = []
      then Inl (conf_error ''need to specific command prefix, prompt, start, and end'' c)
      else if 1 < length (cc_Prefix c) then Inl (conf_error ''illegal multicharacter prefix'' c)
      else
        (let pfx = fst (splitPrefix (cc_Prefix c @ '' t''))
         in if pfx = [] then Inl (conf_error ''invalid prefix'' c)
            else if pfx = ''$'' then Inl (conf_error ''the $ prefix is reserved for the shell'' c)
            else if ContainsAny seen pfx then Inl (conf_error ''duplicate prefix'' c)
            else if fst (splitPrefix (cc_Start c)) \<noteq> [] \<and> fst (splitPrefix (cc_Start c)) = pfx
              then Inl (conf_error ''command start cannot start with own prefix'' c)
            else if fst (splitPrefix (cc_End c)) \<noteq> [] then Inl (conf_error ''command exits should not contain a prefix'' c)
            else Inr (seen @ pfx)))"

definition check_start :: "string \<Rightarrow> CommandConf \<Rightarrow> unit \<Rightarrow> string + unit" where
  "check_start seen c u =
     (let pfx = fst (splitPrefix (cc_Start c))
      in if pfx \<noteq> [] \<and> \<not> ContainsAny seen pfx then Inl (conf_error ''command start contains an unknown prefix'' c)
         else Inr u)"

definition checkCommandConf :: "CommandConf list \<Rightarrow> string + unit" where
  "checkCommandConf confs =
     bind_ok (fold_ok check_conf confs ''$'') (\<lambda>seen. fold_ok (check_start seen) confs ())"

definition KERNEL_COMMAND_CONF :: CommandConf where
  "KERNEL_COMMAND_CONF = \<lparr>cc_Prefix = [], cc_Prompt = ''OS/161 kernel [? for menu]: '', cc_Start = [], cc_End = ''q''\<rparr>"

definition SHELL_COMMAND_CONF :: CommandConf where
  "SHELL_COMMAND_CONF = \<lparr>cc_Prefix = ''$'', cc_Prompt = ''OS/161$ '', cc_Start = ''s'', cc_End = ''exit''\<rparr>"

datatype conf_ptr = PKernel | PShell | PFresh

type_synonym conf_ref = "conf_ptr \<times> CommandConf"

definition same_ptr :: "conf_ref \<Rightarrow> conf_ref \<Rightarrow> bool" where
  "same_ptr a b \<longleftrightarrow> fst a = fst b \<and> fst a \<noteq> PFresh"

definition commandConfFromLine :: "CommandConf list \<Rightarrow> string \<Rightarrow> string \<times> conf_ref option" where
  "commandConfFromLine confs line =
     (let (pfx, commandLine) = splitPrefix line
      in (commandLine,
          if pfx = [] then Some (PKernel, KERNEL_COMMAND_CONF)
          else if pfx = ''$'' then Some (PShell, SHELL_COMMAND_CONF)
          else map_option (Pair PFresh) (find (\<lambda>c. cc_Prefix c = pfx) confs)))"

section \<open>Simple prefixes\<close>

definition atoi_range_error :: "string \<Rightarrow> string" where
  "atoi_range_error s = ''strconv.Atoi: parsing '' @ [CHR 0x22] @ s @ [CHR 0x22] @ '': value out of range''"

text \<open>\<open>|cmd\<close> surrounds a command with \<open>khu\<close>; \<open>3xcmd\<close> repeats it. A negative count cannot be written.\<close>

definition expand_prefix :: "string \<Rightarrow> string + string list" where
  "expand_prefix command0 =
     (let command = TrimSpace command0; digits = takeWhile is_digit command; rest = drop (length digits) command
      in if HasPrefix command ''|'' then Inr [''khu'', drop 1 command, ''khu'']
         else if digits \<noteq> [] \<and> HasPrefix rest ''x'' then
           (case Atoi digits of
              None \<Rightarrow> Inl (atoi_range_error digits)
            | Some n \<Rightarrow> Inr (replicate (nat n) (drop 1 rest)))
         else Inr [command])"

definition doSimplePrefixes :: "string list \<Rightarrow> string + string list" where
  "doSimplePrefixes inputs =
     fold_ok (\<lambda>command out. bind_ok (expand_prefix command) (\<lambda>cs. Inr (out @ cs))) inputs []"

definition simplePrefixes :: "string list \<Rightarrow> string + string list" where
  "simplePrefixes inputs = bind_ok (doSimplePrefixes inputs) doSimplePrefixes"

section \<open>The command list\<close>

definition zeroTemplate :: CommandTemplate where
  "zeroTemplate = \<lparr>ct_Name = [], ct_Output = [], ct_Input = [], ct_Panic = [], ct_TimesOut = [], ct_Timeout = 0\<rparr>"

definition emptyStat :: Stat where
  "emptyStat = \<lparr>st_initialized = False, st_Start = 0, st_End = 0, st_Length = 0, st_Count = 0,
     st_WallStart = 0, st_WallEnd = 0, st_WallLength = 0, st_Nsec = 0, st_Kinsns = 0, st_Uinsns = 0,
     st_Udud = 0, st_Idle = 0, st_IRQs = 0, st_Exns = 0, st_Disk = 0, st_Con = 0, st_Emu = 0,
     st_Net = 0, st_Insns = 0\<rparr>"

definition newCommand :: "string \<Rightarrow> string \<Rightarrow> string option \<Rightarrow> string \<Rightarrow> Command" where
  "newCommand uuid type prompt line =
     \<lparr>c_ID = uuid, c_Type = type, c_PromptPattern = prompt,
      c_Input = \<lparr>in_WallTime = 0, in_SimTime = 0, in_Line = line\<rparr>, c_Config = zeroTemplate,
      c_PointsAvailable = 0, c_PointsEarned = 0, c_Panic = CMD_OPT_NO, c_Timeout = 0, c_TimesOut = CMD_OPT_NO,
      c_ExpectedOutput = [], c_Output = [], c_SummaryStats = emptyStat, c_AllStats = [],
      c_StartTime = 0, c_EndTime = 0, c_TimedOut = False, c_Status = COMMAND_STATUS_NONE\<rparr>"

definition setCommandConfig :: "CommandTemplate list \<Rightarrow> Command \<Rightarrow> Command option" where
  "setCommandConfig overrides c =
     (case Command_Id c of
        None \<Rightarrow> None
      | Some myname \<Rightarrow>
          Some (case find (\<lambda>tmpl. ct_Name tmpl = myname) overrides of
                  Some tmpl \<Rightarrow> c\<lparr>c_Config := tmpl\<rparr>
                | None \<Rightarrow> c))"

abbreviation "MAX_EXPANSION_LOOPS \<equiv> (1024 :: nat)"

definition exit_line :: "CommandConf \<Rightarrow> string" where
  "exit_line c = TrimSpace (cc_Prefix c @ '' '' @ cc_End c)"

text \<open>
  The command for a line under the current configuration, and the stack after it: the exit command
  pops, a start command of any configuration pushes it.
\<close>

definition command_step :: "CommandConf list \<Rightarrow> conf_ref list \<Rightarrow> string \<Rightarrow> conf_ref list \<times> CommandConf" where
  "command_step allConfs stack commandLine =
     (let current = snd (hd stack)
      in if commandLine = cc_End current then (tl stack, current)
         else (case find (\<lambda>s. cc_Start s = TrimSpace (cc_Prefix current @ '' '' @ commandLine)) allConfs of
                 Some s \<Rightarrow> ((PFresh, s) # stack, s)
               | None \<Rightarrow> (stack, current)))"

fun init_loop :: "nat \<Rightarrow> (nat \<Rightarrow> string) \<Rightarrow> CommandConf list \<Rightarrow> CommandTemplate list \<Rightarrow> conf_ref list \<Rightarrow> string list \<Rightarrow>
    Command list \<Rightarrow> (string + Command list) option" where
  "init_loop 0 uuid confs overrides stack lines cmds = Some (Inl ''test161: infinite loop expanding command list'')"
| "init_loop (Suc fuel) uuid confs overrides stack lines cmds =
     (case stack of
        [] \<Rightarrow> Some (if lines \<noteq> [] then Inl ''test161: premature exit in command list'' else Inr cmds)
      | current # _ \<Rightarrow>
          (case lines of
             [] \<Rightarrow> init_loop fuel uuid confs overrides stack [exit_line (snd current)] cmds
           | line # rest \<Rightarrow>
               if TrimSpace line = [] then Some (Inl ''test161: found empty command'')
               else
                 (case commandConfFromLine confs (TrimSpace line) of
                    (commandLine, None) \<Rightarrow> Some (Inl (''test161: command with invalid prefix '' @ commandLine))
                  | (commandLine, Some conf) \<Rightarrow>
                      if snd current \<noteq> snd conf then
                        (if \<exists>s\<in>set stack. same_ptr conf s
                         then init_loop fuel uuid confs overrides stack (exit_line (snd current) # lines) cmds
                         else init_loop fuel uuid confs overrides stack (cc_Start (snd conf) # lines) cmds)
                      else
                        (let (stack', typeConf) = command_step (confs @ [SHELL_COMMAND_CONF, KERNEL_COMMAND_CONF]) stack commandLine;
                             type = (if cc_Prefix typeConf \<noteq> [] \<or> HasPrefix commandLine ''p '' then ''user'' else ''kernel'');
                             prompt = (case stack' of [] \<Rightarrow> None | s # _ \<Rightarrow> Some (cc_Prompt (snd s)))
                         in case setCommandConfig overrides (newCommand (uuid (length cmds)) type prompt commandLine) of
                              None \<Rightarrow> None
                            | Some c \<Rightarrow> init_loop fuel uuid confs overrides stack' rest (cmds @ [c])))))"

definition boot_command :: "string \<Rightarrow> Command" where
  "boot_command uuid = newCommand uuid ''kernel'' (Some (cc_Prompt KERNEL_COMMAND_CONF)) ''boot''"

definition initCommands :: "(nat \<Rightarrow> string) \<Rightarrow> 'a Test_scheme \<Rightarrow> (string + Command list) option" where
  "initCommands uuid t =
     (case checkCommandConf (t_CommandConf t) of
        Inl e \<Rightarrow> Some (Inl e)
      | Inr _ \<Rightarrow>
          (case simplePrefixes (Split CHR 0x0A (TrimSpace (t_Content t))) of
             Inl e \<Rightarrow> Some (Inl e)
           | Inr lines \<Rightarrow>
               init_loop MAX_EXPANSION_LOOPS uuid (t_CommandConf t) (t_CommandOverrides t) [(PKernel, KERNEL_COMMAND_CONF)]
                 lines (t_Commands t @ [boot_command (uuid (length (t_Commands t)))])))"

text \<open>
  \<open>TestFromString\<close>: the front matter parser is \<open>parse\<close>, \<open>rnd\<close> the random number and \<open>test_uuid\<close>
  the identifier of the test.
\<close>

definition confFromString :: "(string \<Rightarrow> string + Test) \<Rightarrow> uint32 \<Rightarrow> string \<Rightarrow> string + Test" where
  "confFromString parse rnd data =
     bind_ok (parse data) (\<lambda>t. Inr (t\<lparr>t_Sys161 := (t_Sys161 t)\<lparr>sys_Random := drop_bit 16 rnd\<rparr>, t_requiredBy := []\<rparr>))"

definition TestFromString :: "(string \<Rightarrow> string + Test) \<Rightarrow> uint32 \<Rightarrow> string \<Rightarrow> (nat \<Rightarrow> string) \<Rightarrow> string \<Rightarrow> (string + Test) option" where
  "TestFromString parse rnd test_uuid uuid data =
     (case confFromString parse rnd data of
        Inl e \<Rightarrow> Some (Inl e)
      | Inr t \<Rightarrow>
          (case initCommands uuid t of
             None \<Rightarrow> None
           | Some (Inl e) \<Rightarrow> Some (Inl e)
           | Some (Inr cmds) \<Rightarrow> Some (Inr (t\<lparr>t_ID := test_uuid, t_Commands := cmds, t_Result := TEST_RESULT_NONE\<rparr>))))"

definition TestFromFile :: "(string \<Rightarrow> string + string) \<Rightarrow> (string \<Rightarrow> string + Test) \<Rightarrow> uint32 \<Rightarrow> string \<Rightarrow> (nat \<Rightarrow> string) \<Rightarrow>
    string \<Rightarrow> (string + Test) option" where
  "TestFromFile read parse rnd test_uuid uuid filename =
     (case read filename of
        Inl err \<Rightarrow> Some (Inl (''Error reading file '' @ filename @ '': '' @ err))
      | Inr data \<Rightarrow>
          map_option (\<lambda>r. case r of Inl err \<Rightarrow> Inl (''Error loading test file '' @ filename @ '': '' @ err) | Inr t \<Rightarrow> Inr t)
            (TestFromString parse rnd test_uuid uuid data))"

section \<open>Properties of the prefixes\<close>

lemma splitPrefix_one:
  "fst (splitPrefix ([ch] @ '' t'')) = (if ch \<in> set prefix_chars then [ch] else [])"
proof (cases "is_space ch")
  case True
  then have "ch \<notin> set prefix_chars" by (auto simp: prefix_chars_def is_space_def)
  moreover have "TrimSpace ([ch] @ '' t'') = ''t''" using True by (auto simp: TrimSpace_def is_space_def)
  ultimately show ?thesis by (simp add: splitPrefix_def)
next
  case False
  then have "TrimSpace ([ch] @ '' t'') = [ch] @ '' t''" by (intro TrimSpace_id) (auto simp: is_space_def)
  then show ?thesis by (simp add: splitPrefix_def)
qed

lemma check_conf_ok:
  assumes "check_conf c seen = Inr seen'"
  obtains ch where "cc_Prefix c = [ch]" "ch \<in> set prefix_chars" "ch \<noteq> CHR ''$''" "ch \<notin> set seen" "seen' = seen @ [ch]"
    "fst (splitPrefix (cc_End c)) = []" "fst (splitPrefix (cc_Start c)) \<noteq> [ch]"
proof -
  from assms have "cc_Prefix c \<noteq> []" "\<not> 1 < length (cc_Prefix c)"
    by (auto simp: check_conf_def split: if_splits)
  then obtain ch where ch: "cc_Prefix c = [ch]" by (cases "cc_Prefix c") auto
  from assms show thesis
    using that [OF ch] splitPrefix_one [of ch]
    by (auto simp: check_conf_def ch Let_def ContainsAny_def split: if_splits)
qed

lemma fold_check_conf:
  "fold_ok check_conf confs seen = Inr seen' \<Longrightarrow>
   seen' = seen @ concat (map cc_Prefix confs) \<and> distinct (map cc_Prefix confs) \<and>
   (\<forall>c\<in>set confs. \<exists>ch. cc_Prefix c = [ch] \<and> ch \<in> set prefix_chars \<and> ch \<noteq> CHR ''$'' \<and> ch \<notin> set seen \<and>
      fst (splitPrefix (cc_End c)) = [] \<and> fst (splitPrefix (cc_Start c)) \<noteq> [ch])"
proof (induction confs arbitrary: seen)
  case Nil
  then show ?case by simp
next
  case (Cons c confs)
  from Cons.prems obtain s where s: "check_conf c seen = Inr s" "fold_ok check_conf confs s = Inr seen'"
    by (auto simp: bind_ok_eq_Inr)
  from check_conf_ok [OF s(1)] obtain ch where ch: "cc_Prefix c = [ch]" "ch \<in> set prefix_chars" "ch \<noteq> CHR ''$''"
    "ch \<notin> set seen" "s = seen @ [ch]" "fst (splitPrefix (cc_End c)) = []" "fst (splitPrefix (cc_Start c)) \<noteq> [ch]" by metis
  note IH = Cons.IH [OF s(2)]
  have "cc_Prefix c \<notin> set (map cc_Prefix confs)" using IH ch(1,5) by fastforce
  then show ?case using IH ch by auto
qed

text \<open>
  Command configurations that pass the check are usable: their prefixes are distinct single
  characters out of the allowed ones and not the shell's, their exit commands carry no prefix, and
  a start command carries none, the shell's, or that of another configuration.
\<close>

theorem checkCommandConf_sound:
  assumes "checkCommandConf confs = Inr u"
  shows "distinct (map cc_Prefix confs) \<and>
    (\<forall>c\<in>set confs. (\<exists>ch\<in>set ''!@#%^&*''. cc_Prefix c = [ch]) \<and> fst (splitPrefix (cc_End c)) = [] \<and>
       fst (splitPrefix (cc_Start c)) \<in> {[], ''$''} \<union> (cc_Prefix ` set confs - {cc_Prefix c}))"
proof -
  from assms obtain seen where 1: "fold_ok check_conf confs ''$'' = Inr seen"
    and 2: "fold_ok (check_start seen) confs () = Inr u"
    by (auto simp: checkCommandConf_def bind_ok_eq_Inr)
  note p = fold_check_conf [OF 1]
  have starts: "check_start seen c () = Inr ()" if "c \<in> set confs" for c
    using 2 that by (induction confs arbitrary: u) (auto simp: bind_ok_eq_Inr)
  have one: "fst (splitPrefix s) = [] \<or> (\<exists>ch. fst (splitPrefix s) = [ch])" for s
    by (auto simp: splitPrefix_def split: list.split)
  have "fst (splitPrefix (cc_Start c)) \<in> {[], ''$''} \<union> (cc_Prefix ` set confs - {cc_Prefix c})" if c: "c \<in> set confs" for c
  proof (cases "fst (splitPrefix (cc_Start c)) = []")
    case False
    with one obtain ch where ch: "fst (splitPrefix (cc_Start c)) = [ch]" by blast
    with starts [OF c] have "ch \<in> set seen" by (auto simp: check_start_def ContainsAny_def split: if_splits)
    then have "ch = CHR ''$'' \<or> (\<exists>d\<in>set confs. ch \<in> set (cc_Prefix d))" using p by auto
    moreover have "[ch] \<in> cc_Prefix ` set confs" if "d \<in> set confs" "ch \<in> set (cc_Prefix d)" for d
      using p that by (metis empty_iff empty_set image_eqI list.set_intros(1) set_ConsD)
    moreover have "cc_Prefix c \<noteq> [ch]" using p c ch by auto
    ultimately show ?thesis using ch by auto
  qed simp
  moreover have "\<exists>ch\<in>set ''!@#%^&*''. cc_Prefix c = [ch]" if "c \<in> set confs" for c
    using p that by (auto simp: prefix_chars_def)
  ultimately show ?thesis using p by blast
qed

lemma checkCommandConf_sound_witness:
  "distinct (map cc_Prefix [\<lparr>cc_Prefix = ''!'', cc_Prompt = ''> '', cc_Start = ''$ /bin/bigsh'', cc_End = ''exit''\<rparr>,
     \<lparr>cc_Prefix = ''%'', cc_Prompt = ''% '', cc_Start = ''! sub'', cc_End = ''quit''\<rparr>])"
proof -
  have "checkCommandConf [\<lparr>cc_Prefix = ''!'', cc_Prompt = ''> '', cc_Start = ''$ /bin/bigsh'', cc_End = ''exit''\<rparr>,
     \<lparr>cc_Prefix = ''%'', cc_Prompt = ''% '', cc_Start = ''! sub'', cc_End = ''quit''\<rparr>] = Inr ()" by code_simp
  from checkCommandConf_sound [OF this] show ?thesis by blast
qed

section \<open>Properties of the command list\<close>

lemma setCommandConfig_fields:
  "setCommandConfig overrides c = Some c' \<Longrightarrow> c_Input c' = c_Input c \<and> c_PromptPattern c' = c_PromptPattern c"
  by (auto simp: setCommandConfig_def split: option.splits)

definition command_text :: "string \<Rightarrow> string" where
  "command_text line = snd (splitPrefix (TrimSpace line))"

definition command_line :: "Command \<Rightarrow> string" where
  "command_line c = in_Line (c_Input c)"

text \<open>What the loop adds to the command list.\<close>

definition added_ok :: "string list \<Rightarrow> conf_ref list \<Rightarrow> Command list \<Rightarrow> bool" where
  "added_ok lines stack new \<longleftrightarrow>
     subseq (map command_text lines) (map command_line new) \<and>
     (stack = [] \<longleftrightarrow> new = []) \<and> (new \<noteq> [] \<longrightarrow> c_PromptPattern (last new) = None) \<and>
     (\<forall>c\<in>set (butlast new). c_PromptPattern c \<noteq> None)"

lemma added_ok_tail: "added_ok (l # lines) stack new \<Longrightarrow> added_ok lines stack new"
  by (auto simp: added_ok_def dest: subseq_Cons')

lemma init_loop_ok:
  "init_loop fuel uuid confs overrides stack lines cmds = Some (Inr cmds') \<Longrightarrow>
   \<exists>new. cmds' = cmds @ new \<and> length new \<le> fuel \<and> added_ok lines stack new"
proof (induction fuel arbitrary: stack lines cmds)
  case 0
  then show ?case by simp
next
  case (Suc fuel)
  show ?case
  proof (cases stack)
    case Nil
    with Suc.prems show ?thesis by (auto simp: added_ok_def split: if_splits)
  next
    case (Cons current below)
    show ?thesis
    proof (cases lines)
      case Nil
      with Suc.prems Cons have "init_loop fuel uuid confs overrides stack [exit_line (snd current)] cmds = Some (Inr cmds')" by simp
      from Suc.IH [OF this] show ?thesis using Nil added_ok_tail by (metis le_Suc_eq)
    next
      case l: (Cons line rest)
      from Suc.prems Cons l have ne: "TrimSpace line \<noteq> []" by (auto split: if_splits)
      obtain tx ref where cl: "commandConfFromLine confs (TrimSpace line) = (tx, ref)"
        by (cases "commandConfFromLine confs (TrimSpace line)")
      have tx: "tx = command_text line"
        using cl by (simp add: commandConfFromLine_def command_text_def case_prod_beta Let_def)
      from Suc.prems Cons l ne cl obtain conf where ref: "ref = Some conf" by (cases ref) auto
      show ?thesis
      proof (cases "snd current = snd conf")
        case False
        with Suc.prems Cons l ne cl ref obtain x where
          "init_loop fuel uuid confs overrides stack (x # lines) cmds = Some (Inr cmds')" by (auto split: if_splits)
        from Suc.IH [OF this] show ?thesis using added_ok_tail by (metis le_Suc_eq)
      next
        case True
        obtain stack' ty where cs: "command_step (confs @ [SHELL_COMMAND_CONF, KERNEL_COMMAND_CONF]) stack tx = (stack', ty)"
          by (cases "command_step (confs @ [SHELL_COMMAND_CONF, KERNEL_COMMAND_CONF]) stack tx")
        let ?new = "newCommand (uuid (length cmds)) (if cc_Prefix ty \<noteq> [] \<or> HasPrefix tx ''p '' then ''user'' else ''kernel'')
            (case stack' of [] \<Rightarrow> None | s # _ \<Rightarrow> Some (cc_Prompt (snd s))) tx"
        from Suc.prems Cons l ne cl ref True cs obtain c where c: "setCommandConfig overrides ?new = Some c"
          and rec: "init_loop fuel uuid confs overrides stack' rest (cmds @ [c]) = Some (Inr cmds')"
          by (auto simp: Let_def split: option.splits)
        from Suc.IH [OF rec] obtain new where new: "cmds' = cmds @ [c] @ new" "length new \<le> fuel" "added_ok rest stack' new"
          by auto
        have f: "command_line c = tx" "c_PromptPattern c = None \<longleftrightarrow> stack' = []"
          using setCommandConfig_fields [OF c] by (auto simp: command_line_def newCommand_def split: list.splits)
        have "added_ok lines stack (c # new)"
          using new(3) f Cons l tx by (auto simp: added_ok_def)
        then show ?thesis using new by (intro exI [of _ "c # new"]) auto
      qed
    qed
  qed
qed

text \<open>
  C9. From a test file to its commands: the list starts with the boot command, every line of the
  test (after repetition and \<open>khu\<close> prefixes) is run in its order, only start and exit commands of
  configurations come in between, exactly the last command has no prompt (it shuts the system
  down), and the list stays within the expansion bound.
\<close>

theorem initCommands_wellformed:
  assumes "initCommands uuid t = Some (Inr cmds)" and "t_Commands t = []"
  shows "\<exists>lines new. simplePrefixes (Split CHR 0x0A (TrimSpace (t_Content t))) = Inr lines \<and>
    cmds = boot_command (uuid 0) # new \<and> subseq (map command_text lines) (map command_line new) \<and>
    new \<noteq> [] \<and> c_PromptPattern (last new) = None \<and> (\<forall>c\<in>set (butlast cmds). c_PromptPattern c \<noteq> None) \<and>
    length cmds \<le> 1025"
proof -
  from assms obtain lines where lines: "simplePrefixes (Split CHR 0x0A (TrimSpace (t_Content t))) = Inr lines"
    and loop: "init_loop MAX_EXPANSION_LOOPS uuid (t_CommandConf t) (t_CommandOverrides t) [(PKernel, KERNEL_COMMAND_CONF)]
      lines [boot_command (uuid 0)] = Some (Inr cmds)"
    by (auto simp: initCommands_def simp del: init_loop.simps split: sum.splits)
  from init_loop_ok [OF loop] obtain new where "cmds = [boot_command (uuid 0)] @ new" "length new \<le> 1024"
    "added_ok lines [(PKernel, KERNEL_COMMAND_CONF)] new" by blast
  with lines show ?thesis
    by (intro exI [of _ lines] exI [of _ new]) (auto simp: added_ok_def boot_command_def newCommand_def)
qed

definition shell_test :: Test where
  "shell_test = (blank_test ''shell/true.t'')\<lparr>t_Content := ''2x$ /bin/true'' @ [CHR 0x0A] @ ''|sy1'' @ [CHR 0x0A]\<rparr>"

lemma shell_test_commands:
  "map_option (map_sum id (map command_line)) (initCommands (\<lambda>_. []) shell_test) =
     Some (Inr [''boot'', ''s'', ''/bin/true'', ''/bin/true'', ''exit'', ''khu'', ''sy1'', ''khu'', ''q''])"
  by code_simp

lemma initCommands_wellformed_witness:
  "\<exists>cmds. initCommands (\<lambda>_. []) shell_test = Some (Inr cmds) \<and> c_PromptPattern (last cmds) = None \<and> length cmds \<le> 1025"
proof -
  from shell_test_commands obtain cmds where ic: "initCommands (\<lambda>_. []) shell_test = Some (Inr cmds)"
    by (cases "initCommands (\<lambda>_. []) shell_test") (auto simp: map_sum_def split: sum.splits)
  have "t_Commands shell_test = []" by code_simp
  from initCommands_wellformed [OF ic this] ic show ?thesis by auto
qed

end
