(* ===== verification/TestRun.thy ===== *)
theory TestRun
  imports Monitor Templates ConfCommands
begin

text \<open>
  Running a test (\<open>run.go\<close>: \<open>MergeAllDefaults\<close>, \<open>Run\<close>, \<open>finishCurCommand\<close>, \<open>sendCommand\<close>,
  \<open>start161\<close>). The simulator and the operating system are what the run observes: for every command
  the list of reactions to the characters it sends, what the output and statistics goroutines did
  to the shared test meanwhile (a function on the test), and how waiting for the prompt ended. The
  set-up steps before the simulator starts only succeed or fail. A panic is \<open>None\<close>.
\<close>

section \<open>Sending a command\<close>

text \<open>
  The reaction to one \<open>Send\<close>, and to one wait for the echo: it came, the wait timed out after the
  given simulated time, or another error.
\<close>

datatype send_obs = SendErr string | SendOk "echo_obs list"
and echo_obs = EchoMatch | EchoTimeout TimeFixedPoint | EchoErr string

abbreviation "MAX_RETRY_LOOPS \<equiv> (16 :: nat)"

datatype char_result = CharDone | CharRetry | CharErr string

text \<open>Waiting for the echo of one character; \<open>n\<close> is the number of waits left.\<close>

fun wait_echo :: "uint \<Rightarrow> nat \<Rightarrow> echo_obs list \<Rightarrow> char_result option" where
  "wait_echo characterTimeout 0 obs = Some CharRetry"
| "wait_echo characterTimeout (Suc n) [] = None"
| "wait_echo characterTimeout (Suc n) (EchoMatch # obs) = Some CharDone"
| "wait_echo characterTimeout (Suc n) (EchoTimeout charSimTime # obs) =
     (if f64 (charSimTime * 1000) < of_nat (unat characterTimeout)
      then wait_echo characterTimeout n obs else Some CharRetry)"
| "wait_echo characterTimeout (Suc n) (EchoErr e # obs) = Some (CharErr e)"

text \<open>One character; \<open>retries\<close> is the number of attempts left. Gives the attempts not used.\<close>

fun send_char :: "uint \<Rightarrow> nat \<Rightarrow> send_obs list \<Rightarrow> (string + send_obs list) option" where
  "send_char characterTimeout 0 obs = Some (Inl ''test161: timeout sending command'')"
| "send_char characterTimeout (Suc retries) [] = None"
| "send_char characterTimeout (Suc retries) (SendErr e # obs) = Some (Inl e)"
| "send_char characterTimeout (Suc retries) (SendOk echo # obs) =
     (case wait_echo characterTimeout MAX_RETRY_LOOPS echo of
        None \<Rightarrow> None
      | Some CharDone \<Rightarrow> Some (Inr obs)
      | Some CharRetry \<Rightarrow> send_char characterTimeout retries obs
      | Some (CharErr e) \<Rightarrow> Some (Inl e))"

fun send_chars :: "MiscConf \<Rightarrow> string \<Rightarrow> send_obs list \<Rightarrow> (string + unit) option" where
  "send_chars misc [] obs = Some (Inr ())"
| "send_chars misc (c # cs) obs =
     (case send_char (misc_CharacterTimeout misc) (unat (misc_CommandRetries misc)) obs of
        None \<Rightarrow> None
      | Some (Inl e) \<Rightarrow> Some (Inl e)
      | Some (Inr rest) \<Rightarrow> send_chars misc cs rest)"

definition sendCommand :: "MiscConf \<Rightarrow> string \<Rightarrow> send_obs list \<Rightarrow> (string + unit) option" where
  "sendCommand misc commandLine obs =
     (if misc_RetryCharacters misc = ''false'' then Some (Inr ()) else send_chars misc commandLine obs)"

section \<open>Defaults\<close>

text \<open>\<open>mergo.Map\<close> with \<open>CONF_DEFAULTS\<close> is the parameter \<open>merge_conf\<close>.\<close>

definition instantiate_command :: "(Command \<Rightarrow> (string + Command) option) \<Rightarrow> float32 \<Rightarrow> Command \<Rightarrow> Command list \<Rightarrow>
    (string + Command list) option" where
  "instantiate_command inst defTimeout c done =
     map_option (\<lambda>r. bind_ok r (\<lambda>c'. Inr (done @ [if c_Timeout c' = 0 then c'\<lparr>c_Timeout := defTimeout\<rparr> else c']))) (inst c)"

fun instantiate_commands :: "(Command \<Rightarrow> (string + Command) option) \<Rightarrow> float32 \<Rightarrow> Command list \<Rightarrow> Command list \<Rightarrow>
    (string + Command list) option" where
  "instantiate_commands inst defTimeout [] done = Some (Inr done)"
| "instantiate_commands inst defTimeout (c # cs) done =
     (case instantiate_command inst defTimeout c done of
        None \<Rightarrow> None
      | Some (Inl e) \<Rightarrow> Some (Inl e)
      | Some (Inr done') \<Rightarrow> instantiate_commands inst defTimeout cs done')"

definition MergeAllDefaults :: "('a RunTest_scheme \<Rightarrow> string + 'a RunTest_scheme) \<Rightarrow> (Command \<Rightarrow> (string + Command) option) \<Rightarrow>
    'a RunTest_scheme \<Rightarrow> (string + 'a RunTest_scheme) option" where
  "MergeAllDefaults merge_conf inst t =
     (case merge_conf t of
        Inl e \<Rightarrow> Some (Inl e)
      | Inr t \<Rightarrow> map_option (\<lambda>r. bind_ok r (\<lambda>cs. Inr (t\<lparr>t_Commands := cs\<rparr>)))
                   (instantiate_commands inst (mon_CommandTimeout (t_Monitor t)) (t_Commands t) []))"

section \<open>Finishing a command\<close>

text \<open>Gives the test and the finished command.\<close>

definition finishCurCommand :: "(string \<Rightarrow> string \<Rightarrow> string) \<Rightarrow> bool \<Rightarrow> 'a RunTest_scheme \<Rightarrow> ('a RunTest_scheme \<times> Command) option" where
  "finishCurCommand hmac eof t =
     (let t = upd_cur (\<lambda>c. c\<lparr>c_EndTime := t_SimTime t\<rparr>) t;
          out = r_currentOutput t;
          t = (if ol_WallTime out \<noteq> 0 then
                 (let t = outputLineComplete hmac (t\<lparr>r_currentOutput := out\<lparr>ol_Line := ol_Buffer out\<rparr>\<rparr>);
                      t = upd_cur (\<lambda>c. c\<lparr>c_Output := c_Output c @ [r_currentOutput t]\<rparr>) t
                  in notify (ECommand (r_commandCounter t)) MSG_PERSIST_UPDATE MSG_FIELD_OUTPUT t)
               else t)
      in case evaluate (env_keyMap (r_env t)) eof (curCommand t) of
           None \<Rightarrow> None
         | Some cur \<Rightarrow>
             (let t = upd_cur (\<lambda>_. cur) t;
                  t = notify (ECommand (r_commandCounter t)) MSG_PERSIST_UPDATE (MSG_FIELD_STATUS + MSG_FIELD_SCORE) t;
                  t = (if Suc (r_commandCounter t) < length (t_Commands t)
                       then t\<lparr>r_currentOutput := new_output, r_commandCounter := Suc (r_commandCounter t)\<rparr> else t)
              in Some (t, cur)))"

section \<open>The main loop\<close>

text \<open>How waiting for the prompt ended; a match without groups counts as an unexpected end.\<close>

datatype expect_obs = ExpectMatch | ExpectTimeout | ExpectEOF | ExpectNoGroups | ExpectErr string

text \<open>
  What happens around one command: the reactions to sending it, what the other goroutines do before
  the statistics are enabled, and until the wait for the prompt ends, the end of that wait, and what
  they do before the command is finished. \<open>o_wall\<close> is the clock.
\<close>

record 'a obs =
  o_send :: "send_obs list"
  o_sending :: "'a \<Rightarrow> 'a"
  o_running :: "'a \<Rightarrow> 'a"
  o_expect :: expect_obs
  o_wall :: TimeFixedPoint

text \<open>The loop goes on, or ends with the error \<open>err\<close> of \<open>Run\<close> (if any).\<close>

datatype 'a flow = Next 'a | Break 'a "string option"

definition stat_error_text :: "stat_error \<Rightarrow> string" where
  "stat_error_text e = (case e of monitorError m \<Rightarrow> m | otherError m \<Rightarrow> m)"

definition fail_command :: "'a RunTest_scheme \<Rightarrow> 'a RunTest_scheme" where
  "fail_command t =
     (upd_cur (\<lambda>c. c\<lparr>c_Status := COMMAND_STATUS_INCORRECT, c_PointsEarned := 0\<rparr>) t)\<lparr>r_allCorrect := False\<rparr>"

definition is_monitor_error :: "stat_error option \<Rightarrow> bool" where
  "is_monitor_error e \<longleftrightarrow> (case e of Some (monitorError _) \<Rightarrow> True | _ \<Rightarrow> False)"

text \<open>An end of the simulator during a command: was it to be expected?\<close>

definition shutdown_expected :: "bool \<Rightarrow> Command \<Rightarrow> bool" where
  "shutdown_expected isMonitorErr c \<longleftrightarrow>
     \<not> isMonitorErr \<and> c_Panic c \<noteq> CMD_OPT_NO \<or> c_TimesOut c \<noteq> CMD_OPT_NO \<and> c_TimedOut c"

text \<open>After the prompt (or an expected end): evaluate, account, and see whether the test goes on.\<close>

definition after_command :: "(string \<Rightarrow> string \<Rightarrow> string) \<Rightarrow> TimeFixedPoint \<Rightarrow> bool \<Rightarrow> 'a RunTest_scheme \<Rightarrow> 'a RunTest_scheme flow option" where
  "after_command hmac wall eof t =
     (case finishCurCommand hmac eof t of
        None \<Rightarrow> None
      | Some (t, cur) \<Rightarrow>
          (let t = (if c_Status cur = COMMAND_STATUS_INCORRECT then t\<lparr>r_allCorrect := False\<rparr> else t)
           in Some
             (if eof \<or> c_Panic cur \<noteq> CMD_OPT_NO \<or> c_TimesOut cur \<noteq> CMD_OPT_NO then
                Break (if c_Panic cur \<noteq> CMD_OPT_NO then addStatus wall ''shutdown'' ''panic expected'' t
                       else if c_TimesOut cur \<noteq> CMD_OPT_NO then addStatus wall ''shutdown'' ''timeout expected'' t
                       else t) None
              else if c_Status cur = COMMAND_STATUS_INCORRECT then
                (if t_ScoringMethod t = TEST_SCORING_ENTIRE
                 then Break (addStatus wall ''shutdown'' ''short-circuit'' t) None else Next t)
              else if t_ScoringMethod t = TEST_SCORING_PARTIAL
              then Next (t\<lparr>t_PointsEarned := t_PointsEarned t + c_PointsEarned cur\<rparr>)
              else Next t)))"

definition wait_prompt :: "(rat \<Rightarrow> string) \<Rightarrow> (string \<Rightarrow> string \<Rightarrow> string) \<Rightarrow> 'a RunTest_scheme obs \<Rightarrow>
    'a RunTest_scheme \<Rightarrow> 'a RunTest_scheme flow option" where
  "wait_prompt show_float hmac ob t0 =
     (let t = o_running ob t0; wall = o_wall ob
      in if c_PromptPattern (curCommand t0) = None then
           map_option (\<lambda>(t, _). Break t None) (finishCurCommand hmac False (addStatus wall ''shutdown'' ''normal shutdown'' t))
         else
           (let (t, statActive, statErr) = disableStats t; isMonitorErr = is_monitor_error statErr
            in if o_expect ob = ExpectTimeout then
                 Some (Break (fail_command (addStatus wall ''timeout''
                   (''no prompt for '' @ show_float (misc_PromptTimeout (t_Misc t)) @ '' s'') t)) None)
               else if o_expect ob = ExpectEOF \<or> o_expect ob = ExpectNoGroups \<or> isMonitorErr then
                 (if shutdown_expected isMonitorErr (curCommand t) then after_command hmac wall True t
                  else Some (Break (fail_command (addStatus wall ''shutdown'' ''unexpected shutdown'' t)) None))
               else
                 (case o_expect ob of
                    ExpectErr e \<Rightarrow> Some (Break (addStatus wall ''expect'' [] t) (Some e))
                  | _ \<Rightarrow> if \<not> statActive then Some (Break t (map_option stat_error_text statErr))
                        else after_command hmac wall False t)))"

text \<open>One round of the loop; the boot command (position 0) is not sent.\<close>

definition run_iter :: "(rat \<Rightarrow> string) \<Rightarrow> (string \<Rightarrow> string \<Rightarrow> string) \<Rightarrow> 'a RunTest_scheme obs \<Rightarrow>
    'a RunTest_scheme \<Rightarrow> 'a RunTest_scheme flow option" where
  "run_iter show_float hmac ob t =
     (if r_commandCounter t = 0 then wait_prompt show_float hmac ob t
      else
        (let t = upd_cur (\<lambda>c. c\<lparr>c_Status := COMMAND_STATUS_RUNNING, c_StartTime := t_SimTime t\<rparr>) t;
             t = notify (ECommand (r_commandCounter t)) MSG_PERSIST_UPDATE MSG_FIELD_STATUS t;
             r = sendCommand (t_Misc t) (in_Line (c_Input (curCommand t)) @ [CHR 0x0A]) (o_send ob);
             t = o_sending ob t
         in case r of
              None \<Rightarrow> None
            | Some (Inl e) \<Rightarrow> Some (Break (addStatus (o_wall ob) ''timeout'' ''couldn't send a command'' (fail_command t)) None)
            | Some (Inr _) \<Rightarrow>
                (let (t, statActive, statErr) = enableStats t
                 in if \<not> statActive \<and> statErr \<noteq> None then Some (Break t (map_option stat_error_text statErr))
                    else wait_prompt show_float hmac ob t)))"

fun run_loop :: "(rat \<Rightarrow> string) \<Rightarrow> (string \<Rightarrow> string \<Rightarrow> string) \<Rightarrow> 'a RunTest_scheme obs list \<Rightarrow>
    'a RunTest_scheme \<Rightarrow> ('a RunTest_scheme \<times> string option) option" where
  "run_loop show_float hmac [] t = (if r_commandCounter t < length (t_Commands t) then None else Some (t, None))"
| "run_loop show_float hmac (ob # obs) t =
     (if r_commandCounter t < length (t_Commands t) then
        (case run_iter show_float hmac ob t of
           None \<Rightarrow> None
         | Some (Break t err) \<Rightarrow> Some (t, err)
         | Some (Next t) \<Rightarrow> run_loop show_float hmac obs t)
      else Some (t, None))"

section \<open>The whole run\<close>

text \<open>The set-up steps that can fail, in order; \<open>None\<close> is success.\<close>

record setup_obs =
  so_tempdir :: "string option"
  so_copy :: "string option"
  so_kernel :: "string option"
  so_write :: "string option"
  so_conf :: "string option"
  so_disk1 :: "string option"
  so_disk2 :: "string option"
  so_start :: "string option"
  so_wall :: TimeFixedPoint

definition abort_run :: "TimeFixedPoint \<Rightarrow> string \<Rightarrow> 'a RunTest_scheme \<Rightarrow> 'a RunTest_scheme \<times> string option" where
  "abort_run wall err t = ((addStatus wall ''aborted'' [] t)\<lparr>t_Result := TEST_RESULT_ABORT\<rparr>, Some err)"

definition first_error :: "string option list \<Rightarrow> string option" where
  "first_error es = (case find (\<lambda>e. e \<noteq> None) es of Some e \<Rightarrow> e | None \<Rightarrow> None)"

definition start_run :: "'a RunTest_scheme \<Rightarrow> 'a RunTest_scheme" where
  "start_run t =
     (let t = t\<lparr>r_statRecord := True, r_commandCounter := 0\<rparr>
      in upd_cur (\<lambda>c. c\<lparr>c_Status := COMMAND_STATUS_RUNNING, c_StartTime := 0, c_Timeout := 0\<rparr>) t)"

text \<open>\<open>start161\<close> once the process runs.\<close>

definition started161 :: "'a RunTest_scheme \<Rightarrow> 'a RunTest_scheme" where
  "started161 t = t\<lparr>r_running := True, r_statActive := True\<rparr>"

definition finish_run :: "TimeFixedPoint \<Rightarrow> 'a RunTest_scheme \<Rightarrow> string option \<Rightarrow> ('a RunTest_scheme \<times> string option) option" where
  "finish_run wall t err =
     (let t = (if r_commandCounter t < length (t_Commands t)
               then t\<lparr>t_Commands := take (Suc (r_commandCounter t)) (t_Commands t)\<rparr> else t)
      in case err of
           None \<Rightarrow> map_option (\<lambda>t. (stop161 wall t, None)) (finishAndEvaluate wall t)
         | Some e \<Rightarrow> Some (stop161 wall (t\<lparr>t_Result := TEST_RESULT_ABORT\<rparr>), Some e))"

definition run_body :: "(rat \<Rightarrow> string) \<Rightarrow> (string \<Rightarrow> string \<Rightarrow> string) \<Rightarrow> setup_obs \<Rightarrow> 'a RunTest_scheme obs list \<Rightarrow>
    'a RunTest_scheme \<Rightarrow> ('a RunTest_scheme \<times> string option) option" where
  "run_body show_float hmac so obs t =
     (case first_error [so_tempdir so, so_copy so, so_kernel so] of
        Some e \<Rightarrow> Some (abort_run (so_wall so) e t)
      | None \<Rightarrow>
          (let t = t\<lparr>t_ConfString := PrintConf t\<rparr>
           in case first_error
                ([so_write so, so_conf so] @
                 (if dk_Enabled (sys_Disk1 (t_Sys161 t)) = ''true'' then [so_disk1 so] else []) @
                 (if dk_Enabled (sys_Disk2 (t_Sys161 t)) = ''true'' then [so_disk2 so] else [])) of
                Some e \<Rightarrow> Some (abort_run (so_wall so) e t)
              | None \<Rightarrow>
                  if t_Commands t = [] then None
                  else
                    (let t = start_run t
                     in case so_start so of
                          Some e \<Rightarrow> Some (abort_run (so_wall so) e t)
                        | None \<Rightarrow>
                            (let t = addStatus (so_wall so) ''started'' [] (started161 t);
                                 t = t\<lparr>r_currentOutput := new_output, r_allCorrect := True, t_Result := TEST_RESULT_RUNNING\<rparr>;
                                 t = notify ETest MSG_PERSIST_UPDATE MSG_FIELD_STATUS t;
                                 t = notify (ECommand 0) MSG_PERSIST_UPDATE MSG_FIELD_STATUS t
                             in case run_loop show_float hmac obs t of
                                  None \<Rightarrow> None
                                | Some (t, err) \<Rightarrow> finish_run (so_wall so) t err))))"

definition Run :: "(rat \<Rightarrow> string) \<Rightarrow> (string \<Rightarrow> string \<Rightarrow> string) \<Rightarrow> (RunTest \<Rightarrow> string + RunTest) \<Rightarrow>
    (Command \<Rightarrow> (string + Command) option) \<Rightarrow> setup_obs \<Rightarrow> RunTest obs list \<Rightarrow> TestEnvironment \<Rightarrow> RunTest \<Rightarrow>
    (RunTest \<times> string option) option" where
  "Run show_float hmac merge_conf inst so obs env t =
     (let t = t\<lparr>r_env := env, r_salts := []\<rparr>;
          r = (case MergeAllDefaults merge_conf inst t of
                 None \<Rightarrow> None
               | Some (Inl e) \<Rightarrow> Some (abort_run (so_wall so) e t)
               | Some (Inr t) \<Rightarrow> run_body show_float hmac so obs t)
      in map_option (\<lambda>(t, err). (notify ETest MSG_PERSIST_COMPLETE 0 t, err)) r)"

section \<open>What a run decides\<close>

text \<open>
  What the verdict depends on: the position, the verdict so far, the points, and of each command its
  status, its points, its prompt, and whether the test goes on after it (it may neither panic nor
  time out). The other goroutines leave this part alone.
\<close>

type_synonym grade = "CommandStatus \<times> uint \<times> string option \<times> bool"

definition goes_on :: "Command \<Rightarrow> bool" where
  "goes_on c \<longleftrightarrow> c_Panic c = CMD_OPT_NO \<and> c_TimesOut c = CMD_OPT_NO"

definition grade_of :: "Command \<Rightarrow> grade" where
  "grade_of c = (c_Status c, c_PointsEarned c, c_PromptPattern c, goes_on c)"

definition run_view :: "'a RunTest_scheme \<Rightarrow> nat \<times> bool \<times> uint \<times> string \<times> grade list" where
  "run_view t = (r_commandCounter t, r_allCorrect t, t_PointsEarned t, t_ScoringMethod t, map grade_of (t_Commands t))"

text \<open>The points of the correct commands among the first ones, without one that may end the test.\<close>

definition counted :: "grade list \<Rightarrow> uint" where
  "counted gs = sum_list (map (\<lambda>(s, p, _, more). if s = COMMAND_STATUS_CORRECT \<and> more then p else 0) gs)"

definition judged :: "grade list \<Rightarrow> bool" where
  "judged gs \<longleftrightarrow> (\<forall>g\<in>set gs. fst g = COMMAND_STATUS_CORRECT \<or> fst g = COMMAND_STATUS_INCORRECT)"

definition no_failure :: "grade list \<Rightarrow> bool" where
  "no_failure gs \<longleftrightarrow> (\<forall>g\<in>set gs. fst g \<noteq> COMMAND_STATUS_INCORRECT)"

text \<open>Only the last command has no prompt (\<open>initCommands_wellformed\<close>).\<close>

definition prompts_ok :: "grade list \<Rightarrow> bool" where
  "prompts_ok gs \<longleftrightarrow> (\<forall>j<length gs. fst (snd (snd (gs ! j))) = None \<longleftrightarrow> Suc j = length gs)"

text \<open>Before a round all the commands behind are judged, and none ahead is incorrect yet.\<close>

definition view_inv :: "nat \<times> bool \<times> uint \<times> string \<times> grade list \<Rightarrow> bool" where
  "view_inv = (\<lambda>(n, ok, earned, scoring, gs).
     n < length gs \<and> prompts_ok gs \<and> judged (take n gs) \<and> (ok \<longleftrightarrow> no_failure (take n gs)) \<and> no_failure (drop n gs) \<and>
     earned = (if scoring = TEST_SCORING_PARTIAL then counted (take n gs) else 0))"

text \<open>
  At the end: only the last command, the one without a prompt, can have failed without being noticed.
\<close>

definition view_end :: "nat \<times> bool \<times> uint \<times> string \<times> grade list \<Rightarrow> bool" where
  "view_end = (\<lambda>(n, ok, earned, scoring, gs).
     n < length gs \<and> judged (take n gs) \<and>
     (ok \<longrightarrow> no_failure (take n gs) \<and> (\<forall>g\<in>set (drop n gs). fst g = COMMAND_STATUS_INCORRECT \<longrightarrow> fst (snd (snd g)) = None)) \<and>
     (\<not> ok \<longrightarrow> \<not> no_failure (take (Suc n) gs)) \<and>
     earned = (if scoring = TEST_SCORING_PARTIAL then counted (take n gs) else 0))"

lemma no_failure_append: "no_failure (as @ bs) \<longleftrightarrow> no_failure as \<and> no_failure bs"
  by (auto simp: no_failure_def)

lemma no_failure_take_mono: "no_failure (take (Suc n) gs) \<Longrightarrow> no_failure (take n gs)"
  by (metis append_take_drop_id min.absorb1 le_Suc_eq no_failure_append take_take le_refl)

lemma view_inv_end:
  assumes "view_inv v"
  shows "view_end v"
proof -
  obtain n ok e sc gs where v: "v = (n, ok, e, sc, gs)" by (cases v)
  have "no_failure (drop n gs)" using assms by (simp add: v view_inv_def)
  then have "\<forall>g\<in>set (drop n gs). fst g \<noteq> COMMAND_STATUS_INCORRECT" by (simp add: no_failure_def)
  with assms no_failure_take_mono [of n gs] show ?thesis by (auto simp: v view_inv_def view_end_def)
qed

text \<open>The last command has no prompt, and its grade is not looked at.\<close>

lemma view_end_last:
  assumes "view_inv (n, ok, e, sc, gs)" and "Suc n = length gs" and "fst (snd (snd g)) = None"
  shows "view_end (n, ok, e, sc, gs[n := g])"
proof -
  have "drop n (gs[n := g]) = [g]" using assms(2) by (simp add: Cons_nth_drop_Suc [symmetric])
  moreover have "take n (gs[n := g]) = take n gs" by simp
  moreover have "\<not> no_failure (take n gs) \<Longrightarrow> \<not> no_failure (take (Suc n) (gs[n := g]))"
    using no_failure_take_mono [of n "gs[n := g]"] by (metis take_update_cancel order.refl)
  ultimately show ?thesis using assms by (simp add: view_inv_def view_end_def)
qed

lemma run_view_simps [simp]:
  "run_view (addStatus wall s m t) = run_view t"
  "run_view (notify e msg what t) = run_view t"
  "run_view (fst (enableStats t)) = run_view t"
  "run_view (fst (disableStats t)) = run_view t"
  "run_view (outputLineComplete hmac t) = run_view t"
  "run_view (t\<lparr>r_currentOutput := out\<rparr>) = run_view t"
  by (simp_all add: run_view_def addStatus_def notify_def enableStats_def disableStats_def outputLineComplete_def Let_def
      split: option.split)

lemma run_view_upd:
  "run_view (upd_cur f t) = (r_commandCounter t, r_allCorrect t, t_PointsEarned t, t_ScoringMethod t,
     (map grade_of (t_Commands t))[r_commandCounter t := grade_of (f (curCommand t))])"
  by (simp add: run_view_def upd_cur_def map_update)

lemma run_view_upd_same:
  assumes "grade_of (f (curCommand t)) = grade_of (curCommand t)"
  shows "run_view (upd_cur f t) = run_view t"
proof -
  have "(map grade_of (t_Commands t))[r_commandCounter t := grade_of (curCommand t)] = map grade_of (t_Commands t)"
    unfolding map_update [symmetric] by (simp add: curCommand_def)
  then show ?thesis by (simp add: run_view_upd assms) (simp add: run_view_def)
qed

lemma no_failure_drop:
  "n < length gs \<Longrightarrow> no_failure (drop n gs) \<longleftrightarrow> fst (gs ! n) \<noteq> COMMAND_STATUS_INCORRECT \<and> no_failure (drop (Suc n) gs)"
  by (simp add: Cons_nth_drop_Suc [symmetric] no_failure_def)

lemma view_inv_update:
  assumes "view_inv (n, ok, earned, scoring, gs)" and "fst (snd (snd g)) = fst (snd (snd (gs ! n)))"
    and "fst g \<noteq> COMMAND_STATUS_INCORRECT"
  shows "view_inv (n, ok, earned, scoring, gs[n := g])"
  using assms by (auto simp: view_inv_def prompts_ok_def nth_list_update no_failure_drop)

lemma evaluate_prompt:
  "evaluate keyMap eof c = Some c' \<Longrightarrow> c_PromptPattern c' = c_PromptPattern c \<and> goes_on c' = goes_on c"
  by (erule evaluate_cases) (auto simp: goes_on_def)

text \<open>Finishing a command that is not the last one moves on.\<close>

lemma finishCurCommand_view:
  assumes "finishCurCommand hmac eof t = Some (t', cur)" and "r_commandCounter t < length (t_Commands t)"
  shows "run_view t' = ((if Suc (r_commandCounter t) < length (t_Commands t) then Suc (r_commandCounter t) else r_commandCounter t),
      r_allCorrect t, t_PointsEarned t, t_ScoringMethod t,
      (map grade_of (t_Commands t))[r_commandCounter t := grade_of cur]) \<and>
    c_PromptPattern cur = c_PromptPattern (curCommand t) \<and> goes_on cur = goes_on (curCommand t)"
proof -
  define t1 where "t1 = upd_cur (\<lambda>c. c\<lparr>c_EndTime := t_SimTime t\<rparr>) t"
  define out where "out = r_currentOutput t1"
  define t2 where "t2 = (if ol_WallTime out \<noteq> 0 then
                 (let t = outputLineComplete hmac (t1\<lparr>r_currentOutput := out\<lparr>ol_Line := ol_Buffer out\<rparr>\<rparr>);
                      t = upd_cur (\<lambda>c. c\<lparr>c_Output := c_Output c @ [r_currentOutput t]\<rparr>) t
                  in notify (ECommand (r_commandCounter t)) MSG_PERSIST_UPDATE MSG_FIELD_OUTPUT t)
               else t1)"
  have "run_view t1 = run_view t" unfolding t1_def by (rule run_view_upd_same) (simp add: grade_of_def goes_on_def)
  moreover have "run_view t2 = run_view t1"
    unfolding t2_def Let_def by (auto simp: run_view_upd_same grade_of_def goes_on_def)
  ultimately have v2: "run_view t2 = run_view t" by simp
  from assms(1) obtain ev: "evaluate (env_keyMap (r_env t2)) eof (curCommand t2) = Some cur"
    and t': "t' = (let t = upd_cur (\<lambda>_. cur) t2;
                  t = notify (ECommand (r_commandCounter t)) MSG_PERSIST_UPDATE (MSG_FIELD_STATUS + MSG_FIELD_SCORE) t
              in (if Suc (r_commandCounter t) < length (t_Commands t)
                       then t\<lparr>r_currentOutput := new_output, r_commandCounter := Suc (r_commandCounter t)\<rparr> else t))"
    unfolding finishCurCommand_def Let_def t1_def [symmetric] out_def [symmetric] t2_def [symmetric, unfolded Let_def]
    by (auto split: option.splits)
  from v2 have same: "r_commandCounter t2 = r_commandCounter t" "r_allCorrect t2 = r_allCorrect t"
    "t_PointsEarned t2 = t_PointsEarned t" "t_ScoringMethod t2 = t_ScoringMethod t"
    "map grade_of (t_Commands t2) = map grade_of (t_Commands t)"
    by (simp_all add: run_view_def)
  from same(5) have len: "length (t_Commands t2) = length (t_Commands t)" using map_eq_imp_length_eq by blast
  have "grade_of (curCommand t2) = grade_of (curCommand t)"
    unfolding curCommand_def same(1) using same(5) assms(2) len by (metis nth_map)
  with evaluate_prompt [OF ev] have "c_PromptPattern cur = c_PromptPattern (curCommand t) \<and> goes_on cur = goes_on (curCommand t)"
    by (simp add: grade_of_def)
  moreover have "run_view t' = ((if Suc (r_commandCounter t) < length (t_Commands t) then Suc (r_commandCounter t) else r_commandCounter t),
      r_allCorrect t, t_PointsEarned t, t_ScoringMethod t,
      (map grade_of (t_Commands t))[r_commandCounter t := grade_of cur])"
    unfolding t' Let_def using same len
    by (simp add: run_view_def notify_def upd_cur_def map_update)
  ultimately show ?thesis by blast
qed

lemma counted_snoc: "n < length gs \<Longrightarrow> counted (take (Suc n) gs) =
    counted (take n gs) + (if fst (gs ! n) = COMMAND_STATUS_CORRECT \<and> snd (snd (snd (gs ! n))) then fst (snd (gs ! n)) else 0)"
  by (simp add: counted_def take_Suc_conv_app_nth case_prod_beta)

lemma no_failure_snoc: "n < length gs \<Longrightarrow> no_failure (take (Suc n) gs) \<longleftrightarrow> no_failure (take n gs) \<and> fst (gs ! n) \<noteq> COMMAND_STATUS_INCORRECT"
  by (auto simp: no_failure_def take_Suc_conv_app_nth)

lemma judged_snoc: "n < length gs \<Longrightarrow> judged (take (Suc n) gs) \<longleftrightarrow> judged (take n gs) \<and>
    (fst (gs ! n) = COMMAND_STATUS_CORRECT \<or> fst (gs ! n) = COMMAND_STATUS_INCORRECT)"
  by (auto simp: judged_def take_Suc_conv_app_nth)

lemma evaluate_status: "evaluate keyMap eof c = Some c' \<Longrightarrow> c_Status c' = COMMAND_STATUS_CORRECT \<or> c_Status c' = COMMAND_STATUS_INCORRECT"
  by (erule evaluate_cases) auto

lemma finishCurCommand_status:
  "finishCurCommand hmac eof t = Some (t', cur) \<Longrightarrow> c_Status cur = COMMAND_STATUS_CORRECT \<or> c_Status cur = COMMAND_STATUS_INCORRECT"
  by (auto simp: finishCurCommand_def Let_def dest: evaluate_status split: option.splits)

text \<open>The state of a run between two rounds and at its end.\<close>

definition flow_ok :: "'a RunTest_scheme flow \<Rightarrow> bool" where
  "flow_ok fl = (case fl of Next t \<Rightarrow> view_inv (run_view t) | Break t e \<Rightarrow> view_end (run_view t))"

lemma after_command_ok:
  assumes ac: "after_command hmac wall eof t = Some fl" and inv: "view_inv (run_view t)"
    and prompt: "c_PromptPattern (curCommand t) \<noteq> None"
    and eof: "eof \<longrightarrow> \<not> goes_on (curCommand t)"
  shows "flow_ok fl"
proof -
  let ?n = "r_commandCounter t"
  let ?gs = "map grade_of (t_Commands t)"
  have n: "?n < length (t_Commands t)" and po: "prompts_ok ?gs" and nf: "r_allCorrect t \<longleftrightarrow> no_failure (take ?n ?gs)"
    and jd: "judged (take ?n ?gs)" and ahead: "no_failure (drop ?n ?gs)"
    and earned: "t_PointsEarned t = (if t_ScoringMethod t = TEST_SCORING_PARTIAL then counted (take ?n ?gs) else 0)"
    using inv by (auto simp: run_view_def view_inv_def)
  have next_n: "Suc ?n < length (t_Commands t)"
    using po n prompt by (auto simp: prompts_ok_def curCommand_def grade_of_def)
  obtain u cur where fin: "finishCurCommand hmac eof t = Some (u, cur)"
    using ac by (auto simp: after_command_def split: option.splits)
  let ?gs' = "?gs[?n := grade_of cur]"
  from finishCurCommand_view [OF fin n] next_n
  have u: "run_view u = (Suc ?n, r_allCorrect t, t_PointsEarned t, t_ScoringMethod t, ?gs')"
    and cp: "c_PromptPattern cur = c_PromptPattern (curCommand t)" "goes_on cur = goes_on (curCommand t)" by auto
  have po': "prompts_ok ?gs'" using po cp n by (auto simp: prompts_ok_def nth_list_update grade_of_def curCommand_def)
  have cnt: "counted (take (Suc ?n) ?gs') = counted (take ?n ?gs) + (if c_Status cur = COMMAND_STATUS_CORRECT \<and> goes_on cur then c_PointsEarned cur else 0)"
    using counted_snoc [of ?n ?gs'] n by (simp add: grade_of_def)
  have nf': "no_failure (take (Suc ?n) ?gs') \<longleftrightarrow> no_failure (take ?n ?gs) \<and> c_Status cur \<noteq> COMMAND_STATUS_INCORRECT"
    using no_failure_snoc [of ?n ?gs'] n by (simp add: grade_of_def)
  have jd': "judged (take (Suc ?n) ?gs')"
    using judged_snoc [of ?n ?gs'] jd n finishCurCommand_status [OF fin] by (simp add: grade_of_def)
  have ahead': "no_failure (drop (Suc ?n) ?gs')" using ahead n no_failure_drop [of ?n ?gs] by simp
  have from_u: "r_commandCounter u = Suc ?n" "r_allCorrect u = r_allCorrect t" "t_PointsEarned u = t_PointsEarned t"
    "t_ScoringMethod u = t_ScoringMethod t" "map grade_of (t_Commands u) = ?gs'"
    using u by (simp_all add: run_view_def)
  define ok where "ok = (r_allCorrect t \<and> c_Status cur \<noteq> COMMAND_STATUS_INCORRECT)"
  have ok: "ok \<longleftrightarrow> no_failure (take (Suc ?n) ?gs')" using nf nf' by (simp add: ok_def)
  define v where "v = (if c_Status cur = COMMAND_STATUS_INCORRECT then u\<lparr>r_allCorrect := False\<rparr> else u)"
  have v: "run_view v = (Suc ?n, ok, t_PointsEarned t, t_ScoringMethod t, ?gs')" "t_ScoringMethod v = t_ScoringMethod t"
    "t_PointsEarned v = t_PointsEarned t"
    using from_u by (auto simp: v_def run_view_def ok_def)
  have inv': "view_inv (Suc ?n, ok, e, t_ScoringMethod t, ?gs')"
    if "e = (if t_ScoringMethod t = TEST_SCORING_PARTIAL then counted (take (Suc ?n) ?gs') else 0)" for e
    using next_n po' jd' ok ahead' that by (simp add: view_inv_def)
  have fl: "fl = (if eof \<or> c_Panic cur \<noteq> CMD_OPT_NO \<or> c_TimesOut cur \<noteq> CMD_OPT_NO then
                Break (if c_Panic cur \<noteq> CMD_OPT_NO then addStatus wall ''shutdown'' ''panic expected'' v
                       else if c_TimesOut cur \<noteq> CMD_OPT_NO then addStatus wall ''shutdown'' ''timeout expected'' v
                       else v) None
              else if c_Status cur = COMMAND_STATUS_INCORRECT then
                (if t_ScoringMethod v = TEST_SCORING_ENTIRE
                 then Break (addStatus wall ''shutdown'' ''short-circuit'' v) None else Next v)
              else if t_ScoringMethod v = TEST_SCORING_PARTIAL
              then Next (v\<lparr>t_PointsEarned := t_PointsEarned v + c_PointsEarned cur\<rparr>)
              else Next v)"
    using ac unfolding after_command_def fin option.case prod.case Let_def v_def [symmetric] by simp
  have stay: "view_inv (run_view v)"
    if "c_Status cur = COMMAND_STATUS_INCORRECT \<or> t_ScoringMethod t \<noteq> TEST_SCORING_PARTIAL \<or> \<not> goes_on cur"
    unfolding v(1) by (rule inv') (use earned cnt that in auto)
  have add: "view_inv (run_view (v\<lparr>t_PointsEarned := t_PointsEarned v + c_PointsEarned cur\<rparr>))"
    if "c_Status cur \<noteq> COMMAND_STATUS_INCORRECT" "t_ScoringMethod t = TEST_SCORING_PARTIAL" "goes_on cur"
  proof -
    have "c_Status cur = COMMAND_STATUS_CORRECT" using finishCurCommand_status [OF fin] that by simp
    moreover have "run_view (v\<lparr>t_PointsEarned := t_PointsEarned v + c_PointsEarned cur\<rparr>) =
        (Suc ?n, ok, t_PointsEarned t + c_PointsEarned cur, t_ScoringMethod t, ?gs')"
      using v by (simp add: run_view_def)
    moreover have "view_inv (Suc ?n, ok, t_PointsEarned t + c_PointsEarned cur, t_ScoringMethod t, ?gs')"
      by (rule inv') (use earned cnt that calculation(1) in auto)
    ultimately show ?thesis by simp
  qed
  show ?thesis
  proof (cases "goes_on cur")
    case True
    with eof cp have "\<not> eof" "c_Panic cur = CMD_OPT_NO" "c_TimesOut cur = CMD_OPT_NO" by (auto simp: goes_on_def)
    with True stay add v show ?thesis unfolding fl flow_ok_def by (auto intro: view_inv_end)
  next
    case False
    then have "c_Panic cur \<noteq> CMD_OPT_NO \<or> c_TimesOut cur \<noteq> CMD_OPT_NO" by (simp add: goes_on_def)
    moreover have "view_end (run_view v)" using stay False by (intro view_inv_end) simp
    ultimately show ?thesis unfolding fl flow_ok_def by auto
  qed
qed

lemma fail_command_view:
  assumes "view_inv (run_view t)"
  shows "view_end (run_view (fail_command t))"
proof -
  let ?n = "r_commandCounter t"
  have n: "?n < length (t_Commands t)" using assms by (simp add: run_view_def view_inv_def)
  then have "\<not> no_failure (take (Suc ?n) ((map grade_of (t_Commands t))[?n := (COMMAND_STATUS_INCORRECT, x)]))" for x
    by (simp add: no_failure_snoc)
  then show ?thesis using assms n
    by (auto simp: fail_command_def run_view_def upd_cur_def map_update view_inv_def view_end_def grade_of_def curCommand_def)
qed

lemma run_view_cong: "run_view s = run_view t \<Longrightarrow>
   r_commandCounter s = r_commandCounter t \<and> length (t_Commands s) = length (t_Commands t) \<and>
   (r_commandCounter t < length (t_Commands t) \<longrightarrow> c_PromptPattern (curCommand s) = c_PromptPattern (curCommand t) \<and>
     goes_on (curCommand s) = goes_on (curCommand t))"
proof -
  assume v: "run_view s = run_view t"
  then have same: "r_commandCounter s = r_commandCounter t" "map grade_of (t_Commands s) = map grade_of (t_Commands t)"
    by (simp_all add: run_view_def)
  then have len: "length (t_Commands s) = length (t_Commands t)" using map_eq_imp_length_eq by blast
  have "grade_of (curCommand s) = grade_of (curCommand t)" if "r_commandCounter t < length (t_Commands t)"
    unfolding curCommand_def same(1) using same(2) that len by (metis nth_map)
  with same len show ?thesis by (auto simp: grade_of_def)
qed

lemma addStatus_scoring: "t_ScoringMethod (addStatus wall s m t) = t_ScoringMethod t \<and> t_Commands (addStatus wall s m t) = t_Commands t"
  by (simp add: addStatus_def notify_def)

lemma wait_prompt_ok:
  assumes wp: "wait_prompt show_float hmac ob t0 = Some fl" and inv: "view_inv (run_view t0)"
    and quiet: "run_view (o_running ob t0) = run_view t0"
  shows "flow_ok fl"
proof -
  let ?t = "o_running ob t0"
  have inv1: "view_inv (run_view ?t)" using inv quiet by simp
  have n: "r_commandCounter t0 < length (t_Commands t0)" using inv by (auto simp: run_view_def view_inv_def)
  note same = run_view_cong [OF quiet]
  show ?thesis
  proof (cases "c_PromptPattern (curCommand t0) = None")
    case True
    let ?s = "addStatus (o_wall ob) ''shutdown'' ''normal shutdown'' ?t"
    from wp True obtain u cur where fin: "finishCurCommand hmac False ?s = Some (u, cur)" and fl: "fl = Break u None"
      by (auto simp: wait_prompt_def Let_def)
    have sn: "r_commandCounter ?s < length (t_Commands ?s)" using n same by simp
    have "c_PromptPattern (curCommand ?s) = None" using True n same run_view_cong [of ?s ?t] by simp
    then have last_one: "Suc (r_commandCounter ?t) = length (t_Commands ?t)"
      using inv1 sn by (auto simp: run_view_def view_inv_def prompts_ok_def grade_of_def curCommand_def)
    from inv1 have "view_inv (r_commandCounter ?t, r_allCorrect ?t, t_PointsEarned ?t, t_ScoringMethod ?t, map grade_of (t_Commands ?t))"
      by (simp add: run_view_def)
    moreover have "Suc (r_commandCounter ?t) = length (map grade_of (t_Commands ?t))" using last_one by simp
    moreover have "fst (snd (snd (grade_of cur))) = None"
      using finishCurCommand_view [OF fin sn] \<open>c_PromptPattern (curCommand ?s) = None\<close> by (simp add: grade_of_def)
    ultimately have "view_end (r_commandCounter ?t, r_allCorrect ?t, t_PointsEarned ?t, t_ScoringMethod ?t,
        (map grade_of (t_Commands ?t))[r_commandCounter ?t := grade_of cur])"
      by (rule view_end_last)
    moreover have "run_view u = (r_commandCounter ?s, r_allCorrect ?s, t_PointsEarned ?s, t_ScoringMethod ?s,
        (map grade_of (t_Commands ?s))[r_commandCounter ?s := grade_of cur])"
      using finishCurCommand_view [OF fin sn] last_one by simp
    ultimately have "view_end (run_view u)" by (simp add: addStatus_scoring)
    then show ?thesis by (simp add: fl flow_ok_def)
  next
    case False
    obtain u active serr where d: "disableStats ?t = (u, active, serr)" by (cases "disableStats ?t")
    have vu: "run_view u = run_view t0" using quiet run_view_simps(4) [of ?t] d by simp
    have invu: "view_inv (run_view u)" using inv vu by simp
    have pu: "c_PromptPattern (curCommand u) \<noteq> None" using run_view_cong [OF vu] n False by simp
    have exp: "shutdown_expected b (curCommand u) \<Longrightarrow> \<not> goes_on (curCommand u)" for b
      by (auto simp: shutdown_expected_def goes_on_def)
    have fails: "view_end (run_view (fail_command (addStatus w s m u)))" for w s m
      using fail_command_view [of "addStatus w s m u"] invu by simp
    show ?thesis
      using wp False fails view_inv_end [OF invu] after_command_ok [OF _ invu pu]
      unfolding wait_prompt_def Let_def d
      by (auto simp: flow_ok_def dest: exp split: if_splits expect_obs.splits)
  qed
qed

lemma run_iter_ok:
  assumes ri: "run_iter show_float hmac ob t = Some fl" and inv: "view_inv (run_view t)"
    and quiet: "\<And>t. run_view (o_sending ob t) = run_view t" "\<And>t. run_view (o_running ob t) = run_view t"
  shows "flow_ok fl"
proof (cases "r_commandCounter t = 0")
  case True
  with ri have "wait_prompt show_float hmac ob t = Some fl" by (simp add: run_iter_def)
  then show ?thesis by (rule wait_prompt_ok [OF _ inv quiet(2)])
next
  case False
  define t1 where "t1 = upd_cur (\<lambda>c. c\<lparr>c_Status := COMMAND_STATUS_RUNNING, c_StartTime := t_SimTime t\<rparr>) t"
  define t2 where "t2 = notify (ECommand (r_commandCounter t1)) MSG_PERSIST_UPDATE MSG_FIELD_STATUS t1"
  define u where "u = o_sending ob t2"
  have "view_inv (run_view t1)"
    unfolding t1_def run_view_upd using inv
    by (intro view_inv_update [where ok = "r_allCorrect t"])
      (auto simp: run_view_def view_inv_def grade_of_def curCommand_def)
  then have invu: "view_inv (run_view u)" by (simp add: u_def t2_def quiet)
  obtain w active serr where en: "enableStats u = (w, active, serr)" by (cases "enableStats u")
  have vw: "run_view w = run_view u" using run_view_simps(3) [of u] en by simp
  then have invw: "view_inv (run_view w)" using invu by simp
  have fails: "view_end (run_view (addStatus a b c (fail_command u)))" for a b c
    using fail_command_view [OF invu] by simp
  obtain r where r: "sendCommand (t_Misc t2) (in_Line (c_Input (curCommand t2)) @ [CHR 0x0A]) (o_send ob) = r" by blast
  have eq: "(case r of None \<Rightarrow> None
      | Some (Inl e) \<Rightarrow> Some (Break (addStatus (o_wall ob) ''timeout'' ''couldn't send a command'' (fail_command u)) None)
      | Some (Inr _) \<Rightarrow> (if \<not> active \<and> serr \<noteq> None then Some (Break w (map_option stat_error_text serr))
          else wait_prompt show_float hmac ob w)) = Some fl"
    using ri False unfolding run_iter_def Let_def t1_def [symmetric] t2_def [symmetric] r u_def [symmetric] en prod.case
    by simp
  show ?thesis
  proof (cases r)
    case None
    with eq show ?thesis by simp
  next
    case (Some x)
    show ?thesis
    proof (cases x)
      case (Inl e)
      with eq Some fails show ?thesis by (auto simp: flow_ok_def)
    next
      case (Inr y)
      with eq Some wait_prompt_ok [OF _ invw quiet(2)] view_inv_end [OF invw]
      show ?thesis by (auto simp: flow_ok_def split: if_splits)
    qed
  qed
qed

lemma run_loop_ok:
  "run_loop show_float hmac obs t = Some (t', err) \<Longrightarrow> view_inv (run_view t) \<Longrightarrow>
   (\<And>ob s. ob \<in> set obs \<Longrightarrow> run_view (o_sending ob s) = run_view s \<and> run_view (o_running ob s) = run_view s) \<Longrightarrow>
   view_end (run_view t')"
proof (induction obs arbitrary: t)
  case Nil
  then show ?case by (auto intro: view_inv_end split: if_splits)
next
  case (Cons ob obs)
  show ?case
  proof (cases "r_commandCounter t < length (t_Commands t)")
    case False
    then show ?thesis using Cons.prems by (auto intro: view_inv_end)
  next
    case True
    then obtain fl where fl: "run_iter show_float hmac ob t = Some fl" using Cons.prems(1) by (auto split: option.splits)
    have ok: "flow_ok fl" using run_iter_ok [OF fl Cons.prems(2)] Cons.prems(3) by simp
    show ?thesis
    proof (cases fl)
      case (Next u)
      with Cons.prems(1) True fl have "run_loop show_float hmac obs u = Some (t', err)" by simp
      moreover have "view_inv (run_view u)" using ok Next by (simp add: flow_ok_def)
      ultimately show ?thesis using Cons.IH Cons.prems(3) by simp
    next
      case (Break u e)
      with Cons.prems(1) True fl ok show ?thesis by (simp add: flow_ok_def)
    qed
  qed
qed

text \<open>
  C1. The verdict of a run. When the loop over the commands ends at the position \<open>n\<close>: if the flag "all
  correct" is still set, every command before \<open>n\<close> was graded correct, and no command with a prompt is
  incorrect (the last command, which has no prompt, is graded but its grade is not looked at); if the
  flag is cleared, a command up to \<open>n\<close> is incorrect. Under partial scoring the points of the test are
  exactly the points of the correct commands before \<open>n\<close> that may neither panic nor time out (one that
  may ends the test and is not counted); otherwise they are 0 so far. The other goroutines may do
  anything that leaves the grades alone.
\<close>

theorem run_verdict:
  assumes run: "run_loop show_float hmac obs t = Some (t', err)"
    and start: "r_commandCounter t = 0" "t_Commands t \<noteq> []" "t_PointsEarned t = 0" "r_allCorrect t"
      "prompts_ok (map grade_of (t_Commands t))" "\<forall>c\<in>set (t_Commands t). c_Status c \<noteq> COMMAND_STATUS_INCORRECT"
    and quiet: "\<And>ob s. ob \<in> set obs \<Longrightarrow> run_view (o_sending ob s) = run_view s \<and> run_view (o_running ob s) = run_view s"
  shows "r_commandCounter t' < length (t_Commands t') \<and>
    (r_allCorrect t' \<longrightarrow>
      (\<forall>c\<in>set (take (r_commandCounter t') (t_Commands t')). c_Status c = COMMAND_STATUS_CORRECT) \<and>
      (\<forall>c\<in>set (t_Commands t'). c_PromptPattern c \<noteq> None \<longrightarrow> c_Status c \<noteq> COMMAND_STATUS_INCORRECT)) \<and>
    (\<not> r_allCorrect t' \<longrightarrow>
      (\<exists>c\<in>set (take (Suc (r_commandCounter t')) (t_Commands t')). c_Status c = COMMAND_STATUS_INCORRECT)) \<and>
    t_PointsEarned t' =
      (if t_ScoringMethod t' = TEST_SCORING_PARTIAL
       then (\<Sum>c\<leftarrow>take (r_commandCounter t') (t_Commands t').
               if c_Status c = COMMAND_STATUS_CORRECT \<and> c_Panic c = CMD_OPT_NO \<and> c_TimesOut c = CMD_OPT_NO
               then c_PointsEarned c else 0)
       else 0)"
proof -
  let ?n = "r_commandCounter t'" and ?cs = "t_Commands t'"
  have "view_inv (run_view t)"
    using start by (auto simp: run_view_def view_inv_def no_failure_def counted_def judged_def grade_of_def)
  from run_loop_ok [OF run this quiet] have e: "view_end (run_view t')" by blast
  have sum: "counted (map grade_of cs) =
      (\<Sum>c\<leftarrow>cs. if c_Status c = COMMAND_STATUS_CORRECT \<and> c_Panic c = CMD_OPT_NO \<and> c_TimesOut c = CMD_OPT_NO
               then c_PointsEarned c else 0)" for cs
    by (simp add: counted_def comp_def grade_of_def goes_on_def)
  have cs: "set ?cs = set (take ?n ?cs) \<union> set (drop ?n ?cs)" by (metis append_take_drop_id set_append)
  show ?thesis using e unfolding cs
    by (auto simp: run_view_def view_end_def sum no_failure_def judged_def take_map drop_map grade_of_def)
qed

section \<open>The result of a test\<close>

text \<open>The points of the commands: all of the test or none, or those of its correct commands.\<close>

definition partial_sum :: "Command list \<Rightarrow> uint" where
  "partial_sum cs =
     (\<Sum>c\<leftarrow>cs. if c_Status c = COMMAND_STATUS_CORRECT \<and> c_Panic c = CMD_OPT_NO \<and> c_TimesOut c = CMD_OPT_NO
               then c_PointsEarned c else 0)"

definition command_points :: "'a RunTest_scheme \<Rightarrow> uint" where
  "command_points t =
     (if t_ScoringMethod t = TEST_SCORING_ENTIRE then (if t_Result t = TEST_RESULT_CORRECT then t_PointsAvailable t else 0)
      else if t_ScoringMethod t = TEST_SCORING_PARTIAL then partial_sum (butlast (t_Commands t)) else 0)"

text \<open>The last command that ran may only have failed if it has no prompt.\<close>

definition passed :: "Command list \<Rightarrow> bool" where
  "passed cs \<longleftrightarrow> (\<forall>c\<in>set (butlast cs). c_Status c = COMMAND_STATUS_CORRECT) \<and>
     (c_Status (last cs) = COMMAND_STATUS_INCORRECT \<longrightarrow> c_PromptPattern (last cs) = None)"

definition test_grade :: "'a RunTest_scheme \<Rightarrow> bool" where
  "test_grade t \<longleftrightarrow>
     (t_Result t = TEST_RESULT_CORRECT \<and> passed (t_Commands t) \<or>
      t_Result t = TEST_RESULT_INCORRECT \<and> (\<exists>c\<in>set (t_Commands t). c_Status c = COMMAND_STATUS_INCORRECT)) \<and>
     t_PointsEarned t = less_penalty t (command_points t)"

lemma abort_run_fields: "t_Result (fst (abort_run wall e t)) = TEST_RESULT_ABORT" "snd (abort_run wall e t) = Some e"
  by (simp_all add: abort_run_def)

lemma finish_run_grade:
  assumes fin: "finish_run wall t err = Some (t', err')" and e: "view_end (run_view t)"
  shows "err' = err \<and> (err \<noteq> None \<longrightarrow> t_Result t' = TEST_RESULT_ABORT) \<and>
    (err = None \<longrightarrow> test_grade t')"
proof (cases err)
  case (Some x)
  with fin show ?thesis by (auto simp: finish_run_def stop161_def Let_def)
next
  case None
  define cs where "cs = take (Suc (r_commandCounter t)) (t_Commands t)"
  have n: "r_commandCounter t < length (t_Commands t)" using e by (simp add: run_view_def view_end_def)
  define u where "u = t\<lparr>t_Commands := cs\<rparr>"
  from fin None n obtain v where v: "finishAndEvaluate wall u = Some v" and t': "t' = stop161 wall v" and err': "err' = None"
    by (auto simp: finish_run_def u_def cs_def Let_def)
  have cs: "cs = take (r_commandCounter t) (t_Commands t) @ [t_Commands t ! r_commandCounter t]"
    using n by (simp add: cs_def take_Suc_conv_app_nth)
  have last: "t_Commands t ! r_commandCounter t \<in> set (drop (r_commandCounter t) (t_Commands t))"
    using n by (metis Cons_nth_drop_Suc list.set_intros(1))
  have sum: "counted (map grade_of ds) = partial_sum ds" for ds
    by (simp add: counted_def comp_def grade_of_def goes_on_def partial_sum_def)
  have ok: "r_allCorrect t \<longrightarrow> passed cs" "\<not> r_allCorrect t \<longrightarrow> (\<exists>c\<in>set cs. c_Status c = COMMAND_STATUS_INCORRECT)"
    and earned: "t_PointsEarned t = (if t_ScoringMethod t = TEST_SCORING_PARTIAL then partial_sum (butlast cs) else 0)"
    using e n last unfolding cs
    by (auto simp: run_view_def view_end_def passed_def no_failure_def judged_def grade_of_def take_map drop_map
        take_Suc_conv_app_nth sum)
  have "test_grade v"
    using finishAndEvaluate_result [OF v] ok earned by (auto simp: test_grade_def command_points_def u_def)
  moreover have "test_grade (stop161 wall v) = test_grade v"
    by (simp add: test_grade_def command_points_def less_penalty_def leak_free_def stop161_def)
  ultimately show ?thesis using None err' t' by simp
qed

text \<open>The test when the loop begins.\<close>

definition loop_start :: "TimeFixedPoint \<Rightarrow> 'a RunTest_scheme \<Rightarrow> 'a RunTest_scheme" where
  "loop_start wall t =
     notify (ECommand 0) MSG_PERSIST_UPDATE MSG_FIELD_STATUS (notify ETest MSG_PERSIST_UPDATE MSG_FIELD_STATUS
       ((addStatus wall ''started'' [] (started161 (start_run t)))
         \<lparr>r_currentOutput := new_output, r_allCorrect := True, t_Result := TEST_RESULT_RUNNING\<rparr>))"

lemma run_body_cases:
  assumes "run_body show_float hmac so obs t = Some (t', err)"
  obtains (aborted) e u where "abort_run (so_wall so) e u = (t', err)"
    | (ran) conf u e where "t_Commands t \<noteq> []"
      "run_loop show_float hmac obs (loop_start (so_wall so) (t\<lparr>t_ConfString := conf\<rparr>)) = Some (u, e)"
      "finish_run (so_wall so) u e = Some (t', err)"
proof -
  let ?u = "t\<lparr>t_ConfString := PrintConf t\<rparr>"
  have body: "(\<exists>e u. abort_run (so_wall so) e u = (t', err)) \<or>
      (t_Commands t \<noteq> [] \<and> (case run_loop show_float hmac obs (loop_start (so_wall so) ?u) of
          None \<Rightarrow> None | Some (u, e) \<Rightarrow> finish_run (so_wall so) u e) = Some (t', err))"
    using assms unfolding run_body_def Let_def loop_start_def [symmetric]
    by (auto simp del: append.simps split: option.splits if_splits)
  then show thesis using aborted ran by (auto split: option.splits)
qed

lemma loop_start_inv:
  assumes "t_PointsEarned t = 0" "prompts_ok (map grade_of (t_Commands t))"
    "\<forall>c\<in>set (t_Commands t). c_Status c \<noteq> COMMAND_STATUS_INCORRECT" and "t_Commands t \<noteq> []"
  shows "view_inv (run_view (loop_start wall (t\<lparr>t_ConfString := conf\<rparr>)))"
proof -
  let ?gs = "map grade_of (t_Commands t)"
  have v: "view_inv (0, True, 0, t_ScoringMethod t, ?gs)"
    using assms by (auto simp: view_inv_def judged_def no_failure_def counted_def grade_of_def)
  define f :: "Command \<Rightarrow> Command" where "f = (\<lambda>c. c\<lparr>c_Status := COMMAND_STATUS_RUNNING, c_StartTime := 0, c_Timeout := 0\<rparr>)"
  define g where "g = grade_of (f (t_Commands t ! 0))"
  have g: "fst (snd (snd g)) = fst (snd (snd (?gs ! 0)))" "fst g \<noteq> COMMAND_STATUS_INCORRECT"
    using assms(4) by (simp_all add: g_def f_def grade_of_def)
  have flags: "run_view (u\<lparr>r_currentOutput := out, r_allCorrect := True, t_Result := r\<rparr>) =
      (r_commandCounter u, True, t_PointsEarned u, t_ScoringMethod u, map grade_of (t_Commands u))" for u :: "'a RunTest_scheme" and out r
    by (simp add: run_view_def)
  have u: "run_view (addStatus wall ''started'' [] (started161 (start_run (t\<lparr>t_ConfString := conf\<rparr>)))) =
      (0, r_allCorrect t, 0, t_ScoringMethod t, ?gs[0 := g])"
    using assms(1) by (simp add: run_view_def start_run_def started161_def upd_cur_def curCommand_def map_update g_def f_def Let_def
        addStatus_scoring)
  have view: "run_view (loop_start wall (t\<lparr>t_ConfString := conf\<rparr>)) = (0, True, 0, t_ScoringMethod t, ?gs[0 := g])"
    unfolding loop_start_def run_view_simps(2) flags using u by (simp add: run_view_def)
  from view_inv_update [OF v g] show ?thesis by (simp add: view)
qed

text \<open>
  C7. The result of a test. A run that ends with an error has the result "abort". One that ends without
  error is correct or incorrect. If it is correct, all commands it ran except the last were graded
  correct, and the last is not incorrect unless it has no prompt; if it is incorrect, one of the
  commands it ran is. Its points are: under entire scoring all that are available if it is correct
  and none otherwise, under partial scoring those of the correct commands before the last that may
  neither panic nor time out; less the penalty for a memory leak, if there is one and the \<open>khu\<close>
  readings are not clean, as far as the points reach.
\<close>

theorem run_grade:
  assumes run: "run_body show_float hmac so obs t = Some (t', err)"
    and start: "t_PointsEarned t = 0" "prompts_ok (map grade_of (t_Commands t))"
      "\<forall>c\<in>set (t_Commands t). c_Status c \<noteq> COMMAND_STATUS_INCORRECT"
    and quiet: "\<And>ob s. ob \<in> set obs \<Longrightarrow> run_view (o_sending ob s) = run_view s \<and> run_view (o_running ob s) = run_view s"
  shows "if err \<noteq> None then t_Result t' = TEST_RESULT_ABORT
    else
      (t_Result t' = TEST_RESULT_CORRECT \<and>
         (\<forall>c\<in>set (butlast (t_Commands t')). c_Status c = COMMAND_STATUS_CORRECT) \<and>
         (c_Status (last (t_Commands t')) = COMMAND_STATUS_INCORRECT \<longrightarrow> c_PromptPattern (last (t_Commands t')) = None) \<or>
       t_Result t' = TEST_RESULT_INCORRECT \<and> (\<exists>c\<in>set (t_Commands t'). c_Status c = COMMAND_STATUS_INCORRECT)) \<and>
      t_PointsEarned t' =
        less_penalty t'
          (if t_ScoringMethod t' = TEST_SCORING_ENTIRE
           then (if t_Result t' = TEST_RESULT_CORRECT then t_PointsAvailable t' else 0)
           else if t_ScoringMethod t' = TEST_SCORING_PARTIAL then partial_sum (butlast (t_Commands t')) else 0)"
proof -
  from run have "if err \<noteq> None then t_Result t' = TEST_RESULT_ABORT else test_grade t'"
  proof (cases rule: run_body_cases)
    case (aborted e u)
    with abort_run_fields [of "so_wall so" e u] show ?thesis by auto
  next
    case (ran conf u e)
    from run_loop_ok [OF ran(2) loop_start_inv [OF start ran(1)] quiet] have "view_end (run_view u)" by blast
    from finish_run_grade [OF ran(3) this] show ?thesis by auto
  qed
  then show ?thesis unfolding test_grade_def passed_def command_points_def .
qed

text \<open>The goroutines of the program are of this kind.\<close>

lemma recv_byte_quiet: "run_view (recv_byte hmac s wb) = run_view s"
  unfolding recv_byte_def Let_def by (auto simp: run_view_upd_same grade_of_def goes_on_def)

lemma foldl_recv_quiet: "run_view (foldl (recv_byte hmac) s received) = run_view s"
  by (induction received arbitrary: s) (simp_all add: recv_byte_quiet)

lemma Recv_quiet: "run_view (Recv hmac t received) = run_view t"
  unfolding Recv_def foldl_recv_quiet by (simp add: run_view_def)

lemma stop161_quiet: "run_view (stop161 wall t) = run_view t"
  by (simp add: stop161_def run_view_def)

lemma stat_flags_quiet: "run_view (u\<lparr>r_statErr := e, r_statActive := b\<rparr>) = run_view u"
  by (simp add: run_view_def)

lemma stopStats_quiet: "run_view (stopStats wall s m e t) = run_view t"
  by (simp add: stopStats_def Let_def stop161_quiet stat_flags_quiet)

lemma upd_cur_quiet: "(\<And>c. grade_of (f c) = grade_of c) \<Longrightarrow> run_view (upd_cur f s) = run_view s"
  by (rule run_view_upd_same)

lemma record_stats_quiet: "record_stats x s = Some s' \<Longrightarrow> run_view s' = run_view s"
  by (auto simp: record_stats_def Let_def upd_cur_quiet grade_of_def goes_on_def split: option.splits)

lemma SimTime_quiet: "run_view (s\<lparr>t_SimTime := x\<rparr>) = run_view s"
  by (simp add: run_view_def)

lemma monitor_verdict_quiet: "monitor_verdict sf p c m s = (s', w) \<Longrightarrow> run_view s' = run_view s"
  by (auto simp: monitor_verdict_def Let_def upd_cur_quiet grade_of_def goes_on_def split: if_splits)

lemma stat_line_quiet:
  assumes "stat_line show_float wall line l t = Some (l', t', v)"
  shows "run_view t' = run_view t"
proof -
  have "run_view t' = run_view t" if sd: "stat_data show_float wall nums l t = Some (l', t', v)" for nums
    using sd by (auto simp: stat_data_def Let_def dest!: record_stats_quiet monitor_verdict_quiet simp: SimTime_quiet
        split: option.splits if_splits)
  then show ?thesis using assms
    by (auto simp: stat_line_def stopStats_quiet split: if_splits option.splits)
qed

definition quit_run :: RunTest where
  "quit_run = blank_run\<lparr>t_Commands := [(blank_command ''boot'')\<lparr>c_PromptPattern := Some ''kernel> ''\<rparr>, blank_command ''q''],
     t_Misc := default_Misc\<lparr>misc_RetryCharacters := ''false''\<rparr>, r_statActive := True, t_ScoringMethod := ''partial''\<rparr>"

definition quiet_obs :: "expect_obs \<Rightarrow> RunTest obs" where
  "quiet_obs e = \<lparr>o_send = [], o_sending = (\<lambda>t. t), o_running = (\<lambda>t. t), o_expect = e, o_wall = 1\<rparr>"

lemma quit_run_end:
  "map_option (\<lambda>(t, e). (map c_Status (t_Commands t), r_commandCounter t, r_allCorrect t, e))
     (run_loop (\<lambda>_. []) (\<lambda>_ _. []) [quiet_obs ExpectMatch, quiet_obs ExpectEOF] quit_run) =
   Some ([COMMAND_STATUS_CORRECT, COMMAND_STATUS_CORRECT], 1, True, None)"
  by code_simp

lemma quit_run_start:
  "r_commandCounter quit_run = 0" "t_Commands quit_run \<noteq> []" "t_PointsEarned quit_run = 0" "r_allCorrect quit_run"
  "prompts_ok (map grade_of (t_Commands quit_run))"
  "\<forall>c\<in>set (t_Commands quit_run). c_Status c \<noteq> COMMAND_STATUS_INCORRECT"
  by (simp_all add: quit_run_def blank_run_def blank_test_def Test.defs prompts_ok_def grade_of_def blank_command_def less_Suc_eq)

lemma quiet_obs_quiet:
  "ob \<in> set (map quiet_obs es) \<Longrightarrow> run_view (o_sending ob s) = run_view s \<and> run_view (o_running ob s) = run_view s"
  by (auto simp: quiet_obs_def)

lemma run_verdict_witness:
  "\<exists>t' err. run_loop (\<lambda>_. []) (\<lambda>_ _. []) [quiet_obs ExpectMatch, quiet_obs ExpectEOF] quit_run = Some (t', err) \<and>
     r_allCorrect t' \<and> map c_Status (take (r_commandCounter t') (t_Commands t')) = [COMMAND_STATUS_CORRECT]"
proof -
  from quit_run_end obtain t' err where r: "run_loop (\<lambda>_. []) (\<lambda>_ _. []) [quiet_obs ExpectMatch, quiet_obs ExpectEOF] quit_run = Some (t', err)"
    and ok: "r_allCorrect t'" and n: "r_commandCounter t' = 1" and len: "length (t_Commands t') = 2" by auto
  have "ob \<in> set [quiet_obs ExpectMatch, quiet_obs ExpectEOF] \<Longrightarrow>
      run_view (o_sending ob s) = run_view s \<and> run_view (o_running ob s) = run_view s" for ob s
    using quiet_obs_quiet [of ob "[ExpectMatch, ExpectEOF]"] by simp
  from run_verdict [OF r quit_run_start this] ok n
  have "\<forall>c\<in>set (take 1 (t_Commands t')). c_Status c = COMMAND_STATUS_CORRECT" by simp
  then have "map c_Status (take 1 (t_Commands t')) = [COMMAND_STATUS_CORRECT]"
    using len by (cases "t_Commands t'") auto
  then show ?thesis using r ok n by auto
qed

text \<open>
  A run with a memory leak: the first reading of \<open>khu\<close> is 4096 bytes, the second 8192. Its three
  commands before \<open>q\<close> are correct, and the penalty of 4 points is taken from the 10.
\<close>

definition all_well :: setup_obs where
  "all_well = \<lparr>so_tempdir = None, so_copy = None, so_kernel = None, so_write = None, so_conf = None,
     so_disk1 = None, so_disk2 = None, so_start = None, so_wall = 1\<rparr>"

definition prompted :: "Command \<Rightarrow> Command" where
  "prompted c = c\<lparr>c_PromptPattern := Some ''kernel> ''\<rparr>"

definition leaky_test :: RunTest where
  "leaky_test = leaky_run\<lparr>t_PointsEarned := 0, t_Misc := default_Misc\<lparr>misc_RetryCharacters := ''false''\<rparr>,
     t_Commands := [prompted (khu_command ''khu: 4096''), prompted (blank_command ''sy1''),
       prompted (khu_command ''khu: 8192''), blank_command ''q'']\<rparr>"

lemma leaky_test_end:
  "map_option (\<lambda>(t, e). (t_Result t, t_PointsEarned t, t_PointsAvailable t, e))
     (run_body (\<lambda>_. []) (\<lambda>_ _. []) all_well (map quiet_obs [ExpectMatch, ExpectMatch, ExpectMatch, ExpectEOF]) leaky_test) =
   Some (TEST_RESULT_CORRECT, 6, 10, None)"
  by code_simp

lemma leaky_test_start:
  "t_PointsEarned leaky_test = 0" "prompts_ok (map grade_of (t_Commands leaky_test))"
  "\<forall>c\<in>set (t_Commands leaky_test). c_Status c \<noteq> COMMAND_STATUS_INCORRECT"
  by (simp_all add: leaky_test_def leaky_run_def prompts_ok_def grade_of_def prompted_def khu_command_def blank_command_def
      less_Suc_eq)

lemma run_grade_witness:
  "\<exists>t'. run_body (\<lambda>_. []) (\<lambda>_ _. []) all_well (map quiet_obs [ExpectMatch, ExpectMatch, ExpectMatch, ExpectEOF]) leaky_test =
       Some (t', None) \<and>
     t_PointsEarned t' = 6 \<and> (\<forall>c\<in>set (butlast (t_Commands t')). c_Status c = COMMAND_STATUS_CORRECT)"
proof -
  from leaky_test_end obtain t' where r: "run_body (\<lambda>_. []) (\<lambda>_ _. []) all_well
      (map quiet_obs [ExpectMatch, ExpectMatch, ExpectMatch, ExpectEOF]) leaky_test = Some (t', None)"
    and t': "t_Result t' = TEST_RESULT_CORRECT" "t_PointsEarned t' = 6" by auto
  have "ob \<in> set (map quiet_obs [ExpectMatch, ExpectMatch, ExpectMatch, ExpectEOF]) \<Longrightarrow>
      run_view (o_sending ob s) = run_view s \<and> run_view (o_running ob s) = run_view s" for ob s by (rule quiet_obs_quiet)
  from run_grade [OF r leaky_test_start this] t' have "\<forall>c\<in>set (butlast (t_Commands t')). c_Status c = COMMAND_STATUS_CORRECT"
    by simp
  with r t' show ?thesis by blast
qed

text \<open>
  The grade of the last command is not looked at: a test whose last command is incorrect is correct.
  And if the goroutine of the statistics has ended without an error when a prompt arrives, the loop
  ends without one too: the commands after it never run, and the test is correct.
\<close>

lemma last_command_not_counted:
  "map_option (\<lambda>(t, e). (t_Result t, map c_Status (t_Commands t), e))
     (run_body (\<lambda>_. []) (\<lambda>_ _. []) all_well (map quiet_obs [ExpectMatch, ExpectEOF])
       (quit_run\<lparr>t_Commands := [prompted (blank_command ''boot''),
          (blank_command ''q'')\<lparr>c_ExpectedOutput := [\<lparr>eo_Text = ''bye'', eo_Trusted = False, eo_KeyName = []\<rparr>]\<rparr>]\<rparr>)) =
   Some (TEST_RESULT_CORRECT, [COMMAND_STATUS_CORRECT, COMMAND_STATUS_INCORRECT], None)"
  by code_simp

lemma ended_statistics_pass:
  "map_option (\<lambda>(t, e). (t_Result t, map c_Status (t_Commands t), e))
     (run_body (\<lambda>_. []) (\<lambda>_ _. []) all_well [(quiet_obs ExpectMatch)\<lparr>o_running := \<lambda>t. t\<lparr>r_statActive := False\<rparr>\<rparr>]
       (quit_run\<lparr>t_Commands := map prompted [blank_command ''boot'', blank_command ''sy1''] @ [blank_command ''q'']\<rparr>)) =
   Some (TEST_RESULT_CORRECT, [COMMAND_STATUS_RUNNING], None)"
  by code_simp

lemma wait_echo_returns: "n \<le> length obs \<Longrightarrow> \<exists>r. wait_echo to n obs = Some r"
  by (induction to n obs rule: wait_echo.induct) auto

lemma send_char_returns:
  "retries \<le> length obs \<Longrightarrow> \<forall>e. SendOk e \<in> set obs \<longrightarrow> MAX_RETRY_LOOPS \<le> length e \<Longrightarrow>
   \<exists>r. send_char to retries obs = Some r \<and> (\<forall>rest. r = Inr rest \<longrightarrow> length obs \<le> length rest + retries \<and> set rest \<subseteq> set obs)"
proof (induction to retries obs rule: send_char.induct)
  case (4 to retries echo obs)
  obtain w where w: "wait_echo to MAX_RETRY_LOOPS echo = Some w" using wait_echo_returns 4(3) by fastforce
  show ?case
  proof (cases w)
    case CharRetry
    with 4(1) [OF w CharRetry] 4(2,3) w show ?thesis by fastforce
  qed (use w in auto)
qed auto

lemma send_chars_returns:
  "length cs * unat (misc_CommandRetries misc) \<le> length obs \<Longrightarrow> \<forall>e. SendOk e \<in> set obs \<longrightarrow> MAX_RETRY_LOOPS \<le> length e \<Longrightarrow>
   \<exists>r. send_chars misc cs obs = Some r"
proof (induction cs arbitrary: obs)
  case Nil
  then show ?case by simp
next
  case (Cons c cs)
  have "unat (misc_CommandRetries misc) \<le> length obs" using Cons.prems(1) by simp
  from send_char_returns [OF this Cons.prems(2), of "misc_CharacterTimeout misc"] obtain r where
    r: "send_char (misc_CharacterTimeout misc) (unat (misc_CommandRetries misc)) obs = Some r"
    "\<And>rest. r = Inr rest \<Longrightarrow> length obs \<le> length rest + unat (misc_CommandRetries misc) \<and> set rest \<subseteq> set obs" by blast
  show ?case
  proof (cases r)
    case (Inl e)
    with r show ?thesis by simp
  next
    case (Inr rest)
    with r(2) Cons.prems have "length cs * unat (misc_CommandRetries misc) \<le> length rest"
      "\<forall>e. SendOk e \<in> set rest \<longrightarrow> MAX_RETRY_LOOPS \<le> length e" by fastforce+
    from Cons.IH [OF this] r(1) Inr show ?thesis by simp
  qed
qed

text \<open>
  Sending a command never hangs on the simulator: at most \<open>CommandRetries\<close> sends per character,
  each followed by at most 16 waits for its echo, decide it one way or the other.
\<close>

theorem sendCommand_returns:
  assumes "length line * unat (misc_CommandRetries misc) \<le> length obs"
    and "\<forall>echo. SendOk echo \<in> set obs \<longrightarrow> 16 \<le> length echo"
  shows "\<exists>r. sendCommand misc line obs = Some r"
  using send_chars_returns [OF assms(1)] assms(2) by (auto simp: sendCommand_def)

lemma sendCommand_returns_witness:
  "\<exists>r. sendCommand (default_Misc\<lparr>misc_CommandRetries := 2\<rparr>) ''q''
     [SendOk (replicate 16 (EchoTimeout 0)), SendOk (replicate 16 EchoMatch)] = Some r"
  by (rule sendCommand_returns) auto

text \<open>
  Partial credit inside a command never reaches the test: under partial scoring a command that is
  graded incorrect, whatever points it earned, leaves the points of the test as they were.
\<close>

theorem partial_credit_not_added:
  assumes "after_command hmac wall False t = Some (Next t')" and "finishCurCommand hmac False t = Some (u, cur)"
    and "c_Status cur = COMMAND_STATUS_INCORRECT" and "r_commandCounter t < length (t_Commands t)"
  shows "t_PointsEarned t' = t_PointsEarned t"
proof -
  have "t_PointsEarned u = t_PointsEarned t"
    using finishCurCommand_view [OF assms(2,4)] by (simp add: run_view_def)
  with assms(1-3) show ?thesis by (auto simp: after_command_def Let_def split: if_splits)
qed

definition half_run :: RunTest where
  "half_run = quit_run\<lparr>t_Commands :=
     [(blank_command ''/testbin/crash'')\<lparr>c_PromptPattern := Some ''$ '', c_PointsAvailable := 10,
        c_ExpectedOutput := [\<lparr>eo_Text = ''done'', eo_Trusted = False, eo_KeyName = []\<rparr>],
        c_Output := [blank_line\<lparr>ol_Line := ''PARTIAL CREDIT 1 OF 2''\<rparr>]\<rparr>, blank_command ''q'']\<rparr>"

lemma half_run_next:
  "(case after_command (\<lambda>_ _. []) 1 False half_run of Some (Next t) \<Rightarrow> True | _ \<Rightarrow> False)"
  "map_option (\<lambda>(t, c). (c_Status c, c_PointsEarned c)) (finishCurCommand (\<lambda>_ _. []) False half_run) =
     Some (COMMAND_STATUS_INCORRECT, 5)"
  by code_simp+

lemma partial_credit_not_added_witness:
  "\<exists>t' u cur. after_command (\<lambda>_ _. []) 1 False half_run = Some (Next t') \<and>
     finishCurCommand (\<lambda>_ _. []) False half_run = Some (u, cur) \<and> c_PointsEarned cur = 5 \<and>
     t_PointsEarned t' = t_PointsEarned half_run"
proof -
  obtain t' where t': "after_command (\<lambda>_ _. []) 1 False half_run = Some (Next t')"
    using half_run_next(1) by (auto split: option.splits flow.splits)
  obtain u cur where u: "finishCurCommand (\<lambda>_ _. []) False half_run = Some (u, cur)"
    and c: "c_Status cur = COMMAND_STATUS_INCORRECT" "c_PointsEarned cur = 5"
    using half_run_next(2) by auto
  have "r_commandCounter half_run < length (t_Commands half_run)" by code_simp
  from partial_credit_not_added [OF t' u c(1) this] t' u c show ?thesis by blast
qed

end
