(* ===== verification/TestGroups.thy ===== *)
theory TestGroups
  imports Graph Samples
begin

text \<open>
  Test groups (\<open>groups.go\<close>): loading the tests of a directory, expanding test expressions and
  dependencies, the dependency graph and the group that a configuration describes.

  A \<open>*Test\<close> is its \<open>DependencyID\<close>; the tests themselves stand in the test map, so a write
  through a pointer is an update there. The file system, the glob library and the loader of one
  test file are the fields of \<open>Files\<close>, the first argument of what uses them. The workers of a
  \<open>go\<close> statement send one result each; \<open>arr\<close> gives the order in which the results arrive.
\<close>

record Files =
  fs_Getwd :: "string + string"
  fs_Glob :: "string \<Rightarrow> string + string list"
  fs_TestFromFile :: "string \<Rightarrow> string + Test"

record GroupConfig =
  gc_Name :: string
  gc_UseDeps :: bool
  gc_Tests :: "string list"
  gc_Env :: TestEnvironment

record TestGroup =
  tg_Tests :: "(string, Test) gomap"
  tg_Config :: "GroupConfig option"

type_synonym TagMap = "(string, string list) gomap"

record testMap =
  tm_TestDir :: string
  tm_Tests :: "(string, Test) gomap"
  tm_Tags :: TagMap

definition EmptyGroup :: TestGroup where
  "EmptyGroup = \<lparr>tg_Tests = [], tg_Config = None\<rparr>"

section \<open>Collecting the results of workers\<close>

text \<open>Every result counts: an error joins the list of errors, a value updates the state.\<close>

fun fold_errs :: "('a \<Rightarrow> 's \<Rightarrow> 'e + 's) \<Rightarrow> 'a list \<Rightarrow> 's \<Rightarrow> 'e list \<Rightarrow> 's \<times> 'e list" where
  "fold_errs f [] s errs = (s, errs)"
| "fold_errs f (x # xs) s errs =
     (case f x s of Inl e \<Rightarrow> fold_errs f xs s (errs @ [e]) | Inr s' \<Rightarrow> fold_errs f xs s' errs)"

lemma fold_errs_grow: "\<exists>more. snd (fold_errs f xs s errs) = errs @ more"
proof (induction xs arbitrary: s errs)
  case Nil
  then show ?case by simp
next
  case (Cons x xs)
  then show ?case
    by (cases "f x s") (simp_all, metis append_assoc)
qed

lemma fold_errs_none: "fold_errs f xs s errs = (t, []) \<longleftrightarrow> errs = [] \<and> fold_ok f xs s = Inr t"
proof (induction xs arbitrary: s errs)
  case Nil
  then show ?case by auto
next
  case (Cons x xs)
  show ?case
  proof (cases "f x s")
    case (Inl e)
    then show ?thesis using Cons.IH [of s "errs @ [e]"] by simp
  next
    case (Inr s')
    then show ?thesis using Cons.IH [of s' errs] by simp
  qed
qed

section \<open>The tests of a directory\<close>

definition filepath_Abs :: "Files \<Rightarrow> string \<Rightarrow> string + string" where
  "filepath_Abs fs p =
     (if rooted p then Inr (path_Clean p) else bind_ok (fs_Getwd fs) (\<lambda>wd. Inr (path_Join [wd, p])))"

definition idFromFile :: "Files \<Rightarrow> string \<Rightarrow> string \<Rightarrow> string + string" where
  "idFromFile fs filename testDir =
     bind_ok (filepath_Abs fs filename) (\<lambda>temp. Inr (path_Rel testDir (path_Clean temp)))"

text \<open>\<open>m[k] = append(m[k], v)\<close>, where a missing list is made first.\<close>

definition append_to :: "'v \<Rightarrow> 'k \<Rightarrow> ('k, 'v list) gomap \<Rightarrow> ('k, 'v list) gomap" where
  "append_to v k m =
     (let m' = (if gm_has m k then m else gm_put k [] m)
      in case gm_get m' k of Some vs \<Rightarrow> gm_put k (vs @ [v]) m' | None \<Rightarrow> m')"

definition buildTagMap :: "testMap \<Rightarrow> testMap" where
  "buildTagMap tm =
     tm\<lparr>tm_Tags := fold (\<lambda>(_, test). fold (append_to (t_DependencyID test)) (t_Tags test)) (tm_Tests tm) []\<rparr>"

lemma append_to_get:
  "gm_get (append_to v k m) j =
   (if j = k then Some ((case gm_get m k of Some vs \<Rightarrow> vs | None \<Rightarrow> []) @ [v]) else gm_get m j)"
  by (auto simp: append_to_def gm_has_def Let_def split: option.splits)

text \<open>One worker of \<open>load\<close>; its result is a \<open>testLoadResult\<close>.\<close>

type_synonym testLoadResult = "string + Test"

definition load_worker :: "Files \<Rightarrow> string \<Rightarrow> string \<Rightarrow> testLoadResult" where
  "load_worker fs testDir f =
     bind_ok (fs_TestFromFile fs f) (\<lambda>test.
     bind_ok (idFromFile fs f testDir) (\<lambda>i. Inr (test\<lparr>t_DependencyID := i\<rparr>)))"

definition load_result :: "Files \<Rightarrow> string \<Rightarrow> testMap \<Rightarrow> string + testMap" where
  "load_result fs f tm =
     bind_ok (load_worker fs (tm_TestDir tm) f)
       (\<lambda>test. Inr (tm\<lparr>tm_Tests := gm_put (t_DependencyID test) test (tm_Tests tm)\<rparr>))"

definition load :: "Files \<Rightarrow> (string list \<Rightarrow> string list) \<Rightarrow> testMap \<Rightarrow> testMap \<times> string list" where
  "load fs arr tm =
     (case fs_Glob fs (tm_TestDir tm @ ''/**/*.t'') of
        Inl err \<Rightarrow> (tm, [err])
      | Inr files \<Rightarrow> fold_errs (load_result fs) (arr files) tm [])"

definition newTestMap :: "Files \<Rightarrow> (string list \<Rightarrow> string list) \<Rightarrow> string \<Rightarrow> string list + testMap" where
  "newTestMap fs arr testDir =
     (case filepath_Abs fs testDir of
        Inl err \<Rightarrow> Inl [err]
      | Inr a \<Rightarrow>
          (case load fs arr \<lparr>tm_TestDir = path_Clean a, tm_Tests = [], tm_Tags = []\<rparr> of
             (tm, errs) \<Rightarrow> if errs \<noteq> [] then Inl errs else Inr (buildTagMap tm)))"

section \<open>Test expressions\<close>

definition test_of_file :: "Files \<Rightarrow> testMap \<Rightarrow> string \<Rightarrow> string list \<Rightarrow> string + string list" where
  "test_of_file fs tm file tests =
     bind_ok (idFromFile fs file (tm_TestDir tm)) (\<lambda>i.
       if gm_has (tm_Tests tm) i then Inr (tests @ [i])
       else Inl (''Cannot find test: '' @ i @ ''.  Is testMap initialized?''))"

definition testsFromGlob :: "Files \<Rightarrow> testMap \<Rightarrow> string \<Rightarrow> string \<Rightarrow> string + string list" where
  "testsFromGlob fs tm search startDir =
     (let glob = path_Clean (if HasPrefix search ''/'' then path_Join [tm_TestDir tm, search]
                             else path_Join [startDir, search])
      in if \<not> HasPrefix glob (tm_TestDir tm)
         then Inl (''Cannot specify tests outside of testing directory: '' @ glob)
         else bind_ok (fs_Glob fs glob) (\<lambda>files.
           if files = [] then Inl (''Cannot find a file match for glob: '' @ glob @ [CHR 0x27])
           else fold_ok (test_of_file fs tm) files []))"

section \<open>Dependencies\<close>

definition add_key :: "'a \<Rightarrow> 'a list \<Rightarrow> 'a list" where
  "add_key k ks = (if k \<in> set ks then ks else ks @ [k])"

text \<open>
  The loop body of \<open>expandTestDeps\<close> for one dependency. After an error the test map is dropped,
  so the keys added before it do not matter.
\<close>

definition expand_dep :: "Files \<Rightarrow> testMap \<Rightarrow> Test \<Rightarrow> string \<Rightarrow> string list \<Rightarrow> string + string list" where
  "expand_dep fs tm t dep expanded =
     bind_ok
       (if HasSuffix dep ''.t''
        then bind_ok (testsFromGlob fs tm dep (path_Dir (path_Join [tm_TestDir tm, t_DependencyID t]))) (\<lambda>deps.
          if deps = [] then Inl (''No matches for dependency '' @ dep @ '' in test '' @ t_DependencyID t) else Inr deps)
        else (case gm_get (tm_Tags tm) dep of
                None \<Rightarrow> Inl (''No matches for tag dependency '' @ [CHR 0x27] @ dep @ [CHR 0x27] @ '' in test ''
                  @ [CHR 0x27] @ t_DependencyID t @ [CHR 0x27])
              | Some deps \<Rightarrow> Inr deps))
       (\<lambda>deps. Inr (fold add_key deps expanded))"

definition expandTestDeps :: "Files \<Rightarrow> testMap \<Rightarrow> Test \<Rightarrow> string + Test" where
  "expandTestDeps fs tm t =
     bind_ok (fold_ok (expand_dep fs tm t) (t_Depends t) []) (\<lambda>ks. Inr (t\<lparr>t_ExpandedDeps := ks\<rparr>))"

text \<open>
  A worker writes only to its own test and reads only the tags and the names of the tests, so
  the workers do not see each other's writes.
\<close>

definition expand_result :: "Files \<Rightarrow> testMap \<Rightarrow> string \<Rightarrow> (string, Test) gomap \<Rightarrow> string + (string, Test) gomap" where
  "expand_result fs tm k tests =
     (case gm_get (tm_Tests tm) k of
        None \<Rightarrow> Inr tests
      | Some t \<Rightarrow> bind_ok (expandTestDeps fs tm t) (\<lambda>t'. Inr (gm_put k t' tests)))"

definition expandAllDeps :: "Files \<Rightarrow> (string list \<Rightarrow> string list) \<Rightarrow> testMap \<Rightarrow> testMap \<times> string list" where
  "expandAllDeps fs arr tm =
     (case fold_errs (expand_result fs tm) (arr (gm_keys (tm_Tests tm))) (tm_Tests tm) [] of
        (tests, errs) \<Rightarrow> (tm\<lparr>tm_Tests := tests\<rparr>, errs))"

section \<open>Dependency graphs\<close>

definition Key :: "Test \<Rightarrow> string" where
  "Key t = t_DependencyID t"

text \<open>\<open>Key\<close> on a pointer, and the edges of all tests in the order of the two loops.\<close>

definition ptr_key :: "string \<Rightarrow> string" where
  "ptr_key p = p"

definition dep_pairs :: "(string, Test) gomap \<Rightarrow> (string \<times> string) list" where
  "dep_pairs tests = concat (map (\<lambda>(_, test). map (\<lambda>dep. (Key test, dep)) (t_ExpandedDeps test)) tests)"

abbreviation dep_edge :: "string \<times> string \<Rightarrow> string graph \<Rightarrow> string + string graph" where
  "dep_edge \<equiv> \<lambda>(test, dep). AddEdge ptr_key test dep"

definition DependencyGraph :: "TestGroup \<Rightarrow> string + string graph" where
  "DependencyGraph tg =
     (let g = New ptr_key (map (\<lambda>(_, t). Key t) (tg_Tests tg))
      in fold_ok dep_edge (dep_pairs (tg_Tests tg)) g)"

definition dependencyGraph :: "Files \<Rightarrow> (string list \<Rightarrow> string list) \<Rightarrow> testMap \<Rightarrow> testMap \<times> string graph option \<times> string list" where
  "dependencyGraph fs arr tm =
     (case expandAllDeps fs arr tm of
        (tm', errs) \<Rightarrow>
          if errs \<noteq> [] then (tm', None, errs)
          else (case fold_errs dep_edge (dep_pairs (tm_Tests tm')) (New ptr_key (map (\<lambda>(_, t). Key t) (tm_Tests tm'))) [] of
                  (g, errs') \<Rightarrow> (tm', Some g, errs')))"

section \<open>The group of a configuration\<close>

type_synonym expandRes = "string + string list"

definition expand_test :: "Files \<Rightarrow> testMap \<Rightarrow> string \<Rightarrow> string \<Rightarrow> expandRes" where
  "expand_test fs tm startDir test =
     (if HasSuffix test ''.t'' then testsFromGlob fs tm test startDir
      else (case gm_get (tm_Tags tm) test of
              Some res \<Rightarrow> Inr res
            | None \<Rightarrow> Inl (''Cannot find tag: '' @ test)))"

text \<open>The keys of the group's map after the expansion, and the errors.\<close>

definition expandTests :: "Files \<Rightarrow> (string list \<Rightarrow> string list) \<Rightarrow> testMap \<Rightarrow> GroupConfig \<Rightarrow> string list \<times> string list" where
  "expandTests fs arr tm config =
     fold_errs (\<lambda>test keys. bind_ok (expand_test fs tm (env_TestDir (gc_Env config)) test)
                              (\<lambda>tests. Inr (fold add_key tests keys)))
       (arr (gc_Tests config)) [] []"

text \<open>
  The recursion over the outgoing edges does not return on a cycle; the fuel bounds its depth
  and \<open>None\<close> is a call that needs more.
\<close>

fun getDepNodesHelper :: "nat \<Rightarrow> string graph \<Rightarrow> string \<Rightarrow> string list \<Rightarrow> string list option" where
  "getDepNodesHelper 0 g node tests = None"
| "getDepNodesHelper (Suc fuel) g node tests =
     fold (\<lambda>out acc. Option.bind acc (getDepNodesHelper fuel g out)) (out_edges g node) (Some (tests @ [node]))"

definition getDepNodes :: "string graph \<Rightarrow> string \<Rightarrow> expandRes option" where
  "getDepNodes g i =
     (if g_node g i = None then Some (Inl (''Cannot find '' @ [CHR 0x27] @ i @ [CHR 0x27] @ '' in dependency graph''))
      else map_option Inr (getDepNodesHelper (Suc (length (g_names g))) g i []))"

text \<open>A dependency that the group lacks is marked and added.\<close>

definition add_dependency :: "string \<Rightarrow> string list \<times> (string, Test) gomap \<Rightarrow> string list \<times> (string, Test) gomap" where
  "add_dependency i = (\<lambda>(keys, tests).
     if i \<in> set keys then (keys, tests)
     else (keys @ [i],
           (case gm_get tests i of Some t \<Rightarrow> gm_put i (t\<lparr>t_IsDependency := True\<rparr>) tests | None \<Rightarrow> tests)))"

definition add_dep_nodes :: "string graph \<Rightarrow> string list \<Rightarrow> string list \<times> (string, Test) gomap
    \<Rightarrow> (string list \<times> (string, Test) gomap) option" where
  "add_dep_nodes g ids s =
     fold (\<lambda>i acc. Option.bind acc (\<lambda>s. map_option
             (\<lambda>res. case res of Inl _ \<Rightarrow> s | Inr nodes \<Rightarrow> fold add_dependency nodes s) (getDepNodes g i)))
       ids (Some s)"

text \<open>The tests behind the keys of a group.\<close>

definition tests_of :: "(string, Test) gomap \<Rightarrow> string list \<Rightarrow> (string, Test) gomap" where
  "tests_of tests keys = List.map_filter (\<lambda>k. map_option (Pair k) (gm_get tests k)) keys"

definition GroupFromConfig :: "Files \<Rightarrow> (string list \<Rightarrow> string list) \<Rightarrow> GroupConfig \<Rightarrow> (string list + TestGroup) option" where
  "GroupFromConfig fs arr config =
     (case newTestMap fs arr (env_TestDir (gc_Env config)) of
        Inl errs \<Rightarrow> Some (Inl errs)
      | Inr tm \<Rightarrow>
          (case filepath_Abs fs (env_TestDir (gc_Env config)) of
             Inl err \<Rightarrow> Some (Inl [err])
           | Inr a \<Rightarrow>
               (let config' = config\<lparr>gc_Env := (gc_Env config)\<lparr>env_TestDir := a\<rparr>\<rparr>;
                    group = (\<lambda>(keys, tests). \<lparr>tg_Tests = tests_of tests keys, tg_Config = Some config'\<rparr>)
                in case expandTests fs arr tm config' of
                     (keys, errs) \<Rightarrow>
                       if errs \<noteq> [] then Some (Inl errs)
                       else if \<not> gc_UseDeps config' then Some (Inr (group (keys, tm_Tests tm)))
                       else (case dependencyGraph fs arr tm of
                               (tm', None, errs) \<Rightarrow> Some (Inl errs)
                             | (tm', Some g, errs) \<Rightarrow>
                                 if errs \<noteq> [] then Some (Inl errs)
                                 else (case TopSort ptr_key g of
                                         Inl err \<Rightarrow> Some (Inl [err])
                                       | Inr _ \<Rightarrow> map_option (Inr \<circ> group) (add_dep_nodes g (arr keys) (keys, tm_Tests tm')))))))"

definition TotalPoints :: "TestGroup \<Rightarrow> uint" where
  "TotalPoints tg = fold (\<lambda>(_, test) points. points + t_PointsAvailable test) (tg_Tests tg) 0"

definition EarnedPoints :: "TestGroup \<Rightarrow> uint" where
  "EarnedPoints tg = fold (\<lambda>(_, test) points. points + t_PointsEarned test) (tg_Tests tg) 0"

section \<open>Maps of tests\<close>

text \<open>Every test stands under its own \<open>DependencyID\<close>.\<close>

definition keyed :: "(string, Test) gomap \<Rightarrow> bool" where
  "keyed tests \<longleftrightarrow> gm_ok tests \<and> (\<forall>k t. gm_get tests k = Some t \<longrightarrow> t_DependencyID t = k)"

lemma keyed_put: "keyed tests \<Longrightarrow> t_DependencyID t = k \<Longrightarrow> keyed (gm_put k t tests)"
  by (auto simp: keyed_def)

lemma keyed_get: "keyed tests \<Longrightarrow> gm_get tests k = Some t \<Longrightarrow> t_DependencyID t = k"
  by (simp add: keyed_def)

lemma keyed_entries: "keyed tests \<Longrightarrow> (k, t) \<in> set tests \<Longrightarrow> Key t = k \<and> gm_get tests k = Some t"
  using gm_get_in [of tests k t] by (auto simp: keyed_def Key_def)

lemma keyed_keys: "keyed tests \<Longrightarrow> map (\<lambda>(_, t). Key t) tests = gm_keys tests"
  by (rule map_cong) (auto dest: keyed_entries)

text \<open>The relation between a test and the tests it depends on.\<close>

definition dep_rel :: "(string, Test) gomap \<Rightarrow> (string \<times> string) set" where
  "dep_rel tests = {(k, d). \<exists>t. gm_get tests k = Some t \<and> d \<in> set (t_ExpandedDeps t)}"

lemma dep_pairs_rel: "keyed tests \<Longrightarrow> set (dep_pairs tests) = dep_rel tests"
  using keyed_entries [of tests] by (fastforce simp: dep_pairs_def dep_rel_def dest: map_of_SomeD)

lemma set_add_key [simp]: "set (add_key k ks) = insert k (set ks)"
  by (auto simp: add_key_def)

lemma set_fold_add_key [simp]: "set (fold add_key ks acc) = set ks \<union> set acc"
  by (induction ks arbitrary: acc) auto

lemma distinct_fold_add_key: "distinct acc \<Longrightarrow> distinct (fold add_key ks acc)"
  by (induction ks arbitrary: acc) (auto simp: add_key_def)

lemma map_of_tests_of: "gm_get (tests_of tests keys) k = (if k \<in> set keys then gm_get tests k else None)"
  by (induction keys) (auto simp: tests_of_def List.map_filter_simps split: option.splits)

lemma keys_tests_of: "gm_keys (tests_of tests keys) = filter (gm_has tests) keys"
  by (induction keys) (auto simp: tests_of_def List.map_filter_simps gm_has_def split: option.splits)

lemma keyed_tests_of: "keyed tests \<Longrightarrow> distinct keys \<Longrightarrow> keyed (tests_of tests keys)"
  by (auto simp: keyed_def gm_ok_def keys_tests_of map_of_tests_of simp del: map_map split: if_splits)

lemma keyed_newTestMap: "newTestMap fs arr dir = Inr tm \<Longrightarrow> keyed (tm_Tests tm)"
proof -
  assume ok: "newTestMap fs arr dir = Inr tm"
  then obtain a tm0 where l: "load fs arr \<lparr>tm_TestDir = path_Clean a, tm_Tests = [], tm_Tags = []\<rparr> = (tm0, [])"
    and tm: "tm = buildTagMap tm0"
    by (auto simp: newTestMap_def split: sum.splits prod.splits if_splits)
  from l obtain files where "fold_ok (load_result fs) files \<lparr>tm_TestDir = path_Clean a, tm_Tests = [], tm_Tags = []\<rparr> = Inr tm0"
    by (auto simp: load_def fold_errs_none split: sum.splits)
  then have "keyed (tm_Tests tm0)"
  proof (rule fold_ok_invariant [where P = "\<lambda>tm. keyed (tm_Tests tm)"])
    show "keyed (tm_Tests \<lparr>tm_TestDir = path_Clean a, tm_Tests = [], tm_Tags = []\<rparr>)"
      by (simp add: keyed_def gm_ok_def)
  qed (auto simp: load_result_def bind_ok_eq_Inr intro: keyed_put)
  then show ?thesis by (simp add: tm buildTagMap_def)
qed

text \<open>Every test of the map is a loaded test under the name of its file.\<close>

lemma newTestMap_loaded:
  assumes ok: "newTestMap fs arr dir = Inr tm" and get: "gm_get (tm_Tests tm) k = Some t"
  shows "\<exists>f u. fs_TestFromFile fs f = Inr u \<and> t = u\<lparr>t_DependencyID := k\<rparr>"
proof -
  let ?tm = "\<lambda>a. \<lparr>tm_TestDir = path_Clean a, tm_Tests = [], tm_Tags = []\<rparr>"
  let ?P = "\<lambda>tm. \<forall>k t. gm_get (tm_Tests tm) k = Some t \<longrightarrow>
      (\<exists>f u. fs_TestFromFile fs f = Inr u \<and> t = u\<lparr>t_DependencyID := k\<rparr>)"
  from ok obtain a tm0 where l: "load fs arr (?tm a) = (tm0, [])" and tm: "tm = buildTagMap tm0"
    by (auto simp: newTestMap_def split: sum.splits prod.splits if_splits)
  from l obtain files where "fold_ok (load_result fs) files (?tm a) = Inr tm0"
    by (auto simp: load_def fold_errs_none split: sum.splits)
  then have "?P tm0"
  proof (rule fold_ok_invariant [where P = ?P])
    fix f s s'
    assume inv: "?P s" and "load_result fs f s = Inr s'"
    then obtain t i where "fs_TestFromFile fs f = Inr t"
      and s': "s' = s\<lparr>tm_Tests := gm_put i (t\<lparr>t_DependencyID := i\<rparr>) (tm_Tests s)\<rparr>"
      by (auto simp: load_result_def load_worker_def bind_ok_eq_Inr)
    then show "?P s'" using inv by auto
  qed simp
  with get show ?thesis by (simp add: tm buildTagMap_def)
qed

text \<open>A test without its expanded dependencies.\<close>

definition bare :: "Test \<Rightarrow> Test" where
  "bare t = t\<lparr>t_ExpandedDeps := []\<rparr>"

lemma bare_eq: "bare t = bare u \<Longrightarrow> t = u\<lparr>t_ExpandedDeps := t_ExpandedDeps t\<rparr>"
  by (cases t; cases u) (simp add: bare_def)

lemma expandTestDeps_same:
  "expandTestDeps fs tm t = Inr t' \<Longrightarrow>
   t_DependencyID t' = t_DependencyID t \<and> bare t' = bare t"
  by (auto simp: expandTestDeps_def bind_ok_eq_Inr bare_def)

lemma expandAllDeps_keeps:
  assumes ok: "expandAllDeps fs arr tm = (tm', [])" and keyed: "keyed (tm_Tests tm)"
  shows "keyed (tm_Tests tm') \<and> (\<forall>k. map_option bare (gm_get (tm_Tests tm') k) = map_option bare (gm_get (tm_Tests tm) k))"
proof -
  from ok obtain tests where f: "fold_ok (expand_result fs tm) (arr (gm_keys (tm_Tests tm))) (tm_Tests tm) = Inr tests"
    and tm': "tm' = tm\<lparr>tm_Tests := tests\<rparr>"
    by (auto simp: expandAllDeps_def fold_errs_none split: prod.splits)
  from f have "keyed tests \<and> (\<forall>k. map_option bare (gm_get tests k) = map_option bare (gm_get (tm_Tests tm) k))"
  proof (rule fold_ok_invariant [where P = "\<lambda>tests. keyed tests \<and> (\<forall>k. map_option bare (gm_get tests k) = map_option bare (gm_get (tm_Tests tm) k))"])
    fix k s s'
    assume inv: "keyed s \<and> (\<forall>k. map_option bare (gm_get s k) = map_option bare (gm_get (tm_Tests tm) k))"
      and "expand_result fs tm k s = Inr s'"
    then show "keyed s' \<and> (\<forall>k. map_option bare (gm_get s' k) = map_option bare (gm_get (tm_Tests tm) k))"
      by (auto simp: expand_result_def bind_ok_eq_Inr keyed_get [OF keyed]
          dest!: expandTestDeps_same intro!: keyed_put split: option.splits)
  qed (use keyed in simp)
  then show ?thesis by (simp add: tm')
qed

section \<open>Graphs of tests\<close>

lemma dep_edges_ok:
  "fold_ok dep_edge ps g = Inr g' \<Longrightarrow> wf_graph ptr_key g \<Longrightarrow>
   wf_graph ptr_key g' \<and> g_names g' = g_names g \<and> edges g' = edges g \<union> set ps \<and>
   set ps \<subseteq> set (g_names g) \<times> set (g_names g)"
proof (induction ps arbitrary: g)
  case Nil
  then show ?case by simp
next
  case (Cons p ps)
  obtain u v where p: "p = (u, v)" by (cases p)
  with Cons.prems obtain g1 where g1: "AddEdge ptr_key u v g = Inr g1" "fold_ok dep_edge ps g1 = Inr g'"
    by (auto simp: bind_ok_eq_Inr)
  from AddEdge_ok [OF Cons.prems(2) g1(1), unfolded ptr_key_def [of u] ptr_key_def [of v]]
  have A: "wf_graph ptr_key g1" "edges g1 = insert (u, v) (edges g)" "g_names g1 = g_names g"
    "u \<in> set (g_names g)" "v \<in> set (g_names g)" by auto
  from Cons.IH [OF g1(2) A(1)] A p show ?case by auto
qed

lemma dep_edges_succeed:
  "wf_graph ptr_key g \<Longrightarrow> \<forall>(u, v)\<in>set ps. u \<noteq> v \<and> u \<in> set (g_names g) \<and> v \<in> set (g_names g) \<Longrightarrow>
   \<exists>g'. fold_ok dep_edge ps g = Inr g'"
proof (induction ps arbitrary: g)
  case Nil
  then show ?case by simp
next
  case (Cons p ps)
  obtain u v where p: "p = (u, v)" by (cases p)
  with Cons.prems have uv: "u \<noteq> v" "g_node g u \<noteq> None" "g_node g v \<noteq> None"
    by (auto simp: g_names_iff)
  then have e: "AddEdge ptr_key u v g = Inr (addEdge u v g)" by (simp add: AddEdge_def ptr_key_def)
  from AddEdge_ok [OF Cons.prems(1) e, unfolded ptr_key_def [of u] ptr_key_def [of v]] Cons.prems(2) have "\<exists>g'. fold_ok dep_edge ps (addEdge u v g) = Inr g'"
    by (intro Cons.IH) auto
  then show ?case by (simp add: p e)
qed

lemma test_graph:
  assumes keyed: "keyed tests"
    and ok: "fold_ok dep_edge (dep_pairs tests) (New ptr_key (map (\<lambda>(_, t). Key t) tests)) = Inr g"
  shows "wf_graph ptr_key g \<and> set (g_names g) = set (gm_keys tests) \<and> edges g = dep_rel tests"
  using dep_edges_ok [OF ok wf_New]
  by (auto simp: edges_New names_New ptr_key_def keyed_keys [OF keyed] dep_pairs_rel [OF keyed])

section \<open>The recursion over the dependencies\<close>

definition rank :: "'a list \<Rightarrow> 'a \<Rightarrow> nat" where
  "rank s v = length (dropWhile (\<lambda>x. x \<noteq> v) s)"

lemma rank_less: "distinct s \<Longrightarrow> comes_before s u v \<Longrightarrow> rank s v < rank s u"
proof -
  assume d: "distinct s" and "comes_before s u v"
  then obtain as bs cs where s: "s = as @ u # bs @ v # cs" by (auto simp: comes_before_def)
  have drop: "dropWhile (\<lambda>x. x \<noteq> y) (xs @ y # ys) = y # ys" if "y \<notin> set xs" for y :: 'a and xs ys
    using that by (induction xs) auto
  have "rank s u = Suc (length bs + Suc (length cs))"
    using d drop [of u as "bs @ v # cs"] by (simp add: s rank_def)
  moreover have "rank s v = Suc (length cs)"
    using d drop [of v "as @ u # bs" cs] by (auto simp: s rank_def)
  ultimately show ?thesis by simp
qed

lemma getDepNodesHelper_reach:
  assumes s: "distinct s" "\<And>u v. (u, v) \<in> edges g \<Longrightarrow> comes_before s u v"
  shows "rank s i < fuel \<Longrightarrow> \<exists>r. getDepNodesHelper fuel g i ts = Some (ts @ r) \<and> set r = {v. (i, v) \<in> (edges g)\<^sup>*}"
proof (induction fuel arbitrary: i ts)
  case 0
  then show ?case by simp
next
  case (Suc fuel)
  have loop: "\<exists>r. fold (\<lambda>out acc. Option.bind acc (getDepNodesHelper fuel g out)) outs (Some ts) = Some (ts @ r) \<and>
      set r = (\<Union>out\<in>set outs. {v. (out, v) \<in> (edges g)\<^sup>*})"
    if "set outs \<subseteq> set (out_edges g i)" for outs ts
    using that
  proof (induction outs arbitrary: ts)
    case Nil
    then show ?case by simp
  next
    case (Cons out outs)
    from Cons.prems have "(i, out) \<in> edges g" by (simp add: edges_def)
    from rank_less [OF s(1) s(2) [OF this]] Suc.prems have "rank s out < fuel" by simp
    from Suc.IH [OF this, of ts] obtain r where
      r: "getDepNodesHelper fuel g out ts = Some (ts @ r)" "set r = {v. (out, v) \<in> (edges g)\<^sup>*}" by blast
    from Cons.IH [of "ts @ r"] Cons.prems obtain r' where
      r': "fold (\<lambda>out acc. Option.bind acc (getDepNodesHelper fuel g out)) outs (Some (ts @ r)) = Some ((ts @ r) @ r')"
      "set r' = (\<Union>out\<in>set outs. {v. (out, v) \<in> (edges g)\<^sup>*})" by auto
    with r show ?case by (intro exI [of _ "r @ r'"]) simp
  qed
  from loop [OF order_refl, of "ts @ [i]"] obtain r where
    r: "getDepNodesHelper (Suc fuel) g i ts = Some ((ts @ [i]) @ r)"
      "set r = (\<Union>out\<in>set (out_edges g i). {v. (out, v) \<in> (edges g)\<^sup>*})" by auto
  have "{v. (i, v) \<in> (edges g)\<^sup>*} = insert i (\<Union>out\<in>set (out_edges g i). {v. (out, v) \<in> (edges g)\<^sup>*})"
    by (auto simp: edges_def intro: converse_rtrancl_into_rtrancl elim: converse_rtranclE)
  with r show ?case by (intro exI [of _ "i # r"]) simp
qed

lemma getDepNodes_reach:
  assumes wf: "wf_graph ptr_key g" and sort: "TopSort ptr_key g = Inr s" and i: "i \<in> set (g_names g)"
  obtains r where "getDepNodes g i = Some (Inr r)" "set r = {v. (i, v) \<in> (edges g)\<^sup>*}"
proof -
  note T = TopSort_sound [OF wf sort]
  from T have s: "distinct s" "\<And>u v. (u, v) \<in> edges g \<Longrightarrow> comes_before s u v" by auto
  from wf have "distinct (g_names g)" by (simp add: wf_graph_def)
  with T have "length s = length (g_names g)" by (metis distinct_card)
  with length_dropWhile_le [of "\<lambda>x. x \<noteq> i" s] have "rank s i < Suc (length (g_names g))"
    by (simp add: rank_def)
  from getDepNodesHelper_reach [where g = g, OF s this, where ts = "[]"] i that show thesis
    by (auto simp: getDepNodes_def g_names_iff simp del: getDepNodesHelper.simps)
qed

lemma getDepNodes_total:
  assumes "wf_graph ptr_key g" and "TopSort ptr_key g = Inr s"
  shows "\<exists>r. getDepNodes g i = Some r"
proof (cases "i \<in> set (g_names g)")
  case True
  from getDepNodes_reach [OF assms this] show ?thesis by metis
next
  case False
  then show ?thesis by (simp add: getDepNodes_def g_names_iff)
qed

definition mark :: "Test \<Rightarrow> Test" where
  "mark t = t\<lparr>t_IsDependency := True\<rparr>"

lemma mark_simps [simp]:
  "t_IsDependency (mark t)" "t_DependencyID (mark t) = t_DependencyID t" "t_ExpandedDeps (mark t) = t_ExpandedDeps t"
  by (simp_all add: mark_def)

text \<open>What adding a list of dependencies does to the keys and to the tests.\<close>

definition added :: "string set \<Rightarrow> string list \<times> (string, Test) gomap \<Rightarrow> string list \<times> (string, Test) gomap \<Rightarrow> bool" where
  "added new s s' \<longleftrightarrow>
     set (fst s') = set (fst s) \<union> new \<and> (distinct (fst s) \<longrightarrow> distinct (fst s')) \<and>
     (gm_ok (snd s) \<longrightarrow> gm_ok (snd s')) \<and>
     (\<forall>k. gm_get (snd s') k = (if k \<in> new - set (fst s) then map_option mark (gm_get (snd s) k) else gm_get (snd s) k))"

lemma added_refl: "added {} s s"
  by (simp add: added_def)

lemma added_trans: "added A s s' \<Longrightarrow> added B s' s'' \<Longrightarrow> added (A \<union> B) s s''"
  by (auto simp: added_def split: if_splits)

lemma add_dependency_added: "added {i} s (add_dependency i s)"
  by (cases s) (auto simp: added_def add_dependency_def mark_def split: option.splits)

lemma fold_add_dependency_added: "added (set nodes) s (fold add_dependency nodes s)"
proof (induction nodes arbitrary: s)
  case Nil
  then show ?case by (simp add: added_refl)
next
  case (Cons i nodes)
  from added_trans [OF add_dependency_added Cons.IH, of i s] show ?case by simp
qed

lemma add_dep_nodes_Cons:
  "add_dep_nodes g (i # ids) s =
     Option.bind (getDepNodes g i) (\<lambda>res. add_dep_nodes g ids (case res of Inl _ \<Rightarrow> s | Inr nodes \<Rightarrow> fold add_dependency nodes s))"
proof -
  have none: "fold (\<lambda>i acc. Option.bind acc (f i)) ids None = None" for f :: "'b \<Rightarrow> 'c \<Rightarrow> 'c option" and ids
    by (induction ids) auto
  show ?thesis by (cases "getDepNodes g i") (simp_all add: add_dep_nodes_def none)
qed

lemma add_dep_nodes_total:
  "wf_graph ptr_key g \<Longrightarrow> TopSort ptr_key g = Inr s \<Longrightarrow> \<exists>x. add_dep_nodes g ids st = Some x"
proof (induction ids arbitrary: st)
  case Nil
  then show ?case by (simp add: add_dep_nodes_def)
next
  case (Cons i ids)
  from getDepNodes_total [OF Cons.prems] obtain r where "getDepNodes g i = Some r" by blast
  with Cons show ?case by (simp add: add_dep_nodes_Cons)
qed

lemma add_dep_nodes_added:
  assumes "wf_graph ptr_key g" "TopSort ptr_key g = Inr s"
  shows "set ids \<subseteq> set (g_names g) \<Longrightarrow> add_dep_nodes g ids st = Some st' \<Longrightarrow> added ((edges g)\<^sup>* `` set ids) st st'"
proof (induction ids arbitrary: st)
  case Nil
  then show ?case by (simp add: add_dep_nodes_def added_refl)
next
  case (Cons i ids)
  from Cons.prems(1) have "i \<in> set (g_names g)" by simp
  then obtain r where r: "getDepNodes g i = Some (Inr r)" "set r = {v. (i, v) \<in> (edges g)\<^sup>*}"
    by (rule getDepNodes_reach [OF assms])
  with Cons.prems(2) have rest: "add_dep_nodes g ids (fold add_dependency r st) = Some st'"
    by (simp add: add_dep_nodes_Cons)
  from Cons.prems(1) have "set ids \<subseteq> set (g_names g)" by simp
  from added_trans [OF fold_add_dependency_added Cons.IH [OF this rest]]
  have "added (set r \<union> (edges g)\<^sup>* `` set ids) st st'" .
  moreover have "set r \<union> (edges g)\<^sup>* `` set ids = (edges g)\<^sup>* `` set (i # ids)" using r(2) by auto
  ultimately show ?case by simp
qed

section \<open>The group of a configuration: results\<close>

lemma dependencyGraph_ok:
  assumes ok: "dependencyGraph fs arr tm = (tm', Some g, [])" and keyed: "keyed (tm_Tests tm)"
  shows "wf_graph ptr_key g \<and> set (g_names g) = set (gm_keys (tm_Tests tm')) \<and> edges g = dep_rel (tm_Tests tm') \<and>
    keyed (tm_Tests tm') \<and>
    (\<forall>k. map_option bare (gm_get (tm_Tests tm') k) = map_option bare (gm_get (tm_Tests tm) k))"
proof -
  from ok have e: "expandAllDeps fs arr tm = (tm', [])"
    and g: "fold_ok dep_edge (dep_pairs (tm_Tests tm')) (New ptr_key (map (\<lambda>(_, t). Key t) (tm_Tests tm'))) = Inr g"
    by (auto simp: dependencyGraph_def fold_errs_none split: prod.splits if_splits)
  from expandAllDeps_keeps [OF e keyed] test_graph [OF _ g] show ?thesis by blast
qed

lemma GroupFromConfig_None_iff:
  assumes "newTestMap fs arr (env_TestDir (gc_Env config)) = Inr tm"
    and "dependencyGraph fs arr tm = (tm', Some g, [])" and "TopSort ptr_key g = Inr s"
  shows "add_dep_nodes g ids st \<noteq> None"
  using add_dep_nodes_total [of g s] dependencyGraph_ok [OF assms(2) keyed_newTestMap [OF assms(1)]] assms(3) by auto

text \<open>
  Building a group returns: the recursion over the dependencies, which would not end on a
  cycle, only starts after the topological sort has found none.
\<close>

theorem GroupFromConfig_terminates: "GroupFromConfig fs arr config \<noteq> None"
  unfolding GroupFromConfig_def Let_def
  using GroupFromConfig_None_iff [of fs arr config]
  by (auto split: sum.split prod.split option.split)

text \<open>A test expression only finds tests of the map.\<close>

definition tags_known :: "testMap \<Rightarrow> bool" where
  "tags_known tm \<longleftrightarrow> (\<forall>tag ts. gm_get (tm_Tags tm) tag = Some ts \<longrightarrow> (\<forall>k\<in>set ts. gm_has (tm_Tests tm) k))"

lemma buildTagMap_known: "keyed (tm_Tests tm) \<Longrightarrow> tags_known (buildTagMap tm)"
proof -
  assume k: "keyed (tm_Tests tm)"
  let ?P = "\<lambda>tags. \<forall>tag ts. gm_get tags tag = Some ts \<longrightarrow> (\<forall>k\<in>set ts. gm_has (tm_Tests tm) k)"
  have one: "?P (fold (append_to i) tags m)" if "gm_has (tm_Tests tm) i" "?P m" for i tags and m :: TagMap
    using that(2)
  proof (induction tags arbitrary: m)
    case Nil
    then show ?case by simp
  next
    case (Cons tag tags)
    have "?P (append_to i tag m)" using Cons.prems that(1) by (cases "gm_get m tag") (auto simp: append_to_get)
    from Cons.IH [OF this] show ?case by simp
  qed
  have "?P (fold (\<lambda>(_, test). fold (append_to (t_DependencyID test)) (t_Tags test)) tests m)"
    if "set tests \<subseteq> set (tm_Tests tm)" "?P m" for tests and m :: TagMap
    using that
  proof (induction tests arbitrary: m)
    case Nil
    then show ?case by simp
  next
    case (Cons e tests)
    obtain j t where e: "e = (j, t)" by (cases e)
    with Cons.prems(1) have m: "(j, t) \<in> set (tm_Tests tm)" by simp
    with keyed_entries [OF k this] have "gm_has (tm_Tests tm) (t_DependencyID t)" by (auto simp: Key_def gm_has_def)
    from Cons.IH [OF _ one [OF this Cons.prems(2)]] Cons.prems(1) e show ?case by simp
  qed
  from this [OF order_refl, of "[]"] show ?thesis by (simp add: tags_known_def buildTagMap_def)
qed

lemma newTestMap_known: "newTestMap fs arr dir = Inr tm \<Longrightarrow> tags_known tm"
proof -
  assume ok: "newTestMap fs arr dir = Inr tm"
  then obtain tm0 where tm: "tm = buildTagMap tm0"
    by (auto simp: newTestMap_def split: sum.splits prod.splits if_splits)
  with keyed_newTestMap [OF ok] have "keyed (tm_Tests tm0)" by (simp add: buildTagMap_def)
  from buildTagMap_known [OF this] show ?thesis by (simp add: tm)
qed

lemma testsFromGlob_known: "testsFromGlob fs tm search dir = Inr ts \<Longrightarrow> (\<forall>k\<in>set ts. gm_has (tm_Tests tm) k)"
proof -
  assume "testsFromGlob fs tm search dir = Inr ts"
  then obtain files where f: "fold_ok (test_of_file fs tm) files [] = Inr ts"
    by (auto simp: testsFromGlob_def Let_def bind_ok_eq_Inr split: if_splits)
  then show ?thesis
    by (rule fold_ok_invariant [where P = "\<lambda>ts. (\<forall>k\<in>set ts. gm_has (tm_Tests tm) k)"])
      (auto simp: test_of_file_def bind_ok_eq_Inr split: if_splits)
qed

lemma expand_test_known:
  "tags_known tm \<Longrightarrow> expand_test fs tm dir test = Inr ts \<Longrightarrow> (\<forall>k\<in>set ts. gm_has (tm_Tests tm) k)"
  by (auto simp: expand_test_def tags_known_def dest: testsFromGlob_known split: if_splits option.splits)

lemma expandTests_known:
  assumes known: "tags_known tm" and ok: "expandTests fs arr tm config = (keys, [])"
  shows "distinct keys \<and> (\<forall>k\<in>set keys. gm_has (tm_Tests tm) k)"
proof -
  let ?f = "\<lambda>test keys. bind_ok (expand_test fs tm (env_TestDir (gc_Env config)) test) (\<lambda>tests. Inr (fold add_key tests keys))"
  from ok have "fold_ok ?f (arr (gc_Tests config)) [] = Inr keys"
    by (simp add: expandTests_def fold_errs_none)
  then show ?thesis
    by (rule fold_ok_invariant [where P = "\<lambda>keys. distinct keys \<and> (\<forall>k\<in>set keys. gm_has (tm_Tests tm) k)"])
      (auto simp: bind_ok_eq_Inr distinct_fold_add_key dest: expand_test_known [OF known, THEN bspec])
qed

text \<open>The run of \<open>GroupFromConfig\<close> that ends with a group of tests and their dependencies.\<close>

lemma GroupFromConfig_cases:
  assumes ok: "GroupFromConfig fs arr config = Some (Inr tg)" and deps: "gc_UseDeps config"
    and arr: "\<And>xs. set (arr xs) = set xs"
  obtains tm tests keys keys' tests' where
    "newTestMap fs arr (env_TestDir (gc_Env config)) = Inr tm" "keyed tests" "distinct keys"
    "\<And>k. map_option bare (gm_get tests k) = map_option bare (gm_get (tm_Tests tm) k)"
    "\<And>k d. (k, d) \<in> dep_rel tests \<Longrightarrow> gm_has tests d" "acyclic (dep_rel tests)"
    "added ((dep_rel tests)\<^sup>* `` set keys) (keys, tests) (keys', tests')"
    "tg_Tests tg = tests_of tests' keys'" "\<And>k. k \<in> set keys \<Longrightarrow> gm_has tests k"
proof -
  from ok deps obtain tm a keys tm' g s keys' tests' where
    tm: "newTestMap fs arr (env_TestDir (gc_Env config)) = Inr tm" and
    keys: "expandTests fs arr tm (config\<lparr>gc_Env := (gc_Env config)\<lparr>env_TestDir := a\<rparr>\<rparr>) = (keys, [])" and
    g: "dependencyGraph fs arr tm = (tm', Some g, [])" and s: "TopSort ptr_key g = Inr s" and
    add: "add_dep_nodes g (arr keys) (keys, tm_Tests tm') = Some (keys', tests')" and
    tg: "tg_Tests tg = tests_of tests' keys'"
    by (auto simp: GroupFromConfig_def Let_def split: sum.splits prod.splits if_splits option.splits)
  note G = dependencyGraph_ok [OF g keyed_newTestMap [OF tm]]
  then have dom: "gm_get (tm_Tests tm') k = None \<longleftrightarrow> gm_get (tm_Tests tm) k = None" for k
    by (metis option.map_disc_iff)
  have same: "gm_has (tm_Tests tm') k \<longleftrightarrow> gm_has (tm_Tests tm) k" for k
    using dom by (simp add: gm_has_def)
  from G have names: "k \<in> set (g_names g) \<longleftrightarrow> gm_has (tm_Tests tm') k" for k
    by (simp add: gm_has_iff)
  note K = expandTests_known [OF newTestMap_known [OF tm] keys]
  from G have wf: "wf_graph ptr_key g" and E: "edges g = dep_rel (tm_Tests tm')" by auto
  have "set (arr keys) \<subseteq> set (g_names g)" using K same arr names by auto
  from add_dep_nodes_added [OF wf s this add] arr E
  have A: "added ((dep_rel (tm_Tests tm'))\<^sup>* `` set keys) (keys, tm_Tests tm') (keys', tests')" by simp
  have "(k, d) \<in> dep_rel (tm_Tests tm') \<Longrightarrow> gm_has (tm_Tests tm') d" for k d
    using wf_edges_names [OF wf] names E by blast
  moreover have "acyclic (dep_rel (tm_Tests tm'))"
    using TopSort_error_iff_cycle [OF wf] s E by auto
  ultimately show thesis
    using that [OF tm _ _ _ _ _ A tg] G K same by blast
qed

lemma loaded_bare:
  assumes "newTestMap fs arr dir = Inr tm"
    and "map_option bare (gm_get tests k) = map_option bare (gm_get (tm_Tests tm) k)"
    and "gm_get tests k = Some t"
  shows "\<exists>f u ds. fs_TestFromFile fs f = Inr u \<and> t = u\<lparr>t_DependencyID := k, t_ExpandedDeps := ds\<rparr>"
proof -
  from assms(2,3) obtain v where v: "gm_get (tm_Tests tm) k = Some v" "bare t = bare v"
    by (cases "gm_get (tm_Tests tm) k") auto
  from newTestMap_loaded [OF assms(1) v(1)] obtain f u where
    "fs_TestFromFile fs f = Inr u" "v = u\<lparr>t_DependencyID := k\<rparr>" by blast
  with bare_eq [OF v(2)] show ?thesis by metis
qed

text \<open>Every test of a group is a loaded test with its name, its dependencies and its mark.\<close>

lemma GroupFromConfig_loaded:
  assumes "GroupFromConfig fs arr config = Some (Inr tg)" and "gc_UseDeps config"
    and "\<And>xs. set (arr xs) = set xs" and get: "gm_get (tg_Tests tg) k = Some t"
  shows "\<exists>f u ds b. fs_TestFromFile fs f = Inr u \<and>
    t = u\<lparr>t_DependencyID := k, t_ExpandedDeps := ds, t_IsDependency := b\<rparr>"
  using assms(1-3)
proof (cases rule: GroupFromConfig_cases)
  case (1 tm tests keys keys' tests')
  from get 1(7) obtain v where v: "gm_get tests k = Some v" "t = v \<or> t = mark v"
    by (auto simp: 1(8) map_of_tests_of added_def split: if_splits)
  from loaded_bare [OF 1(1) 1(4) v(1)] obtain f u ds where
    u: "fs_TestFromFile fs f = Inr u" "v = u\<lparr>t_DependencyID := k, t_ExpandedDeps := ds\<rparr>" by blast
  have "t = u\<lparr>t_DependencyID := k, t_ExpandedDeps := ds, t_IsDependency := t_IsDependency t\<rparr>"
    using v(2) by (auto simp: u(2) mark_def)
  with u(1) show ?thesis by blast
qed

lemma GroupFromConfig_sorted:
  assumes "GroupFromConfig fs arr config = Some (Inr tg)" and "gc_UseDeps config"
    and "\<And>xs. set (arr xs) = set xs"
  shows "\<exists>g s. DependencyGraph tg = Inr g \<and> TopSort ptr_key g = Inr s \<and> distinct s \<and>
    set s = set (gm_keys (tg_Tests tg)) \<and>
    (\<forall>(k, t)\<in>set (tg_Tests tg). t_DependencyID t = k \<and> (\<forall>d\<in>set (t_ExpandedDeps t). comes_before s k d))"
  using assms
proof (cases rule: GroupFromConfig_cases)
  case (1 tm tests keys keys' tests')
  let ?R = "dep_rel tests" and ?T = "tg_Tests tg"
  from 1(2) have "gm_ok tests" by (simp add: keyed_def)
  with 1(3,7) have keys': "distinct keys'" "set keys' = ?R\<^sup>* `` set keys" and "gm_ok tests'"
    by (auto simp: added_def)
  have get: "gm_get tests' k = None \<longleftrightarrow> gm_get tests k = None" for k
    using 1(7) by (auto simp: added_def)
  have deps: "map_option t_ExpandedDeps (gm_get tests' k) = map_option t_ExpandedDeps (gm_get tests k) \<and>
      map_option t_DependencyID (gm_get tests' k) = map_option t_DependencyID (gm_get tests k)" for k
    using 1(7) by (cases "gm_get tests k") (auto simp: added_def)
  have "keyed tests'"
    unfolding keyed_def
  proof (intro conjI allI impI)
    fix k t assume "gm_get tests' k = Some t"
    with deps [of k] keyed_get [OF 1(2), of k] show "t_DependencyID t = k"
      by (cases "gm_get tests k") auto
  qed fact
  then have keyed: "keyed ?T" by (simp add: 1(8) keyed_tests_of keys'(1))
  have has: "gm_has tests k" if "k \<in> set keys'" for k
    using that 1(5,9) unfolding keys'(2) by (auto elim: rtranclE)
  then have names: "set (gm_keys ?T) = set keys'"
    using get by (auto simp: 1(8) keys_tests_of gm_has_def simp del: set_map)
  have sub: "dep_rel ?T \<subseteq> ?R" and inside: "\<And>k d. (k, d) \<in> dep_rel ?T \<Longrightarrow> k \<in> set keys' \<and> d \<in> set keys'"
  proof -
    have R: "(k, d) \<in> ?R \<and> k \<in> set keys'" if "(k, d) \<in> dep_rel ?T" for k d
      using that deps [of k] by (cases "gm_get tests k") (auto simp: dep_rel_def 1(8) map_of_tests_of split: if_splits)
    then show "dep_rel ?T \<subseteq> ?R" by auto
    fix k d assume "(k, d) \<in> dep_rel ?T"
    from R [OF this] show "k \<in> set keys' \<and> d \<in> set keys'"
      unfolding keys'(2) by (auto intro: rtrancl_into_rtrancl)
  qed
  let ?g0 = "New ptr_key (map (\<lambda>(_, t). Key t) ?T)"
  have g0: "set (g_names ?g0) = set keys'"
    using names by (simp add: names_New ptr_key_def keyed_keys [OF keyed] del: map_map set_map)
  have "\<forall>(u, v)\<in>set (dep_pairs ?T). u \<noteq> v \<and> u \<in> set (g_names ?g0) \<and> v \<in> set (g_names ?g0)"
    using inside sub 1(6) unfolding g0 dep_pairs_rel [OF keyed] by (auto simp: acyclic_def dest!: subsetD)
  from dep_edges_succeed [OF wf_New this] obtain g where g: "fold_ok dep_edge (dep_pairs ?T) ?g0 = Inr g" by blast
  note G = test_graph [OF keyed g]
  have "acyclic (edges g)" using G sub 1(6) by (metis acyclic_subset)
  then obtain s where s: "TopSort ptr_key g = Inr s"
    using TopSort_error_iff_cycle [of ptr_key g] G by (metis sum.exhaust)
  from G have wf: "wf_graph ptr_key g" by blast
  note S = TopSort_sound [OF wf s]
  have "\<forall>(k, t)\<in>set ?T. t_DependencyID t = k \<and> (\<forall>d\<in>set (t_ExpandedDeps t). comes_before s k d)"
    using keyed_entries [OF keyed] S G by (fastforce simp: Key_def dep_rel_def)
  with g s S G show ?thesis by (auto simp: DependencyGraph_def Let_def simp del: set_map)
qed

text \<open>In the words of the clients: the dependencies are tests of the group, and a number goes down along them.\<close>

lemma comes_before_in: "comes_before s u v \<Longrightarrow> u \<in> set s \<and> v \<in> set s"
  by (auto simp: comes_before_def)

lemma GroupFromConfig_ranked:
  assumes "GroupFromConfig fs arr config = Some (Inr tg)" and "gc_UseDeps config"
    and "\<And>xs. set (arr xs) = set xs"
  obtains rk :: "string \<Rightarrow> nat" where
    "\<And>k t d. gm_get (tg_Tests tg) k = Some t \<Longrightarrow> d \<in> set (t_ExpandedDeps t) \<Longrightarrow>
       gm_has (tg_Tests tg) d \<and> rk d < rk k"
proof -
  from GroupFromConfig_sorted [OF assms] obtain s where s: "distinct s" "set s = set (gm_keys (tg_Tests tg))"
    "\<forall>(k, t)\<in>set (tg_Tests tg). t_DependencyID t = k \<and> (\<forall>d\<in>set (t_ExpandedDeps t). comes_before s k d)"
    by blast
  show thesis
  proof (rule that [of "rank s"])
    fix k t d assume "gm_get (tg_Tests tg) k = Some t" "d \<in> set (t_ExpandedDeps t)"
    with s(3) have "comes_before s k d" by (auto dest!: map_of_SomeD)
    with rank_less [OF s(1) this] comes_before_in [OF this] s(2)
    show "gm_has (tg_Tests tg) d \<and> rank s d < rank s k" by (simp add: gm_has_iff)
  qed
qed

text \<open>
  C15. A group built with dependencies is closed under them: every dependency of a test of the
  group is a test of the group, the dependency graph of the group exists, and its topological
  sort gives an order of all tests of the group in which a test stands before what it depends on.
\<close>

theorem GroupFromConfig_closed:
  assumes "GroupFromConfig fs arr config = Some (Inr tg)" and "gc_UseDeps config"
    and "\<And>xs. set (arr xs) = set xs"
  shows "\<exists>g s. DependencyGraph tg = Inr g \<and> TopSort ptr_key g = Inr s \<and> distinct s \<and>
    set s = set (gm_keys (tg_Tests tg)) \<and>
    (\<forall>(k, t)\<in>set (tg_Tests tg). t_DependencyID t = k \<and> (\<forall>d\<in>set (t_ExpandedDeps t). comes_before s k d))"
  by (rule GroupFromConfig_sorted [OF assms])

text \<open>
  A group built with dependencies holds the tests that were asked for and the tests these
  depend on, directly or through others, and nothing else; exactly the second kind carries the
  mark \<open>IsDependency\<close>.
\<close>

theorem GroupFromConfig_marks:
  assumes "GroupFromConfig fs arr config = Some (Inr tg)" and "gc_UseDeps config"
    and "\<And>xs. set (arr xs) = set xs"
    and "\<And>f t. fs_TestFromFile fs f = Inr t \<Longrightarrow> \<not> t_IsDependency t"
  shows "\<forall>(k, t)\<in>set (tg_Tests tg).
     \<exists>(r, u)\<in>set (tg_Tests tg). \<not> t_IsDependency u \<and> (r, k) \<in> (dep_rel (tg_Tests tg))\<^sup>* \<and>
       (t_IsDependency t \<longrightarrow> (r, k) \<in> (dep_rel (tg_Tests tg))\<^sup>+)"
  using assms(1-3)
proof (cases rule: GroupFromConfig_cases)
  case (1 tm tests keys keys' tests')
  let ?R = "dep_rel tests" and ?T = "tg_Tests tg"
  from 1(3,7) have keys': "distinct keys'" "set keys' = ?R\<^sup>* `` set keys"
    by (auto simp: added_def)
  have fresh: "\<not> t_IsDependency t" if t: "gm_get tests k = Some t" for k t
    using loaded_bare [OF 1(1) 1(4) t] assms(4) by auto
  have get: "gm_get ?T k = Some t \<longleftrightarrow> k \<in> set keys' \<and>
      (\<exists>u. gm_get tests k = Some u \<and> t = (if k \<in> set keys then u else mark u))" for k t
    using 1(7) by (auto simp: 1(8) map_of_tests_of added_def)
  have path: "(r, k) \<in> (dep_rel ?T)\<^sup>*" if "(r, k) \<in> ?R\<^sup>*" "r \<in> set keys" for r k
    using that
  proof (induction rule: rtrancl_induct)
    case base
    then show ?case by simp
  next
    case (step k d)
    then have "k \<in> set keys'" unfolding keys'(2) by auto
    with step(2) have "(k, d) \<in> dep_rel ?T"
      by (cases "k \<in> set keys") (auto simp: dep_rel_def get)
    with step show ?case by (simp add: rtrancl_into_rtrancl)
  qed
  show ?thesis
  proof clarify
    fix k t assume kt: "(k, t) \<in> set ?T"
    have "gm_ok ?T" by (simp add: 1(8) gm_ok_def keys_tests_of keys'(1) del: map_map)
    with kt have "gm_get ?T k = Some t" by (simp add: gm_get_in)
    then obtain u where k: "k \<in> set keys'" and t: "gm_get tests k = Some u" "t = (if k \<in> set keys then u else mark u)"
      by (auto simp: get)
    from k obtain r where r: "r \<in> set keys" "(r, k) \<in> ?R\<^sup>*" unfolding keys'(2) by auto
    from 1(9) [OF r(1)] obtain v where v: "gm_get tests r = Some v" by (auto simp: gm_has_def)
    from r(1) have "r \<in> set keys'" unfolding keys'(2) by auto
    with v r(1) have "gm_get ?T r = Some v" by (simp add: get)
    then have "(r, v) \<in> set ?T" by (rule map_of_SomeD)
    moreover have "t_IsDependency t \<Longrightarrow> r \<noteq> k" using t fresh [OF t(1)] r(1) by auto
    then have "t_IsDependency t \<longrightarrow> (r, k) \<in> (dep_rel ?T)\<^sup>+"
      using path [OF r(2,1)] by (auto simp: rtrancl_eq_or_trancl)
    ultimately show "\<exists>(r, u)\<in>set ?T. \<not> t_IsDependency u \<and> (r, k) \<in> (dep_rel ?T)\<^sup>* \<and>
        (t_IsDependency t \<longrightarrow> (r, k) \<in> (dep_rel ?T)\<^sup>+)"
      using path [OF r(2,1)] fresh [OF v] by blast
  qed
qed

lemma GroupFromConfig_gm_ok:
  assumes "GroupFromConfig fs arr config = Some (Inr tg)" and "gc_UseDeps config"
    and "\<And>xs. set (arr xs) = set xs"
  shows "gm_ok (tg_Tests tg)"
  using assms
proof (cases rule: GroupFromConfig_cases)
  case (1 tm tests keys keys' tests')
  then have "distinct keys'" by (auto simp: added_def)
  then show ?thesis by (simp add: 1(8) gm_ok_def keys_tests_of del: map_map)
qed

section \<open>Concrete groups\<close>

text \<open>Three tests in a directory: the lock test needs the boot test and the tests tagged \<open>kleaks\<close>.\<close>

definition sample_files :: Files where
  "sample_files = \<lparr>fs_Getwd = Inr ''/t'',
     fs_Glob = (\<lambda>g. if g = ''/t/**/*.t'' then Inr [''/t/boot.t'', ''/t/kl.t'', ''/t/lt.t''] else Inr [g]),
     fs_TestFromFile = (\<lambda>f. Inr (if f = ''/t/lt.t'' then (blank_test [])\<lparr>t_Depends := [''/boot.t'', ''kleaks'']\<rparr>
        else if f = ''/t/kl.t'' then (blank_test [])\<lparr>t_Tags := [''kleaks''], t_Depends := [''/boot.t'']\<rparr>
        else blank_test []))\<rparr>"

definition sample_config :: GroupConfig where
  "sample_config = \<lparr>gc_Name = ''locks'', gc_UseDeps = True, gc_Tests = [''lt.t''], gc_Env = blank_env\<rparr>"

lemma sample_group:
  "map_option (map_sum id (\<lambda>tg. map (\<lambda>(k, t). (k, t_IsDependency t)) (tg_Tests tg)))
     (GroupFromConfig sample_files rev sample_config) =
   Some (Inr [(''lt.t'', False), (''boot.t'', True), (''kl.t'', True)])"
  by code_simp

lemma sample_group_ok:
  obtains tg where "GroupFromConfig sample_files rev sample_config = Some (Inr tg)"
    "gm_keys (tg_Tests tg) = [''lt.t'', ''boot.t'', ''kl.t'']"
proof -
  let ?f = "\<lambda>(k, t). (k, t_IsDependency t)"
  from sample_group obtain r where r: "GroupFromConfig sample_files rev sample_config = Some r"
    and "map_sum id (\<lambda>tg. map ?f (tg_Tests tg)) r = Inr [(''lt.t'', False), (''boot.t'', True), (''kl.t'', True)]"
    by (auto simp only: map_option_eq_Some)
  then obtain tg where tg: "r = Inr tg" "map ?f (tg_Tests tg) = [(''lt.t'', False), (''boot.t'', True), (''kl.t'', True)]"
    by (cases r) auto
  have "gm_keys (tg_Tests tg) = map fst (map ?f (tg_Tests tg))" by (simp add: comp_def split_def)
  also have "\<dots> = [''lt.t'', ''boot.t'', ''kl.t'']" by (simp add: tg(2))
  finally show thesis by (rule that [OF r [unfolded tg(1)]])
qed

lemma sample_fresh: "fs_TestFromFile sample_files f = Inr t \<Longrightarrow> \<not> t_IsDependency t"
  by (auto simp: sample_files_def blank_test_def split: if_splits)

lemma GroupFromConfig_closed_witness:
  "\<exists>tg g s. GroupFromConfig sample_files rev sample_config = Some (Inr tg) \<and> DependencyGraph tg = Inr g \<and>
     TopSort ptr_key g = Inr s \<and> set s = {''lt.t'', ''boot.t'', ''kl.t''}"
proof -
  obtain tg where tg: "GroupFromConfig sample_files rev sample_config = Some (Inr tg)"
    and keys: "gm_keys (tg_Tests tg) = [''lt.t'', ''boot.t'', ''kl.t'']" by (rule sample_group_ok)
  have "gc_UseDeps sample_config" by (simp add: sample_config_def)
  from GroupFromConfig_closed [OF tg this set_rev] obtain g s where
    "DependencyGraph tg = Inr g" "TopSort ptr_key g = Inr s" "set s = set (gm_keys (tg_Tests tg))" by blast
  moreover have "set (gm_keys (tg_Tests tg)) = {''lt.t'', ''boot.t'', ''kl.t''}"
    unfolding keys by simp
  ultimately show ?thesis using tg by (intro exI conjI) (assumption | simp)+
qed

lemma GroupFromConfig_marks_witness:
  "\<exists>tg. GroupFromConfig sample_files rev sample_config = Some (Inr tg) \<and>
     (\<exists>(r, u)\<in>set (tg_Tests tg). \<not> t_IsDependency u \<and> (r, ''boot.t'') \<in> (dep_rel (tg_Tests tg))\<^sup>*)"
proof -
  obtain tg where tg: "GroupFromConfig sample_files rev sample_config = Some (Inr tg)"
    and keys: "gm_keys (tg_Tests tg) = [''lt.t'', ''boot.t'', ''kl.t'']" by (rule sample_group_ok)
  have "''boot.t'' \<in> set (gm_keys (tg_Tests tg))" by (simp add: keys del: set_map)
  then obtain t where t: "(''boot.t'', t) \<in> set (tg_Tests tg)" by auto
  have "gc_UseDeps sample_config" by (simp add: sample_config_def)
  from GroupFromConfig_marks [OF tg this set_rev sample_fresh] t
  have "\<exists>(r, u)\<in>set (tg_Tests tg). \<not> t_IsDependency u \<and> (r, ''boot.t'') \<in> (dep_rel (tg_Tests tg))\<^sup>*"
    by fastforce
  with tg show ?thesis by (intro exI [of _ tg] conjI)
qed

end
