(* ===== verification/Targets.thy ===== *)
theory Targets
  imports TestGroups InputLine
begin

text \<open>
  Targets (\<open>target.go\<close>): reading a target, applying its points to the tests of a group, the
  links between metatargets and subtargets, making a runnable group, and the check that decides
  whether a target may change without a new version.

  A \<open>*Target\<close> is its name, the key of \<open>env.Targets\<close>. Asking a command for its id panics when
  the input line has no word: \<open>Inl None\<close> is a panic and \<open>Inl (Some e)\<close> the error \<open>e\<close>.
\<close>

type_synonym 'a outcome = "string option + 'a"

abbreviation fail_with :: "string \<Rightarrow> 'a outcome" where
  "fail_with e \<equiv> Inl (Some e)"

abbreviation quoted :: "string \<Rightarrow> string" where
  "quoted s \<equiv> CHR 0x27 # s @ [CHR 0x27]"

section \<open>Reading a target\<close>

definition NewTarget :: Target where
  "NewTarget = \<lparr>tgt_ID = [], tgt_Name = [], tgt_Active = [], tgt_Version = 0, tgt_Type = ''asst'', tgt_Points = 0,
     tgt_KConfig = [], tgt_RequiredCommit = [], tgt_RequiresUserland = False, tgt_Tests = [], tgt_FileHash = [],
     tgt_FileName = [], tgt_IsMetaTarget = False, tgt_SubTargetNames = [], tgt_MetaName = [], tgt_PrintName = [],
     tgt_Description = [], tgt_Link = [], tgt_Leaderboard = [], tgt_metaTarget = None, tgt_previousSubTargets = []\<rparr>"

definition Target_fixDefaults :: "Target \<Rightarrow> Target" where
  "Target_fixDefaults t =
     t\<lparr>tgt_Tests := map (\<lambda>test. if tt_Scoring test \<noteq> TEST_SCORING_PARTIAL
                                then test\<lparr>tt_Scoring := TEST_SCORING_ENTIRE\<rparr> else test) (tgt_Tests t),
       tgt_Active := (if tgt_Active t \<noteq> ''false'' then ''true'' else tgt_Active t),
       tgt_Leaderboard := (if tgt_Leaderboard t \<noteq> ''false'' then ''true'' else tgt_Leaderboard t)\<rparr>"

text \<open>\<open>unmarshal\<close> is the YAML library: it fills the given target from the text.\<close>

definition TargetFromString :: "(string \<Rightarrow> Target \<Rightarrow> string + Target) \<Rightarrow> string \<Rightarrow> string + Target" where
  "TargetFromString unmarshal s = bind_ok (unmarshal s NewTarget) (\<lambda>t. Inr (Target_fixDefaults t))"

text \<open>\<open>stat\<close> gives the base name of a file, \<open>hash\<close> the hexadecimal MD5 digest.\<close>

definition TargetFromFile ::
  "(string \<Rightarrow> string + string) \<Rightarrow> (string \<Rightarrow> string + string) \<Rightarrow> (string \<Rightarrow> string) \<Rightarrow>
   (string \<Rightarrow> Target \<Rightarrow> string + Target) \<Rightarrow> string \<Rightarrow> string + Target" where
  "TargetFromFile stat ReadFile hash unmarshal file =
     bind_ok (stat file) (\<lambda>info.
       case ReadFile file of
         Inl err \<Rightarrow> Inl (''Error reading file '' @ file @ '': '' @ err)
       | Inr data \<Rightarrow>
           (case TargetFromString unmarshal data of
              Inl err \<Rightarrow> Inl (''Error loading target file '' @ file @ '': '' @ err)
            | Inr t \<Rightarrow> Inr (t\<lparr>tgt_FileName := info, tgt_FileHash := hash data\<rparr>)))"

section \<open>Applying a target to a test\<close>

text \<open>
  A \<open>cmdData\<close> is the position of its command in the test; \<open>done\<close> is the list of the positions
  whose flag is set.
\<close>

definition commandInstances :: "Command list \<Rightarrow> (string, nat list) gomap outcome" where
  "commandInstances cmds =
     fold_ok (\<lambda>(i, cmd) m. case Command_Id cmd of None \<Rightarrow> Inl None | Some ident \<Rightarrow> Inr (append_to i ident m))
       (enumerate 0 cmds) []"

type_synonym apply_state = "Command list \<times> nat list \<times> uint"

definition override_args :: "TargetCommand \<Rightarrow> Command \<Rightarrow> Command outcome" where
  "override_args cmd c =
     (if tc_Args cmd = [] then Inr c
      else (case replaceArgs (tc_Args cmd) (in_Line (c_Input c)) of
              None \<Rightarrow> Inl None
            | Some l \<Rightarrow> Inr (c\<lparr>c_Input := (c_Input c)\<lparr>in_Line := l\<rparr>\<rparr>)))"

definition apply_instance :: "TargetTest \<Rightarrow> TargetCommand \<Rightarrow> nat \<Rightarrow> apply_state \<Rightarrow> apply_state outcome" where
  "apply_instance tt cmd i = (\<lambda>(cmds, dn, pointsAssigned).
     if i \<in> set dn then fail_with (''Command instance already instantiated. Command: '' @ tc_Id cmd)
     else bind_ok (override_args cmd (cmds ! i)) (\<lambda>c.
       if tt_Scoring tt = TEST_SCORING_PARTIAL
       then Inr (cmds[i := c\<lparr>c_PointsAvailable := tc_Points cmd\<rparr>], dn @ [i], pointsAssigned + tc_Points cmd)
       else Inr (cmds[i := c], dn @ [i], pointsAssigned)))"

definition apply_command :: "(string, nat list) gomap \<Rightarrow> TargetTest \<Rightarrow> TargetCommand \<Rightarrow> apply_state \<Rightarrow> apply_state outcome" where
  "apply_command insts tt cmd st =
     (case gm_get insts (tc_Id cmd) of
        None \<Rightarrow> fail_with (''Cannot find command instance: '' @ tc_Id cmd)
      | Some instances \<Rightarrow>
          if 0 < tc_Index cmd then
            (if int (length instances) < tc_Index cmd then fail_with (''Invalid command index for '' @ tc_Id cmd)
             else fold_ok (apply_instance tt cmd) [instances ! nat (tc_Index cmd - 1)] st)
          else fold_ok (apply_instance tt cmd) instances st)"

fun check_covered :: "nat list \<Rightarrow> TargetCommand list \<Rightarrow> (string, nat list) gomap \<Rightarrow> unit outcome" where
  "check_covered dn [] insts = Inr ()"
| "check_covered dn (cmd # cmds) insts =
     (if \<exists>i\<in>set (case gm_get insts (tc_Id cmd) of Some is \<Rightarrow> is | None \<Rightarrow> []). i \<notin> set dn
      then fail_with (''Unassigned command instance: '' @ tc_Id cmd)
      else check_covered dn cmds (gm_del (tc_Id cmd) insts))"

definition applyTo :: "TargetTest \<Rightarrow> Test \<Rightarrow> Test outcome" where
  "applyTo tt test =
     (let test' = test\<lparr>t_PointsAvailable := tt_Points tt, t_ScoringMethod := tt_Scoring tt,
                       t_MemLeakPoints := tt_MemLeakPoints tt\<rparr>
      in bind_ok (commandInstances (t_Commands test')) (\<lambda>insts.
         bind_ok (fold_ok (apply_command insts tt) (tt_Commands tt) (t_Commands test', [], 0)) (\<lambda>(cmds, dn, pointsAssigned).
           if tt_Scoring tt = TEST_SCORING_PARTIAL \<and> pointsAssigned \<noteq> tt_Points tt
           then fail_with (''Invalid partial command point assignment: available ('' @ Itoa (unat (tt_Points tt)) @
                  '') != assigned ('' @ Itoa (unat pointsAssigned) @ '')'')
           else bind_ok (check_covered dn (tt_Commands tt) insts) (\<lambda>_. Inr (test'\<lparr>t_Commands := cmds\<rparr>)))))"

section \<open>Metatargets\<close>

text \<open>The loop over the names of the metatarget: the siblings before \<open>name\<close>, or \<open>None\<close> when it is missing.\<close>

fun subtargets_before :: "(string, Target) gomap \<Rightarrow> Target \<Rightarrow> string \<Rightarrow> string list \<Rightarrow> string list \<Rightarrow> string + string list option" where
  "subtargets_before targets meta this [] others = Inr None"
| "subtargets_before targets meta this (name # names) others =
     (if name = this then Inr (Some others)
      else if gm_has targets name then subtargets_before targets meta this names (others @ [name])
      else Inl (''Cannot find subtarget '' @ quoted name @ '' in metatarget '' @ quoted (tgt_Name meta)))"

definition initAsSubTarget :: "Target \<Rightarrow> TestEnvironment \<Rightarrow> string + Target" where
  "initAsSubTarget t env =
     (if tgt_MetaName t = [] then Inr t
      else (case gm_get (env_Targets env) (tgt_MetaName t) of
              None \<Rightarrow> Inl (''Cannot find the metatarget '' @ quoted (tgt_MetaName t) @ ''.'')
            | Some meta \<Rightarrow>
                bind_ok (subtargets_before (env_Targets env) meta (tgt_Name t) (tgt_SubTargetNames meta) []) (\<lambda>found.
                  case found of
                    None \<Rightarrow> Inl (''Cannot find main subtarget '' @ quoted (tgt_Name t) @ '' in metatarget '' @ quoted (tgt_Name meta))
                  | Some others \<Rightarrow>
                      Inr (t\<lparr>tgt_metaTarget := Some (tgt_MetaName t), tgt_previousSubTargets := others\<rparr>))))"

definition meta_subtarget :: "(string, Target) gomap \<Rightarrow> Target \<Rightarrow> string \<Rightarrow> string list \<times> uint \<Rightarrow> string + string list \<times> uint" where
  "meta_subtarget targets t subname = (\<lambda>(subs, points).
     case gm_get targets subname of
       None \<Rightarrow> Inl (''Cannot find subtarget '' @ quoted subname)
     | Some subtarget \<Rightarrow>
         (let points' = points + tgt_Points subtarget
          in if tgt_RequiresUserland subtarget \<noteq> tgt_RequiresUserland t
             then Inl ''Subtarget and metatarget must have the same userland requirement.''
             else if tgt_KConfig subtarget \<noteq> tgt_KConfig t
             then Inl ''Subtarget and metatarget must use the same kernel configuration.''
             else if tgt_Type subtarget \<noteq> tgt_Type t
             then Inl ''Subtarget and metatarget must have the same type.''
             else Inr (subs @ [subname], points')))"

definition initAsMetaTarget :: "Target \<Rightarrow> TestEnvironment \<Rightarrow> string + Target" where
  "initAsMetaTarget t env =
     (if \<not> tgt_IsMetaTarget t then Inl (''Target '' @ quoted (tgt_Name t) @ '' is not a metatarget'')
      else if tgt_Tests t \<noteq> []
      then Inl (''MetaTargets cannot have additional tests. Metatarget: '' @ tgt_Name t)
      else if tgt_SubTargetNames t = []
      then Inl (''MetaTargets must contain at least one subtarget. Metatarget: '' @ tgt_Name t)
      else bind_ok (fold_ok (meta_subtarget (env_Targets env) t) (tgt_SubTargetNames t) ([], 0)) (\<lambda>(subs, points).
        if points \<noteq> tgt_Points t
        then Inl (''Metatarget points ('' @ Itoa (unat (tgt_Points t)) @ '') do not match total of subtarget points ('' @
               Itoa (unat points) @ '')'')
        else Inr (t\<lparr>tgt_previousSubTargets := subs\<rparr>)))"

section \<open>A runnable group\<close>

text \<open>The recursion over the dependencies, with fuel for its depth as in \<open>getDepNodesHelper\<close>.\<close>

fun assignTestRequiredBy :: "nat \<Rightarrow> string \<Rightarrow> string \<Rightarrow> (string, Test) gomap \<Rightarrow> (string, Test) gomap option" where
  "assignTestRequiredBy 0 name test tests = None"
| "assignTestRequiredBy (Suc fuel) name test tests =
     (case gm_get tests test of
        None \<Rightarrow> Some tests
      | Some t \<Rightarrow>
          fold (\<lambda>dep acc. Option.bind acc (assignTestRequiredBy fuel name dep)) (t_ExpandedDeps t)
            (Some (gm_put test (t\<lparr>t_requiredBy := add_key name (t_requiredBy t)\<rparr>) tests)))"

definition assignRequiredBy :: "(string, Test) gomap \<Rightarrow> (string, Test) gomap option" where
  "assignRequiredBy tests =
     fold (\<lambda>(k, test) acc. if t_TargetName test \<noteq> []
             then Option.bind acc (assignTestRequiredBy (Suc (length tests)) (t_TargetName test) k) else acc)
       tests (Some tests)"

definition allTargets :: "Target \<Rightarrow> TestEnvironment \<Rightarrow> Target list" where
  "allTargets t env =
     (if tgt_IsMetaTarget t then [] else [t]) @ List.map_filter (gm_get (env_Targets env)) (tgt_previousSubTargets t)"

definition collect_test :: "TargetTest \<Rightarrow> string list \<Rightarrow> string + string list" where
  "collect_test tt ids =
     (if tt_Id tt \<in> set ids
      then Inl (''Duplicate test detected: '' @ quoted (tt_Id tt) @ ''. Duplicate tests are not allowed in targets.'')
      else Inr (ids @ [tt_Id tt]))"

definition apply_test :: "Target \<Rightarrow> TargetTest \<Rightarrow> (string, Test) gomap \<times> uint \<Rightarrow> ((string, Test) gomap \<times> uint) outcome" where
  "apply_test target tt = (\<lambda>(tests, total).
     case gm_get tests (tt_Id tt) of
       None \<Rightarrow> fail_with (''Cannot find '' @ tt_Id tt @ '' in the TestGroup'')
     | Some test \<Rightarrow>
         bind_ok (applyTo tt test) (\<lambda>test'.
           Inr (gm_put (tt_Id tt) (test'\<lparr>t_TargetName := tgt_Name target\<rparr>) tests, total + tt_Points tt)))"

definition apply_target :: "Target \<Rightarrow> (string, Test) gomap \<Rightarrow> (string, Test) gomap outcome" where
  "apply_target target tests =
     bind_ok (fold_ok (apply_test target) (tgt_Tests target) (tests, 0)) (\<lambda>(tests', total).
       if total \<noteq> tgt_Points target
       then fail_with (''Target points ('' @ Itoa (unat (tgt_Points target)) @ '') do not match sum(test points) ('' @
              Itoa (unat total) @ '')'')
       else Inr tests')"

text \<open>
  The list of errors and the panic of an instance: \<open>Inl None\<close> also stands for a recursion that
  does not return.
\<close>

definition Instance :: "Files \<Rightarrow> (string list \<Rightarrow> string list) \<Rightarrow> Target \<Rightarrow> TestEnvironment \<Rightarrow> string list option + TestGroup" where
  "Instance fs arr t env =
     (case fold_ok collect_test (concat (map tgt_Tests (allTargets t env))) [] of
        Inl err \<Rightarrow> Inl (Some [err])
      | Inr ids \<Rightarrow>
          (case GroupFromConfig fs arr \<lparr>gc_Name = tgt_Name t, gc_UseDeps = True, gc_Tests = ids, gc_Env = env\<rparr> of
             None \<Rightarrow> Inl None
           | Some (Inl errs) \<Rightarrow> Inl (Some errs)
           | Some (Inr tg) \<Rightarrow>
               (case fold_ok apply_target (allTargets t env) (tg_Tests tg) of
                  Inl None \<Rightarrow> Inl None
                | Inl (Some err) \<Rightarrow> Inl (Some [err])
                | Inr tests \<Rightarrow>
                    (case assignRequiredBy tests of
                       None \<Rightarrow> Inl None
                     | Some tests' \<Rightarrow> Inr (tg\<lparr>tg_Tests := tests'\<rparr>)))))"

section \<open>Changing a target\<close>

definition old_test_error :: "(string, TargetTest) gomap \<Rightarrow> TargetTest \<Rightarrow> string option" where
  "old_test_error oldMap t =
     (case gm_get oldMap (tt_Id t) of
        None \<Rightarrow> Some (''Test '' @ tt_Id t @ '' was removed in the new target, which requires a version change'')
      | Some oldVer \<Rightarrow>
          if tt_Points oldVer \<noteq> tt_Points t
          then Some (''The point distribution for '' @ tt_Id t @ '' changed in the new target, which requires a version change'')
          else if tt_Scoring oldVer \<noteq> tt_Scoring t
          then Some (''The scoring method for '' @ tt_Id t @ '' changed in the new target, which requires a version change'')
          else if tt_MemLeakPoints oldVer \<noteq> tt_MemLeakPoints t
          then Some ''The memory leak points for %v changed in the new target, which requires a version change''
          else None)"

fun first_error :: "('a \<Rightarrow> 'e option) \<Rightarrow> 'a list \<Rightarrow> 'e option" where
  "first_error f [] = None"
| "first_error f (x # xs) = (case f x of Some e \<Rightarrow> Some e | None \<Rightarrow> first_error f xs)"

definition isChangeAllowed :: "Target \<Rightarrow> Target \<Rightarrow> string option" where
  "isChangeAllowed old other =
     (if tgt_Version old \<noteq> tgt_Version other
      then Some ''Mismatched target versions. isChangeAllowed only applies to targets with the same version number.''
      else if tgt_Name old \<noteq> tgt_Name other then Some ''Changing the target name requires a version change''
      else if tgt_Type old \<noteq> tgt_Type other then Some ''Changing the target type requires a version change''
      else if tgt_Points old \<noteq> tgt_Points other then Some ''Changing the target points requires a version change''
      else if tgt_IsMetaTarget old \<noteq> tgt_IsMetaTarget other
      then Some ''Chaning the target is_meta_target flag requires a version change''
      else if length (tgt_Tests old) \<noteq> length (tgt_Tests other)
      then Some ''Changing the number of tests requiers a version change''
      else (case first_error (old_test_error (fold (\<lambda>t. gm_put (tt_Id t) t) (tgt_Tests old) [])) (tgt_Tests other) of
              Some err \<Rightarrow> Some err
            | None \<Rightarrow>
                if length (tgt_SubTargetNames old) \<noteq> length (tgt_SubTargetNames other)
                then Some ''Changing the number of subtargets requiers a version change''
                else first_error
                  (\<lambda>name. if name \<notin> set (tgt_SubTargetNames old)
                          then Some (''Subtarget '' @ name @ '' was removed in the new target, which requires a version change'')
                          else None)
                  (tgt_SubTargetNames other)))"

section \<open>Commands of a test\<close>

abbreviation ids_of :: "Command list \<Rightarrow> string option list" where
  "ids_of cmds \<equiv> map Command_Id cmds"

text \<open>The positions of the commands with an id.\<close>

definition positions :: "string \<Rightarrow> Command list \<Rightarrow> nat list" where
  "positions ident cmds = filter (\<lambda>i. Command_Id (cmds ! i) = Some ident) [0..<length cmds]"

lemma positions_snoc:
  "positions ident (cmds @ [c]) = positions ident cmds @ (if Command_Id c = Some ident then [length cmds] else [])"
proof -
  have "filter (\<lambda>i. Command_Id ((cmds @ [c]) ! i) = Some ident) [0..<length cmds] = positions ident cmds"
    unfolding positions_def by (rule filter_cong) (auto simp: nth_append)
  then show ?thesis by (simp add: positions_def nth_append)
qed

lemma commandInstances_spec:
  "commandInstances cmds = Inr m \<Longrightarrow>
   gm_get m ident = (if positions ident cmds = [] then None else Some (positions ident cmds))"
proof (induction cmds arbitrary: m rule: rev_induct)
  case Nil
  then show ?case by (simp add: commandInstances_def positions_def)
next
  case (snoc c cmds)
  from snoc.prems obtain m' j where m': "commandInstances cmds = Inr m'"
    and c: "Command_Id c = Some j" "m = append_to (length cmds) j m'"
    by (auto simp: commandInstances_def enumerate_append_eq fold_ok_append bind_ok_eq_Inr split: option.splits)
  from snoc.IH [OF m'] show ?case
    by (auto simp: c append_to_get positions_snoc)
qed

text \<open>Every command that the target names at some position.\<close>

definition named :: "TargetTest \<Rightarrow> Command list \<Rightarrow> nat set" where
  "named tt cmds = {i. i < length cmds \<and> (\<exists>tc\<in>set (tt_Commands tt). Command_Id (cmds ! i) = Some (tc_Id tc))}"

lemma finite_named [simp]: "finite (named tt cmds)"
  by (simp add: named_def)

text \<open>
  The state of the first pass after the positions in \<open>dn\<close>: with partial scoring the points handed
  out are the points of those commands; every other command is as it was.
\<close>

definition apply_inv :: "TargetTest \<Rightarrow> Command list \<Rightarrow> apply_state \<Rightarrow> bool" where
  "apply_inv tt cmds0 = (\<lambda>(cmds, dn, assigned).
     length cmds = length cmds0 \<and> distinct dn \<and> set dn \<subseteq> named tt cmds0 \<and>
     (\<forall>i<length cmds0. i \<notin> set dn \<longrightarrow> cmds ! i = cmds0 ! i) \<and>
     (if tt_Scoring tt = TEST_SCORING_PARTIAL
      then assigned = (\<Sum>i\<in>set dn. c_PointsAvailable (cmds ! i)) \<and>
        (\<forall>i\<in>set dn. \<exists>tc\<in>set (tt_Commands tt).
           Command_Id (cmds0 ! i) = Some (tc_Id tc) \<and> c_PointsAvailable (cmds ! i) = tc_Points tc)
      else \<forall>i<length cmds0. c_PointsAvailable (cmds ! i) = c_PointsAvailable (cmds0 ! i)))"

lemma apply_instance_inv:
  assumes inv: "apply_inv tt cmds0 st" and tc: "tc \<in> set (tt_Commands tt)"
    and i: "i < length cmds0" "Command_Id (cmds0 ! i) = Some (tc_Id tc)"
    and ok: "apply_instance tt tc i st = Inr st'"
  shows "apply_inv tt cmds0 st'"
proof -
  obtain cmds dn assigned where st: "st = (cmds, dn, assigned)" by (cases st)
  from ok obtain c where c: "c_PointsAvailable c = c_PointsAvailable (cmds ! i)" and fresh: "i \<notin> set dn"
    and st': "st' = (if tt_Scoring tt = TEST_SCORING_PARTIAL
       then (cmds[i := c\<lparr>c_PointsAvailable := tc_Points tc\<rparr>], dn @ [i], assigned + tc_Points tc)
       else (cmds[i := c], dn @ [i], assigned))"
  proof -
    from ok obtain c where c: "override_args tc (cmds ! i) = Inr c" and fresh: "i \<notin> set dn"
      and st': "(if tt_Scoring tt = TEST_SCORING_PARTIAL
         then Inr (cmds[i := c\<lparr>c_PointsAvailable := tc_Points tc\<rparr>], dn @ [i], assigned + tc_Points tc)
         else Inr (cmds[i := c], dn @ [i], assigned)) = (Inr st' :: apply_state outcome)"
      by (auto simp: apply_instance_def st bind_ok_eq_Inr split: if_splits)
    from c have "c_PointsAvailable c = c_PointsAvailable (cmds ! i)"
      by (auto simp: override_args_def split: if_splits option.splits)
    with fresh st' show thesis by (intro that [of c]) (simp_all split: if_splits)
  qed
  from i tc have named: "i \<in> named tt cmds0" by (auto simp: named_def)
  have sum: "(\<Sum>j\<in>set dn. c_PointsAvailable (cmds[i := x] ! j)) = (\<Sum>j\<in>set dn. c_PointsAvailable (cmds ! j))" for x
    using fresh by (intro sum.cong refl) (metis nth_list_update_neq)
  show ?thesis
  proof (cases "tt_Scoring tt = TEST_SCORING_PARTIAL")
    case True
    with inv i tc fresh named sum show ?thesis
      by (auto simp: apply_inv_def st st' nth_list_update)
  next
    case False
    with inv i tc fresh named c show ?thesis
      by (auto simp: apply_inv_def st st' nth_list_update)
  qed
qed

lemma apply_command_inv:
  assumes insts: "commandInstances cmds0 = Inr insts" and tc: "tc \<in> set (tt_Commands tt)"
    and inv: "apply_inv tt cmds0 st" and ok: "apply_command insts tt tc st = Inr st'"
  shows "apply_inv tt cmds0 st'"
proof -
  let ?pos = "positions (tc_Id tc) cmds0"
  from ok have some: "gm_get insts (tc_Id tc) = Some ?pos"
    by (auto simp: apply_command_def commandInstances_spec [OF insts] split: if_splits option.splits)
  obtain ps where "set ps \<subseteq> set ?pos" and "fold_ok (apply_instance tt tc) ps st = Inr st'"
  proof (cases "0 < tc_Index tc")
    case True
    with ok have "tc_Index tc \<le> int (length ?pos)" "fold_ok (apply_instance tt tc) [?pos ! nat (tc_Index tc - 1)] st = Inr st'"
      by (auto simp: apply_command_def some split: if_splits)
    moreover from True this(1) have "nat (tc_Index tc - 1) < length ?pos" by linarith
    ultimately show thesis by (intro that [of "[?pos ! nat (tc_Index tc - 1)]"]) auto
  next
    case False
    with ok show thesis by (intro that [of ?pos]) (auto simp: apply_command_def some)
  qed
  from this(2) inv show ?thesis
  proof (rule fold_ok_invariant)
    fix i s s' assume "i \<in> set ps" and inv: "apply_inv tt cmds0 s" and "apply_instance tt tc i s = Inr s'"
    with \<open>set ps \<subseteq> set ?pos\<close> show "apply_inv tt cmds0 s'"
      by (intro apply_instance_inv [OF inv tc]) (auto simp: positions_def)
  qed
qed

lemma check_covered_ok:
  "check_covered dn tcs insts = Inr () \<Longrightarrow> tc \<in> set tcs \<Longrightarrow> gm_get insts (tc_Id tc) = Some ps \<Longrightarrow> set ps \<subseteq> set dn"
proof (induction tcs arbitrary: insts)
  case Nil
  then show ?case by simp
next
  case (Cons t tcs)
  show ?case
  proof (cases "tc_Id tc = tc_Id t")
    case True
    with Cons.prems show ?thesis by (auto split: if_splits)
  next
    case False
    from Cons.prems(1) have "check_covered dn tcs (gm_del (tc_Id t) insts) = Inr ()" by (simp split: if_splits)
    from Cons.IH [OF this] Cons.prems(2,3) False show ?thesis by (cases "tc = t") auto
  qed
qed

text \<open>
  Applying a target to a test changes exactly the commands that the target names. With
  partial scoring each of them gets the points of one entry that names it, at every position of
  the test, and together they carry exactly the points of the test; otherwise no command's
  points change.
\<close>

theorem applyTo_points:
  assumes "applyTo tt test = Inr test'"
  shows "t_PointsAvailable test' = tt_Points tt \<and> t_ScoringMethod test' = tt_Scoring tt \<and>
    length (t_Commands test') = length (t_Commands test) \<and>
    (\<forall>i<length (t_Commands test). i \<notin> named tt (t_Commands test) \<longrightarrow> t_Commands test' ! i = t_Commands test ! i) \<and>
    (if tt_Scoring tt = TEST_SCORING_PARTIAL
     then (\<Sum>i\<in>named tt (t_Commands test). c_PointsAvailable (t_Commands test' ! i)) = tt_Points tt \<and>
       (\<forall>i\<in>named tt (t_Commands test). \<exists>tc\<in>set (tt_Commands tt).
          Command_Id (t_Commands test ! i) = Some (tc_Id tc) \<and> c_PointsAvailable (t_Commands test' ! i) = tc_Points tc)
     else map c_PointsAvailable (t_Commands test') = map c_PointsAvailable (t_Commands test))"
proof -
  let ?cmds0 = "t_Commands test"
  from assms obtain insts cmds dn assigned where insts: "commandInstances ?cmds0 = Inr insts"
    and fold: "fold_ok (apply_command insts tt) (tt_Commands tt) (?cmds0, [], 0) = Inr (cmds, dn, assigned)"
    and sum: "tt_Scoring tt = TEST_SCORING_PARTIAL \<longrightarrow> assigned = tt_Points tt"
    and cov: "check_covered dn (tt_Commands tt) insts = Inr ()"
    and test': "test' = test\<lparr>t_PointsAvailable := tt_Points tt, t_ScoringMethod := tt_Scoring tt,
       t_MemLeakPoints := tt_MemLeakPoints tt, t_Commands := cmds\<rparr>"
    by (auto simp: applyTo_def Let_def bind_ok_eq_Inr split: if_splits)
  have "apply_inv tt ?cmds0 (?cmds0, [], 0)" by (simp add: apply_inv_def)
  with fold have inv: "apply_inv tt ?cmds0 (cmds, dn, assigned)"
    by (rule fold_ok_invariant) (auto intro: apply_command_inv [OF insts])
  have "named tt ?cmds0 \<subseteq> set dn"
  proof
    fix i assume "i \<in> named tt ?cmds0"
    then obtain tc where tc: "tc \<in> set (tt_Commands tt)" "i \<in> set (positions (tc_Id tc) ?cmds0)"
      by (auto simp: named_def positions_def)
    then have "gm_get insts (tc_Id tc) = Some (positions (tc_Id tc) ?cmds0)"
      by (auto simp: commandInstances_spec [OF insts])
    from check_covered_ok [OF cov tc(1) this] tc(2) show "i \<in> set dn" by blast
  qed
  with inv have "set dn = named tt ?cmds0" by (auto simp: apply_inv_def)
  note D = this
  show ?thesis
  proof (cases "tt_Scoring tt = TEST_SCORING_PARTIAL")
    case True
    with inv sum D show ?thesis by (auto simp: apply_inv_def test')
  next
    case False
    with inv have "map c_PointsAvailable cmds = map c_PointsAvailable ?cmds0"
      by (auto simp: apply_inv_def list_eq_iff_nth_eq)
    with inv D False show ?thesis by (auto simp: apply_inv_def test')
  qed
qed

section \<open>Points of a runnable group\<close>

definition graded :: "Target \<Rightarrow> TargetTest \<Rightarrow> Test \<Rightarrow> bool" where
  "graded target tt t \<longleftrightarrow>
     t_PointsAvailable t = tt_Points tt \<and> t_ScoringMethod t = tt_Scoring tt \<and>
     t_MemLeakPoints t = tt_MemLeakPoints tt \<and> t_TargetName t = tgt_Name target"

text \<open>The fields that no target writes.\<close>

definition links :: "Test \<Rightarrow> string \<times> string list \<times> bool \<times> string list" where
  "links t = (t_DependencyID t, t_ExpandedDeps t, t_IsDependency t, t_requiredBy t)"

text \<open>The tests after the entries of some targets: graded where an entry names them, else as before.\<close>

definition graded_map :: "(Target \<times> TargetTest) list \<Rightarrow> (string, Test) gomap \<Rightarrow> (string, Test) gomap \<Rightarrow> bool" where
  "graded_map es tests tests' \<longleftrightarrow>
     gm_keys tests' = gm_keys tests \<and>
     (\<forall>(target, tt)\<in>set es. \<exists>t. gm_get tests' (tt_Id tt) = Some t \<and> graded target tt t) \<and>
     (\<forall>k. k \<notin> (\<lambda>(_, tt). tt_Id tt) ` set es \<longrightarrow> gm_get tests' k = gm_get tests k) \<and>
     (\<forall>k. map_option links (gm_get tests' k) = map_option links (gm_get tests k))"

lemma graded_map_refl: "graded_map [] tests tests"
  by (simp add: graded_map_def)

lemma graded_map_trans:
  assumes "graded_map es tests tests'" and "graded_map fs tests' tests''"
    and "(\<lambda>(_, tt). tt_Id tt) ` set es \<inter> (\<lambda>(_, tt). tt_Id tt) ` set fs = {}"
  shows "graded_map (es @ fs) tests tests''"
proof -
  have "\<exists>t. gm_get tests'' (tt_Id tt) = Some t \<and> graded target tt t" if "(target, tt) \<in> set es" for target tt
  proof -
    from that have "tt_Id tt \<in> (\<lambda>(_, tt). tt_Id tt) ` set es" by force
    with assms(3) have "tt_Id tt \<notin> (\<lambda>(_, tt). tt_Id tt) ` set fs" by blast
    with assms(2) have "gm_get tests'' (tt_Id tt) = gm_get tests' (tt_Id tt)" by (simp add: graded_map_def)
    with assms(1) that show ?thesis by (auto simp: graded_map_def)
  qed
  with assms(1,2) show ?thesis by (auto simp: graded_map_def image_Un)
qed

lemma gm_keys_put_old: "gm_get m k = Some v \<Longrightarrow> gm_keys (gm_put k w m) = gm_keys m"
  by (force simp: update_keys dest: map_of_SomeD)

lemma apply_test_graded:
  assumes "apply_test target tt (tests, pts) = Inr (tests', pts')"
  shows "graded_map [(target, tt)] tests tests' \<and> pts' = pts + tt_Points tt"
proof -
  from assms obtain t t' where t: "gm_get tests (tt_Id tt) = Some t" and t': "applyTo tt t = Inr t'"
    and res: "tests' = gm_put (tt_Id tt) (t'\<lparr>t_TargetName := tgt_Name target\<rparr>) tests" "pts' = pts + tt_Points tt"
    by (auto simp: apply_test_def bind_ok_eq_Inr split: option.splits)
  from t' have "links t' = links t" "t_PointsAvailable t' = tt_Points tt" "t_ScoringMethod t' = tt_Scoring tt"
    "t_MemLeakPoints t' = tt_MemLeakPoints tt"
    by (auto simp: applyTo_def Let_def bind_ok_eq_Inr links_def split: if_splits)
  with t res show ?thesis
    using gm_keys_put_old [OF t] by (simp add: graded_map_def graded_def links_def)
qed

lemma apply_tests_graded:
  "fold_ok (apply_test target) tts (tests, pts) = Inr (tests', pts') \<Longrightarrow> distinct (map tt_Id tts) \<Longrightarrow>
   graded_map (map (Pair target) tts) tests tests' \<and> pts' = pts + sum_list (map tt_Points tts)"
proof (induction tts arbitrary: tests pts)
  case Nil
  then show ?case by (simp add: graded_map_refl)
next
  case (Cons tt tts)
  from Cons.prems(1) obtain tests1 pts1 where one: "apply_test target tt (tests, pts) = Inr (tests1, pts1)"
    and rest: "fold_ok (apply_test target) tts (tests1, pts1) = Inr (tests', pts')"
    by (auto simp: bind_ok_eq_Inr)
  note A = apply_test_graded [OF one]
  from Cons.IH [OF rest] Cons.prems(2) have B: "graded_map (map (Pair target) tts) tests1 tests'"
    "pts' = pts1 + sum_list (map tt_Points tts)" by auto
  from graded_map_trans [OF conjunct1 [OF A] B(1)] Cons.prems(2) A B(2) show ?case
    by (auto simp: add.assoc image_image)
qed

definition entries :: "Target list \<Rightarrow> (Target \<times> TargetTest) list" where
  "entries targets = concat (map (\<lambda>target. map (Pair target) (tgt_Tests target)) targets)"

lemma apply_targets_graded:
  "fold_ok apply_target targets tests = Inr tests' \<Longrightarrow> distinct (map tt_Id (concat (map tgt_Tests targets))) \<Longrightarrow>
   graded_map (entries targets) tests tests' \<and>
   (\<forall>target\<in>set targets. sum_list (map tt_Points (tgt_Tests target)) = tgt_Points target)"
proof (induction targets arbitrary: tests)
  case Nil
  then show ?case by (simp add: graded_map_refl entries_def)
next
  case (Cons target targets)
  from Cons.prems(1) obtain tests1 where a: "apply_target target tests = Inr tests1"
    and rest: "fold_ok apply_target targets tests1 = Inr tests'"
    by (auto simp: bind_ok_eq_Inr)
  from a have one: "fold_ok (apply_test target) (tgt_Tests target) (tests, 0) = Inr (tests1, tgt_Points target)"
    by (auto simp: bind_ok_eq_Inr apply_target_def split: if_splits)
  from Cons.prems(2) have dist: "distinct (map tt_Id (tgt_Tests target))"
    "distinct (map tt_Id (concat (map tgt_Tests targets)))"
    "tt_Id ` set (tgt_Tests target) \<inter> tt_Id ` set (concat (map tgt_Tests targets)) = {}"
    by auto
  note A = apply_tests_graded [OF one dist(1)]
  note B = Cons.IH [OF rest dist(2)]
  have "(\<lambda>(_, tt). tt_Id tt) ` set (entries targets) = tt_Id ` set (concat (map tgt_Tests targets))"
    by (force simp: entries_def)
  with dist(3) have "(\<lambda>(_, tt). tt_Id tt) ` set (map (Pair target) (tgt_Tests target)) \<inter>
      (\<lambda>(_, tt). tt_Id tt) ` set (entries targets) = {}"
    by (simp add: image_image)
  from graded_map_trans [OF conjunct1 [OF A] conjunct1 [OF B] this] A B show ?case
    by (simp add: entries_def)
qed

lemma collect_tests:
  "fold_ok collect_test tts ids = Inr ids' \<Longrightarrow> distinct ids \<Longrightarrow> ids' = ids @ map tt_Id tts \<and> distinct ids'"
proof (induction tts arbitrary: ids)
  case Nil
  then show ?case by simp
next
  case (Cons tt tts)
  from Cons.prems(1) obtain ids1 where one: "collect_test tt ids = Inr ids1" and rest: "fold_ok collect_test tts ids1 = Inr ids'"
    by (auto simp: bind_ok_eq_Inr)
  from one have new: "tt_Id tt \<notin> set ids" "ids1 = ids @ [tt_Id tt]"
    by (auto simp: collect_test_def split: if_splits)
  from new Cons.prems(2) have "distinct ids1" by simp
  from Cons.IH [OF rest this] new(2) show ?case by (auto simp only: append_assoc append_Cons append_Nil list.map)
qed

section \<open>The tests a target requires\<close>

text \<open>The tests after adding the names \<open>N k\<close> to the test \<open>k\<close>; nothing else changes.\<close>

definition required :: "(string \<Rightarrow> string set) \<Rightarrow> (string, Test) gomap \<Rightarrow> (string, Test) gomap \<Rightarrow> bool" where
  "required N tests tests' \<longleftrightarrow>
     gm_keys tests' = gm_keys tests \<and>
     (\<forall>k t. gm_get tests k = Some t \<longrightarrow>
        (\<exists>ks. gm_get tests' k = Some (t\<lparr>t_requiredBy := ks\<rparr>) \<and> set ks = set (t_requiredBy t) \<union> N k))"

lemma required_refl: "(\<And>k t. gm_get tests k = Some t \<Longrightarrow> N k = {}) \<Longrightarrow> required N tests tests"
  by (auto simp: required_def intro!: exI [of _ "t_requiredBy _"])

lemma required_trans: "required M tests tests' \<Longrightarrow> required N tests' tests'' \<Longrightarrow> required (\<lambda>k. M k \<union> N k) tests tests''"
  unfolding required_def by (fastforce simp: Un_assoc)

lemma required_get:
  assumes "required N tests tests'"
  shows "gm_get tests' k = None \<longleftrightarrow> gm_get tests k = None"
proof -
  from assms have "set (gm_keys tests') = set (gm_keys tests)" by (simp add: required_def del: set_map)
  then show ?thesis by (simp add: map_of_eq_None_iff)
qed

lemma required_field:
  assumes "required N tests tests'" and "\<And>t ks. f (t\<lparr>t_requiredBy := ks\<rparr>) = f t"
  shows "map_option f (gm_get tests' k) = map_option f (gm_get tests k)"
proof (cases "gm_get tests k")
  case None
  with required_get [OF assms(1), of k] show ?thesis by simp
next
  case (Some t)
  with assms(1) obtain ks where "gm_get tests' k = Some (t\<lparr>t_requiredBy := ks\<rparr>)" unfolding required_def by blast
  with Some assms(2) show ?thesis by simp
qed

lemma dep_rel_cong:
  assumes "\<And>k. map_option t_ExpandedDeps (gm_get tests' k) = map_option t_ExpandedDeps (gm_get tests k)"
  shows "dep_rel tests' = dep_rel tests"
proof -
  have "dep_rel m = {(k, d). \<exists>ds. map_option t_ExpandedDeps (gm_get m k) = Some ds \<and> d \<in> set ds}" for m
    by (auto simp: dep_rel_def)
  note D = this
  show ?thesis unfolding D [of tests'] D [of tests] assms ..
qed

lemma required_dep_rel: "required N tests tests' \<Longrightarrow> dep_rel tests' = dep_rel tests"
  by (rule dep_rel_cong) (erule required_field, simp)

lemma rtrancl_first: "(k, d) \<in> R\<^sup>* \<longleftrightarrow> d = k \<or> (\<exists>e. (k, e) \<in> R \<and> (e, d) \<in> R\<^sup>*)"
proof
  assume "(k, d) \<in> R\<^sup>*"
  then show "d = k \<or> (\<exists>e. (k, e) \<in> R \<and> (e, d) \<in> R\<^sup>*)" by (cases rule: converse_rtranclE) auto
qed (auto intro: converse_rtrancl_into_rtrancl)

text \<open>An order of the tests in which every test stands before what it depends on.\<close>

definition ordered :: "string list \<Rightarrow> (string, Test) gomap \<Rightarrow> bool" where
  "ordered s tests \<longleftrightarrow> distinct s \<and> (\<forall>(k, d)\<in>dep_rel tests. comes_before s k d)"

lemma assignTestRequiredBy_required:
  assumes s: "distinct s" "\<forall>(k, d)\<in>R. comes_before s k d"
  shows "dep_rel tests = R \<Longrightarrow> rank s k < fuel \<Longrightarrow>
    \<exists>tests'. assignTestRequiredBy fuel name k tests = Some tests' \<and>
      required (\<lambda>d. if (k, d) \<in> R\<^sup>* then {name} else {}) tests tests'"
proof (induction fuel arbitrary: k tests)
  case 0
  then show ?case by simp
next
  case (Suc fuel)
  have loop: "\<exists>tests'. fold (\<lambda>dep acc. Option.bind acc (assignTestRequiredBy fuel name dep)) deps (Some tests) = Some tests' \<and>
      required (\<lambda>d. if \<exists>dep\<in>set deps. (dep, d) \<in> R\<^sup>* then {name} else {}) tests tests'"
    if "dep_rel tests = R" "\<forall>dep\<in>set deps. (k, dep) \<in> R" for deps tests
    using that
  proof (induction deps arbitrary: tests)
    case Nil
    then show ?case by (simp add: required_refl)
  next
    case (Cons dep deps)
    then have "comes_before s k dep" using s(2) by auto
    from rank_less [OF s(1) this] Suc.prems(2) have "rank s dep < fuel" by simp
    from Suc.IH [OF Cons.prems(1) this] obtain tests1 where
      one: "assignTestRequiredBy fuel name dep tests = Some tests1"
      and r1: "required (\<lambda>d. if (dep, d) \<in> R\<^sup>* then {name} else {}) tests tests1" by blast
    from required_dep_rel [OF r1] Cons.prems have "dep_rel tests1 = R" "\<forall>dep\<in>set deps. (k, dep) \<in> R" by auto
    from Cons.IH [OF this] obtain tests2 where
      two: "fold (\<lambda>dep acc. Option.bind acc (assignTestRequiredBy fuel name dep)) deps (Some tests1) = Some tests2"
      and r2: "required (\<lambda>d. if \<exists>dep\<in>set deps. (dep, d) \<in> R\<^sup>* then {name} else {}) tests1 tests2" by blast
    have "(\<lambda>d. (if (dep, d) \<in> R\<^sup>* then {name} else {}) \<union> (if \<exists>dep\<in>set deps. (dep, d) \<in> R\<^sup>* then {name} else {})) =
        (\<lambda>d. if \<exists>dep\<in>set (dep # deps). (dep, d) \<in> R\<^sup>* then {name} else {})"
      by (simp add: fun_eq_iff)
    with required_trans [OF r1 r2] one two show ?case by auto
  qed
  show ?case
  proof (cases "gm_get tests k")
    case None
    then have none: "(k, d) \<notin> R" for d using Suc.prems(1) by (auto simp: dep_rel_def)
    have "required (\<lambda>d. if (k, d) \<in> R\<^sup>* then {name} else {}) tests tests"
    proof (rule required_refl)
      fix d t assume "gm_get tests d = Some t"
      with None have "d \<noteq> k" by auto
      then have "(k, d) \<notin> R\<^sup>*" using none by (auto elim: converse_rtranclE)
      then show "(if (k, d) \<in> R\<^sup>* then {name} else {}) = {}" by simp
    qed
    with None show ?thesis by simp
  next
    case (Some t)
    let ?tests = "gm_put k (t\<lparr>t_requiredBy := add_key name (t_requiredBy t)\<rparr>) tests"
    have r0: "required (\<lambda>d. if d = k then {name} else {}) tests ?tests"
      unfolding required_def
    proof (intro conjI allI impI)
      fix j u assume u: "gm_get tests j = Some u"
      show "\<exists>ks. gm_get ?tests j = Some (u\<lparr>t_requiredBy := ks\<rparr>) \<and>
          set ks = set (t_requiredBy u) \<union> (if j = k then {name} else {})"
        using u Some by (intro exI [of _ "if j = k then add_key name (t_requiredBy u) else t_requiredBy u"]) auto
    qed (rule gm_keys_put_old [OF Some])
    have deps: "\<forall>dep\<in>set (t_ExpandedDeps t). (k, dep) \<in> R" using Some Suc.prems(1) by (auto simp: dep_rel_def)
    from loop [OF required_dep_rel [OF r0, unfolded Suc.prems(1)] deps] obtain tests' where
      res: "fold (\<lambda>dep acc. Option.bind acc (assignTestRequiredBy fuel name dep)) (t_ExpandedDeps t) (Some ?tests) = Some tests'"
      and r1: "required (\<lambda>d. if \<exists>dep\<in>set (t_ExpandedDeps t). (dep, d) \<in> R\<^sup>* then {name} else {}) ?tests tests'" by blast
    have "(k, d) \<in> R\<^sup>* \<longleftrightarrow> d = k \<or> (\<exists>dep\<in>set (t_ExpandedDeps t). (dep, d) \<in> R\<^sup>*)" for d
    proof -
      have mem: "dep \<in> set (t_ExpandedDeps t) \<longleftrightarrow> (k, dep) \<in> R" for dep
        using Some unfolding Suc.prems(1) [symmetric] dep_rel_def by simp
      show ?thesis unfolding Bex_def mem by (rule rtrancl_first)
    qed
    then have "(\<lambda>d. (if d = k then {name} else {}) \<union> (if \<exists>dep\<in>set (t_ExpandedDeps t). (dep, d) \<in> R\<^sup>* then {name} else {})) =
        (\<lambda>d. if (k, d) \<in> R\<^sup>* then {name} else {})"
      by (simp add: fun_eq_iff)
    with required_trans [OF r0 r1] res Some show ?thesis by auto
  qed
qed

lemma assignRequiredBy_required:
  assumes s: "ordered s tests" and len: "length s \<le> length tests"
  shows "\<exists>tests'. assignRequiredBy tests = Some tests' \<and>
    required (\<lambda>d. {n. n \<noteq> [] \<and> (\<exists>(r, u)\<in>set tests. t_TargetName u = n \<and> (r, d) \<in> (dep_rel tests)\<^sup>*)}) tests tests'"
proof -
  let ?R = "dep_rel tests"
  let ?step = "\<lambda>(k, test) acc. if t_TargetName test \<noteq> []
             then Option.bind acc (assignTestRequiredBy (Suc (length tests)) (t_TargetName test) k) else acc"
  have "\<exists>m'. fold ?step es (Some m) = Some m' \<and>
      required (\<lambda>d. {n. n \<noteq> [] \<and> (\<exists>(r, u)\<in>set es. t_TargetName u = n \<and> (r, d) \<in> ?R\<^sup>*)}) m m'"
    if "dep_rel m = ?R" for es m
    using that
  proof (induction es arbitrary: m)
    case Nil
    then show ?case by (simp add: required_refl)
  next
    case (Cons e es)
    obtain k u where e: "e = (k, u)" by (cases e)
    show ?case
    proof (cases "t_TargetName u = []")
      case True
      from Cons.IH [OF Cons.prems] obtain m' where m': "fold ?step es (Some m) = Some m'"
        "required (\<lambda>d. {n. n \<noteq> [] \<and> (\<exists>(r, u)\<in>set es. t_TargetName u = n \<and> (r, d) \<in> ?R\<^sup>*)}) m m'" by blast
      have "(\<lambda>d. {n. n \<noteq> [] \<and> (\<exists>(r, u)\<in>set es. t_TargetName u = n \<and> (r, d) \<in> ?R\<^sup>*)}) =
          (\<lambda>d. {n. n \<noteq> [] \<and> (\<exists>(r, u)\<in>set (e # es). t_TargetName u = n \<and> (r, d) \<in> ?R\<^sup>*)})"
        using True by (auto simp: e fun_eq_iff)
      with m' True show ?thesis by (auto simp: e simp del: assignTestRequiredBy.simps)
    next
      case False
      have "rank s k < Suc (length tests)"
        using len length_dropWhile_le [of "\<lambda>x. x \<noteq> k" s] by (simp add: rank_def)
      from assignTestRequiredBy_required [OF _ _ Cons.prems this, of "t_TargetName u"] s obtain m1 where
        one: "assignTestRequiredBy (Suc (length tests)) (t_TargetName u) k m = Some m1"
        and r1: "required (\<lambda>d. if (k, d) \<in> ?R\<^sup>* then {t_TargetName u} else {}) m m1"
        by (auto simp: ordered_def)
      from required_dep_rel [OF r1] Cons.prems have "dep_rel m1 = ?R" by simp
      from Cons.IH [OF this] obtain m2 where two: "fold ?step es (Some m1) = Some m2"
        and r2: "required (\<lambda>d. {n. n \<noteq> [] \<and> (\<exists>(r, u)\<in>set es. t_TargetName u = n \<and> (r, d) \<in> ?R\<^sup>*)}) m1 m2" by blast
      have "(\<lambda>d. (if (k, d) \<in> ?R\<^sup>* then {t_TargetName u} else {}) \<union>
             {n. n \<noteq> [] \<and> (\<exists>(r, u)\<in>set es. t_TargetName u = n \<and> (r, d) \<in> ?R\<^sup>*)}) =
          (\<lambda>d. {n. n \<noteq> [] \<and> (\<exists>(r, u)\<in>set (e # es). t_TargetName u = n \<and> (r, d) \<in> ?R\<^sup>*)})"
        using False by (auto simp: e fun_eq_iff)
      with required_trans [OF r1 r2] one two False show ?thesis
        by (auto simp: e simp del: assignTestRequiredBy.simps)
    qed
  qed
  from this [OF refl, of tests] show ?thesis by (simp add: assignRequiredBy_def)
qed

section \<open>Results\<close>

lemma links_deps:
  "map_option links (gm_get m' k) = map_option links (gm_get m k) \<Longrightarrow>
   map_option t_ExpandedDeps (gm_get m' k) = map_option t_ExpandedDeps (gm_get m k) \<and>
   map_option t_requiredBy (gm_get m' k) = map_option t_requiredBy (gm_get m k)"
  by (cases "gm_get m' k"; cases "gm_get m k") (auto simp: links_def)

text \<open>The steps of a successful \<open>Instance\<close>.\<close>

lemma Instance_cases:
  assumes ok: "Instance fs arr t env = Inr tg" and arr: "\<And>xs. set (arr xs) = set xs"
  obtains config tg0 tests where
    "GroupFromConfig fs arr config = Some (Inr tg0)" "gc_UseDeps config"
    "distinct (map tt_Id (concat (map tgt_Tests (allTargets t env))))"
    "graded_map (entries (allTargets t env)) (tg_Tests tg0) tests"
    "\<forall>target\<in>set (allTargets t env). sum_list (map tt_Points (tgt_Tests target)) = tgt_Points target"
    "required (\<lambda>d. {n. n \<noteq> [] \<and> (\<exists>(r, u)\<in>set tests. t_TargetName u = n \<and> (r, d) \<in> (dep_rel tests)\<^sup>*)}) tests (tg_Tests tg)"
    "dep_rel tests = dep_rel (tg_Tests tg)" "gm_ok tests"
proof -
  let ?ts = "allTargets t env"
  let ?config = "\<lambda>ids. \<lparr>gc_Name = tgt_Name t, gc_UseDeps = True, gc_Tests = ids, gc_Env = env\<rparr>"
  from ok obtain ids tg0 tests where ids: "fold_ok collect_test (concat (map tgt_Tests ?ts)) [] = Inr ids"
    and g: "GroupFromConfig fs arr (?config ids) = Some (Inr tg0)"
    and a: "fold_ok apply_target ?ts (tg_Tests tg0) = Inr tests"
    and r: "assignRequiredBy tests = Some (tg_Tests tg)"
    by (auto simp: Instance_def split: sum.splits option.splits)
  have use: "gc_UseDeps (?config ids)" by simp
  from collect_tests [OF ids] have dist: "distinct (map tt_Id (concat (map tgt_Tests ?ts)))"
    by (simp only: append_Nil distinct.simps) blast
  from apply_targets_graded [OF a dist] have A: "graded_map (entries ?ts) (tg_Tests tg0) tests"
    and pts: "\<forall>target\<in>set ?ts. sum_list (map tt_Points (tgt_Tests target)) = tgt_Points target" by auto
  from A have rel: "dep_rel tests = dep_rel (tg_Tests tg0)"
    unfolding graded_map_def by (intro dep_rel_cong conjunct1 [OF links_deps]) blast
  from GroupFromConfig_sorted [OF g use arr] obtain gr s where
    "DependencyGraph tg0 = Inr gr \<and> TopSort ptr_key gr = Inr s \<and> distinct s \<and>
     set s = set (gm_keys (tg_Tests tg0)) \<and>
     (\<forall>(k, t)\<in>set (tg_Tests tg0). t_DependencyID t = k \<and> (\<forall>d\<in>set (t_ExpandedDeps t). comes_before s k d))"
    by (elim exE)
  then have s: "distinct s" "set s = set (gm_keys (tg_Tests tg0))"
    "\<forall>(k, t)\<in>set (tg_Tests tg0). t_DependencyID t = k \<and> (\<forall>d\<in>set (t_ExpandedDeps t). comes_before s k d)" by simp_all
  have keys: "gm_keys tests = gm_keys (tg_Tests tg0)" using A by (simp add: graded_map_def)
  from s have "ordered s tests" unfolding ordered_def rel by (fastforce simp: dep_rel_def dest: map_of_SomeD)
  moreover have "length s \<le> length tests"
    using s(1,2) keys card_length [of "gm_keys tests"] distinct_card [OF s(1)] by (metis length_map)
  ultimately have req: "required (\<lambda>d. {n. n \<noteq> [] \<and> (\<exists>(r, u)\<in>set tests. t_TargetName u = n \<and> (r, d) \<in> (dep_rel tests)\<^sup>*)}) tests (tg_Tests tg)"
    using assignRequiredBy_required [of s tests] r by auto
  have "gm_ok tests" using GroupFromConfig_gm_ok [OF g use arr] keys by (simp add: gm_ok_def)
  from that [OF g use dist A pts req required_dep_rel [OF req, symmetric] this] show thesis .
qed

text \<open>
  C29. A runnable group carries the points of its targets: no test is named twice, the points of
  each target are the sum over its tests, and each of those tests is in the group with the points,
  the scoring method and the name of its own target.
\<close>

theorem Instance_points:
  assumes "Instance fs arr t env = Inr tg" and "\<And>xs. set (arr xs) = set xs"
  shows "distinct (map tt_Id (concat (map tgt_Tests (allTargets t env)))) \<and>
    (\<forall>target\<in>set (allTargets t env). sum_list (map tt_Points (tgt_Tests target)) = tgt_Points target \<and>
       (\<forall>tt\<in>set (tgt_Tests target). \<exists>test. gm_get (tg_Tests tg) (tt_Id tt) = Some test \<and>
          t_PointsAvailable test = tt_Points tt \<and> t_ScoringMethod test = tt_Scoring tt \<and>
          t_MemLeakPoints test = tt_MemLeakPoints tt \<and> t_TargetName test = tgt_Name target))"
  using assms
proof (cases rule: Instance_cases)
  case (1 config tg0 tests)
  have "\<exists>test. gm_get (tg_Tests tg) (tt_Id tt) = Some test \<and> graded target tt test"
    if "target \<in> set (allTargets t env)" "tt \<in> set (tgt_Tests target)" for target tt
  proof -
    from that have "(target, tt) \<in> set (entries (allTargets t env))" by (auto simp: entries_def)
    with 1(4) obtain u where "gm_get tests (tt_Id tt) = Some u" "graded target tt u"
      by (auto simp: graded_map_def)
    with 1(6) show ?thesis by (fastforce simp: required_def graded_def)
  qed
  with 1(3,5) show ?thesis by (simp add: graded_def)
qed

text \<open>
  In a runnable group a test is marked as required by exactly the targets that have a graded
  test which is it or depends on it, directly or through others.
\<close>

theorem Instance_required:
  assumes "Instance fs arr t env = Inr tg" and "\<And>xs. set (arr xs) = set xs"
    and "\<And>f u. fs_TestFromFile fs f = Inr u \<Longrightarrow> t_requiredBy u = []"
    and "(k, test) \<in> set (tg_Tests tg)"
  shows "set (t_requiredBy test) =
    {n. n \<noteq> [] \<and> (\<exists>(r, u)\<in>set (tg_Tests tg). t_TargetName u = n \<and> (r, k) \<in> (dep_rel (tg_Tests tg))\<^sup>*)}"
  using assms(1,2)
proof (cases rule: Instance_cases)
  case (1 config tg0 tests)
  let ?R = "dep_rel (tg_Tests tg)"
  have ok: "gm_ok (tg_Tests tg)" using 1(6,8) by (simp add: required_def gm_ok_def)
  with assms(4) have test: "gm_get (tg_Tests tg) k = Some test" by (simp add: gm_get_in)
  with required_get [OF 1(6), of k] obtain u where u: "gm_get tests k = Some u" by (cases "gm_get tests k") auto
  with 1(4) obtain v where "gm_get (tg_Tests tg0) k = Some v" "links u = links v"
  proof -
    from 1(4) have "map_option links (gm_get tests k) = map_option links (gm_get (tg_Tests tg0) k)"
      by (simp add: graded_map_def)
    with u that show thesis by (cases "gm_get (tg_Tests tg0) k") auto
  qed
  moreover from GroupFromConfig_loaded [OF 1(1,2) assms(2) this(1)] assms(3) have "t_requiredBy v = []" by auto
  ultimately have "t_requiredBy u = []" by (simp add: links_def)
  with 1(6) u test have req: "set (t_requiredBy test) = {n. n \<noteq> [] \<and> (\<exists>(r, u)\<in>set tests. t_TargetName u = n \<and> (r, k) \<in> ?R\<^sup>*)}"
    by (fastforce simp: required_def 1(7))
  have "(\<exists>u. (r, u) \<in> set tests \<and> t_TargetName u = n) \<longleftrightarrow> (\<exists>u. (r, u) \<in> set (tg_Tests tg) \<and> t_TargetName u = n)" for r n
  proof -
    have "(\<exists>u. (r, u) \<in> set m \<and> t_TargetName u = n) \<longleftrightarrow> map_option t_TargetName (gm_get m r) = Some n"
      if "gm_ok m" for m :: "(string, Test) gomap"
      using gm_get_in [OF that, of r] by auto
    moreover have "map_option t_TargetName (gm_get (tg_Tests tg) r) = map_option t_TargetName (gm_get tests r)"
      by (rule required_field [OF 1(6)]) simp
    ultimately show ?thesis using 1(8) ok by metis
  qed
  then have "(\<exists>(r, u)\<in>set tests. t_TargetName u = n \<and> (r, k) \<in> ?R\<^sup>*) \<longleftrightarrow>
      (\<exists>(r, u)\<in>set (tg_Tests tg). t_TargetName u = n \<and> (r, k) \<in> ?R\<^sup>*)" for n
    by (auto simp: Bex_def) metis+
  with req show ?thesis by simp
qed

subsection \<open>Changes without a new version\<close>

lemma first_error_None: "first_error f xs = None \<longleftrightarrow> (\<forall>x\<in>set xs. f x = None)"
  by (induction xs) (auto split: option.splits)

lemma if_Some_None: "(if b then Some e else r) = None \<longleftrightarrow> \<not> b \<and> r = None"
  and case_Some_None: "(case r of None \<Rightarrow> q | Some e \<Rightarrow> Some e) = None \<longleftrightarrow> r = None \<and> q = None"
  by (simp_all split: option.split)

text \<open>What a change of a test must keep.\<close>

definition test_spec :: "TargetTest \<Rightarrow> string \<times> uint \<times> string \<times> uint" where
  "test_spec t = (tt_Id t, tt_Points t, tt_Scoring t, tt_MemLeakPoints t)"

lemma old_map_get:
  assumes "distinct (map tt_Id ts)"
  shows "gm_get (fold (\<lambda>t. gm_put (tt_Id t) t) ts []) k = Some t \<longleftrightarrow> t \<in> set ts \<and> tt_Id t = k"
proof -
  have "fold (\<lambda>t. gm_put (tt_Id t) t) ts m = fold (\<lambda>(k, v). gm_put k v) (map (\<lambda>t. (tt_Id t, t)) ts) m" for m
    by (induction ts arbitrary: m) auto
  moreover have d: "distinct (map fst (map (\<lambda>t. (tt_Id t, t)) ts))" using assms by (simp add: comp_def)
  moreover from gm.get_put_entries [OF d, of "[]" k]
  have "gm_get (fold (\<lambda>(k, v). gm_put k v) (map (\<lambda>t. (tt_Id t, t)) ts) []) k = map_of (map (\<lambda>t. (tt_Id t, t)) ts) k"
    by (simp split: option.splits)
  moreover from d have "map_of (map (\<lambda>t. (tt_Id t, t)) ts) k = Some t \<longleftrightarrow> t \<in> set ts \<and> tt_Id t = k"
    by (subst map_of_eq_Some_iff) auto
  ultimately show ?thesis by simp
qed

lemma same_elements:
  assumes "distinct xs" "distinct ys" "length xs = length ys" "set ys \<subseteq> set xs"
  shows "set ys = set xs"
  using assms by (metis card_subset_eq distinct_card finite_set)

lemma old_tests_ok:
  assumes "distinct (map tt_Id old)"
  shows "old_test_error (fold (\<lambda>t. gm_put (tt_Id t) t) old []) t = None \<longleftrightarrow> test_spec t \<in> test_spec ` set old"
proof (cases "gm_get (fold (\<lambda>t. gm_put (tt_Id t) t) old []) (tt_Id t)")
  case None
  have "tt_Id u \<noteq> tt_Id t" if "u \<in> set old" for u
  proof
    assume "tt_Id u = tt_Id t"
    with that old_map_get [OF assms, of "tt_Id t" u] None show False by (metis option.distinct(1))
  qed
  then have "test_spec t \<noteq> test_spec u" if "u \<in> set old" for u
    using that by (simp add: test_spec_def) metis
  then have "test_spec t \<notin> test_spec ` set old" by blast
  with None show ?thesis by (simp add: old_test_error_def)
next
  case (Some u)
  then have u: "u \<in> set old" "tt_Id u = tt_Id t" by (simp_all add: old_map_get [OF assms])
  have one: "v = u" if "v \<in> set old" "test_spec t = test_spec v" for v
    using old_map_get [OF assms, of "tt_Id t" v] Some that by (simp add: test_spec_def)
  have "test_spec t \<in> test_spec ` set old \<longleftrightarrow> test_spec t = test_spec u"
    using u(1) one by blast
  also have "\<dots> \<longleftrightarrow> old_test_error (fold (\<lambda>t. gm_put (tt_Id t) t) old []) t = None"
    unfolding old_test_error_def Some option.case if_Some_None test_spec_def prod.inject u(2) by metis
  finally show ?thesis ..
qed

text \<open>
  C35. For targets that name no test and no subtarget twice: a target may replace another of the same
  version exactly when both agree on name, type, points and metatarget flag, on the set of tests with
  their identifiers, points, scoring methods and memory leak points, and on the set of subtargets. The
  order of tests and subtargets does not matter, and the points and arguments of single commands are
  not compared (\<open>commands_not_compared\<close>). The code does not check that nothing is named twice, and
  \<open>duplicate_hides_removal\<close> shows what it allows otherwise.
\<close>

theorem isChangeAllowed_iff:
  assumes "distinct (map tt_Id (tgt_Tests old))" and "distinct (map tt_Id (tgt_Tests other))"
    and "distinct (tgt_SubTargetNames old)" and "distinct (tgt_SubTargetNames other)"
  shows "isChangeAllowed old other = None \<longleftrightarrow>
    tgt_Version old = tgt_Version other \<and> tgt_Name old = tgt_Name other \<and> tgt_Type old = tgt_Type other \<and>
    tgt_Points old = tgt_Points other \<and> tgt_IsMetaTarget old = tgt_IsMetaTarget other \<and>
    test_spec ` set (tgt_Tests old) = test_spec ` set (tgt_Tests other) \<and>
    set (tgt_SubTargetNames old) = set (tgt_SubTargetNames other)"
proof -
  have specs: "distinct (map test_spec ts)" if "distinct (map tt_Id ts)" for ts
    using that by (auto simp: distinct_map inj_on_def test_spec_def)
  have tests: "(length (tgt_Tests old) = length (tgt_Tests other) \<and>
       (\<forall>t\<in>set (tgt_Tests other). test_spec t \<in> test_spec ` set (tgt_Tests old))) =
      (test_spec ` set (tgt_Tests old) = test_spec ` set (tgt_Tests other))"
    using same_elements [OF specs [OF assms(1)] specs [OF assms(2)]]
      distinct_card [OF specs [OF assms(1)]] distinct_card [OF specs [OF assms(2)]] by auto
  have subs: "(length (tgt_SubTargetNames old) = length (tgt_SubTargetNames other) \<and>
       (\<forall>n\<in>set (tgt_SubTargetNames other). n \<in> set (tgt_SubTargetNames old))) =
      (set (tgt_SubTargetNames old) = set (tgt_SubTargetNames other))"
    using same_elements [OF assms(3,4)] distinct_card [OF assms(3)] distinct_card [OF assms(4)] by auto
  show ?thesis
    unfolding isChangeAllowed_def if_Some_None case_Some_None first_error_None old_tests_ok [OF assms(1)] not_not
      tests [symmetric] subs [symmetric] conj_assoc
    by simp
qed

text \<open>A test that is named twice by the new target hides that another test was removed.\<close>

lemma duplicate_hides_removal:
  "isChangeAllowed (t\<lparr>tgt_Tests := [a, b], tgt_SubTargetNames := []\<rparr>) (t\<lparr>tgt_Tests := [a, a], tgt_SubTargetNames := []\<rparr>) = None"
  if "tt_Id a \<noteq> tt_Id b"
  using that by (simp add: isChangeAllowed_def old_test_error_def)

text \<open>The commands of a test, with their points and arguments, are not compared.\<close>

lemma commands_not_compared:
  assumes "distinct (map tt_Id (tgt_Tests t))"
  shows "isChangeAllowed t (t\<lparr>tgt_Tests := map (\<lambda>test. test\<lparr>tt_Commands := cs test\<rparr>) (tgt_Tests t)\<rparr>) = None"
proof -
  have "old_test_error (fold (\<lambda>t. gm_put (tt_Id t) t) (tgt_Tests t) []) (test\<lparr>tt_Commands := cs test\<rparr>) = None"
    if "test \<in> set (tgt_Tests t)" for test
    unfolding old_tests_ok [OF assms] using that by (intro image_eqI [of _ _ test]) (simp_all add: test_spec_def)
  then show ?thesis by (simp add: isChangeAllowed_def if_Some_None case_Some_None first_error_None)
qed

section \<open>Concrete targets\<close>

definition sample_tt :: TargetTest where
  "sample_tt = \<lparr>tt_Id = ''lt.t'', tt_Scoring = ''partial'', tt_Points = 30, tt_MemLeakPoints = 0,
     tt_Commands = [\<lparr>tc_Id = ''lt1'', tc_Index = 2, tc_Points = 5, tc_Args = [''9'']\<rparr>,
                    \<lparr>tc_Id = ''lt1'', tc_Index = 1, tc_Points = 10, tc_Args = []\<rparr>,
                    \<lparr>tc_Id = ''lt2'', tc_Index = 0, tc_Points = 15, tc_Args = []\<rparr>]\<rparr>"

definition sample_test :: Test where
  "sample_test = (blank_test ''lt.t'')\<lparr>t_Commands := map blank_command [''lt1 1'', ''q'', ''lt2'', ''lt1 2'']\<rparr>"

lemma sample_applied:
  "map_sum id (\<lambda>t. map (\<lambda>c. (in_Line (c_Input c), c_PointsAvailable c)) (t_Commands t)) (applyTo sample_tt sample_test) =
   Inr [(''lt1 1'', 10), (''q'', 0), (''lt2'', 15), (''lt1 9'', 5)]"
  by code_simp

lemma applyTo_points_witness:
  "\<exists>t. applyTo sample_tt sample_test = Inr t \<and>
     (\<Sum>i\<in>named sample_tt (t_Commands sample_test). c_PointsAvailable (t_Commands t ! i)) = 30"
proof -
  from sample_applied obtain t where t: "applyTo sample_tt sample_test = Inr t"
    by (cases "applyTo sample_tt sample_test") simp_all
  have "tt_Scoring sample_tt = TEST_SCORING_PARTIAL" "tt_Points sample_tt = 30"
    by (simp_all add: sample_tt_def)
  with applyTo_points [OF t] have "(\<Sum>i\<in>named sample_tt (t_Commands sample_test). c_PointsAvailable (t_Commands t ! i)) = 30"
    by simp
  with t show ?thesis by (intro exI [of _ t] conjI)
qed

definition sample_target :: Target where
  "sample_target = NewTarget\<lparr>tgt_Name := ''locks'', tgt_Points := 50, tgt_Tests :=
     [\<lparr>tt_Id = ''lt.t'', tt_Scoring = ''entire'', tt_Points = 40, tt_MemLeakPoints = 5, tt_Commands = []\<rparr>,
      \<lparr>tt_Id = ''kl.t'', tt_Scoring = ''entire'', tt_Points = 10, tt_MemLeakPoints = 0, tt_Commands = []\<rparr>]\<rparr>"

lemma sample_instance:
  "map_sum id (\<lambda>tg. map (\<lambda>(k, t). (k, t_PointsAvailable t, t_TargetName t)) (tg_Tests tg))
     (Instance sample_files rev sample_target blank_env) =
   Inr [(''kl.t'', 10, ''locks''), (''lt.t'', 40, ''locks''), (''boot.t'', 0, [])]"
  by code_simp

lemma sample_instance_ok: "\<exists>tg. Instance sample_files rev sample_target blank_env = Inr tg"
  using sample_instance by (cases "Instance sample_files rev sample_target blank_env") simp_all

lemma Instance_points_witness:
  "\<exists>tg test. Instance sample_files rev sample_target blank_env = Inr tg \<and>
     gm_get (tg_Tests tg) ''lt.t'' = Some test \<and> t_PointsAvailable test = 40"
proof -
  obtain tg where tg: "Instance sample_files rev sample_target blank_env = Inr tg"
    using sample_instance_ok by (elim exE)
  from Instance_points [OF tg set_rev]
  have "\<forall>tt\<in>set (tgt_Tests sample_target). \<exists>test. gm_get (tg_Tests tg) (tt_Id tt) = Some test \<and> t_PointsAvailable test = tt_Points tt"
    by (auto simp: allTargets_def sample_target_def NewTarget_def)
  then have "\<exists>test. gm_get (tg_Tests tg) ''lt.t'' = Some test \<and> t_PointsAvailable test = 40"
    by (simp add: sample_target_def)
  with tg show ?thesis by (intro exI [of _ tg]) simp
qed

lemma sample_unrequired: "fs_TestFromFile sample_files f = Inr u \<Longrightarrow> t_requiredBy u = []"
  by (auto simp: sample_files_def blank_test_def split: if_splits)

lemma Instance_required_witness:
  "\<exists>tg test. Instance sample_files rev sample_target blank_env = Inr tg \<and>
     (''lt.t'', test) \<in> set (tg_Tests tg) \<and> ''locks'' \<in> set (t_requiredBy test)"
proof -
  obtain tg where tg: "Instance sample_files rev sample_target blank_env = Inr tg"
    using sample_instance_ok by (elim exE)
  have t: "\<exists>tt\<in>set (tgt_Tests sample_target). tt_Id tt = ''lt.t''" "tgt_Name sample_target = ''locks''"
    "sample_target \<in> set (allTargets sample_target blank_env)"
    by (simp_all add: sample_target_def allTargets_def NewTarget_def)
  with Instance_points [OF tg set_rev] obtain test where
    get: "gm_get (tg_Tests tg) ''lt.t'' = Some test" and name: "t_TargetName test = ''locks''" by metis
  from get have mem: "(''lt.t'', test) \<in> set (tg_Tests tg)" by (rule map_of_SomeD)
  from Instance_required [OF tg set_rev sample_unrequired mem]
  have "''locks'' \<in> set (t_requiredBy test)" using mem name by auto
  with tg mem show ?thesis by (intro exI [of _ tg] exI [of _ test] conjI)
qed

lemma isChangeAllowed_iff_witness:
  "isChangeAllowed sample_target (sample_target\<lparr>tgt_Tests := rev (tgt_Tests sample_target)\<rparr>) = None"
  by (subst isChangeAllowed_iff) (simp_all add: sample_target_def NewTarget_def insert_commute)

end
