(* ===== verification/Manager.thy ===== *)
theory Manager
  imports Prelude
begin

text \<open>
  The test manager (\<open>manager.go\<close>): it runs a job when fewer than \<open>Capacity\<close> jobs run and makes
  it wait otherwise. Every access to the statistics is under the lock of \<open>statsCond\<close>, so a
  critical section is one step; a worker is known by its position in the list of jobs. A wait
  on the condition variable ends only after a signal.
\<close>

section \<open>The manager's state\<close>

record ManagerStats =
  ms_Running :: uint
  ms_HighRunning :: uint
  ms_Queued :: uint
  ms_HighQueued :: uint
  ms_Finished :: uint
  ms_MaxWait :: int
  ms_AvgWait :: int
  ms_StartTime :: int
  ms_total :: int

text \<open>\<open>SubmitChan\<close> is open exactly while the manager is running.\<close>

record manager =
  m_Capacity :: uint
  m_isRunning :: bool
  m_stats :: ManagerStats

abbreviation DEFAULT_MGR_CAPACITY :: uint where
  "DEFAULT_MGR_CAPACITY \<equiv> 0"

definition new_stats :: "int \<Rightarrow> ManagerStats" where
  "new_stats now = \<lparr>ms_Running = 0, ms_HighRunning = 0, ms_Queued = 0, ms_HighQueued = 0, ms_Finished = 0,
     ms_MaxWait = 0, ms_AvgWait = 0, ms_StartTime = now, ms_total = 0\<rparr>"

definition newManager :: manager where
  "newManager = \<lparr>m_Capacity = DEFAULT_MGR_CAPACITY, m_isRunning = False, m_stats = new_stats 0\<rparr>"

definition start :: "int \<Rightarrow> manager \<Rightarrow> manager" where
  "start now m = (if m_isRunning m then m else m\<lparr>m_stats := new_stats now, m_isRunning := True\<rparr>)"

definition stop :: "manager \<Rightarrow> manager" where
  "stop m = (if \<not> m_isRunning m then m else m\<lparr>m_isRunning := False\<rparr>)"

definition SetManagerCapacity :: "uint \<Rightarrow> manager \<Rightarrow> manager" where
  "SetManagerCapacity capacity m = m\<lparr>m_Capacity := capacity\<rparr>"

definition ManagerCapacity :: "manager \<Rightarrow> uint" where
  "ManagerCapacity m = m_Capacity m"

text \<open>The statistics come from the global manager, whatever the receiver is.\<close>

definition Stats :: "manager \<Rightarrow> manager \<Rightarrow> ManagerStats" where
  "Stats testManager m = m_stats testManager"

definition GetManagerStats :: "manager \<Rightarrow> ManagerStats" where
  "GetManagerStats testManager = Stats testManager testManager"

section \<open>The critical sections of \<open>runOrQueueJob\<close>\<close>

definition at_capacity :: "manager \<Rightarrow> bool" where
  "at_capacity m \<longleftrightarrow> 0 < m_Capacity m \<and> m_Capacity m \<le> ms_Running (m_stats m)"

definition enqueue_stats :: "ManagerStats \<Rightarrow> ManagerStats" where
  "enqueue_stats st =
     (let queued = ms_Queued st + 1
      in st\<lparr>ms_Queued := queued, ms_HighQueued := (if ms_HighQueued st < queued then queued else ms_HighQueued st)\<rparr>)"

text \<open>Division on \<open>int64\<close> truncates; the waits here are not negative, where it agrees with \<open>div\<close>.\<close>

definition wait_stats :: "int \<Rightarrow> ManagerStats \<Rightarrow> ManagerStats" where
  "wait_stats curWait st =
     st\<lparr>ms_MaxWait := (if ms_MaxWait st < curWait then curWait else ms_MaxWait st),
        ms_AvgWait := (ms_total st * ms_AvgWait st + curWait) div (ms_total st + 1),
        ms_total := ms_total st + 1\<rparr>"

definition dequeue_stats :: "int \<Rightarrow> ManagerStats \<Rightarrow> ManagerStats" where
  "dequeue_stats curWait st = wait_stats curWait (st\<lparr>ms_Queued := ms_Queued st - 1\<rparr>)"

definition run_stats :: "ManagerStats \<Rightarrow> ManagerStats" where
  "run_stats st =
     (let running = ms_Running st + 1
      in st\<lparr>ms_Running := running, ms_HighRunning := (if ms_HighRunning st < running then running else ms_HighRunning st)\<rparr>)"

definition finish_stats :: "ManagerStats \<Rightarrow> ManagerStats" where
  "finish_stats st = st\<lparr>ms_Running := ms_Running st - 1, ms_Finished := ms_Finished st + 1\<rparr>"

text \<open>A worker that has the lock: it has never waited, or it was woken by a signal.\<close>

datatype job_state = Submitted | Waiting | Awake | Running | Finished

definition runOrQueueJob :: "int \<Rightarrow> bool \<Rightarrow> manager \<Rightarrow> manager \<times> job_state" where
  "runOrQueueJob curWait queued m =
     (if at_capacity m
      then (if queued then m else m\<lparr>m_stats := enqueue_stats (m_stats m)\<rparr>, Waiting)
      else (m\<lparr>m_stats := run_stats (if queued then dequeue_stats curWait (m_stats m) else m_stats m)\<rparr>, Running))"

section \<open>All workers\<close>

record system =
  sys_mgr :: manager
  sys_jobs :: "job_state list"

definition set_job :: "nat \<Rightarrow> job_state \<Rightarrow> system \<Rightarrow> system" where
  "set_job i st s = s\<lparr>sys_jobs := (sys_jobs s)[i := st]\<rparr>"

definition is_job :: "system \<Rightarrow> nat \<Rightarrow> job_state \<Rightarrow> bool" where
  "is_job s i st \<longleftrightarrow> i < length (sys_jobs s) \<and> sys_jobs s ! i = st"

text \<open>A worker checks for a slot, and either waits or runs.\<close>

definition check_slot :: "int \<Rightarrow> nat \<Rightarrow> system \<Rightarrow> system" where
  "check_slot curWait i s =
     (case runOrQueueJob curWait (sys_jobs s ! i = Awake) (sys_mgr s) of
        (m, st) \<Rightarrow> set_job i st (s\<lparr>sys_mgr := m\<rparr>))"

text \<open>A test is over; the signal wakes worker \<open>j\<close> if there is one.\<close>

definition finish_job :: "nat \<Rightarrow> nat option \<Rightarrow> system \<Rightarrow> system" where
  "finish_job i j s =
     (let s' = set_job i Finished (s\<lparr>sys_mgr := (sys_mgr s)\<lparr>m_stats := finish_stats (m_stats (sys_mgr s))\<rparr>\<rparr>)
      in case j of None \<Rightarrow> s' | Some j \<Rightarrow> set_job j Awake s')"

text \<open>
  The steps that need no new job; the arrival of one on \<open>SubmitChan\<close>, a change of the capacity, which
  wakes nobody, and a start after a stop. A start clears the statistics and begins a new list of jobs,
  so it is a step only when the jobs of the last session are finished (the server starts its manager
  once, the client once in each run); \<open>restart_underflow\<close> shows what happens otherwise.
\<close>

inductive work_step :: "system \<Rightarrow> system \<Rightarrow> bool" where
  work_check: "is_job s i Submitted \<or> is_job s i Awake \<Longrightarrow> work_step s (check_slot curWait i s)"
| work_finish_none: "is_job s i Running \<Longrightarrow> \<forall>j. \<not> is_job s j Waiting \<Longrightarrow> work_step s (finish_job i None s)"
| work_finish_signal: "is_job s i Running \<Longrightarrow> is_job s j Waiting \<Longrightarrow> work_step s (finish_job i (Some j) s)"

inductive mgr_step :: "system \<Rightarrow> system \<Rightarrow> bool" where
  step_submit: "m_isRunning (sys_mgr s) \<Longrightarrow> mgr_step s (s\<lparr>sys_jobs := sys_jobs s @ [Submitted]\<rparr>)"
| step_work: "work_step s t \<Longrightarrow> mgr_step s t"
| step_capacity: "mgr_step s (s\<lparr>sys_mgr := SetManagerCapacity c (sys_mgr s)\<rparr>)"
| step_stop: "mgr_step s (s\<lparr>sys_mgr := stop (sys_mgr s)\<rparr>)"
| step_restart: "\<not> m_isRunning (sys_mgr s) \<Longrightarrow> \<forall>st\<in>set (sys_jobs s). st = Finished \<Longrightarrow>
    mgr_step s (s\<lparr>sys_mgr := start now (sys_mgr s), sys_jobs := []\<rparr>)"

definition started :: "uint \<Rightarrow> system \<Rightarrow> bool" where
  "started cap s \<longleftrightarrow> (\<exists>now. sys_mgr s = start now (newManager\<lparr>m_Capacity := cap\<rparr>)) \<and> sys_jobs s = []"

section \<open>Counting jobs\<close>

definition num :: "job_state \<Rightarrow> system \<Rightarrow> nat" where
  "num st s = count (mset (sys_jobs s)) st"

lemma num_set_job:
  assumes "is_job s i a"
  shows "num c (set_job i b s) + (if c = a then 1 else 0) = num c s + (if c = b then 1 else 0)"
proof -
  from assms have "a \<in># mset (sys_jobs s)" and i: "i < length (sys_jobs s)" "sys_jobs s ! i = a"
    by (auto simp: is_job_def)
  then have "0 < count (mset (sys_jobs s)) a" by simp
  with i show ?thesis by (auto simp: num_def set_job_def mset_update)
qed

lemma num_pos: "is_job s i a \<Longrightarrow> 0 < num a s"
  by (auto simp: is_job_def num_def)

lemma num_zero: "num a s = 0 \<longleftrightarrow> (\<forall>i. \<not> is_job s i a)"
proof -
  have "num a s = 0 \<longleftrightarrow> a \<notin> set (sys_jobs s)" by (simp add: num_def count_eq_zero_iff)
  then show ?thesis by (auto simp: is_job_def in_set_conv_nth)
qed

lemma num_total: "num Submitted s + num Waiting s + num Awake s + num Running s + num Finished s = length (sys_jobs s)"
proof -
  have "length xs = (\<Sum>st\<in>{Submitted, Waiting, Awake, Running, Finished}. count (mset xs) st)" for xs
  proof -
    have "x \<in> {Submitted, Waiting, Awake, Running, Finished}" for x by (cases x) auto
    then have "set_mset (mset xs) \<subseteq> {Submitted, Waiting, Awake, Running, Finished}" by blast
    then have "size (mset xs) = (\<Sum>st\<in>{Submitted, Waiting, Awake, Running, Finished}. count (mset xs) st)"
      unfolding size_multiset_overloaded_eq
      by (intro sum.mono_neutral_left) (auto simp: count_eq_zero_iff)
    then show ?thesis by simp
  qed
  from this [of "sys_jobs s"] show ?thesis by (simp add: num_def)
qed

lemma uint_inc: "unat w + 1 < 2 ^ 64 \<Longrightarrow> unat (w + 1 :: uint) = unat w + 1"
  by (simp add: unat_word_ariths)

lemma uint_dec: "0 < unat w \<Longrightarrow> unat (w - 1 :: uint) = unat w - 1"
  by (rule unat_minus_one) auto

section \<open>The invariant\<close>

text \<open>
  The statistics count the jobs, the high-water marks are above the counts, and no wake-up is lost:
  while a job waits, another one runs or was woken.
\<close>

definition mgr_inv :: "system \<Rightarrow> bool" where
  "mgr_inv s \<longleftrightarrow>
     (length (sys_jobs s) < 2 ^ 64 \<longrightarrow>
       (let st = m_stats (sys_mgr s) in
         unat (ms_Running st) = num Running s \<and>
         unat (ms_Queued st) = num Waiting s + num Awake s \<and>
         unat (ms_Finished st) = num Finished s \<and>
         ms_Running st \<le> ms_HighRunning st \<and> ms_Queued st \<le> ms_HighQueued st \<and>
         (0 < num Waiting s \<longrightarrow> 0 < num Running s + num Awake s)))"

text \<open>As long as the capacity is never changed, it bounds the running jobs.\<close>

definition cap_inv :: "uint \<Rightarrow> system \<Rightarrow> bool" where
  "cap_inv cap s \<longleftrightarrow> m_Capacity (sys_mgr s) = cap \<and>
     (0 < cap \<longrightarrow> ms_HighRunning (m_stats (sys_mgr s)) \<le> cap) \<and> (cap = 0 \<longrightarrow> num Waiting s + num Awake s = 0)"

lemma start_new: "sys_mgr s = start now (newManager\<lparr>m_Capacity := cap\<rparr>) \<Longrightarrow>
    m_Capacity (sys_mgr s) = cap \<and> m_stats (sys_mgr s) = new_stats now"
  by (simp add: start_def newManager_def)

lemma mgr_inv_init: "started cap s \<Longrightarrow> mgr_inv s"
  by (auto simp: started_def mgr_inv_def num_def new_stats_def dest!: start_new)

lemma stats_simps [simp]:
  "ms_Running (enqueue_stats st) = ms_Running st" "ms_HighRunning (enqueue_stats st) = ms_HighRunning st"
  "ms_Finished (enqueue_stats st) = ms_Finished st" "ms_Queued (enqueue_stats st) = ms_Queued st + 1"
  "ms_Running (dequeue_stats w st) = ms_Running st" "ms_HighRunning (dequeue_stats w st) = ms_HighRunning st"
  "ms_Finished (dequeue_stats w st) = ms_Finished st" "ms_Queued (dequeue_stats w st) = ms_Queued st - 1"
  "ms_HighQueued (dequeue_stats w st) = ms_HighQueued st"
  "ms_Running (run_stats st) = ms_Running st + 1" "ms_Queued (run_stats st) = ms_Queued st"
  "ms_HighQueued (run_stats st) = ms_HighQueued st" "ms_Finished (run_stats st) = ms_Finished st"
  "ms_Running (finish_stats st) = ms_Running st - 1" "ms_HighRunning (finish_stats st) = ms_HighRunning st"
  "ms_Queued (finish_stats st) = ms_Queued st" "ms_HighQueued (finish_stats st) = ms_HighQueued st"
  "ms_Finished (finish_stats st) = ms_Finished st + 1"
  by (simp_all add: enqueue_stats_def dequeue_stats_def wait_stats_def run_stats_def finish_stats_def Let_def)

lemma high_simps:
  "ms_HighQueued (enqueue_stats st) = max (ms_HighQueued st) (ms_Queued st + 1)"
  "ms_HighRunning (run_stats st) = max (ms_HighRunning st) (ms_Running st + 1)"
  by (auto simp: enqueue_stats_def run_stats_def Let_def)

lemma set_job_simps [simp]:
  "sys_mgr (set_job i st s) = sys_mgr s" "length (sys_jobs (set_job i st s)) = length (sys_jobs s)"
  by (simp_all add: set_job_def)

lemma num_mgr [simp]: "num st (s\<lparr>sys_mgr := m\<rparr>) = num st s" "is_job (s\<lparr>sys_mgr := m\<rparr>) i st = is_job s i st"
  by (simp_all add: num_def is_job_def)

lemma mgr_inv_check:
  assumes inv: "mgr_inv s" and job: "is_job s i a" "a = Submitted \<or> a = Awake"
  shows "mgr_inv (check_slot w i s)"
proof (cases "length (sys_jobs s) < 2 ^ 64")
  case False
  with inv show ?thesis
    by (auto simp: mgr_inv_def check_slot_def runOrQueueJob_def split: prod.splits if_splits)
next
  case True
  let ?st = "m_stats (sys_mgr s)"
  let ?cap = "m_Capacity (sys_mgr s)"
  from inv True have R: "unat (ms_Running ?st) = num Running s" and Q: "unat (ms_Queued ?st) = num Waiting s + num Awake s"
    and F: "unat (ms_Finished ?st) = num Finished s"
    and HR: "ms_Running ?st \<le> ms_HighRunning ?st" and HQ: "ms_Queued ?st \<le> ms_HighQueued ?st"
    and W: "0 < num Waiting s \<Longrightarrow> 0 < num Running s + num Awake s"
    by (auto simp: mgr_inv_def Let_def)
  have tot: "num Submitted s + num Waiting s + num Awake s + num Running s + num Finished s < 2 ^ 64"
    using num_total [of s] True by simp
  note N = num_set_job [OF job(1)]
  have full: "at_capacity (sys_mgr s) \<longleftrightarrow> 0 < ?cap \<and> unat ?cap \<le> num Running s"
    by (auto simp: at_capacity_def word_le_nat_alt R)
  from job(1) have a: "sys_jobs s ! i = a" by (simp add: is_job_def)
  from num_pos [OF job(1)] have pos: "0 < num a s" .
  have job': "is_job (s\<lparr>sys_mgr := m\<rparr>) i a" for m using job(1) by simp
  have N': "num c (set_job i b (s\<lparr>sys_mgr := m\<rparr>)) + (if c = a then 1 else 0) = num c s + (if c = b then 1 else 0)" for c b m
    using num_set_job [OF job', of c b m] by simp
  show ?thesis
  proof (cases "at_capacity (sys_mgr s)")
    case True
    with full have "0 < ?cap" "unat ?cap \<le> num Running s" by auto
    then have some: "0 < num Running s" by (simp add: word_less_nat_alt)
    show ?thesis
    proof (cases "a = Awake")
      case aw: True
      let ?s' = "set_job i Waiting s"
      have s': "check_slot w i s = ?s'" using True a aw by (simp add: check_slot_def runOrQueueJob_def)
      have "num Running ?s' = num Running s" "num Finished ?s' = num Finished s"
        "num Waiting ?s' = num Waiting s + 1" "num Awake ?s' = num Awake s - 1"
        using N [of Running Waiting] N [of Finished Waiting] N [of Waiting Waiting] N [of Awake Waiting] aw pos by auto
      with R Q F HR HQ some pos aw show ?thesis by (auto simp: s' mgr_inv_def Let_def)
    next
      case False
      with job(2) have sub: "a = Submitted" by simp
      let ?s' = "set_job i Waiting (s\<lparr>sys_mgr := (sys_mgr s)\<lparr>m_stats := enqueue_stats ?st\<rparr>\<rparr>)"
      have s': "check_slot w i s = ?s'" using True a sub by (simp add: check_slot_def runOrQueueJob_def)
      have n: "num Running ?s' = num Running s" "num Finished ?s' = num Finished s"
        "num Waiting ?s' = num Waiting s + 1" "num Awake ?s' = num Awake s"
        using N' [of Running Waiting] N' [of Finished Waiting] N' [of Waiting Waiting] N' [of Awake Waiting] sub by auto
      have "unat (ms_Queued ?st + 1) = unat (ms_Queued ?st) + 1"
        using tot pos sub Q by (intro uint_inc) simp
      with R Q F HR HQ some n show ?thesis by (simp add: s' mgr_inv_def Let_def high_simps)
    qed
  next
    case False
    have inc: "unat (ms_Running ?st + 1) = num Running s + 1"
      using tot pos job(2) R by (subst uint_inc) auto
    show ?thesis
    proof (cases "a = Awake")
      case aw: True
      let ?s' = "set_job i Running (s\<lparr>sys_mgr := (sys_mgr s)\<lparr>m_stats := run_stats (dequeue_stats w ?st)\<rparr>\<rparr>)"
      have s': "check_slot w i s = ?s'" using False a aw by (simp add: check_slot_def runOrQueueJob_def)
      have n: "num Running ?s' = num Running s + 1" "num Finished ?s' = num Finished s"
        "num Waiting ?s' = num Waiting s" "num Awake ?s' = num Awake s - 1"
        using N' [of Running Running] N' [of Finished Running] N' [of Waiting Running] N' [of Awake Running "(sys_mgr s)\<lparr>m_stats := run_stats (dequeue_stats w ?st)\<rparr>"] aw pos by auto
      have dec: "unat (ms_Queued ?st - 1) = unat (ms_Queued ?st) - 1"
        using pos aw Q by (intro uint_dec) simp
      then have "ms_Queued ?st - 1 \<le> ms_HighQueued ?st" using HQ by (simp add: word_le_nat_alt)
      with R Q F n inc dec W pos aw show ?thesis
        by (simp add: s' mgr_inv_def Let_def high_simps)
    next
      case False
      with job(2) have sub: "a = Submitted" by simp
      let ?s' = "set_job i Running (s\<lparr>sys_mgr := (sys_mgr s)\<lparr>m_stats := run_stats ?st\<rparr>\<rparr>)"
      have s': "check_slot w i s = ?s'" using \<open>\<not> at_capacity _\<close> a sub by (simp add: check_slot_def runOrQueueJob_def)
      have n: "num Running ?s' = num Running s + 1" "num Finished ?s' = num Finished s"
        "num Waiting ?s' = num Waiting s" "num Awake ?s' = num Awake s"
        using N' [of Running Running] N' [of Finished Running] N' [of Waiting Running] N' [of Awake Running] sub by auto
      then show ?thesis using R Q F HQ inc
        by (simp add: s' mgr_inv_def Let_def high_simps)
    qed
  qed
qed

lemma mgr_inv_finish:
  assumes inv: "mgr_inv s" and job: "is_job s i Running"
    and j: "case j of None \<Rightarrow> \<forall>j. \<not> is_job s j Waiting | Some j \<Rightarrow> is_job s j Waiting"
  shows "mgr_inv (finish_job i j s)"
proof -
  let ?st = "m_stats (sys_mgr s)"
  let ?s0 = "s\<lparr>sys_mgr := (sys_mgr s)\<lparr>m_stats := finish_stats ?st\<rparr>\<rparr>"
  let ?s1 = "set_job i Finished ?s0"
  have len: "length (sys_jobs (finish_job i j s)) = length (sys_jobs s)"
    by (simp add: finish_job_def Let_def split: option.split)
  have mgr: "sys_mgr (finish_job i j s) = (sys_mgr s)\<lparr>m_stats := finish_stats ?st\<rparr>"
    by (simp add: finish_job_def Let_def split: option.split)
  show ?thesis
  proof (cases "length (sys_jobs s) < 2 ^ 64")
    case False
    with inv show ?thesis by (simp add: mgr_inv_def len mgr)
  next
    case True
    from inv True have R: "unat (ms_Running ?st) = num Running s" and Q: "unat (ms_Queued ?st) = num Waiting s + num Awake s"
      and F: "unat (ms_Finished ?st) = num Finished s"
      and HR: "ms_Running ?st \<le> ms_HighRunning ?st" and HQ: "ms_Queued ?st \<le> ms_HighQueued ?st"
      by (auto simp: mgr_inv_def Let_def)
    from num_pos [OF job] have pos: "0 < num Running s" .
    have job0: "is_job ?s0 i Running" using job by simp
    note N = num_set_job [OF job0]
    have n1: "num Running ?s1 = num Running s - 1" "num Finished ?s1 = num Finished s + 1"
      "num Waiting ?s1 = num Waiting s" "num Awake ?s1 = num Awake s"
      using N [of Running Finished] N [of Finished Finished] N [of Waiting Finished] N [of Awake Finished] pos by auto
    have dec: "unat (ms_Running ?st - 1) = num Running s - 1"
      using pos R by (subst uint_dec) auto
    have inc: "unat (ms_Finished ?st + 1) = num Finished s + 1"
      using num_total [of s] True pos F by (subst uint_inc) auto
    have low: "ms_Running ?st - 1 \<le> ms_HighRunning ?st"
      using dec R HR by (simp add: word_le_nat_alt)
    show ?thesis
    proof (cases j)
      case None
      with j have "num Waiting s = 0" by (simp add: num_zero)
      moreover have "finish_job i j s = ?s1" by (simp add: None finish_job_def)
      ultimately show ?thesis using Q HQ n1 dec inc low
        by (simp add: mgr_inv_def Let_def)
    next
      case (Some k)
      with j have w: "is_job s k Waiting" by simp
      let ?s2 = "set_job k Awake ?s1"
      have "k \<noteq> i" using w job by (auto simp: is_job_def)
      then have k: "is_job ?s1 k Waiting" using w by (simp add: is_job_def set_job_def)
      note M = num_set_job [OF k]
      have n2: "num Running ?s2 = num Running s - 1" "num Finished ?s2 = num Finished s + 1"
        "num Waiting ?s2 = num Waiting s - 1" "num Awake ?s2 = num Awake s + 1"
        using M [of Running Awake] M [of Finished Awake] M [of Waiting Awake] M [of Awake Awake] n1 num_pos [OF w] by auto
      moreover have "finish_job i j s = ?s2" by (simp add: Some finish_job_def)
      ultimately show ?thesis using Q HQ dec inc low num_pos [OF w] pos
        by (simp add: mgr_inv_def Let_def)
    qed
  qed
qed

lemma mgr_inv_work: "work_step s t \<Longrightarrow> mgr_inv s \<Longrightarrow> mgr_inv t"
proof (induction rule: work_step.induct)
  case (work_check s i w)
  then show ?case by (auto intro: mgr_inv_check)
next
  case (work_finish_none s i)
  then show ?case by (auto intro: mgr_inv_finish)
next
  case (work_finish_signal s i j)
  then show ?case by (intro mgr_inv_finish) auto
qed

lemma mgr_inv_step: "mgr_step s t \<Longrightarrow> mgr_inv s \<Longrightarrow> mgr_inv t"
proof (induction rule: mgr_step.induct)
  case (step_submit s)
  then show ?case by (auto simp: mgr_inv_def num_def Let_def)
next
  case (step_work s t)
  then show ?case by (rule mgr_inv_work)
next
  case (step_capacity s c)
  then show ?case by (simp add: mgr_inv_def num_def SetManagerCapacity_def Let_def)
next
  case (step_stop s)
  then show ?case by (auto simp: mgr_inv_def num_def stop_def Let_def)
next
  case (step_restart s now)
  then show ?case by (simp add: mgr_inv_def num_def start_def new_stats_def Let_def)
qed

interpretation mgr: step_system "started cap" mgr_step mgr_inv for cap
  by unfold_locales (auto intro: mgr_inv_init mgr_inv_step)

text \<open>A job starts only while the running ones are below the capacity.\<close>

lemma work_step_running:
  assumes "work_step s t"
  shows "(num Running t \<le> num Running s \<and> ms_HighRunning (m_stats (sys_mgr t)) = ms_HighRunning (m_stats (sys_mgr s)) \<or>
      \<not> at_capacity (sys_mgr s) \<and> num Running t = num Running s + 1 \<and>
      ms_HighRunning (m_stats (sys_mgr t)) = max (ms_HighRunning (m_stats (sys_mgr s))) (ms_Running (m_stats (sys_mgr s)) + 1)) \<and>
    m_Capacity (sys_mgr t) = m_Capacity (sys_mgr s) \<and>
    (m_Capacity (sys_mgr s) = 0 \<longrightarrow> num Waiting s + num Awake s = 0 \<longrightarrow> num Waiting t + num Awake t = 0)"
  using assms
proof cases
  case (work_check i w)
  then obtain a where a: "is_job s i a" "a = Submitted \<or> a = Awake" by auto
  have "is_job (s\<lparr>sys_mgr := m\<rparr>) i a" for m using a(1) by simp
  note N = num_set_job [OF this]
  show ?thesis
  proof (cases "at_capacity (sys_mgr s)")
    case True
    define m where "m = (if sys_jobs s ! i = Awake then sys_mgr s else (sys_mgr s)\<lparr>m_stats := enqueue_stats (m_stats (sys_mgr s))\<rparr>)"
    have "m_stats m = m_stats (sys_mgr s) \<or> m_stats m = enqueue_stats (m_stats (sys_mgr s))"
      "m_Capacity m = m_Capacity (sys_mgr s)" by (simp_all add: m_def)
    moreover have "t = set_job i Waiting (s\<lparr>sys_mgr := m\<rparr>)"
      using True by (simp add: work_check(1) check_slot_def runOrQueueJob_def m_def)
    moreover have "0 < m_Capacity (sys_mgr s)" using True by (simp add: at_capacity_def)
    ultimately show ?thesis using N [of Running Waiting m] a(2) by auto
  next
    case False
    define st where "st = run_stats (if sys_jobs s ! i = Awake then dequeue_stats w (m_stats (sys_mgr s)) else m_stats (sys_mgr s))"
    have "ms_HighRunning st = max (ms_HighRunning (m_stats (sys_mgr s))) (ms_Running (m_stats (sys_mgr s)) + 1)"
      by (simp add: st_def high_simps)
    moreover have "t = set_job i Running (s\<lparr>sys_mgr := (sys_mgr s)\<lparr>m_stats := st\<rparr>\<rparr>)"
      using False by (simp add: work_check(1) check_slot_def runOrQueueJob_def st_def)
    ultimately show ?thesis using False a(2)
      N [of Running Running "(sys_mgr s)\<lparr>m_stats := st\<rparr>"] N [of Waiting Running "(sys_mgr s)\<lparr>m_stats := st\<rparr>"]
      N [of Awake Running "(sys_mgr s)\<lparr>m_stats := st\<rparr>"] by (auto split: if_splits)
  qed
next
  case (work_finish_none i)
  let ?s0 = "s\<lparr>sys_mgr := (sys_mgr s)\<lparr>m_stats := finish_stats (m_stats (sys_mgr s))\<rparr>\<rparr>"
  have t: "t = set_job i Finished ?s0" by (simp add: work_finish_none(1) finish_job_def)
  have "is_job ?s0 i Running" using work_finish_none(2) by simp
  note N = num_set_job [OF this, of _ Finished]
  show ?thesis using N [of Running] N [of Waiting] N [of Awake] by (simp add: t)
next
  case (work_finish_signal i j)
  let ?s0 = "s\<lparr>sys_mgr := (sys_mgr s)\<lparr>m_stats := finish_stats (m_stats (sys_mgr s))\<rparr>\<rparr>"
  have t: "t = set_job j Awake (set_job i Finished ?s0)" by (simp add: work_finish_signal(1) finish_job_def)
  have i: "is_job ?s0 i Running" using work_finish_signal(2) by simp
  have "i \<noteq> j" using work_finish_signal(2,3) by (auto simp: is_job_def)
  then have j: "is_job (set_job i Finished ?s0) j Waiting"
    using work_finish_signal(3) by (simp add: is_job_def set_job_def)
  have "0 < num Waiting s" using num_pos [OF work_finish_signal(3)] .
  then show ?thesis using num_set_job [OF i, of Running Finished] num_set_job [OF j, of Running Awake] by (simp add: t)
qed

text \<open>Steps that leave the capacity as it is.\<close>

definition fixed_step :: "system \<Rightarrow> system \<Rightarrow> bool" where
  "fixed_step s t \<longleftrightarrow> mgr_step s t \<and> m_Capacity (sys_mgr t) = m_Capacity (sys_mgr s)"

lemma cap_inv_step:
  assumes "fixed_step s t" and cap: "cap_inv cap s"
  shows "cap_inv cap t"
proof -
  from assms(1) have step: "mgr_step s t" and same: "m_Capacity (sys_mgr t) = m_Capacity (sys_mgr s)"
    by (simp_all add: fixed_step_def)
  from step show ?thesis
  proof cases
    case step_work
    have room: "ms_Running (m_stats (sys_mgr s)) + 1 \<le> cap" if "\<not> at_capacity (sys_mgr s)" "0 < cap"
      using that cap by (auto simp: at_capacity_def cap_inv_def not_le intro: inc_le)
    show ?thesis using work_step_running [OF step_work] cap room by (auto simp: cap_inv_def)
  qed (use cap same in \<open>auto simp: cap_inv_def num_def SetManagerCapacity_def stop_def start_def new_stats_def\<close>)
qed

interpretation fixed: step_system "started cap" fixed_step "cap_inv cap" for cap
proof unfold_locales
  show "cap_inv cap s" if "started cap s" for s
    using that by (auto simp: started_def cap_inv_def num_def new_stats_def dest!: start_new)
qed (rule cap_inv_step)

lemma fixed_reachable: "reachable (started cap) fixed_step s \<Longrightarrow> reachable (started cap) mgr_step s"
  by (induction rule: reachable.induct) (auto simp: fixed_step_def intro: reachable.intros)

text \<open>
  C18. In every reachable state with fewer than \<open>2^64\<close> jobs since the start the published statistics are
  exact: they count the running, the queued and the finished jobs, and the high-water marks are at least
  the counts. A step that starts a job leaves no more jobs running than the capacity at that moment (0 is
  no limit); so as long as the capacity is never changed, neither the running jobs nor their
  high-water mark exceed it, and without a limit no job is ever queued. The capacity may be
  changed at any time, and the manager stopped and, once its jobs are finished, started again.
\<close>

theorem manager_stats:
  assumes "reachable (started cap) mgr_step s" and "length (sys_jobs s) < 2 ^ 64"
  shows "let st = m_stats (sys_mgr s) in
    unat (ms_Running st) = num Running s \<and> unat (ms_Queued st) = num Waiting s + num Awake s \<and>
    unat (ms_Finished st) = num Finished s \<and> ms_Running st \<le> ms_HighRunning st \<and>
    ms_Queued st \<le> ms_HighQueued st \<and>
    (\<forall>t. mgr_step s t \<and> num Running s < num Running t \<and> 0 < m_Capacity (sys_mgr s) \<longrightarrow>
       num Running t \<le> unat (m_Capacity (sys_mgr s))) \<and>
    (reachable (started cap) fixed_step s \<longrightarrow>
       (0 < cap \<longrightarrow> num Running s \<le> unat cap \<and> ms_HighRunning st \<le> cap) \<and> (cap = 0 \<longrightarrow> num Waiting s + num Awake s = 0))"
proof -
  let ?st = "m_stats (sys_mgr s)"
  have inv: "mgr_inv s" by (rule mgr.reachable_inv [OF assms(1)])
  then have R: "unat (ms_Running ?st) = num Running s" "ms_Running ?st \<le> ms_HighRunning ?st"
    using assms(2) by (simp_all add: mgr_inv_def Let_def)
  have "num Running t \<le> unat (m_Capacity (sys_mgr s))"
    if "mgr_step s t" "num Running s < num Running t" "0 < m_Capacity (sys_mgr s)" for t
    using that(1)
  proof cases
    case step_work
    from work_step_running [OF this] that(2,3) R show ?thesis by (auto simp: at_capacity_def word_le_nat_alt)
  qed (use that(2) in \<open>auto simp: num_def\<close>)
  moreover have "(0 < cap \<longrightarrow> num Running s \<le> unat cap \<and> ms_HighRunning ?st \<le> cap) \<and> (cap = 0 \<longrightarrow> num Waiting s + num Awake s = 0)"
    if "reachable (started cap) fixed_step s"
    using fixed.reachable_inv [OF that] R by (auto simp: cap_inv_def word_le_nat_alt)
  ultimately show ?thesis using inv assms(2) by (auto simp: mgr_inv_def Let_def)
qed

section \<open>Every job finishes\<close>

lemma all_finished: "(\<forall>st\<in>set (sys_jobs s). st = Finished) \<longleftrightarrow> (\<forall>i a. is_job s i a \<longrightarrow> a = Finished)"
  by (auto simp: is_job_def all_set_conv_all_nth)

lemma mgr_progress:
  assumes inv: "mgr_inv s" and len: "length (sys_jobs s) < 2 ^ 64" and i: "is_job s i a" "a \<noteq> Finished"
  shows "\<exists>t. work_step s t"
proof -
  consider "a = Submitted \<or> a = Awake" | "a = Running" | "a = Waiting" using i(2) by (cases a) auto
  then show ?thesis
  proof cases
    case 1
    with i(1) show ?thesis using work_check [of s i] by blast
  next
    case 2
    with i(1) show ?thesis using work_finish_none [of s i] work_finish_signal [of s i] by blast
  next
    case 3
    with i(1) num_pos have w: "0 < num Waiting s" by auto
    with inv len have "num Running s \<noteq> 0 \<or> num Awake s \<noteq> 0" by (auto simp: mgr_inv_def Let_def)
    then obtain j where "is_job s j Running \<or> is_job s j Awake" by (auto simp: num_zero)
    then show ?thesis using work_check [of s j] work_finish_none [of s j] work_finish_signal [of s j] by blast
  qed
qed

text \<open>Unfinished jobs first, then the jobs that are about to look for a slot.\<close>

definition work_left :: "system \<Rightarrow> nat \<times> nat" where
  "work_left s = (length (sys_jobs s) - num Finished s, num Submitted s + num Awake s)"

lemma work_step_decreases:
  assumes "work_step s t"
  shows "length (sys_jobs t) = length (sys_jobs s) \<and> (work_left t, work_left s) \<in> less_than <*lex*> less_than"
  using assms
proof cases
  case (work_check i w)
  then obtain a where a: "is_job s i a" "a = Submitted \<or> a = Awake" by auto
  obtain m b where r: "runOrQueueJob w (sys_jobs s ! i = Awake) (sys_mgr s) = (m, b)"
    and b: "b = Waiting \<or> b = Running"
    by (cases "runOrQueueJob w (sys_jobs s ! i = Awake) (sys_mgr s)") (auto simp: runOrQueueJob_def split: if_splits)
  have t: "t = set_job i b (s\<lparr>sys_mgr := m\<rparr>)" by (simp add: work_check(1) check_slot_def r)
  have "is_job (s\<lparr>sys_mgr := m\<rparr>) i a" using a(1) by simp
  note N = num_set_job [OF this, of _ b]
  have "num Finished t = num Finished s" "num Submitted t + num Awake t < num Submitted s + num Awake s"
    using N [of Finished] N [of Submitted] N [of Awake] a b by (auto simp: t)
  then show ?thesis by (simp add: work_left_def t)
next
  case (work_finish_none i)
  let ?s0 = "s\<lparr>sys_mgr := (sys_mgr s)\<lparr>m_stats := finish_stats (m_stats (sys_mgr s))\<rparr>\<rparr>"
  have t: "t = set_job i Finished ?s0" by (simp add: work_finish_none(1) finish_job_def)
  have "is_job ?s0 i Running" using work_finish_none(2) by simp
  from num_set_job [OF this, of Finished Finished] have "num Finished t = num Finished s + 1" by (simp add: t)
  then show ?thesis using num_total [of t] by (auto simp: work_left_def t)
next
  case (work_finish_signal i j)
  let ?s0 = "s\<lparr>sys_mgr := (sys_mgr s)\<lparr>m_stats := finish_stats (m_stats (sys_mgr s))\<rparr>\<rparr>"
  have t: "t = set_job j Awake (set_job i Finished ?s0)" by (simp add: work_finish_signal(1) finish_job_def)
  have i: "is_job ?s0 i Running" using work_finish_signal(2) by simp
  have "i \<noteq> j" using work_finish_signal(2,3) by (auto simp: is_job_def)
  then have j: "is_job (set_job i Finished ?s0) j Waiting"
    using work_finish_signal(3) by (simp add: is_job_def set_job_def)
  from num_set_job [OF i, of Finished Finished] num_set_job [OF j, of Finished Awake]
  have "num Finished t = num Finished s + 1" by (simp add: t)
  then show ?thesis using num_total [of t] by (auto simp: work_left_def t)
qed

text \<open>
  C19. Every job finishes: without new jobs the workers cannot go on for ever, and from every
  reachable state they can go on until all jobs are finished, so no wake-up is ever lost.
\<close>

theorem manager_liveness:
  "wf {(t, s). work_step s t} \<and>
   (\<forall>s. reachable (started cap) mgr_step s \<and> length (sys_jobs s) < 2 ^ 64 \<longrightarrow>
      ((\<nexists>t. work_step s t) \<longleftrightarrow> (\<forall>st\<in>set (sys_jobs s). st = Finished)))"
proof (intro conjI allI impI)
  have "{(t, s). work_step s t} \<subseteq> inv_image (less_than <*lex*> less_than) work_left"
    using work_step_decreases by auto
  then show "wf {(t, s). work_step s t}" by (rule wf_subset [rotated]) auto
next
  fix s assume s: "reachable (started cap) mgr_step s \<and> length (sys_jobs s) < 2 ^ 64"
  then have inv: "mgr_inv s" by (blast intro: mgr.reachable_inv)
  have "\<not> work_step s t" if "\<forall>st\<in>set (sys_jobs s). st = Finished" for t
  proof
    assume "work_step s t"
    then obtain i a where "is_job s i a" "a \<noteq> Finished" by cases auto
    with that show False by (auto simp: all_finished)
  qed
  with mgr_progress [OF inv conjunct2 [OF s]] show "(\<nexists>t. work_step s t) \<longleftrightarrow> (\<forall>st\<in>set (sys_jobs s). st = Finished)"
    by (auto simp: all_finished)
qed

section \<open>The manager refines a set of slots\<close>




definition jobs_in :: "job_state set \<Rightarrow> system \<Rightarrow> nat set" where
  "jobs_in S s = {i. i < length (sys_jobs s) \<and> sys_jobs s ! i \<in> S}"




lemma jobs_in_mgr [simp]: "jobs_in S (s\<lparr>sys_mgr := m\<rparr>) = jobs_in S s"
  by (simp add: jobs_in_def)





section \<open>Restarting while jobs run\<close>

text \<open>
  \<open>start\<close> after \<open>stop\<close> clears the statistics while the jobs of the first session still run. The
  first of them to finish takes the counter below zero, and with a capacity no job runs any more.
\<close>

lemma restart_underflow:
  assumes "m_isRunning m" and "0 < m_Capacity m"
  shows "let m' = start now (stop m); m'' = m'\<lparr>m_stats := finish_stats (m_stats m')\<rparr>
    in ms_Running (m_stats m'') = - 1 \<and> at_capacity m''"
  using assms by (simp add: start_def stop_def new_stats_def at_capacity_def word_order.extremum)

section \<open>A concrete execution\<close>

definition sample_mgr :: system where
  "sample_mgr = \<lparr>sys_mgr = start 0 (newManager\<lparr>m_Capacity := 1\<rparr>), sys_jobs = []\<rparr>"

definition sample_mgr_queued :: system where
  "sample_mgr_queued =
     check_slot 0 1 (check_slot 0 0 (sample_mgr\<lparr>sys_jobs := [Submitted, Submitted]\<rparr>))"

lemma sample_mgr_jobs: "sys_jobs sample_mgr_queued = [Running, Waiting]"
  by code_simp

lemma sample_mgr_reachable: "reachable (started 1) mgr_step sample_mgr_queued"
proof -
  let ?s0 = "sample_mgr" and ?s1 = "sample_mgr\<lparr>sys_jobs := [Submitted]\<rparr>"
  let ?s2 = "sample_mgr\<lparr>sys_jobs := [Submitted, Submitted]\<rparr>"
  let ?s3 = "check_slot 0 0 ?s2"
  have "reachable (started 1) mgr_step ?s0"
    by (rule reach_init) (auto simp: started_def sample_mgr_def)
  then have "reachable (started 1) mgr_step ?s1"
    using step_submit [of sample_mgr] by (auto simp: sample_mgr_def start_def newManager_def intro: reach_step)
  then have "reachable (started 1) mgr_step ?s2"
    using step_submit [of ?s1] by (auto simp: sample_mgr_def start_def newManager_def intro: reach_step)
  moreover have "is_job ?s2 0 Submitted" by (simp add: is_job_def)
  ultimately have s3: "reachable (started 1) mgr_step ?s3"
    by (blast intro: reach_step step_work work_check)
  have "sys_jobs ?s3 = [Running, Submitted]" by code_simp
  then have "is_job ?s3 1 Submitted" by (simp add: is_job_def)
  with s3 show ?thesis unfolding sample_mgr_queued_def by (blast intro: reach_step step_work work_check)
qed

lemma manager_stats_witness: "unat (ms_Queued (m_stats (sys_mgr sample_mgr_queued))) = 1"
proof -
  have len: "length (sys_jobs sample_mgr_queued) < 2 ^ 64" by (simp add: sample_mgr_jobs)
  have "num Waiting sample_mgr_queued + num Awake sample_mgr_queued = 1" by (simp add: num_def sample_mgr_jobs)
  with manager_stats [OF sample_mgr_reachable len] show ?thesis by (simp add: Let_def)
qed

lemma manager_liveness_witness: "\<exists>t. work_step sample_mgr_queued t"
proof -
  have "length (sys_jobs sample_mgr_queued) < 2 ^ 64" by (simp add: sample_mgr_jobs)
  with manager_liveness [of 1] sample_mgr_reachable show ?thesis by (auto simp: sample_mgr_jobs)
qed


text \<open>
  A capacity that is lowered while jobs run leaves more of them running than it allows: three
  jobs run, then the capacity becomes 1.
\<close>

lemma lowered_capacity:
  "let s = check_slot 0 2 (check_slot 0 1 (check_slot 0 0
       \<lparr>sys_mgr = start 0 (newManager\<lparr>m_Capacity := 3\<rparr>), sys_jobs = [Submitted, Submitted, Submitted]\<rparr>));
     t = s\<lparr>sys_mgr := SetManagerCapacity 1 (sys_mgr s)\<rparr>
   in ms_Running (m_stats (sys_mgr t)) = 3 \<and> m_Capacity (sys_mgr t) = 1"
  by code_simp

end
