(* ===== verification/Students.thy ===== *)
theory Students
  imports TestGroups Version "HOL-Library.List_Lexorder" "HOL-Library.Char_ord"
begin

text \<open>
  Students, submissions and the statistics kept per student and target (\<open>submission.go\<close>), and
  the persistence layer as its clients see it (\<open>persistence.go\<close>).

  The persistence manager is an interface to a database: its methods are the fields of
  \<open>PersistenceManager\<close>, and no manager is \<open>None\<close>. Fields carry the prefix of their type.
\<close>

section \<open>Data\<close>

record SubmissionUserInfo =
  ui_Email :: string
  ui_Token :: string
  ui_KeyHash :: string

record SubmissionRequest =
  rq_Target :: string
  rq_Users :: "SubmissionUserInfo list"
  rq_Repository :: string
  rq_CommitID :: string
  rq_CommitRef :: string
  rq_ClientVersion :: ProgramVersion
  rq_EstimatedScores :: "(string, uint) gomap"

record UploadRequest =
  ur_UploadType :: int
  ur_Users :: "SubmissionUserInfo list"

datatype submission_status = SUBMISSION_SUBMITTED | SUBMISSION_BUILDING | SUBMISSION_RUNNING
  | SUBMISSION_ABORTED | SUBMISSION_COMPLETED

record TargetStats =
  ts_TargetName :: string
  ts_TargetVersion :: uint
  ts_TargetType :: string
  ts_MaxScore :: uint
  ts_TotalSubmissions :: uint
  ts_TotalComplete :: uint
  ts_HighScore :: uint
  ts_LowScore :: uint
  ts_AvgScore :: float64
  ts_BestPerf :: float64
  ts_WorstPerf :: float64
  ts_AvgPerf :: float64
  ts_BestSubmission :: string

text \<open>\<open>isStaff\<close> caches an answer: 0 not asked yet, 1 no, 2 yes.\<close>

record Student =
  stu_ID :: string
  stu_Email :: string
  stu_Token :: string
  stu_PublicKey :: string
  stu_TotalSubmissions :: uint
  stu_Stats :: "TargetStats list"
  stu_isStaff :: nat

text \<open>
  \<open>BuildTest\<close> is the build test's ID; \<open>subSubmissions\<close> gives the IDs of the submissions a
  metasubmission was split into.
\<close>

record Submission =
  sb_ID :: string
  sb_Users :: "string list"
  sb_Repository :: string
  sb_CommitID :: string
  sb_CommitRef :: string
  sb_ClientVersion :: string
  sb_OverlayCommitID :: string
  sb_IsStaff :: bool
  sb_TargetID :: string
  sb_TargetName :: string
  sb_TargetVersion :: uint
  sb_IsMetaTarget :: bool
  sb_SubmittedTargetID :: string
  sb_SubmittedTargetName :: string
  sb_SubmittedTargetVersion :: uint
  sb_PointsAvailable :: uint
  sb_TargetType :: string
  sb_Status :: submission_status
  sb_Score :: uint
  sb_Performance :: float64
  sb_TestIDs :: "string list"
  sb_Errors :: "string list"
  sb_EstimatedScore :: uint
  sb_SubmissionTime :: int
  sb_CompletionTime :: int
  sb_Env :: TestEnvironment
  sb_BuildTest :: "string option"
  sb_Tests :: TestGroup
  sb_students :: "Student list"
  sb_OrigSubmissionID :: string
  sb_origTarget :: Target
  sb_SubSubmissionIDs :: "string list"
  sb_subSubmissions :: "(string, string) gomap"
  sb_estimatedScores :: "(string, uint) gomap"

section \<open>Persistence\<close>

datatype persist_entity = PStudent Student | PSubmission Submission | PTarget Target | PTest string | PBuild string

text \<open>
  \<open>Retrieve\<close> is used for students by email and token, and to count the users with an email
  address whose staff flag is set.
\<close>

record PersistenceManager =
  pm_CanRetrieve :: bool
  pm_Notify :: "persist_entity \<Rightarrow> notify_msg \<Rightarrow> nat \<Rightarrow> string option"
  pm_Students :: "string \<Rightarrow> string \<Rightarrow> string + Student list"
  pm_StaffUsers :: "string \<Rightarrow> string + nat"

definition DoNothingPersistence :: PersistenceManager where
  "DoNothingPersistence = \<lparr>pm_CanRetrieve = False, pm_Notify = (\<lambda>_ _ _. None),
     pm_Students = (\<lambda>_ _. Inr []), pm_StaffUsers = (\<lambda>_. Inr 0)\<rparr>"

section \<open>Students\<close>

text \<open>The answer and the student with the cached answer. Asking needs a manager that can retrieve.\<close>

definition IsStaff :: "PersistenceManager option \<Rightarrow> Student \<Rightarrow> (string + bool) \<times> Student" where
  "IsStaff pm student =
     (if stu_isStaff student = 0 then
        (case pm of
           None \<Rightarrow> (Inl ''Unable to detect if student is staff'', student)
         | Some p \<Rightarrow>
             if \<not> pm_CanRetrieve p then (Inl ''Unable to detect if student is staff'', student)
             else (case pm_StaffUsers p (stu_Email student) of
                     Inl err \<Rightarrow> (Inl err, student)
                   | Inr res \<Rightarrow>
                       let flag = (if 0 < res then 2 else 1)
                       in (Inr (flag = (2::nat)), student\<lparr>stu_isStaff := flag\<rparr>)))
      else (Inr (stu_isStaff student = 2), student))"

definition submission_TargetStats :: "Submission \<Rightarrow> TargetStats" where
  "submission_TargetStats s =
     \<lparr>ts_TargetName = sb_TargetName s, ts_TargetVersion = sb_TargetVersion s, ts_TargetType = sb_TargetType s,
      ts_MaxScore = sb_PointsAvailable s, ts_TotalSubmissions = 0, ts_TotalComplete = 0, ts_HighScore = 0,
      ts_LowScore = 0, ts_AvgScore = 0, ts_BestPerf = 0, ts_WorstPerf = 0, ts_AvgPerf = 0, ts_BestSubmission = []\<rparr>"

definition validResult :: "Submission \<Rightarrow> bool" where
  "validResult s \<longleftrightarrow> sb_Status s = SUBMISSION_COMPLETED \<and>
     (sb_TargetType s = ''asst'' \<or> sb_Score s = sb_PointsAvailable s)"

definition getStat :: "Student \<Rightarrow> string \<Rightarrow> TargetStats option" where
  "getStat student targetName = find (\<lambda>stat. ts_TargetName stat = targetName) (stu_Stats student)"

text \<open>Writing through the pointer that \<open>getStat\<close> returned.\<close>

fun write_stat :: "string \<Rightarrow> (TargetStats \<Rightarrow> TargetStats) \<Rightarrow> TargetStats list \<Rightarrow> TargetStats list" where
  "write_stat targetName f [] = []"
| "write_stat targetName f (stat # stats) =
     (if ts_TargetName stat = targetName then f stat # stats else stat # write_stat targetName f stats)"

definition float_uint :: "uint \<Rightarrow> float64" where
  "float_uint n = f64 (of_nat (unat n))"

text \<open>A running average: the previous total over the previous count, then the new value.\<close>

definition next_average :: "uint \<Rightarrow> float64 \<Rightarrow> float64 \<Rightarrow> uint \<times> float64" where
  "next_average completed avg v =
     (let prevTotal = f64 (float_uint completed * avg); completed' = completed + 1
      in if completed' = 0 then (1, f64 (f64 (0 + v) / float_uint 1))
         else (completed', f64 (f64 (prevTotal + v) / float_uint completed')))"

definition asst_result :: "Submission \<Rightarrow> TargetStats \<Rightarrow> TargetStats" where
  "asst_result s stat =
     (let stat1 = (if ts_HighScore stat < sb_Score s
                   then stat\<lparr>ts_HighScore := sb_Score s, ts_BestSubmission := sb_ID s\<rparr> else stat);
          stat2 = (if ts_LowScore stat1 = 0 \<or> sb_Score s < ts_LowScore stat1
                   then stat1\<lparr>ts_LowScore := sb_Score s\<rparr> else stat1);
          (completed, avg) = next_average (ts_TotalComplete stat2) (ts_AvgScore stat2) (float_uint (sb_Score s))
      in stat2\<lparr>ts_TotalComplete := completed, ts_AvgScore := avg\<rparr>)"

definition perf_result :: "Submission \<Rightarrow> TargetStats \<Rightarrow> TargetStats" where
  "perf_result s stat =
     (let stat1 = (if sb_Performance s < ts_BestPerf stat \<or> ts_BestPerf stat = 0
                   then stat\<lparr>ts_BestPerf := sb_Performance s, ts_BestSubmission := sb_ID s\<rparr> else stat);
          stat2 = (if ts_WorstPerf stat1 < sb_Performance s
                   then stat1\<lparr>ts_WorstPerf := sb_Performance s\<rparr> else stat1);
          (completed, avg) = next_average (ts_TotalComplete stat2) (ts_AvgPerf stat2) (sb_Performance s)
      in stat2\<lparr>ts_TotalComplete := completed, ts_AvgPerf := avg\<rparr>)"

definition record_submission :: "Submission \<Rightarrow> TargetStats \<Rightarrow> TargetStats" where
  "record_submission s stat =
     (let stat1 = stat\<lparr>ts_TotalSubmissions := ts_TotalSubmissions stat + 1\<rparr>;
          stat2 = (if ts_TargetVersion stat1 < sb_TargetVersion s
                   then stat1\<lparr>ts_MaxScore := sb_PointsAvailable s, ts_TargetVersion := sb_TargetVersion s\<rparr> else stat1)
      in if validResult s
         then (if ts_TargetType stat2 = ''asst'' then asst_result s stat2
               else if ts_TargetType stat2 = ''perf'' then perf_result s stat2 else stat2)
         else stat2)"

definition updateStats :: "Submission \<Rightarrow> Student \<Rightarrow> Student" where
  "updateStats s student =
     (let student1 = (if sb_ID s = sb_OrigSubmissionID s
                      then student\<lparr>stu_TotalSubmissions := stu_TotalSubmissions student + 1\<rparr> else student);
          student2 = (if getStat student1 (sb_TargetName s) = None
                      then student1\<lparr>stu_Stats := sort_key ts_TargetName (stu_Stats student1 @ [submission_TargetStats s])\<rparr>
                      else student1)
      in student2\<lparr>stu_Stats := write_stat (sb_TargetName s) (record_submission s) (stu_Stats student2)\<rparr>)"

section \<open>The list of statistics\<close>

lemma record_submission_name [simp]: "ts_TargetName (record_submission s stat) = ts_TargetName stat"
  by (auto simp: record_submission_def asst_result_def perf_result_def Let_def split: prod.splits)

lemma names_write_stat [simp]:
  "(\<And>stat. ts_TargetName (f stat) = ts_TargetName stat) \<Longrightarrow> map ts_TargetName (write_stat n f stats) = map ts_TargetName stats"
  by (induction stats) auto

lemma find_write_stat:
  "(\<And>stat. ts_TargetName (f stat) = ts_TargetName stat) \<Longrightarrow>
   find (\<lambda>stat. ts_TargetName stat = k) (write_stat n f stats) =
     (if k = n then map_option f (find (\<lambda>stat. ts_TargetName stat = n) stats)
      else find (\<lambda>stat. ts_TargetName stat = k) stats)"
  by (induction stats) auto

lemma find_key_iff:
  "distinct (map f xs) \<Longrightarrow> find (\<lambda>x. f x = k) xs = Some x \<longleftrightarrow> x \<in> set xs \<and> f x = k"
  by (induction xs) auto

lemma find_key_set_cong:
  assumes "distinct (map f xs)" "distinct (map f ys)" "set xs = set ys"
  shows "find (\<lambda>x. f x = k) xs = find (\<lambda>x. f x = k) ys"
proof (cases "find (\<lambda>x. f x = k) ys")
  case None
  then have "find (\<lambda>x. f x = k) xs = None" using assms(3) by (simp add: find_None_iff)
  with None show ?thesis by simp
next
  case (Some y)
  then have "y \<in> set ys \<and> f y = k" using find_key_iff [OF assms(2), of k y] by simp
  then have "find (\<lambda>x. f x = k) xs = Some y" using find_key_iff [OF assms(1), of k y] assms(3) by simp
  with Some show ?thesis by simp
qed

lemma distinct_sort_key: "distinct (map f (sort_key g xs)) \<longleftrightarrow> distinct (map f xs)"
  by (metis mset_map mset_eq_imp_distinct_iff mset_sort)

text \<open>One entry per target, in the order of the names.\<close>

definition stats_ok :: "Student \<Rightarrow> bool" where
  "stats_ok student \<longleftrightarrow> sorted (map ts_TargetName (stu_Stats student)) \<and> distinct (map ts_TargetName (stu_Stats student))"

lemma updateStats_ok:
  assumes ok: "stats_ok student"
  shows "stats_ok (updateStats s student)"
    and "getStat (updateStats s student) k =
      (if k = sb_TargetName s
       then Some (record_submission s (case getStat student k of None \<Rightarrow> submission_TargetStats s | Some stat \<Rightarrow> stat))
       else getStat student k)"
proof -
  let ?n = "sb_TargetName s" and ?stats = "stu_Stats student"
  let ?new = "submission_TargetStats s"
  define stats where "stats = (if getStat student ?n = None then sort_key ts_TargetName (?stats @ [?new]) else ?stats)"
  have res: "stu_Stats (updateStats s student) = write_stat ?n (record_submission s) stats"
    by (auto simp: updateStats_def stats_def Let_def getStat_def)
  have name: "ts_TargetName ?new = ?n" by (simp add: submission_TargetStats_def)
  have fresh: "?n \<notin> ts_TargetName ` set ?stats" if "getStat student ?n = None"
    using that by (auto simp: getStat_def find_None_iff)
  have dist: "distinct (map ts_TargetName stats)" and sorted: "sorted (map ts_TargetName stats)"
    using ok fresh by (auto simp: stats_def stats_ok_def distinct_sort_key name)
  show "stats_ok (updateStats s student)" using dist sorted by (simp add: stats_ok_def res)
  have "find (\<lambda>stat. ts_TargetName stat = j) stats =
      (if j = ?n \<and> getStat student ?n = None then Some ?new else getStat student j)" for j
  proof (cases "getStat student ?n = None")
    case True
    have "distinct (map ts_TargetName (?stats @ [?new]))" using ok fresh [OF True] by (simp add: stats_ok_def name)
    from find_key_set_cong [OF _ this, of "sort_key ts_TargetName (?stats @ [?new])" j] dist True
    have "find (\<lambda>stat. ts_TargetName stat = j) stats = find (\<lambda>stat. ts_TargetName stat = j) (?stats @ [?new])"
      by (simp add: stats_def)
    also have "\<dots> = (if j = ?n \<and> getStat student ?n = None then Some ?new else getStat student j)"
    proof -
      have "find P (xs @ [y]) = (case find P xs of Some x \<Rightarrow> Some x | None \<Rightarrow> if P y then Some y else None)" for P xs and y :: TargetStats
        by (induction xs) auto
      then show ?thesis using True name by (auto simp: getStat_def split: option.splits)
    qed
    finally show ?thesis .
  next
    case False
    then show ?thesis by (auto simp: stats_def getStat_def)
  qed
  note F = this
  show "getStat (updateStats s student) k =
      (if k = ?n then Some (record_submission s (case getStat student k of None \<Rightarrow> ?new | Some stat \<Rightarrow> stat))
       else getStat student k)"
  proof -
    have "getStat (updateStats s student) k = find (\<lambda>stat. ts_TargetName stat = k) (write_stat ?n (record_submission s) stats)"
      by (simp add: getStat_def res)
    also have "\<dots> = (if k = ?n then map_option (record_submission s) (find (\<lambda>stat. ts_TargetName stat = ?n) stats)
        else find (\<lambda>stat. ts_TargetName stat = k) stats)"
      by (rule find_write_stat) simp
    finally show ?thesis unfolding F by (auto split: option.split)
  qed
qed

text \<open>
  C40. A student's list of statistics is well formed: updating it with any sequence of submissions
  keeps one entry per target and the entries sorted by the name of the target.
\<close>

theorem updateStats_well_formed:
  assumes "stats_ok student"
  shows "stats_ok (fold updateStats subs student)"
  using assms by (induction subs arbitrary: student) (auto intro: updateStats_ok)

section \<open>What the statistics say\<close>

text \<open>The statistics of an assignment target after the submissions \<open>hs\<close> to it, latest last.\<close>

definition asst_summary :: "Submission list \<Rightarrow> TargetStats \<Rightarrow> bool" where
  "asst_summary hs stat \<longleftrightarrow>
     ts_TargetType stat = ''asst'' \<and>
     unat (ts_TotalSubmissions stat) = length hs \<and>
     unat (ts_TotalComplete stat) = length (filter validResult hs) \<and>
     ts_HighScore stat = Max (insert 0 (sb_Score ` set (filter validResult hs))) \<and>
     (ts_HighScore stat \<noteq> 0 \<longrightarrow>
        (\<exists>s\<in>set hs. validResult s \<and> sb_ID s = ts_BestSubmission stat \<and> sb_Score s = ts_HighScore stat)) \<and>
     ts_TargetVersion stat = Max (sb_TargetVersion ` set hs)"

lemma unat_inc: "unat w + 1 < 2 ^ 64 \<Longrightarrow> unat (w + 1 :: uint) = unat w + 1"
  by (simp add: unat_word_ariths)

lemma record_asst:
  assumes "ts_TargetType stat = ''asst''"
  shows "ts_TotalSubmissions (record_submission s stat) = ts_TotalSubmissions stat + 1 \<and>
    ts_TargetType (record_submission s stat) = ''asst'' \<and>
    ts_TargetVersion (record_submission s stat) = max (ts_TargetVersion stat) (sb_TargetVersion s) \<and>
    (validResult s \<longrightarrow> ts_HighScore (record_submission s stat) = max (ts_HighScore stat) (sb_Score s) \<and>
       ts_BestSubmission (record_submission s stat) = (if ts_HighScore stat < sb_Score s then sb_ID s else ts_BestSubmission stat) \<and>
       (ts_TotalComplete stat + 1 \<noteq> 0 \<longrightarrow> ts_TotalComplete (record_submission s stat) = ts_TotalComplete stat + 1)) \<and>
    (\<not> validResult s \<longrightarrow> ts_HighScore (record_submission s stat) = ts_HighScore stat \<and>
       ts_BestSubmission (record_submission s stat) = ts_BestSubmission stat \<and>
       ts_TotalComplete (record_submission s stat) = ts_TotalComplete stat)"
proof -
  define r where "r = asst_result s"
  have T: "ts_TotalSubmissions (asst_result s x) = ts_TotalSubmissions x" "ts_TargetType (asst_result s x) = ts_TargetType x"
    "ts_TargetVersion (asst_result s x) = ts_TargetVersion x" "ts_HighScore (asst_result s x) = max (ts_HighScore x) (sb_Score s)"
    "ts_BestSubmission (asst_result s x) = (if ts_HighScore x < sb_Score s then sb_ID s else ts_BestSubmission x)"
    "ts_TotalComplete x + 1 \<noteq> 0 \<Longrightarrow> ts_TotalComplete (asst_result s x) = ts_TotalComplete x + 1" for x
    by (auto simp: asst_result_def next_average_def Let_def)
  define y where "y = (let stat1 = stat\<lparr>ts_TotalSubmissions := ts_TotalSubmissions stat + 1\<rparr>
      in if ts_TargetVersion stat1 < sb_TargetVersion s
         then stat1\<lparr>ts_MaxScore := sb_PointsAvailable s, ts_TargetVersion := sb_TargetVersion s\<rparr> else stat1)"
  have y: "ts_TotalSubmissions y = ts_TotalSubmissions stat + 1" "ts_TargetType y = ''asst''"
    "ts_TargetVersion y = max (ts_TargetVersion stat) (sb_TargetVersion s)" "ts_HighScore y = ts_HighScore stat"
    "ts_BestSubmission y = ts_BestSubmission stat" "ts_TotalComplete y = ts_TotalComplete stat"
    using assms by (auto simp: y_def Let_def)
  have "record_submission s stat = (if validResult s then asst_result s y else y)"
    using y(2) unfolding record_submission_def y_def Let_def by simp
  with T [of y] y show ?thesis by simp
qed

lemma asst_summary_step:
  assumes sum: "asst_summary hs stat" and ne: "hs \<noteq> []" and len: "length (hs @ [s]) < 2 ^ 64"
  shows "asst_summary (hs @ [s]) (record_submission s stat)"
proof -
  from sum have ty: "ts_TargetType stat = ''asst''" by (simp add: asst_summary_def)
  note R = record_asst [OF ty, of s]
  let ?A = "insert 0 (sb_Score ` set (filter validResult hs))"
  have tot: "unat (ts_TotalSubmissions stat + 1) = length hs + 1"
    using sum len by (subst unat_inc) (auto simp: asst_summary_def)
  have "length (filter validResult hs) + 1 \<le> length (hs @ [s])" by simp
  with len have "length (filter validResult hs) + 1 < 2 ^ 64" by linarith
  moreover have "unat (ts_TotalComplete stat) = length (filter validResult hs)" using sum by (simp add: asst_summary_def)
  ultimately have com: "unat (ts_TotalComplete stat + 1) = length (filter validResult hs) + 1"
    by (subst unat_inc) simp_all
  then have nz: "ts_TotalComplete stat + 1 \<noteq> 0" by auto
  have ver: "Max (sb_TargetVersion ` set (hs @ [s])) = max (Max (sb_TargetVersion ` set hs)) (sb_TargetVersion s)"
    using ne by (simp add: Max_insert max.commute)
  show ?thesis
  proof (cases "validResult s")
    case True
    have set: "insert 0 (sb_Score ` set (filter validResult (hs @ [s]))) = insert (sb_Score s) ?A" using True by auto
    have high: "Max (insert (sb_Score s) ?A) = max (Max ?A) (sb_Score s)"
      by (subst Max_insert) (auto simp: max.commute)
    have best: "\<exists>s'\<in>set (hs @ [s]). validResult s' \<and> sb_ID s' = ts_BestSubmission (record_submission s stat) \<and>
        sb_Score s' = ts_HighScore (record_submission s stat)" if "ts_HighScore (record_submission s stat) \<noteq> 0"
    proof (cases "ts_HighScore stat < sb_Score s")
      case True
      with \<open>validResult s\<close> R show ?thesis by (intro bexI [of _ s]) auto
    next
      case False
      with \<open>validResult s\<close> R that sum show ?thesis by (auto simp: asst_summary_def max_def)
    qed
    from R True nz tot com sum ver best show ?thesis
      unfolding asst_summary_def set high by simp
  next
    case False
    with R tot sum ver show ?thesis by (auto simp: asst_summary_def)
  qed
qed

text \<open>
  However the submissions of a student to several targets interleave, the statistics of an
  assignment describe exactly the submissions to it: how many there were and how many were
  completed, the highest score of the completed ones with a submission that reached it, and the
  newest version.
\<close>

theorem updateStats_history:
  assumes "stu_Stats student = []" and "length subs < 2 ^ 64"
    and "\<And>s. s \<in> set subs \<Longrightarrow> sb_TargetName s = n \<Longrightarrow> sb_TargetType s = ''asst''"
  shows "case getStat (fold updateStats subs student) n of
      None \<Rightarrow> filter (\<lambda>s. sb_TargetName s = n) subs = []
    | Some stat \<Rightarrow> filter (\<lambda>s. sb_TargetName s = n) subs \<noteq> [] \<and> asst_summary (filter (\<lambda>s. sb_TargetName s = n) subs) stat"
  using assms(2,3)
proof (induction subs rule: rev_induct)
  case Nil
  then show ?case by (simp add: getStat_def assms(1))
next
  case (snoc s subs)
  let ?st = "fold updateStats subs student" and ?hs = "filter (\<lambda>s. sb_TargetName s = n) subs"
  have ok: "stats_ok student" by (simp add: stats_ok_def assms(1))
  have "stats_ok ?st" using ok by (induction subs arbitrary: student) (auto intro: updateStats_ok)
  note G = updateStats_ok(2) [OF this, of s n]
  from snoc have IH: "case getStat ?st n of None \<Rightarrow> ?hs = [] | Some stat \<Rightarrow> ?hs \<noteq> [] \<and> asst_summary ?hs stat"
    by simp
  show ?case
  proof (cases "sb_TargetName s = n")
    case False
    then have "filter (\<lambda>s. sb_TargetName s = n) (subs @ [s]) = ?hs"
      and "getStat (fold updateStats (subs @ [s]) student) n = getStat ?st n" using G by auto
    with IH show ?thesis by presburger
  next
    case True
    show ?thesis
    proof (cases "getStat ?st n")
      case None
      with IH have hs: "?hs = []" by simp
      let ?new = "submission_TargetStats s"
      have "ts_TargetType ?new = ''asst''" using snoc.prems(2) [of s] True by (simp add: submission_TargetStats_def)
      from record_asst [OF this, of s] have "asst_summary [s] (record_submission s ?new)"
        by (auto simp: asst_summary_def submission_TargetStats_def max_def word_gt_0)
      with hs None True G show ?thesis by simp
    next
      case (Some stat)
      with IH have "?hs \<noteq> []" "asst_summary ?hs stat" by simp_all
      moreover have "length (?hs @ [s]) < 2 ^ 64"
      proof -
        have "length (?hs @ [s]) \<le> length (subs @ [s])" by simp
        with snoc.prems(1) show ?thesis by linarith
      qed
      ultimately show ?thesis using asst_summary_step [of ?hs stat s] Some True G by simp
    qed
  qed
qed

text \<open>
  The low score does not: 0 stands for \<open>no score yet\<close>, so a completed submission with no points
  is forgotten when the next one has some.
\<close>

lemma low_score_forgets_zero:
  assumes "ts_LowScore stat = 0"
  shows "ts_LowScore (asst_result s stat) = sb_Score s"
  using assms by (auto simp: asst_result_def Let_def split: prod.splits)

section \<open>A concrete history\<close>

definition sample_submission :: "string \<Rightarrow> string \<Rightarrow> uint \<Rightarrow> Submission" where
  "sample_submission ident target score =
     \<lparr>sb_ID = ident, sb_Users = [], sb_Repository = [], sb_CommitID = [], sb_CommitRef = [], sb_ClientVersion = [],
      sb_OverlayCommitID = [], sb_IsStaff = False, sb_TargetID = [], sb_TargetName = target, sb_TargetVersion = 1,
      sb_IsMetaTarget = False, sb_SubmittedTargetID = [], sb_SubmittedTargetName = target,
      sb_SubmittedTargetVersion = 1, sb_PointsAvailable = 50, sb_TargetType = ''asst'',
      sb_Status = SUBMISSION_COMPLETED, sb_Score = score, sb_Performance = 0, sb_TestIDs = [], sb_Errors = [],
      sb_EstimatedScore = 0, sb_SubmissionTime = 0, sb_CompletionTime = 0, sb_Env = blank_env,
      sb_BuildTest = None, sb_Tests = EmptyGroup, sb_students = [], sb_OrigSubmissionID = ident,
      sb_origTarget = \<lparr>tgt_ID = [], tgt_Name = target, tgt_Active = [], tgt_Version = 1, tgt_Type = ''asst'',
        tgt_Points = 50, tgt_KConfig = [], tgt_RequiredCommit = [], tgt_RequiresUserland = False, tgt_Tests = [],
        tgt_FileHash = [], tgt_FileName = [], tgt_IsMetaTarget = False, tgt_SubTargetNames = [], tgt_MetaName = [],
        tgt_PrintName = [], tgt_Description = [], tgt_Link = [], tgt_Leaderboard = [], tgt_metaTarget = None,
        tgt_previousSubTargets = []\<rparr>,
      sb_SubSubmissionIDs = [], sb_subSubmissions = [], sb_estimatedScores = []\<rparr>"

definition new_student :: "string \<Rightarrow> Student" where
  "new_student email = \<lparr>stu_ID = [], stu_Email = email, stu_Token = [], stu_PublicKey = [],
     stu_TotalSubmissions = 0, stu_Stats = [], stu_isStaff = 0\<rparr>"

definition sample_history :: "Submission list" where
  "sample_history = [sample_submission ''1'' ''b'' 20, sample_submission ''2'' ''a'' 7, sample_submission ''3'' ''b'' 45,
     sample_submission ''4'' ''b'' 30]"

lemma updateStats_well_formed_witness:
  "stats_ok (fold updateStats sample_history (new_student ''x''))"
  by (rule updateStats_well_formed) (simp add: stats_ok_def new_student_def)

lemma updateStats_history_witness:
  "case getStat (fold updateStats sample_history (new_student ''x'')) ''b'' of
     None \<Rightarrow> False | Some stat \<Rightarrow> unat (ts_TotalSubmissions stat) = 3 \<and> ts_HighScore stat = 45"
proof -
  have h: "filter (\<lambda>s. sb_TargetName s = ''b'') sample_history =
      [sample_submission ''1'' ''b'' 20, sample_submission ''3'' ''b'' 45, sample_submission ''4'' ''b'' 30]"
    by (simp add: sample_history_def sample_submission_def)
  have v: "filter validResult [sample_submission ''1'' ''b'' 20, sample_submission ''3'' ''b'' 45, sample_submission ''4'' ''b'' 30] =
      [sample_submission ''1'' ''b'' 20, sample_submission ''3'' ''b'' 45, sample_submission ''4'' ''b'' 30]"
    by (simp add: validResult_def sample_submission_def)
  have m: "Max (insert 0 (sb_Score ` set [sample_submission ''1'' ''b'' 20, sample_submission ''3'' ''b'' 45, sample_submission ''4'' ''b'' 30])) = (45 :: uint)"
    by (simp add: sample_submission_def)
  have "stu_Stats (new_student ''x'') = []" "length sample_history < 2 ^ 64"
    "\<And>s. s \<in> set sample_history \<Longrightarrow> sb_TargetName s = ''b'' \<Longrightarrow> sb_TargetType s = ''asst''"
  proof -
    have "sb_TargetType (sample_submission i t n) = ''asst''" for i t n by (simp add: sample_submission_def)
    then show "\<And>s. s \<in> set sample_history \<Longrightarrow> sb_TargetName s = ''b'' \<Longrightarrow> sb_TargetType s = ''asst''"
      by (auto simp: sample_history_def)
  qed (simp_all add: new_student_def sample_history_def)
  note H = updateStats_history [of "new_student ''x''" sample_history "''b''", OF this, unfolded h]
  define g where "g = getStat (fold updateStats sample_history (new_student ''x'')) ''b''"
  note G = H [folded g_def]
  have "g \<noteq> None"
  proof
    assume "g = None"
    from G [unfolded this option.case] show False by (rule list.distinct(2) [THEN notE])
  qed
  then obtain stat where stat: "g = Some stat" by (cases g) blast+
  from G [unfolded stat option.case] have
    "asst_summary [sample_submission ''1'' ''b'' 20, sample_submission ''3'' ''b'' 45, sample_submission ''4'' ''b'' 30] stat"
    by (rule conjunct2)
  then have "unat (ts_TotalSubmissions stat) = 3" "ts_HighScore stat = 45"
    unfolding asst_summary_def v m by simp_all
  then show ?thesis unfolding g_def [symmetric] stat by simp
qed

end
