(* ===== verification/Submission.thy ===== *)
theory Submission
  imports Students Targets
begin

text \<open>
  Submissions up to the moment they run (\<open>submission.go\<close>): validation of the users, creation
  and the lock that allows a student one pending submission. \<open>pendingSubmissions\<close> is the global
  map of that lock; the operations take it and return it.
\<close>

section \<open>Validation\<close>

definition getStudents :: "PersistenceManager \<Rightarrow> string \<Rightarrow> string \<Rightarrow> string + Student list" where
  "getStudents p email token =
     bind_ok (pm_Students p email token) (\<lambda>students.
       case students of
         [student] \<Rightarrow>
           if stu_Email student \<noteq> email \<or> stu_Token student \<noteq> token
           then Inl (''Unable to authenticate student: '' @ email) else Inr students
       | _ \<Rightarrow> Inl (''Unable to authenticate student: '' @ email))"

definition validateUserRecords :: "PersistenceManager \<Rightarrow> SubmissionUserInfo list \<Rightarrow> string + Student list" where
  "validateUserRecords p users =
     fold_ok (\<lambda>user allStudents.
         bind_ok (getStudents p (ui_Email user) (ui_Token user)) (\<lambda>students. Inr (allStudents @ [hd students])))
       users []"

text \<open>The loop that counts the staff; the students keep the cached answers.\<close>

definition count_staff :: "PersistenceManager option \<Rightarrow> Student \<Rightarrow> Student list \<times> nat \<Rightarrow> string + (Student list \<times> nat)" where
  "count_staff pm student = (\<lambda>(students, staffCnt).
     case IsStaff pm student of
       (Inl err, _) \<Rightarrow> Inl err
     | (Inr staff, student') \<Rightarrow> Inr (students @ [student'], if staff then staffCnt + 1 else staffCnt))"

definition validateUsers :: "PersistenceManager option \<Rightarrow> SubmissionUserInfo list \<Rightarrow> string + Student list" where
  "validateUsers pm users =
     (if users = [] then Inl ''No usernames specified''
      else bind_ok
        (case pm of
           Some p \<Rightarrow> if pm_CanRetrieve p then validateUserRecords p users else Inr []
         | None \<Rightarrow> Inr []) (\<lambda>students.
        bind_ok (fold_ok (count_staff pm) students ([], 0)) (\<lambda>(students', staffCnt).
          if 0 < staffCnt \<and> staffCnt < length students'
          then Inl ''Cannot have staff working with students!'' else Inr students')))"

definition Request_Validate :: "PersistenceManager option \<Rightarrow> TestEnvironment \<Rightarrow> SubmissionRequest \<Rightarrow> string + Student list" where
  "Request_Validate pm env req =
     (if HasPrefix (rq_Repository req) ''http''
      then Inl ''test161 must access your repository via SSH and does not accept submissions from http/https URLs''
      else if \<not> gm_has (env_Targets env) (rq_Target req) then Inl (''Invalid target: '' @ rq_Target req)
      else if rq_Repository req = [] \<or> rq_CommitID req = [] then Inl ''Must specify a Git repository and commit id''
      else validateUsers pm (rq_Users req))"

definition Upload_Validate :: "PersistenceManager option \<Rightarrow> UploadRequest \<Rightarrow> string + Student list" where
  "Upload_Validate pm req = validateUsers pm (ur_Users req)"

text \<open>\<open>key_files\<close> gives the content of a private key file, \<open>None\<close> when it does not exist.\<close>

record RequestKeyResonse =
  kr_User :: string
  kr_Key :: string

definition CheckUserKeys :: "(string \<Rightarrow> (string + string) option) \<Rightarrow> (string \<Rightarrow> string) \<Rightarrow> TestEnvironment
    \<Rightarrow> SubmissionRequest \<Rightarrow> RequestKeyResonse list" where
  "CheckUserKeys key_files md5 env req =
     concat (map (\<lambda>user.
       case key_files (path_Join [path_Join [env_KeyDir env, ui_Email user], ''id_rsa'']) of
         None \<Rightarrow> [\<lparr>kr_User = ui_Email user, kr_Key = []\<rparr>]
       | Some (Inl _) \<Rightarrow> []
       | Some (Inr data) \<Rightarrow>
           if md5 data \<noteq> ui_KeyHash user then [\<lparr>kr_User = ui_Email user, kr_Key = data\<rparr>] else [])
       (rq_Users req))"

section \<open>Creation\<close>

definition CopyEnvironment :: "TestEnvironment \<Rightarrow> TestEnvironment" where
  "CopyEnvironment env = env\<lparr>env_keyMap := [], env_RootDir := []\<rparr>"

text \<open>What \<open>NewSubmission\<close> gets from the outside: files, build configuration, identifiers, time.\<close>

record SubmissionWorld =
  sw_Files :: Files
  sw_arrivals :: "string list \<Rightarrow> string list"
  sw_ToBuildTest :: "Target \<Rightarrow> SubmissionRequest \<Rightarrow> string + string"
  sw_uuid :: string
  sw_now :: int

definition users_of :: "SubmissionRequest \<Rightarrow> string list" where
  "users_of request = map ui_Email (rq_Users request)"

definition the_submission :: "SubmissionWorld \<Rightarrow> PersistenceManager option \<Rightarrow> TestEnvironment \<Rightarrow> SubmissionRequest
    \<Rightarrow> Target \<Rightarrow> string \<Rightarrow> TestGroup \<Rightarrow> Student list \<Rightarrow> Submission" where
  "the_submission w pm env request target buildTest tg students =
     (let (tid, tname, tversion, points, meta) =
        (case tgt_metaTarget target of
           Some m \<Rightarrow>
             if tgt_IsMetaTarget target then (tgt_ID target, tgt_Name target, tgt_Version target, tgt_Points target, True)
             else (case gm_get (env_Targets env) m of
                     Some mt \<Rightarrow> (tgt_ID mt, tgt_Name mt, tgt_Version mt, tgt_Points mt, True)
                   | None \<Rightarrow> (tgt_ID target, tgt_Name target, tgt_Version target, tgt_Points target, False))
         | None \<Rightarrow> (tgt_ID target, tgt_Name target, tgt_Version target, tgt_Points target, tgt_IsMetaTarget target))
      in \<lparr>sb_ID = sw_uuid w, sb_Users = users_of request, sb_Repository = rq_Repository request,
          sb_CommitID = rq_CommitID request, sb_CommitRef = rq_CommitRef request,
          sb_ClientVersion = ProgramVersion_String (rq_ClientVersion request), sb_OverlayCommitID = [],
          sb_IsStaff = (case students of [] \<Rightarrow> False
             | student # _ \<Rightarrow> (case IsStaff pm student of (Inr staff, _) \<Rightarrow> staff | _ \<Rightarrow> False)),
          sb_TargetID = tid, sb_TargetName = tname, sb_TargetVersion = tversion, sb_IsMetaTarget = meta,
          sb_SubmittedTargetID = tgt_ID target, sb_SubmittedTargetName = tgt_Name target,
          sb_SubmittedTargetVersion = tgt_Version target, sb_PointsAvailable = points,
          sb_TargetType = tgt_Type target, sb_Status = SUBMISSION_SUBMITTED, sb_Score = 0, sb_Performance = 0,
          sb_TestIDs = [buildTest], sb_Errors = [],
          sb_EstimatedScore = (case gm_get (rq_EstimatedScores request) tname of Some est \<Rightarrow> est | None \<Rightarrow> 0),
          sb_SubmissionTime = sw_now w, sb_CompletionTime = 0, sb_Env = env, sb_BuildTest = Some buildTest,
          sb_Tests = tg, sb_students = students, sb_OrigSubmissionID = sw_uuid w, sb_origTarget = target,
          sb_SubSubmissionIDs = [], sb_subSubmissions = [], sb_estimatedScores = rq_EstimatedScores request\<rparr>)"

type_synonym pending = "(string, bool) gomap"

definition pending_msg :: "string \<Rightarrow> string" where
  "pending_msg email = ''Cannot submit at this time: User '' @ email @ '' has a submission pending.''"

text \<open>The first pass over the students checks, the second one locks.\<close>

definition lock_students :: "Student list \<Rightarrow> pending \<Rightarrow> string + pending" where
  "lock_students students pend =
     (case find (\<lambda>student. gm_get pend (stu_Email student) = Some True) students of
        Some student \<Rightarrow> Inl (pending_msg (stu_Email student))
      | None \<Rightarrow> Inr (fold (\<lambda>student. gm_put (stu_Email student) True) students pend))"

definition unlock :: "Student list \<Rightarrow> pending \<Rightarrow> pending" where
  "unlock students pend = fold (\<lambda>student. gm_del (stu_Email student)) students pend"

definition persist_submission :: "PersistenceManager option \<Rightarrow> Submission \<Rightarrow> string option" where
  "persist_submission pm s = (case pm of None \<Rightarrow> None | Some p \<Rightarrow> pm_Notify p (PSubmission s) MSG_PERSIST_CREATE 0)"

text \<open>The error list \<open>None\<close> is a panic while the target is instantiated.\<close>

definition NewSubmission :: "SubmissionWorld \<Rightarrow> PersistenceManager option \<Rightarrow> SubmissionRequest \<Rightarrow> TestEnvironment
    \<Rightarrow> pending \<Rightarrow> (string list option + Submission) \<times> pending" where
  "NewSubmission w pm request origenv pend =
     (let env = CopyEnvironment origenv in
      case Request_Validate pm env request of
        Inl err \<Rightarrow> (Inl (Some [err]), pend)
      | Inr students \<Rightarrow>
          (case gm_get (env_Targets env) (rq_Target request) of
             None \<Rightarrow> (Inl None, pend)
           | Some target \<Rightarrow>
               (case sw_ToBuildTest w target request of
                  Inl err \<Rightarrow> (Inl (Some [err]), pend)
                | Inr buildTest \<Rightarrow>
                    (case Instance (sw_Files w) (sw_arrivals w) target env of
                       Inl None \<Rightarrow> (Inl None, pend)
                     | Inl (Some _) \<Rightarrow> (Inl (Some [''Errors loading target on the server'']), pend)
                     | Inr tg \<Rightarrow>
                         let s = the_submission w pm env request target buildTest tg students
                         in case lock_students students pend of
                              Inl err \<Rightarrow> (Inl (Some [err]), pend)
                            | Inr pend' \<Rightarrow>
                                (case persist_submission pm s of
                                   Some err \<Rightarrow> (Inl (Some [err]), unlock students pend')
                                 | None \<Rightarrow> (Inr s, pend'))))))"

definition unlockStudents :: "Submission \<Rightarrow> pending \<Rightarrow> pending" where
  "unlockStudents s pend = unlock (sb_students s) pend"

section \<open>Who may submit\<close>

lemma getStudents_ok: "getStudents p email token = Inr ss \<Longrightarrow> \<exists>s. ss = [s] \<and> stu_Email s = email \<and> stu_Token s = token"
proof -
  assume ok: "getStudents p email token = Inr ss"
  then obtain xs where xs: "pm_Students p email token = Inr xs" by (auto simp: getStudents_def bind_ok_eq_Inr)
  with ok obtain s where "xs = [s]"
    by (cases xs; cases "tl xs") (auto simp: getStudents_def)
  with ok xs show ?thesis by (auto simp: getStudents_def split: if_splits)
qed

lemma validateUserRecords_ok:
  "validateUserRecords p users = Inr ss \<Longrightarrow>
   map (\<lambda>s. (stu_Email s, stu_Token s)) ss = map (\<lambda>u. (ui_Email u, ui_Token u)) users"
proof -
  let ?f = "\<lambda>user allStudents. bind_ok (getStudents p (ui_Email user) (ui_Token user)) (\<lambda>students. Inr (allStudents @ [hd students]))"
  have "fold_ok ?f users acc = Inr ss \<Longrightarrow>
      map (\<lambda>s. (stu_Email s, stu_Token s)) ss = map (\<lambda>s. (stu_Email s, stu_Token s)) acc @ map (\<lambda>u. (ui_Email u, ui_Token u)) users"
    for acc
  proof (induction users arbitrary: acc)
    case Nil
    then show ?case by simp
  next
    case (Cons u users)
    from Cons.prems obtain s where s: "stu_Email s = ui_Email u" "stu_Token s = ui_Token u"
      and rest: "fold_ok ?f users (acc @ [s]) = Inr ss"
      by (auto simp: bind_ok_eq_Inr dest!: getStudents_ok)
    from Cons.IH [OF rest] s show ?case by simp
  qed
  from this [of "[]"] show "validateUserRecords p users = Inr ss \<Longrightarrow> ?thesis"
    by (simp add: validateUserRecords_def)
qed

lemma IsStaff_keeps: "IsStaff pm s = (r, s') \<Longrightarrow> stu_Email s' = stu_Email s \<and> stu_Token s' = stu_Token s"
  by (auto simp: IsStaff_def Let_def split: if_splits option.splits sum.splits)

text \<open>The cached answer; it is the answer the next question gets.\<close>

abbreviation staff :: "Student \<Rightarrow> bool" where
  "staff s \<equiv> stu_isStaff s = 2"

lemma IsStaff_caches: "IsStaff pm s = (Inr b, s') \<Longrightarrow> staff s' = b \<and> IsStaff pm' s' = (Inr b, s')"
  by (auto simp: IsStaff_def Let_def split: if_splits option.splits sum.splits)

lemma count_staff_ok:
  "fold_ok (count_staff pm) ss (acc, n) = Inr (ss', n') \<Longrightarrow>
   \<exists>more. ss' = acc @ more \<and> n' = n + length (filter staff more) \<and>
     map (\<lambda>s. (stu_Email s, stu_Token s)) more = map (\<lambda>s. (stu_Email s, stu_Token s)) ss"
proof (induction ss arbitrary: acc n)
  case Nil
  then show ?case by simp
next
  case (Cons s ss)
  from Cons.prems obtain b s1 where b: "IsStaff pm s = (Inr b, s1)"
    and rest: "fold_ok (count_staff pm) ss (acc @ [s1], if b then n + 1 else n) = Inr (ss', n')"
  proof -
    from Cons.prems obtain st1 where st1: "count_staff pm s (acc, n) = Inr st1" "fold_ok (count_staff pm) ss st1 = Inr (ss', n')"
      by (auto simp: bind_ok_eq_Inr)
    from st1(1) obtain b s1 where "IsStaff pm s = (Inr b, s1)" "st1 = (acc @ [s1], if b then n + 1 else n)"
      by (auto simp: count_staff_def split: sum.splits prod.splits)
    with st1(2) that show thesis by blast
  qed
  from Cons.IH [OF rest] obtain more where "ss' = (acc @ [s1]) @ more"
    "n' = (if b then n + 1 else n) + length (filter staff more)"
    "map (\<lambda>s. (stu_Email s, stu_Token s)) more = map (\<lambda>s. (stu_Email s, stu_Token s)) ss" by blast
  with IsStaff_caches [OF b] IsStaff_keeps [OF b] show ?case
    by (intro exI [of _ "s1 # more"]) auto
qed

lemma length_filter_all: "length (filter P xs) = length xs \<longleftrightarrow> (\<forall>x\<in>set xs. P x)"
  using length_filter_less [of _ xs P] by (metis filter_True less_irrefl)

text \<open>
  Users that pass the validation against the database are authenticated one by one, with
  their email addresses and tokens, and they are either all staff or all students.
\<close>

theorem validateUsers_ok:
  assumes "validateUsers (Some p) users = Inr students" and "pm_CanRetrieve p"
  shows "map (\<lambda>s. (stu_Email s, stu_Token s)) students = map (\<lambda>u. (ui_Email u, ui_Token u)) users \<and>
    students \<noteq> [] \<and> ((\<forall>s\<in>set students. stu_isStaff s = 2) \<or> (\<forall>s\<in>set students. stu_isStaff s \<noteq> 2))"
proof -
  from assms obtain ss n where ne: "users \<noteq> []" and v: "validateUserRecords p users = Inr ss"
    and c: "fold_ok (count_staff (Some p)) ss ([], 0) = Inr (students, n)"
    and n: "\<not> (0 < n \<and> n < length students)"
    by (auto simp: validateUsers_def bind_ok_eq_Inr split: if_splits)
  from count_staff_ok [OF c] have cnt: "n = length (filter staff students)"
    and same: "map (\<lambda>s. (stu_Email s, stu_Token s)) students = map (\<lambda>s. (stu_Email s, stu_Token s)) ss" by auto
  from n have "length (filter staff students) = 0 \<or> length (filter staff students) = length students"
    using length_filter_le [of staff students] unfolding cnt by linarith
  then have "(\<forall>s\<in>set students. \<not> staff s) \<or> (\<forall>s\<in>set students. staff s)"
    unfolding length_filter_all by (simp add: filter_empty_conv)
  moreover have eq: "map (\<lambda>s. (stu_Email s, stu_Token s)) students = map (\<lambda>u. (ui_Email u, ui_Token u)) users"
    using same validateUserRecords_ok [OF v] by simp
  moreover from eq ne have "students \<noteq> []" by auto
  ultimately show ?thesis by blast
qed

section \<open>One pending submission per student\<close>

text \<open>
  The submissions that were created and have not ended, those that the submission manager turned away
  (\<open>SubmissionManager.Run\<close> ends them without unlocking their students), and the global map. The
  service creates submissions, turns requests down, turns submissions away and ends the ones that
  were run, in any order.
\<close>

record service =
  sv_pending :: pending
  sv_live :: "Submission list"
  sv_turned :: "Submission list"

inductive service_step :: "service \<Rightarrow> service \<Rightarrow> bool" where
  service_new: "NewSubmission w pm request env (sv_pending v) = (Inr s, pend) \<Longrightarrow>
    service_step v (v\<lparr>sv_pending := pend, sv_live := sv_live v @ [s]\<rparr>)"
| service_reject: "NewSubmission w pm request env (sv_pending v) = (Inl errs, pend) \<Longrightarrow>
    service_step v (v\<lparr>sv_pending := pend\<rparr>)"
| service_turn_away: "sv_live v = xs @ s # ys \<Longrightarrow>
    service_step v (v\<lparr>sv_live := xs @ ys, sv_turned := sv_turned v @ [s]\<rparr>)"
| service_end: "sv_live v = xs @ s # ys \<Longrightarrow>
    service_step v (v\<lparr>sv_pending := unlockStudents s (sv_pending v), sv_live := xs @ ys\<rparr>)"

definition service_start :: "service \<Rightarrow> bool" where
  "service_start v \<longleftrightarrow> v = \<lparr>sv_pending = [], sv_live = [], sv_turned = []\<rparr>"

text \<open>The submissions that hold the locks of their students.\<close>

definition holders :: "service \<Rightarrow> Submission list" where
  "holders v = sv_live v @ sv_turned v"

definition emails :: "Submission \<Rightarrow> string set" where
  "emails s = stu_Email ` set (sb_students s)"

definition lock_inv :: "service \<Rightarrow> bool" where
  "lock_inv v \<longleftrightarrow>
     (\<forall>e. gm_get (sv_pending v) e = (if \<exists>s\<in>set (holders v). e \<in> emails s then Some True else None)) \<and>
     sorted_wrt (\<lambda>s t. emails s \<inter> emails t = {}) (holders v)"

lemma lock_get:
  "gm_get (fold (\<lambda>student. gm_put (stu_Email student) True) students pend) e =
   (if e \<in> stu_Email ` set students then Some True else gm_get pend e)"
proof -
  have "fold (\<lambda>student. gm_put (stu_Email student) True) students pend = fold (\<lambda>k. gm_put k True) (map stu_Email students) pend"
    by (simp add: fold_map comp_def)
  then show ?thesis by (simp add: gm.get_put_all)
qed

lemma unlock_get: "gm_get (unlock students pend) e = (if e \<in> stu_Email ` set students then None else gm_get pend e)"
proof -
  have "unlock students pend = fold gm_del (map stu_Email students) pend"
    by (simp add: unlock_def fold_map comp_def)
  then show ?thesis by (simp add: gm.get_del_all)
qed

lemma lock_students_ok:
  "lock_students students pend = Inr pend' \<Longrightarrow>
   (\<forall>s\<in>set students. gm_get pend (stu_Email s) \<noteq> Some True) \<and>
   pend' = fold (\<lambda>student. gm_put (stu_Email student) True) students pend"
  by (auto simp: lock_students_def find_None_iff split: option.splits)

lemma the_submission_students [simp]: "sb_students (the_submission w pm env request target b tg students) = students"
  by (simp add: the_submission_def Let_def split: option.split prod.split)

lemma NewSubmission_Inr:
  assumes "NewSubmission w pm request env pend = (Inr s, pend')"
  shows "lock_students (sb_students s) pend = Inr pend'"
  using assms by (auto simp: NewSubmission_def Let_def split: sum.splits option.splits)

lemma NewSubmission_Inl:
  assumes "NewSubmission w pm request env pend = (Inl e, pend')"
  shows "pend' = pend \<or> (\<exists>students p. lock_students students pend = Inr p \<and> pend' = unlock students p)"
  using assms by (auto simp: NewSubmission_def Let_def split: sum.splits option.splits)

lemma lock_inv_step: "service_step v v' \<Longrightarrow> lock_inv v \<Longrightarrow> lock_inv v'"
proof (induction rule: service_step.induct)
  case (service_new w pm request env v s pend)
  let ?live = "\<lambda>e. \<exists>t\<in>set (holders v). e \<in> emails t"
  note L = lock_students_ok [OF NewSubmission_Inr [OF service_new(1)]]
  have get: "gm_get (sv_pending v) e = (if ?live e then Some True else None)" for e
    using service_new(2) by (simp add: lock_inv_def)
  have "gm_get pend e = (if e \<in> emails s \<or> ?live e then Some True else None)" for e
    using L by (simp add: lock_get get emails_def)
  moreover have "emails t \<inter> emails s = {}" if "t \<in> set (holders v)" for t
  proof -
    have "e \<notin> emails s" if "e \<in> emails t" for e
    proof
      assume "e \<in> emails s"
      then obtain u where "u \<in> set (sb_students s)" "e = stu_Email u" by (auto simp: emails_def)
      with L have "gm_get (sv_pending v) e \<noteq> Some True" by blast
      moreover have "?live e" using \<open>t \<in> set (holders v)\<close> that by blast
      ultimately show False using get [of e] by simp
    qed
    then show ?thesis by blast
  qed
  ultimately show ?case using service_new(2) by (auto simp: lock_inv_def holders_def sorted_wrt_append)
next
  case (service_reject w pm request env v errs pend)
  have "gm_get pend e = gm_get (sv_pending v) e" for e
  proof (cases "pend = sv_pending v")
    case False
    with NewSubmission_Inl [OF service_reject(1)] obtain students p where
      p: "lock_students students (sv_pending v) = Inr p" "pend = unlock students p" by blast
    note L = lock_students_ok [OF p(1)]
    have "gm_get (sv_pending v) (stu_Email s) = None" if "s \<in> set students" for s
      using L that service_reject(2) by (auto simp: lock_inv_def split: if_splits)
    with L show ?thesis by (auto simp: p(2) unlock_get lock_get)
  qed simp
  with service_reject(2) show ?case by (simp add: lock_inv_def holders_def)
next
  case (service_turn_away v xs s ys)
  then show ?case by (auto simp: lock_inv_def holders_def sorted_wrt_append)
next
  case (service_end v xs s ys)
  let ?rest = "xs @ ys @ sv_turned v"
  have get: "gm_get (sv_pending v) e = (if e \<in> emails s \<or> (\<exists>t\<in>set ?rest. e \<in> emails t) then Some True else None)" for e
    using service_end by (auto simp: lock_inv_def holders_def)
  have dis: "sorted_wrt (\<lambda>s t. emails s \<inter> emails t = {}) (xs @ s # ys @ sv_turned v)"
    using service_end by (simp add: lock_inv_def holders_def)
  then have "e \<notin> emails s" if "t \<in> set ?rest" "e \<in> emails t" for t e
    using that by (auto simp: sorted_wrt_append)
  then have "gm_get (unlockStudents s (sv_pending v)) e = (if \<exists>t\<in>set ?rest. e \<in> emails t then Some True else None)" for e
    by (auto simp: unlockStudents_def unlock_get get emails_def [of s, symmetric])
  moreover have "sorted_wrt (\<lambda>s t. emails s \<inter> emails t = {}) ?rest"
    using dis by (auto simp: sorted_wrt_append)
  ultimately show ?case by (simp add: lock_inv_def holders_def)
qed

interpretation service: step_system service_start service_step lock_inv
proof
  fix v assume "service_start v"
  then show "lock_inv v" by (simp add: service_start_def lock_inv_def holders_def)
qed (rule lock_inv_step)

text \<open>
  C23. A student never has two pending submissions. Of the submissions that are alive or were turned away
  by the submission manager no two have a student in common, and an email address is locked exactly
  while a submission of that student is alive, or for ever once one of them was turned away (that
  ends without unlocking). A submission that is run to its end unlocks its students.
\<close>

theorem one_pending_submission:
  assumes "reachable service_start service_step v"
  shows "(\<forall>i j. i < j \<and> j < length (sv_live v @ sv_turned v) \<longrightarrow>
      emails ((sv_live v @ sv_turned v) ! i) \<inter> emails ((sv_live v @ sv_turned v) ! j) = {}) \<and>
    (\<forall>e. gm_get (sv_pending v) e = Some True \<longleftrightarrow> (\<exists>s\<in>set (sv_live v @ sv_turned v). e \<in> emails s))"
proof -
  have inv: "lock_inv v" by (rule service.reachable_inv [OF assms])
  then have "sorted_wrt (\<lambda>s t. emails s \<inter> emails t = {}) (holders v)" by (simp add: lock_inv_def)
  then have "\<forall>i j. i < j \<and> j < length (holders v) \<longrightarrow> emails (holders v ! i) \<inter> emails (holders v ! j) = {}"
    by (simp add: sorted_wrt_iff_nth_less)
  moreover from inv have "\<forall>e. gm_get (sv_pending v) e = Some True \<longleftrightarrow> (\<exists>s\<in>set (holders v). e \<in> emails s)"
    by (simp add: lock_inv_def)
  ultimately show ?thesis unfolding holders_def by blast
qed

section \<open>A concrete service\<close>

definition blank_student :: "string \<Rightarrow> string \<Rightarrow> Student" where
  "blank_student email token = \<lparr>stu_ID = email, stu_Email = email, stu_Token = token, stu_PublicKey = [],
     stu_TotalSubmissions = 0, stu_Stats = [], stu_isStaff = 0\<rparr>"

definition sample_db :: PersistenceManager where
  "sample_db = \<lparr>pm_CanRetrieve = True, pm_Notify = (\<lambda>_ _ _. None),
     pm_Students = (\<lambda>email token. Inr [blank_student email token]), pm_StaffUsers = (\<lambda>_. Inr 0)\<rparr>"

definition sample_world :: SubmissionWorld where
  "sample_world = \<lparr>sw_Files = sample_files, sw_arrivals = rev, sw_ToBuildTest = (\<lambda>_ _. Inr ''b''),
     sw_uuid = ''u'', sw_now = 0\<rparr>"

definition sample_request :: "string \<Rightarrow> SubmissionRequest" where
  "sample_request email = \<lparr>rq_Target = ''locks'', rq_Users = [\<lparr>ui_Email = email, ui_Token = ''t'', ui_KeyHash = []\<rparr>],
     rq_Repository = ''git@h:r'', rq_CommitID = ''c'', rq_CommitRef = [],
     rq_ClientVersion = this_Version, rq_EstimatedScores = []\<rparr>"

definition sample_env :: TestEnvironment where
  "sample_env = blank_env\<lparr>env_Targets := [(''locks'', sample_target)]\<rparr>"

lemma sample_new:
  "map_prod (map_sum id (\<lambda>s. map stu_Email (sb_students s))) id
     (NewSubmission sample_world (Some sample_db) (sample_request ''a'') sample_env []) =
   (Inr [''a''], [(''a'', True)])"
  by code_simp

lemma validateUsers_ok_witness:
  "\<exists>students. validateUsers (Some sample_db) (rq_Users (sample_request ''a'')) = Inr students \<and>
     map stu_Email students = [''a'']"
proof -
  have "map_sum id (map stu_Email) (validateUsers (Some sample_db) (rq_Users (sample_request ''a''))) = Inr [''a'']"
    by code_simp
  then obtain students where s: "validateUsers (Some sample_db) (rq_Users (sample_request ''a'')) = Inr students"
    by (cases "validateUsers (Some sample_db) (rq_Users (sample_request ''a''))") simp_all
  have "pm_CanRetrieve sample_db" by (simp add: sample_db_def)
  from validateUsers_ok [OF s this] have "map (\<lambda>s. (stu_Email s, stu_Token s)) students = [(''a'', ''t'')]"
    by (simp add: sample_request_def)
  then have "map fst (map (\<lambda>s. (stu_Email s, stu_Token s)) students) = map fst [(''a'', ''t'')]" by (rule arg_cong)
  then have "map stu_Email students = [''a'']" by (simp add: comp_def)
  with s show ?thesis by (intro exI [of _ students] conjI)
qed

lemma one_pending_submission_witness:
  "\<exists>v. reachable service_start service_step v \<and> gm_get (sv_pending v) ''a'' = Some True \<and>
     sv_live v = [] \<and> (\<exists>s\<in>set (sv_turned v). ''a'' \<in> emails s)"
proof -
  let ?v = "\<lparr>sv_pending = [], sv_live = [], sv_turned = []\<rparr>"
  obtain r pend where r: "NewSubmission sample_world (Some sample_db) (sample_request ''a'') sample_env [] = (r, pend)"
    by (cases "NewSubmission sample_world (Some sample_db) (sample_request ''a'') sample_env []")
  with sample_new obtain s where s: "r = Inr s" "pend = [(''a'', True)]"
    by (cases r) simp_all
  have "reachable service_start service_step ?v" by (rule reach_init) (simp add: service_start_def)
  moreover have "service_step ?v \<lparr>sv_pending = pend, sv_live = [s], sv_turned = []\<rparr>"
    using service_new [of sample_world "Some sample_db" "sample_request ''a''" sample_env ?v s pend] r s by simp
  ultimately have "reachable service_start service_step \<lparr>sv_pending = pend, sv_live = [s], sv_turned = []\<rparr>"
    by (rule reach_step)
  moreover have "service_step \<lparr>sv_pending = pend, sv_live = [s], sv_turned = []\<rparr> \<lparr>sv_pending = pend, sv_live = [], sv_turned = [s]\<rparr>"
    using service_turn_away [of "\<lparr>sv_pending = pend, sv_live = [s], sv_turned = []\<rparr>" "[]" s "[]"] by simp
  ultimately have v: "reachable service_start service_step \<lparr>sv_pending = pend, sv_live = [], sv_turned = [s]\<rparr>"
    by (rule reach_step)
  have p: "gm_get pend ''a'' = Some True" by (simp add: s(2))
  with one_pending_submission [OF v] have "''a'' \<in> emails s" by simp
  with v p show ?thesis by (intro exI [of _ "\<lparr>sv_pending = pend, sv_live = [], sv_turned = [s]\<rparr>"] conjI) simp_all
qed

end
