(* ===== verification/SubmissionRun.thy ===== *)
theory SubmissionRun
  imports Submission Manager
begin

text \<open>
  Running a submission (\<open>submission.go\<close>): the build, the tests, the score, splitting a
  metasubmission into its parts, the end of a submission; and the submission manager
  (\<open>manager.go\<close>) that queues submissions and can be paused.

  The students of a submission are shared with the submissions it was split into, so they are
  threaded through the ends of all of them. The runner is represented by the list of its
  results in the order of their arrival.
\<close>

section \<open>The end of a submission\<close>

text \<open>An error of the database is only logged.\<close>

definition updateStudents :: "Submission \<Rightarrow> Student list \<Rightarrow> Student list" where
  "updateStudents s students = map (updateStats s) students"

definition finish :: "int \<Rightarrow> Submission \<Rightarrow> Student list \<Rightarrow> Submission \<times> Student list" where
  "finish now s students =
     (s\<lparr>sb_CompletionTime := now,
        sb_Status := (if sb_Status s = SUBMISSION_RUNNING then SUBMISSION_COMPLETED else sb_Status s)\<rparr>,
      if students \<noteq> []
      then updateStudents (s\<lparr>sb_CompletionTime := now,
             sb_Status := (if sb_Status s = SUBMISSION_RUNNING then SUBMISSION_COMPLETED else sb_Status s)\<rparr>) students
      else students)"

section \<open>Splitting\<close>

definition cloneAndUpdate :: "string \<Rightarrow> Submission \<Rightarrow> Target \<Rightarrow> Submission" where
  "cloneAndUpdate uuid s target =
     s\<lparr>sb_ID := uuid, sb_TargetID := tgt_ID target, sb_TargetName := tgt_Name target,
       sb_TargetVersion := tgt_Version target, sb_IsMetaTarget := False, sb_PointsAvailable := tgt_Points target,
       sb_Score := 0,
       sb_EstimatedScore := (case gm_get (sb_estimatedScores s) (tgt_Name target) of Some est \<Rightarrow> est | None \<Rightarrow> 0),
       sb_SubSubmissionIDs := [], sb_subSubmissions := [],
       sb_TestIDs := take 1 (sb_TestIDs s) @
         map (\<lambda>(_, test). t_ID test) (filter (\<lambda>(_, test). tgt_Name target \<in> set (t_requiredBy test)) (tg_Tests (sb_Tests s)))\<rparr>"

text \<open>\<open>uuids\<close> are the identifiers that the clones get, in order.\<close>

definition split :: "(nat \<Rightarrow> string) \<Rightarrow> Submission \<Rightarrow> Submission list" where
  "split uuids s =
     (if \<not> sb_IsMetaTarget s then []
      else map (\<lambda>(i, target). cloneAndUpdate (uuids i) s target)
             (enumerate 0
               ((if tgt_IsMetaTarget (sb_origTarget s) then [] else [sb_origTarget s]) @
                List.map_filter (gm_get (env_Targets (sb_Env s))) (tgt_previousSubTargets (sb_origTarget s)))))"

section \<open>The score\<close>

definition abort :: "Submission \<Rightarrow> Submission" where
  "abort s = s\<lparr>sb_Status := SUBMISSION_ABORTED, sb_Score := 0, sb_Performance := 0\<rparr>"

definition updateScore :: "Test \<Rightarrow> Submission \<Rightarrow> Submission" where
  "updateScore test s = s\<lparr>sb_Score := sb_Score s + t_PointsEarned test\<rparr>"

record Test161JobResult =
  jr_Test :: Test
  jr_Err :: "string option"

definition take_result :: "Test161JobResult \<Rightarrow> Submission \<times> Submission list \<Rightarrow> Submission \<times> Submission list" where
  "take_result r = (\<lambda>(s, splits).
     let (s1, splits1) =
       (if sb_Status s = SUBMISSION_RUNNING
        then (if t_Result (jr_Test r) = TEST_RESULT_ABORT
              then (abort s, map abort splits)
              else (updateScore (jr_Test r) s,
                    map (\<lambda>other. if t_TargetName (jr_Test r) = sb_TargetName other then updateScore (jr_Test r) other else other) splits))
        else (s, splits))
     in (case jr_Err r of None \<Rightarrow> s1 | Some err \<Rightarrow> s1\<lparr>sb_Errors := sb_Errors s1 @ [err]\<rparr>, splits1))"

section \<open>Running\<close>

text \<open>
  The tests get the submission's ID and are created in the database. An error stops the loop and
  aborts the submission, and stays the result of the run.
\<close>

fun create_tests :: "PersistenceManager \<Rightarrow> (string \<times> Test) list \<Rightarrow> Submission \<Rightarrow> Submission \<times> string option" where
  "create_tests p [] s = (s, None)"
| "create_tests p ((k, test) # tests) s =
     (let test' = test\<lparr>t_SubmissionID := sb_ID s\<rparr>;
          s' = s\<lparr>sb_Tests := (sb_Tests s)\<lparr>tg_Tests := gm_put k test' (tg_Tests (sb_Tests s))\<rparr>,
                 sb_TestIDs := sb_TestIDs s @ [t_ID test]\<rparr>
      in case pm_Notify p (PTest k) MSG_PERSIST_CREATE 0 of
           Some err \<Rightarrow> (s'\<lparr>sb_Status := SUBMISSION_ABORTED, sb_Errors := sb_Errors s' @ [err]\<rparr>, Some err)
         | None \<Rightarrow> create_tests p tests s')"

text \<open>The result of the build: an error, or the root directory and the commit of the overlay.\<close>

definition build_phase :: "string + string \<times> string \<Rightarrow> Submission \<Rightarrow> Submission \<times> string option" where
  "build_phase build s =
     (if sb_BuildTest s = None then (s, None)
      else (case build of
              Inl err \<Rightarrow> (s\<lparr>sb_Status := SUBMISSION_ABORTED, sb_Errors := sb_Errors s @ [err]\<rparr>, Some err)
            | Inr (rootDir, overlayCommitID) \<Rightarrow>
                (s\<lparr>sb_Status := SUBMISSION_BUILDING, sb_Env := (sb_Env s)\<lparr>env_RootDir := rootDir\<rparr>,
                   sb_OverlayCommitID := overlayCommitID\<rparr>, None)))"

definition add_split :: "Submission \<Rightarrow> Submission \<Rightarrow> Submission" where
  "add_split new s =
     s\<lparr>sb_SubSubmissionIDs := sb_SubSubmissionIDs s @ [sb_ID new],
       sb_subSubmissions := gm_put (sb_TargetName new) (sb_ID new) (sb_subSubmissions s)\<rparr>"

text \<open>Everything before the deferred calls: the submission, its parts and the error.\<close>

definition run_phase :: "PersistenceManager \<Rightarrow> (nat \<Rightarrow> string) \<Rightarrow> string + string \<times> string \<Rightarrow> Test161JobResult list
    \<Rightarrow> Submission \<Rightarrow> (Submission \<times> Submission list) \<times> string option" where
  "run_phase p uuids build results s =
     (case build_phase build s of
        (s1, Some err) \<Rightarrow> ((s1, []), Some err)
      | (s1, None) \<Rightarrow>
          (case create_tests p (tg_Tests (sb_Tests s1)) s1 of
             (s2, Some err) \<Rightarrow> ((s2, []), Some err)
           | (s2, None) \<Rightarrow>
               (let s3 = s2\<lparr>sb_Status := SUBMISSION_RUNNING\<rparr>; splits = split uuids s3
                in (fold take_result results (fold add_split splits s3, splits), None))))"

text \<open>The deferred calls run in the opposite order: the parts, last one first, and the submission.\<close>

fun finish_all :: "int \<Rightarrow> Submission list \<Rightarrow> Student list \<Rightarrow> Submission list \<times> Student list" where
  "finish_all now [] students = ([], students)"
| "finish_all now (s # ss) students =
     (let (s', students1) = finish now s students; (ss', students2) = finish_all now ss students1
      in (s' # ss', students2))"

definition Submission_Run :: "PersistenceManager option \<Rightarrow> (nat \<Rightarrow> string) \<Rightarrow> int \<Rightarrow> string + string \<times> string
    \<Rightarrow> Test161JobResult list \<Rightarrow> Submission \<Rightarrow> pending \<Rightarrow> Submission \<times> Submission list \<times> string option \<times> pending" where
  "Submission_Run pm uuids now build results s pend =
     (let p = (case pm of Some p \<Rightarrow> p | None \<Rightarrow> DoNothingPersistence);
          ((s1, splits), err) = run_phase p uuids build results s;
          (splits', students1) = finish_all now (rev splits) (sb_students s1);
          (s2, students2) = finish now s1 students1;
          s3 = s2\<lparr>sb_students := students2\<rparr>
      in (s3, rev splits', err, unlockStudents s3 pend))"

section \<open>The submission manager\<close>

datatype sm_status = SM_ACCEPTING | SM_NOT_ACCEPTING | SM_STAFF_ONLY

record SubmissionManager =
  sm_status :: sm_status
  sm_stats :: ManagerStats

definition NewSubmissionManager :: "int \<Rightarrow> SubmissionManager" where
  "NewSubmissionManager now = \<lparr>sm_status = SM_ACCEPTING, sm_stats = new_stats now\<rparr>"

record Test161Stats =
  cs_Status :: string
  cs_SubmissionStats :: ManagerStats
  cs_TestStats :: ManagerStats

definition CombinedStats :: "manager \<Rightarrow> manager \<Rightarrow> SubmissionManager \<Rightarrow> Test161Stats" where
  "CombinedStats testManager mgr sm =
     \<lparr>cs_Status = (case sm_status sm of
        SM_ACCEPTING \<Rightarrow> ''accepting submissions''
      | SM_NOT_ACCEPTING \<Rightarrow> ''not accepting submissions''
      | SM_STAFF_ONLY \<Rightarrow> ''accepting submissions from staff only''),
      cs_SubmissionStats = sm_stats sm, cs_TestStats = Manager.Stats testManager mgr\<rparr>"

definition Pause :: "SubmissionManager \<Rightarrow> SubmissionManager" where
  "Pause sm = sm\<lparr>sm_status := SM_NOT_ACCEPTING\<rparr>"

definition Resume :: "SubmissionManager \<Rightarrow> SubmissionManager" where
  "Resume sm = sm\<lparr>sm_status := SM_ACCEPTING\<rparr>"

definition SetStaffOnly :: "SubmissionManager \<Rightarrow> SubmissionManager" where
  "SetStaffOnly sm = sm\<lparr>sm_status := SM_STAFF_ONLY\<rparr>"

text \<open>The message for a submission that is turned away, and \<open>None\<close> for one that is queued.\<close>

definition sm_check :: "PersistenceManager option \<Rightarrow> SubmissionManager \<Rightarrow> Submission \<Rightarrow> string option" where
  "sm_check pm sm s =
     (case sm_status sm of
        SM_NOT_ACCEPTING \<Rightarrow> Some ''The submission server is not accepting new submissions at this time''
      | SM_STAFF_ONLY \<Rightarrow>
          if \<exists>student\<in>set (sb_students s). (case IsStaff pm student of (Inr b, _) \<Rightarrow> \<not> b | _ \<Rightarrow> True)
          then Some ''The submission server is not accepting new submissions from students at this time'' else None
      | SM_ACCEPTING \<Rightarrow> None)"

definition sm_abort :: "string \<Rightarrow> Submission \<Rightarrow> Submission" where
  "sm_abort msg s = s\<lparr>sb_Status := SUBMISSION_ABORTED, sb_Errors := sb_Errors s @ [msg]\<rparr>"

definition sm_queue :: "SubmissionManager \<Rightarrow> SubmissionManager" where
  "sm_queue sm = sm\<lparr>sm_stats := enqueue_stats (sm_stats sm)\<rparr>"

text \<open>The guard of the wait before a submission runs: no test is queued.\<close>

definition sm_may_run :: "manager \<Rightarrow> bool" where
  "sm_may_run mgr \<longleftrightarrow> ms_Queued (m_stats mgr) = 0"

definition sm_begin :: "int \<Rightarrow> SubmissionManager \<Rightarrow> SubmissionManager" where
  "sm_begin curWait sm =
     sm\<lparr>sm_stats := wait_stats curWait (run_stats ((sm_stats sm)\<lparr>ms_Queued := ms_Queued (sm_stats sm) - 1\<rparr>))\<rparr>"

definition sm_end :: "SubmissionManager \<Rightarrow> SubmissionManager" where
  "sm_end sm = sm\<lparr>sm_stats := finish_stats (sm_stats sm)\<rparr>"

text \<open>
  One call of \<open>Run\<close> from end to end when it does not interleave with others: turned away, or
  queued, begun and ended.
\<close>

definition SubmissionManager_Run :: "PersistenceManager option \<Rightarrow> (nat \<Rightarrow> string) \<Rightarrow> int \<Rightarrow> int \<Rightarrow> string + string \<times> string
    \<Rightarrow> Test161JobResult list \<Rightarrow> SubmissionManager \<Rightarrow> Submission \<Rightarrow> pending
    \<Rightarrow> SubmissionManager \<times> Submission \<times> string option \<times> pending" where
  "SubmissionManager_Run pm uuids now curWait build results sm s pend =
     (case sm_check pm sm s of
        Some msg \<Rightarrow> (sm, sm_abort msg s, Some msg, pend)
      | None \<Rightarrow>
          (case Submission_Run pm uuids now build results s pend of
             (s', _, err, pend') \<Rightarrow> (sm_end (sm_begin curWait (sm_queue sm)), s', err, pend')))"

section \<open>The score of a submission and of its parts\<close>

abbreviation aborted :: "Test161JobResult list \<Rightarrow> bool" where
  "aborted results \<equiv> \<exists>r\<in>set results. t_Result (jr_Test r) = TEST_RESULT_ABORT"

abbreviation points_of :: "Test161JobResult list \<Rightarrow> uint" where
  "points_of results \<equiv> sum_list (map (\<lambda>r. t_PointsEarned (jr_Test r)) results)"

definition results_for :: "string \<Rightarrow> Test161JobResult list \<Rightarrow> Test161JobResult list" where
  "results_for name results = filter (\<lambda>r. t_TargetName (jr_Test r) = name) results"

text \<open>What no result changes.\<close>

definition identity :: "Submission \<Rightarrow> string \<times> string \<times> string \<times> Student list" where
  "identity s = (sb_ID s, sb_OrigSubmissionID s, sb_TargetName s, sb_students s)"

lemma identity_simps [simp]:
  "identity (abort s) = identity s" "identity (updateScore t s) = identity s"
  "identity (s\<lparr>sb_Errors := es\<rparr>) = identity s" "identity (s\<lparr>sb_Status := st\<rparr>) = identity s"
  by (simp_all add: identity_def abort_def updateScore_def)

lemma take_result_identity:
  "take_result r (s, splits) = (s', splits') \<Longrightarrow> identity s' = identity s \<and> map identity splits' = map identity splits"
  by (auto simp: take_result_def Let_def comp_def split: if_splits option.splits intro!: list.map_cong0)

lemma take_results_identity:
  "fold take_result results (s, splits) = (s', splits') \<Longrightarrow> identity s' = identity s \<and> map identity splits' = map identity splits"
proof (induction results arbitrary: s splits)
  case Nil
  then show ?case by simp
next
  case (Cons r results)
  obtain s1 splits1 where one: "take_result r (s, splits) = (s1, splits1)" by (cases "take_result r (s, splits)")
  with Cons.prems have "fold take_result results (s1, splits1) = (s', splits')" by simp
  from Cons.IH [OF this] take_result_identity [OF one] show ?case by simp
qed

lemma take_results_stopped:
  assumes "sb_Status s = SUBMISSION_ABORTED"
  shows "fold take_result results (s, splits) = (s', splits') \<Longrightarrow>
    sb_Status s' = SUBMISSION_ABORTED \<and> sb_Score s' = sb_Score s \<and> splits' = splits"
  using assms
proof (induction results arbitrary: s)
  case Nil
  then show ?case by simp
next
  case (Cons r results)
  obtain s1 where one: "take_result r (s, splits) = (s1, splits)" "sb_Status s1 = SUBMISSION_ABORTED" "sb_Score s1 = sb_Score s"
    using Cons.prems(2) by (cases "jr_Err r") (auto simp: take_result_def)
  with Cons.prems(1) have "fold take_result results (s1, splits) = (s', splits')" by simp
  from Cons.IH [OF this one(2)] one(3) show ?case by simp
qed

lemma take_results_score:
  "fold take_result results (s, splits) = (s', splits') \<Longrightarrow> sb_Status s = SUBMISSION_RUNNING \<Longrightarrow>
   if aborted results
   then sb_Status s' = SUBMISSION_ABORTED \<and> sb_Score s' = 0 \<and>
     list_all (\<lambda>t. sb_Status t = SUBMISSION_ABORTED \<and> sb_Score t = 0) splits'
   else sb_Status s' = SUBMISSION_RUNNING \<and> sb_Score s' = sb_Score s + points_of results \<and>
     list_all2 (\<lambda>t t'. sb_Status t' = sb_Status t \<and> sb_Score t' = sb_Score t + points_of (results_for (sb_TargetName t) results)) splits splits'"
proof (induction results arbitrary: s splits)
  case Nil
  then show ?case by (simp add: results_for_def list.rel_refl)
next
  case (Cons r results)
  let ?t = "jr_Test r"
  obtain s1 splits1 where one: "take_result r (s, splits) = (s1, splits1)" by (cases "take_result r (s, splits)")
  with Cons.prems(1) have rest: "fold take_result results (s1, splits1) = (s', splits')" by simp
  show ?case
  proof (cases "t_Result ?t = TEST_RESULT_ABORT")
    case True
    with one Cons.prems(2) have "sb_Status s1 = SUBMISSION_ABORTED" "sb_Score s1 = 0" "splits1 = map abort splits"
      by (auto simp: take_result_def abort_def split: option.splits)
    with take_results_stopped [OF this(1) rest] True show ?thesis
      by (simp add: list_all_iff abort_def)
  next
    case False
    with one Cons.prems(2) have s1: "sb_Status s1 = SUBMISSION_RUNNING" "sb_Score s1 = sb_Score s + t_PointsEarned ?t"
      and sp: "splits1 = map (\<lambda>other. if t_TargetName ?t = sb_TargetName other then updateScore ?t other else other) splits"
      by (auto simp: take_result_def updateScore_def split: option.splits)
    have two: "list_all2 (\<lambda>t t'. sb_Status t' = sb_Status t \<and> sb_Score t' = sb_Score t + points_of (results_for (sb_TargetName t) (r # results))) splits splits'"
      if "list_all2 (\<lambda>t t'. sb_Status t' = sb_Status t \<and> sb_Score t' = sb_Score t + points_of (results_for (sb_TargetName t) results)) splits1 splits'"
      using that unfolding sp list_all2_map1
      by (rule list_all2_mono) (auto simp: results_for_def updateScore_def add.assoc)
    from Cons.IH [OF rest s1(1)] False s1(2) two show ?thesis
      by (auto simp: add.assoc split: if_splits)
  qed
qed

lemma split_scores: "t \<in> set (split uuids s) \<Longrightarrow> sb_Score t = 0 \<and> sb_Status t = sb_Status s \<and> sb_OrigSubmissionID t = sb_OrigSubmissionID s \<and> sb_students t = sb_students s"
  by (auto simp: split_def cloneAndUpdate_def split: if_splits)

lemma fold_add_split [simp]:
  "sb_Score (fold add_split splits s) = sb_Score s" "sb_Status (fold add_split splits s) = sb_Status s"
  "identity (fold add_split splits s) = identity s"
  by (induction splits arbitrary: s) (simp_all add: add_split_def identity_def)

lemma create_tests_keeps:
  "create_tests p tests s = (s', e) \<Longrightarrow> sb_Score s' = sb_Score s \<and> identity s' = identity s \<and>
   (e \<noteq> None \<longrightarrow> sb_Status s' = SUBMISSION_ABORTED)"
proof (induction tests arbitrary: s)
  case Nil
  then show ?case by simp
next
  case (Cons kt tests)
  obtain k test where kt: "kt = (k, test)" by (cases kt)
  define s1 where "s1 = s\<lparr>sb_Tests := (sb_Tests s)\<lparr>tg_Tests := gm_put k (test\<lparr>t_SubmissionID := sb_ID s\<rparr>) (tg_Tests (sb_Tests s))\<rparr>,
                 sb_TestIDs := sb_TestIDs s @ [t_ID test]\<rparr>"
  have s1: "sb_Score s1 = sb_Score s" "identity s1 = identity s" by (simp_all add: s1_def identity_def)
  have res: "(case pm_Notify p (PTest k) MSG_PERSIST_CREATE 0 of
       Some err \<Rightarrow> (s1\<lparr>sb_Status := SUBMISSION_ABORTED, sb_Errors := sb_Errors s1 @ [err]\<rparr>, Some err)
     | None \<Rightarrow> create_tests p tests s1) = (s', e)"
    using Cons.prems unfolding kt create_tests.simps Let_def s1_def .
  show ?case
  proof (cases "pm_Notify p (PTest k) MSG_PERSIST_CREATE 0")
    case None
    with res have "create_tests p tests s1 = (s', e)" by simp
    from Cons.IH [OF this] s1 show ?thesis by simp
  next
    case (Some err)
    with res s1 show ?thesis by (auto simp: identity_def)
  qed
qed

lemma build_phase_keeps:
  "build_phase b s = (s', e) \<Longrightarrow> sb_Score s' = sb_Score s \<and> identity s' = identity s \<and>
   (e \<noteq> None \<longrightarrow> sb_Status s' = SUBMISSION_ABORTED)"
  by (auto simp: build_phase_def identity_def split: if_splits sum.splits prod.splits)

text \<open>The run after the tests were created.\<close>

lemma run_phase_ok:
  assumes "run_phase p uuids build results s = ((s', splits'), None)"
  obtains s3 where "sb_Status s3 = SUBMISSION_RUNNING" "sb_Score s3 = sb_Score s" "identity s3 = identity s"
    "fold take_result results (fold add_split (split uuids s3) s3, split uuids s3) = (s', splits')"
proof -
  from assms obtain s1 s2 where b: "build_phase build s = (s1, None)" and c: "create_tests p (tg_Tests (sb_Tests s1)) s1 = (s2, None)"
    and f: "fold take_result results (fold add_split (split uuids (s2\<lparr>sb_Status := SUBMISSION_RUNNING\<rparr>)) (s2\<lparr>sb_Status := SUBMISSION_RUNNING\<rparr>),
       split uuids (s2\<lparr>sb_Status := SUBMISSION_RUNNING\<rparr>)) = (s', splits')"
    by (auto simp: run_phase_def Let_def split: prod.splits option.splits)
  from build_phase_keeps [OF b] create_tests_keeps [OF c] show thesis
    by (intro that [OF _ _ _ f]) auto
qed

lemma run_phase_outcome:
  assumes "run_phase p uuids build results s = ((s', splits), None)" and "sb_Score s = 0"
  shows "if aborted results
    then sb_Status s' = SUBMISSION_ABORTED \<and> sb_Score s' = 0 \<and>
      (\<forall>t\<in>set splits. sb_Status t = SUBMISSION_ABORTED \<and> sb_Score t = 0)
    else sb_Status s' = SUBMISSION_RUNNING \<and> sb_Score s' = points_of results \<and>
      (\<forall>t\<in>set splits. sb_Status t = SUBMISSION_RUNNING \<and> sb_Score t = points_of (results_for (sb_TargetName t) results))"
  using assms(1)
proof (rule run_phase_ok)
  fix s3 assume s3: "sb_Status s3 = SUBMISSION_RUNNING" "sb_Score s3 = sb_Score s"
    and f: "fold take_result results (fold add_split (split uuids s3) s3, split uuids s3) = (s', splits)"
  from s3(1) have "sb_Status (fold add_split (split uuids s3) s3) = SUBMISSION_RUNNING" by simp
  note R = take_results_score [OF f this]
  note I = conjunct2 [OF take_results_identity [OF f]]
  have "sb_Status t' = SUBMISSION_RUNNING \<and> sb_Score t' = points_of (results_for (sb_TargetName t') results)"
    if A: "list_all2 (\<lambda>t t'. sb_Status t' = sb_Status t \<and> sb_Score t' = sb_Score t + points_of (results_for (sb_TargetName t) results)) (split uuids s3) splits"
      and "t' \<in> set splits" for t'
  proof -
    from that(2) obtain i where i: "i < length splits" "t' = splits ! i" by (auto simp: in_set_conv_nth)
    let ?t = "split uuids s3 ! i"
    have len: "length splits = length (split uuids s3)" using A by (simp add: list_all2_lengthD)
    with i have t: "?t \<in> set (split uuids s3)" by simp
    from I i len have "identity t' = identity ?t" by (metis nth_map)
    moreover from list_all2_nthD2 [OF A i(1)] i(2)
    have "sb_Status t' = sb_Status ?t \<and> sb_Score t' = sb_Score ?t + points_of (results_for (sb_TargetName ?t) results)" by simp
    ultimately show ?thesis using split_scores [OF t] s3(1) by (simp add: identity_def)
  qed
  note P = this
  show ?thesis
  proof (cases "aborted results")
    case True
    with R show ?thesis by (simp add: list_all_iff)
  next
    case False
    from R [unfolded if_not_P [OF False]]
    have st: "sb_Status s' = SUBMISSION_RUNNING" and sc: "sb_Score s' = points_of results"
      and A: "list_all2 (\<lambda>t t'. sb_Status t' = sb_Status t \<and> sb_Score t' = sb_Score t + points_of (results_for (sb_TargetName t) results)) (split uuids s3) splits"
      using s3(2) assms(2) by simp_all
    from P [OF A] have "\<forall>t\<in>set splits. sb_Status t = SUBMISSION_RUNNING \<and> sb_Score t = points_of (results_for (sb_TargetName t) results)"
      by (rule ballI)
    with st sc show ?thesis unfolding if_not_P [OF False] by (intro conjI)
  qed
qed


lemma run_phase_scores:
  assumes "run_phase p uuids build results s = ((s', splits), None)" and "sb_Score s = 0" and "\<not> aborted results"
  shows "sb_Score s' = points_of results \<and> (\<forall>t\<in>set splits. sb_Score t = points_of (results_for (sb_TargetName t) results))"
  using run_phase_outcome [OF assms(1,2)] unfolding if_not_P [OF assms(3)] by blast

text \<open>
  C25. The score of a submission that runs its tests: a test that aborts makes it and all its parts
  aborted with score 0, in whatever order the results arrive; otherwise its score is the sum of the
  points of all tests, and each part has the sum of the points of the tests graded for its target.
\<close>

theorem submission_score:
  assumes "run_phase p uuids build results s = ((s', splits), None)" and "sb_Score s = 0"
  shows "if \<exists>r\<in>set results. t_Result (jr_Test r) = TEST_RESULT_ABORT
    then sb_Status s' = SUBMISSION_ABORTED \<and> sb_Score s' = 0 \<and>
      (\<forall>t\<in>set splits. sb_Status t = SUBMISSION_ABORTED \<and> sb_Score t = 0)
    else sb_Status s' = SUBMISSION_RUNNING \<and>
      sb_Score s' = sum_list (map (\<lambda>r. t_PointsEarned (jr_Test r)) results) \<and>
      (\<forall>t\<in>set splits. sb_Status t = SUBMISSION_RUNNING \<and> sb_Score t =
         sum_list (map (\<lambda>r. t_PointsEarned (jr_Test r)) (filter (\<lambda>r. t_TargetName (jr_Test r) = sb_TargetName t) results)))"
  using run_phase_outcome [OF assms] unfolding results_for_def .

subsection \<open>The parts add up\<close>

lemma sum_over_names:
  assumes "distinct names" and "\<forall>r\<in>set results. t_PointsEarned (jr_Test r) \<noteq> 0 \<longrightarrow> t_TargetName (jr_Test r) \<in> set names"
  shows "sum_list (map (\<lambda>n. points_of (results_for n results)) names) = points_of results"
  using assms(2)
proof (induction results)
  case Nil
  then show ?case by (simp add: results_for_def sum_list_0)
next
  case (Cons r results)
  let ?p = "t_PointsEarned (jr_Test r)" and ?n = "t_TargetName (jr_Test r)"
  have "points_of (results_for n (r # results)) = (if n = ?n then ?p else 0) + points_of (results_for n results)" for n
    by (auto simp: results_for_def)
  then have "sum_list (map (\<lambda>n. points_of (results_for n (r # results))) names) =
      sum_list (map (\<lambda>n. if n = ?n then ?p else 0) names) + sum_list (map (\<lambda>n. points_of (results_for n results)) names)"
    by (simp add: sum_list_addf)
  also have "sum_list (map (\<lambda>n. if n = ?n then ?p else 0) names) = ?p"
    using Cons.prems assms(1) by (cases "?n \<in> set names") (simp_all add: sum_list_distinct_conv_sum_set sum.delta)
  finally show ?case using Cons by simp
qed

text \<open>
  When the submission runs without an aborted test and every test with points is graded for
  one of its parts, the scores of the parts add up to the score of the submission.
\<close>

theorem split_scores_add_up:
  assumes "run_phase p uuids build results s = ((s', splits), None)" and "sb_Score s = 0"
    and "\<forall>r\<in>set results. t_Result (jr_Test r) \<noteq> TEST_RESULT_ABORT"
    and "distinct (map sb_TargetName splits)"
    and "\<forall>r\<in>set results. t_PointsEarned (jr_Test r) \<noteq> 0 \<longrightarrow> t_TargetName (jr_Test r) \<in> sb_TargetName ` set splits"
  shows "sum_list (map sb_Score splits) = sb_Score s'"
proof -
  from assms(3) have "\<not> aborted results" by blast
  from run_phase_scores [OF assms(1,2) this]
  have sc: "sb_Score s' = points_of results"
    and sp: "\<forall>t\<in>set splits. sb_Score t = points_of (results_for (sb_TargetName t) results)" by auto
  from sp have "map sb_Score splits = map (\<lambda>n. points_of (results_for n results)) (map sb_TargetName splits)" by simp
  then have "sum_list (map sb_Score splits) = sum_list (map (\<lambda>n. points_of (results_for n results)) (map sb_TargetName splits))"
    by (rule arg_cong)
  also have "\<dots> = points_of results"
    by (rule sum_over_names [OF assms(4)]) (use assms(5) in simp)
  finally show ?thesis using sc by simp
qed

section \<open>The end of a run\<close>

text \<open>What a student keeps, and the count that only the original submission increases.\<close>

lemma updateStats_student:
  "stu_Email (updateStats s student) = stu_Email student"
  "stu_TotalSubmissions (updateStats s student) = stu_TotalSubmissions student + (if sb_ID s = sb_OrigSubmissionID s then 1 else 0)"
  by (simp_all add: updateStats_def Let_def)

lemma finish_spec:
  "finish now s students = (s', students') \<Longrightarrow>
   sb_Status s' = (if sb_Status s = SUBMISSION_RUNNING then SUBMISSION_COMPLETED else sb_Status s) \<and>
   sb_ID s' = sb_ID s \<and> sb_OrigSubmissionID s' = sb_OrigSubmissionID s \<and> students' = map (updateStats s') students"
  by (auto simp: finish_def updateStats_def updateStudents_def)

lemma finish_all_spec:
  "finish_all now ss students = (ss', students') \<Longrightarrow>
   \<forall>s\<in>set ss. sb_ID s \<noteq> sb_OrigSubmissionID s \<Longrightarrow>
   map stu_Email students' = map stu_Email students \<and>
   map stu_TotalSubmissions students' = map stu_TotalSubmissions students \<and>
   (list_all stats_ok students \<longrightarrow> list_all stats_ok students') \<and>
   map sb_Status ss' = map (\<lambda>s. if sb_Status s = SUBMISSION_RUNNING then SUBMISSION_COMPLETED else sb_Status s) ss"
proof (induction ss arbitrary: students ss' students')
  case Nil
  then show ?case by simp
next
  case (Cons s ss)
  obtain s1 students1 where f: "finish now s students = (s1, students1)" by (cases "finish now s students")
  obtain ss1 students2 where fa: "finish_all now ss students1 = (ss1, students2)" by (cases "finish_all now ss students1")
  from Cons.prems(1) f fa have res: "ss' = s1 # ss1" "students' = students2" by simp_all
  note F = finish_spec [OF f]
  from Cons.IH [OF fa] Cons.prems(2) res F show ?case
    by (simp add: updateStats_student comp_def list_all_iff) (auto intro: updateStats_ok)
qed

lemma run_phase_error:
  "run_phase p uuids build results s = ((s', splits), Some err) \<Longrightarrow>
   sb_Status s' = SUBMISSION_ABORTED \<and> splits = [] \<and> identity s' = identity s"
  by (auto simp: run_phase_def Let_def split: prod.splits option.splits
      dest!: build_phase_keeps create_tests_keeps)

lemma run_phase_status:
  assumes "run_phase p uuids build results s = ((s', splits), None)"
  shows "identity s' = identity s \<and> sb_Status s' \<in> {SUBMISSION_RUNNING, SUBMISSION_ABORTED} \<and>
    (\<forall>t\<in>set splits. sb_Status t \<in> {SUBMISSION_RUNNING, SUBMISSION_ABORTED} \<and>
      sb_OrigSubmissionID t = sb_OrigSubmissionID s \<and> sb_ID t \<in> range uuids)"
  using assms
proof (rule run_phase_ok)
  fix s3 assume s3: "sb_Status s3 = SUBMISSION_RUNNING" "identity s3 = identity s"
    and f: "fold take_result results (fold add_split (split uuids s3) s3, split uuids s3) = (s', splits)"
  note I = take_results_identity [OF f]
  from s3(1) have "sb_Status (fold add_split (split uuids s3) s3) = SUBMISSION_RUNNING" by simp
  note R = take_results_score [OF f this]
  have "sb_Status s' \<in> {SUBMISSION_RUNNING, SUBMISSION_ABORTED}" using R by (auto split: if_splits)
  moreover have "sb_Status t \<in> {SUBMISSION_RUNNING, SUBMISSION_ABORTED} \<and> sb_OrigSubmissionID t = sb_OrigSubmissionID s \<and> sb_ID t \<in> range uuids"
    if "t \<in> set splits" for t
  proof -
    from that obtain i where i: "i < length splits" "t = splits ! i" by (auto simp: in_set_conv_nth)
    let ?u = "split uuids s3 ! i"
    from I have len: "length splits = length (split uuids s3)" by (metis length_map)
    with i have u: "?u \<in> set (split uuids s3)" by simp
    have "identity t = identity ?u" using I i len by (metis nth_map)
    moreover have "sb_ID ?u \<in> range uuids" using u by (auto simp: split_def cloneAndUpdate_def split: if_splits)
    moreover have "sb_Status t \<in> {SUBMISSION_RUNNING, SUBMISSION_ABORTED}"
    proof (cases "aborted results")
      case True
      with R that show ?thesis by (simp add: list_all_iff)
    next
      case False
      from R [unfolded if_not_P [OF False]] have "list_all2 (\<lambda>t t'. sb_Status t' = sb_Status t \<and>
          sb_Score t' = sb_Score t + points_of (results_for (sb_TargetName t) results)) (split uuids s3) splits" by simp
      from list_all2_nthD2 [OF this i(1)] i(2) split_scores [OF u] s3(1) show ?thesis by simp
    qed
    ultimately show ?thesis using split_scores [OF u] s3(2) by (simp add: identity_def)
  qed
  ultimately show ?thesis using I s3(2) by simp
qed

text \<open>
  C33. However a submission runs, it ends: it and its parts are completed or aborted, each of its
  students is unlocked and no other, each student's number of submissions grows by one even when
  the submission was split, and the students' statistics stay well formed.
\<close>

theorem submission_ends:
  assumes "Submission_Run pm uuids now build results s pend = (s', splits, err, pend')"
    and "sb_ID s = sb_OrigSubmissionID s" and "sb_OrigSubmissionID s \<notin> range uuids"
  shows "(\<forall>t\<in>set (s' # splits). sb_Status t \<in> {SUBMISSION_COMPLETED, SUBMISSION_ABORTED}) \<and>
    (\<forall>e. gm_get pend' e = (if e \<in> stu_Email ` set (sb_students s) then None else gm_get pend e)) \<and>
    map stu_TotalSubmissions (sb_students s') = map (\<lambda>student. stu_TotalSubmissions student + 1) (sb_students s) \<and>
    (list_all stats_ok (sb_students s) \<longrightarrow> list_all stats_ok (sb_students s'))"
proof -
  define p where "p = (case pm of Some p \<Rightarrow> p | None \<Rightarrow> DoNothingPersistence)"
  obtain s1 splits1 where r: "run_phase p uuids build results s = ((s1, splits1), err)"
    and rest: "(let (splits', students1) = finish_all now (rev splits1) (sb_students s1);
          (s2, students2) = finish now s1 students1;
          s3 = s2\<lparr>sb_students := students2\<rparr>
      in (s3, rev splits', err, unlockStudents s3 pend)) = (s', splits, err, pend')"
    using assms(1) unfolding Submission_Run_def p_def [symmetric] Let_def
    by (cases "run_phase p uuids build results s") (auto split: prod.splits)
  obtain ss students1 where fa: "finish_all now (rev splits1) (sb_students s1) = (ss, students1)"
    by (cases "finish_all now (rev splits1) (sb_students s1)")
  obtain s2 students2 where f: "finish now s1 students1 = (s2, students2)" by (cases "finish now s1 students1")
  from rest fa f have res: "s' = s2\<lparr>sb_students := students2\<rparr>" "splits = rev ss" "pend' = unlockStudents s' pend"
    by (auto simp: Let_def)
  have ends: "identity s1 = identity s \<and> sb_Status s1 \<in> {SUBMISSION_RUNNING, SUBMISSION_ABORTED} \<and>
      (\<forall>t\<in>set splits1. sb_Status t \<in> {SUBMISSION_RUNNING, SUBMISSION_ABORTED} \<and> sb_ID t \<noteq> sb_OrigSubmissionID t)"
  proof (cases err)
    case None
    from run_phase_status [OF r [unfolded None]] assms(3) show ?thesis by (metis insertI1 insert_iff)
  next
    case (Some e)
    from run_phase_error [OF r [unfolded Some]] show ?thesis by simp
  qed
  then have orig: "sb_ID s1 = sb_OrigSubmissionID s1" "sb_students s1 = sb_students s"
    using assms(2) by (simp_all add: identity_def)
  from ends have "\<forall>t\<in>set (rev splits1). sb_ID t \<noteq> sb_OrigSubmissionID t" by simp
  note A = finish_all_spec [OF fa this]
  note F = finish_spec [OF f]
  have "map stu_Email students2 = map stu_Email (sb_students s)"
    using A F orig by (simp add: updateStats_student comp_def)
  from arg_cong [OF this, of set] have emails: "stu_Email ` set students2 = stu_Email ` set (sb_students s)"
    by (simp only: set_map)
  have "sb_Status t \<in> {SUBMISSION_COMPLETED, SUBMISSION_ABORTED}" if "t \<in> set splits" for t
  proof -
    from that have "sb_Status t \<in> set (map sb_Status ss)" by (simp add: res(2))
    with A ends show ?thesis by auto
  qed
  moreover have "sb_Status s' \<in> {SUBMISSION_COMPLETED, SUBMISSION_ABORTED}" using F ends by (auto simp: res(1))
  moreover have "gm_get pend' e = (if e \<in> stu_Email ` set (sb_students s) then None else gm_get pend e)" for e
    by (simp add: res unlockStudents_def unlock_get emails)
  moreover have "map stu_TotalSubmissions students2 = map (\<lambda>student. stu_TotalSubmissions student + 1) (sb_students s)"
  proof -
    have "map stu_TotalSubmissions students2 = map (\<lambda>n. n + 1) (map stu_TotalSubmissions students1)"
      using F orig(1) by (simp add: updateStats_student comp_def)
    with A orig(2) show ?thesis by (simp add: comp_def)
  qed
  moreover have "list_all stats_ok (sb_students s) \<longrightarrow> list_all stats_ok students2"
    using A F orig(2) by (auto simp: list_all_iff intro: updateStats_ok)
  ultimately show ?thesis by (simp add: res(1))
qed

text \<open>A submission that the manager turns away keeps its students locked.\<close>

lemma turned_away_stays_locked:
  assumes "sm_check pm sm s = Some msg"
  shows "SubmissionManager_Run pm uuids now curWait build results sm s pend = (sm, sm_abort msg s, Some msg, pend)"
  using assms by (simp add: SubmissionManager_Run_def)

section \<open>A concrete submission\<close>

definition part_A :: Target where
  "part_A = NewTarget\<lparr>tgt_Name := ''A'', tgt_Points := 10, tgt_MetaName := ''M''\<rparr>"

definition part_B :: Target where
  "part_B = NewTarget\<lparr>tgt_Name := ''B'', tgt_Points := 20, tgt_MetaName := ''M''\<rparr>"

definition whole_M :: Target where
  "whole_M = NewTarget\<lparr>tgt_Name := ''M'', tgt_Points := 30, tgt_IsMetaTarget := True,
     tgt_SubTargetNames := [''A'', ''B''], tgt_previousSubTargets := [''A'', ''B'']\<rparr>"

definition meta_submission :: Submission where
  "meta_submission = the_submission sample_world (Some sample_db)
     (blank_env\<lparr>env_Targets := [(''A'', part_A), (''B'', part_B), (''M'', whole_M)]\<rparr>)
     (sample_request ''a'') whole_M ''b'' EmptyGroup [blank_student ''a'' ''t'']"

definition result_of :: "string \<Rightarrow> uint \<Rightarrow> Test161JobResult" where
  "result_of target pts = \<lparr>jr_Test = (blank_test ''x.t'')\<lparr>t_TargetName := target, t_PointsEarned := pts,
     t_Result := TEST_RESULT_CORRECT\<rparr>, jr_Err = None\<rparr>"

definition sample_results :: "Test161JobResult list" where
  "sample_results = [result_of ''A'' 10, result_of ''B'' 5, result_of ''B'' 7]"

definition sample_uuids :: "nat \<Rightarrow> string" where
  "sample_uuids i = CHR ''v'' # Itoa i"

lemma sample_run:
  "(case run_phase sample_db sample_uuids (Inr ([], [])) sample_results meta_submission of
      ((s, splits), e) \<Rightarrow> (sb_Score s, map (\<lambda>t. (sb_TargetName t, sb_Score t)) splits, e)) =
   (22, [(''A'', 10), (''B'', 12)], None)"
  by code_simp

lemma sample_run_ok:
  obtains s splits where "run_phase sample_db sample_uuids (Inr ([], [])) sample_results meta_submission = ((s, splits), None)"
    "map (\<lambda>t. (sb_TargetName t, sb_Score t)) splits = [(''A'', 10), (''B'', 12)]"
  using sample_run by (cases "run_phase sample_db sample_uuids (Inr ([], [])) sample_results meta_submission") auto

lemma meta_submission_fresh: "sb_Score meta_submission = 0" "sb_ID meta_submission = sb_OrigSubmissionID meta_submission"
  "sb_OrigSubmissionID meta_submission = ''u''"
  by (simp_all add: meta_submission_def the_submission_def sample_world_def Let_def split: option.split prod.split)

lemma sample_not_aborted: "r \<in> set sample_results \<Longrightarrow> t_Result (jr_Test r) \<noteq> TEST_RESULT_ABORT"
  by (auto simp: sample_results_def result_of_def)

lemma submission_score_witness:
  "\<exists>s splits. run_phase sample_db sample_uuids (Inr ([], [])) sample_results meta_submission = ((s, splits), None) \<and> sb_Score s = 22"
proof -
  obtain s splits where r: "run_phase sample_db sample_uuids (Inr ([], [])) sample_results meta_submission = ((s, splits), None)"
    by (rule sample_run_ok)
  from submission_score [OF r meta_submission_fresh(1)] sample_not_aborted
  have "sb_Score s = sum_list (map (\<lambda>r. t_PointsEarned (jr_Test r)) sample_results)" by (auto split: if_splits)
  also have "\<dots> = 22" by (simp add: sample_results_def result_of_def)
  finally show ?thesis using r by (intro exI conjI)
qed

lemma split_scores_add_up_witness:
  "\<exists>s splits. run_phase sample_db sample_uuids (Inr ([], [])) sample_results meta_submission = ((s, splits), None) \<and>
     length splits = 2 \<and> sum_list (map sb_Score splits) = sb_Score s"
proof -
  obtain s splits where r: "run_phase sample_db sample_uuids (Inr ([], [])) sample_results meta_submission = ((s, splits), None)"
    and sp: "map (\<lambda>t. (sb_TargetName t, sb_Score t)) splits = [(''A'', 10), (''B'', 12)]"
    by (rule sample_run_ok)
  from arg_cong [OF sp, of "map fst"] have names: "map sb_TargetName splits = [''A'', ''B'']" by (simp add: comp_def)
  from arg_cong [OF sp, of length] have len: "length splits = 2" by simp
  have "set (map sb_TargetName splits) = {''A'', ''B''}" by (simp add: names del: set_map)
  then have targets: "\<forall>r\<in>set sample_results. t_PointsEarned (jr_Test r) \<noteq> 0 \<longrightarrow> t_TargetName (jr_Test r) \<in> sb_TargetName ` set splits"
    by (simp add: sample_results_def result_of_def)
  have "distinct (map sb_TargetName splits)" by (simp add: names)
  from split_scores_add_up [OF r meta_submission_fresh(1) _ this targets] sample_not_aborted
  have "sum_list (map sb_Score splits) = sb_Score s" by blast
  with r len show ?thesis by (intro exI conjI)
qed

lemma submission_ends_witness:
  "\<exists>s splits err pend. Submission_Run (Some sample_db) sample_uuids 9 (Inr ([], [])) sample_results meta_submission
       [(''a'', True), (''z'', True)] = (s, splits, err, pend) \<and> gm_get pend ''a'' = None \<and> gm_get pend ''z'' = Some True"
proof -
  obtain s splits err pend where r: "Submission_Run (Some sample_db) sample_uuids 9 (Inr ([], [])) sample_results meta_submission
       [(''a'', True), (''z'', True)] = (s, splits, err, pend)"
    by (cases "Submission_Run (Some sample_db) sample_uuids 9 (Inr ([], [])) sample_results meta_submission [(''a'', True), (''z'', True)]")
  have "sb_OrigSubmissionID meta_submission \<notin> range sample_uuids"
    by (auto simp: meta_submission_fresh sample_uuids_def)
  from submission_ends [OF r meta_submission_fresh(2) this]
  have "gm_get pend e = (if e \<in> stu_Email ` set (sb_students meta_submission) then None else gm_get [(''a'', True), (''z'', True)] e)" for e
    by blast
  moreover have "stu_Email ` set (sb_students meta_submission) = {''a''}"
    by (simp add: meta_submission_def blank_student_def)
  ultimately have "gm_get pend ''a'' = None" "gm_get pend ''z'' = Some True" by simp_all
  with r show ?thesis by (intro exI conjI)
qed

end
