(* ===== verification/Runners.thy ===== *)
theory Runners
  imports SubmissionRun
begin

text \<open>
  The test runners (\<open>runners.go\<close>). A test of a group is known by its key. The goroutines of a
  dependency runner are a step relation: each test waits for its dependencies in
  \<open>waitForDeps\<close>, and the main loop moves tests that are ready to the manager and tells everyone
  about results. The manager answers every job (see \<open>manager_liveness\<close>), with any result of a run.
\<close>

datatype TestRunner = SimpleRunner TestGroup | DependencyRunner TestGroup

definition NewSimpleRunner :: "TestGroup \<Rightarrow> TestRunner" where
  "NewSimpleRunner tg = SimpleRunner tg"

definition NewDependencyRunner :: "TestGroup \<Rightarrow> TestRunner" where
  "NewDependencyRunner tg = DependencyRunner tg"

fun Runner_Group :: "TestRunner \<Rightarrow> TestGroup" where
  "Runner_Group (SimpleRunner tg) = tg"
| "Runner_Group (DependencyRunner tg) = tg"

definition TestRunnerFromConfig :: "Files \<Rightarrow> (string list \<Rightarrow> string list) \<Rightarrow> GroupConfig \<Rightarrow> (string list + TestRunner) option" where
  "TestRunnerFromConfig fs arr config =
     map_option (map_sum id (\<lambda>tg. if gc_UseDeps config then NewDependencyRunner tg else NewSimpleRunner tg))
       (GroupFromConfig fs arr config)"

section \<open>The simple runner\<close>

text \<open>
  Every job is submitted at once; a result is received in any order and passed on. The channel of
  the client holds as many results as there are tests, and a full channel would drop one.
\<close>

definition send_callback :: "nat \<Rightarrow> string \<Rightarrow> string list \<Rightarrow> string list" where
  "send_callback n k callback = (if length callback < n then callback @ [k] else callback)"

record simple_run =
  sr_pending :: "string list"
  sr_callback :: "string list"

definition simple_start :: "TestGroup \<Rightarrow> simple_run" where
  "simple_start tg = \<lparr>sr_pending = gm_keys (tg_Tests tg), sr_callback = []\<rparr>"

inductive simple_step :: "TestGroup \<Rightarrow> simple_run \<Rightarrow> simple_run \<Rightarrow> bool" for tg where
  simple_result: "k \<in> set (sr_pending s) \<Longrightarrow>
    simple_step tg s \<lparr>sr_pending = remove1 k (sr_pending s),
                      sr_callback = send_callback (length (tg_Tests tg)) k (sr_callback s)\<rparr>"

section \<open>The dependency runner\<close>

text \<open>
  \<open>Holding ds inbox\<close>: the dependencies still missing and the unread messages of the channel.
  \<open>Ready\<close> and \<open>Aborting\<close> tests are blocked on their channel to the main loop, \<open>Sent\<close> ones are with
  the manager, \<open>Delivered\<close> ones have been broadcast and passed to the client. Tests up to
  \<open>Aborting\<close> have their channel in the map \<open>waiting\<close>.
\<close>

datatype phase = Holding "string list" "string list" | Ready | Aborting | Sent | Delivered

record dep_run =
  dr_phase :: "string \<Rightarrow> phase"
  dr_result :: "string \<Rightarrow> TestResult"
  dr_callback :: "string list"

definition deps_of :: "TestGroup \<Rightarrow> string \<Rightarrow> string list" where
  "deps_of tg k = (case gm_get (tg_Tests tg) k of Some t \<Rightarrow> t_ExpandedDeps t | None \<Rightarrow> [])"

definition dep_start :: "TestGroup \<Rightarrow> dep_run" where
  "dep_start tg =
     \<lparr>dr_phase = (\<lambda>k. Holding (deps_of tg k) []),
      dr_result = (\<lambda>k. case gm_get (tg_Tests tg) k of Some t \<Rightarrow> t_Result t | None \<Rightarrow> TEST_RESULT_NONE),
      dr_callback = []\<rparr>"

text \<open>One message in \<open>waitForDeps\<close> of the test \<open>k\<close>.\<close>

definition waitForDeps :: "string \<Rightarrow> string list \<Rightarrow> string \<Rightarrow> string list \<Rightarrow> dep_run \<Rightarrow> dep_run" where
  "waitForDeps k ds res inbox s =
     (if res \<in> set ds then
        (if dr_result s res = TEST_RESULT_CORRECT
         then s\<lparr>dr_phase := (dr_phase s)(k := Holding (removeAll res ds) inbox)\<rparr>
         else s\<lparr>dr_result := (dr_result s)(k := TEST_RESULT_SKIP), dr_phase := (dr_phase s)(k := Aborting)\<rparr>)
      else s\<lparr>dr_phase := (dr_phase s)(k := Holding ds inbox)\<rparr>)"

text \<open>A broadcast to every waiting test; a full channel would drop the message.\<close>

definition bcast :: "TestGroup \<Rightarrow> string \<Rightarrow> (string \<Rightarrow> phase) \<Rightarrow> string \<Rightarrow> phase" where
  "bcast tg test ph k =
     (case ph k of
        Holding ds inbox \<Rightarrow> if length inbox < length (tg_Tests tg) then Holding ds (inbox @ [test]) else ph k
      | _ \<Rightarrow> ph k)"

definition deliver :: "TestGroup \<Rightarrow> string \<Rightarrow> dep_run \<Rightarrow> dep_run" where
  "deliver tg k s =
     s\<lparr>dr_phase := bcast tg k ((dr_phase s)(k := Delivered)),
       dr_callback := send_callback (length (tg_Tests tg)) k (dr_callback s)\<rparr>"

inductive dep_step :: "TestGroup \<Rightarrow> dep_run \<Rightarrow> dep_run \<Rightarrow> bool" for tg where
  dep_message: "gm_has (tg_Tests tg) k \<Longrightarrow> dr_phase s k = Holding ds (res # inbox) \<Longrightarrow> ds \<noteq> [] \<Longrightarrow>
    dep_step tg s (waitForDeps k ds res inbox s)"
| dep_clear: "gm_has (tg_Tests tg) k \<Longrightarrow> dr_phase s k = Holding [] inbox \<Longrightarrow>
    dep_step tg s (s\<lparr>dr_phase := (dr_phase s)(k := Ready)\<rparr>)"
| dep_ready: "gm_has (tg_Tests tg) k \<Longrightarrow> dr_phase s k = Ready \<Longrightarrow>
    dep_step tg s (s\<lparr>dr_phase := (dr_phase s)(k := Sent)\<rparr>)"
| dep_result: "gm_has (tg_Tests tg) k \<Longrightarrow> dr_phase s k = Sent \<Longrightarrow> r \<noteq> TEST_RESULT_SKIP \<Longrightarrow>
    dep_step tg s (deliver tg k (s\<lparr>dr_result := (dr_result s)(k := r)\<rparr>))"
| dep_abort: "gm_has (tg_Tests tg) k \<Longrightarrow> dr_phase s k = Aborting \<Longrightarrow>
    dep_step tg s (deliver tg k s)"

section \<open>The invariant\<close>

abbreviation delivered :: "dep_run \<Rightarrow> string \<Rightarrow> bool" where
  "delivered s k \<equiv> dr_phase s k = Delivered"

text \<open>The dependencies of a test that may run: delivered, with a correct result.\<close>

definition met :: "TestGroup \<Rightarrow> dep_run \<Rightarrow> string \<Rightarrow> bool" where
  "met tg s k \<longleftrightarrow> (\<forall>d\<in>set (deps_of tg k). delivered s d \<and> dr_result s d = TEST_RESULT_CORRECT)"

definition failed :: "TestGroup \<Rightarrow> dep_run \<Rightarrow> string \<Rightarrow> bool" where
  "failed tg s k \<longleftrightarrow> dr_result s k = TEST_RESULT_SKIP \<and>
     (\<exists>d\<in>set (deps_of tg k). delivered s d \<and> dr_result s d \<noteq> TEST_RESULT_CORRECT)"

text \<open>
  A waiting test misses some of its dependencies; those it does not miss were correct, and a
  missing one that was delivered is still in its channel. No channel is ever full.
\<close>

definition phase_ok :: "TestGroup \<Rightarrow> dep_run \<Rightarrow> string \<Rightarrow> bool" where
  "phase_ok tg s k \<longleftrightarrow>
     (case dr_phase s k of
        Holding ds inbox \<Rightarrow>
          set ds \<subseteq> set (deps_of tg k) \<and> length inbox \<le> length (dr_callback s) \<and>
          (\<forall>m\<in>set inbox. delivered s m) \<and> (\<forall>d\<in>set ds. delivered s d \<longrightarrow> d \<in> set inbox) \<and>
          (\<forall>d\<in>set (deps_of tg k) - set ds. delivered s d \<and> dr_result s d = TEST_RESULT_CORRECT)
      | Ready \<Rightarrow> met tg s k
      | Sent \<Rightarrow> met tg s k
      | Aborting \<Rightarrow> failed tg s k
      | Delivered \<Rightarrow> if dr_result s k = TEST_RESULT_SKIP then failed tg s k else met tg s k)"

definition dep_inv :: "TestGroup \<Rightarrow> dep_run \<Rightarrow> bool" where
  "dep_inv tg s \<longleftrightarrow>
     (\<forall>k. gm_has (tg_Tests tg) k \<longrightarrow> phase_ok tg s k) \<and>
     (\<forall>k. delivered s k \<longrightarrow> gm_has (tg_Tests tg) k) \<and>
     distinct (dr_callback s) \<and> set (dr_callback s) = {k. delivered s k}"

text \<open>What a step of the test \<open>k\<close> that delivers nothing keeps of the other tests.\<close>

lemma phase_ok_other:
  assumes ok: "phase_ok tg s j" and j: "dr_phase s' j = dr_phase s j" "dr_result s' j = dr_result s j"
    and del: "\<And>d. delivered s' d \<longleftrightarrow> delivered s d" "\<And>d. delivered s d \<Longrightarrow> dr_result s' d = dr_result s d"
    and cb: "dr_callback s' = dr_callback s"
  shows "phase_ok tg s' j"
proof -
  have eq: "(delivered s' d \<and> P (dr_result s' d)) \<longleftrightarrow> (delivered s d \<and> P (dr_result s d))" for d P
    using del by auto
  have "met tg s' j = met tg s j" by (simp only: met_def eq [of _ "\<lambda>r. r = TEST_RESULT_CORRECT"])
  moreover have "failed tg s' j = failed tg s j"
    by (simp only: failed_def j eq [of _ "\<lambda>r. r \<noteq> TEST_RESULT_CORRECT"])
  ultimately show ?thesis
    using ok eq [of _ "\<lambda>r. r = TEST_RESULT_CORRECT"] by (simp only: phase_ok_def j cb del(1))
qed

lemma dep_inv_local:
  assumes inv: "dep_inv tg s" and k: "\<not> delivered s k" "gm_has (tg_Tests tg) k"
    and s': "\<And>j. j \<noteq> k \<Longrightarrow> dr_phase s' j = dr_phase s j" "\<And>j. j \<noteq> k \<Longrightarrow> dr_result s' j = dr_result s j"
      "dr_phase s' k \<noteq> Delivered" "dr_callback s' = dr_callback s"
    and ok: "phase_ok tg s' k"
  shows "dep_inv tg s'"
proof -
  have del: "delivered s' d \<longleftrightarrow> delivered s d" for d using k(1) s'(1,3) by (cases "d = k") auto
  have res: "delivered s d \<Longrightarrow> dr_result s' d = dr_result s d" for d using k(1) s'(2) by (cases "d = k") auto
  have "phase_ok tg s' j" if "gm_has (tg_Tests tg) j" for j
  proof (cases "j = k")
    case True
    with ok show ?thesis by simp
  next
    case False
    have "phase_ok tg s j" using inv that by (simp add: dep_inv_def)
    from phase_ok_other [OF this s'(1,2) [OF False] del res s'(4)] show ?thesis .
  qed
  moreover have "{j. delivered s' j} = {j. delivered s j}" using del by simp
  ultimately show ?thesis using inv del s'(4) by (simp add: dep_inv_def)
qed

lemma dep_inv_message:
  assumes inv: "dep_inv tg s" and k: "gm_has (tg_Tests tg) k" "dr_phase s k = Holding ds (res # inbox)"
  shows "dep_inv tg (waitForDeps k ds res inbox s)"
proof (rule dep_inv_local [OF inv _ k(1)])
  have ok: "phase_ok tg s k" using inv k(1) by (simp add: dep_inv_def)
  from ok k(2) have hold: "set ds \<subseteq> set (deps_of tg k)" "Suc (length inbox) \<le> length (dr_callback s)"
    "delivered s res" "\<forall>m\<in>set inbox. delivered s m"
    "\<forall>d\<in>set ds. delivered s d \<longrightarrow> d = res \<or> d \<in> set inbox"
    "\<forall>d\<in>set (deps_of tg k) - set ds. delivered s d \<and> dr_result s d = TEST_RESULT_CORRECT"
    by (simp_all add: phase_ok_def)
  show nk: "\<not> delivered s k" using k(2) by simp
  from nk hold(3) have ne: "res \<noteq> k" by auto
  consider (correct) "res \<in> set ds" "dr_result s res = TEST_RESULT_CORRECT"
    | (skip) "res \<in> set ds" "dr_result s res \<noteq> TEST_RESULT_CORRECT"
    | (other) "res \<notin> set ds" by blast
  then show "phase_ok tg (waitForDeps k ds res inbox s) k"
  proof cases
    case correct
    then have s': "waitForDeps k ds res inbox s = s\<lparr>dr_phase := (dr_phase s)(k := Holding (removeAll res ds) inbox)\<rparr>"
      by (simp add: waitForDeps_def)
    show ?thesis unfolding s' using hold correct nk ne by (auto simp: phase_ok_def)
  next
    case skip
    then have s': "waitForDeps k ds res inbox s =
        s\<lparr>dr_result := (dr_result s)(k := TEST_RESULT_SKIP), dr_phase := (dr_phase s)(k := Aborting)\<rparr>"
      by (simp add: waitForDeps_def)
    have "res \<in> set (deps_of tg k)" using skip(1) hold(1) by auto
    then show ?thesis unfolding s' using skip(2) hold(3) ne by (auto simp: phase_ok_def failed_def)
  next
    case other
    then have s': "waitForDeps k ds res inbox s = s\<lparr>dr_phase := (dr_phase s)(k := Holding ds inbox)\<rparr>"
      by (simp add: waitForDeps_def)
    show ?thesis unfolding s' using hold other nk by (auto simp: phase_ok_def)
  qed
qed (simp_all add: waitForDeps_def k)

lemma dep_inv_clear:
  assumes "dep_inv tg s" "gm_has (tg_Tests tg) k" "dr_phase s k = Holding [] inbox"
  shows "dep_inv tg (s\<lparr>dr_phase := (dr_phase s)(k := Ready)\<rparr>)"
proof (rule dep_inv_local [OF assms(1) _ assms(2)])
  have "phase_ok tg s k" using assms(1,2) by (simp add: dep_inv_def)
  then show "phase_ok tg (s\<lparr>dr_phase := (dr_phase s)(k := Ready)\<rparr>) k"
    using assms(3) by (auto simp: phase_ok_def met_def)
qed (simp_all add: assms)

lemma dep_inv_ready:
  assumes "dep_inv tg s" "gm_has (tg_Tests tg) k" "dr_phase s k = Ready"
  shows "dep_inv tg (s\<lparr>dr_phase := (dr_phase s)(k := Sent)\<rparr>)"
proof (rule dep_inv_local [OF assms(1) _ assms(2)])
  have "phase_ok tg s k" using assms(1,2) by (simp add: dep_inv_def)
  then show "phase_ok tg (s\<lparr>dr_phase := (dr_phase s)(k := Sent)\<rparr>) k"
    using assms(3) by (auto simp: phase_ok_def met_def)
qed (simp_all add: assms)

text \<open>A result is delivered: everyone who still waits is told, and the client's channel has room.\<close>

lemma callback_room:
  assumes inv: "dep_inv tg s" and k: "gm_has (tg_Tests tg) k" "\<not> delivered s k"
  shows "length (dr_callback s) < length (tg_Tests tg)"
proof -
  have "distinct (k # dr_callback s)" and "set (k # dr_callback s) \<subseteq> set (gm_keys (tg_Tests tg))"
    using inv k by (auto simp: dep_inv_def gm_has_iff)
  then have "length (k # dr_callback s) \<le> card (set (gm_keys (tg_Tests tg)))"
    by (metis card_mono distinct_card List.finite_set)
  also have "\<dots> \<le> length (tg_Tests tg)" using card_length [of "gm_keys (tg_Tests tg)"] by simp
  finally show ?thesis by simp
qed

lemma dep_inv_deliver:
  assumes inv: "dep_inv tg s" and k: "gm_has (tg_Tests tg) k" "\<not> delivered s k"
    and r: "if r = TEST_RESULT_SKIP
            then \<exists>d\<in>set (deps_of tg k). delivered s d \<and> dr_result s d \<noteq> TEST_RESULT_CORRECT
            else met tg s k"
  shows "dep_inv tg (deliver tg k (s\<lparr>dr_result := (dr_result s)(k := r)\<rparr>))" (is "dep_inv tg ?s'")
proof -
  have room: "length (dr_callback s) < length (tg_Tests tg)" by (rule callback_room [OF inv k])
  then have cb: "dr_callback ?s' = dr_callback s @ [k]" by (simp add: deliver_def send_callback_def)
  have ph: "dr_phase ?s' j = bcast tg k ((dr_phase s)(k := Delivered)) j" for j by (simp add: deliver_def)
  have del: "delivered ?s' d \<longleftrightarrow> d = k \<or> delivered s d" for d
    by (auto simp: ph bcast_def split: phase.splits)
  have res: "dr_result ?s' d = (if d = k then r else dr_result s d)" for d by (simp add: deliver_def)
  have met': "met tg ?s' j" if "met tg s j" for j
    using that k(2) by (auto simp: met_def del res)
  have fail': "\<exists>d\<in>set (deps_of tg j). delivered ?s' d \<and> dr_result ?s' d \<noteq> TEST_RESULT_CORRECT"
    if "\<exists>d\<in>set (deps_of tg j). delivered s d \<and> dr_result s d \<noteq> TEST_RESULT_CORRECT" for j
    using that k(2) by (auto simp: del res)
  have "phase_ok tg ?s' j" if j: "gm_has (tg_Tests tg) j" for j
  proof (cases "j = k")
    case True
    have "dr_phase ?s' k = Delivered" by (simp add: ph bcast_def)
    moreover have "dr_result ?s' k = r" by (simp add: res)
    ultimately show ?thesis using True r met' [of k] fail' [of k]
      by (cases "r = TEST_RESULT_SKIP") (simp_all add: phase_ok_def failed_def)
  next
    case False
    have ok: "phase_ok tg s j" using inv j by (simp add: dep_inv_def)
    have rj: "dr_result ?s' j = dr_result s j" using False by (simp add: res)
    show ?thesis
    proof (cases "dr_phase s j")
      case (Holding ds inbox)
      with ok room have "length inbox < length (tg_Tests tg)" by (simp add: phase_ok_def)
      with Holding False have "dr_phase ?s' j = Holding ds (inbox @ [k])" by (simp add: ph bcast_def)
      then show ?thesis using ok Holding k(2) by (auto simp: phase_ok_def del res cb)
    next
      case Delivered
      with False have "dr_phase ?s' j = Delivered" by (simp add: ph bcast_def)
      with ok Delivered met' [of j] fail' [of j] show ?thesis
        by (cases "dr_result s j = TEST_RESULT_SKIP") (simp_all add: phase_ok_def failed_def rj)
    qed (use ok False met' [of j] fail' [of j] rj in \<open>simp_all add: phase_ok_def failed_def ph bcast_def\<close>)
  qed
  then show ?thesis using inv k del by (auto simp: dep_inv_def cb)
qed

definition dep_init :: "TestGroup \<Rightarrow> dep_run \<Rightarrow> bool" where
  "dep_init tg s \<longleftrightarrow> s = dep_start tg"

lemma dep_inv_start: "dep_inv tg (dep_start tg)"
  by (simp add: dep_inv_def dep_start_def phase_ok_def)

interpretation drun: step_system "dep_init tg" "dep_step tg" "dep_inv tg" for tg
proof
  fix s show "dep_init tg s \<Longrightarrow> dep_inv tg s" by (simp add: dep_init_def dep_inv_start)
next
  fix s t assume "dep_step tg s t" and inv: "dep_inv tg s"
  then show "dep_inv tg t"
  proof cases
    case (dep_message k ds res inbox)
    then show ?thesis using dep_inv_message [OF inv] by simp
  next
    case (dep_clear k inbox)
    then show ?thesis using dep_inv_clear [OF inv] by simp
  next
    case (dep_ready k)
    then show ?thesis using dep_inv_ready [OF inv] by simp
  next
    case (dep_result k r)
    have "phase_ok tg s k" using inv dep_result(2) by (simp add: dep_inv_def)
    then have "met tg s k" using dep_result(3) by (simp add: phase_ok_def)
    then show ?thesis unfolding dep_result(1)
      using dep_inv_deliver [OF inv dep_result(2), of r] dep_result(3,4) by simp
  next
    case (dep_abort k)
    have "phase_ok tg s k" using inv dep_abort(2) by (simp add: dep_inv_def)
    then have "failed tg s k" using dep_abort(3) by (simp add: phase_ok_def)
    moreover have "s\<lparr>dr_result := (dr_result s)(k := dr_result s k)\<rparr> = s" by simp
    ultimately show ?thesis unfolding dep_abort(1)
      using dep_inv_deliver [OF inv dep_abort(2), of "dr_result s k"] dep_abort(3)
      by (simp only: failed_def) simp
  qed
qed

section \<open>The runs end\<close>

text \<open>
  Every step delivers a test, or moves one test nearer to its end, or reads a message: no run of
  the goroutines is infinite.
\<close>

fun phase_weight :: "phase \<Rightarrow> nat" where
  "phase_weight (Holding ds inbox) = 3"
| "phase_weight Ready = 2"
| "phase_weight Aborting = 2"
| "phase_weight Sent = 1"
| "phase_weight Delivered = 0"

fun unread :: "phase \<Rightarrow> nat" where
  "unread (Holding ds inbox) = length inbox"
| "unread _ = 0"

definition waiting_tests :: "TestGroup \<Rightarrow> dep_run \<Rightarrow> string set" where
  "waiting_tests tg s = {k \<in> set (gm_keys (tg_Tests tg)). \<not> delivered s k}"

definition dep_measure :: "TestGroup \<Rightarrow> dep_run \<Rightarrow> nat \<times> nat \<times> nat" where
  "dep_measure tg s =
     (card (waiting_tests tg s),
      \<Sum>k\<in>set (gm_keys (tg_Tests tg)). phase_weight (dr_phase s k),
      \<Sum>k\<in>set (gm_keys (tg_Tests tg)). unread (dr_phase s k))"

abbreviation dep_order :: "((nat \<times> nat \<times> nat) \<times> nat \<times> nat \<times> nat) set" where
  "dep_order \<equiv> less_than <*lex*> less_than <*lex*> less_than"

lemma sum_one_less:
  fixes f g :: "'k \<Rightarrow> nat"
  assumes "finite A" "k \<in> A" "g k < f k" "\<And>j. j \<noteq> k \<Longrightarrow> g j = f j"
  shows "sum g A < sum f A"
proof (rule sum_strict_mono_ex1)
  show "\<forall>x\<in>A. g x \<le> f x" using assms(3,4) by (metis less_imp_le order_refl)
qed (use assms in auto)

lemma dep_measure_local:
  assumes k: "gm_has (tg_Tests tg) k" and other: "\<And>j. j \<noteq> k \<Longrightarrow> dr_phase s' j = dr_phase s j"
    and nd: "\<not> delivered s k" "\<not> delivered s' k"
    and less: "phase_weight (dr_phase s' k) < phase_weight (dr_phase s k) \<or>
      phase_weight (dr_phase s' k) = phase_weight (dr_phase s k) \<and> unread (dr_phase s' k) < unread (dr_phase s k)"
  shows "(dep_measure tg s', dep_measure tg s) \<in> dep_order"
proof -
  have K: "k \<in> set (gm_keys (tg_Tests tg))" using k by (simp add: gm_has_iff)
  have "delivered s' j \<longleftrightarrow> delivered s j" for j using other nd by (cases "j = k") auto
  then have w: "waiting_tests tg s' = waiting_tests tg s" by (simp add: waiting_tests_def)
  from less show ?thesis
  proof
    assume "phase_weight (dr_phase s' k) < phase_weight (dr_phase s k)"
    from sum_one_less [where f = "\<lambda>k. phase_weight (dr_phase s k)" and g = "\<lambda>k. phase_weight (dr_phase s' k)",
        OF _ K this] show ?thesis
      using other by (simp add: dep_measure_def w del: set_map)
  next
    assume l: "phase_weight (dr_phase s' k) = phase_weight (dr_phase s k) \<and> unread (dr_phase s' k) < unread (dr_phase s k)"
    then have "phase_weight (dr_phase s' j) = phase_weight (dr_phase s j)" for j using other by (cases "j = k") auto
    moreover from l have "unread (dr_phase s' k) < unread (dr_phase s k)" by simp
    from sum_one_less [where f = "\<lambda>k. unread (dr_phase s k)" and g = "\<lambda>k. unread (dr_phase s' k)",
        OF _ K this] have "(\<Sum>k\<in>set (gm_keys (tg_Tests tg)). unread (dr_phase s' k))
        < (\<Sum>k\<in>set (gm_keys (tg_Tests tg)). unread (dr_phase s k))"
      using other by simp
    ultimately show ?thesis by (simp add: dep_measure_def w del: set_map)
  qed
qed

lemma dep_measure_deliver:
  assumes "gm_has (tg_Tests tg) k" "\<not> delivered s k"
  shows "(dep_measure tg (deliver tg k s), dep_measure tg s) \<in> dep_order"
proof -
  have "delivered (deliver tg k s) d \<longleftrightarrow> d = k \<or> delivered s d" for d
    by (auto simp: deliver_def bcast_def split: phase.splits)
  then have "waiting_tests tg (deliver tg k s) = waiting_tests tg s - {k}" "k \<in> waiting_tests tg s"
    using assms by (auto simp: waiting_tests_def gm_has_iff)
  moreover have "finite (waiting_tests tg s)" by (simp add: waiting_tests_def)
  ultimately have "card (waiting_tests tg (deliver tg k s)) < card (waiting_tests tg s)"
    by (metis card_Diff1_less)
  then show ?thesis by (simp add: dep_measure_def)
qed

lemma dep_step_measure:
  assumes "dep_step tg s t"
  shows "(dep_measure tg t, dep_measure tg s) \<in> dep_order"
  using assms
proof cases
  case (dep_message k ds res inbox)
  show ?thesis unfolding dep_message(1)
    by (rule dep_measure_local [OF dep_message(2)]) (use dep_message(3) in \<open>auto simp: waitForDeps_def\<close>)
next
  case (dep_clear k inbox)
  show ?thesis unfolding dep_clear(1)
    by (rule dep_measure_local [OF dep_clear(2)]) (use dep_clear(3) in auto)
next
  case (dep_ready k)
  show ?thesis unfolding dep_ready(1)
    by (rule dep_measure_local [OF dep_ready(2)]) (use dep_ready(3) in auto)
next
  case (dep_result k r)
  have "dep_measure tg (s\<lparr>dr_result := (dr_result s)(k := r)\<rparr>) = dep_measure tg s"
    by (simp add: dep_measure_def waiting_tests_def)
  with dep_measure_deliver [OF dep_result(2), of "s\<lparr>dr_result := (dr_result s)(k := r)\<rparr>"] dep_result
  show ?thesis by simp
next
  case (dep_abort k)
  with dep_measure_deliver [OF dep_abort(2), of s] show ?thesis by simp
qed

lemma dep_step_wf: "wf {(t, s). dep_step tg s t}"
proof (rule wf_subset)
  show "wf (inv_image dep_order (dep_measure tg))" by (intro wf_inv_image wf_lex_prod wf_less_than)
qed (auto simp: dep_step_measure)

text \<open>
  A state without a step: a test all of whose dependencies are delivered is not stuck, so along the
  order of the dependencies every test is delivered.
\<close>

lemma dep_stuck_delivered:
  assumes inv: "dep_inv tg s" and stuck: "\<nexists>t. dep_step tg s t" and k: "gm_has (tg_Tests tg) k"
    and deps: "\<forall>d\<in>set (deps_of tg k). delivered s d"
  shows "delivered s k"
proof (cases "dr_phase s k")
  case (Holding ds inbox)
  have ok: "set ds \<subseteq> set (deps_of tg k)" "\<forall>d\<in>set ds. delivered s d \<longrightarrow> d \<in> set inbox"
    using inv [unfolded dep_inv_def, THEN conjunct1, rule_format, OF k] Holding by (simp_all add: phase_ok_def)
  have False
  proof (cases ds)
    case Nil
    with Holding dep_clear [OF k] stuck show ?thesis by blast
  next
    case (Cons d ds')
    with ok deps have "d \<in> set inbox" by auto
    then obtain m ms where "inbox = m # ms" by (cases inbox) auto
    with Holding Cons have "dr_phase s k = Holding ds (m # ms)" "ds \<noteq> []" by simp_all
    from dep_message [OF k this] stuck show ?thesis by blast
  qed
  then show ?thesis ..
next
  case Ready
  with dep_ready [OF k] stuck show ?thesis by blast
next
  case Sent
  with dep_result [OF k Sent, of TEST_RESULT_CORRECT] stuck show ?thesis by blast
next
  case Aborting
  with dep_abort [OF k] stuck show ?thesis by blast
qed

lemma dep_final:
  assumes inv: "dep_inv tg s" and stuck: "\<nexists>t. dep_step tg s t"
    and rk: "\<And>k d. gm_has (tg_Tests tg) k \<Longrightarrow> d \<in> set (deps_of tg k) \<Longrightarrow> gm_has (tg_Tests tg) d \<and> rk d < (rk k :: nat)"
    and k: "gm_has (tg_Tests tg) k"
  shows "delivered s k"
  using k
proof (induction "rk k" arbitrary: k rule: less_induct)
  case less
  show ?case
  proof (rule dep_stuck_delivered [OF inv stuck less.prems], rule ballI)
    fix d assume "d \<in> set (deps_of tg k)"
    from rk [OF less.prems this] show "delivered s d" by (intro less.hyps) simp_all
  qed
qed

text \<open>
  C8. In every state of a run of the dependency runner, whatever the goroutines' interleaving and the
  tests' results: a test is with the manager or has run only if all its dependencies were delivered
  with a correct result, a test is skipped only if one was not, and each test is passed to the
  client at most once, never more than the client's channel holds.
\<close>

theorem runner_respects_dependencies:
  assumes "reachable (dep_init tg) (dep_step tg) s" and "gm_get (tg_Tests tg) k = Some t"
  shows "(dr_phase s k = Sent \<or> (k \<in> set (dr_callback s) \<and> dr_result s k \<noteq> TEST_RESULT_SKIP) \<longrightarrow>
      (\<forall>d\<in>set (t_ExpandedDeps t). d \<in> set (dr_callback s) \<and> dr_result s d = TEST_RESULT_CORRECT))
    \<and> (k \<in> set (dr_callback s) \<and> dr_result s k = TEST_RESULT_SKIP \<longrightarrow>
      (\<exists>d\<in>set (t_ExpandedDeps t). d \<in> set (dr_callback s) \<and> dr_result s d \<noteq> TEST_RESULT_CORRECT))
    \<and> distinct (dr_callback s) \<and> length (dr_callback s) \<le> length (tg_Tests tg)"
proof (intro conjI)
  from drun.reachable_inv [OF assms(1)] have inv: "dep_inv tg s" .
  have deps: "deps_of tg k = t_ExpandedDeps t" and has: "gm_has (tg_Tests tg) k"
    using assms(2) by (simp_all add: deps_of_def gm_has_def)
  from inv has have ok: "phase_ok tg s k" and cb: "d \<in> set (dr_callback s) \<longleftrightarrow> delivered s d" for d
    by (simp_all add: dep_inv_def)
  show "dr_phase s k = Sent \<or> (k \<in> set (dr_callback s) \<and> dr_result s k \<noteq> TEST_RESULT_SKIP) \<longrightarrow>
      (\<forall>d\<in>set (t_ExpandedDeps t). d \<in> set (dr_callback s) \<and> dr_result s d = TEST_RESULT_CORRECT)"
    using ok unfolding cb deps [symmetric] by (auto simp: phase_ok_def met_def)
  show "k \<in> set (dr_callback s) \<and> dr_result s k = TEST_RESULT_SKIP \<longrightarrow>
      (\<exists>d\<in>set (t_ExpandedDeps t). d \<in> set (dr_callback s) \<and> dr_result s d \<noteq> TEST_RESULT_CORRECT)"
    using ok unfolding cb deps [symmetric] by (auto simp: phase_ok_def failed_def)
  show d: "distinct (dr_callback s)" using inv by (simp add: dep_inv_def)
  have "set (dr_callback s) \<subseteq> set (gm_keys (tg_Tests tg))" using inv by (auto simp: dep_inv_def gm_has_iff)
  then have "card (set (dr_callback s)) \<le> card (set (gm_keys (tg_Tests tg)))" by (intro card_mono) simp_all
  with d card_length [of "gm_keys (tg_Tests tg)"] show "length (dr_callback s) \<le> length (tg_Tests tg)"
    by (simp add: distinct_card)
qed

text \<open>The runner holds the group of the configuration, a dependency runner only with \<open>UseDeps\<close>.\<close>

lemma dependency_runner_group:
  assumes "TestRunnerFromConfig fs arr config = Some (Inr (DependencyRunner tg))"
  shows "GroupFromConfig fs arr config = Some (Inr tg) \<and> gc_UseDeps config"
proof -
  obtain r where r: "GroupFromConfig fs arr config = Some r"
    and f: "map_sum id (\<lambda>tg. if gc_UseDeps config then NewDependencyRunner tg else NewSimpleRunner tg) r =
      Inr (DependencyRunner tg)"
    using assms unfolding TestRunnerFromConfig_def map_option_eq_Some by blast
  with r show ?thesis
    by (cases r) (auto simp: NewDependencyRunner_def NewSimpleRunner_def split: if_splits)
qed

text \<open>
  C10. A dependency runner made from a configuration ends: no interleaving runs forever, and when
  nothing can move any more every test of the group was passed to the client exactly once. A test
  was skipped if and only if one of its dependencies did not end with a correct result.
\<close>

theorem runner_ends:
  assumes "TestRunnerFromConfig fs arr config = Some (Inr (DependencyRunner tg))"
    and "\<And>xs. set (arr xs) = set xs"
  shows "wf {(t, s). dep_step tg s t} \<and>
    (reachable (dep_init tg) (dep_step tg) s \<and> (\<nexists>t. dep_step tg s t) \<longrightarrow>
      mset (dr_callback s) = mset (gm_keys (tg_Tests tg)) \<and>
      (\<forall>k t. gm_get (tg_Tests tg) k = Some t \<longrightarrow>
        (dr_result s k = TEST_RESULT_SKIP \<longleftrightarrow> (\<exists>d\<in>set (t_ExpandedDeps t). dr_result s d \<noteq> TEST_RESULT_CORRECT))))"
proof (rule conjI)
  show "wf {(t, s). dep_step tg s t}" by (rule dep_step_wf)
  from assms(1) have g: "GroupFromConfig fs arr config = Some (Inr tg)" "gc_UseDeps config"
    using dependency_runner_group by blast+
  obtain rk :: "string \<Rightarrow> nat" where "\<And>k t d. gm_get (tg_Tests tg) k = Some t \<Longrightarrow>
      d \<in> set (t_ExpandedDeps t) \<Longrightarrow> gm_has (tg_Tests tg) d \<and> rk d < rk k"
    by (rule GroupFromConfig_ranked [OF g assms(2)]) auto
  then have rk: "gm_has (tg_Tests tg) k \<Longrightarrow> d \<in> set (deps_of tg k) \<Longrightarrow> gm_has (tg_Tests tg) d \<and> rk d < rk k" for k d
    by (auto simp: deps_of_def gm_has_def)
  show "reachable (dep_init tg) (dep_step tg) s \<and> (\<nexists>t. dep_step tg s t) \<longrightarrow>
      mset (dr_callback s) = mset (gm_keys (tg_Tests tg)) \<and>
      (\<forall>k t. gm_get (tg_Tests tg) k = Some t \<longrightarrow>
        (dr_result s k = TEST_RESULT_SKIP \<longleftrightarrow> (\<exists>d\<in>set (t_ExpandedDeps t). dr_result s d \<noteq> TEST_RESULT_CORRECT)))"
  proof (rule impI, elim conjE)
    assume r: "reachable (dep_init tg) (dep_step tg) s" and stuck: "\<nexists>t. dep_step tg s t"
    from drun.reachable_inv [OF r] have inv: "dep_inv tg s" .
    have all: "delivered s k" if "gm_has (tg_Tests tg) k" for k by (rule dep_final [OF inv stuck rk that])
    have "set (dr_callback s) = set (gm_keys (tg_Tests tg))"
      using inv all unfolding dep_inv_def gm_has_iff set_map by blast
    moreover have "distinct (gm_keys (tg_Tests tg))"
      using GroupFromConfig_gm_ok [OF g assms(2)] by (simp add: gm_ok_def)
    moreover have "distinct (dr_callback s)" using inv by (simp add: dep_inv_def)
    ultimately have "mset (dr_callback s) = mset (gm_keys (tg_Tests tg))"
      by (simp only: set_eq_iff_mset_eq_distinct)
    moreover have "dr_result s k = TEST_RESULT_SKIP \<longleftrightarrow> (\<exists>d\<in>set (t_ExpandedDeps t). dr_result s d \<noteq> TEST_RESULT_CORRECT)"
      if t: "gm_get (tg_Tests tg) k = Some t" for k t
    proof -
      have has: "gm_has (tg_Tests tg) k" using t by (simp add: gm_has_def)
      then have "phase_ok tg s k" using inv by (simp add: dep_inv_def)
      moreover have "deps_of tg k = t_ExpandedDeps t" using t by (simp add: deps_of_def)
      ultimately show ?thesis using all [OF has] by (auto simp: phase_ok_def met_def failed_def split: if_splits)
    qed
    ultimately show "mset (dr_callback s) = mset (gm_keys (tg_Tests tg)) \<and>
      (\<forall>k t. gm_get (tg_Tests tg) k = Some t \<longrightarrow>
        (dr_result s k = TEST_RESULT_SKIP \<longleftrightarrow> (\<exists>d\<in>set (t_ExpandedDeps t). dr_result s d \<noteq> TEST_RESULT_CORRECT)))"
      by blast
  qed
qed

section \<open>The simple runner delivers everything\<close>

definition simple_init :: "TestGroup \<Rightarrow> simple_run \<Rightarrow> bool" where
  "simple_init tg s \<longleftrightarrow> s = simple_start tg"

definition simple_inv :: "TestGroup \<Rightarrow> simple_run \<Rightarrow> bool" where
  "simple_inv tg s \<longleftrightarrow> mset (sr_pending s) + mset (sr_callback s) = mset (gm_keys (tg_Tests tg))"

interpretation srun: step_system "simple_init tg" "simple_step tg" "simple_inv tg" for tg
proof
  fix s show "simple_init tg s \<Longrightarrow> simple_inv tg s"
    by (simp add: simple_init_def simple_inv_def simple_start_def)
next
  fix s t assume "simple_step tg s t" and inv: "simple_inv tg s"
  then show "simple_inv tg t"
  proof cases
    case (simple_result k)
    have k: "k \<in># mset (sr_pending s)" using simple_result(2) by simp
    have "size (mset (sr_pending s) + mset (sr_callback s)) = length (tg_Tests tg)"
      using inv by (simp add: simple_inv_def)
    then have "length (sr_pending s) + length (sr_callback s) = length (tg_Tests tg)" by simp
    moreover have "0 < length (sr_pending s)" using simple_result(2) by (cases "sr_pending s") auto
    ultimately have "length (sr_callback s) < length (tg_Tests tg)" by linarith
    then have t: "t = \<lparr>sr_pending = remove1 k (sr_pending s), sr_callback = sr_callback s @ [k]\<rparr>"
      using simple_result(1) by (simp add: send_callback_def)
    have "mset (sr_pending t) + mset (sr_callback t) = add_mset k (mset (remove1 k (sr_pending s))) + mset (sr_callback s)"
      by (simp only: t simple_run.simps) simp
    also have "add_mset k (mset (remove1 k (sr_pending s))) = mset (sr_pending s)"
      unfolding mset_remove1 by (rule insert_DiffM [OF k])
    finally show ?thesis using inv by (simp only: simple_inv_def)
  qed
qed

text \<open>
  The simple runner passes on every result: its goroutine ends after one step for each test,
  and then the client's channel holds every test of the group exactly once, in the order in which
  the manager answered; none is dropped by the non-blocking send.
\<close>

theorem simple_runner_delivers:
  assumes "reachable (simple_init tg) (simple_step tg) s"
  shows "wf {(t, s). simple_step tg s t} \<and>
    length (sr_pending s) + length (sr_callback s) = length (tg_Tests tg) \<and>
    ((\<exists>t. simple_step tg s t) \<longleftrightarrow> length (sr_callback s) < length (tg_Tests tg)) \<and>
    (sr_pending s = [] \<longrightarrow> mset (sr_callback s) = mset (gm_keys (tg_Tests tg)))"
proof (intro conjI)
  from srun.reachable_inv [OF assms] have inv: "simple_inv tg s" .
  then have "size (mset (sr_pending s) + mset (sr_callback s)) = length (tg_Tests tg)"
    by (simp add: simple_inv_def)
  then show len: "length (sr_pending s) + length (sr_callback s) = length (tg_Tests tg)" by simp
  have "(\<exists>t. simple_step tg s t) \<longleftrightarrow> sr_pending s \<noteq> []"
    using simple_result [of "hd (sr_pending s)" s tg] by (auto elim: simple_step.cases)
  with len show "(\<exists>t. simple_step tg s t) \<longleftrightarrow> length (sr_callback s) < length (tg_Tests tg)"
    by (cases "sr_pending s") auto
  show "sr_pending s = [] \<longrightarrow> mset (sr_callback s) = mset (gm_keys (tg_Tests tg))"
    using inv by (auto simp: simple_inv_def)
  show "wf {(t, s). simple_step tg s t}"
  proof (rule wf_subset)
    show "wf (measure (\<lambda>s. length (sr_pending s)))" by simp
    show "{(t, s). simple_step tg s t} \<subseteq> measure (\<lambda>s. length (sr_pending s))"
      by (auto elim!: simple_step.cases simp: length_remove1 intro!: diff_less length_pos_if_in_set)
  qed
qed

section \<open>Concrete runs\<close>

text \<open>Two tests, the second needs the first, and the first fails.\<close>

definition pair_group :: TestGroup where
  "pair_group = EmptyGroup\<lparr>tg_Tests :=
     [(''a'', (blank_test [])\<lparr>t_DependencyID := ''a''\<rparr>),
      (''b'', (blank_test [])\<lparr>t_DependencyID := ''b'', t_ExpandedDeps := [''a'']\<rparr>)]\<rparr>"

lemma pair_simps [simp]:
  "gm_has (tg_Tests pair_group) ''a''" "gm_has (tg_Tests pair_group) ''b''" "length (tg_Tests pair_group) = 2"
  "deps_of pair_group ''a'' = []" "deps_of pair_group ''b'' = [''a'']"
  "gm_get (tg_Tests pair_group) ''b'' = Some ((blank_test [])\<lparr>t_DependencyID := ''b'', t_ExpandedDeps := [''a'']\<rparr>)"
  by (simp_all add: pair_group_def gm_has_def deps_of_def blank_test_def)

lemma pair_run:
  obtains s where "reachable (dep_init pair_group) (dep_step pair_group) s"
    "dr_callback s = [''a'', ''b'']" "dr_result s ''b'' = TEST_RESULT_SKIP"
    "dr_phase s ''b'' = Delivered" "dr_phase s ''a'' = Delivered"
proof -
  let ?R = "reachable (dep_init pair_group) (dep_step pair_group)" and ?a = "''a''" and ?b = "''b''"
  define s0 where "s0 = dep_start pair_group"
  have "?R s0" by (rule reach_init) (simp add: dep_init_def s0_def)
  define s1 where "s1 = s0\<lparr>dr_phase := (dr_phase s0)(?a := Ready)\<rparr>"
  have "?R s1" unfolding s1_def
    by (rule reach_step [OF \<open>?R s0\<close>], rule dep_clear [where inbox = "[]"]) (simp_all add: s0_def dep_start_def)
  define s2 where "s2 = s1\<lparr>dr_phase := (dr_phase s1)(?a := Sent)\<rparr>"
  have "?R s2" unfolding s2_def
    by (rule reach_step [OF \<open>?R s1\<close>], rule dep_ready) (simp_all add: s1_def)
  define s3 where "s3 = deliver pair_group ?a (s2\<lparr>dr_result := (dr_result s2)(?a := TEST_RESULT_INCORRECT)\<rparr>)"
  have "?R s3" unfolding s3_def
    by (rule reach_step [OF \<open>?R s2\<close>], rule dep_result) (simp_all add: s2_def)
  have s3: "dr_phase s3 ?b = Holding [?a] [?a]" "dr_phase s3 ?a = Delivered"
      "dr_result s3 ?a = TEST_RESULT_INCORRECT" "dr_callback s3 = [?a]"
    by (simp_all add: s3_def s2_def s1_def s0_def deliver_def bcast_def dep_start_def send_callback_def)
  define s4 where "s4 = waitForDeps ?b [?a] ?a [] s3"
  have "?R s4" unfolding s4_def
    by (rule reach_step [OF \<open>?R s3\<close>], rule dep_message) (simp_all add: s3)
  have s4: "dr_phase s4 ?b = Aborting" "dr_phase s4 ?a = Delivered" "dr_result s4 ?b = TEST_RESULT_SKIP"
      "dr_callback s4 = [?a]"
    by (simp_all add: s4_def waitForDeps_def s3)
  have "?R (deliver pair_group ?b s4)"
    by (rule reach_step [OF \<open>?R s4\<close>], rule dep_abort) (simp_all add: s4)
  then show thesis
    by (rule that) (simp_all add: deliver_def bcast_def send_callback_def s4)
qed

lemma runner_respects_dependencies_witness:
  "\<exists>s. reachable (dep_init pair_group) (dep_step pair_group) s \<and> dr_callback s = [''a'', ''b''] \<and>
     dr_result s ''b'' = TEST_RESULT_SKIP \<and> dr_result s ''a'' \<noteq> TEST_RESULT_CORRECT"
proof -
  obtain s where s: "reachable (dep_init pair_group) (dep_step pair_group) s" "dr_callback s = [''a'', ''b'']"
    "dr_result s ''b'' = TEST_RESULT_SKIP" by (rule pair_run)
  from runner_respects_dependencies [OF s(1) pair_simps(6)] s(2,3) have "dr_result s ''a'' \<noteq> TEST_RESULT_CORRECT"
    by simp
  with s show ?thesis by (intro exI [of _ s] conjI)
qed

lemma runner_ends_witness:
  "\<exists>tg. TestRunnerFromConfig sample_files rev sample_config = Some (Inr (DependencyRunner tg)) \<and>
     wf {(t, s). dep_step tg s t}"
proof -
  obtain tg where tg: "GroupFromConfig sample_files rev sample_config = Some (Inr tg)" by (rule sample_group_ok)
  have "TestRunnerFromConfig sample_files rev sample_config = Some (Inr (DependencyRunner tg))"
    unfolding TestRunnerFromConfig_def tg by (simp add: sample_config_def NewDependencyRunner_def)
  from conjI [OF this conjunct1 [OF runner_ends [OF this set_rev]]] show ?thesis by (rule exI)
qed

lemma simple_runner_delivers_witness:
  "\<exists>s. reachable (simple_init pair_group) (simple_step pair_group) s \<and> sr_callback s = [''b''] \<and>
     (\<exists>t. simple_step pair_group s t)"
proof -
  have "simple_step pair_group (simple_start pair_group) \<lparr>sr_pending = [''a''], sr_callback = [''b'']\<rparr>"
    using simple_result [of "''b''" "simple_start pair_group" pair_group]
    by (simp add: simple_start_def pair_group_def send_callback_def)
  moreover have "reachable (simple_init pair_group) (simple_step pair_group) (simple_start pair_group)"
    by (rule reach_init) (simp add: simple_init_def)
  ultimately have r: "reachable (simple_init pair_group) (simple_step pair_group) \<lparr>sr_pending = [''a''], sr_callback = [''b'']\<rparr>"
    by (rule reach_step [rotated])
  from simple_runner_delivers [OF r]
  have "\<exists>t. simple_step pair_group \<lparr>sr_pending = [''a''], sr_callback = [''b'']\<rparr> t" by simp
  with r show ?thesis
    by (intro exI [of _ "\<lparr>sr_pending = [''a''], sr_callback = [''b'']\<rparr>"]) simp
qed

end
