(* ===== verification/Environment.thy ===== *)
theory Environment
  imports Targets Templates Students
begin

text \<open>
  The environment (\<open>environment.go\<close>, \<open>tags.go\<close>): loading commands, targets and tag descriptions
  from the directories of a test161 installation, and linking metatargets with their subtargets.

  The three loaders run in goroutines of their own, but each writes only its own map, so their
  interleaving is not seen; the order in which they report is the argument \<open>arr\<close>. A loader that
  fails gives only its error: the program drops the environment then.
\<close>

text \<open>
  The world of a loader: the parsers of the YAML library, the file system, the MD5 digest.
  \<open>ew_ReadDir\<close> lists the names in a directory with the flag \<open>IsRegular\<close>.
\<close>

record EnvWorld =
  ew_ReadDir :: "string \<Rightarrow> string + (string \<times> bool) list"
  ew_ReadFile :: "string \<Rightarrow> string + string"
  ew_Stat :: "string \<Rightarrow> string + string"
  ew_md5 :: "string \<Rightarrow> string"
  ew_commands :: "string \<Rightarrow> string + CommandTemplate list"
  ew_target :: "string \<Rightarrow> Target \<Rightarrow> string + Target"
  ew_tags :: "string \<Rightarrow> string + TagDescription list"

section \<open>Tag descriptions\<close>

definition TagDescriptionsFromString :: "(string \<Rightarrow> string + TagDescription list) \<Rightarrow> string \<Rightarrow> string + TagDescription list" where
  "TagDescriptionsFromString parse data = bind_ok (parse data) Inr"

definition TagDescriptionsFromFile :: "(string \<Rightarrow> string + TagDescription list) \<Rightarrow> (string \<Rightarrow> string + string) \<Rightarrow>
    string \<Rightarrow> string + TagDescription list" where
  "TagDescriptionsFromFile parse read file =
     (case read file of
        Inl err \<Rightarrow> Inl (''Error reading tags file '' @ file @ '': '' @ err)
      | Inr data \<Rightarrow>
          (case TagDescriptionsFromString parse data of
             Inl err \<Rightarrow> Inl (''Error loading tags file '' @ file @ '': '' @ err)
           | Inr tags \<Rightarrow> Inr tags))"

section \<open>The handlers of the files\<close>

definition envCommandHandler :: "EnvWorld \<Rightarrow> string \<Rightarrow> TestEnvironment \<Rightarrow> string + TestEnvironment" where
  "envCommandHandler w f env =
     bind_ok (CommandTemplatesFromFile (ew_commands w) (ew_ReadFile w) f) (\<lambda>templates.
     bind_ok (load_named ct_Name (\<lambda>t. ''Duplicate command ('' @ ct_Name t @ '') in file '' @ f) templates (env_Commands env))
       (\<lambda>m. Inr (env\<lparr>env_Commands := m\<rparr>)))"

definition target_file :: "EnvWorld \<Rightarrow> string \<Rightarrow> string + Target" where
  "target_file w f = TargetFromFile (ew_Stat w) (ew_ReadFile w) (ew_md5 w) (ew_target w) f"

definition track_target :: "Target \<Rightarrow> (string, Target) gomap \<Rightarrow> (string, Target) gomap" where
  "track_target t targets =
     (if tgt_Active t = ''true''
         \<and> (case gm_get targets (tgt_Name t) of None \<Rightarrow> True | Some prev \<Rightarrow> tgt_Version prev < tgt_Version t)
      then gm_put (tgt_Name t) t targets else targets)"

definition envTargetHandler :: "EnvWorld \<Rightarrow> PersistenceManager option \<Rightarrow> string \<Rightarrow> TestEnvironment \<Rightarrow> string + TestEnvironment" where
  "envTargetHandler w pm f env =
     bind_ok (target_file w f) (\<lambda>t.
       let env' = env\<lparr>env_Targets := track_target t (env_Targets env)\<rparr>
       in case pm of
            None \<Rightarrow> Inr env'
          | Some p \<Rightarrow> (case pm_Notify p (PTarget t) MSG_TARGET_LOAD 0 of Some err \<Rightarrow> Inl err | None \<Rightarrow> Inr env'))"

definition envTagDescHandler :: "EnvWorld \<Rightarrow> string \<Rightarrow> TestEnvironment \<Rightarrow> string + TestEnvironment" where
  "envTagDescHandler w f env =
     bind_ok (TagDescriptionsFromFile (ew_tags w) (ew_ReadFile w) f) (\<lambda>tags.
     bind_ok (load_named tag_Name (\<lambda>t. ''Duplicate tag ('' @ tag_Name t @ '') in file '' @ f) tags (env_Tags env))
       (\<lambda>m. Inr (env\<lparr>env_Tags := m\<rparr>)))"

text \<open>The files a loader handles, in the order of the directory.\<close>

definition files_with :: "string \<Rightarrow> string \<Rightarrow> (string \<times> bool) list \<Rightarrow> string list" where
  "files_with searchDir ext dir =
     map (\<lambda>(name, _). path_Join [searchDir, name]) (filter (\<lambda>(name, regular). regular \<and> HasSuffix name ext) dir)"

definition envReadLoop :: "EnvWorld \<Rightarrow> string \<Rightarrow> string \<Rightarrow> (string \<Rightarrow> TestEnvironment \<Rightarrow> string + TestEnvironment) \<Rightarrow>
    TestEnvironment \<Rightarrow> string + TestEnvironment" where
  "envReadLoop w searchDir ext handler env =
     bind_ok (ew_ReadDir w searchDir) (\<lambda>dir. fold_ok handler (files_with searchDir ext dir) env)"

section \<open>Linking\<close>

definition link_sub :: "string \<Rightarrow> TestEnvironment \<Rightarrow> string + TestEnvironment" where
  "link_sub k env =
     (case gm_get (env_Targets env) k of
        None \<Rightarrow> Inr env
      | Some target \<Rightarrow>
          if tgt_MetaName target \<noteq> []
          then bind_ok (initAsSubTarget target env) (\<lambda>t. Inr (env\<lparr>env_Targets := gm_put k t (env_Targets env)\<rparr>))
          else Inr env)"

definition link_meta :: "string \<Rightarrow> TestEnvironment \<Rightarrow> string + TestEnvironment" where
  "link_meta k env =
     (case gm_get (env_Targets env) k of
        None \<Rightarrow> Inr env
      | Some target \<Rightarrow>
          if tgt_IsMetaTarget target
          then bind_ok (initAsMetaTarget target env) (\<lambda>t. Inr (env\<lparr>env_Targets := gm_put k t (env_Targets env)\<rparr>))
          else Inr env)"

definition linkMetaTargets :: "TestEnvironment \<Rightarrow> string + TestEnvironment" where
  "linkMetaTargets env =
     bind_ok (fold_ok link_sub (gm_keys (env_Targets env)) env) (\<lambda>env'.
       fold_ok link_meta (gm_keys (env_Targets env')) env')"

section \<open>A new environment\<close>

definition fresh_environment :: "PersistenceManager option \<Rightarrow> string \<Rightarrow> TestEnvironment" where
  "fresh_environment pm test161Dir =
     \<lparr>env_TestDir = path_Join [test161Dir, ''tests''], env_Commands = [], env_Targets = [], env_Tags = [],
      env_CacheDir = [], env_OverlayRoot = [], env_KeyDir = [], env_HasPersistence = (pm \<noteq> None),
      env_keyMap = [], env_RootDir = []\<rparr>"

text \<open>The first error in the order of the reports.\<close>

fun first_Inl :: "('e + 'a) list \<Rightarrow> 'e option" where
  "first_Inl [] = None"
| "first_Inl (r # rs) = (case r of Inl e \<Rightarrow> Some e | Inr _ \<Rightarrow> first_Inl rs)"

definition NewEnvironment :: "EnvWorld \<Rightarrow> ((string + TestEnvironment) list \<Rightarrow> (string + TestEnvironment) list) \<Rightarrow>
    string \<Rightarrow> PersistenceManager option \<Rightarrow> string + TestEnvironment" where
  "NewEnvironment w arr test161Dir pm =
     (let env = fresh_environment pm test161Dir;
          tagDir = path_Join [test161Dir, ''tags''];
          targets = envReadLoop w (path_Join [test161Dir, ''targets'']) ''.tt'' (envTargetHandler w pm) env;
          cmds = envReadLoop w (path_Join [test161Dir, ''commands'']) ''.tc'' (envCommandHandler w) env;
          tags = (case ew_Stat w tagDir of
                    Inl _ \<Rightarrow> Inr env
                  | Inr _ \<Rightarrow> envReadLoop w tagDir ''.td'' (envTagDescHandler w) env)
      in case first_Inl (arr [targets, cmds, tags]) of
           Some err \<Rightarrow> Inl err
         | None \<Rightarrow>
             linkMetaTargets
               (env\<lparr>env_Targets := (case targets of Inr e \<Rightarrow> env_Targets e | Inl _ \<Rightarrow> []),
                    env_Commands := (case cmds of Inr e \<Rightarrow> env_Commands e | Inl _ \<Rightarrow> []),
                    env_Tags := (case tags of Inr e \<Rightarrow> env_Tags e | Inl _ \<Rightarrow> [])\<rparr>))"

record TargetListItem =
  tli_Name :: string
  tli_Version :: uint
  tli_PrintName :: string
  tli_Description :: string
  tli_Active :: string
  tli_Type :: string
  tli_Points :: uint
  tli_FileName :: string
  tli_FileHash :: string
  tli_CollabMsg :: string

text \<open>\<open>msgs\<close> is the table of collaboration messages.\<close>

definition TargetList :: "(string, string) gomap \<Rightarrow> TestEnvironment \<Rightarrow> TargetListItem list" where
  "TargetList msgs env =
     map (\<lambda>(_, t). \<lparr>tli_Name = tgt_Name t, tli_Version = tgt_Version t, tli_PrintName = tgt_PrintName t,
        tli_Description = tgt_Description t, tli_Active = tgt_Active t, tli_Type = tgt_Type t,
        tli_Points = tgt_Points t, tli_FileName = tgt_FileName t, tli_FileHash = tgt_FileHash t,
        tli_CollabMsg = (case gm_get msgs (tgt_Name t) of Some m \<Rightarrow> m | None \<Rightarrow> [])\<rparr>)
       (env_Targets env)"

text \<open>The line \<open>notifyAndLogErr\<close> logs, if any.\<close>

definition notifyAndLogErr :: "PersistenceManager option \<Rightarrow> string \<Rightarrow> persist_entity \<Rightarrow> notify_msg \<Rightarrow> nat \<Rightarrow> string option" where
  "notifyAndLogErr pm desc entity msg what =
     (case pm of
        None \<Rightarrow> None
      | Some p \<Rightarrow> map_option (\<lambda>err. ''('' @ desc @ '') Error writing data: '' @ err) (pm_Notify p entity msg what))"

section \<open>What the loaders give\<close>

text \<open>The newest active target of every name among the files.\<close>

definition active_in :: "EnvWorld \<Rightarrow> string list \<Rightarrow> string \<Rightarrow> Target \<Rightarrow> bool" where
  "active_in w files name t \<longleftrightarrow>
     (\<exists>f\<in>set files. target_file w f = Inr t) \<and> tgt_Active t = ''true'' \<and> tgt_Name t = name"

definition newest :: "EnvWorld \<Rightarrow> string list \<Rightarrow> (string, Target) gomap \<Rightarrow> bool" where
  "newest w files targets \<longleftrightarrow>
     (\<forall>name. case gm_get targets name of
        None \<Rightarrow> \<forall>u. \<not> active_in w files name u
      | Some t \<Rightarrow> active_in w files name t \<and> (\<forall>u. active_in w files name u \<longrightarrow> tgt_Version u \<le> tgt_Version t))"

lemma active_in_snoc:
  "target_file w f = Inr t \<Longrightarrow>
   active_in w (files @ [f]) name u \<longleftrightarrow>
   active_in w files name u \<or> (u = t \<and> tgt_Active t = ''true'' \<and> tgt_Name t = name)"
  by (auto simp: active_in_def)

lemma newest_snoc:
  assumes "newest w files targets" and t: "target_file w f = Inr t"
  shows "newest w (files @ [f]) (track_target t targets)"
  unfolding newest_def
proof
  fix name
  let ?P = "tgt_Active t = ''true'' \<and> tgt_Name t = name"
  have old: "case gm_get targets name of
        None \<Rightarrow> \<forall>u. \<not> active_in w files name u
      | Some t \<Rightarrow> active_in w files name t \<and> (\<forall>u. active_in w files name u \<longrightarrow> tgt_Version u \<le> tgt_Version t)"
    using assms(1) by (simp add: newest_def)
  show "case gm_get (track_target t targets) name of
        None \<Rightarrow> \<forall>u. \<not> active_in w (files @ [f]) name u
      | Some t \<Rightarrow> active_in w (files @ [f]) name t \<and>
          (\<forall>u. active_in w (files @ [f]) name u \<longrightarrow> tgt_Version u \<le> tgt_Version t)"
  proof (cases ?P)
    case False
    then have "gm_get (track_target t targets) name = gm_get targets name" by (auto simp: track_target_def)
    moreover have "active_in w (files @ [f]) name = active_in w files name"
      by (rule ext) (use False in \<open>auto simp: active_in_snoc [OF t]\<close>)
    ultimately show ?thesis using old by (simp cong: option.case_cong)
  next
    case True
    show ?thesis
    proof (cases "gm_get targets name")
      case None
      with True have "gm_get (track_target t targets) name = Some t" by (auto simp: track_target_def)
      with old None True show ?thesis unfolding active_in_snoc [OF t] by simp
    next
      case (Some prev)
      then have "gm_get (track_target t targets) name = Some (if tgt_Version prev < tgt_Version t then t else prev)"
        using True by (auto simp: track_target_def)
      with old Some True show ?thesis unfolding active_in_snoc [OF t]
        by (auto split: if_splits intro: order_trans less_imp_le)
    qed
  qed
qed

lemma target_handler_ok:
  "envTargetHandler w pm f env = Inr env' \<Longrightarrow>
   \<exists>t. target_file w f = Inr t \<and> env' = env\<lparr>env_Targets := track_target t (env_Targets env)\<rparr>"
  by (auto simp: envTargetHandler_def bind_ok_eq_Inr Let_def split: option.splits)

lemma target_loop:
  "fold_ok (envTargetHandler w pm) fs env = Inr env' \<Longrightarrow> newest w files (env_Targets env) \<Longrightarrow>
   newest w (files @ fs) (env_Targets env') \<and> (\<forall>f\<in>set fs. \<exists>t. target_file w f = Inr t)"
proof (induction fs arbitrary: env files)
  case Nil
  then show ?case by simp
next
  case (Cons f fs)
  then obtain env1 where env1: "envTargetHandler w pm f env = Inr env1"
    and rest: "fold_ok (envTargetHandler w pm) fs env1 = Inr env'" by (auto simp: bind_ok_eq_Inr)
  from target_handler_ok [OF env1] obtain t where t: "target_file w f = Inr t"
    and T: "env_Targets env1 = track_target t (env_Targets env)" by auto
  from Cons.IH [OF rest, of "files @ [f]"] newest_snoc [OF Cons.prems(2) t] t show ?case by (simp add: T)
qed

lemma gm_ok_track [simp]: "gm_ok m \<Longrightarrow> gm_ok (track_target t m)"
  by (simp add: track_target_def)

lemma target_loop_ok: "fold_ok (envTargetHandler w pm) fs env = Inr env' \<Longrightarrow> gm_ok (env_Targets env) \<Longrightarrow> gm_ok (env_Targets env')"
  by (erule fold_ok_invariant [where P = "\<lambda>e. gm_ok (env_Targets e)"]) (auto dest!: target_handler_ok)

section \<open>What linking gives\<close>

text \<open>Linking changes two fields of a target and looks at the others only.\<close>

definition unlinked :: "Target \<Rightarrow> Target" where
  "unlinked t = t\<lparr>tgt_metaTarget := None, tgt_previousSubTargets := []\<rparr>"

definition same_core :: "(string, Target) gomap \<Rightarrow> (string, Target) gomap \<Rightarrow> bool" where
  "same_core m m' \<longleftrightarrow> (\<forall>k. map_option unlinked (gm_get m k) = map_option unlinked (gm_get m' k))"

lemma same_core_refl [simp]: "same_core m m"
  by (simp add: same_core_def)

lemma same_core_trans: "same_core a b \<Longrightarrow> same_core b c \<Longrightarrow> same_core a c"
  by (simp add: same_core_def)

lemma same_core_sym: "same_core a b \<Longrightarrow> same_core b a"
  by (simp add: same_core_def)

lemma same_core_has: "same_core a b \<Longrightarrow> gm_has a k = gm_has b k"
  unfolding gm_has_def by (drule same_core_def [THEN iffD1, THEN spec, of _ _ k]) (metis option.map_disc_iff)

lemma same_core_get: "same_core a b \<Longrightarrow> gm_get a k = Some t \<Longrightarrow> \<exists>u. gm_get b k = Some u \<and> unlinked u = unlinked t"
  by (drule spec [of _ k, OF same_core_def [THEN iffD1]]) (auto simp: map_option_eq_Some dest: sym)

lemma unlinked_fields:
  assumes "unlinked u = unlinked t"
  shows "tgt_Name u = tgt_Name t" "tgt_MetaName u = tgt_MetaName t" "tgt_SubTargetNames u = tgt_SubTargetNames t"
    "tgt_Points u = tgt_Points t" "tgt_RequiresUserland u = tgt_RequiresUserland t" "tgt_KConfig u = tgt_KConfig t"
    "tgt_Type u = tgt_Type t" "tgt_IsMetaTarget u = tgt_IsMetaTarget t" "tgt_Tests u = tgt_Tests t"
    "tgt_Version u = tgt_Version t" "tgt_Active u = tgt_Active t"
  using assms by (cases u; cases t; simp add: unlinked_def)+

text \<open>What a linked subtarget and a linked metatarget say.\<close>

definition sub_linked :: "(string, Target) gomap \<Rightarrow> string \<Rightarrow> bool" where
  "sub_linked m k \<longleftrightarrow>
     (\<forall>t. gm_get m k = Some t \<longrightarrow> tgt_MetaName t \<noteq> [] \<longrightarrow>
        tgt_metaTarget t = Some (tgt_MetaName t) \<and>
        (\<exists>meta later. gm_get m (tgt_MetaName t) = Some meta \<and>
           tgt_SubTargetNames meta = tgt_previousSubTargets t @ tgt_Name t # later) \<and>
        tgt_Name t \<notin> set (tgt_previousSubTargets t) \<and> (\<forall>n\<in>set (tgt_previousSubTargets t). gm_has m n))"

definition points_of :: "(string, Target) gomap \<Rightarrow> string \<Rightarrow> uint" where
  "points_of m n = (case gm_get m n of Some t \<Rightarrow> tgt_Points t | None \<Rightarrow> 0)"

definition fits :: "(string, Target) gomap \<Rightarrow> Target \<Rightarrow> string \<Rightarrow> bool" where
  "fits m t n \<longleftrightarrow> (\<exists>u. gm_get m n = Some u \<and> tgt_RequiresUserland u = tgt_RequiresUserland t \<and>
     tgt_KConfig u = tgt_KConfig t \<and> tgt_Type u = tgt_Type t)"

definition meta_linked :: "(string, Target) gomap \<Rightarrow> string \<Rightarrow> bool" where
  "meta_linked m k \<longleftrightarrow>
     (\<forall>t. gm_get m k = Some t \<longrightarrow> tgt_IsMetaTarget t \<longrightarrow>
        tgt_Tests t = [] \<and> tgt_SubTargetNames t \<noteq> [] \<and> tgt_previousSubTargets t = tgt_SubTargetNames t \<and>
        (\<forall>n\<in>set (tgt_SubTargetNames t). fits m t n) \<and>
        tgt_Points t = sum_list (map (points_of m) (tgt_SubTargetNames t)))"

lemma subtargets_before_ok:
  "subtargets_before m meta this names others = Inr (Some found) \<Longrightarrow>
   \<exists>mid later. found = others @ mid \<and> names = mid @ this # later \<and> this \<notin> set mid \<and> (\<forall>n\<in>set mid. gm_has m n)"
proof (induction names arbitrary: others)
  case Nil
  then show ?case by simp
next
  case (Cons name names)
  show ?case
  proof (cases "name = this")
    case True
    with Cons.prems show ?thesis by (rule_tac exI [of _ "[]"]) auto
  next
    case False
    with Cons.prems have has: "gm_has m name" "subtargets_before m meta this names (others @ [name]) = Inr (Some found)"
      by (auto split: if_splits)
    from Cons.IH [OF has(2)] obtain mid later where "found = (others @ [name]) @ mid" "names = mid @ this # later"
      "this \<notin> set mid" "\<forall>n\<in>set mid. gm_has m n" by blast
    with False has(1) show ?thesis by (rule_tac exI [of _ "name # mid"]) auto
  qed
qed

lemma initAsSubTarget_ok:
  assumes "initAsSubTarget t env = Inr t'" and "tgt_MetaName t \<noteq> []"
  obtains meta others later where "gm_get (env_Targets env) (tgt_MetaName t) = Some meta"
    "t' = t\<lparr>tgt_metaTarget := Some (tgt_MetaName t), tgt_previousSubTargets := others\<rparr>"
    "tgt_SubTargetNames meta = others @ tgt_Name t # later" "tgt_Name t \<notin> set others"
    "\<forall>n\<in>set others. gm_has (env_Targets env) n"
  using assms by (auto simp: initAsSubTarget_def bind_ok_eq_Inr split: option.splits dest!: subtargets_before_ok)

lemma meta_subtarget_ok:
  assumes "meta_subtarget m t n (subs, points) = Inr r"
  shows "fits m t n \<and> r = (subs @ [n], points + points_of m n)"
proof (cases "gm_get m n")
  case (Some u)
  with assms show ?thesis by (simp add: meta_subtarget_def fits_def points_of_def Let_def split: if_splits)
qed (use assms in \<open>simp add: meta_subtarget_def\<close>)

lemma meta_subtarget_loop:
  "fold_ok (meta_subtarget m t) names (subs, points) = Inr (subs', points') \<Longrightarrow>
   subs' = subs @ names \<and> (\<forall>n\<in>set names. fits m t n) \<and> points' = points + sum_list (map (points_of m) names)"
proof (induction names arbitrary: subs points)
  case Nil
  then show ?case by simp
next
  case (Cons n names)
  then obtain r where r: "meta_subtarget m t n (subs, points) = Inr r"
    and rest: "fold_ok (meta_subtarget m t) names r = Inr (subs', points')"
    by (auto simp only: fold_ok.simps bind_ok_eq_Inr)
  note R = meta_subtarget_ok [OF r]
  from Cons.IH [of "subs @ [n]" "points + points_of m n"] rest R show ?case by (simp add: add.assoc)
qed

lemma initAsMetaTarget_ok:
  assumes "initAsMetaTarget t env = Inr t'"
  shows "t' = t\<lparr>tgt_previousSubTargets := tgt_SubTargetNames t\<rparr> \<and> tgt_Tests t = [] \<and> tgt_SubTargetNames t \<noteq> [] \<and>
    (\<forall>n\<in>set (tgt_SubTargetNames t). fits (env_Targets env) t n) \<and>
    tgt_Points t = sum_list (map (points_of (env_Targets env)) (tgt_SubTargetNames t))"
proof -
  from assms obtain subs points where
    loop: "fold_ok (meta_subtarget (env_Targets env) t) (tgt_SubTargetNames t) ([], 0) = Inr (subs, points)"
    and r: "points = tgt_Points t" "t' = t\<lparr>tgt_previousSubTargets := subs\<rparr>" "tgt_Tests t = []" "tgt_SubTargetNames t \<noteq> []"
    by (auto simp: initAsMetaTarget_def bind_ok_eq_Inr split: if_splits)
  from meta_subtarget_loop [OF loop] r show ?thesis by simp
qed

text \<open>The contract of a linking pass: one target at a time, and a linked target stays linked.\<close>

locale linker =
  fixes link :: "string \<Rightarrow> TestEnvironment \<Rightarrow> string + TestEnvironment"
    and touches :: "Target \<Rightarrow> bool"
    and linked :: "(string, Target) gomap \<Rightarrow> string \<Rightarrow> bool"
  assumes link_core: "link k env = Inr env' \<Longrightarrow> same_core (env_Targets env) (env_Targets env')"
    and link_other: "link k env = Inr env' \<Longrightarrow> j \<noteq> k \<Longrightarrow> gm_get (env_Targets env') j = gm_get (env_Targets env) j"
    and link_skips: "link k env = Inr env' \<Longrightarrow> gm_get (env_Targets env) k = Some t \<Longrightarrow> \<not> touches t \<Longrightarrow> env' = env"
    and link_linked: "link k env = Inr env' \<Longrightarrow> linked (env_Targets env') k"
    and linked_cong: "same_core m m' \<Longrightarrow> gm_get m' k = gm_get m k \<Longrightarrow> linked m k \<Longrightarrow> linked m' k"
    and touches_core: "unlinked t = unlinked u \<Longrightarrow> touches t \<longleftrightarrow> touches u"
begin

lemma link_all:
  assumes "fold_ok link ks env = Inr env'"
  shows "same_core (env_Targets env) (env_Targets env') \<and> (\<forall>k\<in>set ks. linked (env_Targets env') k) \<and>
    (\<forall>j. j \<notin> set ks \<longrightarrow> gm_get (env_Targets env') j = gm_get (env_Targets env) j)"
  using assms
proof (induction ks arbitrary: env)
  case Nil
  then show ?case by simp
next
  case (Cons k ks)
  then obtain env1 where l: "link k env = Inr env1" and rest: "fold_ok link ks env1 = Inr env'"
    by (auto simp: bind_ok_eq_Inr)
  note IH = Cons.IH [OF rest]
  have "linked (env_Targets env') k"
  proof (cases "k \<in> set ks")
    case False
    with IH show ?thesis using linked_cong [OF _ _ link_linked [OF l]] by blast
  qed (use IH in blast)
  moreover have "same_core (env_Targets env) (env_Targets env')"
    using same_core_trans [OF link_core [OF l]] IH by blast
  ultimately show ?case using IH link_other [OF l] by auto
qed

lemma link_all_skips:
  assumes "fold_ok link ks env = Inr env'" and "gm_get (env_Targets env) j = Some t" and "\<not> touches t"
  shows "gm_get (env_Targets env') j = Some t"
  using assms
proof (induction ks arbitrary: env)
  case Nil
  then show ?case by simp
next
  case (Cons k ks)
  then obtain env1 where l: "link k env = Inr env1" and rest: "fold_ok link ks env1 = Inr env'"
    by (auto simp: bind_ok_eq_Inr)
  have "gm_get (env_Targets env1) j = Some t"
    using link_skips [OF l] link_other [OF l, of j] Cons.prems(2,3) by (cases "j = k") auto
  from Cons.IH [OF rest this Cons.prems(3)] show ?case .
qed

end

lemma same_core_put: "gm_get m k = Some t \<Longrightarrow> unlinked t' = unlinked t \<Longrightarrow> same_core m (gm_put k t' m)"
  by (simp add: same_core_def)

lemma fits_core:
  assumes "same_core m m'" and "fits m t n"
  shows "fits m' t n"
proof -
  from assms(2) obtain u where u: "gm_get m n = Some u" "tgt_RequiresUserland u = tgt_RequiresUserland t"
    "tgt_KConfig u = tgt_KConfig t" "tgt_Type u = tgt_Type t" by (auto simp: fits_def)
  from same_core_get [OF assms(1) u(1)] obtain u' where u': "gm_get m' n = Some u'" "unlinked u' = unlinked u" by blast
  from unlinked_fields [OF u'(2)] u u'(1) show ?thesis by (simp add: fits_def)
qed

lemma points_of_core:
  assumes "same_core m m'"
  shows "points_of m' = points_of m"
proof
  fix n
  show "points_of m' n = points_of m n"
  proof (cases "gm_get m n")
    case None
    with same_core_has [OF assms, of n] show ?thesis by (simp add: points_of_def gm_has_def)
  next
    case (Some t)
    from same_core_get [OF assms this] Some show ?thesis by (auto simp: points_of_def dest: unlinked_fields)
  qed
qed

lemma sub_linked_core:
  assumes c: "same_core m m'" and k: "gm_get m' k = gm_get m k" and l: "sub_linked m k"
  shows "sub_linked m' k"
  unfolding sub_linked_def
proof (intro allI impI)
  fix t assume "gm_get m' k = Some t" and ne: "tgt_MetaName t \<noteq> []"
  then have "gm_get m k = Some t" by (simp add: k [symmetric])
  from l [unfolded sub_linked_def, rule_format, OF this ne] obtain meta later where t: "tgt_metaTarget t = Some (tgt_MetaName t)" "gm_get m (tgt_MetaName t) = Some meta"
    "tgt_SubTargetNames meta = tgt_previousSubTargets t @ tgt_Name t # later"
    "tgt_Name t \<notin> set (tgt_previousSubTargets t)" "\<forall>n\<in>set (tgt_previousSubTargets t). gm_has m n"
    by blast
  from same_core_get [OF c t(2)] obtain meta' where "gm_get m' (tgt_MetaName t) = Some meta'"
    "tgt_SubTargetNames meta' = tgt_SubTargetNames meta" by (auto dest: unlinked_fields)
  with t same_core_has [OF c] show "tgt_metaTarget t = Some (tgt_MetaName t) \<and>
      (\<exists>meta later. gm_get m' (tgt_MetaName t) = Some meta \<and>
         tgt_SubTargetNames meta = tgt_previousSubTargets t @ tgt_Name t # later) \<and>
      tgt_Name t \<notin> set (tgt_previousSubTargets t) \<and> (\<forall>n\<in>set (tgt_previousSubTargets t). gm_has m' n)" by auto
qed

lemma meta_linked_core:
  assumes c: "same_core m m'" and k: "gm_get m' k = gm_get m k" and l: "meta_linked m k"
  shows "meta_linked m' k"
  using l unfolding meta_linked_def k points_of_core [OF c] by (blast intro: fits_core [OF c])

text \<open>One call for one target.\<close>

lemma link_sub_cases:
  assumes "link_sub k env = Inr env'"
  shows "env' = env \<and> (\<forall>t. gm_get (env_Targets env) k = Some t \<longrightarrow> tgt_MetaName t = []) \<or>
    (\<exists>t t'. gm_get (env_Targets env) k = Some t \<and> tgt_MetaName t \<noteq> [] \<and> initAsSubTarget t env = Inr t' \<and>
      env' = env\<lparr>env_Targets := gm_put k t' (env_Targets env)\<rparr>)"
  using assms by (auto simp: link_sub_def bind_ok_eq_Inr split: option.splits if_splits)

lemma link_meta_cases:
  assumes "link_meta k env = Inr env'"
  shows "env' = env \<and> (\<forall>t. gm_get (env_Targets env) k = Some t \<longrightarrow> \<not> tgt_IsMetaTarget t) \<or>
    (\<exists>t t'. gm_get (env_Targets env) k = Some t \<and> tgt_IsMetaTarget t \<and> initAsMetaTarget t env = Inr t' \<and>
      env' = env\<lparr>env_Targets := gm_put k t' (env_Targets env)\<rparr>)"
  using assms by (auto simp: link_meta_def bind_ok_eq_Inr split: option.splits if_splits)

lemma link_sub_step:
  assumes "link_sub k env = Inr env'"
  shows "same_core (env_Targets env) (env_Targets env') \<and> sub_linked (env_Targets env') k"
  using link_sub_cases [OF assms]
proof (elim disjE exE conjE)
  fix t t' assume t: "gm_get (env_Targets env) k = Some t" "tgt_MetaName t \<noteq> []"
    and init: "initAsSubTarget t env = Inr t'" and env': "env' = env\<lparr>env_Targets := gm_put k t' (env_Targets env)\<rparr>"
  let ?m' = "env_Targets env'"
  from initAsSubTarget_ok [OF init t(2)] obtain meta others later where
    meta: "gm_get (env_Targets env) (tgt_MetaName t) = Some meta"
    and t': "t' = t\<lparr>tgt_metaTarget := Some (tgt_MetaName t), tgt_previousSubTargets := others\<rparr>"
    and names: "tgt_SubTargetNames meta = others @ tgt_Name t # later" "tgt_Name t \<notin> set others"
      "\<forall>n\<in>set others. gm_has (env_Targets env) n" .
  have core: "same_core (env_Targets env) ?m'"
    by (simp add: env' same_core_put [OF t(1)] t' unlinked_def)
  from same_core_get [OF core meta] obtain meta' where meta': "gm_get ?m' (tgt_MetaName t) = Some meta'"
    "tgt_SubTargetNames meta' = others @ tgt_Name t # later" using names(1) by (auto dest: unlinked_fields)
  have get: "gm_get ?m' k = Some t'" by (simp add: env')
  have "\<forall>n\<in>set others. gm_has ?m' n" using names(3) same_core_has [OF core] by simp
  then have "sub_linked ?m' k" unfolding sub_linked_def get using meta' names(2) by (simp add: t')
  with core show ?thesis by simp
qed (auto simp: sub_linked_def)

lemma link_meta_step:
  assumes "link_meta k env = Inr env'"
  shows "same_core (env_Targets env) (env_Targets env') \<and> meta_linked (env_Targets env') k"
  using link_meta_cases [OF assms]
proof (elim disjE exE conjE)
  fix t t' assume t: "gm_get (env_Targets env) k = Some t" "tgt_IsMetaTarget t"
    and init: "initAsMetaTarget t env = Inr t'" and env': "env' = env\<lparr>env_Targets := gm_put k t' (env_Targets env)\<rparr>"
  let ?m' = "env_Targets env'"
  note I = initAsMetaTarget_ok [OF init]
  have core: "same_core (env_Targets env) ?m'"
    using I by (simp add: env' same_core_put [OF t(1)] unlinked_def)
  have get: "gm_get ?m' k = Some t'" by (simp add: env')
  have "fits ?m' t' n" if "fits (env_Targets env) t n" for n
    using fits_core [OF core that] I by (simp add: fits_def)
  then have "meta_linked ?m' k"
    unfolding meta_linked_def get points_of_core [OF core] using I by simp
  with core show ?thesis by simp
qed (auto simp: meta_linked_def)

interpretation subs: linker link_sub "\<lambda>t. tgt_MetaName t \<noteq> []" sub_linked
proof
  fix k env env' assume l: "link_sub k env = Inr env'"
  show "same_core (env_Targets env) (env_Targets env')" "sub_linked (env_Targets env') k"
    using link_sub_step [OF l] by simp_all
  show "j \<noteq> k \<Longrightarrow> gm_get (env_Targets env') j = gm_get (env_Targets env) j" for j
    using link_sub_cases [OF l] by auto
  show "gm_get (env_Targets env) k = Some t \<Longrightarrow> \<not> tgt_MetaName t \<noteq> [] \<Longrightarrow> env' = env" for t
    using link_sub_cases [OF l] by auto
qed (auto intro: sub_linked_core dest: unlinked_fields)

interpretation metas: linker link_meta tgt_IsMetaTarget meta_linked
proof
  fix k env env' assume l: "link_meta k env = Inr env'"
  show "same_core (env_Targets env) (env_Targets env')" "meta_linked (env_Targets env') k"
    using link_meta_step [OF l] by simp_all
  show "j \<noteq> k \<Longrightarrow> gm_get (env_Targets env') j = gm_get (env_Targets env) j" for j
    using link_meta_cases [OF l] by auto
  show "gm_get (env_Targets env) k = Some t \<Longrightarrow> \<not> tgt_IsMetaTarget t \<Longrightarrow> env' = env" for t
    using link_meta_cases [OF l] by auto
qed (auto intro: meta_linked_core dest: unlinked_fields)

section \<open>The loaded environment\<close>

lemma first_Inl_None: "first_Inl rs = None \<longleftrightarrow> (\<forall>r\<in>set rs. \<exists>x. r = Inr x)"
  by (induction rs) (auto split: sum.splits)

lemma NewEnvironment_ok:
  assumes "NewEnvironment w arr test161Dir pm = Inr env" and arr: "\<And>xs. set (arr xs) = set xs"
  obtains dir cdir e1 e2 env0 where
    "ew_ReadDir w (path_Join [test161Dir, ''targets'']) = Inr dir"
    "fold_ok (envTargetHandler w pm) (files_with (path_Join [test161Dir, ''targets'']) ''.tt'' dir)
       (fresh_environment pm test161Dir) = Inr e1"
    "ew_ReadDir w (path_Join [test161Dir, ''commands'']) = Inr cdir"
    "fold_ok (envCommandHandler w) (files_with (path_Join [test161Dir, ''commands'']) ''.tc'' cdir)
       (fresh_environment pm test161Dir) = Inr e2"
    "env_Targets env0 = env_Targets e1" "env_Commands env0 = env_Commands e2" "linkMetaTargets env0 = Inr env"
proof -
  define targets where "targets = envReadLoop w (path_Join [test161Dir, ''targets'']) ''.tt'' (envTargetHandler w pm)
    (fresh_environment pm test161Dir)"
  define cmds where "cmds = envReadLoop w (path_Join [test161Dir, ''commands'']) ''.tc'' (envCommandHandler w)
    (fresh_environment pm test161Dir)"
  from assms(1) obtain tags where none: "first_Inl (arr [targets, cmds, tags]) = None"
    and link: "linkMetaTargets ((fresh_environment pm test161Dir)\<lparr>
        env_Targets := (case targets of Inr e \<Rightarrow> env_Targets e | Inl _ \<Rightarrow> []),
        env_Commands := (case cmds of Inr e \<Rightarrow> env_Commands e | Inl _ \<Rightarrow> []),
        env_Tags := (case tags of Inr e \<Rightarrow> env_Tags e | Inl _ \<Rightarrow> [])\<rparr>) = Inr env"
    unfolding NewEnvironment_def Let_def targets_def [symmetric] cmds_def [symmetric]
    by (auto split: option.splits)
  from none arr obtain e1 e2 where e: "targets = Inr e1" "cmds = Inr e2"
    unfolding first_Inl_None by (metis list.set_intros(1,2))
  from e obtain dir cdir where d: "ew_ReadDir w (path_Join [test161Dir, ''targets'']) = Inr dir"
    "fold_ok (envTargetHandler w pm) (files_with (path_Join [test161Dir, ''targets'']) ''.tt'' dir)
       (fresh_environment pm test161Dir) = Inr e1"
    "ew_ReadDir w (path_Join [test161Dir, ''commands'']) = Inr cdir"
    "fold_ok (envCommandHandler w) (files_with (path_Join [test161Dir, ''commands'']) ''.tc'' cdir)
       (fresh_environment pm test161Dir) = Inr e2"
    by (auto simp: targets_def cmds_def envReadLoop_def bind_ok_eq_Inr)
  show thesis by (rule that [OF d _ _ link]) (simp_all add: e)
qed

lemma link_commands: "fold_ok link_sub ks env = Inr env' \<Longrightarrow> env_Commands env' = env_Commands env"
  "fold_ok link_meta ks env = Inr env' \<Longrightarrow> env_Commands env' = env_Commands env"
  by (induction ks arbitrary: env)
    (auto simp: bind_ok_eq_Inr dest!: link_sub_cases link_meta_cases)

lemma linkMetaTargets_ok:
  assumes "linkMetaTargets env = Inr env'"
  shows "same_core (env_Targets env) (env_Targets env')" "env_Commands env' = env_Commands env"
    "gm_get (env_Targets env') k = Some t \<Longrightarrow> \<not> tgt_IsMetaTarget t \<Longrightarrow> sub_linked (env_Targets env') k"
    "meta_linked (env_Targets env') k"
proof -
  from assms obtain mid where s: "fold_ok link_sub (gm_keys (env_Targets env)) env = Inr mid"
    and m: "fold_ok link_meta (gm_keys (env_Targets mid)) mid = Inr env'"
    by (auto simp: linkMetaTargets_def bind_ok_eq_Inr)
  note S = subs.link_all [OF s] and M = metas.link_all [OF m]
  show "same_core (env_Targets env) (env_Targets env')" using S M same_core_trans by blast
  show "env_Commands env' = env_Commands env" using link_commands(1) [OF s] link_commands(2) [OF m] by simp
  have mid: "k \<in> set (gm_keys (env_Targets mid)) \<longleftrightarrow> gm_get (env_Targets env') k \<noteq> None"
    using same_core_has [of "env_Targets mid" "env_Targets env'" k] M
    by (simp only: gm_has_iff [symmetric] set_map gm_has_def)
  show "meta_linked (env_Targets env') k"
    using M mid by (cases "gm_get (env_Targets env') k") (auto simp: meta_linked_def simp del: set_map)
  assume t: "gm_get (env_Targets env') k = Some t" "\<not> tgt_IsMetaTarget t"
  from M have core: "same_core (env_Targets env') (env_Targets mid)" by (blast intro: same_core_sym)
  from same_core_get [OF core t(1)] obtain u where u: "gm_get (env_Targets mid) k = Some u" "\<not> tgt_IsMetaTarget u"
    using t(2) by (auto dest: unlinked_fields)
  have same: "gm_get (env_Targets env') k = gm_get (env_Targets mid) k"
    using metas.link_all_skips [OF m u] u(1) by simp
  have "k \<in> set (gm_keys (env_Targets env))"
    using same_core_has [of "env_Targets env" "env_Targets mid" k] S u(1)
    by (simp only: gm_has_iff [symmetric] set_map gm_has_def) simp
  with S have "sub_linked (env_Targets mid) k" by blast
  with M same show "sub_linked (env_Targets env') k" by (blast intro: sub_linked_core)
qed

text \<open>
  After an environment was loaded it tracks, for every name, an active target of the target
  directory with that name whose version no other active one of the name exceeds, and no target
  for a name without an active file; every file was read. Linking changed only the two link fields.
\<close>

theorem environment_newest:
  assumes "NewEnvironment w arr test161Dir pm = Inr env" and "\<And>xs. set (arr xs) = set xs"
  shows "\<exists>dir. ew_ReadDir w (path_Join [test161Dir, ''targets'']) = Inr dir \<and>
    (let files = files_with (path_Join [test161Dir, ''targets'']) ''.tt'' dir
     in (\<forall>f\<in>set files. \<exists>t. target_file w f = Inr t) \<and>
        (\<forall>name. gm_get (env_Targets env) name = None \<longleftrightarrow> (\<forall>u. \<not> active_in w files name u)) \<and>
        (\<forall>name t. gm_get (env_Targets env) name = Some t \<longrightarrow>
           (\<exists>u. active_in w files name u \<and> unlinked t = unlinked u) \<and>
           (\<forall>u. active_in w files name u \<longrightarrow> tgt_Version u \<le> tgt_Version t)))"
  using assms
proof (cases rule: NewEnvironment_ok)
  case (1 dir cdir e1 e2 env0)
  let ?files = "files_with (path_Join [test161Dir, ''targets'']) ''.tt'' dir"
  have start: "newest w [] (env_Targets (fresh_environment pm test161Dir))"
    by (simp add: newest_def fresh_environment_def active_in_def)
  from target_loop [OF 1(2) start] have new: "newest w ?files (env_Targets env0)"
    and read: "\<forall>f\<in>set ?files. \<exists>t. target_file w f = Inr t" by (simp_all add: 1(5))
  note core = linkMetaTargets_ok(1) [OF 1(7)]
  have old: "case gm_get (env_Targets env0) name of None \<Rightarrow> \<forall>u. \<not> active_in w ?files name u
      | Some t \<Rightarrow> active_in w ?files name t \<and> (\<forall>u. active_in w ?files name u \<longrightarrow> tgt_Version u \<le> tgt_Version t)" for name
    using new unfolding newest_def by blast
  have none: "gm_get (env_Targets env) name = None \<longleftrightarrow> (\<forall>u. \<not> active_in w ?files name u)" for name
    using old [of name] same_core_has [OF core, of name] by (auto simp: gm_has_def split: option.splits)
  have some: "(\<exists>u. active_in w ?files name u \<and> unlinked t = unlinked u) \<and>
      (\<forall>u. active_in w ?files name u \<longrightarrow> tgt_Version u \<le> tgt_Version t)"
    if t: "gm_get (env_Targets env) name = Some t" for name t
  proof -
    from same_core_get [OF same_core_sym [OF core] t] obtain u where u: "gm_get (env_Targets env0) name = Some u"
      "unlinked u = unlinked t" by blast
    from old [of name] u(1) unlinked_fields(10) [OF u(2)] u(2) show ?thesis by auto
  qed
  show ?thesis unfolding Let_def using 1(1) read none some by (intro exI [of _ dir] conjI allI impI) simp_all
qed

text \<open>
  C38. In a loaded environment every subtarget points to its metatarget, and its previous subtargets
  are exactly the names before it in the metatarget's list, all of them loaded. Every metatarget
  has no tests of its own, refers to all its subtargets, each loaded with the same kernel
  configuration, type and userland flag, and its points are the sum of theirs.
\<close>

theorem environment_links:
  assumes "NewEnvironment w arr test161Dir pm = Inr env" and "\<And>xs. set (arr xs) = set xs"
    and "gm_get (env_Targets env) k = Some t"
  shows "tgt_Name t = k \<and>
    (tgt_MetaName t \<noteq> [] \<and> \<not> tgt_IsMetaTarget t \<longrightarrow>
       tgt_metaTarget t = Some (tgt_MetaName t) \<and>
       (\<exists>meta later. gm_get (env_Targets env) (tgt_MetaName t) = Some meta \<and>
          tgt_SubTargetNames meta = tgt_previousSubTargets t @ k # later) \<and>
       k \<notin> set (tgt_previousSubTargets t) \<and> (\<forall>n\<in>set (tgt_previousSubTargets t). gm_has (env_Targets env) n)) \<and>
    (tgt_IsMetaTarget t \<longrightarrow>
       tgt_Tests t = [] \<and> tgt_previousSubTargets t = tgt_SubTargetNames t \<and>
       (\<forall>n\<in>set (tgt_SubTargetNames t). fits (env_Targets env) t n) \<and>
       tgt_Points t = sum_list (map (points_of (env_Targets env)) (tgt_SubTargetNames t)))"
  using assms(1,2)
proof (cases rule: NewEnvironment_ok)
  case (1 dir cdir e1 e2 env0)
  note L = linkMetaTargets_ok [OF 1(7)]
  have start: "newest w [] (env_Targets (fresh_environment pm test161Dir))"
    by (simp add: newest_def fresh_environment_def active_in_def)
  from same_core_get [OF same_core_sym [OF L(1)] assms(3)] obtain u where
    u: "gm_get (env_Targets e1) k = Some u" "unlinked u = unlinked t" using 1(5) by auto
  from target_loop [OF 1(2) start] u(1) have "tgt_Name u = k"
    by (auto simp: newest_def active_in_def dest!: spec [of _ k])
  then have name: "tgt_Name t = k" using unlinked_fields(1) [OF u(2)] by simp
  moreover have "tgt_MetaName t \<noteq> [] \<and> \<not> tgt_IsMetaTarget t \<longrightarrow>
       tgt_metaTarget t = Some (tgt_MetaName t) \<and>
       (\<exists>meta later. gm_get (env_Targets env) (tgt_MetaName t) = Some meta \<and>
          tgt_SubTargetNames meta = tgt_previousSubTargets t @ k # later) \<and>
       k \<notin> set (tgt_previousSubTargets t) \<and> (\<forall>n\<in>set (tgt_previousSubTargets t). gm_has (env_Targets env) n)"
  proof
    assume m: "tgt_MetaName t \<noteq> [] \<and> \<not> tgt_IsMetaTarget t"
    from L(3) [OF assms(3)] m have "sub_linked (env_Targets env) k" by simp
    from this [unfolded sub_linked_def, rule_format, OF assms(3) conjunct1 [OF m]]
    show "tgt_metaTarget t = Some (tgt_MetaName t) \<and>
       (\<exists>meta later. gm_get (env_Targets env) (tgt_MetaName t) = Some meta \<and>
          tgt_SubTargetNames meta = tgt_previousSubTargets t @ k # later) \<and>
       k \<notin> set (tgt_previousSubTargets t) \<and> (\<forall>n\<in>set (tgt_previousSubTargets t). gm_has (env_Targets env) n)"
      unfolding name .
  qed
  ultimately show ?thesis using L(4) [of k] assms(3) unfolding meta_linked_def by blast
qed

text \<open>A loader of named entries reads all files, and no name occurs twice in them.\<close>

lemma load_named_append:
  "load_named nm dup es m = Inr m1 \<Longrightarrow> load_named nm dup' es' m1 = Inr m2 \<Longrightarrow>
   distinct (map nm (es @ es')) \<and> (\<forall>e\<in>set es'. \<not> gm_has m (nm e))"
proof (induction es arbitrary: m)
  case Nil
  then show ?case by (simp add: load_named_ok)
next
  case (Cons e es)
  then have l: "load_named nm dup es (gm_put (nm e) e m) = Inr m1" "\<not> gm_has m (nm e)" by (simp_all split: if_splits)
  from Cons.IH [OF l(1) Cons.prems(2)] have IH: "distinct (map nm (es @ es'))" "\<forall>x\<in>set es'. nm x \<noteq> nm e \<and> \<not> gm_has m (nm x)"
    by auto
  from Cons.prems(1) have "nm e \<notin> nm ` set es" unfolding load_named_ok by simp
  with IH show ?case by auto
qed

lemma command_handler_ok:
  assumes "envCommandHandler w f env = Inr env'"
  obtains es m and dup :: "CommandTemplate \<Rightarrow> string" where "CommandTemplatesFromFile (ew_commands w) (ew_ReadFile w) f = Inr es"
    "load_named ct_Name dup es (env_Commands env) = Inr m" "env_Commands env' = m"
proof -
  let ?dup = "\<lambda>t. ''Duplicate command ('' @ ct_Name t @ '') in file '' @ f"
  from assms obtain es m where h: "CommandTemplatesFromFile (ew_commands w) (ew_ReadFile w) f = Inr es"
    "load_named ct_Name ?dup es (env_Commands env) = Inr m" "env' = env\<lparr>env_Commands := m\<rparr>"
    unfolding envCommandHandler_def bind_ok_eq_Inr by blast
  show thesis by (rule that [OF h(1,2)]) (simp add: h(3))
qed

lemma command_loop:
  "fold_ok (envCommandHandler w) fs env = Inr env' \<Longrightarrow>
   \<exists>ess. list_all2 (\<lambda>f es. CommandTemplatesFromFile (ew_commands w) (ew_ReadFile w) f = Inr es) fs ess \<and>
     (\<exists>dup :: CommandTemplate \<Rightarrow> string. load_named ct_Name dup (concat ess) (env_Commands env) = Inr (env_Commands env'))"
proof (induction fs arbitrary: env)
  case Nil
  then show ?case by simp
next
  case (Cons f fs)
  then obtain env1 where h: "envCommandHandler w f env = Inr env1"
    and rest: "fold_ok (envCommandHandler w) fs env1 = Inr env'" by (auto simp: bind_ok_eq_Inr)
  from h obtain es m and dup :: "CommandTemplate \<Rightarrow> string" where es: "CommandTemplatesFromFile (ew_commands w) (ew_ReadFile w) f = Inr es"
    "load_named ct_Name dup es (env_Commands env) = Inr m" "env_Commands env1 = m" by (rule command_handler_ok)
  from Cons.IH [OF rest] obtain ess and dup' :: "CommandTemplate \<Rightarrow> string" where
    ess: "list_all2 (\<lambda>f es. CommandTemplatesFromFile (ew_commands w) (ew_ReadFile w) f = Inr es) fs ess"
    "load_named ct_Name dup' (concat ess) m = Inr (env_Commands env')" unfolding es(3) by blast
  note A = load_named_append [OF es(2) ess(2)]
  have "load_named ct_Name dup (es @ concat ess) (env_Commands env) = Inr (env_Commands env')"
    using A es(2) ess(2) unfolding load_named_ok by auto
  with es(1) ess(1) show ?case by (intro exI [of _ "es # ess"]) auto
qed

text \<open>
  A loaded environment knows exactly the command templates of the files of the command
  directory, each under its name, and no name is defined twice, in one file or in two.
\<close>

theorem environment_commands:
  assumes "NewEnvironment w arr test161Dir pm = Inr env" and "\<And>xs. set (arr xs) = set xs"
  shows "\<exists>dir ess. ew_ReadDir w (path_Join [test161Dir, ''commands'']) = Inr dir \<and>
    list_all2 (\<lambda>f es. CommandTemplatesFromFile (ew_commands w) (ew_ReadFile w) f = Inr es)
      (files_with (path_Join [test161Dir, ''commands'']) ''.tc'' dir) ess \<and>
    distinct (map ct_Name (concat ess)) \<and>
    (\<forall>name. gm_get (env_Commands env) name = find (\<lambda>e. ct_Name e = name) (concat ess))"
  using assms
proof (cases rule: NewEnvironment_ok)
  case (1 dir cdir e1 e2 env0)
  have none: "env_Commands (fresh_environment pm test161Dir) = []" by (simp add: fresh_environment_def)
  from command_loop [OF 1(4)] obtain ess and dup :: "CommandTemplate \<Rightarrow> string" where
    ess: "list_all2 (\<lambda>f es. CommandTemplatesFromFile (ew_commands w) (ew_ReadFile w) f = Inr es)
      (files_with (path_Join [test161Dir, ''commands'']) ''.tc'' cdir) ess"
    and load: "load_named ct_Name dup (concat ess) [] = Inr (env_Commands e2)" unfolding none by blast
  have same: "env_Commands env = env_Commands e2" using linkMetaTargets_ok(2) [OF 1(7)] 1(6) by simp
  have "distinct (map ct_Name (concat ess))" using load unfolding load_named_ok by blast
  moreover have "gm_get (env_Commands env) name = find (\<lambda>e. ct_Name e = name) (concat ess)" for name
    using load_named_get [OF load, of name] by (simp add: same split: option.splits)
  ultimately show ?thesis using 1(3) ess by (intro exI [of _ cdir] exI [of _ ess] conjI allI)
qed

section \<open>A concrete environment\<close>

text \<open>A metatarget with two subtargets; the first has an older version, and one file has no target's name.\<close>

definition sample_world :: EnvWorld where
  "sample_world = \<lparr>ew_ReadDir = (\<lambda>d. if d = ''/w/targets''
        then Inr [(''m.tt'', True), (''one.tt'', True), (''old.tt'', True), (''two.tt'', True), (''README'', True), (''d.tt'', False)]
        else Inr [(''all.tc'', True)]),
     ew_ReadFile = Inr,
     ew_Stat = (\<lambda>f. if f = ''/w/tags'' then Inl ''no such file'' else Inr f),
     ew_md5 = (\<lambda>s. s),
     ew_commands = (\<lambda>_. Inr [\<lparr>ct_Name = ''boot'', ct_Output = [], ct_Input = [], ct_Panic = [], ct_TimesOut = [], ct_Timeout = 0\<rparr>]),
     ew_target = (\<lambda>f t. Inr (
        if f = ''/w/targets/m.tt'' then t\<lparr>tgt_Name := ''m'', tgt_Points := 30, tgt_IsMetaTarget := True, tgt_SubTargetNames := [''one'', ''two'']\<rparr>
        else if f = ''/w/targets/two.tt'' then t\<lparr>tgt_Name := ''two'', tgt_Points := 20, tgt_MetaName := ''m''\<rparr>
        else if f = ''/w/targets/old.tt'' then t\<lparr>tgt_Name := ''one'', tgt_Points := 11, tgt_MetaName := ''m'', tgt_Version := 1\<rparr>
        else t\<lparr>tgt_Name := ''one'', tgt_Points := 10, tgt_MetaName := ''m'', tgt_Version := 2\<rparr>)),
     ew_tags = (\<lambda>_. Inr [])\<rparr>"

lemma sample_loaded:
  "map_sum id (\<lambda>env. (map (\<lambda>(k, t). (k, tgt_Version t, tgt_previousSubTargets t)) (env_Targets env),
       gm_keys (env_Commands env)))
     (NewEnvironment sample_world rev ''/w'' None) =
   Inr ([(''m'', 0, [''one'', ''two'']), (''one'', 2, []), (''two'', 0, [''one''])], [''boot''])"
  by code_simp

lemma sample_environment:
  obtains env t where "NewEnvironment sample_world rev ''/w'' None = Inr env"
    "gm_get (env_Targets env) ''two'' = Some t" "tgt_previousSubTargets t = [''one'']"
    "gm_keys (env_Commands env) = [''boot'']"
proof -
  let ?f = "\<lambda>(k, t). (k, tgt_Version t, tgt_previousSubTargets t)"
  obtain env where env: "NewEnvironment sample_world rev ''/w'' None = Inr env"
    and tgts: "map ?f (env_Targets env) = [(''m'', 0, [''one'', ''two'']), (''one'', 2, []), (''two'', 0, [''one''])]"
    and cmds: "gm_keys (env_Commands env) = [''boot'']"
    using sample_loaded by (cases "NewEnvironment sample_world rev ''/w'' None") (simp_all del: set_map)
  from tgts obtain t where "gm_get (env_Targets env) ''two'' = Some t" "tgt_previousSubTargets t = [''one'']"
    by (auto simp: map_eq_Cons_conv)
  from that [OF env this cmds] show thesis .
qed

lemma environment_newest_witness:
  "\<exists>env. NewEnvironment sample_world rev ''/w'' None = Inr env \<and>
     (\<exists>files u. active_in sample_world files ''two'' u)"
proof -
  obtain env t where env: "NewEnvironment sample_world rev ''/w'' None = Inr env"
    and t: "gm_get (env_Targets env) ''two'' = Some t" by (rule sample_environment)
  from environment_newest [OF env set_rev] t have "\<exists>files u. active_in sample_world files ''two'' u"
    unfolding Let_def by blast
  with env show ?thesis by (intro exI [of _ env] conjI)
qed

lemma environment_links_witness:
  "\<exists>env t. NewEnvironment sample_world rev ''/w'' None = Inr env \<and>
     gm_get (env_Targets env) ''two'' = Some t \<and> tgt_previousSubTargets t = [''one''] \<and>
     tgt_Name t = ''two''"
proof -
  obtain env t where env: "NewEnvironment sample_world rev ''/w'' None = Inr env"
    and t: "gm_get (env_Targets env) ''two'' = Some t" "tgt_previousSubTargets t = [''one'']"
    by (rule sample_environment)
  have "tgt_Name t = ''two''" by (rule conjunct1 [OF environment_links [OF env set_rev t(1)]])
  with env t show ?thesis by (intro exI conjI)
qed

lemma environment_commands_witness:
  "\<exists>env (ess :: CommandTemplate list list). NewEnvironment sample_world rev ''/w'' None = Inr env \<and> distinct (map ct_Name (concat ess)) \<and>
     (\<exists>e. find (\<lambda>e. ct_Name e = ''boot'') (concat ess) = Some e)"
proof -
  obtain env where env: "NewEnvironment sample_world rev ''/w'' None = Inr env"
    and keys: "gm_keys (env_Commands env) = [''boot'']" by (rule sample_environment)
  from environment_commands [OF env set_rev] obtain ess where ess: "distinct (map ct_Name (concat ess))"
    and get: "gm_get (env_Commands env) ''boot'' = find (\<lambda>e. ct_Name e = ''boot'') (concat ess)" by blast
  from keys have "\<exists>e. gm_get (env_Commands env) ''boot'' = Some e" by (auto simp: map_eq_Cons_conv)
  then obtain e where e: "find (\<lambda>e. ct_Name e = ''boot'') (concat ess) = Some e" unfolding get ..
  from env ess e show ?thesis by (intro exI conjI)
qed

end
