(* ===== verification/GoFiles.thy ===== *)
theory GoFiles
  imports GoStrings
begin

text \<open>
  The file operations of Go's \<open>os\<close>, \<open>io/ioutil\<close> and \<open>bufio\<close> that the program uses. A file system
  gives the entry at each clean path. An operation can always fail for a reason outside the file
  system (permissions, a full disk); \<open>faults op p\<close> is the error then.
\<close>

datatype entry = Dir | File string

type_synonym fs = "string \<Rightarrow> entry option"
type_synonym faults = "string \<Rightarrow> string \<Rightarrow> string option"

definition io_guard :: "faults \<Rightarrow> string \<Rightarrow> string \<Rightarrow> (string + 'a) \<Rightarrow> string + 'a" where
  "io_guard faults op p r =
     (case faults op p of Some err \<Rightarrow> Inl (op @ '' '' @ p @ '': '' @ err) | None \<Rightarrow> r)"

definition no_entry :: "string \<Rightarrow> string \<Rightarrow> string" where
  "no_entry op p = op @ '' '' @ p @ '': no such file or directory''"

definition os_Stat :: "faults \<Rightarrow> string \<Rightarrow> fs \<Rightarrow> string + entry" where
  "os_Stat fl p fs =
     io_guard fl ''stat'' p (case fs p of None \<Rightarrow> Inl (no_entry ''stat'' p) | Some f \<Rightarrow> Inr f)"

definition exists_file :: "faults \<Rightarrow> string \<Rightarrow> fs \<Rightarrow> bool" where
  "exists_file fl p fs \<longleftrightarrow> (case os_Stat fl p fs of Inl _ \<Rightarrow> False | Inr _ \<Rightarrow> True)"

definition ioutil_ReadFile :: "faults \<Rightarrow> string \<Rightarrow> fs \<Rightarrow> string + string" where
  "ioutil_ReadFile fl p fs =
     io_guard fl ''open'' p
       (case fs p of
          None \<Rightarrow> Inl (no_entry ''open'' p)
        | Some Dir \<Rightarrow> Inl (''read '' @ p @ '': is a directory'')
        | Some (File data) \<Rightarrow> Inr data)"

definition os_Mkdir :: "faults \<Rightarrow> string \<Rightarrow> fs \<Rightarrow> string + fs" where
  "os_Mkdir fl p fs =
     io_guard fl ''mkdir'' p
       (if fs p \<noteq> None then Inl (''mkdir '' @ p @ '': file exists'')
        else if fs (path_Dir p) \<noteq> Some Dir then Inl (no_entry ''mkdir'' p)
        else Inr (fs(p \<mapsto> Dir)))"

text \<open>\<open>os.Create\<close> makes the file empty.\<close>

definition os_Create :: "faults \<Rightarrow> string \<Rightarrow> fs \<Rightarrow> string + fs" where
  "os_Create fl p fs =
     io_guard fl ''create'' p
       (if fs p = Some Dir then Inl (''open '' @ p @ '': is a directory'')
        else if fs (path_Dir p) \<noteq> Some Dir then Inl (no_entry ''open'' p)
        else Inr (fs(p \<mapsto> File [])))"

definition os_Remove :: "faults \<Rightarrow> string \<Rightarrow> fs \<Rightarrow> string + fs" where
  "os_Remove fl p fs =
     io_guard fl ''remove'' p (if fs p = None then Inl (no_entry ''remove'' p) else Inr (fs(p := None)))"

definition os_RemoveAll :: "faults \<Rightarrow> string \<Rightarrow> fs \<Rightarrow> string + fs" where
  "os_RemoveAll fl p fs =
     io_guard fl ''removeall'' p (Inr (\<lambda>q. if q = p \<or> prefix (p @ ''/'') q then None else fs q))"

text \<open>The program renames regular files only.\<close>

definition os_Rename :: "faults \<Rightarrow> string \<Rightarrow> string \<Rightarrow> fs \<Rightarrow> string + fs" where
  "os_Rename fl p q fs =
     io_guard fl ''rename'' p
       (case fs p of
          None \<Rightarrow> Inl (no_entry ''rename'' p)
        | Some f \<Rightarrow> Inr ((fs(p := None))(q \<mapsto> f)))"

text \<open>An operation whose error the program ignores.\<close>

definition ignoring :: "(fs \<Rightarrow> string + fs) \<Rightarrow> fs \<Rightarrow> fs" where
  "ignoring op fs = (case op fs of Inl _ \<Rightarrow> fs | Inr fs' \<Rightarrow> fs')"

section \<open>Lines\<close>

text \<open>
  \<open>bufio.Scanner\<close> gives the lines of a text without their ends; a last line without an end counts,
  an empty one does not. It stops with an error at a line that does not fit into its buffer.
\<close>

definition drop_cr :: "string \<Rightarrow> string" where
  "drop_cr l = (if l \<noteq> [] \<and> last l = CHR 0x0D then butlast l else l)"

definition raw_lines :: "string \<Rightarrow> string list" where
  "raw_lines data = (let ls = Split CHR 0x0A data in if last ls = [] then butlast ls else ls)"

abbreviation scan_limit :: nat where
  "scan_limit \<equiv> 65536"

definition scan_lines :: "string \<Rightarrow> string list \<times> string option" where
  "scan_lines data =
     (let ls = raw_lines data; ok = takeWhile (\<lambda>l. length l < scan_limit) ls
      in (map drop_cr ok, if length ok = length ls then None else Some ''bufio.Scanner: token too long''))"

definition unlines :: "string list \<Rightarrow> string" where
  "unlines ls = concat (map (\<lambda>l. l @ [CHR 0x0A]) ls)"

lemma Split_snoc_sep: "Split c (l @ c # s) = Split c l @ Split c s"
  by (induction l) (auto split: list.splits)

lemma raw_lines_Nil [simp]: "raw_lines [] = []"
  by (simp add: raw_lines_def)

lemma raw_lines_line: "CHR 0x0A \<notin> set l \<Longrightarrow> raw_lines (l @ CHR 0x0A # s) = l # raw_lines s"
proof -
  assume l: "CHR 0x0A \<notin> set l"
  then have "Split CHR 0x0A (l @ CHR 0x0A # s) = l # Split CHR 0x0A s"
    by (simp add: Split_snoc_sep Split_plain)
  then show ?thesis by (simp add: raw_lines_def Let_def Split_not_Nil)
qed

lemma raw_lines_unlines: "\<forall>l\<in>set ls. CHR 0x0A \<notin> set l \<Longrightarrow> raw_lines (unlines ls) = ls"
  by (induction ls) (simp_all add: unlines_def raw_lines_line)

text \<open>Scanning what was written line by line gives the lines back.\<close>

lemma scan_unlines:
  assumes "\<forall>l\<in>set ls. CHR 0x0A \<notin> set l \<and> (l = [] \<or> last l \<noteq> CHR 0x0D) \<and> length l < scan_limit"
  shows "scan_lines (unlines ls) = (ls, None)"
proof -
  have all: "takeWhile (\<lambda>l. length l < scan_limit) ls = ls"
    using assms by (intro takeWhile_eq_all_conv [THEN iffD2]) blast
  have "map drop_cr ls = ls" using assms by (intro map_idI) (auto simp: drop_cr_def)
  moreover have "raw_lines (unlines ls) = ls" using assms by (intro raw_lines_unlines) blast
  ultimately show ?thesis unfolding scan_lines_def Let_def by (simp only: all) simp
qed

section \<open>What a successful operation did\<close>

lemma io_guard_Inr: "io_guard fl op p r = Inr x \<longleftrightarrow> fl op p = None \<and> r = Inr x"
  by (auto simp: io_guard_def split: option.splits)

lemma ReadFile_ok: "ioutil_ReadFile fl p fs = Inr data \<Longrightarrow> fs p = Some (File data)"
  by (auto simp: ioutil_ReadFile_def io_guard_Inr split: option.splits entry.splits)

lemma Create_ok: "os_Create fl p fs = Inr fs' \<Longrightarrow> fs' = fs(p \<mapsto> File [])"
  by (auto simp: os_Create_def io_guard_Inr split: if_splits)

lemma Mkdir_ok: "os_Mkdir fl p fs = Inr fs' \<Longrightarrow> fs' = fs(p \<mapsto> Dir) \<and> fs p = None"
  by (auto simp: os_Mkdir_def io_guard_Inr split: if_splits)

lemma Rename_ok: "os_Rename fl p q fs = Inr fs' \<Longrightarrow> \<exists>f. fs p = Some f \<and> fs' = (fs(p := None))(q \<mapsto> f)"
  by (auto simp: os_Rename_def io_guard_Inr split: option.splits)

lemma RemoveAll_ok:
  "os_RemoveAll fl p fs = Inr fs' \<Longrightarrow> fs' q = (if q = p \<or> prefix (p @ ''/'') q then None else fs q)"
  by (auto simp: os_RemoveAll_def io_guard_Inr)

lemma ignoring_Remove: "ignoring (os_Remove fl p) fs = fs \<or> ignoring (os_Remove fl p) fs = fs(p := None)"
  by (auto simp: ignoring_def os_Remove_def io_guard_def split: option.splits)

section \<open>Clean absolute paths\<close>

definition plain_comp :: "string \<Rightarrow> bool" where
  "plain_comp w \<longleftrightarrow> w \<noteq> [] \<and> w \<noteq> ''.'' \<and> w \<noteq> ''..'' \<and> CHR ''/'' \<notin> set w"

definition clean_path :: "string list \<Rightarrow> string" where
  "clean_path cs = CHR ''/'' # Join_with ''/'' cs"

lemma clean_comps_plain: "list_all plain_comp ws \<Longrightarrow> clean_comps True acc ws = rev acc @ ws"
  by (induction ws arbitrary: acc) (simp_all add: plain_comp_def)

lemma clean_comps_append:
  "clean_comps True acc (ws @ vs) = clean_comps True (rev (clean_comps True acc ws)) vs"
proof (induction ws arbitrary: acc)
  case (Cons w ws)
  then show ?case by (cases acc) (simp_all only: append_Cons clean_comps.simps list.case if_True if_False split: if_split, simp_all)
qed simp

lemma clean_comps_are_plain:
  "list_all plain_comp acc \<Longrightarrow> \<forall>w\<in>set ws. CHR ''/'' \<notin> set w \<Longrightarrow> list_all plain_comp (clean_comps True acc ws)"
proof (induction ws arbitrary: acc)
  case (Cons w ws)
  have rec: "list_all plain_comp bs \<Longrightarrow> list_all plain_comp (clean_comps True bs ws)" for bs
    using Cons by simp
  have w: "CHR ''/'' \<notin> set w" using Cons.prems by simp
  show ?case
  proof (cases "w = [] \<or> w = ''.''")
    case True
    then show ?thesis using rec Cons.prems by simp
  next
    case kept: False
    show ?thesis
    proof (cases "w = ''..''")
      case True
      show ?thesis
      proof (cases acc)
        case Nil
        with True show ?thesis using rec [of "[]"] by simp
      next
        case (Cons a as)
        then have "plain_comp a" "list_all plain_comp as" using Cons.prems by simp_all
        then have "a \<noteq> ''..''" by (simp add: plain_comp_def)
        with True Cons \<open>list_all plain_comp as\<close> show ?thesis using rec [of as] by simp
      qed
    next
      case False
      with kept w have "plain_comp w" by (simp add: plain_comp_def)
      with kept False show ?thesis using rec Cons.prems by simp
    qed
  qed
qed simp

lemma Join_with_snoc: "ws \<noteq> [] \<Longrightarrow> Join_with sep (ws @ [w]) = Join_with sep ws @ sep @ w"
  by (induction sep ws rule: Join_with.induct) auto

lemma Join_with_append: "ws \<noteq> [] \<Longrightarrow> vs \<noteq> [] \<Longrightarrow> Join_with sep (ws @ vs) = Join_with sep ws @ sep @ Join_with sep vs"
  by (induction sep ws rule: Join_with.induct) (auto simp: neq_Nil_conv)

lemma path_Clean_rooted:
  "rooted p \<Longrightarrow> path_Clean p = clean_path (clean_comps True [] (Split CHR ''/'' p))"
  by (simp add: path_Clean_def clean_path_def Let_def)

lemma rooted_append: "rooted p \<Longrightarrow> rooted (p @ q)"
  by (auto simp: rooted_def HasPrefix_def prefix_def)

text \<open>Joining names to an absolute path appends them to its components.\<close>

lemma path_Join_rooted:
  assumes "rooted p" and "vs \<noteq> []" and "list_all plain_comp vs"
  shows "path_Join [p, Join_with ''/'' vs] = clean_path (clean_comps True [] (Split CHR ''/'' p) @ vs)"
proof -
  have "p \<noteq> []" using assms(1) by (auto simp: rooted_def HasPrefix_def)
  moreover have "Join_with ''/'' vs \<noteq> []"
    using assms(2,3) by (cases "(''/'', vs)" rule: Join_with.cases) (auto simp: plain_comp_def)
  ultimately have "path_Join [p, Join_with ''/'' vs] = path_Clean (p @ CHR ''/'' # Join_with ''/'' vs)"
    by (simp add: path_Join_def)
  moreover have "Split CHR ''/'' (Join_with ''/'' vs) = vs"
    using assms(2,3) by (intro Split_Join) (auto simp: list_all_iff plain_comp_def)
  ultimately show ?thesis
    using assms by (simp add: path_Clean_rooted rooted_append Split_snoc_sep clean_comps_append clean_comps_plain)
qed

lemma rooted_comps: "list_all plain_comp (clean_comps True [] (Split CHR ''/'' p))"
  by (intro clean_comps_are_plain) (auto dest: Split_no_sep)

lemma clean_path_comps: "cs \<noteq> [] \<Longrightarrow> list_all plain_comp cs \<Longrightarrow>
    clean_comps True [] (Split CHR ''/'' (clean_path cs)) = cs"
proof -
  assume cs: "cs \<noteq> []" "list_all plain_comp cs"
  then have "Split CHR ''/'' (Join_with ''/'' cs) = cs"
    by (intro Split_Join) (auto simp: list_all_iff plain_comp_def)
  with cs show ?thesis by (simp add: clean_path_def clean_comps_plain)
qed

lemma path_Join_name:
  assumes "cs \<noteq> []" and "list_all plain_comp cs" and "plain_comp n"
  shows "path_Join [clean_path cs, n] = clean_path cs @ ''/'' @ n"
proof -
  have "rooted (clean_path cs)" by (simp add: rooted_def HasPrefix_def clean_path_def)
  then have "path_Join [clean_path cs, Join_with ''/'' [n]] = clean_path (cs @ [n])"
    using path_Join_rooted [of "clean_path cs" "[n]"] assms clean_path_comps [of cs] by simp
  with assms show ?thesis by (simp add: clean_path_def Join_with_snoc)
qed

end
