(* ===== verification/SecureOverlay.thy ===== *)
theory SecureOverlay
  imports GoFiles
begin

text \<open>
  The keys of secure output (\<open>build.go\<close>): the lines of the overlay's trusted files that print through
  \<open>secprintf\<close>, \<open>success\<close> or \<open>partial_credit\<close> get the secret key of their command in place of \<open>SECRET\<close>.
  The files are processed by one goroutine each; the keys are shared under a lock.
\<close>

section \<open>The regular expressions\<close>

text \<open>
  A matcher takes the rest of the line and a continuation. \<open>.*\<close> and \<open>.+\<close> are greedy: the longest
  piece is tried first. \<open>FindStringSubmatch\<close> on an expression that begins and ends with \<open>.*\<close> matches
  the whole line.
\<close>

fun greedy :: "nat \<Rightarrow> (string \<Rightarrow> string \<Rightarrow> 'a option) \<Rightarrow> nat \<Rightarrow> string \<Rightarrow> 'a option" where
  "greedy lo k 0 s = (if lo = 0 then k [] s else None)"
| "greedy lo k (Suc n) s =
     (if Suc n < lo then None
      else (case k (take (Suc n) s) (drop (Suc n) s) of Some r \<Rightarrow> Some r | None \<Rightarrow> greedy lo k n s))"

definition dot_star :: "(string \<Rightarrow> 'a option) \<Rightarrow> string \<Rightarrow> 'a option" where
  "dot_star k s = greedy 0 (\<lambda>_. k) (length s) s"

definition dot_plus :: "(string \<Rightarrow> string \<Rightarrow> 'a option) \<Rightarrow> string \<Rightarrow> 'a option" where
  "dot_plus k s = greedy 1 k (length s) s"

definition lit :: "string \<Rightarrow> (string \<Rightarrow> 'a option) \<Rightarrow> string \<Rightarrow> 'a option" where
  "lit p k s = (if prefix p s then k (drop (length p) s) else None)"

text \<open>The name of the command, the group of the expression.\<close>

definition secprintfExp :: "string \<Rightarrow> string option" where
  "secprintfExp =
     dot_star (lit ''secprintf('' (dot_star (lit ''SECRET, '' (dot_plus (\<lambda>_. lit '', \"''
       (dot_plus (\<lambda>name. lit ''\");'' (\<lambda>_. Some name))))))))"

definition successExp :: "string \<Rightarrow> string option" where
  "successExp =
     dot_star (lit ''success('' (dot_plus (\<lambda>_. lit '', SECRET, \"'' (dot_plus (\<lambda>name. lit ''\");'' (\<lambda>_. Some name))))))"

definition partialExp :: "string \<Rightarrow> string option" where
  "partialExp =
     dot_star (lit ''partial_credit(SECRET, \"'' (dot_plus (\<lambda>name. lit ''\",'' (dot_plus (\<lambda>_. lit '');'' (\<lambda>_. Some name))))))"

definition secure_name :: "string \<Rightarrow> string option" where
  "secure_name line =
     (case secprintfExp line of
        Some name \<Rightarrow> Some name
      | None \<Rightarrow> (case successExp line of Some name \<Rightarrow> Some name | None \<Rightarrow> partialExp line))"

section \<open>Keys\<close>

definition hex_digit :: "nat \<Rightarrow> char" where
  "hex_digit n = (if n < 10 then char_of (48 + n) else char_of (87 + n))"

definition hex :: "nat list \<Rightarrow> string" where
  "hex bytes = concat (map (\<lambda>b. [hex_digit (b div 16), hex_digit (b mod 16)]) bytes)"

abbreviation KEYBYTES :: nat where
  "KEYBYTES \<equiv> 32"

text \<open>\<open>read\<close> is the random source: so many bytes, or an error.\<close>

definition newKey :: "(nat \<Rightarrow> string + nat list) \<Rightarrow> nat \<Rightarrow> string + string" where
  "newKey read numbytes = bind_ok (read numbytes) (\<lambda>bytes. Inr (hex bytes))"

type_synonym keymap = "(string, string) gomap"

text \<open>\<open>read ident\<close> is what the random source gives when the key of \<open>ident\<close> is made.\<close>

definition getKey :: "(string \<Rightarrow> nat \<Rightarrow> string + nat list) \<Rightarrow> string \<Rightarrow> keymap \<Rightarrow> string + string \<times> keymap" where
  "getKey read ident keys =
     (case gm_get keys ident of
        Some key \<Rightarrow> Inr (key, keys)
      | None \<Rightarrow> bind_ok (newKey (read ident) KEYBYTES) (\<lambda>key. Inr (key, gm_put ident key keys)))"

text \<open>\<open>strings.Replace\<close> with the count 1.\<close>

definition replace_first :: "string \<Rightarrow> string \<Rightarrow> string \<Rightarrow> string" where
  "replace_first old new s =
     (case Index s old of None \<Rightarrow> s | Some i \<Rightarrow> take i s @ new @ drop (i + length old) s)"

definition with_key :: "string \<Rightarrow> string \<Rightarrow> string" where
  "with_key key line = replace_first ''SECRET'' (CHR 0x22 # key @ [CHR 0x22]) line"

text \<open>One line: the line to write and the keys.\<close>

definition secure_line :: "(string \<Rightarrow> nat \<Rightarrow> string + nat list) \<Rightarrow> string \<Rightarrow> keymap \<Rightarrow> string + string \<times> keymap" where
  "secure_line read line keys =
     (case secure_name line of
        None \<Rightarrow> Inr (line, keys)
      | Some name \<Rightarrow> bind_ok (getKey read name keys) (\<lambda>(key, keys'). Inr (with_key key line, keys')))"

section \<open>A file\<close>

text \<open>
  The loop over the lines: the text in the writer, the messages on \<open>done\<close>, the keys, and whether the
  goroutine returned early. A failed write is reported but does not end the loop, and the writer
  repeats its error. \<open>wr i\<close> is the error of the \<open>i\<close>th write, if any.
\<close>

record scan_state =
  sc_written :: string
  sc_msgs :: "string option list"
  sc_keys :: keymap
  sc_error :: "string option"
  sc_returned :: bool

definition write_line :: "(nat \<Rightarrow> string option) \<Rightarrow> nat \<Rightarrow> string \<Rightarrow> scan_state \<Rightarrow> scan_state" where
  "write_line wr i line st =
     (let err = (case sc_error st of Some e \<Rightarrow> Some e | None \<Rightarrow> wr i)
      in case err of
           None \<Rightarrow> st\<lparr>sc_written := sc_written st @ line @ [CHR 0x0A]\<rparr>
         | Some e \<Rightarrow> st\<lparr>sc_error := Some e, sc_msgs := sc_msgs st @ [Some e]\<rparr>)"

fun secure_loop :: "(string \<Rightarrow> nat \<Rightarrow> string + nat list) \<Rightarrow> (nat \<Rightarrow> string option) \<Rightarrow> nat \<Rightarrow> string list \<Rightarrow> scan_state \<Rightarrow> scan_state" where
  "secure_loop read wr i [] st = st"
| "secure_loop read wr i (line # ls) st =
     (case secure_line read line (sc_keys st) of
        Inl err \<Rightarrow> st\<lparr>sc_msgs := sc_msgs st @ [Some err], sc_returned := True\<rparr>
      | Inr (line', keys) \<Rightarrow> secure_loop read wr (Suc i) ls (write_line wr i line' (st\<lparr>sc_keys := keys\<rparr>)))"

text \<open>
  The goroutine of one file: its messages, the files and the keys. When it returns early it leaves
  its temporary file behind; no one reads that one, its content is not tracked. The files of the list
  are regular files or missing.
\<close>

definition doSecureOverlayFile :: "faults \<Rightarrow> (string \<Rightarrow> nat \<Rightarrow> string + nat list) \<Rightarrow> (nat \<Rightarrow> string option) \<Rightarrow> string \<Rightarrow> string \<Rightarrow>
    fs \<times> keymap \<Rightarrow> string option list \<times> fs \<times> keymap" where
  "doSecureOverlayFile fl read wr srcDir filename = (\<lambda>(fs, keys).
     if TrimSpace filename = [] then ([None], fs, keys)
     else
       (let path = path_Join [srcDir, filename]; outfile = path_Join [srcDir, filename @ ''.tmp'']
        in case ioutil_ReadFile fl path fs of
             Inl err \<Rightarrow> ([Some err], fs, keys)
           | Inr data \<Rightarrow>
               (case os_Create fl outfile fs of
                  Inl err \<Rightarrow> ([Some err], fs, keys)
                | Inr fs1 \<Rightarrow>
                    (let (ls, scanErr) = scan_lines data;
                         st = secure_loop read wr 0 ls
                           \<lparr>sc_written = [], sc_msgs = [], sc_keys = keys, sc_error = None, sc_returned = False\<rparr>
                     in if sc_returned st then (sc_msgs st, fs1, sc_keys st)
                        else
                          (let fs2 = fs1(outfile \<mapsto> File (sc_written st));
                               fs3 = ignoring (os_Remove fl path) fs2;
                               msgs = sc_msgs st @ (case scanErr of Some e \<Rightarrow> [Some e] | None \<Rightarrow> [])
                           in case os_Rename fl outfile path fs3 of
                                Inl err \<Rightarrow> (msgs @ [Some err], fs3, sc_keys st)
                              | Inr fs4 \<Rightarrow> (msgs @ [None], fs4, sc_keys st))))))"

section \<open>What the expressions match\<close>

lemma greedy_Some:
  "greedy lo k n s = Some r \<Longrightarrow> n \<le> length s \<Longrightarrow>
   \<exists>a b. s = a @ b \<and> lo \<le> length a \<and> length a \<le> n \<and> k a b = Some r"
proof (induction lo k n s rule: greedy.induct)
  case (1 lo k s)
  then show ?case by (rule_tac exI [of _ "[]"]) (auto split: if_splits)
next
  case (2 lo k n s)
  from 2(2) have lo: "lo \<le> Suc n" by (auto split: if_splits)
  show ?case
  proof (cases "k (take (Suc n) s) (drop (Suc n) s)")
    case None
    with 2(2) lo have "greedy lo k n s = Some r" by simp
    from 2(1) [OF _ None this] lo 2(3) show ?thesis by fastforce
  next
    case (Some r')
    with 2(2) lo have "k (take (Suc n) s) (drop (Suc n) s) = Some r" by simp
    with lo 2(3) show ?thesis
      by (intro exI [of _ "take (Suc n) s"] exI [of _ "drop (Suc n) s"]) simp
  qed
qed

lemma greedy_None:
  "greedy lo k n s = None \<Longrightarrow> s = a @ b \<Longrightarrow> lo \<le> length a \<Longrightarrow> length a \<le> n \<Longrightarrow> k a b = None"
  by (induction lo k n s rule: greedy.induct)
    (auto simp: le_Suc_eq split: if_splits option.splits)

lemma greedy_iff:
  "greedy lo k (length s) s \<noteq> None \<longleftrightarrow> (\<exists>a b. s = a @ b \<and> lo \<le> length a \<and> k a b \<noteq> None)"
proof
  assume "greedy lo k (length s) s \<noteq> None"
  then obtain r where "greedy lo k (length s) s = Some r" by blast
  from greedy_Some [OF this] show "\<exists>a b. s = a @ b \<and> lo \<le> length a \<and> k a b \<noteq> None" by fastforce
next
  assume "\<exists>a b. s = a @ b \<and> lo \<le> length a \<and> k a b \<noteq> None"
  then show "greedy lo k (length s) s \<noteq> None" using greedy_None [of lo k "length s" s] by fastforce
qed

lemma dot_star_iff: "dot_star k s \<noteq> None \<longleftrightarrow> (\<exists>a b. s = a @ b \<and> k b \<noteq> None)"
  unfolding dot_star_def greedy_iff by simp

lemma dot_plus_iff: "dot_plus k s \<noteq> None \<longleftrightarrow> (\<exists>a b. s = a @ b \<and> a \<noteq> [] \<and> k a b \<noteq> None)"
  unfolding dot_plus_def greedy_iff by (simp add: Suc_le_eq)

lemma dot_star_Some: "dot_star k s = Some r \<Longrightarrow> \<exists>a b. s = a @ b \<and> k b = Some r"
  unfolding dot_star_def by (drule greedy_Some) auto

lemma dot_plus_Some: "dot_plus k s = Some r \<Longrightarrow> \<exists>a b. s = a @ b \<and> a \<noteq> [] \<and> k a b = Some r"
  unfolding dot_plus_def by (drule greedy_Some) fastforce+

lemma lit_Some: "lit p k s = Some r \<longleftrightarrow> (\<exists>t. s = p @ t \<and> k t = Some r)"
  by (auto simp: lit_def prefix_def)

lemma lit_iff: "lit p k s \<noteq> None \<longleftrightarrow> (\<exists>t. s = p @ t \<and> k t \<noteq> None)"
  by (auto simp: lit_def prefix_def)

lemma dot_star_E: "dot_star k s = Some r \<Longrightarrow> (\<And>a b. s = a @ b \<Longrightarrow> k b = Some r \<Longrightarrow> P) \<Longrightarrow> P"
  by (drule dot_star_Some) blast

lemma dot_plus_E: "dot_plus k s = Some r \<Longrightarrow> (\<And>a b. s = a @ b \<Longrightarrow> a \<noteq> [] \<Longrightarrow> k a b = Some r \<Longrightarrow> P) \<Longrightarrow> P"
  by (drule dot_plus_Some) blast

lemma lit_E: "lit p k s = Some r \<Longrightarrow> (\<And>t. s = p @ t \<Longrightarrow> k t = Some r \<Longrightarrow> P) \<Longrightarrow> P"
  by (auto simp: lit_Some)

lemma dot_star_I: "k b \<noteq> None \<Longrightarrow> dot_star k (a @ b) \<noteq> None"
  unfolding dot_star_iff by blast

lemma dot_plus_I: "a \<noteq> [] \<Longrightarrow> k a b \<noteq> None \<Longrightarrow> dot_plus k (a @ b) \<noteq> None"
  unfolding dot_plus_iff by blast

lemma lit_I: "k t \<noteq> None \<Longrightarrow> lit p k (p @ t) \<noteq> None"
  unfolding lit_iff by blast

text \<open>The three shapes, for any literals.\<close>

lemma star_star_plus_plus:
  fixes p q r t :: string
  defines "m \<equiv> dot_star (lit p (dot_star (lit q (dot_plus (\<lambda>_. lit r (dot_plus (\<lambda>name. lit t (\<lambda>_. Some name))))))))"
  shows "m s = Some name \<Longrightarrow> \<exists>a b c d. s = a @ p @ b @ q @ c @ r @ name @ t @ d \<and> c \<noteq> [] \<and> name \<noteq> []"
    and "c \<noteq> [] \<Longrightarrow> name \<noteq> [] \<Longrightarrow> s = a @ p @ b @ q @ c @ r @ name @ t @ d \<Longrightarrow> m s \<noteq> None"
proof -
  show "m s = Some name \<Longrightarrow> \<exists>a b c d. s = a @ p @ b @ q @ c @ r @ name @ t @ d \<and> c \<noteq> [] \<and> name \<noteq> []"
    unfolding m_def by (elim dot_star_E lit_E dot_plus_E, simp only: option.inject) (intro exI conjI, rule refl, (assumption | simp)+)
  show "c \<noteq> [] \<Longrightarrow> name \<noteq> [] \<Longrightarrow> s = a @ p @ b @ q @ c @ r @ name @ t @ d \<Longrightarrow> m s \<noteq> None"
    unfolding m_def by (simp only:, intro dot_star_I dot_plus_I lit_I) simp_all
qed

lemma star_plus_plus:
  fixes p q t :: string
  defines "m \<equiv> dot_star (lit p (dot_plus (\<lambda>_. lit q (dot_plus (\<lambda>name. lit t (\<lambda>_. Some name))))))"
  shows "m s = Some name \<Longrightarrow> \<exists>a b d. s = a @ p @ b @ q @ name @ t @ d \<and> b \<noteq> [] \<and> name \<noteq> []"
    and "b \<noteq> [] \<Longrightarrow> name \<noteq> [] \<Longrightarrow> s = a @ p @ b @ q @ name @ t @ d \<Longrightarrow> m s \<noteq> None"
proof -
  show "m s = Some name \<Longrightarrow> \<exists>a b d. s = a @ p @ b @ q @ name @ t @ d \<and> b \<noteq> [] \<and> name \<noteq> []"
    unfolding m_def by (elim dot_star_E lit_E dot_plus_E, simp only: option.inject) (intro exI conjI, rule refl, (assumption | simp)+)
  show "b \<noteq> [] \<Longrightarrow> name \<noteq> [] \<Longrightarrow> s = a @ p @ b @ q @ name @ t @ d \<Longrightarrow> m s \<noteq> None"
    unfolding m_def by (simp only:, intro dot_star_I dot_plus_I lit_I) simp_all
qed

lemma star_name_plus:
  fixes p q t :: string
  defines "m \<equiv> dot_star (lit p (dot_plus (\<lambda>name. lit q (dot_plus (\<lambda>_. lit t (\<lambda>_. Some name))))))"
  shows "m s = Some name \<Longrightarrow> \<exists>a b d. s = a @ p @ name @ q @ b @ t @ d \<and> b \<noteq> [] \<and> name \<noteq> []"
    and "b \<noteq> [] \<Longrightarrow> name \<noteq> [] \<Longrightarrow> s = a @ p @ name @ q @ b @ t @ d \<Longrightarrow> m s \<noteq> None"
proof -
  show "m s = Some name \<Longrightarrow> \<exists>a b d. s = a @ p @ name @ q @ b @ t @ d \<and> b \<noteq> [] \<and> name \<noteq> []"
    unfolding m_def by (elim dot_star_E lit_E dot_plus_E, simp only: option.inject) (intro exI conjI, rule refl, (assumption | simp)+)
  show "b \<noteq> [] \<Longrightarrow> name \<noteq> [] \<Longrightarrow> s = a @ p @ name @ q @ b @ t @ d \<Longrightarrow> m s \<noteq> None"
    unfolding m_def by (simp only:, intro dot_star_I dot_plus_I lit_I) simp_all
qed

text \<open>The lines the expressions accept, with the name of the command.\<close>

definition secprintf_form :: "string \<Rightarrow> string \<Rightarrow> bool" where
  "secprintf_form name s \<longleftrightarrow> (\<exists>a b c d.
     s = a @ ''secprintf('' @ b @ ''SECRET, '' @ c @ '', \"'' @ name @ ''\");'' @ d \<and> c \<noteq> [] \<and> name \<noteq> [])"

definition success_form :: "string \<Rightarrow> string \<Rightarrow> bool" where
  "success_form name s \<longleftrightarrow> (\<exists>a b d.
     s = a @ ''success('' @ b @ '', SECRET, \"'' @ name @ ''\");'' @ d \<and> b \<noteq> [] \<and> name \<noteq> [])"

definition partial_form :: "string \<Rightarrow> string \<Rightarrow> bool" where
  "partial_form name s \<longleftrightarrow> (\<exists>a b d.
     s = a @ ''partial_credit(SECRET, \"'' @ name @ ''\",'' @ b @ '');'' @ d \<and> b \<noteq> [] \<and> name \<noteq> [])"

definition secure_form :: "string \<Rightarrow> string \<Rightarrow> bool" where
  "secure_form name s \<longleftrightarrow> secprintf_form name s \<or> success_form name s \<or> partial_form name s"

lemma Exp_sound:
  "secprintfExp s = Some name \<Longrightarrow> secprintf_form name s"
  "successExp s = Some name \<Longrightarrow> success_form name s"
  "partialExp s = Some name \<Longrightarrow> partial_form name s"
proof -
  show "secprintfExp s = Some name \<Longrightarrow> secprintf_form name s"
    unfolding secprintfExp_def secprintf_form_def by (rule star_star_plus_plus(1))
  show "successExp s = Some name \<Longrightarrow> success_form name s"
    unfolding successExp_def success_form_def by (rule star_plus_plus(1))
  show "partialExp s = Some name \<Longrightarrow> partial_form name s"
    unfolding partialExp_def partial_form_def by (rule star_name_plus(1))
qed

lemma Exp_complete:
  "secprintf_form name s \<Longrightarrow> secprintfExp s \<noteq> None"
  "success_form name s \<Longrightarrow> successExp s \<noteq> None"
  "partial_form name s \<Longrightarrow> partialExp s \<noteq> None"
proof -
  show "secprintf_form name s \<Longrightarrow> secprintfExp s \<noteq> None"
    unfolding secprintfExp_def secprintf_form_def by (elim exE conjE, rule star_star_plus_plus(2))
  show "success_form name s \<Longrightarrow> successExp s \<noteq> None"
    unfolding successExp_def success_form_def by (elim exE conjE, rule star_plus_plus(2))
  show "partial_form name s \<Longrightarrow> partialExp s \<noteq> None"
    unfolding partialExp_def partial_form_def by (elim exE conjE, rule star_name_plus(2))
qed

lemma secure_name_sound: "secure_name line = Some name \<Longrightarrow> secure_form name line"
  unfolding secure_name_def secure_form_def by (auto split: option.splits dest: Exp_sound)

lemma secure_name_complete: "secure_form name line \<Longrightarrow> secure_name line \<noteq> None"
  using Exp_complete [of name line] unfolding secure_name_def secure_form_def by (auto split: option.splits)

text \<open>
  A line gets a key exactly when it has the form of a call of \<open>secprintf\<close>, \<open>success\<close> or
  \<open>partial_credit\<close> with the literal \<open>SECRET\<close> in its place and a quoted name, and the key is the one of
  a name the line is of the form for.
\<close>

theorem secure_name_iff:
  "(secure_name line \<noteq> None \<longleftrightarrow> (\<exists>name. secure_form name line)) \<and>
   (\<forall>name. secure_name line = Some name \<longrightarrow> secure_form name line)"
  using secure_name_sound secure_name_complete by blast

lemma secure_name_iff_witness:
  "\<exists>name. secure_name '' secprintf(SECRET, msg, \"/testbin/add\");'' = Some name \<and>
     secure_form name '' secprintf(SECRET, msg, \"/testbin/add\");''"
proof -
  have n: "secure_name '' secprintf(SECRET, msg, \"/testbin/add\");'' = Some ''/testbin/add''" by code_simp
  from secure_name_iff [THEN conjunct2, rule_format, OF n] n show ?thesis by (intro exI conjI)
qed

section \<open>One key for each command\<close>

definition secure_subst :: "keymap \<Rightarrow> string \<Rightarrow> string" where
  "secure_subst keys line =
     (case secure_name line of
        None \<Rightarrow> line
      | Some name \<Rightarrow> (case gm_get keys name of Some key \<Rightarrow> with_key key line | None \<Rightarrow> line))"

definition covered :: "keymap \<Rightarrow> string list \<Rightarrow> bool" where
  "covered keys ls \<longleftrightarrow> (\<forall>l\<in>set ls. \<forall>name. secure_name l = Some name \<longrightarrow> gm_has keys name)"

definition is_key :: "string \<Rightarrow> bool" where
  "is_key key \<longleftrightarrow> length key = 2 * KEYBYTES \<and> (\<forall>c\<in>set key. c \<in> set ''0123456789abcdef'')"

text \<open>\<open>rand.Read\<close> fills the whole buffer with bytes or fails.\<close>

definition fills :: "(string \<Rightarrow> nat \<Rightarrow> string + nat list) \<Rightarrow> bool" where
  "fills read \<longleftrightarrow> (\<forall>ident n bytes. read ident n = Inr bytes \<longrightarrow> length bytes = n \<and> (\<forall>b\<in>set bytes. b < 256))"

lemma hex_digit_in: "n < 16 \<Longrightarrow> hex_digit n \<in> set ''0123456789abcdef''"
proof -
  assume "n < 16"
  then have "n \<in> set [0..<16]" by simp
  moreover have "list_all (\<lambda>n. hex_digit n \<in> set ''0123456789abcdef'') [0..<16]" by code_simp
  ultimately show ?thesis unfolding list_all_iff by blast
qed

lemma newKey_is_key: "fills read \<Longrightarrow> newKey (read ident) KEYBYTES = Inr key \<Longrightarrow> is_key key"
proof -
  assume f: "fills read" and "newKey (read ident) KEYBYTES = Inr key"
  then obtain bytes where b: "read ident KEYBYTES = Inr bytes" "key = hex bytes" by (auto simp: newKey_def bind_ok_eq_Inr)
  with f have len: "length bytes = KEYBYTES" and small: "\<forall>b\<in>set bytes. b < 256" by (auto simp: fills_def)
  have "length (hex bs) = 2 * length bs" for bs by (induction bs) (simp_all add: hex_def)
  moreover have "\<forall>c\<in>set (hex bytes). c \<in> set ''0123456789abcdef''"
  proof
    fix c assume "c \<in> set (hex bytes)"
    then obtain x where x: "x \<in> set bytes" "c = hex_digit (x div 16) \<or> c = hex_digit (x mod 16)"
      by (auto simp: hex_def)
    with small have "x div 16 < 16" "x mod 16 < 16" by (auto simp: less_mult_imp_div_less)
    with x(2) hex_digit_in show "c \<in> set ''0123456789abcdef''" by blast
  qed
  ultimately show ?thesis using len unfolding is_key_def b(2) by simp
qed

lemma secure_line_ok:
  assumes "secure_line read line keys = Inr (line', keys')"
  shows "map_of keys \<subseteq>\<^sub>m map_of keys'" "line' = secure_subst keys' line" "covered keys' [line]"
    "gm_has keys' n \<Longrightarrow> gm_has keys n \<or> secure_name line = Some n"
    "fills read \<Longrightarrow> gm_get keys' n = Some k \<Longrightarrow> gm_get keys n = Some k \<or> is_key k"
proof -
  have "map_of keys \<subseteq>\<^sub>m map_of keys' \<and> line' = secure_subst keys' line \<and> covered keys' [line] \<and>
      (\<forall>n. gm_has keys' n \<longrightarrow> gm_has keys n \<or> secure_name line = Some n) \<and>
      (fills read \<longrightarrow> (\<forall>n k. gm_get keys' n = Some k \<longrightarrow> gm_get keys n = Some k \<or> is_key k))"
  proof (cases "secure_name line")
    case None
    with assms show ?thesis by (simp add: secure_line_def secure_subst_def covered_def)
  next
    case (Some name)
    show ?thesis
    proof (cases "gm_get keys name")
      case None
      with Some assms obtain key where key: "newKey (read name) KEYBYTES = Inr key" "keys' = gm_put name key keys"
        "line' = with_key key line"
        by (auto simp: secure_line_def getKey_def bind_ok_eq_Inr)
      with None Some newKey_is_key [of read name key] key(1) show ?thesis
        by (auto simp: secure_subst_def covered_def map_le_def)
    next
      case (Some key)
      with \<open>secure_name line = Some name\<close> assms show ?thesis
        by (simp add: secure_line_def getKey_def secure_subst_def covered_def gm_has_def)
    qed
  qed
  then show "map_of keys \<subseteq>\<^sub>m map_of keys'" "line' = secure_subst keys' line" "covered keys' [line]"
    "gm_has keys' n \<Longrightarrow> gm_has keys n \<or> secure_name line = Some n"
    "fills read \<Longrightarrow> gm_get keys' n = Some k \<Longrightarrow> gm_get keys n = Some k \<or> is_key k" by blast+
qed

lemma covered_mono: "map_of keys \<subseteq>\<^sub>m map_of keys' \<Longrightarrow> covered keys ls \<Longrightarrow> covered keys' ls"
  unfolding covered_def gm_has_def map_le_def by (metis domIff)

lemma secure_subst_mono:
  assumes "map_of keys \<subseteq>\<^sub>m map_of keys'" and "covered keys [l]"
  shows "secure_subst keys' l = secure_subst keys l"
proof (cases "secure_name l")
  case None
  then show ?thesis by (simp add: secure_subst_def)
next
  case (Some name)
  with assms(2) have "name \<in> dom (map_of keys)" by (auto simp: covered_def gm_has_def)
  with assms(1) have "map_of keys' name = map_of keys name" by (simp add: map_le_def)
  with Some show ?thesis by (simp add: secure_subst_def)
qed

lemma secure_substs_mono:
  "map_of keys \<subseteq>\<^sub>m map_of keys' \<Longrightarrow> covered keys ls \<Longrightarrow> map (secure_subst keys') ls = map (secure_subst keys) ls"
  by (rule map_cong [OF refl], rule secure_subst_mono) (auto simp: covered_def)

section \<open>The goroutines of the files\<close>

text \<open>
  The same loop as steps: any goroutine processes its next line, the lock makes the step on the keys
  one. Random bytes are whatever the source gives.
\<close>

record worker =
  wk_todo :: "string list"
  wk_out :: "string list"

record overlay_run =
  ov_keys :: keymap
  ov_worker :: "string \<Rightarrow> worker"

definition overlay_init :: "keymap \<Rightarrow> (string \<Rightarrow> string list) \<Rightarrow> overlay_run \<Rightarrow> bool" where
  "overlay_init keys ls s \<longleftrightarrow> s = \<lparr>ov_keys = keys, ov_worker = (\<lambda>f. \<lparr>wk_todo = ls f, wk_out = []\<rparr>)\<rparr>"

inductive overlay_step :: "overlay_run \<Rightarrow> overlay_run \<Rightarrow> bool" where
  overlay_line: "wk_todo (ov_worker s f) = l # ls \<Longrightarrow> fills read \<Longrightarrow>
    secure_line read l (ov_keys s) = Inr (l', keys) \<Longrightarrow>
    overlay_step s \<lparr>ov_keys = keys,
      ov_worker = (ov_worker s)(f := \<lparr>wk_todo = ls, wk_out = wk_out (ov_worker s f) @ [l']\<rparr>)\<rparr>"

definition worker_ok :: "keymap \<Rightarrow> string list \<Rightarrow> worker \<Rightarrow> bool" where
  "worker_ok keys ls wk \<longleftrightarrow>
     (\<exists>dn. ls = dn @ wk_todo wk \<and> wk_out wk = map (secure_subst keys) dn \<and> covered keys dn)"

definition keys_ok :: "keymap \<Rightarrow> (string \<Rightarrow> string list) \<Rightarrow> keymap \<Rightarrow> bool" where
  "keys_ok keys0 ls keys \<longleftrightarrow>
     map_of keys0 \<subseteq>\<^sub>m map_of keys \<and>
     (\<forall>n k. gm_get keys n = Some k \<longrightarrow> gm_get keys0 n = Some k \<or> is_key k) \<and>
     (\<forall>n. gm_has keys n \<longrightarrow> gm_has keys0 n \<or> (\<exists>f. \<exists>l\<in>set (ls f). secure_name l = Some n))"

definition overlay_inv :: "keymap \<Rightarrow> (string \<Rightarrow> string list) \<Rightarrow> overlay_run \<Rightarrow> bool" where
  "overlay_inv keys0 ls s \<longleftrightarrow>
     (\<forall>f. worker_ok (ov_keys s) (ls f) (ov_worker s f)) \<and> keys_ok keys0 ls (ov_keys s)"

lemma worker_ok_mono: "map_of keys \<subseteq>\<^sub>m map_of keys' \<Longrightarrow> worker_ok keys ls wk \<Longrightarrow> worker_ok keys' ls wk"
  unfolding worker_ok_def using secure_substs_mono covered_mono by metis

lemma worker_ok_step:
  assumes "worker_ok keys ls wk" and "wk_todo wk = l # rest" and "map_of keys \<subseteq>\<^sub>m map_of keys'"
    and "covered keys' [l]"
  shows "worker_ok keys' ls \<lparr>wk_todo = rest, wk_out = wk_out wk @ [secure_subst keys' l]\<rparr>"
proof -
  from worker_ok_mono [OF assms(3,1)] obtain dn where
    "ls = dn @ wk_todo wk" "wk_out wk = map (secure_subst keys') dn" "covered keys' dn"
    by (auto simp: worker_ok_def)
  with assms(2,4) show ?thesis
    unfolding worker_ok_def by (intro exI [of _ "dn @ [l]"]) (auto simp: covered_def)
qed

interpretation overlay: step_system "overlay_init keys0 ls" overlay_step "overlay_inv keys0 ls" for keys0 ls
proof
  fix s assume "overlay_init keys0 ls s"
  then show "overlay_inv keys0 ls s"
    by (auto simp: overlay_init_def overlay_inv_def worker_ok_def keys_ok_def covered_def)
next
  fix s t assume "overlay_step s t" and inv: "overlay_inv keys0 ls s"
  then show "overlay_inv keys0 ls t"
  proof cases
    case (overlay_line f l rest read l' keys)
    note L = secure_line_ok [OF overlay_line(4)]
    have W: "worker_ok (ov_keys s) (ls j) (ov_worker s j)" for j using inv by (simp add: overlay_inv_def)
    have l: "l \<in> set (ls f)" using W [of f] overlay_line(2) by (auto simp: worker_ok_def)
    have "worker_ok (ov_keys t) (ls j) (ov_worker t j)" for j
    proof (cases "j = f")
      case True
      with worker_ok_step [OF W overlay_line(2) L(1) L(3)] show ?thesis by (simp add: overlay_line(1) L(2))
    next
      case False
      with worker_ok_mono [OF L(1) W] show ?thesis by (simp add: overlay_line(1))
    qed
    moreover have "keys_ok keys0 ls keys"
      using inv L(1,4) L(5) [OF overlay_line(3)] l
      unfolding overlay_inv_def keys_ok_def by (blast intro: map_le_trans)
    ultimately show ?thesis by (simp add: overlay_inv_def overlay_line(1))
  qed
qed

text \<open>
  C13. However the goroutines of the trusted files interleave: when all lines are processed, every
  file is the original with each secure line rewritten under one final map of keys, in which every
  command that occurs has a key of 64 hexadecimal digits, and no other command got one. A key that
  is in the map stays the same from then on.
\<close>

theorem overlay_keys:
  assumes "reachable (overlay_init [] ls) overlay_step s"
  shows "(\<forall>f. wk_todo (ov_worker s f) = [] \<longrightarrow> wk_out (ov_worker s f) = map (secure_subst (ov_keys s)) (ls f)) \<and>
    (\<forall>f l n. wk_todo (ov_worker s f) = [] \<and> l \<in> set (ls f) \<and> secure_name l = Some n \<longrightarrow>
       (\<exists>key. gm_get (ov_keys s) n = Some key \<and> is_key key)) \<and>
    (\<forall>n. gm_has (ov_keys s) n \<longrightarrow> (\<exists>f. \<exists>l\<in>set (ls f). secure_name l = Some n)) \<and>
    (\<forall>t. overlay_step\<^sup>*\<^sup>* s t \<longrightarrow> map_of (ov_keys s) \<subseteq>\<^sub>m map_of (ov_keys t))"
proof (intro conjI allI impI)
  from overlay.reachable_inv [OF assms] have W: "worker_ok (ov_keys s) (ls f) (ov_worker s f)"
    and K: "keys_ok [] ls (ov_keys s)" for f by (simp_all add: overlay_inv_def)
  fix f assume todo: "wk_todo (ov_worker s f) = []"
  with W [of f] show "wk_out (ov_worker s f) = map (secure_subst (ov_keys s)) (ls f)" by (auto simp: worker_ok_def)
next
  from overlay.reachable_inv [OF assms] have W: "worker_ok (ov_keys s) (ls f) (ov_worker s f)"
    and K: "keys_ok [] ls (ov_keys s)" for f by (simp_all add: overlay_inv_def)
  fix f l n assume a: "wk_todo (ov_worker s f) = [] \<and> l \<in> set (ls f) \<and> secure_name l = Some n"
  with W [of f] have "gm_has (ov_keys s) n" by (auto simp: worker_ok_def covered_def)
  with K show "\<exists>key. gm_get (ov_keys s) n = Some key \<and> is_key key" by (auto simp: keys_ok_def gm_has_def)
next
  from overlay.reachable_inv [OF assms] have K: "keys_ok [] ls (ov_keys s)" by (simp add: overlay_inv_def)
  fix n assume "gm_has (ov_keys s) n"
  with K show "\<exists>f. \<exists>l\<in>set (ls f). secure_name l = Some n" by (auto simp: keys_ok_def gm_has_def)
next
  fix t assume "overlay_step\<^sup>*\<^sup>* s t"
  then show "map_of (ov_keys s) \<subseteq>\<^sub>m map_of (ov_keys t)"
    by (induction rule: rtranclp_induct)
      (auto elim!: overlay_step.cases intro: map_le_trans [OF _ secure_line_ok(1)])
qed

section \<open>A file on its own\<close>

lemma write_ok: "wr i = None \<Longrightarrow> sc_error st = None \<Longrightarrow>
  write_line wr i line st = st\<lparr>sc_written := sc_written st @ line @ [CHR 0x0A]\<rparr>"
  by (simp add: write_line_def)

lemma write_line_keeps [simp]:
  "sc_keys (write_line wr i line st) = sc_keys st" "sc_returned (write_line wr i line st) = sc_returned st"
  by (simp_all add: write_line_def Let_def split: option.splits)

lemma write_line_msgs: "\<exists>more. sc_msgs (write_line wr i line st) = sc_msgs st @ more"
  by (auto simp: write_line_def Let_def split: option.splits)

lemma secure_loop_msgs: "\<exists>more. sc_msgs (secure_loop read wr i ls st) = sc_msgs st @ more"
proof (induction ls arbitrary: i st)
  case Nil
  then show ?case by simp
next
  case (Cons l ls)
  show ?case
  proof (cases "secure_line read l (sc_keys st)")
    case (Inl e)
    then show ?thesis by simp
  next
    case (Inr r)
    obtain l' keys where r: "r = (l', keys)" by (cases r)
    let ?st = "write_line wr i l' (st\<lparr>sc_keys := keys\<rparr>)"
    from Cons.IH [of "Suc i" ?st] write_line_msgs [of wr i l' "st\<lparr>sc_keys := keys\<rparr>"]
    obtain more more' where "sc_msgs (secure_loop read wr (Suc i) ls ?st) = sc_msgs ?st @ more"
      "sc_msgs ?st = sc_msgs st @ more'" by auto
    then show ?thesis by (simp add: Inr r)
  qed
qed

lemma secure_loop_returned:
  "sc_returned (secure_loop read wr i ls st) \<Longrightarrow> \<not> sc_returned st \<Longrightarrow>
   \<exists>ms e. sc_msgs (secure_loop read wr i ls st) = ms @ [Some e]"
proof (induction ls arbitrary: i st)
  case Nil
  then show ?case by simp
next
  case (Cons l ls)
  show ?case
  proof (cases "secure_line read l (sc_keys st)")
    case (Inl e)
    then show ?thesis by simp
  next
    case (Inr r)
    obtain l' keys where "r = (l', keys)" by (cases r)
    with Cons Inr show ?thesis by simp
  qed
qed

text \<open>A loop that sent nothing wrote every line under its last keys.\<close>

lemma secure_loop_quiet:
  assumes "sc_msgs (secure_loop read wr i ls st) = []" and "sc_error st = None"
  shows "sc_written (secure_loop read wr i ls st) =
      sc_written st @ unlines (map (secure_subst (sc_keys (secure_loop read wr i ls st))) ls) \<and>
    map_of (sc_keys st) \<subseteq>\<^sub>m map_of (sc_keys (secure_loop read wr i ls st)) \<and>
    covered (sc_keys (secure_loop read wr i ls st)) ls \<and>
    sc_returned (secure_loop read wr i ls st) = sc_returned st"
  using assms
proof (induction ls arbitrary: i st)
  case Nil
  then show ?case by (simp add: unlines_def covered_def)
next
  case (Cons l ls)
  from Cons.prems(1) obtain l' keys where line: "secure_line read l (sc_keys st) = Inr (l', keys)"
    by (cases "secure_line read l (sc_keys st)") (auto split: prod.splits)
  let ?mid = "st\<lparr>sc_keys := keys\<rparr>" and ?st = "write_line wr i l' (st\<lparr>sc_keys := keys\<rparr>)"
  let ?fin = "secure_loop read wr (Suc i) ls ?st"
  have run: "secure_loop read wr i (l # ls) st = ?fin" using line by simp
  have quiet: "sc_msgs ?fin = []" using Cons.prems(1) run by simp
  with secure_loop_msgs [of read wr "Suc i" ls ?st] have "sc_msgs ?st = []" by auto
  then have wr: "wr i = None" using Cons.prems(2) by (auto simp: write_line_def split: option.splits)
  then have st: "?st = ?mid\<lparr>sc_written := sc_written st @ l' @ [CHR 0x0A]\<rparr>"
    using Cons.prems(2) by (simp add: write_ok)
  then have "sc_error ?st = None" using Cons.prems(2) by simp
  note IH = Cons.IH [OF quiet this] and L = secure_line_ok [OF line]
  have up: "map_of keys \<subseteq>\<^sub>m map_of (sc_keys ?fin)" using IH by simp
  have "l' = secure_subst (sc_keys ?fin) l" using secure_subst_mono [OF up L(3)] L(2) by simp
  moreover have "covered (sc_keys ?fin) (l # ls)"
    using covered_mono [OF up L(3)] IH by (auto simp: covered_def)
  moreover have "map_of (sc_keys st) \<subseteq>\<^sub>m map_of (sc_keys ?fin)" using map_le_trans [OF L(1) up] .
  moreover have "sc_written ?st = sc_written st @ l' @ [CHR 0x0A]" "sc_returned ?st = sc_returned st"
    by (simp_all add: st)
  ultimately show ?case unfolding run using IH by (simp add: unlines_def)
qed

text \<open>
  When the goroutine of a file reports no error, it has rewritten the file: each of its lines,
  under a map of keys that extends the one before and has a key for every command the file names;
  the temporary file took the place of the original and no other file changed.
\<close>

theorem overlay_file_rewritten:
  assumes "doSecureOverlayFile fl read wr srcDir filename (fs, keys) = ([None], fs', keys')"
    and "TrimSpace filename \<noteq> []"
  shows "\<exists>data ls. fs (path_Join [srcDir, filename]) = Some (File data) \<and> scan_lines data = (ls, None) \<and>
    fs' (path_Join [srcDir, filename]) = Some (File (unlines (map (secure_subst keys') ls))) \<and>
    map_of keys \<subseteq>\<^sub>m map_of keys' \<and> covered keys' ls \<and>
    (\<forall>q. q \<noteq> path_Join [srcDir, filename] \<and> q \<noteq> path_Join [srcDir, filename @ ''.tmp''] \<longrightarrow> fs' q = fs q)"
proof -
  define path where "path = path_Join [srcDir, filename]"
  define out where "out = path_Join [srcDir, filename @ ''.tmp'']"
  define st0 where "st0 = \<lparr>sc_written = [], sc_msgs = [], sc_keys = keys, sc_error = None, sc_returned = False\<rparr>"
  note run = assms(1) [unfolded doSecureOverlayFile_def prod.case if_not_P [OF assms(2)] Let_def,
      folded path_def out_def st0_def]
  from run obtain data where data: "ioutil_ReadFile fl path fs = Inr data"
    by (cases "ioutil_ReadFile fl path fs") simp_all
  with run obtain fs1 where fs1: "os_Create fl out fs = Inr fs1" by (cases "os_Create fl out fs") simp_all
  obtain ls scanErr where ls: "scan_lines data = (ls, scanErr)" by (cases "scan_lines data")
  define st where "st = secure_loop read wr 0 ls st0"
  define fs3 where "fs3 = ignoring (os_Remove fl path) (fs1(out \<mapsto> File (sc_written st)))"
  note run = run [unfolded data fs1 ls sum.case prod.case, folded st_def, folded fs3_def]
  have "\<not> sc_returned st"
  proof
    assume r: "sc_returned st"
    with run have "sc_msgs st = [None]" by simp
    with secure_loop_returned [of read wr 0 ls st0, folded st_def, OF r] show False by (auto simp: st0_def)
  qed
  note run = run [unfolded if_not_P [OF this]]
  from run obtain fs4 where ren: "os_Rename fl out path fs3 = Inr fs4" by (cases "os_Rename fl out path fs3") simp_all
  note run = run [unfolded ren sum.case]
  from run have quiet: "sc_msgs st = []" "scanErr = None" and fs': "fs' = fs4" "keys' = sc_keys st"
    by (auto split: option.splits)
  note Q = secure_loop_quiet [of read wr 0 ls st0, folded st_def, OF quiet(1)]
  from Rename_ok [OF ren] obtain f where f: "fs3 out = Some f" "fs4 = (fs3(out := None))(path \<mapsto> f)" by blast
  have fs1': "fs1 = fs(out \<mapsto> File [])" by (rule Create_ok [OF fs1])
  from ignoring_Remove [of fl path "fs1(out \<mapsto> File (sc_written st))", folded fs3_def]
  have fs3: "fs3 = fs(out \<mapsto> File (sc_written st)) \<or> fs3 = (fs(out \<mapsto> File (sc_written st)))(path := None)"
    by (simp add: fs1')
  with f(1) have "f = File (sc_written st)" by (auto split: if_splits)
  moreover have "sc_written st = unlines (map (secure_subst keys') ls)" using Q by (simp add: fs' st0_def)
  ultimately have "fs' path = Some (File (unlines (map (secure_subst keys') ls)))" by (simp add: fs' f(2))
  moreover have "\<forall>q. q \<noteq> path \<and> q \<noteq> out \<longrightarrow> fs' q = fs q" using fs3 by (auto simp: fs' f(2))
  moreover have "map_of keys \<subseteq>\<^sub>m map_of keys'" "covered keys' ls" using Q by (simp_all add: fs' st0_def)
  ultimately show ?thesis
    using ReadFile_ok [OF data] ls quiet(2) unfolding path_def out_def by blast
qed

section \<open>Concrete overlays\<close>

definition no_faults :: faults where
  "no_faults = (\<lambda>_ _. None)"

definition zero_bytes :: "string \<Rightarrow> nat \<Rightarrow> string + nat list" where
  "zero_bytes ident n = Inr (replicate n 0)"

definition add_source :: string where
  "add_source = unlines [''success(0, SECRET, \"add\");'']"

definition overlay_fs :: fs where
  "overlay_fs = (\<lambda>p. if p = ''/src'' then Some Dir else if p = ''/src/add.c'' then Some (File add_source) else None)"

lemma overlay_keys_witness:
  "\<exists>s key. reachable (overlay_init [] (\<lambda>f. if f = ''add.c'' then [''success(0, SECRET, \"add\");''] else [])) overlay_step s \<and>
     gm_get (ov_keys s) ''add'' = Some key \<and> is_key key"
proof -
  let ?ls = "\<lambda>f. if f = ''add.c'' then [''success(0, SECRET, \"add\");''] else []"
  define s0 where "s0 = \<lparr>ov_keys = [], ov_worker = (\<lambda>f. \<lparr>wk_todo = ?ls f, wk_out = []\<rparr>)\<rparr>"
  have fills: "fills zero_bytes" by (auto simp: fills_def zero_bytes_def)
  have name: "secure_name ''success(0, SECRET, \"add\");'' = Some ''add''" by code_simp
  then obtain l' keys where line: "secure_line zero_bytes ''success(0, SECRET, \"add\");'' [] = Inr (l', keys)"
    by (simp add: secure_line_def getKey_def newKey_def zero_bytes_def)
  define s1 where "s1 = \<lparr>ov_keys = keys, ov_worker = (ov_worker s0)(''add.c'' := \<lparr>wk_todo = [], wk_out = [l']\<rparr>)\<rparr>"
  have "overlay_step s0 s1"
    using overlay_line [of s0 "''add.c''", OF _ fills, of "''success(0, SECRET, \"add\");''" "[]" l' keys] line
    by (simp add: s0_def s1_def)
  moreover have "reachable (overlay_init [] ?ls) overlay_step s0"
    by (rule reach_init) (simp add: overlay_init_def s0_def)
  ultimately have r: "reachable (overlay_init [] ?ls) overlay_step s1" by (rule reach_step [rotated])
  have "wk_todo (ov_worker s1 ''add.c'') = []" by (simp add: s1_def)
  with overlay_keys [OF r, THEN conjunct2, THEN conjunct1, rule_format, of "''add.c''" "''success(0, SECRET, \"add\");''" "''add''"] name
  obtain key where "gm_get (ov_keys s1) ''add'' = Some key" "is_key key" by auto
  with r show ?thesis by (intro exI conjI)
qed

lemma overlay_file_rewritten_witness:
  "\<exists>fs' keys'. doSecureOverlayFile no_faults zero_bytes (\<lambda>_. None) ''/src'' ''add.c'' (overlay_fs, []) = ([None], fs', keys') \<and>
     covered keys' [''success(0, SECRET, \"add\");'']"
proof -
  let ?l = "''success(0, SECRET, \"add\");''" and ?tmp = "''/src/add.c.tmp''"
  have path: "path_Join [''/src'', ''add.c''] = ''/src/add.c''" "path_Join [''/src'', ''add.c'' @ ''.tmp''] = ?tmp"
    "path_Dir ?tmp = ''/src''" by code_simp+
  have trim: "TrimSpace ''add.c'' \<noteq> []" by code_simp
  have src: "ioutil_ReadFile no_faults ''/src/add.c'' overlay_fs = Inr add_source"
    by (simp add: ioutil_ReadFile_def io_guard_def no_faults_def overlay_fs_def)
  have create: "os_Create no_faults ?tmp overlay_fs = Inr (overlay_fs(?tmp \<mapsto> File []))"
    by (simp add: os_Create_def io_guard_def no_faults_def overlay_fs_def path(3))
  have ls: "scan_lines add_source = ([?l], None)" unfolding add_source_def by (rule scan_unlines) simp
  have name: "secure_name ?l = Some ''add''" by code_simp
  then obtain l' keys where line: "secure_line zero_bytes ?l [] = Inr (l', keys)"
    by (simp add: secure_line_def getKey_def newKey_def zero_bytes_def)
  define st where "st = \<lparr>sc_written = l' @ [CHR 0x0A], sc_msgs = [], sc_keys = keys, sc_error = None, sc_returned = False\<rparr>"
  have loop: "secure_loop zero_bytes (\<lambda>_. None) 0 [?l]
      \<lparr>sc_written = [], sc_msgs = [], sc_keys = [], sc_error = None, sc_returned = False\<rparr> = st"
    unfolding secure_loop.simps scan_state.simps line by (simp add: write_ok st_def)
  have st: "sc_returned st = False" "sc_keys st = keys" "sc_msgs st = []" "sc_written st = l' @ [CHR 0x0A]"
    by (simp_all add: st_def)
  have "\<exists>fs4. os_Rename no_faults ?tmp ''/src/add.c'' (ignoring (os_Remove no_faults ''/src/add.c'')
      ((overlay_fs(?tmp \<mapsto> File []))(?tmp \<mapsto> File (sc_written st)))) = Inr fs4"
    by (simp add: os_Rename_def ignoring_def os_Remove_def io_guard_def no_faults_def overlay_fs_def)
  then obtain fs4 where ren: "os_Rename no_faults ?tmp ''/src/add.c'' (ignoring (os_Remove no_faults ''/src/add.c'')
      ((overlay_fs(?tmp \<mapsto> File []))(?tmp \<mapsto> File (sc_written st)))) = Inr fs4" ..
  have r: "doSecureOverlayFile no_faults zero_bytes (\<lambda>_. None) ''/src'' ''add.c'' (overlay_fs, []) = ([None], fs4, keys)"
    unfolding doSecureOverlayFile_def prod.case if_not_P [OF trim] Let_def path src sum.case create ls loop st(1) if_False
      option.case append_Nil2 ren st(2,3) append_Nil ..
  from overlay_file_rewritten [OF r trim, unfolded path] obtain data l where
    "overlay_fs ''/src/add.c'' = Some (File data)" and l: "scan_lines data = (l, None)" "covered keys l"
    by (elim exE conjE)
  then have "data = add_source" using ReadFile_ok [OF src] by (simp only: option.inject entry.inject)
  with l ls have "covered keys [?l]" by (simp only: prod.inject)
  with r show ?thesis by (intro exI conjI)
qed

end
