(* ===== verification/Build.thy ===== *)
theory Build
  imports SecureOverlay Samples
begin

text \<open>
  Building a student's kernel (\<open>build.go\<close>): the plan of commands a configuration gives, the run of the
  plan, and the handlers that look at the output of a command or at the source tree after it.

  A subprocess is a function of its words, its directory, the environment variables and the files,
  to its output, its error and the files after it. The goroutines of the overlay run one after the
  other here, in the order \<open>bw_order\<close>; \<open>overlay_keys\<close> treats any interleaving.
\<close>

record BuildConf =
  cf_Repo :: string
  cf_CommitID :: string
  cf_KConfig :: string
  cf_RequiredCommit :: string
  cf_CacheDir :: string
  cf_RequiresUserland :: bool
  cf_Overlay :: string
  cf_Users :: "string list"

datatype build_handler = CommitCheck | OverlayFiles | OverlayCommit

record BuildCommand =
  bc_ID :: string
  bc_Type :: string
  bc_Input :: InputLine
  bc_PointsAvailable :: uint
  bc_PointsEarned :: uint
  bc_Output :: "OutputLine list"
  bc_Status :: CommandStatus
  bc_startDir :: string
  bc_handler :: "build_handler option"

record BuildTest =
  bt_ID :: string
  bt_SubmissionID :: string
  bt_Name :: string
  bt_Description :: string
  bt_Commands :: "BuildCommand list"
  bt_Result :: TestResult
  bt_DependencyID :: string
  bt_IsDependency :: bool
  bt_PointsAvailable :: uint
  bt_PointsEarned :: uint
  bt_ScoringMethod :: string
  bt_dir :: string
  bt_wasCached :: bool
  bt_isTempDir :: bool
  bt_srcDir :: string
  bt_rootDir :: string
  bt_conf :: BuildConf
  bt_env :: TestEnvironment
  bt_cmdEnv :: "string list"
  bt_overlayCommitID :: string
  bt_notes :: "(entity \<times> notify_msg \<times> nat) list"

record BuildResults =
  br_RootDir :: string
  br_TempDir :: string

record BuildWorld =
  bw_faults :: faults
  bw_exec :: "string list \<Rightarrow> string \<Rightarrow> string list \<Rightarrow> fs \<Rightarrow> string \<times> string option \<times> fs"
  bw_uuid :: "nat \<Rightarrow> string"
  bw_TempDir :: "string + string"
  bw_sha256 :: "string \<Rightarrow> nat list"
  bw_rand :: "string \<Rightarrow> nat \<Rightarrow> string + nat list"
  bw_write :: "string \<Rightarrow> nat \<Rightarrow> string option"
  bw_order :: "string list \<Rightarrow> string list"
  bw_Environ :: "string list"

section \<open>The plan\<close>

definition GetDeployKeySSHCmd :: "BuildWorld \<Rightarrow> fs \<Rightarrow> string list \<Rightarrow> string \<Rightarrow> string" where
  "GetDeployKeySSHCmd w fs users keyDir =
     (let keyfiles = filter (\<lambda>k. exists_file (bw_faults w) k fs)
            (map (\<lambda>user. path_Join [path_Join [keyDir, user], ''id_rsa'']) users)
      in if keyfiles = [] then []
         else ''GIT_SSH_COMMAND=ssh -o StrictHostKeyChecking=no -o IdentitiesOnly=yes'' @
              concat (map (\<lambda>key. '' -i '' @ key) keyfiles))"

definition notify :: "entity \<Rightarrow> notify_msg \<Rightarrow> nat \<Rightarrow> BuildTest \<Rightarrow> BuildTest" where
  "notify e msg what t = t\<lparr>bt_notes := bt_notes t @ [(e, msg, what)]\<rparr>"

definition addCommand :: "BuildWorld \<Rightarrow> string \<Rightarrow> string \<Rightarrow> build_handler option \<Rightarrow> BuildTest \<Rightarrow> BuildTest" where
  "addCommand w cmdLine dir h t =
     t\<lparr>bt_Commands := bt_Commands t @
        [\<lparr>bc_ID = bw_uuid w (Suc (length (bt_Commands t))), bc_Type = ''build'',
          bc_Input = \<lparr>in_WallTime = 0, in_SimTime = 0, in_Line = cmdLine\<rparr>, bc_PointsAvailable = 0,
          bc_PointsEarned = 0, bc_Output = [], bc_Status = COMMAND_STATUS_NONE, bc_startDir = dir,
          bc_handler = h\<rparr>]\<rparr>"

text \<open>The directories: a cached one per repository, or a temporary one.\<close>

definition initDirs :: "BuildWorld \<Rightarrow> BuildTest \<Rightarrow> fs \<Rightarrow> string + BuildTest \<times> fs" where
  "initDirs w t fs =
     (let cache = cf_CacheDir (bt_conf t);
          set_dirs = (\<lambda>tmp d. t\<lparr>bt_isTempDir := tmp, bt_dir := d, bt_srcDir := path_Join [d, ''src''],
                                bt_rootDir := path_Join [d, ''root'']\<rparr>)
      in if cache \<noteq> [] \<and> exists_file (bw_faults w) cache fs then
           (let d = path_Join [cache, hex (bw_sha256 w (cf_Repo (bt_conf t)))]
            in if exists_file (bw_faults w) d fs then Inr (set_dirs False d, fs)
               else bind_ok (os_Mkdir (bw_faults w) d fs) (\<lambda>fs'. Inr (set_dirs False d, fs')))
         else bind_ok (bw_TempDir w) (\<lambda>d. Inr (set_dirs True d, fs(d \<mapsto> Dir))))"

definition addGitCommands :: "BuildWorld \<Rightarrow> fs \<Rightarrow> BuildTest \<Rightarrow> BuildTest" where
  "addGitCommands w fs t =
     (let src = bt_srcDir t;
          t1 = (if exists_file (bw_faults w) src fs
                then (addCommand w ''git fetch'' src None (addCommand w ''git clean -d -f'' src None
                       (addCommand w ''git reset --hard'' src None t)))\<lparr>bt_wasCached := True\<rparr>
                else addCommand w (''git clone '' @ cf_Repo (bt_conf t) @ '' src'') (bt_dir t) None t);
          t2 = addCommand w (''git checkout '' @ cf_CommitID (bt_conf t)) src None t1
      in if cf_RequiredCommit (bt_conf t) \<noteq> []
         then addCommand w ''git log --pretty=format:%H'' src (Some CommitCheck) t2 else t2)"

definition addOverlayCommand :: "BuildWorld \<Rightarrow> fs \<Rightarrow> BuildTest \<Rightarrow> BuildTest" where
  "addOverlayCommand w fs t =
     (let overlayPath = path_Join [env_OverlayRoot (bt_env t), cf_Overlay (bt_conf t)]
      in if cf_Overlay (bt_conf t) = [] \<or> \<not> exists_file (bw_faults w) overlayPath fs then t
         else addCommand w ''git rev-parse HEAD'' (env_OverlayRoot (bt_env t)) (Some OverlayCommit)
               (addCommand w ''sync'' (bt_srcDir t) (Some OverlayFiles)
                 (addCommand w (''rsync -r '' @ overlayPath @ ''/ '' @ bt_srcDir t) (bt_srcDir t) None t)))"

definition build_lines :: "BuildTest \<Rightarrow> (string \<times> string) list" where
  "build_lines t =
     (let src = bt_srcDir t; kconf = cf_KConfig (bt_conf t);
          confDir = path_Join [src, ''kern/conf''];
          compDir = path_Join [path_Join [src, ''kern/compile''], kconf]
      in [(''./configure --ostree='' @ bt_rootDir t, src)] @
         (if cf_RequiresUserland (bt_conf t)
          then [(''bmake clean'', src), (''bmake'', src), (''bmake install'', src)] else []) @
         [(''./config '' @ kconf, confDir), (''bmake clean'', compDir), (''bmake depend'', compDir),
          (''bmake'', compDir), (''bmake install'', compDir)])"

definition addBuildCommands :: "BuildWorld \<Rightarrow> BuildTest \<Rightarrow> fs \<Rightarrow> BuildTest \<times> fs" where
  "addBuildCommands w t fs =
     (let compDir = path_Join [path_Join [bt_srcDir t, ''kern/compile''], cf_KConfig (bt_conf t)]
      in (fold (\<lambda>(l, d). addCommand w l d None) (build_lines t) t,
          ignoring (os_RemoveAll (bw_faults w) compDir) fs))"

definition new_build :: "BuildWorld \<Rightarrow> BuildConf \<Rightarrow> TestEnvironment \<Rightarrow> BuildTest" where
  "new_build w b env =
     \<lparr>bt_ID = bw_uuid w 0, bt_SubmissionID = [], bt_Name = ''build'', bt_Description = ''Clone Git repository and build kernel'',
      bt_Commands = [], bt_Result = TEST_RESULT_NONE, bt_DependencyID = ''build'', bt_IsDependency = True,
      bt_PointsAvailable = 0, bt_PointsEarned = 0, bt_ScoringMethod = TEST_SCORING_ENTIRE, bt_dir = [],
      bt_wasCached = False, bt_isTempDir = False, bt_srcDir = [], bt_rootDir = [], bt_conf = b,
      bt_env = env, bt_cmdEnv = [], bt_overlayCommitID = [], bt_notes = []\<rparr>"

definition ToBuildTest :: "BuildWorld \<Rightarrow> BuildConf \<Rightarrow> TestEnvironment \<Rightarrow> fs \<Rightarrow> string + BuildTest \<times> fs" where
  "ToBuildTest w b env fs =
     bind_ok (initDirs w (new_build w b env) fs) (\<lambda>(t, fs1).
       Inr (addBuildCommands w (addOverlayCommand w fs1 (addGitCommands w fs1 t)) fs1))"

definition RootDir :: "BuildTest \<Rightarrow> string" where
  "RootDir t = bt_rootDir t"

section \<open>Running a command\<close>

definition out_line :: "nat \<Rightarrow> string \<Rightarrow> OutputLine" where
  "out_line i l = \<lparr>ol_WallTime = of_nat i, ol_SimTime = of_nat i, ol_Buffer = [], ol_Line = l,
     ol_Trusted = False, ol_KeyName = []\<rparr>"

definition makeLines :: "string \<Rightarrow> OutputLine list" where
  "makeLines rawoutput = map (\<lambda>(i, l). out_line i l) (enumerate 0 (Split CHR 0x0A rawoutput))"

definition commitCheckHandler :: "BuildTest \<Rightarrow> BuildCommand \<Rightarrow> string option" where
  "commitCheckHandler t command =
     (if \<exists>l\<in>set (bc_Output command). cf_RequiredCommit (bt_conf t) = ol_Line l then None
      else Some ''Cannot find required commit id'')"

definition isHexString :: "string \<Rightarrow> bool" where
  "isHexString s \<longleftrightarrow> s \<noteq> [] \<and> list_all (\<lambda>c. c \<in> set ''0123456789abcdefABCDEF'') s"

definition overlayCommitHandler :: "BuildTest \<Rightarrow> BuildCommand \<Rightarrow> string option \<times> BuildTest" where
  "overlayCommitHandler t command =
     (case find (\<lambda>l. ol_Line l \<noteq> [] \<and> isHexString (ol_Line l)) (bc_Output command) of
        Some l \<Rightarrow> (None, t\<lparr>bt_overlayCommitID := ol_Line l\<rparr>)
      | None \<Rightarrow> (Some ''Unable to get commit ID of overlay directory'', t))"

text \<open>The files a list names, without blank lines.\<close>

definition named_files :: "string \<Rightarrow> string list" where
  "named_files data = filter (\<lambda>f. TrimSpace f \<noteq> []) (Split CHR 0x0A data)"

definition overlay_worker :: "BuildWorld \<Rightarrow> string \<Rightarrow> string \<Rightarrow> string option list \<times> fs \<times> keymap \<Rightarrow>
    string option list \<times> fs \<times> keymap" where
  "overlay_worker w srcDir f = (\<lambda>(msgs, fs, keys).
     let (more, fs', keys') = doSecureOverlayFile (bw_faults w) (bw_rand w) (bw_write w f) srcDir f (fs, keys)
     in (msgs @ more, fs', keys'))"

definition last_error :: "string option list \<Rightarrow> string option" where
  "last_error msgs = foldl (\<lambda>err m. case m of Some e \<Rightarrow> Some e | None \<Rightarrow> err) None msgs"

fun remove_files :: "BuildWorld \<Rightarrow> string \<Rightarrow> string list \<Rightarrow> fs \<Rightarrow> string option \<times> fs" where
  "remove_files w srcDir [] fs = (None, fs)"
| "remove_files w srcDir (f # files) fs =
     (case os_RemoveAll (bw_faults w) (path_Join [srcDir, f]) fs of
        Inl err \<Rightarrow> (Some err, fs)
      | Inr fs' \<Rightarrow> remove_files w srcDir files fs')"

text \<open>The handler takes as many messages as there are files, and keeps the last error of them.\<close>

definition overlayHandler :: "BuildWorld \<Rightarrow> BuildTest \<Rightarrow> fs \<Rightarrow> string option \<times> BuildTest \<times> fs" where
  "overlayHandler w t fs =
     (let fl = bw_faults w; src = bt_srcDir t in
      case ioutil_ReadFile fl (path_Join [src, ''SECRET'']) fs of
        Inl err \<Rightarrow> (Some err, t, fs)
      | Inr data \<Rightarrow>
          (let files = bw_order w (named_files data);
               (msgs, fs1, keys) = fold (overlay_worker w src) files ([], fs, env_keyMap (bt_env t));
               t1 = t\<lparr>bt_env := (bt_env t)\<lparr>env_keyMap := keys\<rparr>\<rparr>
           in case last_error (take (length files) msgs) of
                Some err \<Rightarrow> (Some err, t1, fs1)
              | None \<Rightarrow>
                  if \<not> exists_file fl (path_Join [src, ''REMOVED'']) fs1 then (None, t1, fs1)
                  else (case ioutil_ReadFile fl (path_Join [src, ''REMOVED'']) fs1 of
                          Inl err \<Rightarrow> (Some err, t1, fs1)
                        | Inr data' \<Rightarrow>
                            (let (err, fs2) = remove_files w src (named_files data') fs1 in (err, t1, fs2)))))"

definition run_handler :: "BuildWorld \<Rightarrow> build_handler \<Rightarrow> BuildCommand \<Rightarrow> BuildTest \<Rightarrow> fs \<Rightarrow> string option \<times> BuildTest \<times> fs" where
  "run_handler w h cmd t fs =
     (case h of
        CommitCheck \<Rightarrow> (commitCheckHandler t cmd, t, fs)
      | OverlayFiles \<Rightarrow> overlayHandler w t fs
      | OverlayCommit \<Rightarrow> (let (err, t') = overlayCommitHandler t cmd in (err, t', fs)))"

definition upd_command :: "nat \<Rightarrow> (BuildCommand \<Rightarrow> BuildCommand) \<Rightarrow> BuildTest \<Rightarrow> BuildTest" where
  "upd_command i f t = t\<lparr>bt_Commands := (bt_Commands t)[i := f (bt_Commands t ! i)]\<rparr>"

definition BuildCommand_Run :: "BuildWorld \<Rightarrow> nat \<Rightarrow> BuildTest \<times> fs \<Rightarrow> string option \<times> BuildTest \<times> fs" where
  "BuildCommand_Run w i = (\<lambda>(t, fs).
     let cmd = bt_Commands t ! i;
         line = in_Line (bc_Input cmd);
         exec_line = out_line 1 (''Exec: '' @ line);
         t1 = notify (ECommand i) MSG_PERSIST_UPDATE (MSG_FIELD_OUTPUT + MSG_FIELD_STATUS)
                (upd_command i (\<lambda>c. c\<lparr>bc_Output := [exec_line], bc_Status := COMMAND_STATUS_RUNNING\<rparr>) t);
         (output, err, fs1) = bw_exec w (Split CHR '' '' line) (bc_startDir cmd) (bt_cmdEnv t1) fs;
         (err', t2, fs2) =
           (case err of
              Some e \<Rightarrow> (Some e, upd_command i (\<lambda>c. c\<lparr>bc_Output := bc_Output c @ makeLines output\<rparr>) t1, fs1)
            | None \<Rightarrow>
                (case bc_handler cmd of
                   None \<Rightarrow> (None, upd_command i (\<lambda>c. c\<lparr>bc_Output := bc_Output c @ [out_line 2 ''OK'']\<rparr>) t1, fs1)
                 | Some h \<Rightarrow>
                     (let t1' = upd_command i (\<lambda>c. c\<lparr>bc_Output := makeLines output\<rparr>) t1;
                          (e, t', fs') = run_handler w h (bt_Commands t1' ! i) t1' fs1
                      in (e, upd_command i (\<lambda>c. c\<lparr>bc_Output :=
                               (if e = None then take 1 (bc_Output c) else bc_Output c) @ [out_line 2 ''OK'']\<rparr>) t', fs'))))
     in (err', notify (ECommand i) MSG_PERSIST_UPDATE MSG_FIELD_OUTPUT t2, fs2))"

section \<open>Running the plan\<close>

definition setCommandEnv :: "BuildWorld \<Rightarrow> fs \<Rightarrow> BuildTest \<Rightarrow> BuildTest" where
  "setCommandEnv w fs t =
     (let cmd = GetDeployKeySSHCmd w fs (cf_Users (bt_conf t)) (env_KeyDir (bt_env t))
      in t\<lparr>bt_cmdEnv := bw_Environ w @ (if cmd \<noteq> [] then [cmd] else [])\<rparr>)"

definition command_done :: "nat \<Rightarrow> string option \<Rightarrow> BuildTest \<Rightarrow> BuildTest" where
  "command_done i err t =
     notify (ECommand i) MSG_PERSIST_UPDATE (MSG_FIELD_STATUS + MSG_FIELD_OUTPUT)
       (if err \<noteq> None
        then (upd_command i (\<lambda>c. c\<lparr>bc_Status := COMMAND_STATUS_INCORRECT\<rparr>) t)\<lparr>bt_Result := TEST_RESULT_INCORRECT\<rparr>
        else upd_command i (\<lambda>c. c\<lparr>bc_Status := COMMAND_STATUS_CORRECT\<rparr>) t)"

fun run_commands :: "BuildWorld \<Rightarrow> nat list \<Rightarrow> BuildTest \<times> fs \<Rightarrow> string option \<times> BuildTest \<times> fs" where
  "run_commands w [] s = (None, s)"
| "run_commands w (i # is) s =
     (case BuildCommand_Run w i s of
        (Some err, t, fs) \<Rightarrow> (Some err, command_done i (Some err) t, fs)
      | (None, t, fs) \<Rightarrow> run_commands w is (command_done i None t, fs))"

definition BuildTest_Run :: "BuildWorld \<Rightarrow> TestEnvironment \<Rightarrow> BuildTest \<times> fs \<Rightarrow> (string + BuildResults) \<times> BuildTest \<times> fs" where
  "BuildTest_Run w env = (\<lambda>(t, fs).
     let t0 = notify ETest MSG_PERSIST_UPDATE MSG_FIELD_STATUS
                ((setCommandEnv w fs (t\<lparr>bt_env := env\<lparr>env_keyMap := []\<rparr>\<rparr>))\<lparr>bt_Result := TEST_RESULT_RUNNING\<rparr>);
         (err, t1, fs1) = run_commands w [0..<length (bt_Commands t0)] (t0, fs)
     in case err of
          Some e \<Rightarrow>
            (Inl e, notify ETest MSG_PERSIST_COMPLETE 0 t1,
             if bt_isTempDir t1 then ignoring (os_RemoveAll (bw_faults w) (bt_dir t1)) fs1 else fs1)
        | None \<Rightarrow>
            (Inr \<lparr>br_RootDir = bt_rootDir t1, br_TempDir = (if bt_isTempDir t1 then bt_dir t1 else [])\<rparr>,
             notify ETest MSG_PERSIST_COMPLETE 0 (t1\<lparr>bt_Result := TEST_RESULT_CORRECT\<rparr>), fs1))"

section \<open>What a run leaves\<close>

definition same_build :: "BuildTest \<Rightarrow> BuildTest \<Rightarrow> bool" where
  "same_build t t' \<longleftrightarrow>
     length (bt_Commands t') = length (bt_Commands t) \<and> bt_conf t' = bt_conf t \<and> bt_dir t' = bt_dir t \<and>
     bt_srcDir t' = bt_srcDir t \<and> bt_rootDir t' = bt_rootDir t \<and> bt_isTempDir t' = bt_isTempDir t \<and>
     bt_cmdEnv t' = bt_cmdEnv t"

definition only_command :: "nat \<Rightarrow> BuildTest \<Rightarrow> BuildTest \<Rightarrow> bool" where
  "only_command i t t' \<longleftrightarrow>
     same_build t t' \<and> (\<forall>j. j \<noteq> i \<longrightarrow> bt_Commands t' ! j = bt_Commands t ! j) \<and>
     (i < length (bt_Commands t) \<longrightarrow>
        bc_Input (bt_Commands t' ! i) = bc_Input (bt_Commands t ! i) \<and>
        bc_startDir (bt_Commands t' ! i) = bc_startDir (bt_Commands t ! i) \<and>
        bc_handler (bt_Commands t' ! i) = bc_handler (bt_Commands t ! i))"

lemma only_trans: "only_command i t u \<Longrightarrow> only_command i u v \<Longrightarrow> only_command i t v"
  by (simp add: only_command_def same_build_def)

lemma same_build_trans: "same_build t u \<Longrightarrow> same_build u v \<Longrightarrow> same_build t v"
  by (simp add: same_build_def)

lemma only_same: "only_command i t u \<Longrightarrow> same_build t u"
  by (simp add: only_command_def)

lemma only_notify [simp, intro]: "only_command i t (notify e m f t)"
  by (simp add: notify_def only_command_def same_build_def)

lemma only_upd:
  assumes "\<And>c. bc_Input (f c) = bc_Input c" "\<And>c. bc_startDir (f c) = bc_startDir c" "\<And>c. bc_handler (f c) = bc_handler c"
  shows "only_command i t (upd_command i f t)"
  using assms by (simp add: upd_command_def only_command_def same_build_def)

lemma run_handler_keeps:
  assumes "run_handler w h cmd t fs = (e, t', fs')"
  shows "bt_Commands t' = bt_Commands t \<and> same_build t t'"
proof (cases h)
  case CommitCheck
  with assms show ?thesis by (simp add: run_handler_def same_build_def)
next
  case OverlayFiles
  with assms have "overlayHandler w t fs = (e, t', fs')" by (simp add: run_handler_def)
  then show ?thesis
    by (auto simp: overlayHandler_def Let_def same_build_def split: sum.splits prod.splits option.splits if_splits)
next
  case OverlayCommit
  with assms show ?thesis
    by (auto simp: run_handler_def overlayCommitHandler_def same_build_def split: option.splits)
qed

lemma command_run_only:
  assumes "BuildCommand_Run w i (t, fs) = (err, t', fs')"
  shows "only_command i t t'"
proof -
  let ?cmd = "bt_Commands t ! i"
  define t1 where "t1 = notify (ECommand i) MSG_PERSIST_UPDATE (MSG_FIELD_OUTPUT + MSG_FIELD_STATUS)
    (upd_command i (\<lambda>c. c\<lparr>bc_Output := [out_line 1 (''Exec: '' @ in_Line (bc_Input ?cmd))],
       bc_Status := COMMAND_STATUS_RUNNING\<rparr>) t)"
  have 1: "only_command i t t1" unfolding t1_def by (rule only_trans [OF only_upd only_notify]) simp_all
  obtain raw e fs1 where ex: "bw_exec w (Split CHR '' '' (in_Line (bc_Input ?cmd))) (bc_startDir ?cmd) (bt_cmdEnv t1) fs = (raw, e, fs1)"
    by (metis prod.exhaust)
  note run = assms [unfolded BuildCommand_Run_def Let_def prod.case, folded t1_def, unfolded ex prod.case]
  show ?thesis
  proof (cases e)
    case (Some a)
    with run have "t' = notify (ECommand i) MSG_PERSIST_UPDATE MSG_FIELD_OUTPUT
        (upd_command i (\<lambda>c. c\<lparr>bc_Output := bc_Output c @ makeLines raw\<rparr>) t1)" by auto
    then show ?thesis using only_trans [OF 1 only_trans [OF only_upd only_notify]] by simp
  next
    case None
    show ?thesis
    proof (cases "bc_handler ?cmd")
      case None
      with run \<open>e = None\<close> have "t' = notify (ECommand i) MSG_PERSIST_UPDATE MSG_FIELD_OUTPUT
          (upd_command i (\<lambda>c. c\<lparr>bc_Output := bc_Output c @ [out_line 2 ''OK'']\<rparr>) t1)" by auto
      then show ?thesis using only_trans [OF 1 only_trans [OF only_upd only_notify]] by simp
    next
      case (Some h)
      let ?t1 = "upd_command i (\<lambda>c. c\<lparr>bc_Output := makeLines raw\<rparr>) t1"
      obtain e' t2 fs2 where h: "run_handler w h (bt_Commands ?t1 ! i) ?t1 fs1 = (e', t2, fs2)" by (metis prod.exhaust)
      have "only_command i ?t1 t2" using run_handler_keeps [OF h] by (simp add: only_command_def)
      moreover have "only_command i t1 ?t1" by (rule only_upd) simp_all
      ultimately have 2: "only_command i t t2" using 1 only_trans by blast
      from run \<open>e = None\<close> Some h have "t' = notify (ECommand i) MSG_PERSIST_UPDATE MSG_FIELD_OUTPUT
          (upd_command i (\<lambda>c. c\<lparr>bc_Output := (if e' = None then take 1 (bc_Output c) else bc_Output c) @ [out_line 2 ''OK'']\<rparr>) t2)"
        by auto
      then show ?thesis using only_trans [OF 2 only_trans [OF only_upd only_notify]] by simp
    qed
  qed
qed

lemma command_done_same:
  "bt_Commands (command_done i err t) =
     (bt_Commands t)[i := (bt_Commands t ! i)\<lparr>bc_Status :=
        (if err \<noteq> None then COMMAND_STATUS_INCORRECT else COMMAND_STATUS_CORRECT)\<rparr>]"
  "only_command i t (command_done i err t)"
  "err \<noteq> None \<Longrightarrow> bt_Result (command_done i err t) = TEST_RESULT_INCORRECT"
  by (auto simp: command_done_def notify_def upd_command_def only_command_def same_build_def)

text \<open>A run of some commands: all correct, or correct up to the first that failed.\<close>

definition correct_at :: "BuildTest \<Rightarrow> nat \<Rightarrow> bool" where
  "correct_at t i \<longleftrightarrow> bc_Status (bt_Commands t ! i) = COMMAND_STATUS_CORRECT"

lemma run_commands_outcome:
  assumes "run_commands w idx (t, fs) = (err, t', fs')" and "distinct idx" and "\<forall>i\<in>set idx. i < length (bt_Commands t)"
  shows "same_build t t' \<and>
    (case err of
       None \<Rightarrow> (\<forall>i\<in>set idx. correct_at t' i) \<and> (\<forall>j. j \<notin> set idx \<longrightarrow> bt_Commands t' ! j = bt_Commands t ! j)
     | Some e \<Rightarrow> bt_Result t' = TEST_RESULT_INCORRECT \<and>
         (\<exists>pre i post. idx = pre @ i # post \<and> (\<forall>j\<in>set pre. correct_at t' j) \<and>
            bc_Status (bt_Commands t' ! i) = COMMAND_STATUS_INCORRECT \<and>
            (\<forall>j. j \<notin> set pre \<and> j \<noteq> i \<longrightarrow> bt_Commands t' ! j = bt_Commands t ! j)))"
  using assms
proof (induction idx arbitrary: t fs)
  case Nil
  then show ?case by (auto simp: same_build_def)
next
  case (Cons i idx)
  obtain e t1 fs1 where one: "BuildCommand_Run w i (t, fs) = (e, t1, fs1)" by (metis prod.exhaust)
  have o: "only_command i t (command_done i e t1)"
    using only_trans [OF command_run_only [OF one] command_done_same(2)] .
  have len: "i < length (bt_Commands t1)"
    using Cons.prems(3) command_run_only [OF one] by (simp add: only_command_def same_build_def)
  show ?case
  proof (cases e)
    case (Some a)
    then have t': "t' = command_done i e t1" "err = Some a" using Cons.prems(1) one by auto
    have "bc_Status (bt_Commands t' ! i) = COMMAND_STATUS_INCORRECT"
      using len Some by (simp add: t'(1) command_done_same(1))
    moreover have "bt_Result t' = TEST_RESULT_INCORRECT" using Some by (simp add: t'(1) command_done_same(3))
    moreover have "\<forall>j. j \<noteq> i \<longrightarrow> bt_Commands t' ! j = bt_Commands t ! j" "same_build t t'"
      using o by (simp_all add: t'(1) only_command_def)
    ultimately show ?thesis unfolding t'(2) by (auto intro!: exI [of _ "[]"])
  next
    case None
    let ?t = "command_done i e t1"
    have run: "run_commands w idx (?t, fs1) = (err, t', fs')" using Cons.prems(1) one None by simp
    have "\<forall>k\<in>set idx. k < length (bt_Commands ?t)" "distinct idx"
      using Cons.prems o by (simp_all add: only_command_def same_build_def)
    note IH = Cons.IH [OF run this(2,1)]
    have ok: "correct_at ?t i" using len None by (simp add: correct_at_def command_done_same(1))
    have same: "same_build t t'" using IH o by (blast intro: same_build_trans only_same)
    have ni: "i \<notin> set idx" using Cons.prems(2) by simp
    show ?thesis
    proof (cases err)
      case None
      with IH have A: "\<forall>k\<in>set idx. correct_at t' k" "\<forall>j. j \<notin> set idx \<longrightarrow> bt_Commands t' ! j = bt_Commands ?t ! j" by auto
      with ok ni have "correct_at t' i" by (simp add: correct_at_def)
      moreover have "\<forall>j. j \<notin> set (i # idx) \<longrightarrow> bt_Commands t' ! j = bt_Commands t ! j"
        using A(2) o by (simp add: only_command_def)
      ultimately show ?thesis using same A(1) by (simp add: None)
    next
      case (Some a)
      with IH obtain pre k post where A: "bt_Result t' = TEST_RESULT_INCORRECT" "idx = pre @ k # post"
        "\<forall>j\<in>set pre. correct_at t' j" "bc_Status (bt_Commands t' ! k) = COMMAND_STATUS_INCORRECT"
        "\<forall>j. j \<notin> set pre \<and> j \<noteq> k \<longrightarrow> bt_Commands t' ! j = bt_Commands ?t ! j" by auto
      have "i \<notin> set pre \<and> i \<noteq> k" using ni A(2) by auto
      with A(5) ok have "correct_at t' i" by (simp add: correct_at_def)
      moreover have "\<forall>j. j \<notin> set (i # pre) \<and> j \<noteq> k \<longrightarrow> bt_Commands t' ! j = bt_Commands t ! j"
        using A(5) o by (simp add: only_command_def)
      moreover have "i # idx = (i # pre) @ k # post" using A(2) by simp
      ultimately show ?thesis using same A(1,3,4) unfolding Some option.case by (metis set_ConsD)
    qed
  qed
qed

lemma upt_split:
  assumes "[0..<n] = pre @ i # post"
  shows "i < n \<and> set pre = {..<i} \<and> pre = [0..<i]"
proof -
  have l: "length pre < n" using arg_cong [OF assms, of length] by simp
  have "i = [0..<n] ! length pre" unfolding assms by simp
  then have i: "i = length pre" using l by simp
  have "pre = take (length pre) [0..<n]" unfolding assms by simp
  also have "\<dots> = [0..<length pre]" using l by (simp add: take_upt)
  finally have p: "pre = [0..<length pre]" .
  have "set pre = set [0..<length pre]" by (rule arg_cong [OF p])
  then have "set pre = {..<length pre}" by (simp only: set_upt atLeast0LessThan)
  with l p show ?thesis unfolding i by blast
qed

text \<open>
  C22. A build either succeeds, and then every command of the plan ran to a correct end and the
  result names the directory of the output; or it fails, and then the commands before some position
  were correct, the one there was not, the later ones were never touched, and a temporary build
  directory is gone, unless removing it failed.
\<close>

theorem build_outcome:
  assumes "BuildTest_Run w env (t, fs) = (r, t', fs')"
  shows "length (bt_Commands t') = length (bt_Commands t) \<and>
    (case r of
       Inr res \<Rightarrow> bt_Result t' = TEST_RESULT_CORRECT \<and> (\<forall>i<length (bt_Commands t). correct_at t' i) \<and>
         br_RootDir res = bt_rootDir t
     | Inl e \<Rightarrow> bt_Result t' = TEST_RESULT_INCORRECT \<and>
         (\<exists>i<length (bt_Commands t). (\<forall>j<i. correct_at t' j) \<and>
            bc_Status (bt_Commands t' ! i) = COMMAND_STATUS_INCORRECT \<and>
            (\<forall>j>i. bt_Commands t' ! j = bt_Commands t ! j)) \<and>
         (bt_isTempDir t \<and> bw_faults w ''removeall'' (bt_dir t) = None \<longrightarrow> fs' (bt_dir t) = None))"
proof -
  define t0 where "t0 = notify ETest MSG_PERSIST_UPDATE MSG_FIELD_STATUS
     ((setCommandEnv w fs (t\<lparr>bt_env := env\<lparr>env_keyMap := []\<rparr>\<rparr>))\<lparr>bt_Result := TEST_RESULT_RUNNING\<rparr>)"
  have t0: "bt_Commands t0 = bt_Commands t" "bt_rootDir t0 = bt_rootDir t" "bt_dir t0 = bt_dir t" "bt_isTempDir t0 = bt_isTempDir t"
    by (simp_all add: t0_def notify_def setCommandEnv_def Let_def)
  obtain err t1 fs1 where run: "run_commands w [0..<length (bt_Commands t0)] (t0, fs) = (err, t1, fs1)"
    by (metis prod.exhaust)
  note B = assms [unfolded BuildTest_Run_def Let_def prod.case, folded t0_def, unfolded run prod.case]
  from run_commands_outcome [OF run] have O: "same_build t0 t1 \<and>
    (case err of
       None \<Rightarrow> (\<forall>i\<in>set [0..<length (bt_Commands t0)]. correct_at t1 i) \<and>
         (\<forall>j. j \<notin> set [0..<length (bt_Commands t0)] \<longrightarrow> bt_Commands t1 ! j = bt_Commands t0 ! j)
     | Some e \<Rightarrow> bt_Result t1 = TEST_RESULT_INCORRECT \<and>
         (\<exists>pre i post. [0..<length (bt_Commands t0)] = pre @ i # post \<and> (\<forall>j\<in>set pre. correct_at t1 j) \<and>
            bc_Status (bt_Commands t1 ! i) = COMMAND_STATUS_INCORRECT \<and>
            (\<forall>j. j \<notin> set pre \<and> j \<noteq> i \<longrightarrow> bt_Commands t1 ! j = bt_Commands t0 ! j)))" by simp
  show ?thesis
  proof (cases err)
    case None
    with B have r: "r = Inr \<lparr>br_RootDir = bt_rootDir t1, br_TempDir = (if bt_isTempDir t1 then bt_dir t1 else [])\<rparr>"
      "t' = notify ETest MSG_PERSIST_COMPLETE 0 (t1\<lparr>bt_Result := TEST_RESULT_CORRECT\<rparr>)" by simp_all
    show ?thesis using O None t0 unfolding r by (simp add: notify_def same_build_def correct_at_def)
  next
    case (Some e)
    with B have r: "r = Inl e" "t' = notify ETest MSG_PERSIST_COMPLETE 0 t1"
      "fs' = (if bt_isTempDir t1 then ignoring (os_RemoveAll (bw_faults w) (bt_dir t1)) fs1 else fs1)" by auto
    from O Some obtain pre i post where A: "[0..<length (bt_Commands t)] = pre @ i # post"
      "\<forall>j\<in>set pre. correct_at t1 j" "bc_Status (bt_Commands t1 ! i) = COMMAND_STATUS_INCORRECT"
      "\<forall>j. j \<notin> set pre \<and> j \<noteq> i \<longrightarrow> bt_Commands t1 ! j = bt_Commands t ! j" "bt_Result t1 = TEST_RESULT_INCORRECT"
      by (auto simp: t0)
    from A(1) have "i < length (bt_Commands t)" "set pre = {..<i}"
      using upt_split by auto
    moreover have "bt_isTempDir t \<and> bw_faults w ''removeall'' (bt_dir t) = None \<longrightarrow> fs' (bt_dir t) = None"
      using O t0 by (simp add: r(3) same_build_def ignoring_def os_RemoveAll_def io_guard_def)
    ultimately show ?thesis
      using A O t0 unfolding r by (auto simp: notify_def same_build_def correct_at_def intro!: exI [of _ i])
  qed
qed

section \<open>The required commit\<close>

definition plan_view :: "BuildTest \<Rightarrow> (string \<times> string \<times> build_handler option) list" where
  "plan_view t = map (\<lambda>c. (in_Line (bc_Input c), bc_startDir c, bc_handler c)) (bt_Commands t)"

lemma plan_add [simp]:
  "plan_view (addCommand w l d h t) = plan_view t @ [(l, d, h)]"
  "bt_conf (addCommand w l d h t) = bt_conf t" "bt_srcDir (addCommand w l d h t) = bt_srcDir t"
  "bt_rootDir (addCommand w l d h t) = bt_rootDir t" "bt_dir (addCommand w l d h t) = bt_dir t"
  "bt_env (addCommand w l d h t) = bt_env t" "bt_isTempDir (addCommand w l d h t) = bt_isTempDir t"
  by (simp_all add: addCommand_def plan_view_def)

lemma plan_cached [simp]:
  "plan_view (t\<lparr>bt_wasCached := b\<rparr>) = plan_view t"
  by (simp add: plan_view_def)

lemma plan_fold:
  "plan_view (fold (\<lambda>(l, d). addCommand w l d None) ls t) = plan_view t @ map (\<lambda>(l, d). (l, d, None)) ls"
  by (induction ls arbitrary: t) auto

definition git_lines :: "BuildWorld \<Rightarrow> fs \<Rightarrow> BuildTest \<Rightarrow> (string \<times> string) list" where
  "git_lines w fs t =
     (if exists_file (bw_faults w) (bt_srcDir t) fs
      then [(''git reset --hard'', bt_srcDir t), (''git clean -d -f'', bt_srcDir t), (''git fetch'', bt_srcDir t)]
      else [(''git clone '' @ cf_Repo (bt_conf t) @ '' src'', bt_dir t)]) @
     [(''git checkout '' @ cf_CommitID (bt_conf t), bt_srcDir t)]"

lemma plan_git:
  "plan_view (addGitCommands w fs t) = plan_view t @ map (\<lambda>(l, d). (l, d, None)) (git_lines w fs t) @
     (if cf_RequiredCommit (bt_conf t) \<noteq> [] then [(''git log --pretty=format:%H'', bt_srcDir t, Some CommitCheck)] else [])"
  by (simp add: addGitCommands_def git_lines_def Let_def)

lemma git_keeps:
  "bt_srcDir (addGitCommands w fs t) = bt_srcDir t" "bt_conf (addGitCommands w fs t) = bt_conf t"
  by (simp_all add: addGitCommands_def Let_def)

text \<open>The commands of an overlay: copy, sign the copied files, read the commit of the overlays.\<close>

definition overlay_handlers :: "build_handler option list" where
  "overlay_handlers = [None, Some OverlayFiles, Some OverlayCommit]"

lemma fold_add_keeps:
  "bt_conf (fold (\<lambda>(l, d). addCommand w l d None) ls u) = bt_conf u \<and>
   bt_srcDir (fold (\<lambda>(l, d). addCommand w l d None) ls u) = bt_srcDir u \<and>
   bt_rootDir (fold (\<lambda>(l, d). addCommand w l d None) ls u) = bt_rootDir u"
  by (induction ls arbitrary: u) auto

lemma plan_rest:
  assumes "addBuildCommands w (addOverlayCommand w fs t) fs = (t', fs')"
  obtains others where
    "plan_view t' = plan_view t @ others @ map (\<lambda>(l, d). (l, d, None)) (build_lines t')"
    "map (\<lambda>(l, d, h). h) others \<in> {[], overlay_handlers}" "bt_srcDir t' = bt_srcDir t" "bt_conf t' = bt_conf t"
proof -
  let ?o = "addOverlayCommand w fs t"
  have t': "t' = fold (\<lambda>(l, d). addCommand w l d None) (build_lines ?o) ?o"
    using assms by (simp add: addBuildCommands_def)
  have same: "bt_srcDir ?o = bt_srcDir t" "bt_conf ?o = bt_conf t" "bt_rootDir ?o = bt_rootDir t"
    by (simp_all add: addOverlayCommand_def Let_def)
  have "build_lines t' = build_lines ?o" by (simp add: build_lines_def t' fold_add_keeps)
  then have "plan_view t' = plan_view ?o @ map (\<lambda>(l, d). (l, d, None)) (build_lines t')"
    by (simp only: t' plan_fold)
  moreover have "\<exists>others. plan_view ?o = plan_view t @ others \<and> map (\<lambda>(l, d, h). h) others \<in> {[], overlay_handlers}"
    by (simp add: addOverlayCommand_def Let_def overlay_handlers_def)
  moreover have "bt_srcDir t' = bt_srcDir t" "bt_conf t' = bt_conf t" by (simp_all add: t' fold_add_keeps same)
  ultimately show thesis using that by (metis append_assoc)
qed

lemma initDirs_keeps:
  "initDirs w t fs = Inr (t', fs') \<Longrightarrow>
   bt_Commands t' = bt_Commands t \<and> bt_conf t' = bt_conf t \<and> bt_srcDir t' = path_Join [bt_dir t', ''src'']"
  by (auto simp: initDirs_def Let_def bind_ok_eq_Inr split: if_splits)

text \<open>The first commands of a plan, and the source directory of all that follows.\<close>

lemma plan_of_build:
  assumes "ToBuildTest w b env fs = Inr (t, fs')"
  obtains gits others where
    "plan_view t = map (\<lambda>(l, d). (l, d, None)) gits @
       (if cf_RequiredCommit b \<noteq> [] then [(''git log --pretty=format:%H'', bt_srcDir t, Some CommitCheck)] else []) @
       others @ map (\<lambda>(l, d). (l, d, None)) (build_lines t)"
    "gits \<noteq> []" "last gits = (''git checkout '' @ cf_CommitID b, bt_srcDir t)" "bt_conf t = b"
    "\<forall>(l, d)\<in>set gits. HasPrefix l ''git ''" "map (\<lambda>(l, d, h). h) others \<in> {[], overlay_handlers}"
proof -
  obtain t1 fs1 where i: "initDirs w (new_build w b env) fs = Inr (t1, fs1)"
    and t: "addBuildCommands w (addOverlayCommand w fs1 (addGitCommands w fs1 t1)) fs1 = (t, fs')"
    using assms by (auto simp: ToBuildTest_def bind_ok_eq_Inr)
  have conf: "bt_conf t1 = b" and none: "plan_view t1 = []"
    using initDirs_keeps [OF i] by (simp_all add: new_build_def plan_view_def)
  from plan_rest [OF t] obtain others where
    p: "plan_view t = plan_view (addGitCommands w fs1 t1) @ others @ map (\<lambda>(l, d). (l, d, None)) (build_lines t)"
    and o: "map (\<lambda>(l, d, h). h) others \<in> {[], overlay_handlers}"
    and src: "bt_srcDir t = bt_srcDir t1" "bt_conf t = b"
    unfolding git_keeps conf by metis
  have p: "plan_view t = map (\<lambda>(l, d). (l, d, None)) (git_lines w fs1 t1) @
      (if cf_RequiredCommit b \<noteq> [] then [(''git log --pretty=format:%H'', bt_srcDir t, Some CommitCheck)] else []) @
      others @ map (\<lambda>(l, d). (l, d, None)) (build_lines t)"
    using p unfolding plan_git conf src none by (simp only: append_Nil append_assoc)
  show thesis
  proof (rule that [OF p])
    show "git_lines w fs1 t1 \<noteq> []" "last (git_lines w fs1 t1) = (''git checkout '' @ cf_CommitID b, bt_srcDir t)"
      by (simp_all add: git_lines_def src conf)
    show "\<forall>(l, d)\<in>set (git_lines w fs1 t1). HasPrefix l ''git ''"
      by (simp add: git_lines_def HasPrefix_def)
  qed (fact src o)+
qed

lemma upt_at: "i < n \<Longrightarrow> [0..<n] = [0..<i] @ i # [Suc i..<n]"
  using upt_add_eq_append [of 0 i "n - i"] by (simp add: upt_conv_Cons)

lemma run_commands_append:
  "run_commands w (xs @ ys) s = (None, t, fs) \<Longrightarrow>
   \<exists>s1. run_commands w xs s = (None, s1) \<and> run_commands w ys s1 = (None, t, fs)"
  by (induction xs arbitrary: s) (auto split: prod.splits option.splits)

lemma command_run_ok:
  assumes "BuildCommand_Run w i (t, fs) = (None, t', fs')" and "bc_handler (bt_Commands t ! i) = Some CommitCheck"
    and "i < length (bt_Commands t)"
  shows "\<exists>raw fs1. bw_exec w (Split CHR '' '' (in_Line (bc_Input (bt_Commands t ! i)))) (bc_startDir (bt_Commands t ! i)) (bt_cmdEnv t) fs
      = (raw, None, fs1) \<and> cf_RequiredCommit (bt_conf t) \<in> set (Split CHR 0x0A raw)"
proof -
  let ?cmd = "bt_Commands t ! i"
  define t1 where "t1 = notify (ECommand i) MSG_PERSIST_UPDATE (MSG_FIELD_OUTPUT + MSG_FIELD_STATUS)
    (upd_command i (\<lambda>c. c\<lparr>bc_Output := [out_line 1 (''Exec: '' @ in_Line (bc_Input ?cmd))],
       bc_Status := COMMAND_STATUS_RUNNING\<rparr>) t)"
  have t1: "bt_cmdEnv t1 = bt_cmdEnv t" "bt_conf t1 = bt_conf t" "length (bt_Commands t1) = length (bt_Commands t)"
    by (simp_all add: t1_def notify_def upd_command_def)
  obtain raw e fs1 where ex: "bw_exec w (Split CHR '' '' (in_Line (bc_Input ?cmd))) (bc_startDir ?cmd) (bt_cmdEnv t1) fs = (raw, e, fs1)"
    by (metis prod.exhaust)
  let ?t1 = "upd_command i (\<lambda>c. c\<lparr>bc_Output := makeLines raw\<rparr>) t1"
  note run = assms(1) [unfolded BuildCommand_Run_def Let_def prod.case, folded t1_def, unfolded ex assms(2) prod.case]
  from run have e: "e = None" by (cases e) auto
  have "commitCheckHandler ?t1 (bt_Commands ?t1 ! i) = None"
    using run by (simp add: e run_handler_def)
  moreover have "bc_Output (bt_Commands ?t1 ! i) = makeLines raw" "bt_conf ?t1 = bt_conf t"
    using assms(3) t1 by (simp_all add: upd_command_def)
  ultimately obtain l where "l \<in> set (makeLines raw)" "cf_RequiredCommit (bt_conf t) = ol_Line l"
    by (auto simp: commitCheckHandler_def split: if_splits)
  then have "cf_RequiredCommit (bt_conf t) \<in> set (Split CHR 0x0A raw)"
    by (auto simp: makeLines_def out_line_def in_set_enumerate_eq intro: nth_mem dest!: sym [of "Split _ _ ! _"])
  then show ?thesis using ex e t1(1) by auto
qed

text \<open>The state in which the first command of a run is started.\<close>

definition build_start :: "BuildWorld \<Rightarrow> TestEnvironment \<Rightarrow> BuildTest \<Rightarrow> fs \<Rightarrow> BuildTest" where
  "build_start w env t fs = notify ETest MSG_PERSIST_UPDATE MSG_FIELD_STATUS
     ((setCommandEnv w fs (t\<lparr>bt_env := env\<lparr>env_keyMap := []\<rparr>\<rparr>))\<lparr>bt_Result := TEST_RESULT_RUNNING\<rparr>)"

lemma build_start_keeps:
  "bt_Commands (build_start w env t fs) = bt_Commands t" "bt_conf (build_start w env t fs) = bt_conf t"
  "plan_view (build_start w env t fs) = plan_view t"
  by (simp_all add: build_start_def notify_def setCommandEnv_def Let_def plan_view_def)

lemma successful_run:
  assumes "BuildTest_Run w env (t, fs) = (Inr res, t', fs')" and "i < length (bt_Commands t)"
  obtains u fs1 v fs2 where "run_commands w [0..<i] (build_start w env t fs, fs) = (None, u, fs1)"
    "BuildCommand_Run w i (u, fs1) = (None, v, fs2)"
    "bt_conf u = bt_conf t" "bt_Commands u ! i = bt_Commands t ! i" "length (bt_Commands u) = length (bt_Commands t)"
proof -
  let ?t0 = "build_start w env t fs"
  obtain err t1 fs1 where "run_commands w [0..<length (bt_Commands ?t0)] (?t0, fs) = (err, t1, fs1)"
    by (metis prod.exhaust)
  with assms(1) have run: "run_commands w [0..<length (bt_Commands t)] (?t0, fs) = (None, t1, fs1)"
    by (cases err) (simp_all add: BuildTest_Run_def build_start_def [symmetric] build_start_keeps Let_def)
  from run_commands_append [OF run [unfolded upt_at [OF assms(2)]]] obtain u fs2 where
    pre: "run_commands w [0..<i] (?t0, fs) = (None, u, fs2)"
    and rest: "run_commands w (i # [Suc i..<length (bt_Commands t)]) (u, fs2) = (None, t1, fs1)" by auto
  have "\<forall>k\<in>set [0..<i]. k < length (bt_Commands ?t0)" using assms(2) by (simp add: build_start_keeps)
  from run_commands_outcome [OF pre _ this] have U: "same_build ?t0 u" "bt_Commands u ! i = bt_Commands t ! i"
    by (simp_all add: build_start_keeps)
  obtain e v fs3 where one: "BuildCommand_Run w i (u, fs2) = (e, v, fs3)" by (metis prod.exhaust)
  with rest have "BuildCommand_Run w i (u, fs2) = (None, v, fs3)" by (cases e) simp_all
  with pre U show thesis using that by (simp add: same_build_def build_start_keeps)
qed

text \<open>
  C20. When the configuration asks for a commit, the commands of the build are: git commands that
  end with the checkout, the log of the source directory with the check, possibly the three
  commands of the overlay, and then the commands that build. A successful run reached the log from
  the commands before it, and what the log printed in the state they left has the identifier of the
  required commit as a whole line.
\<close>

theorem build_has_required_commit:
  assumes "ToBuildTest w b env0 fs0 = Inr (t, fs)" and "cf_RequiredCommit b \<noteq> []"
    and "BuildTest_Run w env (t, fs) = (Inr res, t', fs')"
  shows "\<exists>gits others u fs1 raw fs2.
    plan_view t = map (\<lambda>(l, d). (l, d, None)) gits @ (''git log --pretty=format:%H'', bt_srcDir t, Some CommitCheck) #
      others @ map (\<lambda>(l, d). (l, d, None)) (build_lines t) \<and>
    gits \<noteq> [] \<and> last gits = (''git checkout '' @ cf_CommitID b, bt_srcDir t) \<and>
    (\<forall>(l, d)\<in>set gits. HasPrefix l ''git '') \<and> map (\<lambda>(l, d, h). h) others \<in> {[], overlay_handlers} \<and>
    run_commands w [0..<length gits] (build_start w env t fs, fs) = (None, u, fs1) \<and>
    bw_exec w [''git'', ''log'', ''--pretty=format:%H''] (bt_srcDir t) (bt_cmdEnv u) fs1 = (raw, None, fs2) \<and>
    cf_RequiredCommit b \<in> set (Split CHR 0x0A raw)"
proof -
  from assms(1) obtain gits others where
    P: "plan_view t = map (\<lambda>(l, d). (l, d, None)) gits @ (''git log --pretty=format:%H'', bt_srcDir t, Some CommitCheck) #
      others @ map (\<lambda>(l, d). (l, d, None)) (build_lines t)"
    and G: "gits \<noteq> []" "last gits = (''git checkout '' @ cf_CommitID b, bt_srcDir t)" "bt_conf t = b"
      "\<forall>(l, d)\<in>set gits. HasPrefix l ''git ''" "map (\<lambda>(l, d, h). h) others \<in> {[], overlay_handlers}"
    by (rule plan_of_build) (use assms(2) in simp)
  let ?i = "length gits"
  have i: "?i < length (bt_Commands t)" using arg_cong [OF P, of length] by (simp add: plan_view_def)
  have "plan_view t ! ?i = (in_Line (bc_Input (bt_Commands t ! ?i)), bc_startDir (bt_Commands t ! ?i), bc_handler (bt_Commands t ! ?i))"
    using i by (simp add: plan_view_def)
  then have log: "in_Line (bc_Input (bt_Commands t ! ?i)) = ''git log --pretty=format:%H''"
      "bc_startDir (bt_Commands t ! ?i) = bt_srcDir t" "bc_handler (bt_Commands t ! ?i) = Some CommitCheck"
    unfolding P by (simp_all add: nth_append)
  from successful_run [OF assms(3) i] obtain u fs1 v fs2 where
    run: "run_commands w [0..<?i] (build_start w env t fs, fs) = (None, u, fs1)"
    and one: "BuildCommand_Run w ?i (u, fs1) = (None, v, fs2)"
    and u: "bt_conf u = bt_conf t" "bt_Commands u ! ?i = bt_Commands t ! ?i" "length (bt_Commands u) = length (bt_Commands t)" .
  have words: "Split CHR '' '' ''git log --pretty=format:%H'' = [''git'', ''log'', ''--pretty=format:%H'']" by code_simp
  from command_run_ok [OF one] obtain raw fs3 where
    "bw_exec w [''git'', ''log'', ''--pretty=format:%H''] (bt_srcDir t) (bt_cmdEnv u) fs1 = (raw, None, fs3)"
    "cf_RequiredCommit b \<in> set (Split CHR 0x0A raw)"
    unfolding u log words G(3) using i by auto
  with P G(1,2,4,5) run show ?thesis by (intro exI conjI)
qed

section \<open>A concrete build\<close>

definition sample_conf :: BuildConf where
  "sample_conf = \<lparr>cf_Repo = ''git@g:s/os161'', cf_CommitID = ''HEAD'', cf_KConfig = ''ASST1'', cf_RequiredCommit = ''abc'',
     cf_CacheDir = [], cf_RequiresUserland = False, cf_Overlay = [], cf_Users = [''s@b.edu'']\<rparr>"

text \<open>Every subprocess prints two lines, and one that starts with \<open>bad\<close> fails.\<close>

definition sample_bw :: "string \<Rightarrow> BuildWorld" where
  "sample_bw bad = \<lparr>bw_faults = no_faults,
     bw_exec = (\<lambda>args dir vars fs. (''abc'' @ [CHR 0x0A] @ ''def'', if hd args = bad then Some ''exit status 1'' else None, fs)),
     bw_uuid = (\<lambda>_. []), bw_TempDir = Inr ''/tmp/b'', bw_sha256 = (\<lambda>_. []), bw_rand = zero_bytes,
     bw_write = (\<lambda>_ _. None), bw_order = (\<lambda>fs. fs), bw_Environ = []\<rparr>"

definition bmake_test :: BuildTest where
  "bmake_test = addCommand (sample_bw ''bmake'') ''bmake'' ''/src'' None (new_build (sample_bw ''bmake'') sample_conf blank_env)"

lemma bmake_fails: "fst (BuildTest_Run (sample_bw ''bmake'') blank_env (bmake_test, \<lambda>_. None)) = Inl ''exit status 1''"
  by (simp add: BuildTest_Run_def bmake_test_def addCommand_def new_build_def setCommandEnv_def notify_def
      BuildCommand_Run_def upd_command_def sample_bw_def sample_conf_def GetDeployKeySSHCmd_def Let_def)

lemma build_outcome_witness:
  "\<exists>t' fs'. BuildTest_Run (sample_bw ''bmake'') blank_env (bmake_test, \<lambda>_. None) = (Inl ''exit status 1'', t', fs') \<and>
     bt_Result t' = TEST_RESULT_INCORRECT \<and> length (bt_Commands t') = 1"
proof -
  obtain t' fs' where run: "BuildTest_Run (sample_bw ''bmake'') blank_env (bmake_test, \<lambda>_. None) = (Inl ''exit status 1'', t', fs')"
    using bmake_fails by (metis prod.collapse)
  have "length (bt_Commands bmake_test) = 1" by (simp add: bmake_test_def addCommand_def new_build_def)
  with build_outcome [OF run] have "bt_Result t' = TEST_RESULT_INCORRECT" "length (bt_Commands t') = 1" by simp_all
  with run show ?thesis by (intro exI conjI)
qed

text \<open>Where every subprocess succeeds and prints the commit, the whole plan without an overlay succeeds.\<close>

definition plain_step :: "string \<times> string \<times> build_handler option \<Rightarrow> bool" where
  "plain_step = (\<lambda>(l, d, h). hd (Split CHR '' '' l) \<noteq> [] \<and> h \<in> {None, Some CommitCheck})"

definition plain_plan :: "BuildTest \<Rightarrow> bool" where
  "plain_plan t \<longleftrightarrow> bt_conf t = sample_conf \<and> list_all plain_step (plan_view t)"

lemma plain_planD:
  assumes "plain_plan t" and "i < length (bt_Commands t)"
  shows "hd (Split CHR '' '' (in_Line (bc_Input (bt_Commands t ! i)))) \<noteq> []"
    "bc_handler (bt_Commands t ! i) = None \<or> bc_handler (bt_Commands t ! i) = Some CommitCheck" "bt_conf t = sample_conf"
proof -
  have "plain_step (plan_view t ! i)" using assms by (simp add: plain_plan_def list_all_length plan_view_def)
  then show "hd (Split CHR '' '' (in_Line (bc_Input (bt_Commands t ! i)))) \<noteq> []"
    "bc_handler (bt_Commands t ! i) = None \<or> bc_handler (bt_Commands t ! i) = Some CommitCheck"
    using assms(2) by (auto simp: plain_step_def plan_view_def)
  show "bt_conf t = sample_conf" using assms(1) by (simp add: plain_plan_def)
qed

lemma plan_view_only: "only_command i t t' \<Longrightarrow> plan_view t' = plan_view t"
proof (rule nth_equalityI)
  assume o: "only_command i t t'"
  then show len: "length (plan_view t') = length (plan_view t)" by (simp add: plan_view_def only_command_def same_build_def)
  fix j assume "j < length (plan_view t')"
  with o len show "plan_view t' ! j = plan_view t ! j"
    by (cases "j = i") (simp_all add: plan_view_def only_command_def same_build_def)
qed

lemma plain_only: "only_command i t t' \<Longrightarrow> plain_plan t \<Longrightarrow> plain_plan t'"
  using plan_view_only [of i t t'] by (simp add: plain_plan_def only_command_def same_build_def)

lemma commit_line:
  "bt_conf t = sample_conf \<Longrightarrow> bc_Output c = makeLines (''abc'' @ [CHR 0x0A] @ ''def'') \<Longrightarrow> commitCheckHandler t c = None"
  by (simp add: commitCheckHandler_def sample_conf_def makeLines_def out_line_def)

lemma sample_command_ok:
  assumes "plain_plan t" and "i < length (bt_Commands t)"
  shows "fst (BuildCommand_Run (sample_bw []) i (t, fs)) = None"
  using plain_planD(2) [OF assms]
proof
  assume "bc_handler (bt_Commands t ! i) = None"
  then show ?thesis using plain_planD(1) [OF assms] by (simp add: BuildCommand_Run_def Let_def sample_bw_def)
next
  assume c: "bc_handler (bt_Commands t ! i) = Some CommitCheck"
  show ?thesis using assms(2) plain_planD(1,3) [OF assms]
    by (simp add: BuildCommand_Run_def Let_def sample_bw_def c run_handler_def commit_line notify_def upd_command_def)
qed

lemma sample_build_run_ok:
  "plain_plan t \<Longrightarrow> \<forall>i\<in>set idx. i < length (bt_Commands t) \<Longrightarrow> fst (run_commands (sample_bw []) idx (t, fs)) = None"
proof (induction idx arbitrary: t fs)
  case Nil
  then show ?case by simp
next
  case (Cons i idx)
  obtain e t1 fs1 where one: "BuildCommand_Run (sample_bw []) i (t, fs) = (e, t1, fs1)" by (metis prod.exhaust)
  with sample_command_ok [OF Cons.prems(1), of i fs] Cons.prems(2) have e: "e = None" by simp
  have o: "only_command i t (command_done i None t1)"
    using only_trans [OF command_run_only [OF one] command_done_same(2)] .
  have "fst (run_commands (sample_bw []) idx (command_done i None t1, fs1)) = None"
    using plain_only [OF o Cons.prems(1)] Cons.prems(2) o
    by (intro Cons.IH) (simp_all add: only_command_def same_build_def)
  then show ?case by (simp add: one e)
qed

lemma first_word: "hd (Split c (x # xs)) \<noteq> [] \<longleftrightarrow> x \<noteq> c"
  by (auto split: list.splits)

lemma sample_plan:
  obtains t fs where "ToBuildTest (sample_bw []) sample_conf blank_env (\<lambda>_. None) = Inr (t, fs)"
    "list_all plain_step (plan_view t)"
proof -
  define t0 where "t0 = (new_build (sample_bw []) sample_conf blank_env)\<lparr>bt_isTempDir := True, bt_dir := ''/tmp/b'',
    bt_srcDir := path_Join [''/tmp/b'', ''src''], bt_rootDir := path_Join [''/tmp/b'', ''root'']\<rparr>"
  let ?fs = "(\<lambda>_. None)(''/tmp/b'' \<mapsto> Dir)" and ?g = "addGitCommands (sample_bw []) ((\<lambda>_. None)(''/tmp/b'' \<mapsto> Dir)) t0"
  have conf: "bt_conf t0 = sample_conf" "plan_view t0 = []" by (simp_all add: t0_def new_build_def plan_view_def)
  have "initDirs (sample_bw []) (new_build (sample_bw []) sample_conf blank_env) (\<lambda>_. None) = Inr (t0, ?fs)"
    unfolding t0_def by (simp add: initDirs_def new_build_def sample_conf_def sample_bw_def)
  moreover have "addOverlayCommand (sample_bw []) ?fs ?g = ?g"
    unfolding addOverlayCommand_def Let_def git_keeps conf by (simp add: sample_conf_def)
  ultimately have b: "ToBuildTest (sample_bw []) sample_conf blank_env (\<lambda>_. None) =
      Inr (addBuildCommands (sample_bw []) ?g ?fs)"
    by (simp only: ToBuildTest_def bind_ok_simps prod.case)
  have "list_all plain_step (plan_view (fst (addBuildCommands (sample_bw []) ?g ?fs)))"
    unfolding addBuildCommands_def Let_def fst_conv plan_fold plan_git conf
    by (simp add: git_lines_def build_lines_def Let_def plain_step_def first_word)
  with b that show thesis by (metis prod.collapse)
qed

lemma build_has_required_commit_witness:
  "\<exists>t fs res t' fs' u fs1 raw fs2 n. BuildTest_Run (sample_bw []) blank_env (t, fs) = (Inr res, t', fs') \<and>
     plan_view t ! n = (''git log --pretty=format:%H'', bt_srcDir t, Some CommitCheck) \<and>
     run_commands (sample_bw []) [0..<n] (build_start (sample_bw []) blank_env t fs, fs) = (None, u, fs1) \<and>
     bw_exec (sample_bw []) [''git'', ''log'', ''--pretty=format:%H''] (bt_srcDir t) (bt_cmdEnv u) fs1 = (raw, None, fs2) \<and>
     ''abc'' \<in> set (Split CHR 0x0A raw)"
proof -
  obtain t fs where b: "ToBuildTest (sample_bw []) sample_conf blank_env (\<lambda>_. None) = Inr (t, fs)"
    and plan: "list_all plain_step (plan_view t)" by (rule sample_plan)
  from b have conf: "bt_conf t = sample_conf" by (rule plan_of_build)
  obtain r t' fs' where run: "BuildTest_Run (sample_bw []) blank_env (t, fs) = (r, t', fs')" by (metis prod.exhaust)
  let ?t0 = "build_start (sample_bw []) blank_env t fs"
  have "plain_plan ?t0" using plan conf by (simp add: build_start_keeps plain_plan_def)
  then have "fst (run_commands (sample_bw []) [0..<length (bt_Commands ?t0)] (?t0, fs)) = None"
    by (rule sample_build_run_ok) simp
  then obtain t1 fs1 where "run_commands (sample_bw []) [0..<length (bt_Commands ?t0)] (?t0, fs) = (None, t1, fs1)"
    by (metis prod.collapse)
  then obtain res where r: "r = Inr res" using run by (auto simp: BuildTest_Run_def build_start_def [symmetric] Let_def)
  have "cf_RequiredCommit sample_conf \<noteq> []" and abc: "cf_RequiredCommit sample_conf = ''abc''" by (simp_all add: sample_conf_def)
  from build_has_required_commit [OF b this(1) run [unfolded r]] obtain gits others u fs1 raw fs2 where
    p: "plan_view t = map (\<lambda>(l, d). (l, d, None)) gits @ (''git log --pretty=format:%H'', bt_srcDir t, Some CommitCheck) #
      others @ map (\<lambda>(l, d). (l, d, None)) (build_lines t)"
    and rest: "run_commands (sample_bw []) [0..<length gits] (?t0, fs) = (None, u, fs1)"
      "bw_exec (sample_bw []) [''git'', ''log'', ''--pretty=format:%H''] (bt_srcDir t) (bt_cmdEnv u) fs1 = (raw, None, fs2)"
      "''abc'' \<in> set (Split CHR 0x0A raw)"
    unfolding abc by (elim exE conjE)
  have "plan_view t ! length gits = (''git log --pretty=format:%H'', bt_srcDir t, Some CommitCheck)"
    unfolding p by (simp add: nth_append)
  with rest run [unfolded r] show ?thesis by (intro exI conjI)
qed

end
