(* ===== verification/Usage.thy ===== *)
theory Usage
  imports SubmissionRun GoFiles "HOL-Library.List_Lexorder" "HOL-Library.Char_ord"
begin

text \<open>
  \<open>usage.go\<close> and \<open>test161/usage.go\<close>: the usage statistics of the command line client. A run of
  \<open>test161\<close> appends one record to the current usage file; a file that has grown large is put aside
  under a name with a time, old files are pruned, and a second process uploads the files that were
  put aside in chunks and removes what the server took.
\<close>

section \<open>Usage records (\<open>usage.go\<close>)\<close>

record TestStat =
  tst_Name :: string
  tst_Result :: TestResult
  tst_PointsAvailable :: uint
  tst_PointsEarned :: uint
  tst_MemLeakBytes :: int
  tst_MemLeakPoints :: uint
  tst_MemLeakDeducted :: uint

record GroupStat =
  gst_TargetTagName :: string
  gst_PointsAvailable :: uint
  gst_Status :: string
  gst_Score :: uint
  gst_Tests :: "TestStat list"
  gst_Errors :: "string list"
  gst_SubmissionTime :: int
  gst_CompletionTime :: int

record UsageStat =
  us_ID :: string
  us_Users :: "string list"
  us_Timestamp :: int
  us_Version :: int
  us_Test161Version :: string
  us_IsStaff :: bool
  us_GroupInfo :: "GroupStat option"

definition CUR_USAGE_VERSION :: int where
  "CUR_USAGE_VERSION = 1"

definition newTestStat :: "Test \<Rightarrow> TestStat" where
  "newTestStat t =
     \<lparr>tst_Name = t_Name t, tst_Result = t_Result t, tst_PointsAvailable = t_PointsAvailable t,
      tst_PointsEarned = t_PointsEarned t, tst_MemLeakBytes = t_MemLeakBytes t,
      tst_MemLeakPoints = t_MemLeakPoints t, tst_MemLeakDeducted = t_MemLeakDeducted t\<rparr>"

definition testStatsFromGroup :: "TestGroup \<Rightarrow> TestStat list" where
  "testStatsFromGroup tg = map (\<lambda>(_, test). newTestStat test) (tg_Tests tg)"

text \<open>The identifier and the time of a record come from the world.\<close>

definition newUsageStat :: "string \<Rightarrow> int \<Rightarrow> string list \<Rightarrow> UsageStat" where
  "newUsageStat uuid now users =
     \<lparr>us_ID = uuid, us_Users = users, us_Timestamp = now, us_Version = CUR_USAGE_VERSION,
      us_Test161Version = ProgramVersion_String this_Version, us_IsStaff = False, us_GroupInfo = None\<rparr>"

definition add_test_stat :: "TestStat \<Rightarrow> GroupStat \<Rightarrow> GroupStat" where
  "add_test_stat t g =
     g\<lparr>gst_PointsAvailable := gst_PointsAvailable g + tst_PointsAvailable t,
       gst_Score := gst_Score g + tst_PointsEarned t\<rparr>"

definition NewTestGroupUsageStat ::
  "string \<Rightarrow> int \<Rightarrow> string list \<Rightarrow> string \<Rightarrow> TestGroup \<Rightarrow> int \<Rightarrow> int \<Rightarrow> UsageStat" where
  "NewTestGroupUsageStat uuid now users targetOrTag tg startTime endTime =
     (let g = \<lparr>gst_TargetTagName = targetOrTag, gst_PointsAvailable = 0, gst_Status = [], gst_Score = 0,
               gst_Tests = testStatsFromGroup tg, gst_Errors = [], gst_SubmissionTime = startTime,
               gst_CompletionTime = endTime\<rparr>
      in (newUsageStat uuid now users)\<lparr>us_GroupInfo := Some (fold add_test_stat (gst_Tests g) g)\<rparr>)"

text \<open>\<open>env.Persistence.Notify\<close> for this kind of entity.\<close>

type_synonym usage_notify = "UsageStat \<Rightarrow> notify_msg \<Rightarrow> nat \<Rightarrow> string option"

definition UsageStat_Persist :: "usage_notify \<Rightarrow> UsageStat \<Rightarrow> string option" where
  "UsageStat_Persist notify stat = notify stat MSG_PERSIST_CREATE 0"

section \<open>The files of the client (\<open>test161/usage.go\<close>)\<close>

text \<open>
  The state of the client's machine, as far as this code touches it: the regular files by path, the
  open file description that holds the lock of a file, the number of descriptions opened so far,
  what was posted to the server, and what was printed.
\<close>

record UsagePost =
  po_Request :: string
  po_Files :: "(string \<times> string option) list"
  po_Status :: "int option"

record UsageState =
  un_files :: "(string, string) gomap"
  un_locks :: "(string, nat) gomap"
  un_fds :: nat
  un_posts :: "UsagePost list"
  un_printed :: "string list"

text \<open>
  The world: the home directory, the clock in seconds, the configured users, \<open>encoding/json\<close>,
  \<open>compress/gzip\<close>, faults of the file system, and the HTTP library with the server behind it, which
  answers the next post with errors or with a status and a body.
\<close>

record UsageWorld =
  uw_faults :: faults
  uw_home :: string
  uw_now :: nat
  uw_uuid :: string
  uw_users :: "SubmissionUserInfo list"
  uw_stat_json :: "UsageStat \<Rightarrow> string + string"
  uw_request_json :: "UploadRequest \<Rightarrow> string + string"
  uw_gzip :: "string \<Rightarrow> string"
  uw_post :: "UsagePost list \<Rightarrow> string \<Rightarrow> (string \<times> string option) list \<Rightarrow> string list \<times> int \<times> string"

definition MAX_FILE_SIZE :: nat where "MAX_FILE_SIZE = 1 * 1024 * 1024"
definition MAX_NUM_FILES :: nat where "MAX_NUM_FILES = 20"
definition USAGE_FILE_PREFIX :: string where "USAGE_FILE_PREFIX = ''usage''"
definition USAGE_FILE_EXT :: string where "USAGE_FILE_EXT = ''.json.gz''"
definition USAGE_FILE :: string where "USAGE_FILE = USAGE_FILE_PREFIX @ USAGE_FILE_EXT"
definition MAX_UPLOAD_SIZE :: nat where "MAX_UPLOAD_SIZE = 10 * 1024 * 1024"

definition USAGE_DIR :: "UsageWorld \<Rightarrow> string" where
  "USAGE_DIR W = path_Join [uw_home W, ''.test161/usage'']"

definition USAGE_LOCK_FILE :: "UsageWorld \<Rightarrow> string" where
  "USAGE_LOCK_FILE W = path_Join [uw_home W, ''.test161/usage/usage.lock'']"

definition CUR_USAGE_LOCK_FILE :: "UsageWorld \<Rightarrow> string" where
  "CUR_USAGE_LOCK_FILE W = path_Join [uw_home W, ''.test161/usage/current.lock'']"

definition getCurUsageFilename :: "UsageWorld \<Rightarrow> string" where
  "getCurUsageFilename W = path_Join [USAGE_DIR W, USAGE_FILE]"

text \<open>The file operations of this code on regular files.\<close>

definition un_Size :: "UsageWorld \<Rightarrow> string \<Rightarrow> UsageState \<Rightarrow> string + nat" where
  "un_Size W p st =
     io_guard (uw_faults W) ''stat'' p
       (case gm_get (un_files st) p of None \<Rightarrow> Inl (no_entry ''stat'' p) | Some data \<Rightarrow> Inr (length data))"

definition un_Rename :: "UsageWorld \<Rightarrow> string \<Rightarrow> string \<Rightarrow> UsageState \<Rightarrow> string + UsageState" where
  "un_Rename W p q st =
     io_guard (uw_faults W) ''rename'' p
       (case gm_get (un_files st) p of
          None \<Rightarrow> Inl (no_entry ''rename'' p)
        | Some data \<Rightarrow> Inr (st\<lparr>un_files := gm_put q data (gm_del p (un_files st))\<rparr>))"

definition un_Remove :: "UsageWorld \<Rightarrow> string \<Rightarrow> UsageState \<Rightarrow> string + UsageState" where
  "un_Remove W p st =
     io_guard (uw_faults W) ''remove'' p
       (if gm_has (un_files st) p then Inr (st\<lparr>un_files := gm_del p (un_files st)\<rparr>)
        else Inl (no_entry ''remove'' p))"

text \<open>An operation whose error the code ignores.\<close>

definition un_ignore :: "(UsageState \<Rightarrow> string + UsageState) \<Rightarrow> UsageState \<Rightarrow> UsageState" where
  "un_ignore op st = (case op st of Inl _ \<Rightarrow> st | Inr st' \<Rightarrow> st')"

text \<open>Opening a file to append to it makes a new description, and the file when there is none.\<close>

definition un_OpenAppend :: "UsageWorld \<Rightarrow> string \<Rightarrow> UsageState \<Rightarrow> string + nat \<times> UsageState" where
  "un_OpenAppend W p st =
     io_guard (uw_faults W) ''open'' p
       (Inr (un_fds st,
             st\<lparr>un_fds := un_fds st + 1,
                un_files := (if gm_has (un_files st) p then un_files st else gm_put p [] (un_files st))\<rparr>))"

text \<open>\<open>ioutil.ReadDir\<close> gives the names in a directory in order.\<close>

definition dir_name :: "string \<Rightarrow> string \<Rightarrow> string option" where
  "dir_name dir p =
     (if prefix (dir @ ''/'') p \<and> CHR ''/'' \<notin> set (drop (length dir + 1) p) then Some (drop (length dir + 1) p)
      else None)"

definition dir_names :: "string \<Rightarrow> UsageState \<Rightarrow> string list" where
  "dir_names dir st = sort (List.map_filter (dir_name dir) (gm_keys (un_files st)))"

definition un_ReadDir :: "UsageWorld \<Rightarrow> string \<Rightarrow> UsageState \<Rightarrow> string + string list" where
  "un_ReadDir W dir st = io_guard (uw_faults W) ''readdir'' dir (Inr (dir_names dir st))"

subsection \<open>Locks\<close>

text \<open>
  \<open>flock\<close> belongs to an open file description. The result of \<open>lockFile\<close> is \<open>None\<close> when the call waits
  for another description to give the lock up. The code adds \<open>LOCK_NB\<close> (do not wait) when \<open>block\<close> is
  true. The descriptions are never closed by the code; what a garbage collection may close in a
  running process is left out.
\<close>

definition lockFile :: "UsageWorld \<Rightarrow> string \<Rightarrow> bool \<Rightarrow> UsageState \<Rightarrow> (string option \<times> UsageState) option" where
  "lockFile W fileName block st =
     (case un_OpenAppend W fileName st of
        Inl err \<Rightarrow> Some (Some err, st)
      | Inr (fd, st1) \<Rightarrow>
          (case uw_faults W ''flock'' fileName of
             Some err \<Rightarrow> Some (Some err, st1)
           | None \<Rightarrow>
               (case gm_get (un_locks st1) fileName of
                  None \<Rightarrow> Some (None, st1\<lparr>un_locks := gm_put fileName fd (un_locks st1)\<rparr>)
                | Some _ \<Rightarrow>
                    if block then Some (Some ''resource temporarily unavailable'', st1) else None)))"

text \<open>\<open>unlockFile\<close> opens the file again and unlocks the new description.\<close>

definition unlockFile :: "UsageWorld \<Rightarrow> string \<Rightarrow> UsageState \<Rightarrow> string option \<times> UsageState" where
  "unlockFile W fileName st =
     (case un_OpenAppend W fileName st of
        Inl err \<Rightarrow> (Some err, st)
      | Inr (fd, st1) \<Rightarrow>
          (case uw_faults W ''flock'' fileName of
             Some err \<Rightarrow> (Some err, st1)
           | None \<Rightarrow>
               (None, if gm_get (un_locks st1) fileName = Some fd
                      then st1\<lparr>un_locks := gm_del fileName (un_locks st1)\<rparr> else st1)))"

subsection \<open>Logging and pruning\<close>

definition getAllUsageFiles :: "UsageWorld \<Rightarrow> UsageState \<Rightarrow> string + string list" where
  "getAllUsageFiles W st =
     bind_ok (un_ReadDir W (USAGE_DIR W) st) (\<lambda>names.
       Inr (map (\<lambda>name. path_Join [USAGE_DIR W, name])
             (filter (\<lambda>name. HasPrefix name (USAGE_FILE_PREFIX @ ''_'') \<and> HasSuffix name USAGE_FILE_EXT) names)))"

function prune_loop :: "UsageWorld \<Rightarrow> string list \<Rightarrow> nat \<Rightarrow> nat \<Rightarrow> UsageState \<Rightarrow> UsageState" where
  "prune_loop W fs pos numDeletes st =
     (if pos < length fs \<and> numDeletes > 0
      then prune_loop W fs (pos + 1) (numDeletes - 1) (un_ignore (un_Remove W (fs ! pos)) st)
      else st)"
  by pat_completeness auto
termination by (relation "measure (\<lambda>(W, fs, pos, numDeletes, st). numDeletes)") auto

declare prune_loop.simps [simp del]

definition checkPruneUsageFiles :: "UsageWorld \<Rightarrow> UsageState \<Rightarrow> UsageState" where
  "checkPruneUsageFiles W st =
     (case getAllUsageFiles W st of
        Inl _ \<Rightarrow> st
      | Inr fs \<Rightarrow> if length fs > MAX_NUM_FILES then prune_loop W (sort fs) 0 (length fs - MAX_NUM_FILES) st else st)"

text \<open>The verb \<open>%011d\<close> for a time that is not negative.\<close>

definition pad_zeros :: "nat \<Rightarrow> nat \<Rightarrow> string" where
  "pad_zeros width n = replicate (width - length (Itoa n)) CHR ''0'' @ Itoa n"

definition usage_name :: "nat \<Rightarrow> string" where
  "usage_name now = USAGE_FILE_PREFIX @ ''_'' @ pad_zeros 11 now @ USAGE_FILE_EXT"

definition checkMoveUsgaeFile :: "UsageWorld \<Rightarrow> bool \<Rightarrow> UsageState \<Rightarrow> UsageState" where
  "checkMoveUsgaeFile W force st =
     (let source = getCurUsageFilename W;
          dest = path_Join [USAGE_DIR W, usage_name (uw_now W)]
      in case un_Size W source st of
           Inl _ \<Rightarrow> st
         | Inr sz \<Rightarrow>
             if force \<or> sz \<ge> MAX_FILE_SIZE then
               (let st1 = un_ignore (un_Rename W source dest) st
                in if force then st1 else checkPruneUsageFiles W st1)
             else st)"

text \<open>One compressed line is appended to the current file.\<close>

definition saveUsageStat :: "UsageWorld \<Rightarrow> UsageStat \<Rightarrow> UsageState \<Rightarrow> string option \<times> UsageState" where
  "saveUsageStat W stat st =
     (let fname = getCurUsageFilename W
      in case un_OpenAppend W fname st of
           Inl err \<Rightarrow> (Some err, st)
         | Inr (_, st1) \<Rightarrow>
             (case uw_stat_json W stat of
                Inl err \<Rightarrow> (Some err, st1)
              | Inr j \<Rightarrow>
                  (case uw_faults W ''write'' fname of
                     Some err \<Rightarrow> (Some err, st1)
                   | None \<Rightarrow>
                       (None, st1\<lparr>un_files := gm_put fname
                          ((case gm_get (un_files st1) fname of None \<Rightarrow> [] | Some d \<Rightarrow> d)
                            @ uw_gzip W (j @ [CHR 0x0A])) (un_files st1)\<rparr>))))"

definition logUsageStat ::
  "UsageWorld \<Rightarrow> TestGroup \<Rightarrow> string \<Rightarrow> int \<Rightarrow> int \<Rightarrow> UsageState \<Rightarrow> (string option \<times> UsageState) option" where
  "logUsageStat W tg tagTarget start_time end_time st =
     Option.bind (lockFile W (USAGE_LOCK_FILE W) False st) (\<lambda>(err, st1).
       let st2 = (if err = None then snd (unlockFile W (USAGE_LOCK_FILE W) (checkMoveUsgaeFile W False st1)) else st1)
       in Option.bind (lockFile W (CUR_USAGE_LOCK_FILE W) True st2) (\<lambda>(err, st3).
            case err of
              Some e \<Rightarrow> Some (Some e, st3)
            | None \<Rightarrow>
                (let users = map ui_Email (uw_users W);
                     stat = NewTestGroupUsageStat (uw_uuid W) (int (uw_now W)) users tagTarget tg start_time end_time;
                     (err, st4) = saveUsageStat W stat st3;
                     st5 = (case err of Some e \<Rightarrow> st4\<lparr>un_printed := un_printed st4 @ [e]\<rparr> | None \<Rightarrow> st4)
                 in Some (err, snd (unlockFile W (CUR_USAGE_LOCK_FILE W) st5)))))"

subsection \<open>Uploading\<close>

record fileSizeInfo =
  fi_name :: string
  fi_size :: nat

fun getFileSizes :: "UsageWorld \<Rightarrow> UsageState \<Rightarrow> string list \<Rightarrow> string + fileSizeInfo list" where
  "getFileSizes W st [] = Inr []"
| "getFileSizes W st (f # fs) =
     bind_ok (un_Size W f st) (\<lambda>sz.
       bind_ok (getFileSizes W st fs) (\<lambda>res. Inr (\<lparr>fi_name = f, fi_size = sz\<rparr> # res)))"

function chunk_loop :: "fileSizeInfo list \<Rightarrow> nat \<Rightarrow> nat \<Rightarrow> string list \<Rightarrow> nat \<Rightarrow> string list \<times> nat" where
  "chunk_loop fs curPos maxChunkSize res chunkSize =
     (if curPos < length fs then
        (if chunkSize + fi_size (fs ! curPos) \<le> maxChunkSize
         then chunk_loop fs (curPos + 1) maxChunkSize (res @ [fi_name (fs ! curPos)]) (chunkSize + fi_size (fs ! curPos))
         else (res, curPos))
      else (res, curPos))"
  by pat_completeness auto
termination by (relation "measure (\<lambda>(fs, curPos, maxChunkSize, res, chunkSize). length fs - curPos)") auto

declare chunk_loop.simps [simp del]

definition nextUploadChunk :: "fileSizeInfo list \<Rightarrow> nat \<Rightarrow> nat \<Rightarrow> string list \<times> nat" where
  "nextUploadChunk fs curPos maxChunkSize =
     (if curPos \<ge> length fs then ([], curPos) else chunk_loop fs curPos maxChunkSize [] 0)"

lemma chunk_loop_pos: "curPos \<le> snd (chunk_loop fs curPos m res sz)"
  by (induction fs curPos m res sz rule: chunk_loop.induct) (subst chunk_loop.simps, auto)

lemma nextUploadChunk_pos: "(chunk, newPos) = nextUploadChunk fs pos m \<Longrightarrow> pos \<le> newPos"
  using chunk_loop_pos [of pos fs m "[]" 0] by (auto simp: nextUploadChunk_def split: if_splits dest: arg_cong [of _ _ snd])

text \<open>The post of one chunk: the request as JSON and the files as they are now.\<close>

definition UPLOAD_TYPE_USAGE :: int where "UPLOAD_TYPE_USAGE = 0"

definition submit_chunk ::
  "UsageWorld \<Rightarrow> string list \<Rightarrow> string \<Rightarrow> UsageState \<Rightarrow> (string list \<times> int \<times> string) \<times> UsageState" where
  "submit_chunk W chunk req st =
     (let qs = map (\<lambda>f. (f, gm_get (un_files st) f)) chunk;
          r = uw_post W (un_posts st) req qs
      in (r, st\<lparr>un_posts := un_posts st @
                 [\<lparr>po_Request = req, po_Files = qs, po_Status = (if fst r = [] then Some (fst (snd r)) else None)\<rparr>]\<rparr>))"

definition StatusOK :: int where "StatusOK = 200"

definition int_text :: "int \<Rightarrow> string" where
  "int_text n = (if n < 0 then CHR ''-'' # Itoa (nat (- n)) else Itoa (nat n))"

function upload_loop :: "UsageWorld \<Rightarrow> fileSizeInfo list \<Rightarrow> nat \<Rightarrow> UsageState \<Rightarrow> string list \<times> UsageState" where
  "upload_loop W fs pos st =
     (if pos < length fs then
        (let (chunk, newPos) = nextUploadChunk fs pos MAX_UPLOAD_SIZE
         in if newPos = pos then upload_loop W fs (pos + 1) st
            else
              (case uw_request_json W \<lparr>ur_UploadType = UPLOAD_TYPE_USAGE, ur_Users = uw_users W\<rparr> of
                 Inl err \<Rightarrow> ([err], st)
               | Inr req \<Rightarrow>
                   (let ((errs, status, body), st1) = submit_chunk W chunk req st
                    in if errs \<noteq> [] then (errs, st1)
                       else if status \<noteq> StatusOK then
                         ([''Upload failed. Status code: '' @ int_text status @ '' Msg: '' @ body], st1)
                       else upload_loop W fs newPos (fold (\<lambda>f. un_ignore (un_Remove W f)) chunk st1))))
      else ([], st))"
  by pat_completeness auto
termination
proof (relation "measure (\<lambda>(W, fs, pos, st). length fs - pos)", goal_cases)
  case (3 W fs pos st x chunk newPos req y z errs st1 status body)
  have "pos \<le> newPos" by (rule nextUploadChunk_pos) (use 3 in simp)
  with 3 show ?case by simp
qed simp_all

declare upload_loop.simps [simp del]

definition uploadStatFiles :: "UsageWorld \<Rightarrow> string list \<Rightarrow> UsageState \<Rightarrow> string list \<times> UsageState" where
  "uploadStatFiles W fs st =
     (case getFileSizes W st fs of
        Inl err \<Rightarrow> ([err], st)
      | Inr allFileInfo \<Rightarrow> upload_loop W allFileInfo 0 st)"

definition moveCurrentUsage :: "UsageWorld \<Rightarrow> UsageState \<Rightarrow> (string option \<times> UsageState) option" where
  "moveCurrentUsage W st =
     (case un_Size W (getCurUsageFilename W) st of
        Inl _ \<Rightarrow> Some (None, st)
      | Inr _ \<Rightarrow>
          Option.bind (lockFile W (CUR_USAGE_LOCK_FILE W) True st) (\<lambda>(lockErr, st1).
            case lockErr of
              Some e \<Rightarrow> Some (Some e, st1)
            | None \<Rightarrow> Some (None, snd (unlockFile W (CUR_USAGE_LOCK_FILE W) (checkMoveUsgaeFile W True st1)))))"

text \<open>The part of \<open>doUploadUsage\<close> between taking the lock and the deferred unlock, and the whole.\<close>

definition upload_locked :: "UsageWorld \<Rightarrow> UsageState \<Rightarrow> (int \<times> UsageState) option" where
  "upload_locked W st1 =
     Option.bind (moveCurrentUsage W st1) (\<lambda>(err, st2).
       if err \<noteq> None then Some (1, st2)
       else case getAllUsageFiles W st2 of
           Inl e \<Rightarrow> Some (1, st2\<lparr>un_printed := un_printed st2 @ [e]\<rparr>)
         | Inr usageFiles \<Rightarrow>
             (if usageFiles \<noteq> [] then
                (let (errs, st3) = uploadStatFiles W usageFiles st2
                 in if errs \<noteq> [] then Some (1, st3\<lparr>un_printed := un_printed st3 @ errs\<rparr>) else Some (0, st3))
              else Some (0, st2)))"

definition doUploadUsage :: "UsageWorld \<Rightarrow> UsageState \<Rightarrow> (int \<times> UsageState) option" where
  "doUploadUsage W st =
     Option.bind (lockFile W (USAGE_LOCK_FILE W) True st) (\<lambda>(err, st1).
       if err \<noteq> None then Some (1, st1)
       else map_option (\<lambda>(code, st2). (code, snd (unlockFile W (USAGE_LOCK_FILE W) st2))) (upload_locked W st1))"

section \<open>Uploading: bounds, order, nothing lost\<close>

lemma getFileSizes_ok:
  "getFileSizes W st fs = Inr infos \<Longrightarrow>
     map fi_name infos = fs \<and>
     (\<forall>i\<in>set infos. \<exists>d. gm_get (un_files st) (fi_name i) = Some d \<and> length d = fi_size i)"
  by (induction fs arbitrary: infos)
    (auto simp: bind_ok_eq_Inr un_Size_def io_guard_Inr split: option.splits)

lemma take_drop_Suc:
  "pos < pos' \<Longrightarrow> pos < length fs \<Longrightarrow> take (pos' - pos) (drop pos fs) = fs ! pos # take (pos' - Suc pos) (drop (Suc pos) fs)"
  by (metis Cons_nth_drop_Suc Suc_diff_Suc take_Suc_Cons)

lemma chunk_loop_spec:
  "chunk_loop fs pos m res sz = (res', pos') \<Longrightarrow> sz \<le> m \<Longrightarrow> pos \<le> length fs \<Longrightarrow>
     pos \<le> pos' \<and> pos' \<le> length fs \<and>
     res' = res @ map fi_name (take (pos' - pos) (drop pos fs)) \<and>
     sz + sum_list (map fi_size (take (pos' - pos) (drop pos fs))) \<le> m \<and>
     (pos' = pos \<and> pos < length fs \<longrightarrow> m < sz + fi_size (fs ! pos))"
proof (induction fs pos m res sz arbitrary: res' pos' rule: chunk_loop.induct)
  case (1 fs pos m res sz)
  show ?case
  proof (cases "pos < length fs \<and> sz + fi_size (fs ! pos) \<le> m")
    case True
    then have "chunk_loop fs (pos + 1) m (res @ [fi_name (fs ! pos)]) (sz + fi_size (fs ! pos)) = (res', pos')"
      using 1(2) by (subst (asm) chunk_loop.simps) simp
    with 1(1) True have *: "pos + 1 \<le> pos'" "pos' \<le> length fs"
      "res' = res @ [fi_name (fs ! pos)] @ map fi_name (take (pos' - (pos + 1)) (drop (pos + 1) fs))"
      "sz + fi_size (fs ! pos) + sum_list (map fi_size (take (pos' - (pos + 1)) (drop (pos + 1) fs))) \<le> m"
      by auto
    then show ?thesis using True take_drop_Suc [of pos pos' fs] by auto
  next
    case False
    then have "(res', pos') = (res, pos)"
      using 1(2) by (subst (asm) chunk_loop.simps) (auto split: if_splits)
    with False 1(3,4) show ?thesis by auto
  qed
qed

text \<open>A chunk is a stretch of files within the limit; it is empty only at a file that is too big.\<close>

lemma nextUploadChunk_spec:
  assumes "nextUploadChunk fs pos m = (chunk, pos')" and "pos < length fs"
  shows "pos \<le> pos'" and "pos' \<le> length fs" and "chunk = map fi_name (take (pos' - pos) (drop pos fs))"
    and "sum_list (map fi_size (take (pos' - pos) (drop pos fs))) \<le> m"
    and "pos' = pos \<Longrightarrow> m < fi_size (fs ! pos)"
  using chunk_loop_spec [of fs pos m "[]" 0 chunk pos'] assms by (auto simp: nextUploadChunk_def)

text \<open>The files are the ones whose sizes were read, or they are gone.\<close>

definition files_match :: "fileSizeInfo list \<Rightarrow> UsageState \<Rightarrow> bool" where
  "files_match fs st \<longleftrightarrow> (\<forall>i\<in>set fs. \<forall>d. gm_get (un_files st) (fi_name i) = Some d \<longrightarrow> length d = fi_size i)"

definition post_size :: "UsagePost \<Rightarrow> nat" where
  "post_size po = sum_list (map (\<lambda>(_, c). case c of None \<Rightarrow> 0 | Some d \<Rightarrow> length d) (po_Files po))"

text \<open>What an upload may do: post chunks within the limit, and remove what the server took.\<close>

definition taken :: "UsagePost list \<Rightarrow> string \<Rightarrow> string \<Rightarrow> bool" where
  "taken posts p d \<longleftrightarrow> (\<exists>po\<in>set posts. po_Status po = Some StatusOK \<and> (p, Some d) \<in> set (po_Files po))"

definition only_removes :: "UsageState \<Rightarrow> UsageState \<Rightarrow> UsagePost list \<Rightarrow> bool" where
  "only_removes st st' posts \<longleftrightarrow>
     (\<forall>p d. gm_get (un_files st') p = Some d \<longrightarrow> gm_get (un_files st) p = Some d) \<and>
     (\<forall>p d. gm_get (un_files st) p = Some d \<longrightarrow> gm_get (un_files st') p = Some d \<or> taken posts p d)"

lemma only_removesD:
  "only_removes st st' posts \<Longrightarrow> gm_get (un_files st') p = Some d \<Longrightarrow> gm_get (un_files st) p = Some d"
  "only_removes st st' posts \<Longrightarrow> gm_get (un_files st) p = Some d \<Longrightarrow> gm_get (un_files st') p = Some d \<or> taken posts p d"
  by (auto simp: only_removes_def)

lemma only_removes_refl: "un_files st' = un_files st \<Longrightarrow> only_removes st st' posts"
  by (simp add: only_removes_def)

lemma taken_append: "taken (xs @ ys) p d \<longleftrightarrow> taken xs p d \<or> taken ys p d"
  by (auto simp: taken_def)

lemma only_removes_trans:
  "only_removes st st1 xs \<Longrightarrow> only_removes st1 st2 ys \<Longrightarrow> only_removes st st2 (xs @ ys)"
  unfolding only_removes_def taken_append by blast

lemma files_match_removes: "files_match fs st \<Longrightarrow> only_removes st st' posts \<Longrightarrow> files_match fs st'"
  by (auto simp: files_match_def only_removes_def)

lemma un_ignore_Remove:
  "un_posts (un_ignore (un_Remove W f) st) = un_posts st"
  "gm_get (un_files (un_ignore (un_Remove W f) st)) p =
     (if p = f \<and> uw_faults W ''remove'' f = None then None else gm_get (un_files st) p)"
  by (auto simp: un_ignore_def un_Remove_def io_guard_def gm_has_def split: option.splits)

lemma remove_all:
  "un_posts (fold (\<lambda>f. un_ignore (un_Remove W f)) chunk st) = un_posts st"
  "gm_get (un_files (fold (\<lambda>f. un_ignore (un_Remove W f)) chunk st)) p =
     (if p \<in> set chunk \<and> uw_faults W ''remove'' p = None then None else gm_get (un_files st) p)"
  by (induction chunk arbitrary: st) (auto simp: un_ignore_Remove)

lemma submit_chunk_facts:
  assumes "submit_chunk W chunk req st = ((errs, status, body), st1)"
  obtains po where "un_posts st1 = un_posts st @ [po]" "un_files st1 = un_files st"
    "po_Files po = map (\<lambda>f. (f, gm_get (un_files st) f)) chunk"
    "po_Status po = (if errs = [] then Some status else None)"
  using assms by (auto simp: submit_chunk_def Let_def)

lemma post_size_le:
  assumes "files_match fs st" and "set is \<subseteq> set fs"
    and "po_Files po = map (\<lambda>f. (f, gm_get (un_files st) f)) (map fi_name is)"
  shows "post_size po \<le> sum_list (map fi_size is)"
proof -
  have "(case gm_get (un_files st) (fi_name i) of None \<Rightarrow> 0 | Some d \<Rightarrow> length d) \<le> fi_size i" if "i \<in> set is" for i
    using that assms(1,2) by (auto simp: files_match_def split: option.splits)
  then show ?thesis unfolding post_size_def assms(3) by (simp add: o_def sum_list_mono)
qed

definition small_file :: "fileSizeInfo \<Rightarrow> bool" where
  "small_file i \<longleftrightarrow> fi_size i \<le> MAX_UPLOAD_SIZE"

definition upload_result :: "UsageWorld \<Rightarrow> fileSizeInfo list \<Rightarrow> UsageState \<Rightarrow> string list \<Rightarrow> UsageState \<Rightarrow> UsagePost list \<Rightarrow> bool" where
  "upload_result W is st errs st' new \<longleftrightarrow>
     un_posts st' = un_posts st @ new \<and>
     (\<forall>po\<in>set new. po_Files po \<noteq> [] \<and> post_size po \<le> MAX_UPLOAD_SIZE) \<and>
     only_removes st st' new \<and>
     (errs = [] \<longrightarrow>
        concat (map (map fst \<circ> po_Files) new) = map fi_name (filter small_file is) \<and>
        (\<forall>i\<in>set is. small_file i \<and> uw_faults W ''remove'' (fi_name i) = None \<longrightarrow>
           gm_get (un_files st') (fi_name i) = None))"

lemma small_stretch: "sum_list (map fi_size is) \<le> MAX_UPLOAD_SIZE \<Longrightarrow> list_all small_file is"
proof (induction "is")
  case (Cons i js)
  then show ?case using member_le_sum_list [of "fi_size i" "map fi_size (i # js)"] by (simp add: small_file_def)
qed simp

lemma upload_result_skip:
  "upload_result W (drop (Suc pos) fs) st errs st' new \<Longrightarrow> pos < length fs \<Longrightarrow> \<not> small_file (fs ! pos) \<Longrightarrow>
     upload_result W (drop pos fs) st errs st' new"
  unfolding upload_result_def by (subst (1 2) Cons_nth_drop_Suc [symmetric]) auto

lemma upload_result_fail:
  assumes "un_posts st' = un_posts st @ new" and "un_files st' = un_files st" and "errs \<noteq> []"
    and "\<And>po. po \<in> set new \<Longrightarrow> po_Files po \<noteq> [] \<and> post_size po \<le> MAX_UPLOAD_SIZE"
  shows "upload_result W is st errs st' new"
  using assms by (auto simp: upload_result_def only_removes_def)

lemma upload_result_chunk:
  assumes posts: "un_posts st2 = un_posts st @ [po]" "po_Files po = map (\<lambda>f. (f, gm_get (un_files st) f)) (map fi_name is)"
      "po_Status po = Some StatusOK"
    and fits: "is \<noteq> []" "post_size po \<le> MAX_UPLOAD_SIZE" "list_all small_file is"
    and gone: "\<And>p. gm_get (un_files st2) p =
        (if p \<in> fi_name ` set is \<and> uw_faults W ''remove'' p = None then None else gm_get (un_files st) p)"
    and rest: "upload_result W js st2 errs st' new"
  shows "upload_result W (is @ js) st errs st' (po # new)"
proof -
  have "only_removes st st2 [po]"
    using posts gone by (auto simp: only_removes_def taken_def)
  then have "only_removes st st' ([po] @ new)"
    using rest by (intro only_removes_trans) (auto simp: upload_result_def)
  moreover have "gm_get (un_files st') p = None" if "gm_get (un_files st2) p = None" for p
    using rest only_removesD(1) [of st2 st' new p] that
    by (cases "gm_get (un_files st') p") (auto simp: upload_result_def)
  moreover have "filter small_file is = is" using fits(3) by (simp add: list_all_iff)
  moreover have "map fst (po_Files po) = map fi_name is" by (simp add: posts(2) o_def)
  moreover have "po_Files po \<noteq> []" using fits(1) posts(2) by simp
  ultimately show ?thesis
    using rest posts(1) fits(2) gone by (auto simp: upload_result_def)
qed

lemma upload_loop_spec:
  "upload_loop W fs pos st = (errs, st') \<Longrightarrow> files_match fs st \<Longrightarrow> pos \<le> length fs \<Longrightarrow>
     \<exists>new. upload_result W (drop pos fs) st errs st' new"
proof (induction W fs pos st arbitrary: errs st' rule: upload_loop.induct)
  case (1 W fs pos st)
  note run = 1(3) [unfolded upload_loop.simps [of W fs pos st]]
  obtain chunk newPos where n: "nextUploadChunk fs pos MAX_UPLOAD_SIZE = (chunk, newPos)"
    by (cases "nextUploadChunk fs pos MAX_UPLOAD_SIZE")
  show ?case
  proof (cases "pos < length fs")
    case False
    with run have "errs = []" "st' = st" by simp_all
    with False show ?thesis by (intro exI [of _ "[]"]) (simp add: upload_result_def only_removes_refl)
  next
    case inside: True
    note chunk = nextUploadChunk_spec [OF n inside]
    show ?thesis
    proof (cases "newPos = pos")
      case True
      with run n inside have "upload_loop W fs (pos + 1) st = (errs, st')" by simp
      from 1(1) [OF inside n [symmetric] refl True this] inside 1(4)
      obtain new where "upload_result W (drop (Suc pos) fs) st errs st' new" by auto
      moreover have "\<not> small_file (fs ! pos)" using chunk(5) [OF True] by (simp add: small_file_def)
      ultimately have "upload_result W (drop pos fs) st errs st' new" using inside upload_result_skip by blast
      then show ?thesis ..
    next
      case moved: False
      define cs where "cs = take (newPos - pos) (drop pos fs)"
      have split: "drop pos fs = cs @ drop newPos fs"
        using append_take_drop_id [of "newPos - pos" "drop pos fs"] chunk(1) by (simp add: cs_def)
      have cs: "chunk = map fi_name cs" "cs \<noteq> []" "sum_list (map fi_size cs) \<le> MAX_UPLOAD_SIZE" "set cs \<subseteq> set fs"
        using chunk moved inside by (auto simp: cs_def dest: in_set_takeD in_set_dropD)
      show ?thesis
      proof (cases "uw_request_json W \<lparr>ur_UploadType = UPLOAD_TYPE_USAGE, ur_Users = uw_users W\<rparr>")
        case (Inl err)
        with run n inside moved have "errs = [err]" "st' = st" by simp_all
        then show ?thesis by (intro exI [of _ "[]"] upload_result_fail) simp_all
      next
        case (Inr req)
        obtain es status body st1 where s: "submit_chunk W chunk req st = ((es, status, body), st1)"
          by (metis prod.exhaust)
        from submit_chunk_facts [OF s] obtain po where po: "un_posts st1 = un_posts st @ [po]" "un_files st1 = un_files st"
          "po_Files po = map (\<lambda>f. (f, gm_get (un_files st) f)) chunk" "po_Status po = (if es = [] then Some status else None)" .
        have size: "post_size po \<le> MAX_UPLOAD_SIZE"
          using post_size_le [OF 1(4) cs(4), of po] po(3) cs(1,3) by simp
        show ?thesis
        proof (cases "es = [] \<and> status = StatusOK")
          case False
          with run n inside moved Inr s have "st' = st1" "errs \<noteq> []" by (auto split: if_splits)
          then show ?thesis using po size cs(1,2) by (intro exI [of _ "[po]"] upload_result_fail) auto
        next
          case True
          define st2 where "st2 = fold (\<lambda>f. un_ignore (un_Remove W f)) chunk st1"
          from run n inside moved Inr s True have r: "upload_loop W fs newPos st2 = (errs, st')" by (simp add: st2_def)
          have st2: "un_posts st2 = un_posts st @ [po]"
            "gm_get (un_files st2) p = (if p \<in> fi_name ` set cs \<and> uw_faults W ''remove'' p = None then None
               else gm_get (un_files st) p)" for p
            by (simp_all add: st2_def remove_all po cs(1))
          have "files_match fs st2" using 1(4) by (auto simp: files_match_def st2(2) split: if_splits)
          then have "\<exists>new. upload_result W (drop newPos fs) st2 errs st' new"
            using 1(2) [OF inside n [symmetric] refl moved Inr s [symmetric] refl refl] True r chunk(2)
            unfolding st2_def by blast
          then obtain new where "upload_result W (drop newPos fs) st2 errs st' new" ..
          then have "upload_result W (cs @ drop newPos fs) st errs st' (po # new)"
            using po(3,4) cs(1) True upload_result_chunk [OF st2(1) _ _ cs(2) size small_stretch [OF cs(3)] st2(2)] by simp
          then show ?thesis unfolding split ..
        qed
      qed
    qed
  qed
qed

definition file_size :: "UsageState \<Rightarrow> string \<Rightarrow> nat" where
  "file_size st f = (case gm_get (un_files st) f of None \<Rightarrow> 0 | Some d \<Rightarrow> length d)"

lemma uploadStatFiles_spec:
  assumes "uploadStatFiles W fs st = (errs, st')"
  obtains new "is" where "upload_result W is st errs st' new"
    "errs = [] \<Longrightarrow> map fi_name is = fs \<and> (\<forall>i\<in>set is. fi_size i = file_size st (fi_name i))"
proof (cases "getFileSizes W st fs")
  case (Inl err)
  with assms have "errs = [err]" "st' = st" by (simp_all add: uploadStatFiles_def)
  then show ?thesis by (intro that [of "[]" "[]"] upload_result_fail) simp_all
next
  case (Inr infos)
  note sizes = getFileSizes_ok [OF Inr]
  then have "files_match infos st" by (fastforce simp: files_match_def)
  moreover have "upload_loop W infos 0 st = (errs, st')" using assms Inr by (simp add: uploadStatFiles_def)
  ultimately obtain new where "upload_result W infos st errs st' new"
    using upload_loop_spec [of W infos 0 st errs st'] by auto
  then show ?thesis using sizes by (intro that [of infos new]) (fastforce simp: file_size_def)+
qed

text \<open>
  A successful upload posts every usage file of at most 10 MB, in the order of the list and each
  one once, in posts of at most 10 MB; a larger file is skipped.
\<close>

theorem upload_in_chunks:
  assumes "uploadStatFiles W fs st = ([], st')"
  shows "\<exists>new. un_posts st' = un_posts st @ new \<and>
     concat (map (map fst \<circ> po_Files) new) = filter (\<lambda>f. file_size st f \<le> MAX_UPLOAD_SIZE) fs \<and>
     (\<forall>po\<in>set new. po_Files po \<noteq> [] \<and> post_size po \<le> MAX_UPLOAD_SIZE)"
proof -
  from uploadStatFiles_spec [OF assms] obtain new "is" where
    r: "upload_result W is st [] st' new" and i: "map fi_name is = fs" "\<forall>i\<in>set is. fi_size i = file_size st (fi_name i)"
    by blast
  have "filter (\<lambda>f. file_size st f \<le> MAX_UPLOAD_SIZE) fs = map fi_name (filter small_file is)"
    using i(2) unfolding i(1) [symmetric] filter_map o_def small_file_def by (auto intro!: arg_cong [of _ _ "map fi_name"] filter_cong)
  with r show ?thesis by (intro exI [of _ new]) (simp add: upload_result_def)
qed

section \<open>The uploader\<close>

text \<open>The lock files and the current usage file are different files, whatever the home directory is.\<close>

lemma clean_comps_snoc: "plain_comp n \<Longrightarrow> clean_comps r acc (ws @ [n]) = clean_comps r acc ws @ [n]"
  by (induction r acc ws rule: clean_comps.induct) (auto simp: plain_comp_def split: list.split)

lemma last_name:
  assumes "plain_comp n" and "p = n \<or> (\<exists>x. p = x @ CHR ''/'' # n)"
  shows "last (path_Clean p) = last n"
proof -
  obtain ws where "Split CHR ''/'' p = ws @ [n]"
    using assms Split_plain [of "CHR ''/''" n] Split_snoc_sep [of "CHR ''/''" _ n] by (fastforce simp: plain_comp_def)
  then obtain cs where "clean_comps (rooted p) [] (Split CHR ''/'' p) = cs @ [n]"
    using clean_comps_snoc [OF assms(1)] by metis
  then show ?thesis using assms(1) by (cases "cs = []") (auto simp: path_Clean_def Join_with_snoc plain_comp_def Let_def)
qed

lemma last_joined:
  assumes "plain_comp n" and "p = n \<or> (\<exists>x. p = x @ CHR ''/'' # n)"
  shows "last (path_Join [dir, p]) = last n"
proof -
  have "p \<noteq> []" using assms by (auto simp: plain_comp_def)
  moreover have "\<exists>x. (dir @ CHR ''/'' # p) = x @ CHR ''/'' # n" using assms(2) by (metis append.assoc append_Cons)
  ultimately show ?thesis using last_name [OF assms(1)] assms(2) by (auto simp: path_Join_def)
qed

lemma current_no_lock: "getCurUsageFilename W \<notin> {USAGE_LOCK_FILE W, CUR_USAGE_LOCK_FILE W}"
proof -
  have "last (getCurUsageFilename W) = CHR ''z''"
    unfolding getCurUsageFilename_def
    by (subst last_joined [of USAGE_FILE]) (simp_all add: plain_comp_def USAGE_FILE_def USAGE_FILE_PREFIX_def USAGE_FILE_EXT_def)
  moreover have "last (USAGE_LOCK_FILE W) = CHR ''k''"
    unfolding USAGE_LOCK_FILE_def
    by (subst last_joined [of "''usage.lock''"]) (auto simp: plain_comp_def intro!: exI [of _ "''.test161/usage''"])
  moreover have "last (CUR_USAGE_LOCK_FILE W) = CHR ''k''"
    unfolding CUR_USAGE_LOCK_FILE_def
    by (subst last_joined [of "''current.lock''"]) (auto simp: plain_comp_def intro!: exI [of _ "''.test161/usage''"])
  ultimately show ?thesis by fastforce
qed

definition held :: "UsageWorld \<Rightarrow> UsageState \<Rightarrow> UsageState \<Rightarrow> bool" where
  "held W st st' \<longleftrightarrow> un_posts st' = un_posts st \<and>
     gm_get (un_files st') (getCurUsageFilename W) = gm_get (un_files st) (getCurUsageFilename W) \<and>
     (\<forall>p d. gm_get (un_files st) p = Some d \<longrightarrow> gm_get (un_files st') p = Some d)"

lemma held_refl [simp]: "held W st st"
  by (simp add: held_def)

lemma held_trans: "held W st st1 \<Longrightarrow> held W st1 st2 \<Longrightarrow> held W st st2"
  by (simp add: held_def)

lemma OpenAppend_held:
  "un_OpenAppend W p st = Inr (fd, st1) \<Longrightarrow> p \<in> {USAGE_LOCK_FILE W, CUR_USAGE_LOCK_FILE W} \<Longrightarrow> held W st st1"
  using current_no_lock [of W] by (auto simp: un_OpenAppend_def io_guard_Inr held_def gm_has_def)

lemma held_locks [simp]: "held W st (st1\<lparr>un_locks := l\<rparr>) \<longleftrightarrow> held W st st1"
  "held W st (st1\<lparr>un_printed := ps\<rparr>) \<longleftrightarrow> held W st st1"
  by (simp_all add: held_def)

lemma lockFile_held:
  assumes "lockFile W p b st = Some (err, st1)" and "p \<in> {USAGE_LOCK_FILE W, CUR_USAGE_LOCK_FILE W}"
  shows "held W st st1"
proof (cases "un_OpenAppend W p st")
  case (Inr r)
  moreover obtain fd st2 where "r = (fd, st2)" by fastforce
  ultimately have "held W st st2" using assms(2) by (intro OpenAppend_held) simp
  then show ?thesis using Inr \<open>r = (fd, st2)\<close> assms(1)
    by (auto simp: lockFile_def split: option.splits if_splits)
qed (use assms in \<open>auto simp: lockFile_def\<close>)

lemma unlockFile_held:
  assumes "p \<in> {USAGE_LOCK_FILE W, CUR_USAGE_LOCK_FILE W}"
  shows "held W st (snd (unlockFile W p st))"
proof (cases "un_OpenAppend W p st")
  case (Inr r)
  moreover obtain fd st2 where "r = (fd, st2)" by fastforce
  ultimately have "held W st st2" using assms by (intro OpenAppend_held) simp
  then show ?thesis using Inr \<open>r = (fd, st2)\<close>
    by (auto simp: unlockFile_def split: option.splits if_splits)
qed (auto simp: unlockFile_def)

lemma lockFile_block: "\<exists>err st1. lockFile W p True st = Some (err, st1)"
  by (auto simp: lockFile_def split: sum.splits option.splits)

lemma moveCurrentUsage_returns: "\<exists>err st1. moveCurrentUsage W st = Some (err, st1)"
  using lockFile_block [of W "CUR_USAGE_LOCK_FILE W" st]
  by (auto simp: moveCurrentUsage_def split: sum.splits option.splits)

lemma upload_locked_returns: "\<exists>code st1. upload_locked W st = Some (code, st1)"
  using moveCurrentUsage_returns [of W st] by (auto simp: upload_locked_def Let_def split: sum.splits prod.splits)

lemma doUploadUsage_returns: "\<exists>code st1. doUploadUsage W st = Some (code, st1)"
proof -
  obtain err st1 where "lockFile W (USAGE_LOCK_FILE W) True st = Some (err, st1)"
    using lockFile_block by blast
  with upload_locked_returns [of W st1] show ?thesis by (auto simp: doUploadUsage_def)
qed

text \<open>Where the current usage file goes when the uploader puts it aside.\<close>

definition put_aside :: "UsageWorld \<Rightarrow> string" where
  "put_aside W = path_Join [USAGE_DIR W, usage_name (uw_now W)]"

text \<open>
  Each content is kept in the sense of \<open>K\<close>, under its name or the one it was put aside with; only a
  file that already had this name may have been replaced, by the current usage file.
\<close>

definition file_kept :: "UsageWorld \<Rightarrow> UsageState \<Rightarrow> (string \<Rightarrow> string \<Rightarrow> bool) \<Rightarrow> string \<Rightarrow> string \<Rightarrow> bool" where
  "file_kept W st K p d \<longleftrightarrow>
     K p d \<or> p = getCurUsageFilename W \<and> K (put_aside W) d \<or>
     p = put_aside W \<and> (\<exists>c. gm_get (un_files st) (getCurUsageFilename W) = Some c \<and> K (put_aside W) c)"

definition kept_all :: "UsageWorld \<Rightarrow> UsageState \<Rightarrow> (string \<Rightarrow> string \<Rightarrow> bool) \<Rightarrow> bool" where
  "kept_all W st K \<longleftrightarrow> (\<forall>p d. gm_get (un_files st) p = Some d \<longrightarrow> file_kept W st K p d)"

lemma kept_all_mono: "kept_all W st K \<Longrightarrow> (\<And>p d. K p d \<Longrightarrow> K' p d) \<Longrightarrow> kept_all W st K'"
  unfolding kept_all_def file_kept_def by blast

lemma held_then_kept_all: "held W st st1 \<Longrightarrow> kept_all W st1 K \<Longrightarrow> kept_all W st K"
  by (simp add: held_def kept_all_def file_kept_def)

definition moved_only :: "UsageWorld \<Rightarrow> UsageState \<Rightarrow> UsageState \<Rightarrow> bool" where
  "moved_only W st st' \<longleftrightarrow> un_posts st' = un_posts st \<and> kept_all W st (\<lambda>p d. gm_get (un_files st') p = Some d)"

lemma held_moved: "held W st st1 \<Longrightarrow> moved_only W st st1"
  by (simp add: held_def moved_only_def kept_all_def file_kept_def)

lemma moved_then_held: "moved_only W st st1 \<Longrightarrow> held W st1 st2 \<Longrightarrow> moved_only W st st2"
  by (auto simp: held_def moved_only_def intro: kept_all_mono)

lemma held_then_moved: "held W st st1 \<Longrightarrow> moved_only W st1 st2 \<Longrightarrow> moved_only W st st2"
  using held_then_kept_all [of W st st1] by (simp add: moved_only_def held_def)

lemma checkMove_force: "moved_only W st (checkMoveUsgaeFile W True st)"
  by (auto simp: checkMoveUsgaeFile_def un_ignore_def un_Rename_def io_guard_Inr put_aside_def moved_only_def kept_all_def
      file_kept_def Let_def split: sum.splits option.splits)

lemma moveCurrentUsage_moved: "moveCurrentUsage W st = Some (err, st1) \<Longrightarrow> moved_only W st st1"
proof -
  assume run: "moveCurrentUsage W st = Some (err, st1)"
  show ?thesis
  proof (cases "un_Size W (getCurUsageFilename W) st")
    case (Inl e)
    with run show ?thesis by (auto simp: moveCurrentUsage_def intro: held_moved)
  next
    case (Inr sz)
    obtain le st2 where l: "lockFile W (CUR_USAGE_LOCK_FILE W) True st = Some (le, st2)"
      using lockFile_block by blast
    have h: "held W st st2" using lockFile_held [OF l] by simp
    show ?thesis
    proof (cases le)
      case None
      with run Inr l have "st1 = snd (unlockFile W (CUR_USAGE_LOCK_FILE W) (checkMoveUsgaeFile W True st2))"
        by (simp add: moveCurrentUsage_def)
      then show ?thesis
        using held_then_moved [OF h moved_then_held [OF checkMove_force unlockFile_held]] by simp
    next
      case (Some e)
      with run Inr l h show ?thesis by (auto simp: moveCurrentUsage_def intro: held_moved)
    qed
  qed
qed

text \<open>What the upload did to each file the uploader found.\<close>

definition safe :: "UsageState \<Rightarrow> UsagePost list \<Rightarrow> string \<Rightarrow> string \<Rightarrow> bool" where
  "safe st' new p d \<longleftrightarrow> gm_get (un_files st') p = Some d \<or> taken new p d"

definition kept_or_taken :: "UsageWorld \<Rightarrow> UsageState \<Rightarrow> UsageState \<Rightarrow> bool" where
  "kept_or_taken W st st' \<longleftrightarrow> (\<exists>new. un_posts st' = un_posts st @ new \<and> kept_all W st (safe st' new))"

lemma moved_upload_kept:
  assumes "moved_only W st st1" and "un_posts st2 = un_posts st1 @ new" and "only_removes st1 st2 new"
  shows "kept_or_taken W st st2"
  using assms by (auto simp: moved_only_def kept_or_taken_def only_removes_def safe_def intro: kept_all_mono)

lemma moved_kept: "moved_only W st st' \<Longrightarrow> kept_or_taken W st st'"
  by (rule moved_upload_kept [of W st st' st' "[]"]) (simp_all add: only_removes_refl)

lemma kept_then_held: "kept_or_taken W st st1 \<Longrightarrow> held W st1 st2 \<Longrightarrow> kept_or_taken W st st2"
  unfolding kept_or_taken_def held_def by (auto simp: safe_def elim!: kept_all_mono)

lemma held_then_kept: "held W st st1 \<Longrightarrow> kept_or_taken W st1 st2 \<Longrightarrow> kept_or_taken W st st2"
  using held_then_kept_all [of W st st1] by (auto simp: kept_or_taken_def held_def)

lemma safe_files: "un_files st' = un_files st \<Longrightarrow> safe st' = safe st"
  by (intro ext) (simp add: safe_def)

lemma upload_locked_kept: "upload_locked W st = Some (code, st1) \<Longrightarrow> kept_or_taken W st st1"
proof -
  assume run: "upload_locked W st = Some (code, st1)"
  obtain err st2 where m: "moveCurrentUsage W st = Some (err, st2)" using moveCurrentUsage_returns by blast
  note moved = moveCurrentUsage_moved [OF m]
  have same: "un_files st1 = un_files st2 \<Longrightarrow> un_posts st1 = un_posts st2 \<Longrightarrow> ?thesis"
    using moved_kept [OF moved] by (simp add: kept_or_taken_def safe_files [of st1 st2])
  show ?thesis
  proof (cases "err = None")
    case False
    with run m same show ?thesis by (auto simp: upload_locked_def)
  next
    case ok: True
    show ?thesis
    proof (cases "getAllUsageFiles W st2")
      case (Inl e)
      with run m ok same show ?thesis by (auto simp: upload_locked_def)
    next
      case (Inr fs)
      show ?thesis
      proof (cases "fs = []")
        case True
        with run m ok Inr same show ?thesis by (auto simp: upload_locked_def)
      next
        case False
        obtain errs st3 where u: "uploadStatFiles W fs st2 = (errs, st3)" by fastforce
        with run m ok Inr False have "un_files st1 = un_files st3" "un_posts st1 = un_posts st3"
          by (auto simp: upload_locked_def split: if_splits)
        moreover from uploadStatFiles_spec [OF u] obtain new "is" where "upload_result W is st2 errs st3 new" by blast
        then have "kept_or_taken W st st3"
          by (intro moved_upload_kept [OF moved, of _ new]) (auto simp: upload_result_def)
        ultimately show ?thesis by (simp add: kept_or_taken_def safe_files [of st1 st3])
      qed
    qed
  qed
qed

lemma doUploadUsage_kept:
  assumes "doUploadUsage W st = Some (code, st')"
  shows "kept_or_taken W st st'"
proof -
  obtain err st1 where l: "lockFile W (USAGE_LOCK_FILE W) True st = Some (err, st1)"
    using lockFile_block by blast
  have h: "held W st st1" using lockFile_held [OF l] by simp
  show ?thesis
  proof (cases "err = None")
    case False
    with assms l h show ?thesis by (auto simp: doUploadUsage_def intro: moved_kept held_moved)
  next
    case True
    obtain c st2 where u: "upload_locked W st1 = Some (c, st2)" using upload_locked_returns by blast
    with assms l True have "st' = snd (unlockFile W (USAGE_LOCK_FILE W) st2)" by (simp add: doUploadUsage_def)
    then show ?thesis
      using held_then_kept [OF h kept_then_held [OF upload_locked_kept [OF u] unlockFile_held]] by simp
  qed
qed

text \<open>
  C31. Whatever fails, the uploader keeps the content of each file on the disk: it is afterwards
  still there, under its old name or (the current usage file) under the name it was put aside with,
  or it was in a post of this run that the server answered with 200. The one exception is exact: when
  there is already a file with the name of the present second, the current usage file may have taken
  its place, and then it is the content of the current usage file that is kept or was taken under
  this name.
\<close>

theorem usage_not_lost:
  assumes "doUploadUsage W st = Some (code, st')" and "gm_get (un_files st) p = Some d"
  shows "\<exists>new. un_posts st' = un_posts st @ new \<and>
     (safe st' new p d \<or>
      p = getCurUsageFilename W \<and> safe st' new (put_aside W) d \<or>
      p = put_aside W \<and> (\<exists>c. gm_get (un_files st) (getCurUsageFilename W) = Some c \<and> safe st' new (put_aside W) c))"
  using doUploadUsage_kept [OF assms(1)] assms(2) unfolding kept_or_taken_def kept_all_def file_kept_def by blast

section \<open>Pruning\<close>

text \<open>Names of equal length with zeros in front are ordered like the numbers.\<close>

lemma append_less: "(p @ x < p @ y) \<longleftrightarrow> x < (y :: string)"
  by (induction p) auto

lemma less_append: "length x = length y \<Longrightarrow> (x @ z < y @ z) \<longleftrightarrow> x < (y :: string)"
  by (induction x y rule: list_induct2) (auto simp: append_less [of "[]"])

lemma dec_val_bounds:
  "list_all is_digit s \<Longrightarrow> a * 10 ^ length s \<le> dec_val a s \<and> dec_val a s < (a + 1) * 10 ^ length s"
proof (induction s arbitrary: a)
  case (Cons c s)
  let ?k = "(10::nat) ^ length s" and ?b = "10 * a + digit_val c"
  from Cons.prems have "is_digit c" by simp
  then have "digit_val c \<le> 9" unfolding is_digit_def digit_val_def by arith
  then have "(?b + 1) * ?k \<le> (a + 1) * 10 * ?k" by (intro mult_le_mono1) simp
  moreover have "a * 10 * ?k \<le> ?b * ?k" by (rule mult_le_mono1) simp
  moreover have "?b * ?k \<le> dec_val ?b s" "dec_val ?b s < (?b + 1) * ?k" using Cons by simp_all
  ultimately have "a * 10 * ?k \<le> dec_val ?b s" "dec_val ?b s < (a + 1) * 10 * ?k" by linarith+
  then show ?case by (simp add: algebra_simps)
qed simp

lemma digit_less:
  assumes "is_digit c" "is_digit d"
  shows "c < d \<longleftrightarrow> digit_val c < digit_val d" and "c = d \<longleftrightarrow> digit_val c = digit_val d"
proof -
  show "c < d \<longleftrightarrow> digit_val c < digit_val d"
    using assms unfolding less_char_def digit_val_def is_digit_def by arith
  have "of_char c = (of_char d :: nat) \<longleftrightarrow> digit_val c = digit_val d"
    using assms unfolding digit_val_def is_digit_def by arith
  then show "c = d \<longleftrightarrow> digit_val c = digit_val d" by simp
qed

lemma digits_less:
  "length x = length y \<Longrightarrow> list_all is_digit x \<Longrightarrow> list_all is_digit y \<Longrightarrow>
     x < y \<longleftrightarrow> dec_val a x < dec_val a y"
proof (induction x y arbitrary: a rule: list_induct2)
  case (Cons c x d y)
  let ?k = "(10::nat) ^ length x"
  have bx: "(10 * a + digit_val c) * ?k \<le> dec_val (10 * a + digit_val c) x"
      "dec_val (10 * a + digit_val c) x < (10 * a + digit_val c + 1) * ?k"
    using dec_val_bounds [of x "10 * a + digit_val c"] Cons.prems by auto
  have bY: "(10 * a + digit_val d) * ?k \<le> dec_val (10 * a + digit_val d) y"
      "dec_val (10 * a + digit_val d) y < (10 * a + digit_val d + 1) * ?k"
    using dec_val_bounds [of y "10 * a + digit_val d"] Cons.prems Cons.hyps by auto
  consider "digit_val c < digit_val d" | "digit_val c = digit_val d" | "digit_val d < digit_val c" by linarith
  then show ?case
  proof cases
    case 1
    then have "(10 * a + digit_val c + 1) * ?k \<le> (10 * a + digit_val d) * ?k" by (intro mult_le_mono1) simp
    with bx bY have "dec_val (10 * a + digit_val c) x < dec_val (10 * a + digit_val d) y" by linarith
    with 1 Cons.prems show ?thesis by (simp add: digit_less)
  next
    case 2
    then have "c = d" using Cons.prems digit_less(2) by simp
    then show ?thesis using Cons.IH [of "10 * a + digit_val c"] Cons.prems by simp
  next
    case 3
    then have "(10 * a + digit_val d + 1) * ?k \<le> (10 * a + digit_val c) * ?k" by (intro mult_le_mono1) simp
    with bx bY have "\<not> dec_val (10 * a + digit_val c) x < dec_val (10 * a + digit_val d) y" by linarith
    with 3 Cons.prems show ?thesis by (simp add: digit_less)
  qed
qed simp

lemma Itoa_length: "n < 10 ^ Suc k \<Longrightarrow> length (Itoa n) \<le> Suc k"
proof (induction k arbitrary: n)
  case 0
  then show ?case by (subst Itoa.simps) simp
next
  case (Suc k)
  then have "n div 10 < 10 ^ Suc k" by (simp add: div_less_iff_less_mult)
  with Suc.IH have "length (Itoa (n div 10)) \<le> Suc k" by blast
  then show ?case by (subst Itoa.simps) simp
qed

lemma dec_val_zeros: "dec_val 0 (replicate k CHR ''0'' @ s) = dec_val 0 s"
  by (induction k) (simp_all add: digit_val_def)

lemma pad_zeros_facts:
  assumes "n < 10 ^ 11"
  shows "length (pad_zeros 11 n) = 11" and "list_all is_digit (pad_zeros 11 n)" and "dec_val 0 (pad_zeros 11 n) = n"
proof -
  have "length (Itoa n) \<le> 11" using Itoa_length [of n 10] assms by simp
  then show "length (pad_zeros 11 n) = 11" by (simp add: pad_zeros_def)
  show "list_all is_digit (pad_zeros 11 n)"
    using Itoa_number [of n] by (auto simp: pad_zeros_def is_number_def list_all_iff is_digit_def)
  show "dec_val 0 (pad_zeros 11 n) = n" by (simp add: pad_zeros_def dec_val_zeros dec_val_Itoa)
qed

lemma usage_name_less:
  assumes "m < 10 ^ 11" "n < 10 ^ 11"
  shows "usage_name m < usage_name n \<longleftrightarrow> m < n"
  using digits_less [of "pad_zeros 11 m" "pad_zeros 11 n" 0] pad_zeros_facts [OF assms(1)] pad_zeros_facts [OF assms(2)]
  unfolding usage_name_def append_less by (simp add: less_append)

text \<open>The list of usage files is the ordered list of the files in the directory with such a name.\<close>

definition is_usage_file :: "UsageWorld \<Rightarrow> string \<Rightarrow> bool" where
  "is_usage_file W p \<longleftrightarrow> (\<exists>n. p = USAGE_DIR W @ ''/'' @ n \<and> CHR ''/'' \<notin> set n \<and>
     HasPrefix n (USAGE_FILE_PREFIX @ ''_'') \<and> HasSuffix n USAGE_FILE_EXT)"

lemma USAGE_DIR_Join:
  assumes "rooted (uw_home W)" and "CHR ''/'' \<notin> set n" and "HasPrefix n (USAGE_FILE_PREFIX @ ''_'')"
  shows "path_Join [USAGE_DIR W, n] = USAGE_DIR W @ ''/'' @ n"
proof -
  let ?cs = "clean_comps True [] (Split CHR ''/'' (uw_home W)) @ [''.test161'', ''usage'']"
  have "USAGE_DIR W = clean_path ?cs"
    using path_Join_rooted [OF assms(1), of "[''.test161'', ''usage'']"] by (simp add: USAGE_DIR_def plain_comp_def)
  moreover have "plain_comp n"
    using assms(2,3) by (auto simp: plain_comp_def HasPrefix_def prefix_def USAGE_FILE_PREFIX_def)
  moreover have "list_all plain_comp ?cs" using rooted_comps by (simp add: plain_comp_def)
  ultimately show ?thesis using path_Join_name [of ?cs n] by simp
qed

lemma usage_name_Join:
  assumes "rooted (uw_home W)" and "n < 10 ^ 11"
  shows "path_Join [USAGE_DIR W, usage_name n] = USAGE_DIR W @ ''/'' @ usage_name n"
proof (rule USAGE_DIR_Join [OF assms(1)])
  have "CHR ''/'' \<notin> set (pad_zeros 11 n)"
    using pad_zeros_facts(2) [OF assms(2)] by (auto simp: list_all_iff is_digit_def)
  then show "CHR ''/'' \<notin> set (usage_name n)" by (simp add: usage_name_def USAGE_FILE_PREFIX_def USAGE_FILE_EXT_def)
qed (simp add: usage_name_def HasPrefix_def)

lemma dir_name_iff: "dir_name dir p = Some n \<longleftrightarrow> p = dir @ ''/'' @ n \<and> CHR ''/'' \<notin> set n"
  by (auto simp: dir_name_def prefix_def)

lemma dir_name_path: "CHR ''/'' \<notin> set n \<Longrightarrow> dir_name dir (dir @ CHR ''/'' # n) = Some n"
  by (simp add: dir_name_iff)

lemma in_map_filter: "y \<in> set (List.map_filter f xs) \<longleftrightarrow> (\<exists>x\<in>set xs. f x = Some y)"
  by (force simp: map_filter_def)

lemma set_dir_names: "set (dir_names dir st) = {n. gm_has (un_files st) (dir @ ''/'' @ n) \<and> CHR ''/'' \<notin> set n}"
  by (force simp: dir_names_def in_map_filter dir_name_iff gm_has_iff)

lemma distinct_dir_names: "gm_ok (un_files st) \<Longrightarrow> distinct (dir_names dir st)"
proof -
  have "distinct ps \<Longrightarrow> distinct (List.map_filter (dir_name dir) ps)" for ps
    by (induction ps) (auto simp: map_filter_def dir_name_iff dir_name_path)
  then show "gm_ok (un_files st) \<Longrightarrow> ?thesis" by (simp add: dir_names_def gm_ok_def)
qed

lemma getAllUsageFiles_spec:
  assumes "rooted (uw_home W)" "gm_ok (un_files st)" "getAllUsageFiles W st = Inr fs"
  shows "sorted fs" and "distinct fs" and "set fs = {p. gm_has (un_files st) p \<and> is_usage_file W p}"
proof -
  define ns where "ns = filter (\<lambda>name. HasPrefix name (USAGE_FILE_PREFIX @ ''_'') \<and> HasSuffix name USAGE_FILE_EXT)
    (dir_names (USAGE_DIR W) st)"
  have join: "n \<in> set ns \<Longrightarrow> path_Join [USAGE_DIR W, n] = USAGE_DIR W @ ''/'' @ n" for n
    using USAGE_DIR_Join [OF assms(1)] by (simp add: ns_def set_dir_names)
  have "fs = map (\<lambda>name. path_Join [USAGE_DIR W, name]) ns"
    using assms(3) by (auto simp: getAllUsageFiles_def bind_ok_eq_Inr un_ReadDir_def io_guard_Inr ns_def)
  with join have fs: "fs = map (\<lambda>name. USAGE_DIR W @ ''/'' @ name) ns" by simp
  have ns: "sorted ns" "distinct ns"
    using distinct_dir_names [OF assms(2)] by (simp_all add: ns_def dir_names_def sorted_filter [of id, simplified])
  then show "distinct fs" by (simp add: fs distinct_map inj_on_def)
  have "USAGE_DIR W @ ''/'' @ x \<le> USAGE_DIR W @ ''/'' @ y \<longleftrightarrow> x \<le> y" for x y
    using append_less [of "USAGE_DIR W @ ''/''"] by (simp add: linorder_not_less [symmetric])
  with ns(1) show "sorted fs" by (simp add: fs sorted_map)
  show "set fs = {p. gm_has (un_files st) p \<and> is_usage_file W p}"
    by (auto simp: fs ns_def set_dir_names is_usage_file_def)
qed

lemma prune_loop_removes:
  "pos + k \<le> length fs \<Longrightarrow> prune_loop W fs pos k st = fold (\<lambda>f. un_ignore (un_Remove W f)) (take k (drop pos fs)) st"
proof (induction W fs pos k st rule: prune_loop.induct)
  case (1 W fs pos k st)
  show ?case
  proof (cases k)
    case (Suc j)
    with 1(2) have "pos < length fs" by simp
    with 1 Suc show ?thesis
      by (subst prune_loop.simps) (simp add: Cons_nth_drop_Suc [symmetric] del: drop_Suc_Cons)
  qed (simp add: prune_loop.simps)
qed

lemma gm_ok_removes: "gm_ok (un_files st) \<Longrightarrow> gm_ok (un_files (fold (\<lambda>f. un_ignore (un_Remove W f)) fs st))"
proof (induction fs arbitrary: st)
  case (Cons f fs)
  have "gm_ok (un_files (un_ignore (un_Remove W f) st))"
    using Cons.prems by (auto simp: un_ignore_def un_Remove_def io_guard_def split: option.splits)
  with Cons.IH show ?case by simp
qed simp

lemma sorted_distinct_eq:
  "sorted xs \<Longrightarrow> distinct xs \<Longrightarrow> sorted ys \<Longrightarrow> distinct ys \<Longrightarrow> set xs = set ys \<Longrightarrow> xs = (ys :: string list)"
  by (rule sorted_distinct_set_unique)

lemma prune_drops:
  assumes "rooted (uw_home W)" "gm_ok (un_files st)" "getAllUsageFiles W st = Inr fs"
    and "\<And>p. uw_faults W ''remove'' p = None"
  shows "getAllUsageFiles W (checkPruneUsageFiles W st) = Inr (drop (length fs - MAX_NUM_FILES) fs)"
proof (cases "length fs > MAX_NUM_FILES")
  case False
  with assms(3) show ?thesis by (simp add: checkPruneUsageFiles_def)
next
  case True
  note spec = getAllUsageFiles_spec [OF assms(1-3)]
  define k where "k = length fs - MAX_NUM_FILES"
  define st1 where "st1 = fold (\<lambda>f. un_ignore (un_Remove W f)) (take k fs) st"
  have "sort fs = fs" using spec(1) by (rule sorted_sort_id)
  then have prune: "checkPruneUsageFiles W st = st1"
    using True assms(3) by (simp add: checkPruneUsageFiles_def prune_loop_removes st1_def k_def)
  obtain fs1 where fs1: "getAllUsageFiles W st1 = Inr fs1"
    using assms(3) by (auto simp: getAllUsageFiles_def bind_ok_eq_Inr un_ReadDir_def io_guard_Inr)
  have "gm_ok (un_files st1)" using gm_ok_removes [OF assms(2)] by (simp add: st1_def)
  note spec1 = getAllUsageFiles_spec [OF assms(1) this fs1]
  have "gm_has (un_files st1) p \<longleftrightarrow> gm_has (un_files st) p \<and> p \<notin> set (take k fs)" for p
    by (simp add: st1_def gm_has_def remove_all assms(4))
  then have "set fs1 = set fs - set (take k fs)" using spec(3) spec1(3) by auto
  also have "set fs - set (take k fs) = set (drop k fs)"
    using set_take_disj_set_drop_if_distinct [OF spec(2), of k k] arg_cong [OF append_take_drop_id [of k fs], of set]
    by (auto simp only: set_append order_refl)
  finally have "fs1 = drop k fs"
    using spec spec1 by (intro sorted_distinct_eq) (simp_all add: sorted_wrt_drop)
  with fs1 prune show ?thesis by (simp add: k_def)
qed

text \<open>
  Pruning keeps the newest files: when the usage files in the directory carry the times \<open>ts\<close>
  (ascending), the files left are those of the last 20 times.
\<close>

theorem prune_keeps_newest:
  assumes "rooted (uw_home W)" "gm_ok (un_files st)" "getAllUsageFiles W st = Inr fs"
    and "set fs = (\<lambda>t. path_Join [USAGE_DIR W, usage_name t]) ` set ts" "sorted ts" "distinct ts" "\<forall>t\<in>set ts. t < 10 ^ 11"
    and "\<And>p. uw_faults W ''remove'' p = None"
  shows "getAllUsageFiles W (checkPruneUsageFiles W st) =
     Inr (map (\<lambda>t. path_Join [USAGE_DIR W, usage_name t]) (drop (length ts - MAX_NUM_FILES) ts))"
proof -
  note spec = getAllUsageFiles_spec [OF assms(1-3)]
  have join: "path_Join [USAGE_DIR W, usage_name t] = USAGE_DIR W @ ''/'' @ usage_name t" if "t \<in> set ts" for t
    by (rule usage_name_Join [OF assms(1)]) (use that assms(7) in blast)
  have less: "USAGE_DIR W @ ''/'' @ usage_name s < USAGE_DIR W @ ''/'' @ usage_name t \<longleftrightarrow> s < t"
    if "s \<in> set ts" "t \<in> set ts" for s t
    using append_less [of "USAGE_DIR W @ ''/''"] usage_name_less assms(7) that by simp
  let ?p = "\<lambda>t. USAGE_DIR W @ ''/'' @ usage_name t"
  have maps: "map (\<lambda>t. path_Join [USAGE_DIR W, usage_name t]) ts = map ?p ts" using join by simp
  have "sorted (map ?p ts)"
    unfolding sorted_map by (rule sorted_wrt_mono_rel [OF _ assms(5)]) (use less linorder_not_less in metis)
  moreover have "distinct (map ?p ts)"
    unfolding distinct_map inj_on_def using assms(6) less by (metis linorder_neq_iff)
  moreover have "set fs = set (map ?p ts)" unfolding assms(4) maps [symmetric] by simp
  ultimately have fs: "fs = map ?p ts" using spec(1,2) by (intro sorted_distinct_eq)
  have "getAllUsageFiles W (checkPruneUsageFiles W st) = Inr (drop (length fs - MAX_NUM_FILES) fs)"
    by (rule prune_drops [OF assms(1-3,8)])
  then show ?thesis unfolding fs maps [symmetric] by (simp add: drop_map)
qed

section \<open>The locks are not given up\<close>

lemma OpenAppend_locks: "un_OpenAppend W p st = Inr (fd, st1) \<Longrightarrow>
    fd = un_fds st \<and> un_fds st1 = un_fds st + 1 \<and> un_locks st1 = un_locks st"
  by (auto simp: un_OpenAppend_def io_guard_Inr)

text \<open>Every lock is held by a description that was opened before.\<close>

definition locks_old :: "UsageState \<Rightarrow> bool" where
  "locks_old st \<longleftrightarrow> (\<forall>p fd. gm_get (un_locks st) p = Some fd \<longrightarrow> fd < un_fds st)"

lemma unlockFile_keeps: "locks_old st \<Longrightarrow> un_locks (snd (unlockFile W p st)) = un_locks st"
proof (cases "un_OpenAppend W p st")
  case (Inr r)
  assume "locks_old st"
  obtain fd st1 where "r = (fd, st1)" by fastforce
  with Inr OpenAppend_locks have "fd = un_fds st" "un_locks st1 = un_locks st" by blast+
  with \<open>locks_old st\<close> have "gm_get (un_locks st1) p \<noteq> Some fd" by (auto simp: locks_old_def)
  then show ?thesis using Inr \<open>r = (fd, st1)\<close> \<open>un_locks st1 = un_locks st\<close>
    by (auto simp: unlockFile_def split: option.splits)
qed (simp add: unlockFile_def)

text \<open>An uploader that finds the lock taken gives up and posts nothing.\<close>

lemma locked_out:
  assumes "gm_get (un_locks st) (USAGE_LOCK_FILE W) \<noteq> None"
  shows "\<exists>st1. doUploadUsage W st = Some (1, st1) \<and> un_posts st1 = un_posts st"
proof -
  obtain err st1 where l: "lockFile W (USAGE_LOCK_FILE W) True st = Some (err, st1)"
    using lockFile_block by blast
  have "err \<noteq> None"
  proof (cases "un_OpenAppend W (USAGE_LOCK_FILE W) st")
    case (Inr r)
    obtain fd st2 where "r = (fd, st2)" by fastforce
    with Inr OpenAppend_locks have "un_locks st2 = un_locks st" by blast
    with l Inr \<open>r = (fd, st2)\<close> assms show ?thesis
      by (cases err) (auto simp: lockFile_def split: option.splits)
  qed (use l in \<open>auto simp: lockFile_def\<close>)
  with l lockFile_held [OF l] show ?thesis by (auto simp: doUploadUsage_def held_def)
qed

text \<open>After it has unlocked a file the process still holds it, and an uploader is locked out.\<close>

lemma unlock_keeps_locked:
  assumes "locks_old st" and "gm_get (un_locks st) (USAGE_LOCK_FILE W) \<noteq> None"
  shows "\<exists>st1. doUploadUsage W (snd (unlockFile W (USAGE_LOCK_FILE W) st)) = Some (1, st1)"
  using locked_out [of "snd (unlockFile W (USAGE_LOCK_FILE W) st)" W] unlockFile_keeps [OF assms(1)] assms(2) by auto

section \<open>Group records\<close>

lemma fold_test_stats:
  "gst_PointsAvailable (fold add_test_stat ts g) = fold (\<lambda>t n. n + tst_PointsAvailable t) ts (gst_PointsAvailable g)"
  "gst_Score (fold add_test_stat ts g) = fold (\<lambda>t n. n + tst_PointsEarned t) ts (gst_Score g)"
  "gst_Tests (fold add_test_stat ts g) = gst_Tests g"
  by (induction ts arbitrary: g) (simp_all add: add_test_stat_def)

text \<open>The record of a group carries the points of the group.\<close>

lemma usage_group_points:
  "\<exists>g. us_GroupInfo (NewTestGroupUsageStat uuid now users name tg s e) = Some g \<and>
     gst_PointsAvailable g = TotalPoints tg \<and> gst_Score g = EarnedPoints tg"
  by (simp add: NewTestGroupUsageStat_def Let_def fold_test_stats)
    (simp add: testStatsFromGroup_def newTestStat_def TotalPoints_def EarnedPoints_def fold_map o_def case_prod_unfold)

section \<open>Witnesses\<close>

definition sample_usage_world :: UsageWorld where
  "sample_usage_world = \<lparr>uw_faults = (\<lambda>_ _. None), uw_home = ''/h'', uw_now = 7, uw_uuid = ''u'', uw_users = [],
     uw_stat_json = (\<lambda>_. Inr ''{}''), uw_request_json = (\<lambda>_. Inr ''{}''), uw_gzip = (\<lambda>s. s),
     uw_post = (\<lambda>_ _ _. ([], 200, []))\<rparr>"

definition usage_state :: "(string, string) gomap \<Rightarrow> UsageState" where
  "usage_state files = \<lparr>un_files = files, un_locks = [], un_fds = 0, un_posts = [], un_printed = []\<rparr>"

lemma usage_not_lost_witness:
  "\<exists>code st'. doUploadUsage sample_usage_world (usage_state [(''/h/.test161/usage/usage.json.gz'', ''x'')]) = Some (code, st') \<and>
     (safe st' (un_posts st') ''/h/.test161/usage/usage.json.gz'' ''x'' \<or>
      safe st' (un_posts st') ''/h/.test161/usage/usage_00000000007.json.gz'' ''x'')"
proof -
  let ?W = sample_usage_world and ?st = "usage_state [(''/h/.test161/usage/usage.json.gz'', ''x'')]"
  obtain code st' where run: "doUploadUsage ?W ?st = Some (code, st')"
    using doUploadUsage_returns by blast
  have "gm_get (un_files ?st) ''/h/.test161/usage/usage.json.gz'' = Some ''x''" by (simp add: usage_state_def)
  moreover have "put_aside ?W = ''/h/.test161/usage/usage_00000000007.json.gz''" by code_simp
  moreover have "un_posts ?st = []" by (simp add: usage_state_def)
  ultimately show ?thesis using usage_not_lost [OF run] run by fastforce
qed

text \<open>Two moves in the same second: the second one replaces the file of the first.\<close>

lemma same_second_overwrites:
  "un_files (checkMoveUsgaeFile sample_usage_world True
     (usage_state [(''/h/.test161/usage/usage_00000000007.json.gz'', ''old''), (''/h/.test161/usage/usage.json.gz'', ''new'')])) =
   [(''/h/.test161/usage/usage_00000000007.json.gz'', ''new'')]"
  by code_simp

lemma upload_in_chunks_witness:
  "\<exists>st'. uploadStatFiles sample_usage_world [''/u''] (usage_state [(''/u'', ''x'')]) = ([], st') \<and>
     map (map fst \<circ> po_Files) (un_posts st') = [[''/u'']]"
proof -
  let ?st = "usage_state [(''/u'', ''x'')]"
  obtain st' where run: "uploadStatFiles sample_usage_world [''/u''] ?st = ([], st')"
  proof -
    have "fst (uploadStatFiles sample_usage_world [''/u''] ?st) = []"
      by (simp add: uploadStatFiles_def un_Size_def sample_usage_world_def usage_state_def io_guard_def upload_loop.simps
          nextUploadChunk_def chunk_loop.simps MAX_UPLOAD_SIZE_def submit_chunk_def Let_def StatusOK_def)
    then show ?thesis using that by (metis prod.collapse)
  qed
  from upload_in_chunks [OF run] obtain new where new: "un_posts st' = un_posts ?st @ new"
      "concat (map (map fst \<circ> po_Files) new) = filter (\<lambda>f. file_size ?st f \<le> MAX_UPLOAD_SIZE) [''/u'']"
      "\<forall>po\<in>set new. po_Files po \<noteq> [] \<and> post_size po \<le> MAX_UPLOAD_SIZE"
    by blast
  have posts: "un_posts st' = new" using new(1) by (simp add: usage_state_def)
  have one: "concat (map (map fst \<circ> po_Files) new) = [''/u'']"
    using new(2) by (simp add: file_size_def usage_state_def MAX_UPLOAD_SIZE_def)
  have full: "xs \<noteq> []" if "xs \<in> set (map (map fst \<circ> po_Files) new)" for xs
    using that new(3) by fastforce
  have "xss = [[y]]" if "concat xss = [y]" "\<And>xs. xs \<in> set xss \<Longrightarrow> xs \<noteq> []" for xss :: "'x list list" and y
    using that by (cases xss; cases "hd xss") (auto simp: append_eq_Cons_conv)
  from this [OF one full] posts run show ?thesis by simp
qed

lemma prune_keeps_newest_witness:
  "getAllUsageFiles sample_usage_world (checkPruneUsageFiles sample_usage_world
       (usage_state [(''/h/.test161/usage/usage_00000000005.json.gz'', [])])) =
     Inr [path_Join [USAGE_DIR sample_usage_world, usage_name 5]]"
proof -
  let ?W = sample_usage_world and ?st = "usage_state [(''/h/.test161/usage/usage_00000000005.json.gz'', [])]"
  have "rooted (uw_home ?W)" by code_simp
  moreover have "gm_ok (un_files ?st)" by (simp add: usage_state_def gm_ok_def)
  moreover have "getAllUsageFiles ?W ?st = Inr [''/h/.test161/usage/usage_00000000005.json.gz'']" by code_simp
  moreover have "set [''/h/.test161/usage/usage_00000000005.json.gz''] =
      (\<lambda>t. path_Join [USAGE_DIR ?W, usage_name t]) ` set [5]"
  proof -
    have "path_Join [USAGE_DIR ?W, usage_name 5] = ''/h/.test161/usage/usage_00000000005.json.gz''" by code_simp
    then show ?thesis by (simp only: list.set image_insert image_empty)
  qed
  moreover have "sorted [5 :: nat]" "distinct [5 :: nat]" "\<forall>t\<in>set [5 :: nat]. t < 10 ^ 11" by simp_all
  moreover have "uw_faults ?W ''remove'' p = None" for p by (simp add: sample_usage_world_def)
  ultimately have "getAllUsageFiles ?W (checkPruneUsageFiles ?W ?st) =
      Inr (map (\<lambda>t. path_Join [USAGE_DIR ?W, usage_name t]) (drop (length [5 :: nat] - MAX_NUM_FILES) [5]))"
    by (rule prune_keeps_newest)
  then show ?thesis by (simp add: MAX_NUM_FILES_def)
qed

end
