(* ===== verification/Server.thy ===== *)
theory Server
  imports SubmissionRun Environment GoFiles
begin

text \<open>
  \<open>test161-server\<close>: the checks of a submission request, the HTTP handlers that create and validate
  submissions and make keys, the configuration, and the control requests. The HTTP library calls a
  handler with a request; the response is a value that the handler builds.
\<close>

section \<open>Responses (\<open>comm.go\<close>)\<close>

text \<open>The first \<open>WriteHeader\<close> sets the status; a later one is ignored. Writing without a status sends 200.\<close>

record ResponseWriter =
  rw_Type :: "string option"
  rw_Code :: "int option"
  rw_Body :: string

definition JsonHeader :: string where "JsonHeader = ''application/json; charset=UTF-8''"
definition TextHeader :: string where "TextHeader = ''text/plain; charset=UTF-8''"

definition new_response :: ResponseWriter where
  "new_response = \<lparr>rw_Type = None, rw_Code = None, rw_Body = []\<rparr>"

definition SetType :: "string \<Rightarrow> ResponseWriter \<Rightarrow> ResponseWriter" where
  "SetType ty w = (if rw_Code w = None then w\<lparr>rw_Type := Some ty\<rparr> else w)"

definition WriteHeader :: "int \<Rightarrow> ResponseWriter \<Rightarrow> ResponseWriter" where
  "WriteHeader code w = (if rw_Code w = None then w\<lparr>rw_Code := Some code\<rparr> else w)"

definition WriteBody :: "string \<Rightarrow> ResponseWriter \<Rightarrow> ResponseWriter" where
  "WriteBody text w = (WriteHeader 200 w)\<lparr>rw_Body := rw_Body w @ text\<rparr>"

definition sendErrorCode :: "int \<Rightarrow> string \<Rightarrow> ResponseWriter \<Rightarrow> ResponseWriter" where
  "sendErrorCode code err w = WriteBody err (WriteHeader code (SetType TextHeader w))"

section \<open>Configuration\<close>

record SubmissionServerConfig =
  sc_CacheDir :: string
  sc_Test161Dir :: string
  sc_OverlayDir :: string
  sc_KeyDir :: string
  sc_UsageDir :: string
  sc_MaxTests :: uint
  sc_Database :: string
  sc_DBServers :: "string list"
  sc_DBUser :: string
  sc_DBReplicaSet :: string
  sc_DBPassword :: string
  sc_DBTimeout :: uint
  sc_DBSSL :: bool
  sc_APIPort :: uint
  sc_MinClient :: ProgramVersion
  sc_StaffOnlyTargets :: "string list"
  sc_DisabledTargets :: "string list"

definition CONF_FILE :: string where "CONF_FILE = ''.test161-server.conf''"

definition defaultConfig :: SubmissionServerConfig where
  "defaultConfig =
     \<lparr>sc_CacheDir = ''/var/cache/test161/builds'', sc_Test161Dir = ''../fixtures/'', sc_OverlayDir = [],
      sc_KeyDir = [], sc_UsageDir = [], sc_MaxTests = 0, sc_Database = ''test161'',
      sc_DBServers = [''localhost:27017''], sc_DBUser = [], sc_DBReplicaSet = [], sc_DBPassword = [],
      sc_DBTimeout = 10, sc_DBSSL = False, sc_APIPort = 4000, sc_MinClient = ProgramVersion 0 0 0,
      sc_StaffOnlyTargets = [], sc_DisabledTargets = []\<rparr>"

text \<open>The first file that can be found counts, even when it cannot be read then.\<close>

definition loadServerConfig ::
  "faults \<Rightarrow> (string \<Rightarrow> string + SubmissionServerConfig) \<Rightarrow> string \<Rightarrow> fs \<Rightarrow> string + SubmissionServerConfig" where
  "loadServerConfig fl yaml home fs =
     (case find (\<lambda>f. exists_file fl f fs) [CONF_FILE, path_Join [home, CONF_FILE]] of
        None \<Rightarrow> Inr defaultConfig
      | Some f \<Rightarrow> bind_ok (ioutil_ReadFile fl f fs) yaml)"

section \<open>The server\<close>

text \<open>
  The server with its environment and manager, the database behind the environment, the global lock
  map of pending submissions, and the submissions that were handed to \<open>RunAsync\<close>.
\<close>

record SubmissionServer =
  srv_conf :: SubmissionServerConfig
  srv_env :: TestEnvironment
  srv_pm :: "PersistenceManager option"
  srv_mgr :: SubmissionManager
  srv_pending :: pending
  srv_async :: "Submission list"

text \<open>\<open>connect\<close> is \<open>NewMongoPersistence\<close> with the connection data of the configuration.\<close>

definition setUpEnvironment ::
  "(SubmissionServerConfig \<Rightarrow> string + PersistenceManager) \<Rightarrow> EnvWorld \<Rightarrow>
   ((string + TestEnvironment) list \<Rightarrow> (string + TestEnvironment) list) \<Rightarrow> int \<Rightarrow>
   SubmissionServerConfig \<Rightarrow> string + SubmissionServer" where
  "setUpEnvironment connect w arr now conf =
     bind_ok (connect conf) (\<lambda>mongo.
       bind_ok (NewEnvironment w arr (sc_Test161Dir conf) (Some mongo)) (\<lambda>env.
         Inr \<lparr>srv_conf = conf,
              srv_env = env\<lparr>env_CacheDir := sc_CacheDir conf, env_OverlayRoot := sc_OverlayDir conf,
                            env_KeyDir := sc_KeyDir conf\<rparr>,
              srv_pm = Some mongo, srv_mgr = NewSubmissionManager now, srv_pending = [], srv_async = []\<rparr>))"

definition NewSubmissionServer where
  "NewSubmissionServer fl yaml home fs connect w arr now =
     bind_ok (loadServerConfig fl yaml home fs) (setUpEnvironment connect w arr now)"

text \<open>The answer of \<open>IsStaff\<close> with its error ignored.\<close>

definition known_staff :: "PersistenceManager option \<Rightarrow> Student \<Rightarrow> bool" where
  "known_staff pm student \<longleftrightarrow> (case IsStaff pm student of (Inr b, _) \<Rightarrow> b | _ \<Rightarrow> False)"

definition checkStaffOnlySubmission :: "SubmissionServer \<Rightarrow> Student list \<Rightarrow> string option" where
  "checkStaffOnlySubmission s students =
     (if sm_status (srv_mgr s) = SM_STAFF_ONLY \<and>
         (\<exists>student\<in>set students. \<not> known_staff (srv_pm s) student)
      then Some ''The submission server is currently not accepting new submissions from students'' else None)"

definition checkTargetBlacklists :: "SubmissionServer \<Rightarrow> Student list \<Rightarrow> string \<Rightarrow> string option" where
  "checkTargetBlacklists s students targetName =
     (if targetName \<in> set (sc_DisabledTargets (srv_conf s)) then
        Some (''The target '' @ [CHR 0x27] @ targetName @ [CHR 0x27] @ '' is currently disabled on the server.'')
      else
        (let isStaff = (\<forall>student\<in>set students. known_staff (srv_pm s) student)
         in if \<not> isStaff \<and> targetName \<in> set (sc_StaffOnlyTargets (srv_conf s)) then
              Some (''The target '' @ [CHR 0x27] @ targetName @ [CHR 0x27]
                @ '' is currently disabled on the server for students.'')
            else None))"

text \<open>The status and the error; \<open>None\<close> lets the request pass.\<close>

definition validateRequest :: "SubmissionServer \<Rightarrow> SubmissionRequest \<Rightarrow> (int \<times> string) option" where
  "validateRequest s request =
     (if CompareTo (rq_ClientVersion request) (sc_MinClient (srv_conf s)) < 0 then
        Some (406, ''test161 version too old, test161-server requires version '' @
                   ProgramVersion_String (sc_MinClient (srv_conf s)))
      else if sm_status (srv_mgr s) = SM_NOT_ACCEPTING then
        Some (503, ''The submission server is currently not accepting new submissions'')
      else
        (case Request_Validate (srv_pm s) (srv_env s) request of
           Inl err \<Rightarrow> Some (422, err)
         | Inr students \<Rightarrow>
             (case checkStaffOnlySubmission s students of
                Some err \<Rightarrow> Some (503, err)
              | None \<Rightarrow>
                  (case checkTargetBlacklists s students (rq_Target request) of
                     Some err \<Rightarrow> Some (503, err)
                   | None \<Rightarrow> None))))"

section \<open>Requests\<close>

text \<open>
  The body of a request with an error of reading it and an error of closing it. JSON is decoded and
  encoded by \<open>encoding/json\<close>.
\<close>

record HttpRequest =
  hr_Body :: string
  hr_ReadErr :: "string option"
  hr_CloseErr :: "string option"

record ServerJson =
  js_request :: "string \<Rightarrow> string + SubmissionRequest"
  js_keygen :: "string \<Rightarrow> string + string \<times> string"
  js_error :: "string \<Rightarrow> string"
  js_strings :: "string list \<Rightarrow> string"
  js_keys :: "RequestKeyResonse list \<Rightarrow> string"
  js_targets :: "TargetListItem list \<Rightarrow> string"
  js_stats :: "Test161Stats \<Rightarrow> string"

text \<open>Reading stops at the limit. A failed close writes a status and goes on.\<close>

definition read_request ::
  "nat \<Rightarrow> HttpRequest \<Rightarrow> ResponseWriter \<Rightarrow> string option \<times> ResponseWriter" where
  "read_request limit r w =
     (case hr_ReadErr r of
        Some _ \<Rightarrow> (None, WriteHeader 400 w)
      | None \<Rightarrow> (Some (take limit (hr_Body r)), if hr_CloseErr r = None then w else WriteHeader 400 w))"

definition submissionRequestFromHttp ::
  "ServerJson \<Rightarrow> HttpRequest \<Rightarrow> ResponseWriter \<Rightarrow> SubmissionRequest option \<times> ResponseWriter" where
  "submissionRequestFromHttp js r w =
     (case read_request (1 * 1024 * 1024) r w of
        (None, w1) \<Rightarrow> (None, w1)
      | (Some body, w1) \<Rightarrow>
          (case js_request js body of
             Inl err \<Rightarrow> (None, WriteBody (js_error js err) (WriteHeader 400 (SetType JsonHeader w1)))
           | Inr request \<Rightarrow> (Some request, w1)))"

definition RunAsync :: "Submission \<Rightarrow> SubmissionServer \<Rightarrow> SubmissionServer" where
  "RunAsync submission s = s\<lparr>srv_async := srv_async s @ [submission]\<rparr>"

text \<open>The result \<open>None\<close> is a panic in the handler.\<close>

definition createSubmission ::
  "ServerJson \<Rightarrow> SubmissionWorld \<Rightarrow> HttpRequest \<Rightarrow> SubmissionServer \<Rightarrow> (ResponseWriter \<times> SubmissionServer) option" where
  "createSubmission js sw r s =
     (case submissionRequestFromHttp js r new_response of
        (None, w) \<Rightarrow> Some (w, s)
      | (Some request, w) \<Rightarrow>
          (case validateRequest s request of
             Some (code, err) \<Rightarrow> Some (sendErrorCode code err w, s)
           | None \<Rightarrow>
               (case NewSubmission sw (srv_pm s) request (srv_env s) (srv_pending s) of
                  (Inl None, _) \<Rightarrow> None
                | (Inl (Some errs), pend) \<Rightarrow>
                    Some (WriteBody (js_strings js errs) (WriteHeader 422 (SetType JsonHeader w)),
                          s\<lparr>srv_pending := pend\<rparr>)
                | (Inr submission, pend) \<Rightarrow>
                    Some (WriteHeader 201 w, RunAsync submission (s\<lparr>srv_pending := pend\<rparr>)))))"

definition validateSubmission ::
  "ServerJson \<Rightarrow> (string \<Rightarrow> (string + string) option) \<Rightarrow> (string \<Rightarrow> string) \<Rightarrow> HttpRequest \<Rightarrow> SubmissionServer \<Rightarrow> ResponseWriter" where
  "validateSubmission js key_files md5 r s =
     (case submissionRequestFromHttp js r new_response of
        (None, w) \<Rightarrow> w
      | (Some request, w) \<Rightarrow>
          (case validateRequest s request of
             Some (code, err) \<Rightarrow> sendErrorCode code err w
           | None \<Rightarrow>
               (let keyInfo = CheckUserKeys key_files md5 (srv_env s) request;
                    w1 = WriteHeader 200 (SetType JsonHeader w)
                in if keyInfo \<noteq> [] then WriteBody (js_keys js keyInfo) w1 else w1)))"

definition listTargets :: "ServerJson \<Rightarrow> (string, string) gomap \<Rightarrow> SubmissionServer \<Rightarrow> ResponseWriter" where
  "listTargets js msgs s =
     WriteBody (js_targets js (TargetList msgs (srv_env s))) (WriteHeader 200 (SetType JsonHeader new_response))"

definition getStats :: "ServerJson \<Rightarrow> manager \<Rightarrow> SubmissionServer \<Rightarrow> ResponseWriter" where
  "getStats js mgr s =
     WriteBody (js_stats js (CombinedStats mgr mgr (srv_mgr s))) (WriteHeader 200 (SetType JsonHeader new_response))"

subsection \<open>Keys (\<open>submission.go\<close>)\<close>

text \<open>\<open>ssh_keygen\<close> runs the program for a private key file; it can fail and changes the file system.\<close>

definition KeyGen ::
  "faults \<Rightarrow> (string \<Rightarrow> fs \<Rightarrow> string option \<times> fs) \<Rightarrow> PersistenceManager option \<Rightarrow> TestEnvironment \<Rightarrow>
   string \<Rightarrow> string \<Rightarrow> fs \<Rightarrow> (string option + string) \<times> fs \<times> Student option" where
  "KeyGen fl ssh_keygen pm env email token fs =
     (if env_KeyDir env = [] then (Inl (Some ''No key directory specified''), fs, None)
      else if \<not> exists_file fl (env_KeyDir env) fs then (Inl (Some ''Key directory not found''), fs, None)
      else case pm of
          None \<Rightarrow> (Inl None, fs, None)
        | Some p \<Rightarrow>
            (case getStudents p email token of
               Inl err \<Rightarrow> (Inl (Some err), fs, None)
             | Inr students \<Rightarrow>
                 (let studentDir = path_Join [env_KeyDir env, email];
                      privkey = path_Join [studentDir, ''id_rsa''];
                      pubkey = privkey @ ''.pub'';
                      dir = (if exists_file fl studentDir fs
                             then Inr (ignoring (os_Remove fl pubkey) (ignoring (os_Remove fl privkey) fs))
                             else os_Mkdir fl studentDir fs)
                  in case dir of
                       Inl err \<Rightarrow> (Inl (Some err), fs, None)
                     | Inr fs1 \<Rightarrow>
                         (case ssh_keygen privkey fs1 of
                            (Some err, fs2) \<Rightarrow> (Inl (Some err), fs2, None)
                          | (None, fs2) \<Rightarrow>
                              (case ioutil_ReadFile fl pubkey fs2 of
                                 Inl err \<Rightarrow> (Inl (Some err), fs2, None)
                               | Inr data \<Rightarrow> (Inr data, fs2, Some ((hd students)\<lparr>stu_PublicKey := data\<rparr>)))))))"

text \<open>
  The student of the result goes to the database; an error of that is dropped by the code. Without a
  database \<open>getStudents\<close> dereferences a nil interface (\<open>Inl None\<close>).
\<close>

definition keygen ::
  "ServerJson \<Rightarrow> faults \<Rightarrow> (string \<Rightarrow> fs \<Rightarrow> string option \<times> fs) \<Rightarrow> HttpRequest \<Rightarrow> SubmissionServer \<Rightarrow> fs \<Rightarrow>
   (ResponseWriter \<times> fs) option" where
  "keygen js fl ssh_keygen r s fs =
     (case read_request (2 * 1024) r new_response of
        (None, w) \<Rightarrow> Some (w, fs)
      | (Some body, w) \<Rightarrow>
          (case js_keygen js body of
             Inl _ \<Rightarrow> Some (sendErrorCode 400 ''Error unmarshalling keygen request.'' w, fs)
           | Inr (email, token) \<Rightarrow>
               (case KeyGen fl ssh_keygen (srv_pm s) (srv_env s) email token fs of
                  (Inl None, _) \<Rightarrow> None
                | (Inl (Some err), fs1, _) \<Rightarrow> Some (sendErrorCode 422 err w, fs1)
                | (Inr key, fs1, _) \<Rightarrow> Some (WriteBody key (WriteHeader 200 w), fs1))))"

section \<open>Control (\<open>control.go\<close>)\<close>

record ControlRequest =
  cr_Message :: int
  cr_NewCapacity :: uint

abbreviation CTRL_PAUSE :: int where "CTRL_PAUSE \<equiv> 0"
abbreviation CTRL_RESUME :: int where "CTRL_RESUME \<equiv> 1"
abbreviation CTRL_STATUS :: int where "CTRL_STATUS \<equiv> 2"
abbreviation CTRL_SETCAPACITY :: int where "CTRL_SETCAPACITY \<equiv> 3"
abbreviation CTRL_GETCAPACITY :: int where "CTRL_GETCAPACITY \<equiv> 4"
abbreviation CTRL_STAFF_ONLY :: int where "CTRL_STAFF_ONLY \<equiv> 5"

definition status_code :: "sm_status \<Rightarrow> int" where
  "status_code st = (case st of SM_ACCEPTING \<Rightarrow> 0 | SM_NOT_ACCEPTING \<Rightarrow> 1 | SM_STAFF_ONLY \<Rightarrow> 2)"

text \<open>The state is the server, if there is one yet, and the global test manager.\<close>

type_synonym control_state = "SubmissionServer option \<times> manager"

definition on_mgr :: "(SubmissionManager \<Rightarrow> SubmissionManager) \<Rightarrow> SubmissionServer \<Rightarrow> SubmissionServer" where
  "on_mgr f s = s\<lparr>srv_mgr := f (srv_mgr s)\<rparr>"

definition Control :: "ControlRequest \<Rightarrow> control_state \<Rightarrow> (string + int) \<times> control_state" where
  "Control msg = (\<lambda>(srv, mgr).
     case srv of
       None \<Rightarrow> (Inl ''SubmissionManager is not initialized'', None, mgr)
     | Some s \<Rightarrow>
         if cr_Message msg = CTRL_PAUSE then (Inr 0, Some (on_mgr Pause s), mgr)
         else if cr_Message msg = CTRL_RESUME then (Inr 0, Some (on_mgr Resume s), mgr)
         else if cr_Message msg = CTRL_STAFF_ONLY then (Inr 0, Some (on_mgr SetStaffOnly s), mgr)
         else if cr_Message msg = CTRL_STATUS then (Inr (status_code (sm_status (srv_mgr s))), Some s, mgr)
         else if cr_Message msg = CTRL_GETCAPACITY then (Inr (sint (ManagerCapacity mgr)), Some s, mgr)
         else if cr_Message msg = CTRL_SETCAPACITY then (Inr 0, Some s, SetManagerCapacity (cr_NewCapacity msg) mgr)
         else (Inl ''Unrecongnized control message'', Some s, mgr))"

text \<open>\<open>dial\<close> is an error of the connection to the control socket of the running server.\<close>

definition doCtrlRequest :: "string option \<Rightarrow> ControlRequest \<Rightarrow> control_state \<Rightarrow> (string + int) \<times> control_state" where
  "doCtrlRequest dial req st = (case dial of Some err \<Rightarrow> (Inl err, st) | None \<Rightarrow> Control req st)"

definition simple_request :: "int \<Rightarrow> ControlRequest" where
  "simple_request msg = \<lparr>cr_Message = msg, cr_NewCapacity = 0\<rparr>"

definition CtrlPause where "CtrlPause dial = doCtrlRequest dial (simple_request CTRL_PAUSE)"
definition CtrlResume where "CtrlResume dial = doCtrlRequest dial (simple_request CTRL_RESUME)"
definition CtrlSetStaffOnly where "CtrlSetStaffOnly dial = doCtrlRequest dial (simple_request CTRL_STAFF_ONLY)"
definition CtrlStatus where "CtrlStatus dial = doCtrlRequest dial (simple_request CTRL_STATUS)"
definition CtrlGetCapacity where "CtrlGetCapacity dial = doCtrlRequest dial (simple_request CTRL_GETCAPACITY)"

text \<open>A negative number wraps around.\<close>

definition CtrlSetCapacity :: "string option \<Rightarrow> string \<Rightarrow> control_state \<Rightarrow> (string + int) \<times> control_state" where
  "CtrlSetCapacity dial argCap st =
     (case Atoi argCap of
        None \<Rightarrow> (Inl (''strconv.Atoi: parsing '' @ argCap @ '': invalid syntax''), st)
      | Some newCap \<Rightarrow> doCtrlRequest dial \<lparr>cr_Message = CTRL_SETCAPACITY, cr_NewCapacity = word_of_int newCap\<rparr> st)"

section \<open>The command line (\<open>server.go\<close>)\<close>

definition status_text :: "(int \<Rightarrow> string) \<Rightarrow> int \<Rightarrow> string" where
  "status_text show_int status =
     (if status = status_code SM_ACCEPTING then ''test161 server: accepting submissions''
      else if status = status_code SM_NOT_ACCEPTING then ''test161 server: not accepting submissions''
      else if status = status_code SM_STAFF_ONLY then ''test161 server: accepting submissions for staff only''
      else ''test161 server: unknown status '' @ show_int status)"

text \<open>
  The client side of the command line: the arguments after the name of the program (not empty), the
  exit code, and the lines that are printed. Numbers are printed by \<open>show_int\<close>.
\<close>

definition control_main ::
  "(int \<Rightarrow> string) \<Rightarrow> string option \<Rightarrow> string list \<Rightarrow> control_state \<Rightarrow> int \<times> string list \<times> control_state" where
  "control_main show_int dial args st =
     (let cmd = hd args;
          quiet = (\<lambda>(r, st'). case r of Inl err \<Rightarrow> (1, [''Error processing request: '' @ err], st') | Inr _ \<Rightarrow> (0, [], st'));
          say = (\<lambda>f (r, st'). case r of Inl err \<Rightarrow> (1, [''Error processing request: '' @ err], st') | Inr n \<Rightarrow> (0, [f n], st'))
      in if cmd = ''status'' then say (status_text show_int) (CtrlStatus dial st)
         else if cmd = ''pause'' then quiet (CtrlPause dial st)
         else if cmd = ''resume'' then quiet (CtrlResume dial st)
         else if cmd = ''staff-only'' then quiet (CtrlSetStaffOnly dial st)
         else if cmd = ''set-capacity'' then
           (if length args \<noteq> 2 then (1, [''Error processing request: Wrong number of arguments to set-capacity''], st)
            else quiet (CtrlSetCapacity dial (args ! 1) st))
         else if cmd = ''get-capacity'' then say (\<lambda>n. ''Current test capacity: '' @ show_int n) (CtrlGetCapacity dial st)
         else if cmd = ''version'' then (0, [''test161-server version: '' @ ProgramVersion_String this_Version], st)
         else (2, [''Unknown command: '' @ cmd], st))"

text \<open>Starting the server: the capacity of the test manager comes from the configuration.\<close>

definition SubmissionServer_Start :: "int \<Rightarrow> SubmissionServer \<Rightarrow> manager \<Rightarrow> manager" where
  "SubmissionServer_Start now s mgr = start now (SetManagerCapacity (sc_MaxTests (srv_conf s)) mgr)"

section \<open>What a created submission has passed\<close>

lemma Request_Validate_Copy: "Request_Validate pm (CopyEnvironment env) request = Request_Validate pm env request"
  by (simp add: Request_Validate_def CopyEnvironment_def)

lemma NewSubmission_students:
  "NewSubmission w pm request env pend = (Inr s, pend') \<Longrightarrow> Request_Validate pm env request = Inr (sb_students s)"
  by (auto simp: NewSubmission_def Let_def Request_Validate_Copy split: sum.splits option.splits)

lemma not_known_staff: "(case IsStaff pm student of (Inr b, _) \<Rightarrow> \<not> b | _ \<Rightarrow> True) \<longleftrightarrow> \<not> known_staff pm student"
  by (simp add: known_staff_def split: prod.split sum.split)

definition admitted :: "SubmissionServer \<Rightarrow> SubmissionRequest \<Rightarrow> Student list \<Rightarrow> bool" where
  "admitted s request students \<longleftrightarrow>
     CompareTo (rq_ClientVersion request) (sc_MinClient (srv_conf s)) \<ge> 0 \<and>
     sm_status (srv_mgr s) \<noteq> SM_NOT_ACCEPTING \<and>
     rq_Target request \<notin> set (sc_DisabledTargets (srv_conf s)) \<and>
     (sm_status (srv_mgr s) = SM_STAFF_ONLY \<or> rq_Target request \<in> set (sc_StaffOnlyTargets (srv_conf s)) \<longrightarrow>
        (\<forall>student\<in>set students. known_staff (srv_pm s) student))"

lemma validateRequest_admits:
  assumes "validateRequest s request = None"
  obtains students where "Request_Validate (srv_pm s) (srv_env s) request = Inr students" "admitted s request students"
proof -
  from assms obtain students where v: "Request_Validate (srv_pm s) (srv_env s) request = Inr students"
    and c: "checkStaffOnlySubmission s students = None" "checkTargetBlacklists s students (rq_Target request) = None"
    and o: "\<not> CompareTo (rq_ClientVersion request) (sc_MinClient (srv_conf s)) < 0" "sm_status (srv_mgr s) \<noteq> SM_NOT_ACCEPTING"
    by (auto simp: validateRequest_def split: if_splits sum.splits option.splits)
  from c(1) have "sm_status (srv_mgr s) = SM_STAFF_ONLY \<Longrightarrow> \<forall>student\<in>set students. known_staff (srv_pm s) student"
    by (auto simp: checkStaffOnlySubmission_def split: if_splits)
  moreover from c(2) have "rq_Target request \<notin> set (sc_DisabledTargets (srv_conf s))"
    "rq_Target request \<in> set (sc_StaffOnlyTargets (srv_conf s)) \<Longrightarrow> \<forall>student\<in>set students. known_staff (srv_pm s) student"
    by (auto simp: checkTargetBlacklists_def Let_def split: if_splits)
  ultimately show ?thesis using o by (intro that [OF v]) (auto simp: admitted_def)
qed

lemma admitted_not_turned_away: "admitted s request (sb_students sub) \<Longrightarrow> sm_check (srv_pm s) (srv_mgr s) sub = None"
  by (cases "sm_status (srv_mgr s)") (auto simp: admitted_def sm_check_def not_known_staff)

lemma request_read:
  assumes "submissionRequestFromHttp js r new_response = (Some request, w)"
  shows "js_request js (take (1 * 1024 * 1024) (hr_Body r)) = Inr request"
    and "rw_Code w = (if hr_CloseErr r = None then None else Some 400)"
proof -
  obtain b w1 where b: "read_request (1 * 1024 * 1024) r new_response = (b, w1)" by fastforce
  with assms obtain body where body: "b = Some body"
    by (cases b) (simp_all add: submissionRequestFromHttp_def)
  with assms b have js: "js_request js body = Inr request" "w = w1"
    by (simp_all add: submissionRequestFromHttp_def split: sum.splits)
  from b body have "body = take (1 * 1024 * 1024) (hr_Body r)"
    "w1 = (if hr_CloseErr r = None then new_response else WriteHeader 400 new_response)"
    by (auto simp: read_request_def split: option.splits)
  with js show "js_request js (take (1 * 1024 * 1024) (hr_Body r)) = Inr request"
    "rw_Code w = (if hr_CloseErr r = None then None else Some 400)"
    by (simp_all add: new_response_def WriteHeader_def)
qed

lemma createSubmission_cases:
  assumes "createSubmission js sw r s = Some (w, s')"
  obtains (rejected) "srv_async s' = srv_async s"
  | (created) request submission where
      "js_request js (take (1 * 1024 * 1024) (hr_Body r)) = Inr request" "validateRequest s request = None"
      "NewSubmission sw (srv_pm s) request (srv_env s) (srv_pending s) = (Inr submission, srv_pending s')"
      "srv_async s' = srv_async s @ [submission]" "srv_mgr s' = srv_mgr s" "srv_pm s' = srv_pm s"
      "rw_Code w = Some (if hr_CloseErr r = None then 201 else 400)"
proof -
  obtain q w0 where q: "submissionRequestFromHttp js r new_response = (q, w0)" by fastforce
  show thesis
  proof (cases q)
    case None
    with assms q have "s' = s" by (simp add: createSubmission_def)
    then show thesis by (intro rejected) simp
  next
    case (Some request)
    note read = request_read [OF q [unfolded Some]]
    show thesis
    proof (cases "validateRequest s request")
      case (Some e)
      with assms q \<open>q = Some request\<close> have "s' = s" by (auto simp: createSubmission_def split: prod.splits)
      then show thesis by (intro rejected) simp
    next
      case None
      obtain res pend where n: "NewSubmission sw (srv_pm s) request (srv_env s) (srv_pending s) = (res, pend)" by fastforce
      show thesis
      proof (cases res)
        case (Inl errs)
        with assms q \<open>q = Some request\<close> None n have "srv_async s' = srv_async s"
          by (cases errs) (auto simp: createSubmission_def)
        then show thesis by (rule rejected)
      next
        case (Inr submission)
        with assms q \<open>q = Some request\<close> None n have w: "w = WriteHeader 201 w0"
          and s': "s' = RunAsync submission (s\<lparr>srv_pending := pend\<rparr>)" by (simp_all add: createSubmission_def)
        show thesis
          by (rule created [OF read(1) None]) (use n Inr w s' read(2) in \<open>simp_all add: RunAsync_def WriteHeader_def\<close>)
      qed
    qed
  qed
qed

text \<open>
  The users of a request are authenticated by the student records when there is a database to read
  them from; the code does not ask who the users are when there is none.
\<close>

definition authenticated :: "PersistenceManager option \<Rightarrow> SubmissionUserInfo list \<Rightarrow> Student list \<Rightarrow> bool" where
  "authenticated pm users students \<longleftrightarrow>
     (if (case pm of None \<Rightarrow> False | Some p \<Rightarrow> pm_CanRetrieve p)
      then students \<noteq> [] \<and> map (\<lambda>st. (stu_Email st, stu_Token st)) students = map (\<lambda>u. (ui_Email u, ui_Token u)) users
      else students = [])"

lemma validateUsers_authenticates:
  assumes "validateUsers pm users = Inr students" shows "authenticated pm users students"
proof (cases "\<exists>p. pm = Some p \<and> pm_CanRetrieve p")
  case True
  then obtain p where p: "pm = Some p" "pm_CanRetrieve p" by blast
  with validateUsers_ok [of p users students] assms show ?thesis by (simp add: authenticated_def)
next
  case False
  then have "(case pm of None \<Rightarrow> Inr [] | Some p \<Rightarrow> if pm_CanRetrieve p then validateUserRecords p users else Inr []) = Inr []"
    by (simp split: option.split)
  with assms False show ?thesis
    by (auto simp: validateUsers_def authenticated_def bind_ok_eq_Inr split: if_splits option.splits)
qed

text \<open>A submission that was admitted is turned away later only when the status has changed.\<close>

definition turned_away_after_change :: "SubmissionServer \<Rightarrow> Submission \<Rightarrow> bool" where
  "turned_away_after_change s submission \<longleftrightarrow>
     (\<forall>later. sm_check (srv_pm s) later submission \<noteq> None \<longrightarrow> sm_status later \<noteq> sm_status (srv_mgr s))"

text \<open>
  C26. A request that leads to a submission has passed all checks: the client is recent enough, the
  server accepts submissions, the target is not disabled, all students are staff where the server or
  the target is for staff only, and each user was authenticated with the address and token of the
  request if the server has a database it can read (without one, nobody is asked for). The submission
  manager, which checks its status again when the submission is run, can turn it away then, but only
  if the status is another one by that time.
\<close>

theorem created_passed_checks:
  assumes "createSubmission js sw r s = Some (w, s')" and "srv_async s' \<noteq> srv_async s"
  shows "\<exists>request submission. js_request js (take (1 * 1024 * 1024) (hr_Body r)) = Inr request \<and>
     srv_async s' = srv_async s @ [submission] \<and> admitted s request (sb_students submission) \<and>
     authenticated (srv_pm s) (rq_Users request) (sb_students submission) \<and>
     turned_away_after_change s submission"
  using assms(1)
proof (cases rule: createSubmission_cases)
  case rejected
  with assms(2) show ?thesis by simp
next
  case (created request submission)
  from validateRequest_admits [OF created(2)] obtain students where
    v: "Request_Validate (srv_pm s) (srv_env s) request = Inr students" and a: "admitted s request students" .
  with NewSubmission_students [OF created(3)] have eq: "students = sb_students submission" by simp
  have "validateUsers (srv_pm s) (rq_Users request) = Inr students"
    using v by (auto simp: Request_Validate_def split: if_splits)
  from validateUsers_authenticates [OF this]
  have "authenticated (srv_pm s) (rq_Users request) (sb_students submission)" unfolding eq .
  moreover have "turned_away_after_change s submission"
    using a admitted_not_turned_away [of "s\<lparr>srv_mgr := later\<rparr>" request submission for later] unfolding eq
    by (fastforce simp: turned_away_after_change_def admitted_def)
  ultimately show ?thesis using created a unfolding eq by blast
qed

text \<open>A paused server creates nothing, whatever the request.\<close>

lemma paused_creates_nothing:
  assumes "Control (simple_request CTRL_PAUSE) (Some s, mgr) = (rep, Some s1, mgr1)"
    and "createSubmission js sw r s1 = Some (w, s2)"
  shows "srv_async s2 = srv_async s1"
  using assms(2)
proof (cases rule: createSubmission_cases)
  case (created request submission)
  from validateRequest_admits [OF created(2)] have "sm_status (srv_mgr s1) \<noteq> SM_NOT_ACCEPTING"
    by (auto simp: admitted_def)
  moreover have "sm_status (srv_mgr s1) = SM_NOT_ACCEPTING"
    using assms(1) by (auto simp: Control_def simple_request_def on_mgr_def Pause_def)
  ultimately show ?thesis by simp
qed

text \<open>
  The capacity that is set by the command line is the one that is read back, also a negative one,
  which the manager takes as a number of more than 9 * 10^18 jobs.
\<close>

theorem capacity_roundtrip:
  assumes "Atoi text = Some n" and "srv = Some s"
  shows "fst (CtrlGetCapacity None (snd (CtrlSetCapacity None text (srv, mgr)))) = Inr n"
proof -
  from assms(1) have "- (2 ^ 63) \<le> n" "n < 2 ^ 63" by (auto simp: Atoi_def Let_def split: if_splits)
  then have "sint (word_of_int n :: uint) = n" by (simp add: sint_sbintrunc' signed_take_bit_int_eq_self)
  with assms show ?thesis
    by (simp add: CtrlGetCapacity_def CtrlSetCapacity_def doCtrlRequest_def Control_def simple_request_def
        SetManagerCapacity_def ManagerCapacity_def)
qed

section \<open>Keys\<close>

text \<open>A key is given out only to the student with the address and token, and it is the one in the file.\<close>

lemma KeyGen_ok:
  assumes "KeyGen fl ssh_keygen (Some p) env email token fs = (Inr key, fs', st)"
  shows "\<exists>s. st = Some s \<and> stu_Email s = email \<and> stu_Token s = token \<and> stu_PublicKey s = key \<and>
    fs' (path_Join [path_Join [env_KeyDir env, email], ''id_rsa''] @ ''.pub'') = Some (File key)"
proof -
  let ?pub = "path_Join [path_Join [env_KeyDir env, email], ''id_rsa''] @ ''.pub''"
  from assms obtain students where g: "getStudents p email token = Inr students"
    by (auto simp: KeyGen_def split: if_splits sum.splits)
  with assms have "st = Some ((hd students)\<lparr>stu_PublicKey := key\<rparr>)" "ioutil_ReadFile fl ?pub fs' = Inr key"
    by (auto simp: KeyGen_def Let_def split: if_splits sum.splits prod.splits option.splits)
  with getStudents_ok [OF g] ReadFile_ok show ?thesis by fastforce
qed

section \<open>Witnesses\<close>

definition sample_server :: SubmissionServer where
  "sample_server = \<lparr>srv_conf = defaultConfig, srv_env = sample_env, srv_pm = Some sample_db,
     srv_mgr = NewSubmissionManager 0, srv_pending = [], srv_async = []\<rparr>"

definition sample_json :: ServerJson where
  "sample_json = \<lparr>js_request = (\<lambda>_. Inr (sample_request ''a'')), js_keygen = (\<lambda>_. Inl ''''), js_error = id,
     js_strings = concat, js_keys = (\<lambda>_. []), js_targets = (\<lambda>_. []), js_stats = (\<lambda>_. [])\<rparr>"

definition sample_http :: HttpRequest where
  "sample_http = \<lparr>hr_Body = ''{}'', hr_ReadErr = None, hr_CloseErr = None\<rparr>"

lemma sample_created:
  "\<exists>w s'. createSubmission sample_json Submission.sample_world sample_http sample_server = Some (w, s') \<and> srv_async s' \<noteq> srv_async sample_server"
proof -
  have http: "submissionRequestFromHttp sample_json sample_http new_response = (Some (sample_request ''a''), new_response)"
    by (simp add: submissionRequestFromHttp_def read_request_def sample_http_def sample_json_def)
  have valid: "validateRequest sample_server (sample_request ''a'') = None" by code_simp
  obtain r pend where n: "NewSubmission Submission.sample_world (Some sample_db) (sample_request ''a'') sample_env [] = (r, pend)"
    by fastforce
  with sample_new obtain s where s: "r = Inr s" by (cases r) simp_all
  have fields: "srv_pm sample_server = Some sample_db" "srv_env sample_server = sample_env" "srv_pending sample_server = []"
    by (simp_all add: sample_server_def)
  show ?thesis
    by (simp add: createSubmission_def http valid fields n s RunAsync_def)
qed

lemma created_passed_checks_witness:
  "\<exists>w s' submission. createSubmission sample_json Submission.sample_world sample_http sample_server = Some (w, s') \<and>
     srv_async s' = [submission] \<and> admitted sample_server (sample_request ''a'') (sb_students submission) \<and>
     map (\<lambda>st. (stu_Email st, stu_Token st)) (sb_students submission) =
       map (\<lambda>u. (ui_Email u, ui_Token u)) (rq_Users (sample_request ''a''))"
proof -
  obtain w s' where c: "createSubmission sample_json Submission.sample_world sample_http sample_server = Some (w, s')"
    "srv_async s' \<noteq> srv_async sample_server" using sample_created by blast
  have "srv_pm sample_server = Some sample_db" "pm_CanRetrieve sample_db" "srv_async sample_server = []"
    by (simp_all add: sample_server_def sample_db_def)
  with created_passed_checks [OF c] obtain request submission where
    "js_request sample_json (take (1 * 1024 * 1024) (hr_Body sample_http)) = Inr request"
    "srv_async s' = [submission]" "admitted sample_server request (sb_students submission)"
    "map (\<lambda>st. (stu_Email st, stu_Token st)) (sb_students submission) = map (\<lambda>u. (ui_Email u, ui_Token u)) (rq_Users request)"
    by (auto simp: authenticated_def)
  moreover from this(1) have "request = sample_request ''a''" by (simp add: sample_json_def)
  ultimately show ?thesis using c(1) by blast
qed

lemma capacity_roundtrip_witness:
  "fst (CtrlGetCapacity None (snd (CtrlSetCapacity None ''-1'' (Some sample_server, newManager)))) = Inr (- 1)"
proof -
  have "Atoi ''-1'' = Some (- 1)" by code_simp
  then show ?thesis by (rule capacity_roundtrip) simp
qed

section \<open>Routes\<close>

text \<open>\<open>routes.go\<close>: each route has a name, a method, a pattern without variables and a handler.\<close>

datatype handler = H_apiUsage | H_createSubmission | H_listTargets | H_getStats | H_keygen | H_validateSubmission | H_uploadFiles

record Route =
  rt_Name :: string
  rt_Method :: string
  rt_Pattern :: string
  rt_HandlerFunc :: handler

definition route :: "string \<Rightarrow> string \<Rightarrow> string \<Rightarrow> handler \<Rightarrow> Route" where
  "route n m p h = \<lparr>rt_Name = n, rt_Method = m, rt_Pattern = p, rt_HandlerFunc = h\<rparr>"

definition routes :: "Route list" where
  "routes =
     [route ''Usage'' ''GET'' ''/api-v1/'' H_apiUsage,
      route ''Submit'' ''POST'' ''/api-v1/submit'' H_createSubmission,
      route ''ListTargets'' ''GET'' ''/api-v1/targets'' H_listTargets,
      route ''stats'' ''GET'' ''/api-v1/stats'' H_getStats,
      route ''keygen'' ''POST'' ''/api-v1/keygen'' H_keygen,
      route ''validate'' ''POST'' ''/api-v1/validate'' H_validateSubmission,
      route ''upload'' ''POST'' ''/api-v1/upload'' H_uploadFiles]"

text \<open>The first route with the method and the path; the router adds nothing to paths without variables.\<close>

definition route_for :: "string \<Rightarrow> string \<Rightarrow> handler option" where
  "route_for method path =
     map_option rt_HandlerFunc (find (\<lambda>r. rt_Method r = method \<and> rt_Pattern r = path) routes)"

text \<open>A path belongs to one route, so each handler is reached under its own path and by one method only.\<close>

lemma routes_distinct: "distinct (map rt_Pattern routes) \<and> distinct (map rt_HandlerFunc routes)"
  by code_simp

lemma route_for_handler:
  "list_all (\<lambda>r. route_for ''GET'' (rt_Pattern r) = (if rt_Method r = ''GET'' then Some (rt_HandlerFunc r) else None) \<and>
     route_for ''POST'' (rt_Pattern r) = (if rt_Method r = ''POST'' then Some (rt_HandlerFunc r) else None)) routes"
  by code_simp

end
