(* ===== verification/UsageServer.thy ===== *)
theory UsageServer
  imports Usage Server
begin

text \<open>
  The receiving end of the usage statistics: \<open>test161-server/uploads.go\<close> and
  \<open>test161-server/usage.go\<close>. A request carries users and files; the lines of each file are decoded in
  a second goroutine, get the validated users, and go to the database. A file with an error is copied
  aside.
\<close>

section \<open>Reading a file (\<open>uploads.go\<close>)\<close>

text \<open>
  The header of an uploaded file: opening it gives its content. \<open>gunzip\<close> is the reader of
  \<open>compress/gzip\<close>: it fails at once, or gives the text up to an error, if there is one.
\<close>

type_synonym FileHeader = "string + string"

record UploadWorld =
  up_gunzip :: "string \<Rightarrow> string + string \<times> string option"
  up_decode :: "string \<Rightarrow> string + UsageStat"
  up_request :: "string \<Rightarrow> UploadRequest"
  up_faults :: faults
  up_now :: nat

record UploadFileReader =
  ufr_Compressed :: bool

definition NewUploadFileReader :: "bool \<Rightarrow> UploadFileReader" where
  "NewUploadFileReader gzipped = \<lparr>ufr_Compressed = gzipped\<rparr>"

text \<open>The lines that are sent on the channel, and the error that is returned.\<close>

definition Reader_HandleFile :: "UploadWorld \<Rightarrow> UploadFileReader \<Rightarrow> FileHeader \<Rightarrow> string list \<times> string option" where
  "Reader_HandleFile w rd header =
     (case header of
        Inl err \<Rightarrow> ([], Some err)
      | Inr content \<Rightarrow>
          (if ufr_Compressed rd then
             (case up_gunzip w content of
                Inl err \<Rightarrow> ([], Some err)
              | Inr (data, err) \<Rightarrow>
                  (case scan_lines data of
                     (ls, Some e) \<Rightarrow> (ls, Some e)
                   | (ls, None) \<Rightarrow> (ls, err)))
           else scan_lines content))"

section \<open>Usage files (\<open>usage.go\<close>)\<close>

text \<open>What the goroutine does with a line: a statistic for the database, or an error.\<close>

definition handle_line :: "UploadWorld \<Rightarrow> string list \<Rightarrow> bool \<Rightarrow> string \<Rightarrow> UsageStat option" where
  "handle_line w users is_staff line =
     (case up_decode w line of
        Inl _ \<Rightarrow> None
      | Inr stat \<Rightarrow> Some (stat\<lparr>us_Users := users, us_IsStaff := is_staff\<rparr>))"

text \<open>
  The result for a file: what was given to \<open>Persist\<close> in order, the error of the reader, whether a
  line before the last one was wrong, and whether the last one was. The channel has no buffer, so all
  lines but the last one have been handled when the reader returns.
\<close>

record file_result =
  fr_stats :: "UsageStat list"
  fr_err :: "string option"
  fr_bad_inner :: bool
  fr_bad_last :: bool

definition Stats_HandleFile ::
  "UploadWorld \<Rightarrow> PersistenceManager option \<Rightarrow> FileHeader \<Rightarrow> UploadRequest \<Rightarrow> Student list \<Rightarrow> file_result" where
  "Stats_HandleFile w pm header req students =
     (let is_staff = (case students of [] \<Rightarrow> False
                     | student # _ \<Rightarrow> known_staff pm student);
          users = map ui_Email (ur_Users req);
          (ls, err) = Reader_HandleFile w (NewUploadFileReader True) header;
          bad = (\<lambda>l. handle_line w users is_staff l = None)
      in \<lparr>fr_stats = List.map_filter (handle_line w users is_staff) ls, fr_err = err,
          fr_bad_inner = list_ex bad (butlast ls), fr_bad_last = (ls \<noteq> [] \<and> bad (last ls))\<rparr>)"

definition getFailedUsageFileName :: "UploadWorld \<Rightarrow> string \<Rightarrow> string" where
  "getFailedUsageFileName w usageFailDir =
     path_Join [usageFailDir, ''usage_'' @ Itoa (up_now w) @ ''.json.gz'']"

text \<open>
  The copy of a file that failed. When the file cannot be opened the code goes on and closes a nil
  file, which panics (\<open>None\<close>).
\<close>

definition tryCopyFile :: "UploadWorld \<Rightarrow> string \<Rightarrow> FileHeader \<Rightarrow> fs \<Rightarrow> fs option" where
  "tryCopyFile w usageFailDir header fs =
     (case header of
        Inl _ \<Rightarrow> None
      | Inr content \<Rightarrow>
          (let outFile = getFailedUsageFileName w usageFailDir
           in case os_Create (up_faults w) outFile fs of
                Inl _ \<Rightarrow> Some fs
              | Inr fs1 \<Rightarrow> Some (fs1(outFile \<mapsto> File content))))"

definition FileComplete :: "UploadWorld \<Rightarrow> string \<Rightarrow> FileHeader \<Rightarrow> bool \<Rightarrow> string option \<Rightarrow> fs \<Rightarrow> fs option" where
  "FileComplete w usageFailDir header hasError err fs =
     (if err \<noteq> None \<or> hasError then tryCopyFile w usageFailDir header fs else Some fs)"

section \<open>The handler of a request\<close>

text \<open>
  All files of a request share one handler, and its error flag is reset at the start of each file.
  The goroutine may handle the last line of file \<open>i\<close> late: \<open>seen i j\<close> says that its error reaches the
  flag between the reset for file \<open>j\<close> and the end of file \<open>j\<close>.
\<close>

fun handle_files ::
  "UploadWorld \<Rightarrow> PersistenceManager option \<Rightarrow> string \<Rightarrow> (nat \<Rightarrow> nat \<Rightarrow> bool) \<Rightarrow> UploadRequest \<Rightarrow> Student list \<Rightarrow>
   bool list \<Rightarrow> FileHeader list \<Rightarrow> fs \<times> UsageStat list \<Rightarrow> (fs \<times> UsageStat list) option" where
  "handle_files w pm dir seen req students bads [] st = Some st"
| "handle_files w pm dir seen req students bads (header # headers) (fs, stats) =
     (let r = Stats_HandleFile w pm header req students;
          bads' = bads @ [fr_bad_last r];
          hasError = (fr_bad_inner r \<or> (\<exists>i<length bads'. bads' ! i \<and> seen i (length bads)))
      in case FileComplete w dir header hasError (fr_err r) fs of
           None \<Rightarrow> None
         | Some fs1 \<Rightarrow> handle_files w pm dir seen req students bads' headers (fs1, stats @ fr_stats r))"

text \<open>
  The parsed multipart form: the values and the files by field. The files are visited in the order
  of the map.
\<close>

record MultipartForm =
  mf_Value :: "(string, string list) gomap"
  mf_File :: "(string, FileHeader list) gomap"

definition uploadFiles ::
  "UploadWorld \<Rightarrow> string \<Rightarrow> (nat \<Rightarrow> nat \<Rightarrow> bool) \<Rightarrow> SubmissionServer \<Rightarrow> string + MultipartForm \<Rightarrow> fs \<Rightarrow>
   (ResponseWriter \<times> fs \<times> UsageStat list) option" where
  "uploadFiles w usageFailDir seen s form fs =
     (case form of
        Inl err \<Rightarrow> Some (sendErrorCode 400 err new_response, fs, [])
      | Inr f \<Rightarrow>
          (case gm_get (mf_Value f) ''request'' of
             None \<Rightarrow> Some (sendErrorCode 400 ''Missing form field: request'' new_response, fs, [])
           | Some [data] \<Rightarrow>
               (let req = up_request w data
                in case Upload_Validate (srv_pm s) req of
                     Inl err \<Rightarrow> Some (sendErrorCode 422 err new_response, fs, [])
                   | Inr students \<Rightarrow>
                       (if ur_UploadType req \<noteq> UPLOAD_TYPE_USAGE then
                          Some (sendErrorCode 400
                            (''Invalid upload type '' @ int_text (ur_UploadType req) @ '': '') new_response, fs, [])
                        else
                          (case handle_files w (srv_pm s) usageFailDir seen req students []
                                  (concat (map snd (mf_File f))) (fs, []) of
                             None \<Rightarrow> None
                           | Some (fs1, stats) \<Rightarrow> Some (WriteHeader 200 (SetType JsonHeader new_response), fs1, stats))))
           | Some _ \<Rightarrow> Some (sendErrorCode 406 ''Invalid request field. Length != 1'' new_response, fs, [])))"

section \<open>What was logged arrives\<close>

lemma handle_files_stats:
  "handle_files w pm dir seen req students bads headers (fs, stats) = Some (fs', stats') \<Longrightarrow>
     stats' = stats @ concat (map (\<lambda>h. fr_stats (Stats_HandleFile w pm h req students)) headers)"
proof (induction headers arbitrary: bads fs stats)
  case (Cons h headers)
  from Cons.prems obtain fs1 where "handle_files w pm dir seen req students
      (bads @ [fr_bad_last (Stats_HandleFile w pm h req students)]) headers
      (fs1, stats @ fr_stats (Stats_HandleFile w pm h req students)) = Some (fs', stats')"
    by (auto simp: Let_def split: option.splits)
  from Cons.IH [OF this] show ?case by simp
qed simp








text \<open>
  A file of one wrong line is neither stored nor copied aside when the goroutine is late.
\<close>

lemma late_error_lost:
  assumes "Reader_HandleFile w (NewUploadFileReader True) header = ([l], None)" and "up_decode w l = Inl e"
    and "\<not> seen 0 0"
  shows "handle_files w pm dir seen req students [] [header] (fs, []) = Some (fs, [])"
  using assms by (simp add: Stats_HandleFile_def Let_def handle_line_def map_filter_simps FileComplete_def)

text \<open>A file that cannot be opened ends the request with a panic.\<close>

lemma unopened_file_panics:
  "handle_files w pm dir seen req students bads (Inl err # headers) (fs, stats) = None"
  by (simp add: Stats_HandleFile_def Let_def Reader_HandleFile_def FileComplete_def tryCopyFile_def)

section \<open>Witness\<close>









end
