(* ===== verification/Git.thy ===== *)
theory Git
  imports Build Version
begin

text \<open>
  \<open>test161/git.go\<close>: what the client finds out about the student's repository before it submits. The
  program \<open>git\<close> is a parameter that takes its arguments, an entry of the environment, the directory
  and the state of the world, and gives its output, an error, and the new state. What \<open>debug\<close> prints
  is left out.
\<close>

section \<open>Commands\<close>

type_synonym 'w git_exec = "string list \<Rightarrow> string option \<Rightarrow> string \<Rightarrow> 'w \<Rightarrow> (string \<times> string option) \<times> 'w"

record gitRepo =
  git_dir :: string
  git_remoteName :: string
  git_remoteRef :: string
  git_remoteURL :: string
  git_localRef :: string
  git_remoteUpdated :: bool
  git_gitSSHCommand :: string

definition new_repo :: gitRepo where
  "new_repo = \<lparr>git_dir = [], git_remoteName = [], git_remoteRef = [], git_remoteURL = [], git_localRef = [],
     git_remoteUpdated = False, git_gitSSHCommand = []\<rparr>"

definition minGitVersion :: ProgramVersion where
  "minGitVersion = ProgramVersion 2 3 0"

datatype deploy_key = DoNotUseDeployKey | UseDeployKeyOnly | TryDeployKey

record gitCmdSpec =
  gs_cmdline :: string
  gs_allowEmpty :: bool
  gs_debug :: bool
  gs_deployKey :: deploy_key

text \<open>A command that must print something and uses no key, and one that may print nothing.\<close>

definition query :: "string \<Rightarrow> bool \<Rightarrow> gitCmdSpec" where
  "query cmdline debug = \<lparr>gs_cmdline = cmdline, gs_allowEmpty = False, gs_debug = debug, gs_deployKey = DoNotUseDeployKey\<rparr>"

definition may_be_empty :: "string \<Rightarrow> bool \<Rightarrow> deploy_key \<Rightarrow> gitCmdSpec" where
  "may_be_empty cmdline debug key = \<lparr>gs_cmdline = cmdline, gs_allowEmpty = True, gs_debug = debug, gs_deployKey = key\<rparr>"

text \<open>With \<open>TryDeployKey\<close> a failure is tried once more without the key.\<close>

function doOneCommand :: "'w git_exec \<Rightarrow> gitRepo \<Rightarrow> gitCmdSpec \<Rightarrow> 'w \<Rightarrow> (string + string) \<times> 'w" where
  "doOneCommand exec git gitCmd w =
     (case exec (Split CHR '' '' (gs_cmdline gitCmd))
             (if git_gitSSHCommand git \<noteq> [] \<and> gs_deployKey gitCmd \<noteq> DoNotUseDeployKey then Some (git_gitSSHCommand git)
              else None) (git_dir git) w of
        ((out, err), w1) \<Rightarrow>
          if err \<noteq> None \<and> gs_deployKey gitCmd = TryDeployKey \<and> git_gitSSHCommand git \<noteq> []
          then doOneCommand exec git (gitCmd\<lparr>gs_deployKey := DoNotUseDeployKey\<rparr>) w1
          else
            (case err of
               Some e \<Rightarrow> (Inl (''Failed executing command '' @ [CHR 0x22] @ gs_cmdline gitCmd @ [CHR 0x22] @ '': '' @ e), w1)
             | None \<Rightarrow>
                 if out = [] \<and> \<not> gs_allowEmpty gitCmd
                 then (Inl (''No output from '' @ [CHR 0x22] @ gs_cmdline gitCmd @ [CHR 0x22]), w1)
                 else (Inr (TrimSpace out), w1)))"
  by pat_completeness auto
termination
  by (relation "measure (\<lambda>(exec, git, gitCmd, w). if gs_deployKey gitCmd = TryDeployKey then 1 else 0)") auto

declare doOneCommand.simps [simp del]

section \<open>Information about the repository\<close>

text \<open>\<open>Index\<close> finds the first slash.\<close>

definition setRemoteInfo :: "'w git_exec \<Rightarrow> bool \<Rightarrow> gitRepo \<Rightarrow> 'w \<Rightarrow> string option \<times> gitRepo \<times> 'w" where
  "setRemoteInfo exec debug git w =
     (case doOneCommand exec git (query (''git rev-parse --abbrev-ref --symbolic-full-name @'' @ ''{u}'') debug) w of
        (Inl err, w1) \<Rightarrow> (Some err, git, w1)
      | (Inr remoteInfo, w1) \<Rightarrow>
          (case Index remoteInfo ''/'' of
             None \<Rightarrow> (Some (''git rev-parse not of format remote/branch: '' @ remoteInfo), git, w1)
           | Some i \<Rightarrow>
               (let git1 = git\<lparr>git_remoteName := take i remoteInfo, git_remoteRef := drop (i + 1) remoteInfo\<rparr>
                in case doOneCommand exec git1 (query (''git ls-remote --get-url '' @ git_remoteName git1) debug) w1 of
                     (Inl err, w2) \<Rightarrow> (Some err, git1, w2)
                   | (Inr url, w2) \<Rightarrow> (None, git1\<lparr>git_remoteURL := url\<rparr>, w2))))"

definition canSubmit :: "gitRepo \<Rightarrow> bool" where
  "canSubmit git \<longleftrightarrow> (if git_remoteURL git = [] then False else if HasPrefix (git_remoteURL git) ''http'' then False else True)"

text \<open>The error of an update sets the flag that says that the remote was updated.\<close>

definition updateRemote :: "'w git_exec \<Rightarrow> bool \<Rightarrow> deploy_key \<Rightarrow> gitRepo \<Rightarrow> 'w \<Rightarrow> string option \<times> gitRepo \<times> 'w" where
  "updateRemote exec debug key git w =
     (case doOneCommand exec git (may_be_empty (''git remote update '' @ git_remoteName git) debug key) w of
        (Inl err, w1) \<Rightarrow> (Some err, git\<lparr>git_remoteUpdated := True\<rparr>, w1)
      | (Inr _, w1) \<Rightarrow> (None, git, w1))"

definition lookForRef :: "'w git_exec \<Rightarrow> string \<Rightarrow> string \<Rightarrow> bool \<Rightarrow> deploy_key \<Rightarrow> gitRepo \<Rightarrow> 'w \<Rightarrow> (string + bool) \<times> 'w" where
  "lookForRef exec cmd ref debug key git w =
     (case doOneCommand exec git (may_be_empty cmd debug key) w of
        (Inl err, w1) \<Rightarrow> (Inl err, w1)
      | (Inr res, w1) \<Rightarrow>
          (Inr (list_ex (\<lambda>line. list_ex (\<lambda>s. Contains line (s @ ref)) [''refs/heads/'', ''refs/tags/'', ''refs/remotes/''])
             (Split CHR 0x0A res)), w1))"

definition verifyLocalRef :: "'w git_exec \<Rightarrow> string \<Rightarrow> bool \<Rightarrow> gitRepo \<Rightarrow> 'w \<Rightarrow> (string + bool) \<times> 'w" where
  "verifyLocalRef exec ref debug = lookForRef exec ''git show-ref'' ref debug DoNotUseDeployKey"

definition verifyRemoteRef :: "'w git_exec \<Rightarrow> string \<Rightarrow> bool \<Rightarrow> deploy_key \<Rightarrow> gitRepo \<Rightarrow> 'w \<Rightarrow> (string + bool) \<times> 'w" where
  "verifyRemoteRef exec ref debug key git = lookForRef exec (''git ls-remote '' @ git_remoteName git) ref debug key git"

definition isLocalDirty :: "'w git_exec \<Rightarrow> bool \<Rightarrow> gitRepo \<Rightarrow> 'w \<Rightarrow> (string + bool) \<times> 'w" where
  "isLocalDirty exec debug git w =
     (case doOneCommand exec git (may_be_empty ''git status --porcelain'' debug DoNotUseDeployKey) w of
        (Inl err, w1) \<Rightarrow> (Inl err, w1)
      | (Inr res, w1) \<Rightarrow> (Inr (res \<noteq> []), w1))"

definition isRemoteUpToDate :: "'w git_exec \<Rightarrow> bool \<Rightarrow> deploy_key \<Rightarrow> gitRepo \<Rightarrow> 'w \<Rightarrow> (string + bool) \<times> gitRepo \<times> 'w" where
  "isRemoteUpToDate exec debug key git w =
     (if git_remoteName git = [] then
        (Inl ''Cannot determine if your remote is up-to-date, undetermined remote name'', git, w)
      else
        (case (if git_remoteUpdated git then (None, git, w) else updateRemote exec debug key git w) of
           (Some err, git1, w1) \<Rightarrow> (Inl err, git1, w1)
         | (None, git1, w1) \<Rightarrow>
             (case doOneCommand exec git1 (query ''git rev-parse HEAD'' debug) w1 of
                (Inl err, w2) \<Rightarrow> (Inl err, git1, w2)
              | (Inr localCommit, w2) \<Rightarrow>
                  (case doOneCommand exec git1
                      (query (''git rev-parse '' @ git_remoteName git1 @ ''/'' @ git_remoteRef git1) debug) w2 of
                     (Inl err, w3) \<Rightarrow> (Inl err, git1, w3)
                   | (Inr remoteCommit, w3) \<Rightarrow> (Inr (localCommit = remoteCommit), git1, w3)))))"

section \<open>The commit to submit\<close>

definition quoted :: "string \<Rightarrow> string" where
  "quoted s = [CHR 0x27] @ s @ [CHR 0x27]"

definition dirty_msg :: string where
  "dirty_msg = ''Submission not permitted while changes exist in your working directory.'' @ [CHR 0x0A]
     @ ''Run '' @ quoted ''git status'' @ '' to see what files have changed.''"

definition behind_msg :: string where
  "behind_msg = ''Your remote is not up-to-date with your local branch. Please push any changes or specify a commit id.''"

definition rev_parse :: "'w git_exec \<Rightarrow> bool \<Rightarrow> string \<Rightarrow> gitRepo \<Rightarrow> 'w \<Rightarrow> (string + string) \<times> 'w" where
  "rev_parse exec debug ref git w =
     (case doOneCommand exec git (query (''git rev-parse '' @ ref) debug) w of
        (Inl err, w1) \<Rightarrow> (Inl (''Cannot rev-parse ref '' @ ref @ '': '' @ err), w1)
      | (Inr commit, w1) \<Rightarrow> (Inr commit, w1))"

definition commitFromHEAD :: "'w git_exec \<Rightarrow> bool \<Rightarrow> gitRepo \<Rightarrow> 'w \<Rightarrow> (string + string \<times> string) \<times> gitRepo \<times> 'w" where
  "commitFromHEAD exec debug git w =
     (case isLocalDirty exec debug git w of
        (Inl err, w1) \<Rightarrow> (Inl (''Cannot determine local status: '' @ err), git, w1)
      | (Inr dirty, w1) \<Rightarrow>
          if dirty then (Inl dirty_msg, git, w1)
          else
            (case (if git_localRef git = ''HEAD'' \<or> git_remoteName git = [] \<or> git_remoteRef git = []
                   then (Inr ''HEAD'', git, w1)
                   else
                     (case isRemoteUpToDate exec debug TryDeployKey git w1 of
                        (Inl err, git1, w2) \<Rightarrow> (Inl (''Cannot determine remote status: '' @ err), git1, w2)
                      | (Inr ok, git1, w2) \<Rightarrow>
                          (if ok then (Inr (git_remoteName git @ ''/'' @ git_remoteRef git), git1, w2)
                           else (Inl behind_msg, git1, w2)))) of
               (Inl err, git1, w2) \<Rightarrow> (Inl err, git1, w2)
             | (Inr ref, git1, w2) \<Rightarrow>
                 (case rev_parse exec debug ref git1 w2 of
                    (Inl err, w3) \<Rightarrow> (Inl err, git1, w3)
                  | (Inr commit, w3) \<Rightarrow> (Inr (commit, ref), git1, w3))))"

definition is_hex :: "string \<Rightarrow> bool" where
  "is_hex s \<longleftrightarrow> s \<noteq> [] \<and> list_all (\<lambda>c. c \<in> set ''0123456789abcdef'') s"

text \<open>A remote with an empty name is not taken (\<open>where > 0\<close>).\<close>

definition commitFromTreeish ::
  "'w git_exec \<Rightarrow> string \<Rightarrow> bool \<Rightarrow> gitRepo \<Rightarrow> 'w \<Rightarrow> (string + string \<times> string) \<times> gitRepo \<times> 'w" where
  "commitFromTreeish exec treeish debug git0 w =
     (let git = (case Index treeish ''/'' of
                   Some (Suc i) \<Rightarrow> git0\<lparr>git_remoteName := take (Suc i) treeish, git_remoteRef := drop (Suc i + 1) treeish\<rparr>
                 | _ \<Rightarrow> git0\<lparr>git_remoteRef := treeish\<rparr>)
      in if is_hex treeish then (Inr (treeish, []), git, w)
         else
           (case verifyLocalRef exec treeish debug git w of
              (Inl err, w1) \<Rightarrow> (Inl (''Error verifying local ref '' @ quoted treeish @ '': '' @ err), git, w1)
            | (Inr ok, w1) \<Rightarrow>
                if \<not> ok then (Inl (''Unable to verify local ref '' @ quoted treeish), git, w1)
                else
                  (case verifyRemoteRef exec (git_remoteRef git) debug TryDeployKey git w1 of
                     (Inl err, w2) \<Rightarrow> (Inl (''Error verifying remote ref '' @ quoted treeish @ '': '' @ err), git, w2)
                   | (Inr ok, w2) \<Rightarrow>
                       if \<not> ok then (Inl (''Unable to verify remote ref '' @ quoted treeish), git, w2)
                       else
                         (case rev_parse exec debug treeish git w2 of
                            (Inl err, w3) \<Rightarrow> (Inl err, git, w3)
                          | (Inr commit, w3) \<Rightarrow> (Inr (commit, treeish), git, w3)))))"

text \<open>\<open>bw\<close> and \<open>fs\<close> give the key files, \<open>users\<close> the configured addresses.\<close>

definition getGitSSHCommand :: "BuildWorld \<Rightarrow> fs \<Rightarrow> string list \<Rightarrow> string \<Rightarrow> string" where
  "getGitSSHCommand bw fs users KEYS_DIR = (if users \<noteq> [] then GetDeployKeySSHCmd bw fs users KEYS_DIR else [])"

text \<open>The error of a failed status command is the (empty) output.\<close>

definition gitRepoFromDir ::
  "'w git_exec \<Rightarrow> string \<Rightarrow> string \<Rightarrow> bool \<Rightarrow> 'w \<Rightarrow> (string + gitRepo) \<times> 'w" where
  "gitRepoFromDir exec sshCommand src debug w =
     (let git = new_repo\<lparr>git_dir := src\<rparr>
      in case doOneCommand exec git (may_be_empty ''git status'' debug DoNotUseDeployKey) w of
           (Inl _, w1) \<Rightarrow> (Inl [], w1)
         | (Inr _, w1) \<Rightarrow>
             (case setRemoteInfo exec debug git w1 of
                (err, git1, w2) \<Rightarrow>
                  if err \<noteq> None \<and> debug then (Inl (the err), w2)
                  else
                    (case doOneCommand exec git1 (query ''git rev-parse --abbrev-ref HEAD'' debug) w2 of
                       (branch, w3) \<Rightarrow>
                         (Inr (git1\<lparr>git_localRef := (case branch of Inl _ \<Rightarrow> git_localRef git1 | Inr b \<Rightarrow> b),
                                    git_gitSSHCommand := sshCommand\<rparr>), w3))))"

definition verifyDeploymentKey :: "'w git_exec \<Rightarrow> bool \<Rightarrow> gitRepo \<Rightarrow> 'w \<Rightarrow> string option \<times> gitRepo \<times> 'w" where
  "verifyDeploymentKey exec debug git = updateRemote exec debug UseDeployKeyOnly (git\<lparr>git_remoteUpdated := False\<rparr>)"

section \<open>The version of git\<close>

text \<open>
  The expression \<open>^git version (\d+)\.(\d+)\.(\d+).*$\<close>: three numbers, then anything up to the end of
  the line, which must be the end of the text. A number that is too large becomes the largest one.
\<close>

definition atoi_max :: "string \<Rightarrow> uint" where
  "atoi_max ds = word_of_int (min (int (dec_val 0 ds)) (2 ^ 63 - 1))"

definition take_number :: "string \<Rightarrow> (string \<times> string) option" where
  "take_number s = (let ds = takeWhile is_digit s in if ds = [] then None else Some (ds, dropWhile is_digit s))"

definition take_char :: "char \<Rightarrow> string \<Rightarrow> string option" where
  "take_char c s = (case s of x # xs \<Rightarrow> if x = c then Some xs else None | [] \<Rightarrow> None)"

definition match_git_version :: "string \<Rightarrow> (string \<times> string \<times> string) option" where
  "match_git_version s =
     (if \<not> HasPrefix s ''git version '' then None
      else
        Option.bind (take_number (drop (length ''git version '') s)) (\<lambda>(major, s1).
          Option.bind (take_char CHR ''.'' s1) (\<lambda>s2.
            Option.bind (take_number s2) (\<lambda>(minor, s3).
              Option.bind (take_char CHR ''.'' s3) (\<lambda>s4.
                Option.bind (take_number s4) (\<lambda>(revision, rest).
                  if CHR 0x0A \<in> set rest then None else Some (major, minor, revision)))))))"

definition gitVersion :: "'w git_exec \<Rightarrow> 'w \<Rightarrow> (string + ProgramVersion) \<times> 'w" where
  "gitVersion exec w =
     (case doOneCommand exec new_repo (query ''git version'' False) w of
        (Inl err, w1) \<Rightarrow> (Inl err, w1)
      | (Inr verText, w1) \<Rightarrow>
          (case match_git_version verText of
             Some (major, minor, revision) \<Rightarrow>
               (Inr (ProgramVersion (atoi_max major) (atoi_max minor) (atoi_max revision)), w1)
           | None \<Rightarrow> (Inl (''`git version` does not match expected output: '' @ verText), w1)))"

definition checkGitVersionAndComplain :: "'w git_exec \<Rightarrow> 'w \<Rightarrow> (string + bool) \<times> 'w" where
  "checkGitVersionAndComplain exec w =
     (case gitVersion exec w of
        (Inl err, w1) \<Rightarrow> (Inl err, w1)
      | (Inr ver, w1) \<Rightarrow> (Inr (CompareTo ver minGitVersion \<ge> 0), w1))"

section \<open>A submitted commit is the commit of HEAD\<close>

text \<open>What a command without a key prints, if it succeeds and leaves the world alone.\<close>

definition answers :: "'w git_exec \<Rightarrow> string \<Rightarrow> string \<Rightarrow> 'w \<Rightarrow> string \<Rightarrow> bool" where
  "answers exec dir cmdline w text \<longleftrightarrow>
     (\<exists>out w1. exec (Split CHR '' '' cmdline) None dir w = ((out, None), w1) \<and> text = TrimSpace out)"

text \<open>Commands that only look at the repository do not change it.\<close>

definition only_looks :: "'w git_exec \<Rightarrow> string list \<Rightarrow> bool" where
  "only_looks exec args \<longleftrightarrow> (\<forall>key dir w. snd (exec args key dir w) = w)"

lemma doOneCommand_plain:
  assumes "doOneCommand exec git cmd w = (Inr text, w1)" and "gs_deployKey cmd = DoNotUseDeployKey"
  shows "answers exec (git_dir git) (gs_cmdline cmd) w text"
    and "w1 = snd (exec (Split CHR '' '' (gs_cmdline cmd)) None (git_dir git) w)"
proof -
  obtain out err w2 where e: "exec (Split CHR '' '' (gs_cmdline cmd)) None (git_dir git) w = ((out, err), w2)"
    by (metis prod.exhaust)
  have "err = None \<and> text = TrimSpace out \<and> w1 = w2"
    using assms e by (subst (asm) doOneCommand.simps) (auto split: option.splits if_splits)
  with e show "answers exec (git_dir git) (gs_cmdline cmd) w text"
    and "w1 = snd (exec (Split CHR '' '' (gs_cmdline cmd)) None (git_dir git) w)"
    by (auto simp: answers_def)
qed

lemma query_answers:
  assumes "doOneCommand exec git (query cmdline debug) w = (Inr text, w1)"
  shows "answers exec (git_dir git) cmdline w text" and "w1 = snd (exec (Split CHR '' '' cmdline) None (git_dir git) w)"
  using doOneCommand_plain [OF assms] by (simp_all add: query_def)

lemma rev_parse_answers:
  "rev_parse exec debug ref git w = (Inr commit, w1) \<Longrightarrow> answers exec (git_dir git) (''git rev-parse '' @ ref) w commit \<and>
     w1 = snd (exec (Split CHR '' '' (''git rev-parse '' @ ref)) None (git_dir git) w)"
  by (auto simp: rev_parse_def split: prod.splits sum.splits dest: query_answers)

lemma isLocalDirty_clean:
  "isLocalDirty exec debug git w = (Inr False, w1) \<Longrightarrow> answers exec (git_dir git) ''git status --porcelain'' w []"
  using doOneCommand_plain(1) [of exec git "may_be_empty ''git status --porcelain'' debug DoNotUseDeployKey" w "[]" w1]
  by (auto simp: isLocalDirty_def may_be_empty_def split: prod.splits sum.splits)

lemma updateRemote_dir: "updateRemote exec debug key git w = (r, git1, w1) \<Longrightarrow>
    git_dir git1 = git_dir git \<and> git_remoteName git1 = git_remoteName git \<and> git_remoteRef git1 = git_remoteRef git"
  by (auto simp: updateRemote_def split: prod.splits sum.splits)

lemma isRemoteUpToDate_same:
  assumes "isRemoteUpToDate exec debug key git w = (Inr True, git1, w1)"
    and "only_looks exec (Split CHR '' '' (''git rev-parse HEAD''))"
    and "only_looks exec (Split CHR '' '' (''git rev-parse '' @ git_remoteName git @ ''/'' @ git_remoteRef git))"
  shows "\<exists>commit. answers exec (git_dir git) ''git rev-parse HEAD'' w1 commit \<and>
     answers exec (git_dir git) (''git rev-parse '' @ git_remoteName git @ ''/'' @ git_remoteRef git) w1 commit \<and>
     git_dir git1 = git_dir git"
proof -
  obtain r git2 w2 where u: "(if git_remoteUpdated git then (None, git, w) else updateRemote exec debug key git w) = (r, git2, w2)"
    by (metis prod.exhaust)
  then have same: "git_dir git2 = git_dir git" "git_remoteName git2 = git_remoteName git" "git_remoteRef git2 = git_remoteRef git"
    using updateRemote_dir [of exec debug key git w r git2 w2] by (auto split: if_splits)
  have r: "r = None" and "git_remoteName git \<noteq> []"
    using assms(1) u by (auto simp: isRemoteUpToDate_def split: option.splits if_splits)
  with assms(1) u obtain c w3 where l: "doOneCommand exec git2 (query ''git rev-parse HEAD'' debug) w2 = (Inr c, w3)"
    and m: "doOneCommand exec git2 (query (''git rev-parse '' @ git_remoteName git @ ''/'' @ git_remoteRef git) debug) w3 = (Inr c, w1)"
    and g: "git1 = git2"
    by (auto simp: isRemoteUpToDate_def same split: prod.splits sum.splits)
  from query_answers [OF l] assms(2) have "w3 = w2" "answers exec (git_dir git) ''git rev-parse HEAD'' w2 c"
    by (simp_all add: only_looks_def same)
  moreover from query_answers [OF m] assms(3) have "w1 = w3"
      "answers exec (git_dir git) (''git rev-parse '' @ git_remoteName git @ ''/'' @ git_remoteRef git) w3 c"
    by (simp_all add: only_looks_def same)
  ultimately show ?thesis using g same by auto
qed

text \<open>
  C27. The commit that the client submits for the tip of the branch: when \<open>commitFromHEAD\<close> succeeds,
  the working directory was clean, and the commit is the one that \<open>git rev-parse HEAD\<close> gives at the
  end, also when the name that was resolved is the remote branch. The hypotheses: \<open>git rev-parse\<close>
  only looks at the repository.
\<close>

theorem commitFromHEAD_is_HEAD:
  assumes "commitFromHEAD exec debug git w = (Inr (commit, ref), git', w')"
    and "\<And>r. only_looks exec (Split CHR '' '' (''git rev-parse '' @ r))"
  shows "answers exec (git_dir git) ''git status --porcelain'' w [] \<and>
     answers exec (git_dir git) ''git rev-parse HEAD'' w' commit \<and>
     (ref = ''HEAD'' \<or> answers exec (git_dir git) (''git rev-parse '' @ git_remoteName git @ ''/'' @ git_remoteRef git) w' commit)"
proof -
  obtain b w1 where d: "isLocalDirty exec debug git w = (b, w1)" by fastforce
  with assms(1) have b: "b = Inr False" by (auto simp: commitFromHEAD_def split: sum.splits if_splits)
  note clean = isLocalDirty_clean [OF d [unfolded b]]
  show ?thesis
  proof (cases "git_localRef git = ''HEAD'' \<or> git_remoteName git = [] \<or> git_remoteRef git = []")
    case True
    with assms(1) d b have "rev_parse exec debug ''HEAD'' git w1 = (Inr commit, w')" "ref = ''HEAD''"
      by (auto simp: commitFromHEAD_def split: prod.splits sum.splits)
    with rev_parse_answers [of exec debug "''HEAD''" git w1 commit w'] assms(2) [of "''HEAD''"]
    have "answers exec (git_dir git) (''git rev-parse '' @ ''HEAD'') w' commit" by (simp add: only_looks_def)
    with clean \<open>ref = ''HEAD''\<close> show ?thesis by simp
  next
    case False
    obtain r git1 w2 where u: "isRemoteUpToDate exec debug TryDeployKey git w1 = (r, git1, w2)" by (metis prod.exhaust)
    with assms(1) d b False have r: "r = Inr True"
      by (auto simp: commitFromHEAD_def split: sum.splits if_splits)
    let ?ref = "git_remoteName git @ ''/'' @ git_remoteRef git"
    from assms(1) d b False u r have p: "rev_parse exec debug ?ref git1 w2 = (Inr commit, w')"
      by (auto simp: commitFromHEAD_def split: prod.splits sum.splits)
    from isRemoteUpToDate_same [OF u [unfolded r]] assms(2) [of "''HEAD''"] assms(2) [of ?ref] obtain c where
      c: "answers exec (git_dir git) ''git rev-parse HEAD'' w2 c" "answers exec (git_dir git) (''git rev-parse '' @ ?ref) w2 c"
        "git_dir git1 = git_dir git" by auto
    from rev_parse_answers [OF p] assms(2) [of ?ref] have "answers exec (git_dir git) (''git rev-parse '' @ ?ref) w2 commit" "w' = w2"
      by (simp_all add: only_looks_def c(3))
    with c show ?thesis using clean by (auto simp: answers_def)
  qed
qed

text \<open>A failed update sets the flag, and a successful one does not.\<close>

lemma updateRemote_flag:
  assumes "updateRemote exec debug key git w = (r, git1, w1)"
  shows "git_remoteUpdated git1 \<longleftrightarrow> r \<noteq> None \<or> git_remoteUpdated git"
  using assms by (auto simp: updateRemote_def split: prod.splits sum.splits)

text \<open>The version that git prints is read back; what follows the third number does not matter.\<close>

lemma take_number_Itoa:
  assumes "rest = [] \<or> \<not> is_digit (hd rest)"
  shows "take_number (Itoa n @ rest) = Some (Itoa n, rest)"
proof -
  have d: "\<forall>c\<in>set (Itoa n). is_digit c" "Itoa n \<noteq> []"
    using Itoa_number [of n] by (auto simp: is_number_def list_all_iff)
  have r: "takeWhile is_digit rest = []" "dropWhile is_digit rest = rest" using assms by (cases rest; simp)+
  have "takeWhile is_digit (Itoa n @ rest) = Itoa n" "dropWhile is_digit (Itoa n @ rest) = rest"
    using d(1) r by (simp_all add: takeWhile_append2 dropWhile_append2)
  with d(2) show ?thesis by (simp add: take_number_def)
qed

lemma atoi_max_Itoa: "n < 2 ^ 63 \<Longrightarrow> atoi_max (Itoa n) = word_of_int (int n)"
  by (simp add: atoi_max_def dec_val_Itoa min_def)

lemma match_git_version_text:
  assumes "rest = [] \<or> \<not> is_digit (hd rest)" and "CHR 0x0A \<notin> set rest"
  shows "match_git_version (''git version '' @ Itoa a @ ''.'' @ Itoa b @ ''.'' @ Itoa c @ rest) = Some (Itoa a, Itoa b, Itoa c)"
proof -
  have dot: "\<not> is_digit CHR ''.''" by (simp add: is_digit_def)
  have "take_number (Itoa a @ CHR ''.'' # t) = Some (Itoa a, CHR ''.'' # t)"
    "take_number (Itoa b @ CHR ''.'' # t) = Some (Itoa b, CHR ''.'' # t)" for t
    using take_number_Itoa dot by simp_all
  moreover have "drop (length ''git version '') (''git version '' @ t) = t" for t by simp
  moreover have "HasPrefix (''git version '' @ t) ''git version ''" for t by (rule HasPrefix_append)
  ultimately show ?thesis
    using take_number_Itoa [OF assms(1), of c] assms(2) unfolding match_git_version_def
    by (simp only: append_Cons append_Nil) (simp add: take_char_def)
qed

section \<open>Witness\<close>

definition sample_exec :: "unit git_exec" where
  "sample_exec args key dir w =
     ((if args = [''git'', ''status'', ''--porcelain''] then [] else ''abc'' @ [CHR 0x0A], None), w)"

definition sample_repo :: gitRepo where
  "sample_repo = new_repo\<lparr>git_remoteName := ''origin'', git_remoteRef := ''master'', git_localRef := ''master''\<rparr>"

lemma commitFromHEAD_is_HEAD_witness:
  "\<exists>git'. commitFromHEAD sample_exec False sample_repo () = (Inr (''abc'', ''origin/master''), git', ()) \<and>
     answers sample_exec [] ''git rev-parse HEAD'' () ''abc''"
proof -
  have "map_prod id (\<lambda>_. ()) (commitFromHEAD sample_exec False sample_repo ()) = (Inr (''abc'', ''origin/master''), ())"
    by code_simp
  then obtain git' where run: "commitFromHEAD sample_exec False sample_repo () = (Inr (''abc'', ''origin/master''), git', ())"
    by (cases "commitFromHEAD sample_exec False sample_repo ()") (auto simp: old.unit.exhaust)
  have looks: "only_looks sample_exec (Split CHR '' '' (''git rev-parse '' @ r))" for r
    by (simp add: only_looks_def sample_exec_def)
  have "git_dir sample_repo = []" by (simp add: sample_repo_def new_repo_def)
  with commitFromHEAD_is_HEAD [OF run looks] have "answers sample_exec [] ''git rev-parse HEAD'' () ''abc''"
    by (elim conjE) (simp only:)
  with run show ?thesis by blast
qed

end
