(* ===== verification/ClientRun.thy ===== *)
theory ClientRun
  imports Usage Environment
begin

text \<open>
  \<open>test161/runcmd.go\<close>: running tests from the command line. The scores per target, the order in which
  tests are printed, the exit code of a run, and what a summary shows. Colours and the layout of
  tables are left out.
\<close>

section \<open>Scores per target\<close>

record scoreMapEntry =
  sme_TargetName :: string
  sme_Earned :: uint
  sme_Avail :: uint
  sme_IsMeta :: bool

definition blank_entry :: "string \<Rightarrow> scoreMapEntry" where
  "blank_entry name = \<lparr>sme_TargetName = name, sme_Earned = 0, sme_Avail = 0, sme_IsMeta = False\<rparr>"

definition add_score :: "Test \<Rightarrow> (string, scoreMapEntry) gomap \<Rightarrow> (string, scoreMapEntry) gomap" where
  "add_score test scores =
     (if t_TargetName test = [] then scores
      else
        (let e = (case gm_get scores (t_TargetName test) of None \<Rightarrow> blank_entry (t_TargetName test) | Some e \<Rightarrow> e)
         in gm_put (t_TargetName test)
              (e\<lparr>sme_Avail := sme_Avail e + t_PointsAvailable test, sme_Earned := sme_Earned e + t_PointsEarned test\<rparr>) scores))"

definition meta_entry :: "TestEnvironment \<Rightarrow> scoreMapEntry list \<Rightarrow> scoreMapEntry list" where
  "meta_entry env items =
     (case gm_get (env_Targets env) (sme_TargetName (hd items)) of
        None \<Rightarrow> []
      | Some target \<Rightarrow>
          if tgt_MetaName target = [] then []
          else (case gm_get (env_Targets env) (tgt_MetaName target) of
                  None \<Rightarrow> []
                | Some metaTarget \<Rightarrow>
                    [\<lparr>sme_TargetName = tgt_Name metaTarget, sme_Earned = fold (\<lambda>e n. n + sme_Earned e) items 0,
                      sme_Avail = tgt_Points metaTarget, sme_IsMeta = True\<rparr>]))"

definition splitScores :: "TestEnvironment \<Rightarrow> TestGroup \<Rightarrow> scoreMapEntry list" where
  "splitScores env tg =
     (let scores = fold (\<lambda>(_, test). add_score test) (tg_Tests tg) []
      in if scores = [] then []
         else (let items = sort_key sme_TargetName (map snd scores) in items @ meta_entry env items))"

section \<open>The order of printing\<close>

text \<open>The loop over the reversed sort ends at the first name without a test.\<close>

fun tests_named :: "TestGroup \<Rightarrow> string list \<Rightarrow> Test list" where
  "tests_named tg [] = []"
| "tests_named tg (k # ks) = (case gm_get (tg_Tests tg) k of None \<Rightarrow> [] | Some test \<Rightarrow> test # tests_named tg ks)"

definition getPrintOrder :: "TestGroup \<Rightarrow> bool \<Rightarrow> Test list" where
  "getPrintOrder tg tryDependOrder =
     (let alphabetical = (\<lambda>tests. sort_key t_DependencyID (tests @ map snd (tg_Tests tg)))
      in if tryDependOrder then
           (case DependencyGraph tg of
              Inl _ \<Rightarrow> alphabetical []
            | Inr g \<Rightarrow>
                (let tests = (case TopSort ptr_key g of Inl _ \<Rightarrow> [] | Inr s \<Rightarrow> tests_named tg (rev s))
                 in if length tests = length (tg_Tests tg) then tests else alphabetical tests))
         else alphabetical [])"

section \<open>The summary\<close>

record summary_row =
  row_ID :: string
  row_Status :: string
  row_Leak :: string
  row_Score :: string

record summary =
  sum_Rows :: "summary_row list"
  sum_Totals :: "nat list"
  sum_Scores :: "scoreMapEntry list"

definition result_text :: "TestResult \<Rightarrow> string" where
  "result_text r = (case r of TEST_RESULT_NONE \<Rightarrow> ''none'' | TEST_RESULT_RUNNING \<Rightarrow> ''running''
     | TEST_RESULT_CORRECT \<Rightarrow> ''correct'' | TEST_RESULT_INCORRECT \<Rightarrow> ''incorrect''
     | TEST_RESULT_ABORT \<Rightarrow> ''abort'' | TEST_RESULT_SKIP \<Rightarrow> ''skip'')"

text \<open>A skipped test names a dependency that failed or was skipped. A dependency is a test of the group.\<close>

definition status_of :: "TestGroup \<Rightarrow> Test \<Rightarrow> string" where
  "status_of tg test =
     result_text (t_Result test) @
     (if t_Result test = TEST_RESULT_SKIP then
        (case find (\<lambda>dep. case gm_get (tg_Tests tg) dep of
                   Some d \<Rightarrow> t_Result d = TEST_RESULT_INCORRECT \<or> t_Result d = TEST_RESULT_SKIP
                 | None \<Rightarrow> False) (t_ExpandedDeps test) of
           Some dep \<Rightarrow> '' ('' @ dep @ '')''
         | None \<Rightarrow> [])
      else [])"

definition leak_text :: "Test \<Rightarrow> string" where
  "leak_text test =
     (if \<not> t_MemLeakChecked test then ''---''
      else if t_MemLeakBytes test = 0 then ''None'' else int_text (t_MemLeakBytes test) @ '' bytes'')"

definition summary_of_test :: "TestGroup \<Rightarrow> Test \<Rightarrow> summary_row" where
  "summary_of_test tg test =
     \<lparr>row_ID = t_DependencyID test, row_Status = status_of tg test, row_Leak = leak_text test,
      row_Score = Itoa (unat (t_PointsEarned test)) @ ''/'' @ Itoa (unat (t_PointsAvailable test))\<rparr>"

definition count_result :: "TestResult \<Rightarrow> Test list \<Rightarrow> nat" where
  "count_result r tests = length (filter (\<lambda>t. t_Result t = r) tests)"

definition printRunSummary :: "TestEnvironment \<Rightarrow> TestGroup \<Rightarrow> bool \<Rightarrow> summary" where
  "printRunSummary env tg tryDependOrder =
     (let tests = getPrintOrder tg tryDependOrder
      in \<lparr>sum_Rows = map (summary_of_test tg) tests,
          sum_Totals = map (\<lambda>r. count_result r tests)
            [TEST_RESULT_CORRECT, TEST_RESULT_INCORRECT, TEST_RESULT_SKIP, TEST_RESULT_ABORT],
          sum_Scores = splitScores env tg\<rparr>)"

section \<open>Running\<close>

record RunVars =
  rv_dryRun :: bool
  rv_explain :: bool
  rv_sequential :: bool
  rv_nodeps :: bool
  rv_verbose :: string
  rv_isTag :: bool
  rv_tests :: "string list"

text \<open>The check of the flags after the flag library has parsed them.\<close>

definition checkRunArgs :: "RunVars \<Rightarrow> string option" where
  "checkRunArgs v =
     (if rv_tests v = [] then Some ''At least one test or target must be specified''
      else if rv_verbose v \<in> {''loud'', ''quiet'', ''whisper''} then None
      else Some (''verbose flag must be one of '' @ [CHR 0x27] @ ''loud'' @ [CHR 0x27] @ '', '' @ [CHR 0x27] @ ''quiet'' @
             [CHR 0x27] @ '', or '' @ [CHR 0x27] @ ''whisper'' @ [CHR 0x27]))"

text \<open>
  A run of a group. \<open>results\<close> is what the runner delivers, in order; the tests of the group have
  changed with them. The manager is stopped twice, the usage is logged (which may wait for a lock,
  the result \<open>None\<close>), and the exit code is 0 when all tests are correct.
\<close>

definition after_run :: "Test161JobResult list \<Rightarrow> TestGroup \<Rightarrow> TestGroup" where
  "after_run results tg =
     tg\<lparr>tg_Tests := fold (\<lambda>r. gm_put (t_DependencyID (jr_Test r)) (jr_Test r)) results (tg_Tests tg)\<rparr>"

record run_state =
  rs_mgr :: manager
  rs_usage :: UsageState
  rs_summary :: "summary option"

definition runTestGroup ::
  "UsageWorld \<Rightarrow> TestEnvironment \<Rightarrow> RunVars \<Rightarrow> Test161JobResult list \<Rightarrow> int \<Rightarrow> int \<Rightarrow>
   TestGroup \<Rightarrow> bool \<Rightarrow> string \<Rightarrow> run_state \<Rightarrow> (int \<times> run_state) option" where
  "runTestGroup W env vars results startTime endTime tg useDeps desc st =
     (let mgr = start startTime (SetManagerCapacity (if rv_sequential vars then 1 else 0) (rs_mgr st));
          allCorrect = (\<forall>res\<in>set results. t_Result (jr_Test res) = TEST_RESULT_CORRECT);
          tg' = after_run results tg;
          shown = printRunSummary env tg' useDeps
      in Option.bind (logUsageStat W tg' desc startTime endTime (rs_usage st)) (\<lambda>(_, usage).
           Some (if allCorrect then 0 else 1,
                 \<lparr>rs_mgr = stop (stop mgr), rs_usage = usage, rs_summary = Some shown\<rparr>)))"

text \<open>
  \<open>explain\<close> prints the tests that are dependencies, all of them first, and then the other ones, after
  merging in the defaults (a parameter that may give an error), and stops at an error. The result
  here is the list of the tests that were printed, with the exit code and the errors; what is printed
  for each is in \<open>ClientPrint\<close>.
\<close>

fun explain_rest :: "(Test \<Rightarrow> string option) \<Rightarrow> Test list \<Rightarrow> Test list \<times> string option" where
  "explain_rest merge [] = ([], None)"
| "explain_rest merge (test # tests) =
     (case merge test of
        Some err \<Rightarrow> ([], Some err)
      | None \<Rightarrow> (case explain_rest merge tests of (printed, e) \<Rightarrow> (test # printed, e)))"

definition explain :: "(Test \<Rightarrow> string option) \<Rightarrow> TestGroup \<Rightarrow> Test list \<times> int \<times> string list" where
  "explain merge tg =
     (let tests = getPrintOrder tg True;
          (printed, e) = explain_rest merge (filter (\<lambda>test. \<not> t_IsDependency test) tests)
      in (filter t_IsDependency tests @ printed, case e of None \<Rightarrow> (0, []) | Some err \<Rightarrow> (1, [err])))"

text \<open>The description of a run names everything but single test files.\<close>

definition run_desc :: "string list \<Rightarrow> string" where
  "run_desc names =
     foldl (\<lambda>desc t. if HasSuffix t ''.t'' then desc else if desc = [] then t else desc @ '', '' @ t) [] names"

text \<open>
  The tests are taken as a target first, then as tests and tags. In the first case the exit code of
  the run is dropped. \<open>run\<close> gives the results of the runner for a group. The error list \<open>None\<close> is a
  panic while a target is instantiated.
\<close>

definition runTests ::
  "UsageWorld \<Rightarrow> Files \<Rightarrow> (string list \<Rightarrow> string list) \<Rightarrow> (Test \<Rightarrow> string option) \<Rightarrow> (TestGroup \<Rightarrow> Test161JobResult list) \<Rightarrow>
   int \<Rightarrow> int \<Rightarrow> TestEnvironment \<Rightarrow> RunVars \<Rightarrow> run_state \<Rightarrow> (int \<times> string list option \<times> run_state) option" where
  "runTests W fs arr merge run startTime endTime env vars st =
     (case (case rv_tests vars of [name] \<Rightarrow> if rv_isTag vars then None else gm_get (env_Targets env) name | _ \<Rightarrow> None) of
        Some target \<Rightarrow>
          (case Instance fs arr target env of
             Inl errs \<Rightarrow> Some (1, errs, st)
           | Inr tg \<Rightarrow>
               if rv_explain vars then (case explain merge tg of (_, code, errs) \<Rightarrow> Some (code, Some errs, st))
               else if rv_dryRun vars then Some (0, Some [], st)
               else Option.bind (runTestGroup W env vars (run tg) startTime endTime tg True (hd (rv_tests vars)) st)
                      (\<lambda>(_, st'). Some (0, Some [], st')))
      | None \<Rightarrow>
          (let config = \<lparr>gc_Name = ''test'', gc_UseDeps = \<not> rv_nodeps vars, gc_Tests = rv_tests vars, gc_Env = env\<rparr>
           in case GroupFromConfig fs arr config of
                None \<Rightarrow> None
              | Some (Inl errs) \<Rightarrow> Some (1, Some errs, st)
              | Some (Inr tg) \<Rightarrow>
                  if rv_explain vars then (case explain merge tg of (_, code, errs) \<Rightarrow> Some (code, Some errs, st))
                  else if rv_dryRun vars then Some (0, Some [], st)
                  else Option.bind (runTestGroup W env vars (run tg) startTime endTime tg (gc_UseDeps config)
                           (run_desc (rv_tests vars)) st)
                         (\<lambda>(code, st'). Some (code, Some [], st'))))"

text \<open>The command: the errors are printed, the exit code is returned.\<close>

definition doRun where
  "doRun W fs arr merge run startTime endTime env vars st =
     (case checkRunArgs vars of
        Some err \<Rightarrow> Some (1, st)
      | None \<Rightarrow> map_option (\<lambda>(code, _, st'). (code, st')) (runTests W fs arr merge run startTime endTime env vars st))"

section \<open>The scores are the sums of the points\<close>

lemma add_score_get:
  assumes "n \<noteq> []"
  shows "gm_get (fold add_score tests m) n =
    (if \<exists>t\<in>set tests. t_TargetName t = n then
       (let e = (case gm_get m n of None \<Rightarrow> blank_entry n | Some e \<Rightarrow> e); ts = filter (\<lambda>t. t_TargetName t = n) tests
        in Some (e\<lparr>sme_Avail := sme_Avail e + sum_list (map t_PointsAvailable ts),
                   sme_Earned := sme_Earned e + sum_list (map t_PointsEarned ts)\<rparr>))
     else gm_get m n)"
proof (induction tests arbitrary: m)
  case (Cons t tests)
  show ?case
  proof (cases "t_TargetName t = n")
    case True
    with assms have "gm_get (add_score t m) n =
        (let e = (case gm_get m n of None \<Rightarrow> blank_entry n | Some e \<Rightarrow> e)
         in Some (e\<lparr>sme_Avail := sme_Avail e + t_PointsAvailable t, sme_Earned := sme_Earned e + t_PointsEarned t\<rparr>))"
      by (cases "gm_get m n") (simp_all add: add_score_def Let_def)
    moreover have "filter (\<lambda>t. t_TargetName t = n) tests = []" if "\<not> (\<exists>t\<in>set tests. t_TargetName t = n)"
      using that by (simp add: filter_empty_conv)
    ultimately show ?thesis using True Cons.IH [of "add_score t m"] by (auto simp: Let_def add.assoc)
  next
    case False
    then have "gm_get (add_score t m) n = gm_get m n" by (simp add: add_score_def Let_def)
    with False Cons.IH [of "add_score t m"] show ?thesis by simp
  qed
qed simp

lemma add_score_keys:
  "gm_ok m \<Longrightarrow> gm_ok (fold add_score tests m)"
  "set (gm_keys (fold add_score tests m)) = set (gm_keys m) \<union> (t_TargetName ` set tests - {[]})"
proof (induction tests arbitrary: m)
  case (Cons t tests)
  {
    case 1
    then have "gm_ok (add_score t m)" by (simp add: add_score_def Let_def)
    then show ?case using Cons.IH(1) by simp
  next
    case 2
    have "set (gm_keys (add_score t m)) = set (gm_keys m) \<union> ({t_TargetName t} - {[]})"
      unfolding add_score_def Let_def by (simp only: gm_keys_put split: if_split) auto
    then show ?case using Cons.IH(2) [of "add_score t m"] by auto
  }
qed simp_all

definition points_for :: "(Test \<Rightarrow> uint) \<Rightarrow> string \<Rightarrow> TestGroup \<Rightarrow> uint" where
  "points_for p name tg = sum_list (map p (filter (\<lambda>t. t_TargetName t = name) (map snd (tg_Tests tg))))"

lemma fold_snd: "fold (\<lambda>(_, test). f test) xs = fold f (map snd xs)"
  by (induction xs) auto

lemma fold_earned: "fold (\<lambda>e n. n + sme_Earned e) es (a :: uint) = a + sum_list (map sme_Earned es)"
  by (induction es arbitrary: a) (simp_all add: add.assoc)

lemma scores_entries:
  fixes tg :: TestGroup
  defines "scores \<equiv> fold add_score (map snd (tg_Tests tg)) []"
  shows "gm_ok scores" and "set (gm_keys scores) = t_TargetName ` set (map snd (tg_Tests tg)) - {[]}"
    and "(n, e) \<in> set scores \<Longrightarrow> e = \<lparr>sme_TargetName = n, sme_Earned = points_for t_PointsEarned n tg,
        sme_Avail = points_for t_PointsAvailable n tg, sme_IsMeta = False\<rparr>"
proof -
  show ok: "gm_ok scores" unfolding scores_def by (rule add_score_keys) simp
  show keys: "set (gm_keys scores) = t_TargetName ` set (map snd (tg_Tests tg)) - {[]}"
    unfolding scores_def add_score_keys by simp
  assume e: "(n, e) \<in> set scores"
  then have "n \<in> set (gm_keys scores)" by force
  with keys have n: "n \<noteq> []" "\<exists>t\<in>set (map snd (tg_Tests tg)). t_TargetName t = n" by auto
  from e ok have "gm_get scores n = Some e" by (simp add: gm_get_in)
  with add_score_get [OF n(1), of "map snd (tg_Tests tg)" "[]"] n(2)
  show "e = \<lparr>sme_TargetName = n, sme_Earned = points_for t_PointsEarned n tg,
        sme_Avail = points_for t_PointsAvailable n tg, sme_IsMeta = False\<rparr>"
    unfolding scores_def by (simp add: blank_entry_def points_for_def Let_def)
qed

lemma splitScores_cases:
  obtains (nothing_scored) "splitScores env tg = []" "\<forall>t\<in>set (map snd (tg_Tests tg)). t_TargetName t = []"
  | (scored) items where "splitScores env tg = items @ meta_entry env items" "items \<noteq> []"
      "sorted (map sme_TargetName items)" "distinct (map sme_TargetName items)"
      "set (map sme_TargetName items) = t_TargetName ` set (map snd (tg_Tests tg)) - {[]}"
      "\<forall>e\<in>set items. e = \<lparr>sme_TargetName = sme_TargetName e, sme_Earned = points_for t_PointsEarned (sme_TargetName e) tg,
        sme_Avail = points_for t_PointsAvailable (sme_TargetName e) tg, sme_IsMeta = False\<rparr>"
proof -
  define scores where "scores = fold add_score (map snd (tg_Tests tg)) []"
  note facts = scores_entries [where tg = tg, folded scores_def]
  have split: "splitScores env tg =
      (if scores = [] then [] else (let es = sort_key sme_TargetName (map snd scores) in es @ meta_entry env es))"
    by (simp add: splitScores_def scores_def fold_snd)
  show thesis
  proof (cases "scores = []")
    case True
    with facts(2) have "\<forall>t\<in>set (map snd (tg_Tests tg)). t_TargetName t = []" by auto
    with True split show thesis by (intro nothing_scored) simp_all
  next
    case False
    define es where "es = sort_key sme_TargetName (map snd scores)"
    have "map sme_TargetName (map snd scores) = gm_keys scores" using facts(3) by fastforce
    then have names: "mset (map sme_TargetName es) = mset (gm_keys scores)"
      by (simp only: es_def mset_map mset_sort) (simp only: mset_map [symmetric])
    show thesis
    proof (rule scored)
      show "splitScores env tg = es @ meta_entry env es" using split False by (simp add: es_def Let_def)
      show "es \<noteq> []" using names False by auto
      show "sorted (map sme_TargetName es)" by (simp add: es_def)
      show "distinct (map sme_TargetName es)"
        using facts(1) mset_eq_imp_distinct_iff [OF names] by (simp add: gm_ok_def)
      show "set (map sme_TargetName es) = t_TargetName ` set (map snd (tg_Tests tg)) - {[]}"
        using mset_eq_setD [OF names] facts(2) by simp
      show "\<forall>e\<in>set es. e = \<lparr>sme_TargetName = sme_TargetName e, sme_Earned = points_for t_PointsEarned (sme_TargetName e) tg,
        sme_Avail = points_for t_PointsAvailable (sme_TargetName e) tg, sme_IsMeta = False\<rparr>"
        using facts(3) by (fastforce simp: es_def)
    qed
  qed
qed

text \<open>
  The scores of a run: one entry for each target that a test belongs to, in the order of the names
  and without repetition, with the points earned and available that the tests of this target add up
  to; and at most one more entry, for the metatarget, that has earned what the items before it have.
\<close>

theorem splitScores_sums:
  "\<exists>items metas. splitScores env tg = items @ metas \<and>
     sorted (map sme_TargetName items) \<and> distinct (map sme_TargetName items) \<and>
     set (map sme_TargetName items) = t_TargetName ` set (map snd (tg_Tests tg)) - {[]} \<and>
     list_all (\<lambda>e. sme_Earned e = points_for t_PointsEarned (sme_TargetName e) tg \<and>
        sme_Avail e = points_for t_PointsAvailable (sme_TargetName e) tg \<and> \<not> sme_IsMeta e) items \<and>
     length metas \<le> 1 \<and> list_all (\<lambda>m. sme_IsMeta m \<and> sme_Earned m = sum_list (map sme_Earned items)) metas"
proof (cases rule: splitScores_cases [of env tg])
  case nothing_scored
  then show ?thesis by (intro exI [of _ "[]"]) auto
next
  case (scored items)
  have "list_all (\<lambda>e. sme_Earned e = points_for t_PointsEarned (sme_TargetName e) tg \<and>
        sme_Avail e = points_for t_PointsAvailable (sme_TargetName e) tg \<and> \<not> sme_IsMeta e) items"
    unfolding list_all_iff
  proof
    fix e assume "e \<in> set items"
    with scored(6) have e: "e = \<lparr>sme_TargetName = sme_TargetName e, sme_Earned = points_for t_PointsEarned (sme_TargetName e) tg,
        sme_Avail = points_for t_PointsAvailable (sme_TargetName e) tg, sme_IsMeta = False\<rparr>" by blast
    show "sme_Earned e = points_for t_PointsEarned (sme_TargetName e) tg \<and>
        sme_Avail e = points_for t_PointsAvailable (sme_TargetName e) tg \<and> \<not> sme_IsMeta e"
      using arg_cong [OF e, of sme_Earned] arg_cong [OF e, of sme_Avail] arg_cong [OF e, of sme_IsMeta] by simp
  qed
  moreover have "length (meta_entry env items) \<le> 1" "list_all (\<lambda>m. sme_IsMeta m \<and> sme_Earned m = sum_list (map sme_Earned items)) (meta_entry env items)"
    by (auto simp: meta_entry_def fold_earned split: option.splits)
  ultimately show ?thesis using scored by (intro exI [of _ items] exI [of _ "meta_entry env items"]) simp
qed

section \<open>The order of printing is complete and puts dependencies first\<close>

lemma tests_named_all: "\<forall>k\<in>set ks. gm_has (tg_Tests tg) k \<Longrightarrow> tests_named tg ks = map (\<lambda>k. the (gm_get (tg_Tests tg) k)) ks"
  by (induction ks) (auto simp: gm_has_def)

lemma comes_before_rev: "comes_before s u v \<Longrightarrow> comes_before (rev s) v u"
proof -
  assume "comes_before s u v"
  then obtain as bs cs where "s = as @ u # bs @ v # cs" by (auto simp: comes_before_def)
  then have "rev s = rev cs @ v # rev bs @ u # rev as" by simp
  then show ?thesis unfolding comes_before_def by blast
qed

lemma keyed_map_snd:
  assumes "keyed tests" and "distinct ks" and "set ks = set (gm_keys tests)"
  shows "mset (map (\<lambda>k. the (gm_get tests k)) ks) = mset (map snd tests)"
proof -
  have ok: "gm_ok tests" using assms(1) by (simp add: keyed_def)
  then have "mset ks = mset (gm_keys tests)"
    using assms(2,3) by (intro set_eq_iff_mset_eq_distinct [THEN iffD1]) (simp_all add: gm_ok_def)
  then have "mset (map (\<lambda>k. the (gm_get tests k)) ks) = mset (map (\<lambda>k. the (gm_get tests k)) (gm_keys tests))"
    by (simp only: mset_map)
  moreover have "map (\<lambda>k. the (gm_get tests k)) (gm_keys tests) = map snd tests"
    unfolding map_map
  proof (rule map_cong [OF refl])
    fix x assume "x \<in> set tests"
    then have "gm_get tests (fst x) = Some (snd x)" using gm_get_in [OF ok] by simp
    then show "((\<lambda>k. the (gm_get tests k)) \<circ> fst) x = snd x" by simp
  qed
  ultimately show ?thesis by (rule trans [OF _ arg_cong])
qed

lemma DependencyGraph_names:
  assumes "keyed (tg_Tests tg)" and "DependencyGraph tg = Inr g"
  shows "wf_graph ptr_key g" and "set (g_names g) = set (gm_keys (tg_Tests tg))"
  using test_graph [OF assms(1)] assms(2) by (auto simp: DependencyGraph_def Let_def)

text \<open>A sort of the graph names every test once, so the reversed sort gives all tests.\<close>

lemma sorted_tests:
  assumes "keyed (tg_Tests tg)" and "DependencyGraph tg = Inr g" and "TopSort ptr_key g = Inr s"
  shows "tests_named tg (rev s) = map (\<lambda>k. the (gm_get (tg_Tests tg) k)) (rev s)"
    and "mset (tests_named tg (rev s)) = mset (map snd (tg_Tests tg))"
proof -
  note g = DependencyGraph_names [OF assms(1,2)]
  have s: "distinct s" "set s = set (gm_keys (tg_Tests tg))"
    using TopSort_cases [OF g(1)] assms(3) g(2) by auto
  then show "tests_named tg (rev s) = map (\<lambda>k. the (gm_get (tg_Tests tg) k)) (rev s)"
    by (intro tests_named_all) (simp add: gm_has_iff)
  moreover have "mset (map (\<lambda>k. the (gm_get (tg_Tests tg) k)) (rev s)) = mset (map snd (tg_Tests tg))"
    using s by (intro keyed_map_snd [OF assms(1)]) simp_all
  ultimately show "mset (tests_named tg (rev s)) = mset (map snd (tg_Tests tg))" by simp
qed

lemma getPrintOrder_all:
  assumes "keyed (tg_Tests tg)"
  shows "mset (getPrintOrder tg tryDepend) = mset (map snd (tg_Tests tg))"
proof -
  have "mset (tests_named tg (rev s)) = mset (map snd (tg_Tests tg))" "length (tests_named tg (rev s)) = length (tg_Tests tg)"
    if "DependencyGraph tg = Inr g" "TopSort ptr_key g = Inr s" for g s
    using sorted_tests(2) [OF assms that] mset_eq_length [OF sorted_tests(2) [OF assms that]] by simp_all
  then show ?thesis by (auto simp: getPrintOrder_def Let_def split: sum.splits)
qed

text \<open>
  C36. The order in which the tests of a group that was built with dependencies are printed, by the run
  summary and the dry run: every test of the group once, and a test after all the tests it depends on.
  (\<open>-explain\<close> prints in this order too, but all tests that are only dependencies before the others,
  \<open>explain_split\<close>.)
\<close>

theorem getPrintOrder_dependencies:
  assumes "GroupFromConfig fs arr config = Some (Inr tg)" and "gc_UseDeps config"
    and "\<And>xs. set (arr xs) = set xs"
  shows "mset (getPrintOrder tg True) = mset (map snd (tg_Tests tg)) \<and>
    (\<forall>(k, t)\<in>set (tg_Tests tg). \<forall>d\<in>set (t_ExpandedDeps t). comes_before (map t_DependencyID (getPrintOrder tg True)) d k)"
proof -
  from GroupFromConfig_sorted [OF assms] obtain g s where
    g: "DependencyGraph tg = Inr g" "TopSort ptr_key g = Inr s" "set s = set (gm_keys (tg_Tests tg))"
    and deps: "\<forall>(k, t)\<in>set (tg_Tests tg). t_DependencyID t = k \<and> (\<forall>d\<in>set (t_ExpandedDeps t). comes_before s k d)" by blast
  have ok: "gm_ok (tg_Tests tg)" by (rule GroupFromConfig_gm_ok [OF assms])
  with deps have keyed: "keyed (tg_Tests tg)" by (auto simp: keyed_def gm_get_in)
  note tests = sorted_tests [OF keyed g(1,2)]
  have "length (tests_named tg (rev s)) = length (tg_Tests tg)" using mset_eq_length [OF tests(2)] by simp
  then have order: "getPrintOrder tg True = tests_named tg (rev s)" by (simp add: getPrintOrder_def g(1,2) Let_def)
  have "t_DependencyID (the (gm_get (tg_Tests tg) k)) = k" if "k \<in> set s" for k
  proof -
    from that g(3) have "gm_has (tg_Tests tg) k" by (simp add: gm_has_iff)
    then obtain t where "gm_get (tg_Tests tg) k = Some t" by (auto simp: gm_has_def)
    with keyed show ?thesis by (simp add: keyed_def)
  qed
  then have "map t_DependencyID (getPrintOrder tg True) = rev s"
    unfolding order tests(1) map_map by (intro map_idI) simp
  then show ?thesis using deps comes_before_rev getPrintOrder_all [OF keyed] by fastforce
qed

text \<open>
  An explanation without an error has each test once, but it is split: a test that was requested
  comes after all the tests that are only dependencies, also after one that depends on it.
\<close>

lemma explain_rest_all: "(\<And>t. t \<in> set tests \<Longrightarrow> merge t = None) \<Longrightarrow> explain_rest merge tests = (tests, None)"
  by (induction tests) simp_all

lemma explain_split:
  assumes "\<And>t. merge t = None"
  shows "explain merge tg = (filter t_IsDependency (getPrintOrder tg True) @
     filter (\<lambda>t. \<not> t_IsDependency t) (getPrintOrder tg True), 0, [])"
    and "keyed (tg_Tests tg) \<Longrightarrow> mset (fst (explain merge tg)) = mset (map snd (tg_Tests tg))"
proof -
  show e: "explain merge tg = (filter t_IsDependency (getPrintOrder tg True) @
     filter (\<lambda>t. \<not> t_IsDependency t) (getPrintOrder tg True), 0, [])"
    using assms by (simp add: explain_def explain_rest_all Let_def)
  show "keyed (tg_Tests tg) \<Longrightarrow> mset (fst (explain merge tg)) = mset (map snd (tg_Tests tg))"
    unfolding e using getPrintOrder_all [of tg True] multiset_partition [of "mset (getPrintOrder tg True)" t_IsDependency] by simp
qed

section \<open>Exit codes\<close>

text \<open>A run of tests and tags exits with 0 exactly when the runner delivered only correct tests.\<close>

lemma runTestGroup_exit:
  "runTestGroup W env vars results s e tg useDeps desc st = Some (code, st') \<Longrightarrow>
     code = 0 \<longleftrightarrow> (\<forall>res\<in>set results. t_Result (jr_Test res) = TEST_RESULT_CORRECT)"
  by (auto simp: runTestGroup_def Let_def bind_eq_Some_conv split: if_splits)

text \<open>A target that is run exits with 0 whatever its tests do.\<close>

lemma target_exit_code:
  assumes "rv_tests vars = [name]" "\<not> rv_isTag vars" "gm_get (env_Targets env) name = Some target"
    and "Instance fs arr target env = Inr tg" "\<not> rv_explain vars"
    and "runTests W fs arr merge run s e env vars st = Some (code, errs, st')"
  shows "code = 0"
  using assms by (auto simp: runTests_def bind_eq_Some_conv split: if_splits)

section \<open>Witness\<close>

lemma getPrintOrder_dependencies_witness:
  "\<exists>tg. GroupFromConfig sample_files rev sample_config = Some (Inr tg) \<and>
     set (getPrintOrder tg True) = snd ` set (tg_Tests tg)"
proof -
  obtain tg where tg: "GroupFromConfig sample_files rev sample_config = Some (Inr tg)" by (rule sample_group_ok)
  have "gc_UseDeps sample_config" by (simp add: sample_config_def)
  from getPrintOrder_dependencies [OF tg this set_rev] have "mset (getPrintOrder tg True) = mset (map snd (tg_Tests tg))" by blast
  then have "set (getPrintOrder tg True) = set (map snd (tg_Tests tg))" by (rule mset_eq_setD)
  with tg show ?thesis by auto
qed

end
