(* ===== verification/Submit.thy ===== *)
theory Submit
  imports ClientRun Git Server
begin

text \<open>
  \<open>test161/submitcmd.go\<close> with the requests of \<open>comm.go\<close>, \<open>listcmd.go\<close> and \<open>errors.go\<close>: the client's way
  from the command line to a submission. It checks the users, git, the target, the commit and the
  server, installs keys, runs the target locally, asks, and posts.
\<close>

section \<open>Requests\<close>

abbreviation ApiEndpointSubmit :: string where "ApiEndpointSubmit \<equiv> ''/api-v1/submit''"
abbreviation ApiEndpointValidate :: string where "ApiEndpointValidate \<equiv> ''/api-v1/validate''"

text \<open>
  The world of the client: \<open>git\<close>, the files, the configuration, JSON, the answers of the server, and
  what the local run of the submission meets. A post is known by its endpoint and its body; the answer
  may depend on the posts before. It consists of errors of the connection, a status code with its
  text, and a body.
\<close>

record http_answer =
  ha_Errs :: "string list"
  ha_Code :: int
  ha_Status :: string
  ha_Body :: string

record 'w SubmitWorld =
  su_exec :: "'w git_exec"
  su_bw :: BuildWorld
  su_env :: TestEnvironment
  su_users :: "SubmissionUserInfo list"
  su_SrcDir :: string
  su_Server :: string
  su_KEYS_DIR :: string
  su_CACHE_DIR :: string
  su_get :: "string \<Rightarrow> http_answer"
  su_post :: "(string \<times> string) list \<Rightarrow> string \<Rightarrow> string \<Rightarrow> http_answer"
  su_targets_json :: "string \<Rightarrow> string + TargetListItem list"
  su_keys_json :: "string \<Rightarrow> string + RequestKeyResonse list"
  su_request_json :: "SubmissionRequest \<Rightarrow> string + string"
  su_md5 :: "string \<Rightarrow> string"
  su_local :: SubmissionWorld
  su_uuids :: "nat \<Rightarrow> string"
  su_now :: int
  su_build :: "string + string \<times> string"
  su_results :: "Submission \<Rightarrow> Test161JobResult list"

text \<open>
  The state: the world outside (the repository), the key files, the posts so far with their endpoint
  and body, what the reads of the standard input will still deliver, and how often the uploader was
  started.
\<close>

record 'w SubmitState =
  ss_world :: 'w
  ss_fs :: fs
  ss_posts :: "(string \<times> string) list"
  ss_input :: "string list"
  ss_uploaders :: nat

definition connectionError :: "string \<Rightarrow> string list \<Rightarrow> string list" where
  "connectionError endpoint errs =
     [foldl (\<lambda>msg e. msg @ [CHR 0x0A] @ ''    '' @ e) (''Unable to connect to server '' @ quoted endpoint) errs]"

definition getRemoteTargets :: "'w SubmitWorld \<Rightarrow> string list + TargetListItem list" where
  "getRemoteTargets W =
     (if su_Server W = [] then Inl [''server field missing in .test161.conf'']
      else
        (let endpoint = su_Server W @ ''/api-v1/targets''; a = su_get W endpoint
         in if ha_Errs a \<noteq> [] then Inl (connectionError endpoint (ha_Errs a))
            else if ha_Code a \<noteq> 200 then Inl [''Unable to retrieve remote targets: '' @ ha_Status a]
            else (case su_targets_json W (ha_Body a) of Inl err \<Rightarrow> Inl [err] | Inr ts \<Rightarrow> Inr ts)))"

definition getRemoteTargetAndValidate :: "'w SubmitWorld \<Rightarrow> string \<Rightarrow> string + TargetListItem" where
  "getRemoteTargetAndValidate W name =
     (case gm_get (env_Targets (su_env W)) name of
        None \<Rightarrow> Inl (''Target '' @ quoted name @ '' does not exist locally. Please update your os161 sources.'')
      | Some ourVersion \<Rightarrow>
          (case getRemoteTargets W of
             Inl errs \<Rightarrow> Inl (hd errs)
           | Inr ts \<Rightarrow>
               (case find (\<lambda>target. tli_Name target = name) ts of
                  None \<Rightarrow> Inl (''The target '' @ quoted name @ '' does not exist on the remote sever'')
                | Some target \<Rightarrow>
                    if tli_FileHash target \<noteq> tgt_FileHash ourVersion
                    then Inl (''Target '' @ quoted name
                           @ '' is out of sync with the server version.  Please update your os161 sources'')
                    else Inr target)))"

definition submitOrValidate ::
  "'w SubmitWorld \<Rightarrow> SubmissionRequest \<Rightarrow> bool \<Rightarrow> 'w SubmitState \<Rightarrow> (string + string) \<times> 'w SubmitState" where
  "submitOrValidate W req validateOnly st =
     (let endpoint = (if validateOnly then ApiEndpointValidate else ApiEndpointSubmit)
      in case su_request_json W req of
           Inl err \<Rightarrow> (Inl err, st)
         | Inr body \<Rightarrow>
             (let a = su_post W (ss_posts st) endpoint body;
                  st1 = st\<lparr>ss_posts := ss_posts st @ [(endpoint, body)]\<rparr>
              in if ha_Errs a \<noteq> [] then (Inl (hd (connectionError (su_Server W @ endpoint) (ha_Errs a))), st1)
                 else if ha_Code a = 200 \<or> ha_Code a = 201 then (Inr (ha_Body a), st1)
                 else if ha_Code a = 406 then
                   (Inl ''Unable to accept your submission, test161 is out-of-date.  Please update test161 and resubmit.'', st1)
                 else (Inl (''The server could not process your request: '' @ ha_Status a @ ''. '' @ [CHR 0x0A] @
                         ''Data: '' @ ha_Body a), st1)))"

definition submit :: "'w SubmitWorld \<Rightarrow> SubmissionRequest \<Rightarrow> 'w SubmitState \<Rightarrow> string option \<times> 'w SubmitState" where
  "submit W req st = (case submitOrValidate W req False st of (Inl err, st1) \<Rightarrow> (Some err, st1) | (Inr _, st1) \<Rightarrow> (None, st1))"

section \<open>Keys\<close>

abbreviation su_fl :: "'w SubmitWorld \<Rightarrow> faults" where
  "su_fl W \<equiv> bw_faults (su_bw W)"

definition key_file :: "'w SubmitWorld \<Rightarrow> string \<Rightarrow> string" where
  "key_file W user = path_Join [su_KEYS_DIR W, user, ''id_rsa'']"

definition getKeyHash :: "'w SubmitWorld \<Rightarrow> fs \<Rightarrow> string \<Rightarrow> string" where
  "getKeyHash W fs user =
     (if \<not> exists_file (su_fl W) (key_file W user) fs then []
      else (case ioutil_ReadFile (su_fl W) (key_file W user) fs of Inl _ \<Rightarrow> [] | Inr data \<Rightarrow> su_md5 W data))"

definition ioutil_WriteFile :: "faults \<Rightarrow> string \<Rightarrow> string \<Rightarrow> fs \<Rightarrow> string + fs" where
  "ioutil_WriteFile fl p data fs = bind_ok (os_Create fl p fs) (\<lambda>fs1. Inr (fs1(p \<mapsto> File data)))"

text \<open>One key of the answer: its directory is made when it cannot be found. Empty keys are counted.\<close>

definition install_key :: "'w SubmitWorld \<Rightarrow> RequestKeyResonse \<Rightarrow> fs \<times> nat \<Rightarrow> string option \<times> fs \<times> nat" where
  "install_key W data = (\<lambda>(fs, emptyCount).
     if kr_Key data = [] then (None, fs, emptyCount + 1)
     else
       (let studentDir = path_Join [su_KEYS_DIR W, kr_User data]
        in case (if exists_file (su_fl W) studentDir fs then Inr fs else os_Mkdir (su_fl W) studentDir fs) of
             Inl err \<Rightarrow> (Some (''Error creating user'' @ [CHR 0x27] @ ''s key directory: '' @ err), fs, emptyCount)
           | Inr fs1 \<Rightarrow>
               (case ioutil_WriteFile (su_fl W) (key_file W (kr_User data)) (kr_Key data) fs1 of
                  Inl err \<Rightarrow> (Some (''Error creating private key: '' @ err), fs1, emptyCount)
                | Inr fs2 \<Rightarrow> (None, fs2, emptyCount))))"

fun install_keys :: "'w SubmitWorld \<Rightarrow> RequestKeyResonse list \<Rightarrow> fs \<times> nat \<Rightarrow> string option \<times> fs \<times> nat" where
  "install_keys W [] s = (None, s)"
| "install_keys W (data # ds) s =
     (case install_key W data s of (Some err, s1) \<Rightarrow> (Some err, s1) | (None, s1) \<Rightarrow> install_keys W ds s1)"

definition no_keys_msg :: string where
  "no_keys_msg = ''test161 requires you to add a test161 deployment key to your Git repository. To create a new key pair, ''
     @ [CHR 0x0A] @ ''login to https://test161.ops-class.org and go to your settings page.''"

definition validateLocalSubmission ::
  "'w SubmitWorld \<Rightarrow> SubmissionRequest \<Rightarrow> 'w SubmitState \<Rightarrow> string option \<times> 'w SubmitState" where
  "validateLocalSubmission W req st =
     (case submitOrValidate W req True st of
        (Inl err, st1) \<Rightarrow> (Some err, st1)
      | (Inr body, st1) \<Rightarrow>
          if body = [] then (None, st1)
          else
            (case su_keys_json W body of
               Inl err \<Rightarrow> (Some (''Unable to parse server response (validate): '' @ err), st1)
             | Inr keyData \<Rightarrow>
                 (case install_keys W keyData (ss_fs st1, 0) of
                    (err, fs, emptyCount) \<Rightarrow>
                      (case err of
                         Some e \<Rightarrow> (Some e, st1\<lparr>ss_fs := fs\<rparr>)
                       | None \<Rightarrow>
                           (if emptyCount = length (su_users W) \<and> emptyCount > 0 then Some no_keys_msg else None,
                            st1\<lparr>ss_fs := fs\<rparr>)))))"

section \<open>The submission\<close>

record SubmitArgs =
  sa_debug :: bool
  sa_verify :: bool
  sa_noCache :: bool
  sa_target :: string
  sa_commit :: string

text \<open>The positional arguments that the flag library leaves over: a target and maybe a commit.\<close>

definition getSubmitArgs :: "bool \<Rightarrow> bool \<Rightarrow> bool \<Rightarrow> string list \<Rightarrow> string + SubmitArgs" where
  "getSubmitArgs debug verify noCache args =
     (case args of
        [] \<Rightarrow> Inl ''test161 submit: Missing target name. run test161 help for detailed usage''
      | [target] \<Rightarrow> Inr \<lparr>sa_debug = debug, sa_verify = verify, sa_noCache = noCache, sa_target = target, sa_commit = []\<rparr>
      | [target, commit] \<Rightarrow>
          Inr \<lparr>sa_debug = debug, sa_verify = verify, sa_noCache = noCache, sa_target = target, sa_commit = commit\<rparr>
      | _ \<Rightarrow> Inl ''test161 submit: Too many arguments. run test161 help for detailed usage'')"

definition getSubmitCommitIDAndValidate ::
  "'w SubmitWorld \<Rightarrow> SubmitArgs \<Rightarrow> fs \<Rightarrow> 'w \<Rightarrow> (string + string \<times> string \<times> gitRepo) \<times> 'w" where
  "getSubmitCommitIDAndValidate W args fs w =
     (case gitRepoFromDir (su_exec W) (getGitSSHCommand (su_bw W) fs (map ui_Email (su_users W)) (su_KEYS_DIR W))
             (su_SrcDir W) (sa_debug args) w of
        (Inl err, w1) \<Rightarrow> (Inl err, w1)
      | (Inr git, w1) \<Rightarrow>
          if \<not> canSubmit git then (Inl ''Unable to submit'', w1)
          else
            (case (if sa_commit args \<noteq> [] then commitFromTreeish (su_exec W) (sa_commit args) (sa_debug args) git w1
                   else commitFromHEAD (su_exec W) (sa_debug args) git w1) of
               (Inl err, _, w2) \<Rightarrow> (Inl err, w2)
             | (Inr (commit, ref), git1, w2) \<Rightarrow> (Inr (commit, ref, git1), w2)))"

text \<open>
  The local run: the environment gets the client's directories and a persistence manager that prints,
  so no students are looked up. The lock map of the process is empty. \<open>None\<close> is a panic.
\<close>

definition localSubmitTest ::
  "'w SubmitWorld \<Rightarrow> SubmitArgs \<Rightarrow> SubmissionRequest \<Rightarrow> (string list + scoreMapEntry list) option" where
  "localSubmitTest W args req =
     (let env0 = su_env W;
          env = env0\<lparr>env_CacheDir := (if sa_noCache args then env_CacheDir env0 else su_CACHE_DIR W),
                     env_KeyDir := su_KEYS_DIR W, env_HasPersistence := True\<rparr>
      in case NewSubmission (su_local W) (Some DoNothingPersistence) req env [] of
           (Inl None, _) \<Rightarrow> None
         | (Inl (Some errs), _) \<Rightarrow> Some (Inl errs)
         | (Inr s, pend) \<Rightarrow>
             (case Submission_Run (Some DoNothingPersistence) (su_uuids W) (su_now W) (su_build W) (su_results W s) s pend of
                (s', _, Some err, _) \<Rightarrow> Some (Inl [err])
              | (s', _, None, _) \<Rightarrow> Some (Inr (splitScores env (after_run (su_results W s) (sb_Tests s'))))))"

text \<open>
  The standard input is the list of what its reads will deliver: a text, or nothing at the end of the
  input (a terminal may go on after it); after the last one the program waits for ever (\<open>None\<close>). Each
  question makes a new \<open>bufio.Reader\<close>, which may read more than a line: what it has read after the
  line of the answer is lost.
\<close>

definition cut_line :: "string \<Rightarrow> string \<times> string" where
  "cut_line buf = (takeWhile (\<lambda>c. c \<noteq> CHR 0x0A) buf @ [CHR 0x0A], tl (dropWhile (\<lambda>c. c \<noteq> CHR 0x0A) buf))"

fun ReadString :: "string \<Rightarrow> string list \<Rightarrow> (string \<times> string \<times> string list) option" where
  "ReadString buf [] = (if CHR 0x0A \<in> set buf then (case cut_line buf of (line, buf') \<Rightarrow> Some (line, buf', [])) else None)"
| "ReadString buf (c # cs) =
     (if CHR 0x0A \<in> set buf then (case cut_line buf of (line, buf') \<Rightarrow> Some (line, buf', c # cs))
      else if c = [] then Some (buf, [], cs) else ReadString (buf @ c) cs)"

lemma cut_line_parts:
  assumes "CHR 0x0A \<in> set buf"
  obtains l rest where "cut_line buf = (l @ [CHR 0x0A], rest)" "buf = l @ CHR 0x0A # rest" "CHR 0x0A \<notin> set l"
proof -
  from split_list_first [OF assms] obtain l rest where "buf = l @ CHR 0x0A # rest" "CHR 0x0A \<notin> set l" by blast
  moreover have "takeWhile (\<lambda>c. c \<noteq> CHR 0x0A) (l @ CHR 0x0A # rest) = l \<and>
      dropWhile (\<lambda>c. c \<noteq> CHR 0x0A) (l @ CHR 0x0A # rest) = CHR 0x0A # rest" if "CHR 0x0A \<notin> set l"
    using that by (induction l) auto
  ultimately have "cut_line buf = (l @ [CHR 0x0A], rest)" by (simp add: cut_line_def)
  with \<open>buf = l @ CHR 0x0A # rest\<close> \<open>CHR 0x0A \<notin> set l\<close> show thesis by (intro that)
qed

definition input_size :: "string \<Rightarrow> string list \<Rightarrow> nat" where
  "input_size buf cs = length buf + sum_list (map (\<lambda>c. Suc (length c)) cs)"

lemma ReadString_less: "ReadString buf cs = Some (line, buf', cs') \<Longrightarrow> input_size buf' cs' < input_size buf cs"
proof (induction buf cs rule: ReadString.induct)
  case (1 buf)
  then have "CHR 0x0A \<in> set buf" by (auto split: if_splits)
  with 1 show ?case by (auto elim!: cut_line_parts simp: input_size_def)
next
  case (2 buf c cs)
  show ?case
  proof (cases "CHR 0x0A \<in> set buf")
    case True
    with 2(2) show ?thesis by (auto elim!: cut_line_parts simp: input_size_def)
  next
    case False
    with 2 show ?thesis by (cases "c = []") (auto simp: input_size_def)
  qed
qed

text \<open>A question is repeated until the line is \<open>yes\<close> or \<open>no\<close>.\<close>

function answer_loop :: "string \<Rightarrow> string list \<Rightarrow> (string \<times> string list) option" where
  "answer_loop buf cs =
     (case ReadString buf cs of
        None \<Rightarrow> None
      | Some (line, buf', cs') \<Rightarrow>
          (let text = TrimSpace line in if text = ''no'' \<or> text = ''yes'' then Some (text, cs') else answer_loop buf' cs'))"
  by pat_completeness auto
termination by (relation "measure (\<lambda>(buf, cs). input_size buf cs)") (auto dest: ReadString_less)

declare answer_loop.simps [simp del]

definition getYesOrNo :: "string list \<Rightarrow> (string \<times> string list) option" where
  "getYesOrNo cs = answer_loop [] cs"

text \<open>The general question and one question for each user, up to the first \<open>no\<close>.\<close>

fun ask :: "nat \<Rightarrow> string list \<Rightarrow> (bool \<times> string list) option" where
  "ask 0 ls = Some (True, ls)"
| "ask (Suc n) ls = Option.bind (getYesOrNo ls) (\<lambda>(text, ls1). if text = ''no'' then Some (False, ls1) else ask n ls1)"

text \<open>The request, before anything is sent to the server; \<open>Inl\<close> is an error that is printed.\<close>

definition makeRequest :: "'w SubmitWorld \<Rightarrow> SubmitArgs \<Rightarrow> fs \<Rightarrow> string \<Rightarrow> string \<Rightarrow> gitRepo \<Rightarrow> SubmissionRequest" where
  "makeRequest W args fs commit ref git =
     \<lparr>rq_Target = sa_target args,
      rq_Users = map (\<lambda>user. user\<lparr>ui_KeyHash := getKeyHash W fs (ui_Email user)\<rparr>) (su_users W),
      rq_Repository = git_remoteURL git, rq_CommitID = commit, rq_CommitRef = ref, rq_ClientVersion = this_Version,
      rq_EstimatedScores = []\<rparr>"

definition prepareRequest ::
  "'w SubmitWorld \<Rightarrow> SubmitArgs \<Rightarrow> fs \<Rightarrow> 'w \<Rightarrow> (string + SubmissionRequest \<times> gitRepo) \<times> 'w" where
  "prepareRequest W args fs w =
     (if su_users W = [] then (Inl ''No users have been configured for test161.'', w)
      else
        (case checkGitVersionAndComplain (su_exec W) w of
           (Inl err, w1) \<Rightarrow> (Inl (''Unable to check Git version: '' @ err), w1)
         | (Inr ok, w1) \<Rightarrow>
             if \<not> ok then (Inl ''Your version of Git must be at least 2.3.0'', w1)
             else
               (case getRemoteTargetAndValidate W (sa_target args) of
                  Inl err \<Rightarrow> (Inl err, w1)
                | Inr _ \<Rightarrow>
                    (case getSubmitCommitIDAndValidate W args fs w1 of
                       (Inl err, w2) \<Rightarrow> (Inl err, w2)
                     | (Inr (commit, ref, git), w2) \<Rightarrow> (Inr (makeRequest W args fs commit ref git, git), w2)))))"

text \<open>Everything up to the verification of the deployment key.\<close>

definition checkSubmission ::
  "'w SubmitWorld \<Rightarrow> SubmitArgs \<Rightarrow> 'w SubmitState \<Rightarrow> (string + SubmissionRequest) \<times> 'w SubmitState" where
  "checkSubmission W args st =
     (case prepareRequest W args (ss_fs st) (ss_world st) of
        (Inl err, w) \<Rightarrow> (Inl err, st\<lparr>ss_world := w\<rparr>)
      | (Inr (req, git), w) \<Rightarrow>
          (case validateLocalSubmission W req (st\<lparr>ss_world := w\<rparr>) of
             (Some err, st1) \<Rightarrow> (Inl err, st1)
           | (None, st1) \<Rightarrow>
               (let git1 = git\<lparr>git_gitSSHCommand := getGitSSHCommand (su_bw W) (ss_fs st1)
                             (map ui_Email (su_users W)) (su_KEYS_DIR W)\<rparr>
                in case verifyDeploymentKey (su_exec W) (sa_debug args) git1 (ss_world st1) of
                     (Some err, _, w1) \<Rightarrow> (Inl err, st1\<lparr>ss_world := w1\<rparr>)
                   | (None, _, w1) \<Rightarrow> (Inr req, st1\<lparr>ss_world := w1\<rparr>))))"

definition doSubmit :: "'w SubmitWorld \<Rightarrow> SubmitArgs \<Rightarrow> 'w SubmitState \<Rightarrow> (int \<times> 'w SubmitState) option" where
  "doSubmit W args st =
     (case checkSubmission W args st of
        (Inl _, st1) \<Rightarrow> Some (1, st1)
      | (Inr req, st1) \<Rightarrow>
          if sa_verify args then Some (0, st1)
          else
            (let st2 = st1\<lparr>ss_uploaders := ss_uploaders st1 + 1\<rparr>
             in case localSubmitTest W args req of
                  None \<Rightarrow> None
                | Some (Inl _) \<Rightarrow> Some (1, st2)
                | Some (Inr scores) \<Rightarrow>
                    if list_all (\<lambda>e. sme_Earned e = 0) scores then Some (1, st2)
                    else
                      Option.bind (ask (Suc (length (rq_Users req))) (ss_input st2)) (\<lambda>(yes, ls).
                        let st3 = st2\<lparr>ss_input := ls\<rparr>
                        in if \<not> yes then Some (1, st3)
                           else
                             (case submit W (req\<lparr>rq_EstimatedScores := fold (\<lambda>e. gm_put (sme_TargetName e) (sme_Earned e)) scores []\<rparr>) st3 of
                                (None, st4) \<Rightarrow> Some (0, st4)
                              | (Some _, st4) \<Rightarrow> Some (1, st4)))))"

section \<open>What a post of a submission means\<close>

lemma submitOrValidate_posts:
  assumes "submitOrValidate W req v st = (r, st1)"
  shows "ss_input st1 = ss_input st \<and>
    (case su_request_json W req of
       Inl err \<Rightarrow> r = Inl err \<and> ss_posts st1 = ss_posts st
     | Inr body \<Rightarrow> ss_posts st1 = ss_posts st @ [(if v then ApiEndpointValidate else ApiEndpointSubmit, body)])"
  using assms by (auto simp: submitOrValidate_def Let_def split: sum.splits if_splits)

definition accepted :: "http_answer \<Rightarrow> bool" where
  "accepted a \<longleftrightarrow> ha_Errs a = [] \<and> ha_Code a \<in> {200, 201}"

lemma submitOrValidate_ok:
  assumes "submitOrValidate W req v st = (Inr out, st1)"
  shows "\<exists>body. su_request_json W req = Inr body \<and>
    ss_posts st1 = ss_posts st @ [(if v then ApiEndpointValidate else ApiEndpointSubmit, body)] \<and>
    accepted (su_post W (ss_posts st) (if v then ApiEndpointValidate else ApiEndpointSubmit) body)"
  using assms by (auto simp: submitOrValidate_def Let_def accepted_def split: sum.splits if_splits)

lemma validateLocalSubmission_ok:
  assumes "validateLocalSubmission W req st = (None, st1)"
  shows "ss_input st1 = ss_input st \<and> ss_world st1 = ss_world st \<and> (\<exists>body. su_request_json W req = Inr body \<and>
    ss_posts st1 = ss_posts st @ [(ApiEndpointValidate, body)] \<and> accepted (su_post W (ss_posts st) ApiEndpointValidate body))"
proof -
  obtain r st2 where s: "submitOrValidate W req True st = (r, st2)" by fastforce
  with assms obtain out where r: "r = Inr out" by (cases r) (auto simp: validateLocalSubmission_def)
  have same: "ss_posts st1 = ss_posts st2 \<and> ss_input st1 = ss_input st2 \<and> ss_world st1 = ss_world st2"
    using assms s r by (auto simp: validateLocalSubmission_def split: if_splits sum.splits prod.splits option.splits)
  moreover have "ss_world st2 = ss_world st"
    using s r by (auto simp: submitOrValidate_def Let_def split: sum.splits if_splits)
  ultimately show ?thesis using submitOrValidate_ok [OF s [unfolded r]] submitOrValidate_posts [OF s] by auto
qed

lemma validateLocalSubmission_posts:
  assumes "validateLocalSubmission W req st = (e, st1)"
  shows "\<exists>ps. ss_posts st1 = ss_posts st @ ps \<and> (\<forall>p\<in>set ps. fst p = ApiEndpointValidate)"
proof -
  obtain r st2 where s: "submitOrValidate W req True st = (r, st2)" by fastforce
  then have "ss_posts st1 = ss_posts st2"
    using assms by (auto simp: validateLocalSubmission_def split: if_splits sum.splits prod.splits option.splits)
  with submitOrValidate_posts [OF s] show ?thesis by (cases "su_request_json W req") auto
qed

text \<open>Before the check of the server nothing is posted, and it posts only to the validation.\<close>

lemma checkSubmission_posts:
  assumes "checkSubmission W args st = (r, st1)"
  shows "\<exists>ps. ss_posts st1 = ss_posts st @ ps \<and> (\<forall>p\<in>set ps. fst p = ApiEndpointValidate)"
proof -
  obtain q w where q: "prepareRequest W args (ss_fs st) (ss_world st) = (q, w)" by fastforce
  show ?thesis
  proof (cases q)
    case (Inl err)
    with assms q show ?thesis by (auto simp: checkSubmission_def)
  next
    case (Inr rg)
    obtain req git where rg: "rg = (req, git)" by fastforce
    obtain e st2 where v: "validateLocalSubmission W req (st\<lparr>ss_world := w\<rparr>) = (e, st2)" by fastforce
    have "ss_posts st1 = ss_posts st2"
      using assms q Inr rg v by (auto simp: checkSubmission_def Let_def split: option.splits prod.splits)
    with validateLocalSubmission_posts [OF v] show ?thesis by simp
  qed
qed

lemma find_Some_in: "find P xs = Some x \<Longrightarrow> x \<in> set xs \<and> P x"
  by (auto simp: find_Some_iff)

definition same_target :: "'w SubmitWorld \<Rightarrow> string \<Rightarrow> bool" where
  "same_target W name \<longleftrightarrow> (\<exists>ours theirs ts. gm_get (env_Targets (su_env W)) name = Some ours \<and>
     getRemoteTargets W = Inr ts \<and> theirs \<in> set ts \<and> tli_Name theirs = name \<and> tli_FileHash theirs = tgt_FileHash ours)"

lemma getRemoteTargetAndValidate_ok: "getRemoteTargetAndValidate W name = Inr item \<Longrightarrow> same_target W name"
  unfolding getRemoteTargetAndValidate_def same_target_def
  by (auto split: option.splits sum.splits if_splits dest!: find_Some_in)

text \<open>
  The reads as a sequence of characters and ends of input (\<open>None\<close>). A line is ended by a line feed or
  by the end of the input.
\<close>

definition events :: "string list \<Rightarrow> char option list" where
  "events cs = concat (map (\<lambda>c. if c = [] then [None] else map Some c) cs)"

definition raw_line :: "string \<Rightarrow> char option list" where
  "raw_line l = map Some l @ (if l \<noteq> [] \<and> last l = CHR 0x0A then [] else [None])"

definition whole_line :: "string \<Rightarrow> bool" where
  "whole_line l \<longleftrightarrow> CHR 0x0A \<notin> set (butlast l)"

lemma events_simps [simp]: "events [] = []" "events (c # cs) = (if c = [] then [None] else map Some c) @ events cs"
  "events (xs @ ys) = events xs @ events ys"
  by (simp_all add: events_def)

lemma raw_line_end: "raw_line (l @ [CHR 0x0A]) = map Some (l @ [CHR 0x0A])"
  by (simp add: raw_line_def)

lemma raw_line_feed:
  assumes "map Some s = raw_line line @ map Some rest"
  shows "s = line @ rest" and "CHR 0x0A \<in> set line"
proof -
  have ends: "line \<noteq> [] \<and> last line = CHR 0x0A"
  proof (rule ccontr)
    assume "\<not> ?thesis"
    then have "None \<in> set (raw_line line @ map Some rest)" by (simp add: raw_line_def)
    then have "None \<in> set (map Some s)" unfolding assms .
    then show False by auto
  qed
  then have "map Some s = map Some (line @ rest)" using assms by (simp add: raw_line_def)
  then show "s = line @ rest" by (simp only: inj_map_eq_map [OF inj_Some])
  show "CHR 0x0A \<in> set line" using ends last_in_set [of line] by auto
qed

lemma ReadString_line:
  "ReadString buf cs = Some (line, buf', cs') \<Longrightarrow>
     \<exists>used. cs = used @ cs' \<and> map Some buf @ events used = raw_line line @ map Some buf' \<and> whole_line line \<and>
       suffix buf' (if used = [] then buf else last used)"
proof (induction buf cs rule: ReadString.induct)
  case (1 buf)
  then have "CHR 0x0A \<in> set buf" by (auto split: if_splits)
  then obtain l rest where "cut_line buf = (l @ [CHR 0x0A], rest)" "buf = l @ CHR 0x0A # rest" "CHR 0x0A \<notin> set l"
    by (rule cut_line_parts)
  with 1 show ?case by (auto simp: raw_line_end whole_line_def suffix_def intro: exI [of _ "l @ [CHR 0x0A]"])
next
  case (2 buf c cs)
  consider (line) "CHR 0x0A \<in> set buf" | (eof) "CHR 0x0A \<notin> set buf" "c = []" | (more) "CHR 0x0A \<notin> set buf" "c \<noteq> []" by blast
  then show ?case
  proof cases
    case line
    then obtain l rest where "cut_line buf = (l @ [CHR 0x0A], rest)" "buf = l @ CHR 0x0A # rest" "CHR 0x0A \<notin> set l"
      by (rule cut_line_parts)
    with 2(2) line show ?thesis
      by (intro exI [of _ "[]"]) (auto simp: raw_line_end whole_line_def suffix_def intro: exI [of _ "l @ [CHR 0x0A]"])
  next
    case eof
    with 2(2) have "line = buf" "buf' = []" "cs' = cs" by simp_all
    moreover have "\<not> (buf \<noteq> [] \<and> last buf = CHR 0x0A)" using eof(1) last_in_set [of buf] by metis
    moreover have "CHR 0x0A \<notin> set (butlast buf)" using eof(1) by (auto dest: in_set_butlastD)
    ultimately show ?thesis using eof by (intro exI [of _ "[[]]"]) (simp add: raw_line_def whole_line_def)
  next
    case more
    with 2(2) have "ReadString (buf @ c) cs = Some (line, buf', cs')" by simp
    with 2(1) more obtain used where u: "cs = used @ cs'" "map Some (buf @ c) @ events used = raw_line line @ map Some buf'"
      "whole_line line" "suffix buf' (if used = [] then buf @ c else last used)" by blast
    have "suffix buf' (if c # used = [] then buf else last (c # used))"
    proof (cases "used = []")
      case True
      with u(2) have "map Some (buf @ c) = raw_line line @ map Some buf'" by simp
      from raw_line_feed [OF this] have e: "buf @ c = line @ buf'" and nl: "CHR 0x0A \<in> set line" by blast+
      from e consider us where "buf = line @ us" | us where "line = buf @ us" "c = us @ buf'"
        by (auto simp: append_eq_append_conv2)
      then show ?thesis using nl more(1) True by cases (auto simp: suffix_def)
    next
      case False
      with u(4) show ?thesis by simp
    qed
    with u more show ?thesis by (intro exI [of _ "c # used"]) simp
  qed
qed

text \<open>
  An answer in what was read for one question: lines that are no answer, the line of the answer, and
  what the last of the reads delivered after this line, which is lost.
\<close>

definition answered :: "string \<Rightarrow> string list \<Rightarrow> bool" where
  "answered ans used \<longleftrightarrow> (\<exists>junk line dropped.
     events used = concat (map raw_line junk) @ raw_line line @ map Some dropped \<and>
     (\<forall>l\<in>set (line # junk). whole_line l) \<and> (\<forall>l\<in>set junk. TrimSpace l \<notin> {''no'', ''yes''}) \<and>
     TrimSpace line = ans \<and> used \<noteq> [] \<and> suffix dropped (last used))"

lemma answer_loop_used:
  "answer_loop buf cs = Some (ans, rest) \<Longrightarrow> \<exists>used junk line dropped. cs = used @ rest \<and> (ans = ''no'' \<or> ans = ''yes'') \<and>
     map Some buf @ events used = concat (map raw_line junk) @ raw_line line @ map Some dropped \<and>
     (\<forall>l\<in>set (line # junk). whole_line l) \<and> (\<forall>l\<in>set junk. TrimSpace l \<notin> {''no'', ''yes''}) \<and>
     TrimSpace line = ans \<and> suffix dropped (if used = [] then buf else last used)"
proof (induction buf cs rule: answer_loop.induct)
  case (1 buf cs)
  obtain line buf' cs' where read: "ReadString buf cs = Some (line, buf', cs')"
    using 1(2) by (cases "ReadString buf cs") (auto simp: answer_loop.simps [of buf])
  from ReadString_line [OF read] obtain u where u: "cs = u @ cs'" "map Some buf @ events u = raw_line line @ map Some buf'"
    "whole_line line" "suffix buf' (if u = [] then buf else last u)" by blast
  show ?case
  proof (cases "TrimSpace line = ''no'' \<or> TrimSpace line = ''yes''")
    case True
    with 1(2) read have "ans = TrimSpace line" "rest = cs'" by (simp_all add: answer_loop.simps [of buf] Let_def)
    with u True show ?thesis by (intro exI [of _ u] exI [of _ "[]"] exI [of _ line] exI [of _ buf']) simp
  next
    case False
    with 1(2) read have "answer_loop buf' cs' = Some (ans, rest)" by (simp add: answer_loop.simps [of buf] Let_def)
    with 1(1) [OF read refl refl refl False] obtain v junk l d where v: "cs' = v @ rest" "ans = ''no'' \<or> ans = ''yes''"
      "map Some buf' @ events v = concat (map raw_line junk) @ raw_line l @ map Some d"
      "\<forall>l\<in>set (l # junk). whole_line l" "\<forall>l\<in>set junk. TrimSpace l \<notin> {''no'', ''yes''}"
      "TrimSpace l = ans" "suffix d (if v = [] then buf' else last v)" by blast
    have "map Some buf @ events (u @ v) = concat (map raw_line (line # junk)) @ raw_line l @ map Some d"
      using u(2) v(3) by (simp only: events_simps(3) append_assoc [symmetric]) simp
    moreover have "suffix d (if u @ v = [] then buf else last (u @ v))"
      using u(4) v(7) suffix_order.trans by (cases "v = []") auto
    moreover have "cs = (u @ v) @ rest" using u(1) v(1) by simp
    moreover have "\<forall>x\<in>set (l # line # junk). whole_line x" using u(3) v(4) by simp
    moreover have "\<forall>x\<in>set (line # junk). TrimSpace x \<notin> {''no'', ''yes''}" using False v(5) by simp
    ultimately show ?thesis using v(2,6) by blast
  qed
qed

lemma getYesOrNo_used:
  assumes "getYesOrNo cs = Some (ans, rest)"
  shows "(ans = ''no'' \<or> ans = ''yes'') \<and> (\<exists>used. cs = used @ rest \<and> answered ans used)"
proof -
  from answer_loop_used [OF assms [unfolded getYesOrNo_def]] obtain used junk line dropped where
    a: "cs = used @ rest" "ans = ''no'' \<or> ans = ''yes''" "events used = concat (map raw_line junk) @ raw_line line @ map Some dropped"
    "\<forall>l\<in>set (line # junk). whole_line l" "\<forall>l\<in>set junk. TrimSpace l \<notin> {''no'', ''yes''}"
    "TrimSpace line = ans" "suffix dropped (if used = [] then [] else last used)" by auto
  have "raw_line line \<noteq> []" by (auto simp: raw_line_def)
  with a(3) have "used \<noteq> []" by auto
  with a have "answered ans used" unfolding answered_def by auto
  with a show ?thesis by blast
qed

text \<open>Each question was answered with yes, and none with no.\<close>

definition consent :: "nat \<Rightarrow> string list \<Rightarrow> bool" where
  "consent n used \<longleftrightarrow> (\<exists>parts. used = concat parts \<and> length parts = n \<and> (\<forall>part\<in>set parts. answered ''yes'' part))"

lemma ask_consent: "ask n cs = Some (True, rest) \<Longrightarrow> \<exists>used. cs = used @ rest \<and> consent n used"
proof (induction n arbitrary: cs)
  case 0
  then show ?case by (intro exI [of _ "[]"]) (simp add: consent_def)
next
  case (Suc n)
  from Suc.prems obtain ans cs1 where y: "getYesOrNo cs = Some (ans, cs1)" and n: "ans \<noteq> ''no''" and a: "ask n cs1 = Some (True, rest)"
    by (auto simp: bind_eq_Some_conv split: if_splits)
  from Suc.IH [OF a] obtain used where u: "cs1 = used @ rest" "consent n used" by blast
  from u(2) obtain parts where parts: "used = concat parts" "length parts = n" "\<forall>part\<in>set parts. answered ''yes'' part"
    by (auto simp: consent_def)
  from getYesOrNo_used [OF y] n obtain part where p: "cs = part @ cs1" "answered ''yes'' part" by auto
  have "consent (Suc n) (part @ used)"
    unfolding consent_def using parts p(2) by (intro exI [of _ "part # parts"]) simp
  with u(1) p(1) show ?case by (intro exI [of _ "part @ used"]) simp
qed

text \<open>A repository that can be submitted from: the address is known and is not one of the web.\<close>

lemma canSubmit_iff: "canSubmit git \<longleftrightarrow> git_remoteURL git \<noteq> [] \<and> \<not> HasPrefix (git_remoteURL git) ''http''"
  by (simp add: canSubmit_def)

lemma setRemoteInfo_URL: "updateRemote exec debug key git w = (r, git1, w1) \<Longrightarrow> git_remoteURL git1 = git_remoteURL git"
  by (auto simp: updateRemote_def split: prod.splits sum.splits)

lemma isRemoteUpToDate_URL:
  assumes "isRemoteUpToDate exec debug key git w = (r, git1, w1)"
  shows "git_remoteURL git1 = git_remoteURL git"
proof -
  obtain e git2 w2 where u: "(if git_remoteUpdated git then (None, git, w) else updateRemote exec debug key git w) = (e, git2, w2)"
    by (metis prod.exhaust)
  then have "git_remoteURL git2 = git_remoteURL git"
    using setRemoteInfo_URL [of exec debug key git w e git2 w2] by (auto split: if_splits)
  with assms u show ?thesis
    by (auto simp: isRemoteUpToDate_def split: option.splits if_splits prod.splits sum.splits)
qed

lemma commit_URL:
  "commitFromHEAD exec debug git w = (r, git1, w1) \<Longrightarrow> git_remoteURL git1 = git_remoteURL git"
  "commitFromTreeish exec treeish debug git w = (r, git1, w1) \<Longrightarrow> git_remoteURL git1 = git_remoteURL git"
proof -
  assume c: "commitFromHEAD exec debug git w = (r, git1, w1)"
  obtain e git2 w2 where u: "isRemoteUpToDate exec debug TryDeployKey git (snd (isLocalDirty exec debug git w)) = (e, git2, w2)"
    by (metis prod.exhaust)
  from isRemoteUpToDate_URL [OF u] have "git_remoteURL git2 = git_remoteURL git" .
  with c u show "git_remoteURL git1 = git_remoteURL git"
    by (auto simp: commitFromHEAD_def split: prod.splits sum.splits if_splits)
next
  assume c: "commitFromTreeish exec treeish debug git w = (r, git1, w1)"
  have "git_remoteURL (case Index treeish ''/'' of
      Some (Suc i) \<Rightarrow> git\<lparr>git_remoteName := take (Suc i) treeish, git_remoteRef := drop (Suc i + 1) treeish\<rparr>
    | _ \<Rightarrow> git\<lparr>git_remoteRef := treeish\<rparr>) = git_remoteURL git"
    by (simp split: option.split nat.split)
  with c show "git_remoteURL git1 = git_remoteURL git"
    unfolding commitFromTreeish_def Let_def by (auto split: prod.splits sum.splits if_splits)
qed

lemma getSubmitCommit_ok:
  assumes "getSubmitCommitIDAndValidate W args fs w = (Inr (commit, ref, git), w1)"
  shows "canSubmit git"
proof -
  let ?dir = "gitRepoFromDir (su_exec W) (getGitSSHCommand (su_bw W) fs (map ui_Email (su_users W)) (su_KEYS_DIR W)) (su_SrcDir W) (sa_debug args) w"
  obtain g w2 where d: "?dir = (g, w2)" by fastforce
  with assms obtain git0 where g: "g = Inr git0" by (cases g) (auto simp: getSubmitCommitIDAndValidate_def)
  have ok: "canSubmit git0" using assms d g by (auto simp: getSubmitCommitIDAndValidate_def split: if_splits)
  obtain c git1 w3 where c: "(if sa_commit args \<noteq> [] then commitFromTreeish (su_exec W) (sa_commit args) (sa_debug args) git0 w2
                   else commitFromHEAD (su_exec W) (sa_debug args) git0 w2) = (c, git1, w3)" by (metis prod.exhaust)
  have "git_remoteURL git1 = git_remoteURL git0"
    using c commit_URL by (metis (no_types))
  moreover have "git = git1"
    using assms d g ok c by (cases c) (auto simp: getSubmitCommitIDAndValidate_def)
  ultimately show ?thesis using ok by (simp add: canSubmit_iff)
qed

lemma prepareRequest_ok:
  assumes "prepareRequest W args fs w = (Inr (req, git), w1)"
  shows "su_users W \<noteq> [] \<and> same_target W (sa_target args) \<and> canSubmit git \<and> rq_Repository req = git_remoteURL git \<and>
    rq_Target req = sa_target args \<and> length (rq_Users req) = length (su_users W)"
proof -
  obtain v w2 where v: "checkGitVersionAndComplain (su_exec W) w = (v, w2)" by fastforce
  have "su_users W \<noteq> []" "v = Inr True" using assms v by (auto simp: prepareRequest_def split: if_splits sum.splits)
  with assms v obtain item where t: "getRemoteTargetAndValidate W (sa_target args) = Inr item"
    by (cases "getRemoteTargetAndValidate W (sa_target args)") (auto simp: prepareRequest_def)
  obtain c w3 where c: "getSubmitCommitIDAndValidate W args fs w2 = (c, w3)" by fastforce
  with assms v t \<open>v = Inr True\<close> obtain commit ref where "c = Inr (commit, ref, git)" "req = makeRequest W args fs commit ref git"
    by (cases c) (auto simp: prepareRequest_def split: if_splits)
  with c getSubmitCommit_ok getRemoteTargetAndValidate_ok [OF t] \<open>su_users W \<noteq> []\<close> show ?thesis
    by (auto simp: makeRequest_def)
qed

lemma checkSubmission_ok:
  assumes "checkSubmission W args st = (Inr req, st1)"
  shows "ss_input st1 = ss_input st \<and> su_users W \<noteq> [] \<and> same_target W (sa_target args) \<and>
    rq_Repository req \<noteq> [] \<and> \<not> HasPrefix (rq_Repository req) ''http'' \<and> rq_Target req = sa_target args \<and>
    length (rq_Users req) = length (su_users W) \<and>
    (\<exists>body. su_request_json W req = Inr body \<and> ss_posts st1 = ss_posts st @ [(ApiEndpointValidate, body)] \<and>
       accepted (su_post W (ss_posts st) ApiEndpointValidate body))"
proof -
  obtain q w where q: "prepareRequest W args (ss_fs st) (ss_world st) = (q, w)" by fastforce
  with assms obtain req1 git where p: "q = Inr (req1, git)" by (cases q) (auto simp: checkSubmission_def)
  obtain e st2 where v: "validateLocalSubmission W req1 (st\<lparr>ss_world := w\<rparr>) = (e, st2)" by fastforce
  have "e = None" using assms q p v by (cases e) (auto simp: checkSubmission_def)
  then have r: "req1 = req" and st1: "ss_posts st1 = ss_posts st2" "ss_input st1 = ss_input st2"
    using assms q p v by (auto simp: checkSubmission_def Let_def split: prod.splits option.splits)
  from prepareRequest_ok [OF q [unfolded p]] validateLocalSubmission_ok [OF v [unfolded \<open>e = None\<close>]] show ?thesis
    by (auto simp: r st1 canSubmit_iff)
qed

definition estimates :: "scoreMapEntry list \<Rightarrow> (string, uint) gomap" where
  "estimates scores = fold (\<lambda>e. gm_put (sme_TargetName e) (sme_Earned e)) scores []"

text \<open>
  C24. A submission is only posted after everything else: when \<open>doSubmit\<close> posts to the submission
  endpoint, users are configured, the target exists here and on the server with the same hash, the
  repository has an address that is not one of the web, the server has accepted exactly this request
  for validation before, the local run has earned points, the user has answered every question (one,
  and one for each user) with a line that is yes, after lines that are neither yes nor no, and the
  posted request carries the local scores.
  These are the only two posts.
\<close>

theorem submit_after_checks:
  assumes "doSubmit W args st = Some (code, st')" and "(ApiEndpointSubmit, body) \<in> set (drop (length (ss_posts st)) (ss_posts st'))"
  shows "\<exists>req scores vbody used.
     su_users W \<noteq> [] \<and> same_target W (sa_target args) \<and> rq_Target req = sa_target args \<and>
     rq_Repository req \<noteq> [] \<and> \<not> HasPrefix (rq_Repository req) ''http'' \<and>
     su_request_json W req = Inr vbody \<and> accepted (su_post W (ss_posts st) ApiEndpointValidate vbody) \<and>
     localSubmitTest W args req = Some (Inr scores) \<and> (\<exists>e\<in>set scores. sme_Earned e \<noteq> 0) \<and>
     ss_input st = used @ ss_input st' \<and> consent (1 + length (su_users W)) used \<and>
     su_request_json W (req\<lparr>rq_EstimatedScores := estimates scores\<rparr>) = Inr body \<and>
     ss_posts st' = ss_posts st @ [(ApiEndpointValidate, vbody), (ApiEndpointSubmit, body)]"
proof -
  obtain q st1 where q: "checkSubmission W args st = (q, st1)" by fastforce
  from checkSubmission_posts [OF q] obtain ps where
    ps: "ss_posts st1 = ss_posts st @ ps" "\<forall>p\<in>set ps. fst p = ApiEndpointValidate" by blast
  have differ: "ApiEndpointSubmit \<noteq> ApiEndpointValidate" by simp
  have not_yet: False if "ss_posts st' = ss_posts st1"
  proof -
    from assms(2) that ps have "fst (ApiEndpointSubmit, body) = ApiEndpointValidate" by auto
    with differ show False by (simp only: fst_conv)
  qed
  show ?thesis
  proof (cases q)
    case (Inl err)
    with assms(1) q have "st' = st1" by (simp add: doSubmit_def)
    with not_yet show ?thesis by simp
  next
    case (Inr req)
    have verify: "\<not> sa_verify args" using assms(1) q Inr not_yet by (auto simp: doSubmit_def)
    define st2 where "st2 = st1\<lparr>ss_uploaders := ss_uploaders st1 + 1\<rparr>"
    note run = assms(1) [unfolded doSubmit_def q Inr prod.case sum.case, folded st2_def]
    have "localSubmitTest W args req \<noteq> None"
      using run verify by (cases "localSubmitTest W args req") simp_all
    then obtain l where l: "localSubmitTest W args req = Some l" by blast
    have "\<exists>scores. l = Inr scores"
      using run verify l not_yet by (cases l) (auto simp: st2_def Let_def)
    then obtain scores where s: "l = Inr scores" ..
    have pos: "\<not> list_all (\<lambda>e. sme_Earned e = 0) scores"
      using run verify l s not_yet by (auto simp: st2_def Let_def)
    with run verify l s obtain yes ls where a: "ask (Suc (length (rq_Users req))) (ss_input st2) = Some (yes, ls)"
      by (auto simp: Let_def bind_eq_Some_conv)
    have yes: "yes" using run verify l s pos a not_yet by (cases yes) (auto simp: st2_def Let_def simp del: ask.simps)
    obtain e st4 where sub: "submit W (req\<lparr>rq_EstimatedScores := estimates scores\<rparr>) (st2\<lparr>ss_input := ls\<rparr>) = (e, st4)" by fastforce
    with run verify l s pos a yes have "st' = st4"
      by (auto simp: Let_def estimates_def simp del: ask.simps split: option.splits)
    obtain r st5 where post: "submitOrValidate W (req\<lparr>rq_EstimatedScores := estimates scores\<rparr>) False (st2\<lparr>ss_input := ls\<rparr>) = (r, st5)"
      by fastforce
    with sub have "st5 = st4" by (auto simp: submit_def split: sum.splits)
    note posts = submitOrValidate_posts [OF post]
    have "ss_input st' = ls" using posts \<open>st' = st4\<close> \<open>st5 = st4\<close> by simp
    have "su_request_json W (req\<lparr>rq_EstimatedScores := estimates scores\<rparr>) \<noteq> Inl x" for x
      using posts not_yet \<open>st' = st4\<close> \<open>st5 = st4\<close> by (auto simp: st2_def)
    then obtain b where b: "su_request_json W (req\<lparr>rq_EstimatedScores := estimates scores\<rparr>) = Inr b" by (meson sum.exhaust)
    with posts have new: "ss_posts st' = ss_posts st1 @ [(ApiEndpointSubmit, b)]"
      using \<open>st' = st4\<close> \<open>st5 = st4\<close> by (simp add: st2_def)
    from checkSubmission_ok [OF q [unfolded Inr]] obtain vbody where
      ok: "ss_input st1 = ss_input st" "su_users W \<noteq> []" "same_target W (sa_target args)" "rq_Repository req \<noteq> []"
        "\<not> HasPrefix (rq_Repository req) ''http''" "rq_Target req = sa_target args" "length (rq_Users req) = length (su_users W)"
      and v: "su_request_json W req = Inr vbody" "ss_posts st1 = ss_posts st @ [(ApiEndpointValidate, vbody)]"
        "accepted (su_post W (ss_posts st) ApiEndpointValidate vbody)" by (elim conjE exE)
    have "(ApiEndpointSubmit, body) \<in> set [(ApiEndpointValidate, vbody), (ApiEndpointSubmit, b)]"
      using assms(2) by (simp only: new v(2) append_assoc append_eq_conv_conj append_Cons append_Nil drop_append) simp
    with differ have "body = b" by simp
    from a ok(1,7) yes have "ask (1 + length (su_users W)) (ss_input st) = Some (True, ls)" by (simp add: st2_def)
    from ask_consent [OF this] obtain used where u: "ss_input st = used @ ls" "consent (1 + length (su_users W)) used" by blast
    have "\<exists>e\<in>set scores. sme_Earned e \<noteq> 0" using pos by (auto simp: list_all_iff)
    with ok v l s u b \<open>body = b\<close> \<open>ss_input st' = ls\<close> new show ?thesis
      by (intro exI [of _ req] exI [of _ scores] exI [of _ vbody] exI [of _ used]) simp
  qed
qed

section \<open>Witness\<close>

definition sample_git :: "unit git_exec" where
  "sample_git args key dir w =
     ((if args = [''git'', ''version''] then ''git version 2.3.0''
       else if args = [''git'', ''status'', ''--porcelain''] then []
       else if args = [''git'', ''ls-remote'', ''--get-url'', ''origin''] then ''git@h:r''
       else ''origin/master'', None), w)"

definition sample_client :: "unit SubmitWorld" where
  "sample_client = \<lparr>su_exec = sample_git, su_bw = sample_bw ''bmake'', su_env = sample_env,
     su_users = [\<lparr>ui_Email = ''a'', ui_Token = ''t'', ui_KeyHash = []\<rparr>], su_SrcDir = ''/s'', su_Server = ''h'',
     su_KEYS_DIR = ''/k'', su_CACHE_DIR = ''/c'',
     su_get = (\<lambda>_. \<lparr>ha_Errs = [], ha_Code = 200, ha_Status = [], ha_Body = []\<rparr>),
     su_post = (\<lambda>_ _ _. \<lparr>ha_Errs = [], ha_Code = 200, ha_Status = [], ha_Body = []\<rparr>),
     su_targets_json = (\<lambda>_. Inr (TargetList [] sample_env)), su_keys_json = (\<lambda>_. Inr []),
     su_request_json = (\<lambda>r. Inr (if rq_EstimatedScores r = [] then ''v'' else ''s'')), su_md5 = id,
     su_local = Submission.sample_world, su_uuids = (\<lambda>_. ''x''), su_now = 0, su_build = Inr ([], []),
     su_results = (\<lambda>_. [result_of ''locks'' 5])\<rparr>"

definition sample_args :: SubmitArgs where
  "sample_args = \<lparr>sa_debug = False, sa_verify = False, sa_noCache = False, sa_target = ''locks'', sa_commit = []\<rparr>"

definition sample_state :: "unit SubmitState" where
  "sample_state = \<lparr>ss_world = (), ss_fs = (\<lambda>_. None), ss_posts = [], ss_input = [''yes'' @ [CHR 0x0A], ''maybe'' @ [CHR 0x0A], ''yes'' @ [CHR 0x0A]], ss_uploaders = 0\<rparr>"

lemma sample_submit:
  "map_option (\<lambda>(code, st'). (code, ss_posts st')) (doSubmit sample_client sample_args sample_state) =
     Some (0, [(ApiEndpointValidate, ''v''), (ApiEndpointSubmit, ''s'')])"
  by code_simp

lemma submit_after_checks_witness:
  "\<exists>st' req scores used. doSubmit sample_client sample_args sample_state = Some (0, st') \<and>
     localSubmitTest sample_client sample_args req = Some (Inr scores) \<and> (\<exists>e\<in>set scores. sme_Earned e \<noteq> 0) \<and>
     ss_input sample_state = used @ ss_input st' \<and> consent 2 used"
proof -
  obtain code st' where run: "doSubmit sample_client sample_args sample_state = Some (code, st')"
    "code = 0" "ss_posts st' = [(ApiEndpointValidate, ''v''), (ApiEndpointSubmit, ''s'')]"
    using sample_submit by (auto simp: map_option_eq_Some simp del: append.simps)
  have start: "ss_posts sample_state = []" by (simp add: sample_state_def)
  have "(ApiEndpointSubmit, ''s'') \<in> set (drop (length (ss_posts sample_state)) (ss_posts st'))"
    unfolding start run(3) by (simp only: list.size drop_0 list.set insert_iff) simp
  from submit_after_checks [OF run(1) this] obtain req scores used where
    "localSubmitTest sample_client sample_args req = Some (Inr scores)" "\<exists>e\<in>set scores. sme_Earned e \<noteq> 0"
    "ss_input sample_state = used @ ss_input st'" "consent (1 + length (su_users sample_client)) used"
    by (elim exE conjE)
  moreover have "1 + length (su_users sample_client) = 2" by (simp add: sample_client_def)
  ultimately show ?thesis using run(1,2) by (intro exI conjI) (assumption | simp only:)+
qed

text \<open>
  Without a key the verification of the deployment key runs git like a user would, so it does not
  check a key at all.
\<close>

lemma no_key_not_verified:
  assumes "git_gitSSHCommand git = []"
  shows "fst (verifyDeploymentKey exec debug git w) =
    (case fst (doOneCommand exec git (may_be_empty (''git remote update '' @ git_remoteName git) debug DoNotUseDeployKey) w) of
       Inl err \<Rightarrow> Some err | Inr _ \<Rightarrow> None)"
proof -
  have "doOneCommand exec (git\<lparr>git_remoteUpdated := False\<rparr>) (may_be_empty c debug UseDeployKeyOnly) w =
      doOneCommand exec git (may_be_empty c debug DoNotUseDeployKey) w" for c
    using assms by (subst (1 2) doOneCommand.simps) (simp add: may_be_empty_def split: prod.split option.split)
  then show ?thesis by (simp add: verifyDeploymentKey_def updateRemote_def split: prod.split sum.split)
qed

text \<open>
  When the input has ended, a question is asked for ever; and answers that come through a pipe and
  are read at once are lost, but for the first one.
\<close>

lemma end_of_input: "getYesOrNo (replicate n []) = None"
  unfolding getYesOrNo_def by (induction n) (simp_all add: answer_loop.simps TrimSpace_def)

lemma piped_answers_lost:
  "getYesOrNo [''yes'' @ [CHR 0x0A] @ ''yes'' @ [CHR 0x0A]] = Some (''yes'', [])"
  "ask 2 ((''yes'' @ [CHR 0x0A] @ ''yes'' @ [CHR 0x0A]) # replicate n []) = None"
proof -
  have one: "getYesOrNo ((''yes'' @ [CHR 0x0A] @ ''yes'' @ [CHR 0x0A]) # cs) = Some (''yes'', cs)" for cs
  proof -
    have "ReadString [] ((''yes'' @ [CHR 0x0A] @ ''yes'' @ [CHR 0x0A]) # cs) = Some (''yes'' @ [CHR 0x0A], ''yes'' @ [CHR 0x0A], cs)"
      by (cases cs) (simp_all add: cut_line_def)
    moreover have "TrimSpace (''yes'' @ [CHR 0x0A]) = ''yes''" by code_simp
    ultimately show ?thesis by (simp add: getYesOrNo_def answer_loop.simps Let_def)
  qed
  then show "getYesOrNo [''yes'' @ [CHR 0x0A] @ ''yes'' @ [CHR 0x0A]] = Some (''yes'', [])" .
  show "ask 2 ((''yes'' @ [CHR 0x0A] @ ''yes'' @ [CHR 0x0A]) # replicate n []) = None"
    unfolding eval_nat_numeral(2) BitM.simps one_add_one numeral_2_eq_2 ask.simps one using end_of_input [of n] by simp
qed

end
