(* ===== verification/Printing.thy ===== *)
theory Printing
  imports GoFiles
begin

text \<open>
  \<open>test161/printing.go\<close>: tables on the terminal. Column widths between the longest word and the longest
  cell, as far as the terminal has room, the greedy split of cells into lines, and the padded
  output. What is printed is a list of chunks, a text with the colour it has. The field \<open>format\<close> of a
  heading is never used and left out; texts are ASCII, so lengths in bytes and in runes agree.
\<close>

section \<open>Data\<close>

datatype Color = Bold | FgGreen | FgRed | FgBlue

record Heading =
  h_Text :: string
  h_RightJustified :: bool
  h_MinWidth :: int
  h_width :: int
  h_min :: int
  h_max :: int

record Cell =
  cell_Text :: string
  cell_CellColor :: "Color option"

type_synonym Row = "Cell list"

record PrintConfig =
  pc_NumSpaceSep :: int
  pc_UnderlineChar :: string
  pc_BoldHeadings :: bool

record PrintData =
  pd_Headings :: "Heading list"
  pd_Rows :: "Row list"
  pd_Config :: PrintConfig

definition defaultPrintConf :: PrintConfig where
  "defaultPrintConf = \<lparr>pc_NumSpaceSep = 3, pc_UnderlineChar = ''-'', pc_BoldHeadings = True\<rparr>"

text \<open>A heading and a cell as the callers write them, the other fields zero.\<close>

definition heading :: "string \<Rightarrow> int \<Rightarrow> bool \<Rightarrow> Heading" where
  "heading name minWidth right = \<lparr>h_Text = name, h_RightJustified = right, h_MinWidth = minWidth,
     h_width = 0, h_min = 0, h_max = 0\<rparr>"

definition cell :: "string \<Rightarrow> Cell" where
  "cell s = \<lparr>cell_Text = s, cell_CellColor = None\<rparr>"

section \<open>The width of the terminal\<close>

text \<open>
  The value of \<open>strconv.Atoi\<close> when its error is dropped: 0 for a text that is no number, the limit
  for one that is out of range.
\<close>

definition atoi_value :: "string \<Rightarrow> int" where
  "atoi_value s =
     (case Atoi s of
        Some v \<Rightarrow> v
      | None \<Rightarrow> if is_number s \<or> is_number (tl s) \<and> hd s = CHR ''+'' then 2 ^ 63 - 1
                else if is_number (tl s) \<and> hd s = CHR ''-'' then - (2 ^ 63) else 0)"

text \<open>\<open>tty\<close> is the output of \<open>stty size\<close>, \<open>None\<close> if it fails.\<close>

definition numTTYColumns :: "string option \<Rightarrow> int" where
  "numTTYColumns tty =
     (case tty of
        None \<Rightarrow> - 1
      | Some res \<Rightarrow> (case Split CHR '' '' (TrimSpace res) of [_, cols] \<Rightarrow> atoi_value cols | _ \<Rightarrow> - 1))"

section \<open>The widths of the columns\<close>

function longest_from :: "string \<Rightarrow> nat \<Rightarrow> nat \<Rightarrow> nat \<Rightarrow> nat" where
  "longest_from line start longest pos =
     (if pos \<le> length line then
        if pos = length line \<or> line ! pos = CHR '' '' then
          longest_from line (pos + 1) (if longest < pos - start then pos - start else longest) (pos + 1)
        else longest_from line start longest (pos + 1)
      else longest)"
  by pat_completeness auto
termination by (relation "measure (\<lambda>(line, _, _, pos). length line + 1 - pos)") auto

declare longest_from.simps [simp del]

definition longestWordLen :: "string \<Rightarrow> nat" where
  "longestWordLen line = longest_from line 0 0 0"

definition first_width :: "Heading \<Rightarrow> Heading" where
  "first_width h =
     (let m = (if h_MinWidth h < int (length (h_Text h)) then int (length (h_Text h)) else h_MinWidth h)
      in h\<lparr>h_min := m, h_max := m\<rparr>)"

definition measure_cell :: "Heading \<Rightarrow> Cell \<Rightarrow> Heading" where
  "measure_cell h c =
     (let lw = int (longestWordLen (cell_Text c));
          h1 = (if h_min h < lw then h\<lparr>h_min := lw\<rparr> else h)
      in if int (length (cell_Text c)) > h_max h1 then h1\<lparr>h_max := int (length (cell_Text c))\<rparr> else h1)"

text \<open>The index of a cell without heading is out of range, a panic.\<close>

fun measure_row :: "Heading list \<Rightarrow> Row \<Rightarrow> Heading list option" where
  "measure_row hs [] = Some hs"
| "measure_row [] (c # cs) = None"
| "measure_row (h # hs) (c # cs) = map_option (\<lambda>hs'. measure_cell h c # hs') (measure_row hs cs)"

fun measure_rows :: "Heading list \<Rightarrow> Row list \<Rightarrow> Heading list option" where
  "measure_rows hs [] = Some hs"
| "measure_rows hs (row # rows) = Option.bind (measure_row hs row) (\<lambda>hs'. measure_rows hs' rows)"

text \<open>One round of the loop that hands out the remaining columns, and whether it handed out any.\<close>

fun spread_round :: "int \<Rightarrow> Heading list \<Rightarrow> int \<times> Heading list \<times> bool" where
  "spread_round remaining [] = (remaining, [], False)"
| "spread_round remaining (h # hs) =
     (if h_width h < h_max h \<and> remaining > 0 then
        (case spread_round (remaining - 1) hs of
           (r, hs', _) \<Rightarrow> (r, h\<lparr>h_width := h_width h + 1\<rparr> # hs', True))
      else (case spread_round remaining hs of (r, hs', didOne) \<Rightarrow> (r, h # hs', didOne)))"

lemma spread_round_remaining:
  "spread_round remaining hs = (r, hs', didOne) \<Longrightarrow> r \<le> remaining \<and> (didOne \<longrightarrow> r < remaining)"
  by (induction hs arbitrary: remaining r hs' didOne) (fastforce split: if_splits prod.splits)+

function spread :: "int \<Rightarrow> Heading list \<Rightarrow> Heading list" where
  "spread remaining hs =
     (if remaining > 0 then
        (case spread_round remaining hs of
           (r, hs', didOne) \<Rightarrow> if didOne then spread r hs' else hs')
      else hs)"
  by pat_completeness auto
termination
  by (relation "measure (\<lambda>(remaining, _). nat remaining)") (auto dest: spread_round_remaining [OF sym])

declare spread.simps [simp del]

definition room :: "string option \<Rightarrow> int \<Rightarrow> nat \<Rightarrow> int" where
  "room tty sep n =
     (let remaining = numTTYColumns tty in (if remaining < 80 then 80 else remaining) - (int n - 1) * sep)"

definition calcWidths :: "string option \<Rightarrow> PrintData \<Rightarrow> PrintData option" where
  "calcWidths tty pd =
     Option.bind (measure_rows (map first_width (pd_Headings pd)) (pd_Rows pd)) (\<lambda>hs.
       (let hs1 = map (\<lambda>h. h\<lparr>h_width := h_min h\<rparr>) hs;
            remaining = room tty (pc_NumSpaceSep (pd_Config pd)) (length (pd_Headings pd)) - sum_list (map h_width hs1)
        in Some (pd\<lparr>pd_Headings := spread remaining hs1\<rparr>)))"

section \<open>Splitting cells into lines\<close>

fun fill :: "int \<Rightarrow> int \<Rightarrow> string \<Rightarrow> string list \<Rightarrow> string list" where
  "fill width remaining line [] = (if line = [] then [] else [line])"
| "fill width remaining line (word # ws) =
     (if line = [] then fill width (width - int (length word)) word ws
      else if remaining \<ge> int (length word) + 1 then
        fill width (remaining - (int (length word) + 1)) (line @ '' '' @ word) ws
      else line # fill width (width - int (length word)) word ws)"

definition split_cell :: "Cell \<Rightarrow> int \<Rightarrow> Cell list" where
  "split_cell c width =
     map (\<lambda>line. \<lparr>cell_Text = line, cell_CellColor = cell_CellColor c\<rparr>)
       (fill width width [] (Split CHR '' '' (cell_Text c)))"

definition split_row :: "Row \<Rightarrow> Heading list \<Rightarrow> Row list option" where
  "split_row row hs =
     (if length hs < length row then None
      else
        (let splits = map2 (\<lambda>c h. split_cell c (h_width h)) row hs;
             numLines = foldl max 0 (map length splits)
         in Some (map (\<lambda>i. map (\<lambda>s. if i < length s then s ! i else cell []) splits) [0..<numLines])))"

fun split_rows :: "Row list \<Rightarrow> Heading list \<Rightarrow> Row list option" where
  "split_rows [] hs = Some []"
| "split_rows (row # rows) hs =
     Option.bind (split_row row hs) (\<lambda>new. map_option (\<lambda>news. new @ news) (split_rows rows hs))"

definition splitRows :: "PrintData \<Rightarrow> PrintData option" where
  "splitRows pd = map_option (\<lambda>rows. pd\<lparr>pd_Rows := rows\<rparr>) (split_rows (pd_Rows pd) (pd_Headings pd))"

section \<open>Printing\<close>

text \<open>The format string of a column: the side of the padding, the width and what follows the cell.\<close>

record CellFormat =
  fm_Right :: bool
  fm_Width :: int
  fm_After :: string

fun formats :: "PrintConfig \<Rightarrow> Heading list \<Rightarrow> CellFormat list" where
  "formats c [] = []"
| "formats c (h # hs) =
     \<lparr>fm_Right = h_RightJustified h, fm_Width = h_width h,
      fm_After = (if hs \<noteq> [] \<and> pc_NumSpaceSep c > 0 then replicate (nat (pc_NumSpaceSep c)) CHR '' '' else [CHR 0x0A])\<rparr>
     # formats c hs"

definition pad :: "bool \<Rightarrow> int \<Rightarrow> string \<Rightarrow> string" where
  "pad right width s =
     (let spaces = replicate (nat (width - int (length s))) CHR '' '' in if right then spaces @ s else s @ spaces)"

definition print_cell :: "CellFormat \<Rightarrow> string \<Rightarrow> string" where
  "print_cell fm s = pad (fm_Right fm) (fm_Width fm) s @ fm_After fm"

type_synonym chunks = "(Color option \<times> string) list"

definition plain :: "chunks \<Rightarrow> string" where
  "plain out = concat (map snd out)"

definition print_row :: "CellFormat list \<Rightarrow> Row \<Rightarrow> chunks" where
  "print_row fms row = map2 (\<lambda>fm c. (cell_CellColor c, print_cell fm (cell_Text c))) fms row"

definition heading_row :: "PrintConfig \<Rightarrow> Heading list \<Rightarrow> Row" where
  "heading_row c hs =
     map (\<lambda>h. \<lparr>cell_Text = h_Text h, cell_CellColor = (if pc_BoldHeadings c then Some Bold else None)\<rparr>) hs"

definition underline_row :: "PrintConfig \<Rightarrow> Heading list \<Rightarrow> Row" where
  "underline_row c hs = map (\<lambda>h. cell (concat (replicate (nat (h_width h)) (pc_UnderlineChar c)))) hs"

definition print_table :: "PrintConfig \<Rightarrow> Heading list \<Rightarrow> Row list \<Rightarrow> chunks" where
  "print_table c hs rows =
     (let fms = formats c hs
      in concat (map (print_row fms)
           ([heading_row c hs] @ (if pc_UnderlineChar c \<noteq> [] then [underline_row c hs] else []) @ rows)))"

definition Print :: "string option \<Rightarrow> PrintData \<Rightarrow> (string + chunks) option" where
  "Print tty pd =
     (if \<exists>row\<in>set (pd_Rows pd). length row \<noteq> length (pd_Headings pd) then Some (Inl ''Wrong number of columns'')
      else
        Option.bind (calcWidths tty pd) (\<lambda>pd1.
          map_option (\<lambda>pd2. Inr (print_table (pd_Config pd2) (pd_Headings pd2) (pd_Rows pd2))) (splitRows pd1)))"

section \<open>The length of the longest word\<close>

text \<open>The loop has the word that begins at \<open>start\<close> and the longest word before it.\<close>

lemma longest_from_words:
  "start \<le> pos \<Longrightarrow> pos \<le> length line \<Longrightarrow> CHR '' '' \<notin> set (take (pos - start) (drop start line)) \<Longrightarrow>
     longest_from line start longest pos = foldl max longest (map length (Split CHR '' '' (drop start line)))"
proof (induction line start longest pos rule: longest_from.induct)
  case (1 line start longest pos)
  consider (last) "pos = length line" | (space) "pos < length line" "line ! pos = CHR '' ''"
    | (word) "pos < length line" "line ! pos \<noteq> CHR '' ''" using "1.prems" by fastforce
  then show ?case
  proof cases
    case last
    with "1.prems" have "Split CHR '' '' (drop start line) = [drop start line]" by (intro Split_plain) simp
    with last show ?thesis by (simp add: longest_from.simps [of line] max_def)
  next
    case space
    have "drop start line = take (pos - start) (drop start line) @ drop pos line"
      using "1.prems"(1) by (metis append_take_drop_id drop_drop le_add_diff_inverse add.commute)
    also have "drop pos line = CHR '' '' # drop (pos + 1) line" using space by (metis Cons_nth_drop_Suc Suc_eq_plus1)
    finally have "Split CHR '' '' (drop start line) = take (pos - start) (drop start line) # Split CHR '' '' (drop (pos + 1) line)"
      using Split_append_sep "1.prems"(3) by metis
    moreover have "length (take (pos - start) (drop start line)) = pos - start" using "1.prems" by simp
    ultimately have "map length (Split CHR '' '' (drop start line)) = (pos - start) # map length (Split CHR '' '' (drop (pos + 1) line))"
      by simp
    moreover have "(if longest < pos - start then pos - start else longest) = max longest (pos - start)" by simp
    ultimately show ?thesis using space "1.IH"(1) by (simp add: longest_from.simps [of line start longest pos])
  next
    case word
    then have "take (pos + 1 - start) (drop start line) = take (pos - start) (drop start line) @ [line ! pos]"
      using "1.prems"(1) by (simp add: Suc_diff_le take_Suc_conv_app_nth)
    with word "1.prems" "1.IH"(2) show ?thesis by (simp add: longest_from.simps [of line start])
  qed
qed

lemma foldl_max_Max: "ns \<noteq> [] \<Longrightarrow> foldl max (0 :: nat) ns = Max (set ns)"
  by (induction ns rule: rev_nonempty_induct) (simp_all add: max.commute)

lemma foldl_max_le: "foldl max (n :: nat) ns \<le> m \<longleftrightarrow> n \<le> m \<and> (\<forall>k\<in>set ns. k \<le> m)"
  by (induction ns arbitrary: n) auto

text \<open>The index loop computes the length of the longest part between spaces.\<close>

lemma longestWordLen_Max: "longestWordLen line = Max (length ` set (Split CHR '' '' line))"
  using longest_from_words [of 0 0 line 0] foldl_max_Max [of "map length (Split CHR '' '' line)"]
  by (simp add: longestWordLen_def)

lemma longestWordLen_le: "int (longestWordLen line) \<le> m \<longleftrightarrow> (\<forall>w\<in>set (Split CHR '' '' line). int (length w) \<le> m)"
proof -
  have "finite (length ` set (Split CHR '' '' line))" "length ` set (Split CHR '' '' line) \<noteq> {}" by simp_all
  from Max_le_iff [OF this] show ?thesis
    by (cases "m \<ge> 0") (auto simp: longestWordLen_Max nat_le_iff le_nat_iff [symmetric])
qed

section \<open>The widths\<close>

text \<open>A heading whose bounds cover a cell.\<close>

definition covers :: "Heading \<Rightarrow> Cell \<Rightarrow> bool" where
  "covers h c \<longleftrightarrow> int (longestWordLen (cell_Text c)) \<le> h_min h \<and> int (length (cell_Text c)) \<le> h_max h"

definition wider :: "Heading \<Rightarrow> Heading \<Rightarrow> bool" where
  "wider h h' \<longleftrightarrow> h_Text h' = h_Text h \<and> h_RightJustified h' = h_RightJustified h \<and> h_MinWidth h' = h_MinWidth h \<and>
     h_min h \<le> h_min h' \<and> h_max h \<le> h_max h'"

definition bounds_ok :: "Heading \<Rightarrow> bool" where
  "bounds_ok h \<longleftrightarrow> h_min h \<le> h_max h \<and> h_MinWidth h \<le> h_min h \<and> int (length (h_Text h)) \<le> h_min h"

lemma longestWordLen_le_length: "longestWordLen line \<le> length line"
proof -
  have "length w \<le> length line" if "w \<in> set (Split CHR '' '' line)" for w
    using that
  proof (induction line arbitrary: w)
    case (Cons x line)
    then show ?case by (fastforce split: if_splits list.splits)
  qed simp
  then show ?thesis by (simp add: longestWordLen_Max)
qed

lemma measure_cell_ok:
  "wider h (measure_cell h c)" "bounds_ok h \<Longrightarrow> bounds_ok (measure_cell h c)" "covers (measure_cell h c) c"
  using longestWordLen_le_length [of "cell_Text c"]
  by (auto simp: wider_def measure_cell_def bounds_ok_def covers_def Let_def)

lemma wider_trans: "wider a b \<Longrightarrow> wider b c \<Longrightarrow> wider a c" by (auto simp: wider_def)

lemma wider_refl [simp]: "wider a a" by (simp add: wider_def)

lemma covers_wider: "covers h c \<Longrightarrow> wider h h' \<Longrightarrow> covers h' c" by (auto simp: wider_def covers_def)

lemma wider_list_refl [simp]: "list_all2 wider hs hs" by (simp add: list_all2_refl)

lemma wider_list_trans: "list_all2 wider as bs \<Longrightarrow> list_all2 wider bs cs \<Longrightarrow> list_all2 wider as cs"
  by (rule list_all2_trans [OF wider_trans])

lemma measure_row_ok:
  assumes "length row = length hs" and "list_all bounds_ok hs"
  shows "\<exists>hs'. measure_row hs row = Some hs' \<and> list_all2 wider hs hs' \<and> list_all bounds_ok hs' \<and> list_all2 covers hs' row"
  using assms by (induction hs row rule: measure_row.induct) (auto simp: measure_cell_ok)

lemma covers_list_wider: "list_all2 covers hs row \<Longrightarrow> list_all2 wider hs hs' \<Longrightarrow> list_all2 covers hs' row"
proof (induction hs row arbitrary: hs' rule: list_all2_induct)
  case (Cons h hs c row)
  then show ?case by (auto simp: list_all2_Cons1 dest: covers_wider)
qed simp

lemma measure_rows_ok:
  assumes "\<forall>row\<in>set rows. length row = length hs" and "list_all bounds_ok hs"
  shows "\<exists>hs'. measure_rows hs rows = Some hs' \<and> list_all2 wider hs hs' \<and> list_all bounds_ok hs' \<and>
     (\<forall>row\<in>set rows. list_all2 covers hs' row)"
  using assms
proof (induction rows arbitrary: hs)
  case (Cons row rows)
  then obtain hs1 where hs1: "measure_row hs row = Some hs1" "list_all2 wider hs hs1" "list_all bounds_ok hs1" "list_all2 covers hs1 row"
    using measure_row_ok [of row hs] by auto
  with Cons.prems have "\<forall>row\<in>set rows. length row = length hs1" by (simp add: list_all2_lengthD)
  with Cons.IH [of hs1] hs1(3) obtain hs2 where hs2: "measure_rows hs1 rows = Some hs2" "list_all2 wider hs1 hs2"
    "list_all bounds_ok hs2" "\<forall>row\<in>set rows. list_all2 covers hs2 row" by blast
  with hs1 covers_list_wider [OF hs1(4) hs2(2)] wider_list_trans [OF hs1(2) hs2(2)] show ?case by auto
qed simp

text \<open>The bounds of a column are the ones of its texts.\<close>

lemma measure_row_nth:
  "measure_row hs row = Some hs' \<Longrightarrow> length row = length hs \<Longrightarrow>
     length hs' = length hs \<and> (\<forall>k<length hs. hs' ! k = measure_cell (hs ! k) (row ! k))"
proof (induction hs row arbitrary: hs' rule: measure_row.induct)
  case (3 h hs c cs)
  then obtain rest where "measure_row hs cs = Some rest" "hs' = measure_cell h c # rest" by auto
  with 3 show ?case by (auto simp: less_Suc_eq_0_disj)
qed simp_all

lemma measure_rows_nth:
  "measure_rows hs rows = Some hs' \<Longrightarrow> \<forall>row\<in>set rows. length row = length hs \<Longrightarrow>
     length hs' = length hs \<and> (\<forall>k<length hs. hs' ! k = foldl measure_cell (hs ! k) (map (\<lambda>row. row ! k) rows))"
proof (induction rows arbitrary: hs)
  case (Cons row rows)
  then obtain hs1 where hs1: "measure_row hs row = Some hs1" and rest: "measure_rows hs1 rows = Some hs'"
    by (auto split: bind_splits)
  from measure_row_nth [OF hs1] Cons.prems(2) have one: "length hs1 = length hs"
    "\<forall>k<length hs. hs1 ! k = measure_cell (hs ! k) (row ! k)" by auto
  with Cons.IH [OF rest] Cons.prems(2) show ?case by simp
qed simp

lemma measure_column:
  "h_min (foldl measure_cell h cs) = foldl max (h_min h) (map (\<lambda>c. int (longestWordLen (cell_Text c))) cs)"
  "h_max (foldl measure_cell h cs) = foldl max (h_max h) (map (\<lambda>c. int (length (cell_Text c))) cs)"
proof (induction cs arbitrary: h)
  case (Cons c cs)
  have one: "h_min (measure_cell h c) = max (h_min h) (int (longestWordLen (cell_Text c)))"
    "h_max (measure_cell h c) = max (h_max h) (int (length (cell_Text c)))" for h
    by (simp_all add: measure_cell_def Let_def max_def)
  { case 1 show ?case using Cons.IH(1) [of "measure_cell h c"] by (simp add: one) }
  { case 2 show ?case using Cons.IH(2) [of "measure_cell h c"] by (simp add: one) }
qed simp_all

lemma foldl_max_insert: "foldl max (n :: int) ns = Max (insert n (set ns))"
proof (induction ns arbitrary: n)
  case (Cons m ns)
  have "max n m = Max {n, m}" by simp
  with Cons show ?case by (cases "ns = []") (simp_all add: insert_commute max.assoc)
qed simp

text \<open>
  The least width of column \<open>k\<close> of a table is its minimum, the length of its heading or the length
  of its longest word, the largest of the three; its full width counts the longest cell instead of
  the longest word.
\<close>

definition column_texts :: "PrintData \<Rightarrow> nat \<Rightarrow> string list" where
  "column_texts pd k = map (\<lambda>row. cell_Text (row ! k)) (pd_Rows pd)"

definition heading_width :: "PrintData \<Rightarrow> nat \<Rightarrow> int" where
  "heading_width pd k = max (h_MinWidth (pd_Headings pd ! k)) (int (length (h_Text (pd_Headings pd ! k))))"

definition least_width :: "PrintData \<Rightarrow> nat \<Rightarrow> int" where
  "least_width pd k = Max (insert (heading_width pd k)
     (set (map (\<lambda>text. Max ((\<lambda>w. int (length w)) ` set (Split CHR '' '' text))) (column_texts pd k))))"

definition full_width :: "PrintData \<Rightarrow> nat \<Rightarrow> int" where
  "full_width pd k = Max (insert (heading_width pd k) (set (map (\<lambda>text. int (length text)) (column_texts pd k))))"

lemma longestWordLen_int: "int (longestWordLen text) = Max ((\<lambda>w. int (length w)) ` set (Split CHR '' '' text))"
proof -
  have "int (Max (length ` set (Split CHR '' '' text))) = Max (int ` length ` set (Split CHR '' '' text))"
    by (intro mono_Max_commute) (simp_all add: mono_def)
  then show ?thesis by (simp add: longestWordLen_Max image_image)
qed

lemma first_width_bounds:
  "k < length (pd_Headings pd) \<Longrightarrow> h_min (first_width (pd_Headings pd ! k)) = heading_width pd k \<and>
     h_max (first_width (pd_Headings pd ! k)) = heading_width pd k"
  by (simp add: first_width_def heading_width_def Let_def max_def)

lemma measured_widths:
  assumes "measure_rows (map first_width (pd_Headings pd)) (pd_Rows pd) = Some hs"
    and "\<forall>row\<in>set (pd_Rows pd). length row = length (pd_Headings pd)" and "k < length (pd_Headings pd)"
  shows "h_min (hs ! k) = least_width pd k" and "h_max (hs ! k) = full_width pd k"
  using measure_rows_nth [OF assms(1)] assms(2,3) first_width_bounds [OF assms(3)]
  by (simp_all add: measure_column foldl_max_insert least_width_def full_width_def column_texts_def longestWordLen_int image_image)

text \<open>What the distribution of the remaining columns keeps.\<close>

definition stretched :: "Heading \<Rightarrow> Heading \<Rightarrow> bool" where
  "stretched h h' \<longleftrightarrow> (\<exists>w. h' = h\<lparr>h_width := w\<rparr> \<and> h_width h \<le> w \<and> (h_width h \<le> h_max h \<longrightarrow> w \<le> h_max h))"

lemma stretched_refl [simp]: "stretched h h" by (auto simp: stretched_def intro: exI [of _ "h_width h"])

lemma stretched_list_refl [simp]: "list_all2 stretched hs hs" by (simp add: list_all2_refl)

lemma stretched_trans: "stretched a b \<Longrightarrow> stretched b c \<Longrightarrow> stretched a c" by (auto simp: stretched_def)

lemma stretched_list_trans: "list_all2 stretched as bs \<Longrightarrow> list_all2 stretched bs cs \<Longrightarrow> list_all2 stretched as cs"
  by (rule list_all2_trans [OF stretched_trans])

lemma spread_round_ok:
  "spread_round remaining hs = (r, hs', didOne) \<Longrightarrow>
     list_all2 stretched hs hs' \<and> remaining - r = sum_list (map h_width hs') - sum_list (map h_width hs) \<and> min 0 remaining \<le> r"
proof (induction hs arbitrary: remaining r hs' didOne)
  case (Cons h hs)
  have step: "stretched h (h\<lparr>h_width := h_width h + 1\<rparr>)" if "h_width h < h_max h" using that by (auto simp: stretched_def)
  from Cons.prems show ?case
    using Cons.IH [of "remaining - 1"] Cons.IH [of remaining] step by (fastforce split: if_splits prod.splits)
qed simp

lemma spread_ok:
  "list_all2 stretched hs (spread remaining hs) \<and>
   (remaining > 0 \<longrightarrow> sum_list (map h_width (spread remaining hs)) \<le> sum_list (map h_width hs) + remaining) \<and>
   (remaining \<le> 0 \<longrightarrow> spread remaining hs = hs)"
proof (induction remaining hs rule: spread.induct)
  case (1 remaining hs)
  obtain r hs' didOne where round: "spread_round remaining hs = (r, hs', didOne)" by (cases "spread_round remaining hs")
  show ?case
  proof (cases "remaining > 0")
    case True
    note facts = spread_round_ok [OF round] spread_round_remaining [OF round]
    show ?thesis
    proof (cases didOne)
      case didOne: True
      with True round have "spread remaining hs = spread r hs'" by (simp add: spread.simps [of remaining])
      moreover have "list_all2 stretched hs (spread r hs')"
        by (rule stretched_list_trans [OF conjunct1 [OF facts(1)] conjunct1 [OF "1.IH" [OF True round [symmetric] refl didOne]]])
      moreover have "r \<ge> 0" using facts(1) True by simp
      ultimately show ?thesis using facts(1) "1.IH" [OF True round [symmetric] refl didOne] True
        by (cases "r = 0") auto
    next
      case False
      with True round have "spread remaining hs = hs'" by (simp add: spread.simps [of remaining])
      with facts True show ?thesis by simp
    qed
  qed (simp add: spread.simps [of remaining])
qed

text \<open>
  The columns grow equally up to their full widths, and the first ones take what is left over; the
  loop ends when all space is given out or all columns are full.
\<close>

definition grown :: "nat \<Rightarrow> nat \<Rightarrow> nat \<Rightarrow> Heading \<Rightarrow> int" where
  "grown g m k h = min (h_max h) (h_width h + int g + (if k < m then 1 else 0))"

definition not_over :: "Heading \<Rightarrow> bool" where
  "not_over h \<longleftrightarrow> h_width h \<le> h_max h"

lemma spread_round_prefix:
  "spread_round remaining hs = (r, hs', didOne) \<Longrightarrow> list_all not_over hs \<Longrightarrow>
     length hs' = length hs \<and> list_all not_over hs' \<and> map h_max hs' = map h_max hs \<and>
     (\<exists>m. (\<forall>k<length hs. h_width (hs' ! k) = grown 0 m k (hs ! k)) \<and> (remaining > 0 \<longrightarrow> r > 0 \<longrightarrow> m = length hs) \<and>
          (remaining \<le> 0 \<longrightarrow> m = 0))"
proof (induction hs arbitrary: remaining r hs' didOne)
  case (Cons h hs)
  show ?case
  proof (cases "h_width h < h_max h \<and> remaining > 0")
    case True
    with Cons.prems(1) obtain hs1 d where one: "spread_round (remaining - 1) hs = (r, hs1, d)"
      and hs': "hs' = h\<lparr>h_width := h_width h + 1\<rparr> # hs1" by (auto split: prod.splits)
    from Cons.IH [OF one] Cons.prems(2) obtain m where m: "length hs1 = length hs" "list_all not_over hs1"
      "map h_max hs1 = map h_max hs" "\<forall>k<length hs. h_width (hs1 ! k) = grown 0 m k (hs ! k)"
      "remaining - 1 > 0 \<longrightarrow> r > 0 \<longrightarrow> m = length hs" "remaining - 1 \<le> 0 \<longrightarrow> m = 0" by auto
    have "r > 0 \<longrightarrow> remaining - 1 > 0" using spread_round_remaining [OF one] by auto
    moreover have "not_over (h\<lparr>h_width := h_width h + 1\<rparr>)" using True by (simp add: not_over_def)
    ultimately show ?thesis using True m hs'
      by (intro conjI exI [of _ "Suc m"]) (auto simp: nth_Cons' grown_def)
  next
    case False
    with Cons.prems(1) obtain hs1 where one: "spread_round remaining hs = (r, hs1, didOne)" and hs': "hs' = h # hs1"
      by (auto split: prod.splits)
    from Cons.IH [OF one] Cons.prems(2) obtain m where m: "length hs1 = length hs" "list_all not_over hs1"
      "map h_max hs1 = map h_max hs" "\<forall>k<length hs. h_width (hs1 ! k) = grown 0 m k (hs ! k)"
      "remaining > 0 \<longrightarrow> r > 0 \<longrightarrow> m = length hs" "remaining \<le> 0 \<longrightarrow> m = 0" by auto
    have h: "h_width h \<le> h_max h" using Cons.prems(2) by (simp add: not_over_def)
    show ?thesis using False m hs' h
      by (intro conjI exI [of _ "if remaining > 0 then Suc m else 0"]) (use Cons.prems(2) in \<open>auto simp: nth_Cons' grown_def\<close>)
  qed
qed (auto intro: exI [of _ 0])

lemma spread_round_none:
  "spread_round remaining hs = (r, hs', False) \<Longrightarrow> remaining > 0 \<Longrightarrow> hs' = hs \<and> (\<forall>h\<in>set hs. h_max h \<le> h_width h)"
  by (induction hs arbitrary: remaining r hs') (fastforce split: if_splits prod.splits)+

lemma grown_twice: "h_max h' = h_max h \<Longrightarrow> h_width h' = grown 0 n k h \<Longrightarrow> k < n \<Longrightarrow> grown g m k h' = grown (Suc g) m k h"
  by (auto simp: grown_def)

lemma not_over_sum: "list_all not_over hs \<Longrightarrow> sum_list (map h_width hs) \<le> sum_list (map h_max hs)"
  by (induction hs) (auto simp: not_over_def)

lemma spread_exact:
  "list_all not_over hs \<Longrightarrow>
     (\<exists>g m. \<forall>k<length hs. h_width (spread remaining hs ! k) = grown g m k (hs ! k)) \<and>
     (remaining > 0 \<longrightarrow> sum_list (map h_width (spread remaining hs)) =
        min (sum_list (map h_width hs) + remaining) (sum_list (map h_max hs)))"
proof (induction remaining hs rule: spread.induct)
  case (1 remaining hs)
  have still: "h_width (hs ! k) = grown 0 0 k (hs ! k)" if "k < length hs" for k
    using 1(2) that by (simp add: list_all_length not_over_def grown_def)
  obtain r hs' didOne where round: "spread_round remaining hs = (r, hs', didOne)" by (cases "spread_round remaining hs")
  from spread_round_prefix [OF round 1(2)] obtain m where m: "length hs' = length hs" "list_all not_over hs'"
    "map h_max hs' = map h_max hs" "\<forall>k<length hs. h_width (hs' ! k) = grown 0 m k (hs ! k)"
    "remaining > 0 \<longrightarrow> r > 0 \<longrightarrow> m = length hs" by blast
  note facts = spread_round_ok [OF round]
  show ?case
  proof (cases "remaining > 0")
    case True
    show ?thesis
    proof (cases didOne)
      case didOne: True
      with True round have s: "spread remaining hs = spread r hs'" by (simp add: spread.simps [of remaining])
      note IH = "1.IH" [OF True round [symmetric] refl didOne m(2)]
      show ?thesis
      proof (cases "r > 0")
        case more: True
        have max: "h_max (hs' ! k) = h_max (hs ! k)" if "k < length hs" for k
          using m(1,3) that by (metis nth_map)
        from IH obtain g n where "\<forall>k<length hs'. h_width (spread r hs' ! k) = grown g n k (hs' ! k)" (is ?grown) by blast
        have total: "sum_list (map h_width hs') + r = sum_list (map h_width hs) + remaining" using facts by simp
        have "\<forall>k<length hs. h_width (spread r hs' ! k) = grown (Suc g) n k (hs ! k)"
          using \<open>?grown\<close> m(1,4,5) True more grown_twice [OF max] by simp
        moreover have "sum_list (map h_width (spread r hs')) = min (sum_list (map h_width hs) + remaining) (sum_list (map h_max hs))"
          using IH more m(3) total by simp
        ultimately show ?thesis unfolding s by blast
      next
        case False
        with facts True have r: "r = 0" by simp
        then have "spread r hs' = hs'" by (simp add: spread.simps)
        moreover have "sum_list (map h_width hs') = min (sum_list (map h_width hs) + remaining) (sum_list (map h_max hs))"
          using facts r not_over_sum [OF m(2)] m(3) by simp
        ultimately show ?thesis unfolding s using m(4) by auto
      qed
    next
      case False
      with spread_round_none [of remaining hs r hs'] True round have same: "hs' = hs" "\<forall>h\<in>set hs. h_max h \<le> h_width h" by auto
      with False True round have s: "spread remaining hs = hs" by (simp add: spread.simps [of remaining])
      have "\<forall>h\<in>set hs. h_width h = h_max h" using same(2) 1(2) by (fastforce simp: list_all_iff not_over_def)
      then have "map h_width hs = map h_max hs" by simp
      then have "sum_list (map h_width hs) = min (sum_list (map h_width hs) + remaining) (sum_list (map h_max hs))"
        using True by (simp only: min_def) simp
      then show ?thesis unfolding s using still by blast
    qed
  next
    case False
    then have "spread remaining hs = hs" by (simp add: spread.simps [of remaining])
    then show ?thesis using still False by (auto intro: exI [of _ 0])
  qed
qed

section \<open>The split of a cell keeps its words and fits\<close>

definition words :: "string \<Rightarrow> string list" where
  "words s = filter (\<lambda>w. w \<noteq> []) (Split CHR '' '' s)"

lemma words_Nil [simp]: "words [] = []"
  by (simp add: words_def)

lemma words_plain: "CHR '' '' \<notin> set w \<Longrightarrow> words w = (if w = [] then [] else [w])"
  by (simp add: words_def Split_plain)

lemma words_snoc: "CHR '' '' \<notin> set w \<Longrightarrow> words (line @ CHR '' '' # w) = words line @ words w"
  by (simp add: words_def Split_snoc_sep Split_plain)

lemma fill_words:
  "\<forall>w\<in>set ws. CHR '' '' \<notin> set w \<Longrightarrow>
     concat (map words (fill width remaining line ws)) = words line @ filter (\<lambda>w. w \<noteq> []) ws"
proof (induction width remaining line ws rule: fill.induct)
  case (2 width remaining line word ws)
  then have word: "CHR '' '' \<notin> set word" by simp
  then have snoc: "words (line @ '' '' @ word) = words line @ words word" by (simp add: words_snoc)
  consider (first) "line = []" | (fits) "line \<noteq> []" "remaining \<ge> int (length word) + 1"
    | (new) "line \<noteq> []" "\<not> remaining \<ge> int (length word) + 1" by blast
  then show ?case
  proof cases
    case first
    with 2 word show ?thesis by (simp add: words_plain)
  next
    case fits
    then have "fill width remaining line (word # ws) =
        fill width (remaining - (int (length word) + 1)) (line @ '' '' @ word) ws" by simp
    with 2(2) [OF fits] 2(4) snoc word show ?thesis by (simp only:) (simp add: words_plain)
  next
    case new
    with 2 word show ?thesis by (simp add: words_plain)
  qed
qed simp

lemma fill_fits:
  "\<forall>w\<in>set ws. int (length w) \<le> width \<Longrightarrow> int (length line) \<le> width \<Longrightarrow>
     line \<noteq> [] \<longrightarrow> remaining = width - int (length line) \<Longrightarrow>
     l \<in> set (fill width remaining line ws) \<Longrightarrow> int (length l) \<le> width \<and> l \<noteq> []"
proof (induction width remaining line ws rule: fill.induct)
  case (2 width remaining line word ws)
  consider (first) "line = []" | (fits) "line \<noteq> []" "remaining \<ge> int (length word) + 1"
    | (new) "line \<noteq> []" "\<not> remaining \<ge> int (length word) + 1" by blast
  then show ?case
  proof cases
    case first
    with 2 show ?thesis by simp
  next
    case fits
    with 2 show ?thesis by simp
  next
    case new
    with 2 show ?thesis by auto
  qed
qed (simp split: if_splits)

lemma Split_no_space: "w \<in> set (Split c s) \<Longrightarrow> c \<notin> set w"
  by (induction s arbitrary: w) (auto split: if_splits list.splits)

lemma split_cell_words: "concat (map (\<lambda>c. words (cell_Text c)) (split_cell c width)) = words (cell_Text c)"
proof -
  have "\<forall>w\<in>set (Split CHR '' '' (cell_Text c)). CHR '' '' \<notin> set w" using Split_no_space by blast
  from fill_words [OF this] show ?thesis by (simp add: split_cell_def words_def [of "cell_Text c"] comp_def)
qed

lemma split_cell_fits:
  assumes "covers h c" and "h_min h \<le> width" and "l \<in> set (split_cell c width)"
  shows "int (length (cell_Text l)) \<le> width" and "cell_CellColor l = cell_CellColor c"
proof -
  have "\<forall>w\<in>set (Split CHR '' '' (cell_Text c)). int (length w) \<le> width"
    using assms(1,2) by (auto simp: covers_def longestWordLen_le)
  moreover have "0 \<le> width" using assms(1,2) by (simp add: covers_def)
  ultimately show "int (length (cell_Text l)) \<le> width" "cell_CellColor l = cell_CellColor c"
    using assms(3) fill_fits [of "Split CHR '' '' (cell_Text c)" width "[]" width] by (auto simp: split_cell_def)
qed

section \<open>The split of a row\<close>

lemma concat_upt:
  "length s \<le> n \<Longrightarrow> concat (map (\<lambda>i. f (if i < length s then s ! i else z)) [0..<n]) =
     concat (map f s) @ concat (replicate (n - length s) (f z))"
proof (induction n)
  case (Suc n)
  show ?case
  proof (cases "length s \<le> n")
    case True
    with Suc.IH show ?thesis by (simp add: Suc_diff_le replicate_append_same [symmetric])
  next
    case False
    with Suc.prems have n: "length s = Suc n" by simp
    have "map (\<lambda>i. f (if i < length s then s ! i else z)) [0..<Suc n] = map f s"
      by (rule nth_equalityI) (auto simp: n nth_append less_Suc_eq simp del: upt_Suc)
    with n show ?thesis by simp
  qed
qed simp

lemma split_row_ok:
  assumes "list_all2 covers hs0 row" and "list_all2 (\<lambda>h0 h. h_min h0 \<le> h_width h) hs0 hs"
  shows "\<exists>rows. split_row row hs = Some rows \<and>
     (\<forall>new\<in>set rows. list_all2 (\<lambda>c h. int (length (cell_Text c)) \<le> h_width h) new hs) \<and>
     (\<forall>k<length hs. concat (map (\<lambda>new. words (cell_Text (new ! k))) rows) = words (cell_Text (row ! k)))"
proof -
  have len: "length row = length hs" "length hs0 = length hs" using assms [THEN list_all2_lengthD] by simp_all
  define splits where "splits = map2 (\<lambda>c h. split_cell c (h_width h)) row hs"
  define n where "n = foldl max 0 (map length splits)"
  define rows where "rows = map (\<lambda>i. map (\<lambda>s. if i < length s then s ! i else cell []) splits) [0..<n]"
  have split: "split_row row hs = Some rows"
    using len by (simp add: split_row_def splits_def n_def rows_def Let_def)
  have splits: "length splits = length hs" "k < length hs \<Longrightarrow> splits ! k = split_cell (row ! k) (h_width (hs ! k))" for k
    using len by (simp_all add: splits_def)
  have wide: "covers (hs0 ! k) (row ! k)" "h_min (hs0 ! k) \<le> h_width (hs ! k)" if "k < length hs" for k
    using assms that len by (simp_all add: list_all2_conv_all_nth)
  have fits: "int (length (cell_Text c)) \<le> h_width (hs ! k)" if "k < length hs" "c \<in> set (splits ! k)" for k c
    using split_cell_fits(1) [OF wide [OF that(1)]] that splits(2) by simp
  have nonneg: "0 \<le> h_width (hs ! k)" if "k < length hs" for k using wide [OF that] by (simp add: covers_def)
  have "list_all2 (\<lambda>c h. int (length (cell_Text c)) \<le> h_width h) new hs" if "new \<in> set rows" for new
    using that fits nonneg splits(1) by (auto simp: rows_def list_all2_conv_all_nth cell_def)
  moreover have "concat (map (\<lambda>new. words (cell_Text (new ! k))) rows) = words (cell_Text (row ! k))" if "k < length hs" for k
  proof -
    have "length (splits ! k) \<le> n" using foldl_max_le [of 0 "map length splits" n] that splits(1) by (simp add: n_def)
    then have "concat (map (\<lambda>i. words (cell_Text (if i < length (splits ! k) then splits ! k ! i else cell []))) [0..<n])
        = concat (map (\<lambda>c. words (cell_Text c)) (splits ! k))"
      by (subst concat_upt [where f = "\<lambda>c. words (cell_Text c)"]) (simp_all add: cell_def)
    moreover have "map (\<lambda>new. words (cell_Text (new ! k))) rows =
        map (\<lambda>i. words (cell_Text (if i < length (splits ! k) then splits ! k ! i else cell []))) [0..<n]"
      using that splits(1) by (simp add: rows_def)
    ultimately show ?thesis using that splits(2) split_cell_words by simp
  qed
  ultimately show ?thesis using split by blast
qed

lemma split_rows_ok:
  assumes "\<forall>row\<in>set rows. list_all2 covers hs0 row" and "list_all2 (\<lambda>h0 h. h_min h0 \<le> h_width h) hs0 hs"
  shows "\<exists>news. split_rows rows hs = Some news \<and>
     (\<forall>new\<in>set news. list_all2 (\<lambda>c h. int (length (cell_Text c)) \<le> h_width h) new hs) \<and>
     (\<forall>k<length hs. concat (map (\<lambda>new. words (cell_Text (new ! k))) news) = concat (map (\<lambda>row. words (cell_Text (row ! k))) rows))"
  using assms(1)
proof (induction rows)
  case (Cons row rows)
  then obtain news where "split_rows rows hs = Some news"
     "\<forall>new\<in>set news. list_all2 (\<lambda>c h. int (length (cell_Text c)) \<le> h_width h) new hs"
     "\<forall>k<length hs. concat (map (\<lambda>new. words (cell_Text (new ! k))) news) = concat (map (\<lambda>row. words (cell_Text (row ! k))) rows)"
    by auto
  moreover obtain new where "split_row row hs = Some new"
     "\<forall>new\<in>set new. list_all2 (\<lambda>c h. int (length (cell_Text c)) \<le> h_width h) new hs"
     "\<forall>k<length hs. concat (map (\<lambda>new. words (cell_Text (new ! k))) new) = words (cell_Text (row ! k))"
    using split_row_ok [OF _ assms(2), of row] Cons.prems by auto
  ultimately show ?case by (intro exI [of _ "new @ news"]) auto
qed simp

section \<open>Lines of a table\<close>

definition line_width :: "int \<Rightarrow> Heading list \<Rightarrow> int" where
  "line_width sep hs = sum_list (map h_width hs) + (int (length hs) - 1) * sep"

lemma pad_length: "int (length s) \<le> width \<Longrightarrow> int (length (pad right width s)) = width"
  by (simp add: pad_def Let_def)

lemma print_row_line:
  assumes "hs \<noteq> []" and "0 < pc_NumSpaceSep c" and "list_all2 (\<lambda>x h. int (length (cell_Text x)) \<le> h_width h) row hs"
  shows "\<exists>l. plain (print_row (formats c hs) row) = l @ [CHR 0x0A] \<and> int (length l) = line_width (pc_NumSpaceSep c) hs"
  using assms
proof (induction hs arbitrary: row)
  case (Cons h hs)
  then obtain x row' where row: "row = x # row'" "int (length (cell_Text x)) \<le> h_width h"
    "list_all2 (\<lambda>x h. int (length (cell_Text x)) \<le> h_width h) row' hs" by (auto simp: list_all2_Cons2)
  let ?s = "pad (h_RightJustified h) (h_width h) (cell_Text x)"
  show ?case
  proof (cases "hs = []")
    case True
    with row show ?thesis
      by (intro exI [of _ ?s]) (simp add: print_row_def print_cell_def plain_def line_width_def pad_length)
  next
    case False
    with Cons.IH [OF False Cons.prems(2) row(3)] obtain l where
      l: "plain (print_row (formats c hs) row') = l @ [CHR 0x0A]" "int (length l) = line_width (pc_NumSpaceSep c) hs" by blast
    have "plain (print_row (formats c (h # hs)) row) =
        (?s @ replicate (nat (pc_NumSpaceSep c)) CHR '' '' @ l) @ [CHR 0x0A]"
      using False Cons.prems(2) l(1) by (simp add: row(1) print_row_def print_cell_def plain_def)
    moreover have "int (length (?s @ replicate (nat (pc_NumSpaceSep c)) CHR '' '' @ l)) = line_width (pc_NumSpaceSep c) (h # hs)"
      using Cons.prems(2) l(2) pad_length [OF row(2)] by (simp add: line_width_def algebra_simps)
    ultimately show ?thesis by blast
  qed
qed simp

lemma rows_lines:
  assumes "hs \<noteq> []" and "0 < pc_NumSpaceSep c"
    and "\<forall>row\<in>set rows. list_all2 (\<lambda>x h. int (length (cell_Text x)) \<le> h_width h) row hs"
  shows "\<exists>ls. plain (concat (map (print_row (formats c hs)) rows)) = unlines ls \<and> length ls = length rows \<and>
     (\<forall>l\<in>set ls. int (length l) = line_width (pc_NumSpaceSep c) hs)"
  using assms(3)
proof (induction rows)
  case (Cons row rows)
  then obtain ls where "plain (concat (map (print_row (formats c hs)) rows)) = unlines ls" "length ls = length rows"
     "\<forall>l\<in>set ls. int (length l) = line_width (pc_NumSpaceSep c) hs" by auto
  moreover obtain l where "plain (print_row (formats c hs) row) = l @ [CHR 0x0A]" "int (length l) = line_width (pc_NumSpaceSep c) hs"
    using print_row_line [OF assms(1,2), of row] Cons.prems by auto
  ultimately show ?case by (intro exI [of _ "l # ls"]) (auto simp: plain_def unlines_def)
qed (simp add: plain_def unlines_def)

lemma print_table_lines:
  assumes "hs \<noteq> []" and "0 < pc_NumSpaceSep c" and "length (pc_UnderlineChar c) \<le> 1"
    and "\<forall>h\<in>set hs. int (length (h_Text h)) \<le> h_width h"
    and "\<forall>row\<in>set rows. list_all2 (\<lambda>x h. int (length (cell_Text x)) \<le> h_width h) row hs"
  shows "\<exists>ls. plain (print_table c hs rows) = unlines ls \<and> (\<forall>l\<in>set ls. int (length l) = line_width (pc_NumSpaceSep c) hs)"
proof -
  let ?rows = "[heading_row c hs] @ (if pc_UnderlineChar c \<noteq> [] then [underline_row c hs] else []) @ rows"
  have "length (concat (replicate n (pc_UnderlineChar c))) \<le> n" for n
    using assms(3) by (cases "pc_UnderlineChar c") (simp_all add: length_concat sum_list_replicate)
  moreover have "0 \<le> h_width h" if "h \<in> set hs" for h using assms(4) that by fastforce
  ultimately have "list_all2 (\<lambda>x h. int (length (cell_Text x)) \<le> h_width h) (underline_row c hs) hs"
    by (fastforce simp: underline_row_def cell_def list_all2_conv_all_nth nat_le_iff [symmetric] le_nat_iff [symmetric])
  moreover have "list_all2 (\<lambda>x h. int (length (cell_Text x)) \<le> h_width h) (heading_row c hs) hs"
    using assms(4) by (simp add: heading_row_def list_all2_conv_all_nth)
  ultimately have "\<forall>row\<in>set ?rows. list_all2 (\<lambda>x h. int (length (cell_Text x)) \<le> h_width h) row hs" using assms(5) by auto
  from rows_lines [OF assms(1,2) this] show ?thesis unfolding print_table_def Let_def by blast
qed

text \<open>Without space between the columns the code ends every cell with a new line.\<close>

lemma no_separator_breaks_lines:
  "pc_NumSpaceSep c \<le> 0 \<Longrightarrow> list_all (\<lambda>fm. fm_After fm = [CHR 0x0A]) (formats c hs)"
  by (induction hs) simp_all

section \<open>Tables\<close>

definition table_widths :: "string option \<Rightarrow> PrintData \<Rightarrow> Heading list \<Rightarrow> bool" where
  "table_widths tty pd hs \<longleftrightarrow>
     map h_Text hs = map h_Text (pd_Headings pd) \<and> map h_RightJustified hs = map h_RightJustified (pd_Headings pd) \<and>
     (\<exists>g m. \<forall>k<length hs. h_width (hs ! k) = min (full_width pd k) (least_width pd k + int g + (if k < m then 1 else 0))) \<and>
     sum_list (map h_width hs) =
       max (\<Sum>k<length hs. least_width pd k)
           (min (max 80 (numTTYColumns tty) - (int (length hs) - 1) * pc_NumSpaceSep (pd_Config pd)) (\<Sum>k<length hs. full_width pd k))"

lemma sum_list_nth: "(\<And>k. k < length hs \<Longrightarrow> f (hs ! k) = g k) \<Longrightarrow> sum_list (map f hs) = (\<Sum>k<length hs. g k)"
  by (simp add: sum_list_sum_nth lessThan_atLeast0)

lemma heading_least: "heading_width pd k \<le> least_width pd k"
  by (simp add: least_width_def)

lemma calcWidths_exact:
  assumes "\<forall>row\<in>set (pd_Rows pd). length row = length (pd_Headings pd)"
  obtains hs where "calcWidths tty pd = Some (pd\<lparr>pd_Headings := hs\<rparr>)" "table_widths tty pd hs"
    "\<forall>row\<in>set (pd_Rows pd). list_all2 covers hs row" "\<forall>h\<in>set hs. h_min h \<le> h_width h"
    "\<forall>h\<in>set hs. int (length (h_Text h)) \<le> h_width h"
proof -
  let ?n = "length (pd_Headings pd)" and ?room = "room tty (pc_NumSpaceSep (pd_Config pd)) (length (pd_Headings pd))"
  have start: "list_all bounds_ok (map first_width (pd_Headings pd))"
    by (auto simp: list_all_iff first_width_def bounds_ok_def Let_def)
  from assms have "\<forall>row\<in>set (pd_Rows pd). length row = length (map first_width (pd_Headings pd))" by simp
  from measure_rows_ok [OF this start] obtain hs0 where hs0:
    "measure_rows (map first_width (pd_Headings pd)) (pd_Rows pd) = Some hs0"
    "list_all2 wider (map first_width (pd_Headings pd)) hs0" "list_all bounds_ok hs0"
    "\<forall>row\<in>set (pd_Rows pd). list_all2 covers hs0 row" by blast
  have n: "length hs0 = ?n" using list_all2_lengthD [OF hs0(2)] by simp
  note widths = measured_widths [OF hs0(1) assms]
  define hs1 where "hs1 = map (\<lambda>h. h\<lparr>h_width := h_min h\<rparr>) hs0"
  define hs where "hs = spread (?room - sum_list (map h_width hs1)) hs1"
  note spread = spread_ok [of hs1 "?room - sum_list (map h_width hs1)", folded hs_def]
  have over: "list_all not_over hs1" using hs0(3) by (auto simp: hs1_def list_all_iff not_over_def bounds_ok_def)
  note exact = spread_exact [OF over, of "?room - sum_list (map h_width hs1)", folded hs_def]
  have len: "length hs = ?n" using list_all2_lengthD [OF conjunct1 [OF spread]] n by (simp add: hs1_def)
  have kept: "\<exists>w. hs ! k = (hs0 ! k)\<lparr>h_width := w\<rparr> \<and> h_min (hs0 ! k) \<le> w" if "k < ?n" for k
    using conjunct1 [OF spread] that len n by (fastforce simp: hs1_def stretched_def list_all2_conv_all_nth)
  have bounds: "bounds_ok (hs0 ! k)" if "k < ?n" for k using hs0(3) that n by (simp add: list_all_length)
  have same: "h_Text (hs0 ! k) = h_Text (pd_Headings pd ! k) \<and> h_RightJustified (hs0 ! k) = h_RightJustified (pd_Headings pd ! k)"
    if "k < ?n" for k
    using hs0(2) that n by (simp add: list_all2_conv_all_nth wider_def first_width_def Let_def)
  have calc: "calcWidths tty pd = Some (pd\<lparr>pd_Headings := hs\<rparr>)"
    by (simp add: calcWidths_def hs0(1) hs_def hs1_def Let_def)
  have least: "sum_list (map h_width hs1) = (\<Sum>k<?n. least_width pd k)"
    using sum_list_nth [of hs1 h_width "least_width pd"] widths(1) n by (simp add: hs1_def)
  have full: "sum_list (map h_max hs1) = (\<Sum>k<?n. full_width pd k)"
    using sum_list_nth [of hs1 h_max "full_width pd"] widths(2) n by (simp add: hs1_def)
  have room: "?room = max 80 (numTTYColumns tty) - (int ?n - 1) * pc_NumSpaceSep (pd_Config pd)"
    by (simp add: room_def Let_def max_def)
  have "(\<Sum>k<?n. least_width pd k) \<le> (\<Sum>k<?n. full_width pd k)" using not_over_sum [OF over] least full by simp
  then have total: "sum_list (map h_width hs) = max (\<Sum>k<?n. least_width pd k) (min ?room (\<Sum>k<?n. full_width pd k))"
    using exact spread by (cases "?room - sum_list (map h_width hs1) > 0") (auto simp: least full)
  from exact obtain g m where "\<forall>k<?n. h_width (hs ! k) = grown g m k (hs1 ! k)" using n by (auto simp: hs1_def)
  then have "\<forall>k<?n. h_width (hs ! k) = min (full_width pd k) (least_width pd k + int g + (if k < m then 1 else 0))"
    using widths n by (simp add: hs1_def grown_def)
  moreover have "map h_Text hs = map h_Text (pd_Headings pd)" "map h_RightJustified hs = map h_RightJustified (pd_Headings pd)"
    using kept same len by (force intro!: nth_equalityI)+
  ultimately have "table_widths tty pd hs" using total len room by (auto simp: table_widths_def)
  moreover have "\<forall>row\<in>set (pd_Rows pd). list_all2 covers hs row"
    using hs0(4) kept len n by (fastforce simp: list_all2_conv_all_nth covers_def)
  moreover have "\<forall>h\<in>set hs. h_min h \<le> h_width h \<and> int (length (h_Text h)) \<le> h_width h"
    using kept bounds len by (fastforce simp: in_set_conv_nth bounds_ok_def)
  ultimately show thesis using that calc by blast
qed

lemma Print_layout:
  assumes "\<forall>row\<in>set (pd_Rows pd). length row = length (pd_Headings pd)"
  obtains hs rows where "Print tty pd = Some (Inr (print_table (pd_Config pd) hs rows))" "table_widths tty pd hs"
    "map h_Text hs = map h_Text (pd_Headings pd)" "\<forall>h\<in>set hs. int (length (h_Text h)) \<le> h_width h"
    "\<forall>row\<in>set rows. list_all2 (\<lambda>c h. int (length (cell_Text c)) \<le> h_width h) row hs"
    "\<forall>k<length hs. concat (map (\<lambda>row. words (cell_Text (row ! k))) rows) =
       concat (map (\<lambda>row. words (cell_Text (row ! k))) (pd_Rows pd))"
proof -
  from calcWidths_exact [OF assms, of tty] obtain hs where hs: "calcWidths tty pd = Some (pd\<lparr>pd_Headings := hs\<rparr>)"
    "table_widths tty pd hs" "\<forall>row\<in>set (pd_Rows pd). list_all2 covers hs row" "\<forall>h\<in>set hs. h_min h \<le> h_width h"
    "\<forall>h\<in>set hs. int (length (h_Text h)) \<le> h_width h" .
  have "list_all2 (\<lambda>h0 h. h_min h0 \<le> h_width h) hs hs" using hs(4) by (simp add: list_all2_conv_all_nth)
  from split_rows_ok [OF hs(3) this] obtain rows where rows: "split_rows (pd_Rows pd) hs = Some rows"
     "\<forall>new\<in>set rows. list_all2 (\<lambda>c h. int (length (cell_Text c)) \<le> h_width h) new hs"
     "\<forall>k<length hs. concat (map (\<lambda>new. words (cell_Text (new ! k))) rows) =
        concat (map (\<lambda>row. words (cell_Text (row ! k))) (pd_Rows pd))" by blast
  have "Print tty pd = Some (Inr (print_table (pd_Config pd) hs rows))"
    using assms by (auto simp: Print_def hs(1) splitRows_def rows(1))
  then show thesis using that [OF _ hs(2) _ hs(5) rows(2,3)] hs(2) by (simp add: table_widths_def)
qed

text \<open>
  C32. A table with headings, as many cells in each row as headings, some space between the columns
  and at most one character to underline with is printed without an error or a panic. Each column
  has at least its least width (the largest of its minimum, its heading and its longest word), at
  most its full width (its longest cell instead of the longest word), and all columns grow equally
  from the least to the full width, the first ones by one more. Together they take the room that the
  terminal has (80 columns if it is narrower or unknown) without the spaces between the columns, or
  less when all columns are full, or more only when even the least widths do not fit. All lines have
  the same length, the widths and the spaces between the columns, and each column has all its words
  in order.
\<close>

theorem table_layout:
  assumes "\<forall>row\<in>set (pd_Rows pd). length row = length (pd_Headings pd)" and "pd_Headings pd \<noteq> []"
    and "0 < pc_NumSpaceSep (pd_Config pd)" and "length (pc_UnderlineChar (pd_Config pd)) \<le> 1"
  shows "\<exists>hs rows lines g m. Print tty pd = Some (Inr (print_table (pd_Config pd) hs rows)) \<and>
    map h_Text hs = map h_Text (pd_Headings pd) \<and> map h_RightJustified hs = map h_RightJustified (pd_Headings pd) \<and>
    (\<forall>k<length hs. h_width (hs ! k) = min (full_width pd k) (least_width pd k + int g + (if k < m then 1 else 0))) \<and>
    sum_list (map h_width hs) =
      max (\<Sum>k<length hs. least_width pd k)
          (min (max 80 (numTTYColumns tty) - (int (length hs) - 1) * pc_NumSpaceSep (pd_Config pd)) (\<Sum>k<length hs. full_width pd k)) \<and>
    plain (print_table (pd_Config pd) hs rows) = unlines lines \<and>
    (\<forall>l\<in>set lines. int (length l) = sum_list (map h_width hs) + (int (length hs) - 1) * pc_NumSpaceSep (pd_Config pd)) \<and>
    (\<forall>k<length hs. concat (map (\<lambda>row. words (cell_Text (row ! k))) rows) =
       concat (map (\<lambda>row. words (cell_Text (row ! k))) (pd_Rows pd)))"
proof -
  from Print_layout [OF assms(1), of tty] obtain hs rows where layout:
    "Print tty pd = Some (Inr (print_table (pd_Config pd) hs rows))" "table_widths tty pd hs"
    "map h_Text hs = map h_Text (pd_Headings pd)" "\<forall>h\<in>set hs. int (length (h_Text h)) \<le> h_width h"
    "\<forall>row\<in>set rows. list_all2 (\<lambda>c h. int (length (cell_Text c)) \<le> h_width h) row hs"
    "\<forall>k<length hs. concat (map (\<lambda>row. words (cell_Text (row ! k))) rows) =
       concat (map (\<lambda>row. words (cell_Text (row ! k))) (pd_Rows pd))" .
  from layout(3) assms(2) have "hs \<noteq> []" by auto
  then obtain lines where lines: "plain (print_table (pd_Config pd) hs rows) = unlines lines"
    "\<forall>l\<in>set lines. int (length l) = line_width (pc_NumSpaceSep (pd_Config pd)) hs"
    using print_table_lines assms(3,4) layout(4,5) by blast
  have "line_width (pc_NumSpaceSep (pd_Config pd)) hs =
      sum_list (map h_width hs) + (int (length hs) - 1) * pc_NumSpaceSep (pd_Config pd)"
    by (simp add: line_width_def)
  with layout(1,2,6) lines show ?thesis unfolding table_widths_def by metis
qed

section \<open>Witness\<close>

definition sample_table :: PrintData where
  "sample_table = \<lparr>pd_Headings = [heading ''Test'' 3 False, heading ''Score'' 0 True],
     pd_Rows = [[cell ''a b'', cell ''1/2'']], pd_Config = defaultPrintConf\<rparr>"

lemma table_layout_witness:
  "\<exists>out lines. Print (Some ''24 100'') sample_table = Some (Inr out) \<and> plain out = unlines lines \<and>
     (\<forall>l\<in>set lines. length l = 12)"
proof -
  have "\<forall>row\<in>set (pd_Rows sample_table). length row = length (pd_Headings sample_table)" "pd_Headings sample_table \<noteq> []"
    "0 < pc_NumSpaceSep (pd_Config sample_table)" "length (pc_UnderlineChar (pd_Config sample_table)) \<le> 1"
    by (simp_all add: sample_table_def defaultPrintConf_def)
  from table_layout [OF this, of "Some ''24 100''"] obtain hs rows lines where
    out: "Print (Some ''24 100'') sample_table = Some (Inr (print_table (pd_Config sample_table) hs rows))"
      "plain (print_table (pd_Config sample_table) hs rows) = unlines lines"
    and heads: "map h_Text hs = map h_Text (pd_Headings sample_table)"
    and sum: "sum_list (map h_width hs) =
      max (\<Sum>k<length hs. least_width sample_table k)
          (min (max 80 (numTTYColumns (Some ''24 100'')) - (int (length hs) - 1) * pc_NumSpaceSep (pd_Config sample_table))
            (\<Sum>k<length hs. full_width sample_table k))"
    and len: "\<forall>l\<in>set lines. int (length l) =
      sum_list (map h_width hs) + (int (length hs) - 1) * pc_NumSpaceSep (pd_Config sample_table)"
    by (elim exE conjE)
  have n: "length hs = 2" using arg_cong [OF heads, of length] by (simp add: sample_table_def)
  have "least_width sample_table 0 = 4" "least_width sample_table 1 = 5" "full_width sample_table 0 = 4" "full_width sample_table 1 = 5"
    by (code_simp)+
  then have w: "(\<Sum>k<2. least_width sample_table k) = 9" "(\<Sum>k<2. full_width sample_table k) = 9"
    by (simp_all add: eval_nat_numeral(2) lessThan_Suc)
  have sep: "pc_NumSpaceSep (pd_Config sample_table) = 3" by (simp add: sample_table_def defaultPrintConf_def)
  have "numTTYColumns (Some ''24 100'') = 100" by code_simp
  then have "sum_list (map h_width hs) = 9"
    unfolding sum n w sep by simp
  with len n sep have "\<forall>l\<in>set lines. length l = 12" by auto
  with out show ?thesis by blast
qed

end
