(* ===== verification/TestOutput.thy ===== *)
theory TestOutput
  imports Build Usage Printing
begin

text \<open>
  \<open>output.go\<close> and \<open>test161/consolepersist.go\<close>: the text of a finished test and of a group, and the lines a
  run shows on the console as its persistence manager is notified. The JSON of a test is the
  marshalling library applied to it and has no definition here.
\<close>

section \<open>Numbers\<close>

text \<open>\<open>%.6f\<close>: six digits after the point, rounded to even.\<close>

definition fixed6 :: "rat \<Rightarrow> string" where
  "fixed6 x =
     (let n = nat (round_half_even (\<bar>x\<bar> * 1000000))
      in (if x < 0 then ''-'' else []) @ Itoa (n div 1000000) @ ''.'' @ pad_zeros 6 (n mod 1000000))"

definition bool_text :: "bool \<Rightarrow> string" where
  "bool_text b = (if b then ''true'' else ''false'')"

section \<open>The text of a test\<close>

definition timed_line :: "OutputLine \<Rightarrow> string" where
  "timed_line l = fixed6 (ol_SimTime l) @ [CHR 0x09] @ ol_Line l @ [CHR 0x0A]"

text \<open>The first line of a command after the first one continues the line of its prompt, so it has no time.\<close>

definition command_text :: "bool \<Rightarrow> OutputLine list \<Rightarrow> string" where
  "command_text first ls =
     (case ls of
        [] \<Rightarrow> []
      | l # rest \<Rightarrow> (if first then timed_line l else ol_Line l @ [CHR 0x0A]) @ concat (map timed_line rest))"

fun commands_text :: "bool \<Rightarrow> Command list \<Rightarrow> string" where
  "commands_text first [] = []"
| "commands_text first (c # cs) = command_text first (c_Output c) @ commands_text False cs"

definition conf_text :: "Test \<Rightarrow> string" where
  "conf_text t =
     concat (map (\<lambda>conf. ''conf: '' @ TrimSpace conf @ [CHR 0x0A]) (Split CHR 0x0A (t_ConfString t)))"

definition status_line :: "Test \<Rightarrow> string" where
  "status_line t =
     (if t_Status t = [] then []
      else
        (let status = last (t_Status t)
         in fixed6 (t_SimTime t) @ [CHR 0x09] @ sta_Status status @
            (if sta_Message status \<noteq> [] then '': '' @ sta_Message status else []) @ [CHR 0x0A]))"

definition OutputString :: "Test \<Rightarrow> string" where
  "OutputString t =
     (let out = conf_text t @ commands_text True (t_Commands t);
          out1 = (if out \<noteq> [] \<and> last out \<noteq> CHR 0x0A then out @ [CHR 0x0A] else out)
      in out1 @ status_line t)"

text \<open>A group that was not made from a configuration has none, and the access panics.\<close>

definition group_text :: "TestGroup \<Rightarrow> string option" where
  "group_text tg =
     map_option (\<lambda>config.
       [CHR 0x0A] @ ''group: name    = '' @ gc_Name config @ [CHR 0x0A] @
       ''group: rootdir = '' @ env_RootDir (gc_Env config) @ [CHR 0x0A] @
       ''group: testdir = '' @ env_TestDir (gc_Env config) @ [CHR 0x0A] @
       ''group: usedeps = '' @ bool_text (gc_UseDeps config) @ [CHR 0x0A] @
       ''group: tests   = ['' @ Join_with '' '' (gc_Tests config) @ '']'' @ [CHR 0x0A] @
       concat (map (\<lambda>(_, test). [CHR 0x0A] @ OutputString test) (tg_Tests tg)))
     (tg_Config tg)"

section \<open>The console\<close>

text \<open>What can be notified: a command with the key of its test, a build command, a test, or something else.\<close>

datatype console_entity =
  Console_Command string "OutputLine list"
| Console_Build "OutputLine list"
| Console_Test Test
| Console_Other

definition console_line :: "nat \<Rightarrow> string \<Rightarrow> rat \<Rightarrow> string \<Rightarrow> string" where
  "console_line width name time line =
     ''['' @ pad False (int width) name @ '']'' @ [CHR 0x09] @ fixed6 time @ [CHR 0x09] @ line"

text \<open>
  A notification gives the width after it and the lines printed. An output update of a command
  without output is an index out of range. A single status is not shown.
\<close>

definition console_Notify ::
  "console_entity \<Rightarrow> notify_msg \<Rightarrow> nat \<Rightarrow> nat \<Rightarrow> (nat \<times> string list) option" where
  "console_Notify ent msg what width =
     (if msg = MSG_PERSIST_UPDATE \<and> what = MSG_FIELD_OUTPUT then
        (case ent of
           Console_Command name ls \<Rightarrow>
             if ls = [] then None
             else
               (let width' = (if width < length name then length name else width)
                in Some (width', [console_line width' name (ol_SimTime (last ls)) (ol_Line (last ls))]))
         | Console_Build ls \<Rightarrow> Some (width, map (\<lambda>l. fixed6 (ol_SimTime l) @ [CHR 0x09] @ ol_Line l) ls)
         | _ \<Rightarrow> Some (width, []))
      else if msg = MSG_PERSIST_UPDATE \<and> what = MSG_FIELD_STATUSES then
        (case ent of
           Console_Test test \<Rightarrow>
             if length (t_Status test) > 1 then
               (let status = last (t_Status test)
                in Some (width, [console_line width (t_DependencyID test) (t_SimTime test)
                     (sta_Status status @ (if sta_Message status \<noteq> [] then '': '' @ sta_Message status else []))]))
             else Some (width, [])
         | _ \<Rightarrow> Some (width, []))
      else if msg = MSG_PERSIST_UPDATE \<and> what = MSG_FIELD_STATUS then
        (case ent of
           Console_Test test \<Rightarrow>
             if t_Result test = TEST_RESULT_RUNNING then
               Some (width, map (console_line width (t_DependencyID test) 0) (Split CHR 0x0A (TrimSpace (t_ConfString test))))
             else Some (width, [])
         | _ \<Rightarrow> Some (width, []))
      else Some (width, []))"

text \<open>The width of the console before a run: the longest key of a test of the group.\<close>

definition console_width :: "TestGroup \<Rightarrow> nat" where
  "console_width tg =
     foldl (\<lambda>m t. if m < length (t_DependencyID t) then length (t_DependencyID t) else m) 0 (map snd (tg_Tests tg))"

section \<open>Lemmas\<close>

lemma concat_lines_end:
  "ls \<noteq> [] \<Longrightarrow> \<forall>l\<in>set ls. l \<noteq> [] \<and> last l = CHR 0x0A \<Longrightarrow> concat ls \<noteq> [] \<and> last (concat ls) = CHR 0x0A"
  by (induction ls rule: rev_nonempty_induct) auto

lemma commands_text_end: "commands_text first cs = [] \<or> last (commands_text first cs) = CHR 0x0A"
proof (induction cs arbitrary: first)
  case (Cons c cs)
  have "command_text first (c_Output c) = [] \<or> last (command_text first (c_Output c)) = CHR 0x0A"
  proof (cases "c_Output c")
    case (Cons l rest)
    have "rest \<noteq> [] \<Longrightarrow> concat (map timed_line rest) \<noteq> [] \<and> last (concat (map timed_line rest)) = CHR 0x0A"
      by (rule concat_lines_end) (auto simp: timed_line_def)
    with Cons show ?thesis by (cases "rest = []") (auto simp: command_text_def timed_line_def)
  qed (simp add: command_text_def)
  with Cons.IH [of False] show ?case by (cases "commands_text False cs = []") (auto simp: last_append)
qed simp

text \<open>The text of a test is its parts: the check for a missing end of line never adds one.\<close>

lemma OutputString_parts: "OutputString t = conf_text t @ commands_text True (t_Commands t) @ status_line t"
proof -
  have "last (conf_text t @ commands_text True (t_Commands t)) = CHR 0x0A"
  proof (cases "commands_text True (t_Commands t) = []")
    case True
    have "conf_text t \<noteq> [] \<and> last (conf_text t) = CHR 0x0A"
      unfolding conf_text_def by (rule concat_lines_end) auto
    with True show ?thesis by simp
  next
    case False
    with commands_text_end show ?thesis by auto
  qed
  then show ?thesis by (simp add: OutputString_def Let_def)
qed

text \<open>With the width of its group, a line of the console begins with the key padded to this width.\<close>

lemma foldl_max_if: "foldl (\<lambda>m t. if m < f t then f t else m) n ts = foldl max (n :: nat) (map f ts)"
proof (induction ts arbitrary: n)
  case (Cons t ts)
  have "(if n < f t then f t else n) = max n (f t)" by (simp add: max_def)
  with Cons.IH show ?case by simp
qed simp

lemma console_width_ge: "(k, t) \<in> set (tg_Tests tg) \<Longrightarrow> length (t_DependencyID t) \<le> console_width tg"
  using foldl_max_le [of 0 "map (length \<circ> t_DependencyID) (map snd (tg_Tests tg))" "console_width tg"]
  by (force simp: console_width_def foldl_max_if comp_def)

lemma console_width_kept:
  assumes "(k, t) \<in> set (tg_Tests tg)" and "out \<noteq> []"
  shows "console_Notify (Console_Command (t_DependencyID t) out) MSG_PERSIST_UPDATE MSG_FIELD_OUTPUT (console_width tg) =
     Some (console_width tg, [console_line (console_width tg) (t_DependencyID t) (ol_SimTime (last out)) (ol_Line (last out))])"
  using console_width_ge [OF assms(1)] assms(2) by (simp add: console_Notify_def Let_def)

end
