(* ===== verification/ClientPrint.thy ===== *)
theory ClientPrint
  imports ClientRun ConfCommands TestOutput
begin

text \<open>
  What \<open>test161/runcmd.go\<close> prints: the table, totals and scores of a run, the table of a dry run, and the
  explanation of tests. Tables are those of \<open>Printing\<close>; \<open>tty\<close> is the answer of the terminal about its
  size. Names are taken to have no percent sign (the lines of the scores are printed as formats).
\<close>

definition say :: "string \<Rightarrow> chunks" where
  "say s = [(None, s @ [CHR 0x0A])]"

lemma plain_append [simp]: "plain (a @ b) = plain a @ plain b"
  by (simp add: plain_def)

lemma plain_say [simp]: "plain (say s) = s @ [CHR 0x0A]"
  by (simp add: plain_def say_def)

text \<open>A call of \<open>Print\<close> whose error is dropped: nothing is printed then.\<close>

definition print_dropping :: "string option \<Rightarrow> PrintData \<Rightarrow> chunks option" where
  "print_dropping tty pd = map_option (\<lambda>r. case r of Inl _ \<Rightarrow> [] | Inr out \<Rightarrow> out) (Print tty pd)"

section \<open>The summary of a run\<close>

definition paint :: "TestResult \<Rightarrow> Color option" where
  "paint r = (case r of TEST_RESULT_CORRECT \<Rightarrow> Some FgGreen | TEST_RESULT_INCORRECT \<Rightarrow> Some FgRed
     | TEST_RESULT_SKIP \<Rightarrow> Some FgBlue | TEST_RESULT_ABORT \<Rightarrow> Some FgBlue | _ \<Rightarrow> None)"

definition summary_cells :: "TestGroup \<Rightarrow> Test \<Rightarrow> Row" where
  "summary_cells tg test =
     (let r = summary_of_test tg test
      in [cell (row_ID r), \<lparr>cell_Text = row_Status r, cell_CellColor = paint (t_Result test)\<rparr>,
          cell (row_Leak r), cell (row_Score r)])"

definition summary_table :: "TestGroup \<Rightarrow> Test list \<Rightarrow> PrintData" where
  "summary_table tg tests =
     \<lparr>pd_Headings = [heading ''Test'' 30 False, heading ''Result'' 10 False, heading ''Memory Leaks'' 0 True,
        heading ''Score'' 10 True],
      pd_Rows = map (summary_cells tg) tests, pd_Config = defaultPrintConf\<rparr>"

text \<open>A group that is no graded target has no column for the score.\<close>

definition chop :: "PrintData \<Rightarrow> PrintData" where
  "chop pd = pd\<lparr>pd_Headings := butlast (pd_Headings pd), pd_Rows := map butlast (pd_Rows pd)\<rparr>"

definition total_lines :: "nat list \<Rightarrow> nat \<Rightarrow> chunks" where
  "total_lines totals n =
     concat (map (\<lambda>(i, desc). if i = 0 \<or> totals ! i > 0
         then say (pad False 15 desc @ '': '' @ Itoa (totals ! i) @ ''/'' @ Itoa n) else [])
       (enumerate 0 [''Total Correct'', ''Total Incorrect'', ''Total Skipped'', ''Total Aborted'']))"

definition score_line :: "scoreMapEntry \<Rightarrow> Color option \<times> string" where
  "score_line e =
     (let name = (if sme_IsMeta e then ''('' @ sme_TargetName e @ '')'' else sme_TargetName e)
      in (Some Bold, pad False 15 (name @ '' Score'') @ '': '' @ Itoa (unat (sme_Earned e)) @ ''/'' @
            Itoa (unat (sme_Avail e)) @ [CHR 0x0A]))"

definition show_summary :: "string option \<Rightarrow> TestEnvironment \<Rightarrow> TestGroup \<Rightarrow> string \<Rightarrow> bool \<Rightarrow> chunks option" where
  "show_summary tty env tg verbosity tryDependOrder =
     (let pd = summary_table tg (getPrintOrder tg tryDependOrder);
          s = printRunSummary env tg tryDependOrder;
          table = (if verbosity \<noteq> ''whisper'' then
                     map_option (\<lambda>out. say [] @ out) (print_dropping tty (if sum_Scores s = [] then chop pd else pd))
                   else Some [])
      in map_option (\<lambda>out. out @ say [] @ total_lines (sum_Totals s) (length (tg_Tests tg)) @ say [] @
             map score_line (sum_Scores s) @ say []) table)"

section \<open>The dry run\<close>

definition dry_run_cells :: "Test \<Rightarrow> Row" where
  "dry_run_cells test =
     [cell (t_DependencyID test), cell (t_Name test),
      cell (if t_IsDependency test then ''(dependency)'' else Itoa (unat (t_PointsAvailable test)))]"

definition printDryRun :: "string option \<Rightarrow> TestGroup \<Rightarrow> chunks option" where
  "printDryRun tty tg =
     map_option (\<lambda>out. say [] @ out @ say [])
       (print_dropping tty
         \<lparr>pd_Headings = [heading ''Test ID'' 30 False, heading ''Test Name'' 0 False, heading ''Points'' 0 True],
          pd_Rows = map dry_run_cells (getPrintOrder tg True), pd_Config = defaultPrintConf\<rparr>)"

section \<open>The explanation\<close>

text \<open>\<open>show\<close> is the text of a number of type float32 or float64 as \<open>%v\<close> prints it.\<close>

definition explain_monitor :: "(rat \<Rightarrow> string) \<Rightarrow> MonitorConf \<Rightarrow> chunks" where
  "explain_monitor show m =
     (if mon_Enabled m = ''true'' then
        say ([CHR 0x0A] @ ''test161 Monitor Conf:'') @
        say (''  Progress Timeout : '' @ show (mon_ProgressTimeout m)) @
        say (''  Command Timeout  : '' @ show (mon_CommandTimeout m)) @
        say (''  Window           : '' @ Itoa (unat (mon_Window m))) @
        say (''  Kernel Min       : '' @
          (if lim_EnableMin (mon_Kernel m) = ''true'' then show (lim_Min (mon_Kernel m)) else ''disabled'')) @
        say (''  Kernel Max       : '' @ show (lim_Max (mon_Kernel m))) @
        say (''  User Min         : '' @
          (if lim_EnableMin (mon_User m) = ''true'' then show (lim_Min (mon_User m)) else ''disabled'')) @
        say (''  User Max         : '' @ show (lim_Max (mon_User m)))
      else [])"

definition explain_command :: "(rat \<Rightarrow> string) \<Rightarrow> Command \<Rightarrow> chunks" where
  "explain_command show cmd =
     say (''    Cmd Line    : '' @ in_Line (c_Input cmd)) @
     say (''      Panics    : '' @ c_Panic cmd) @
     say (''      Times Out : '' @ c_TimesOut cmd) @
     say (''      Timeout   : '' @ show (c_Timeout cmd)) @
     say (''      Points    : '' @ Itoa (unat (c_PointsAvailable cmd))) @
     (if c_ExpectedOutput cmd \<noteq> [] then
        say ''      Output    :'' @
        concat (map (\<lambda>out.
            say (''            Text     : '' @ eo_Text out) @
            say (''            Trusted  : '' @ bool_text (eo_Trusted out)) @
            say (''            KeyID    : '' @ eo_KeyName out)) (c_ExpectedOutput cmd))
      else [])"

definition explain_test :: "(rat \<Rightarrow> string) \<Rightarrow> Test \<Rightarrow> chunks" where
  "explain_test show test =
     say (t_DependencyID test) @ say (replicate 60 CHR ''-'') @
     say (''Name        : '' @ t_Name test) @ say (''Description : '' @ TrimSpace (t_Description test)) @
     explain_monitor show (t_Monitor test) @
     say ([CHR 0x0A] @ ''sys161 Conf:'') @ say (TrimSpace (PrintConf test)) @ say [] @
     (if t_PointsAvailable test > 0 then
        say (''Points      :  '' @ Itoa (unat (t_PointsAvailable test))) @ say (''Scoring     :  '' @ t_ScoringMethod test)
      else []) @
     (if t_ExpandedDeps test \<noteq> [] then
        say ''Dependencies:'' @ concat (map (\<lambda>dep. say (''     '' @ dep)) (sort (t_ExpandedDeps test)))
      else []) @
     say ''Commands:'' @ concat (map (explain_command show) (t_Commands test))"

text \<open>
  The loop over the tests that are not dependencies. \<open>merge\<close> sets the environment and merges in the
  defaults; at its error the loop ends, with the text so far.
\<close>

fun explain_tests :: "(rat \<Rightarrow> string) \<Rightarrow> (Test \<Rightarrow> string + Test) \<Rightarrow> Test list \<Rightarrow> chunks \<times> string option" where
  "explain_tests show merge [] = (say [], None)"
| "explain_tests show merge (test # tests) =
     (case merge test of
        Inl err \<Rightarrow> (say [], Some err)
      | Inr test' \<Rightarrow>
          (case explain_tests show merge tests of (out, e) \<Rightarrow> (say [] @ explain_test show test' @ out, e)))"

definition explain_out :: "(rat \<Rightarrow> string) \<Rightarrow> (Test \<Rightarrow> string + Test) \<Rightarrow> TestGroup \<Rightarrow> chunks \<times> int \<times> string list" where
  "explain_out show merge tg =
     (let tests = getPrintOrder tg True;
          deps = say [] @ concat (map (\<lambda>test. if t_IsDependency test then say (pad False 30 (t_DependencyID test) @ '' (dependency)'') else []) tests);
          (out, e) = explain_tests show merge (filter (\<lambda>test. \<not> t_IsDependency test) tests)
      in (deps @ out, case e of None \<Rightarrow> (0, []) | Some err \<Rightarrow> (1, [err])))"

section \<open>Lemmas\<close>

lemma explain_tests_error:
  "snd (explain_tests sh merge tests) =
     snd (explain_rest (\<lambda>t. case merge t of Inl err \<Rightarrow> Some err | Inr _ \<Rightarrow> None) tests)"
  by (induction tests) (auto split: sum.splits prod.splits)

text \<open>The exit code and the errors of an explanation are those of \<open>explain\<close>.\<close>

lemma explain_out_result:
  "snd (explain_out sh merge tg) = snd (explain (\<lambda>t. case merge t of Inl err \<Rightarrow> Some err | Inr _ \<Rightarrow> None) tg)"
  using explain_tests_error [of sh merge "filter (\<lambda>test. \<not> t_IsDependency test) (getPrintOrder tg True)"]
  by (simp add: explain_out_def explain_def Let_def case_prod_unfold)

lemma print_dropping_ok:
  assumes "\<forall>row\<in>set (pd_Rows pd). length row = length (pd_Headings pd)"
  obtains hs rows where "print_dropping tty pd = Some (print_table (pd_Config pd) hs rows)"
    "map h_Text hs = map h_Text (pd_Headings pd)"
    "\<forall>k<length hs. concat (map (\<lambda>row. words (cell_Text (row ! k))) rows) =
       concat (map (\<lambda>row. words (cell_Text (row ! k))) (pd_Rows pd))"
proof -
  obtain hs rows where
    "Print tty pd = Some (Inr (print_table (pd_Config pd) hs rows))" "map h_Text hs = map h_Text (pd_Headings pd)"
    "\<forall>k<length hs. concat (map (\<lambda>row. words (cell_Text (row ! k))) rows) =
       concat (map (\<lambda>row. words (cell_Text (row ! k))) (pd_Rows pd))" by (rule Print_layout [OF assms, of tty])
  then show thesis by (intro that [of hs rows]) (simp_all add: print_dropping_def)
qed

lemma summary_cells_length [simp]: "length (summary_cells tg test) = 4"
  by (simp add: summary_cells_def Let_def)

lemma summary_table_shape:
  "\<forall>row\<in>set (pd_Rows (summary_table tg tests)). length row = length (pd_Headings (summary_table tg tests))"
  "\<forall>row\<in>set (pd_Rows (chop (summary_table tg tests))). length row = length (pd_Headings (chop (summary_table tg tests)))"
  by (auto simp: summary_table_def chop_def)

text \<open>The totals: every test of the group counts once, unless it has not ended.\<close>

lemma count_results:
  "sum_list (map (\<lambda>r. count_result r tests) [TEST_RESULT_CORRECT, TEST_RESULT_INCORRECT, TEST_RESULT_SKIP, TEST_RESULT_ABORT])
     + count_result TEST_RESULT_NONE tests + count_result TEST_RESULT_RUNNING tests = length tests"
proof (induction tests)
  case (Cons t tests)
  then show ?case by (cases "t_Result t") (simp_all add: count_result_def)
qed (simp add: count_result_def)

lemma summary_totals:
  assumes "keyed (tg_Tests tg)" and "\<forall>(k, t)\<in>set (tg_Tests tg). t_Result t \<notin> {TEST_RESULT_NONE, TEST_RESULT_RUNNING}"
  shows "sum_list (sum_Totals (printRunSummary env tg b)) = length (tg_Tests tg)"
proof -
  let ?tests = "getPrintOrder tg b"
  have tests: "mset ?tests = mset (map snd (tg_Tests tg))" by (rule getPrintOrder_all [OF assms(1)])
  have "set ?tests = snd ` set (tg_Tests tg)" using mset_eq_setD [OF tests] by simp
  with assms(2) have "count_result TEST_RESULT_NONE ?tests = 0" "count_result TEST_RESULT_RUNNING ?tests = 0"
    by (auto simp: count_result_def filter_empty_conv)
  moreover have "length ?tests = length (tg_Tests tg)" using mset_eq_length [OF tests] by simp
  ultimately show ?thesis using count_results [of ?tests] by (simp add: printRunSummary_def Let_def)
qed

text \<open>The summary of a run is always printed, and its first column has the tests in their order.\<close>

lemma show_summary_total:
  assumes "verbosity \<noteq> ''whisper''"
  shows "\<exists>hs rows rest. show_summary tty env tg verbosity b =
      Some (say [] @ print_table defaultPrintConf hs rows @ rest) \<and>
    concat (map (\<lambda>row. words (cell_Text (row ! 0))) rows) =
      concat (map (words \<circ> t_DependencyID) (getPrintOrder tg b))"
proof -
  let ?pd = "summary_table tg (getPrintOrder tg b)"
  let ?pd' = "if sum_Scores (printRunSummary env tg b) = [] then chop ?pd else ?pd"
  have "\<forall>row\<in>set (pd_Rows ?pd'). length row = length (pd_Headings ?pd')" using summary_table_shape by auto
  from print_dropping_ok [OF this, of tty] obtain hs rows where out:
    "print_dropping tty ?pd' = Some (print_table (pd_Config ?pd') hs rows)" "map h_Text hs = map h_Text (pd_Headings ?pd')"
    "\<forall>k<length hs. concat (map (\<lambda>row. words (cell_Text (row ! k))) rows) =
       concat (map (\<lambda>row. words (cell_Text (row ! k))) (pd_Rows ?pd'))" by blast
  have conf: "pd_Config ?pd' = defaultPrintConf" by (simp add: summary_table_def chop_def)
  have "0 < length hs" using arg_cong [OF out(2), of length] by (simp add: summary_table_def chop_def split: if_splits)
  then have "concat (map (\<lambda>row. words (cell_Text (row ! 0))) rows) = concat (map (\<lambda>row. words (cell_Text (row ! 0))) (pd_Rows ?pd'))"
    using out(3) by blast
  also have "map (\<lambda>row. words (cell_Text (row ! 0))) (pd_Rows ?pd') = map (words \<circ> t_DependencyID) (getPrintOrder tg b)"
    by (simp add: summary_table_def chop_def summary_cells_def summary_of_test_def cell_def Let_def)
  finally show ?thesis using assms out(1) conf by (auto simp: show_summary_def Let_def)
qed

end
