(* ===== verification/ClientLists.thy ===== *)
theory ClientLists
  imports ClientPrint Submit
begin

text \<open>
  \<open>test161/listcmd.go\<close>: the lists of targets, tests and tags. A command gives its exit code, the errors
  for the error output and what it prints; \<open>None\<close> is a panic while the tests are loaded. The flag
  library has parsed the flags. Sorting is stable here, as no two tests or local targets share a
  name.
\<close>

type_synonym list_result = "int \<times> string list \<times> chunks"

section \<open>Targets\<close>

definition target_cells :: "TargetListItem \<Rightarrow> Row" where
  "target_cells t = [cell (tli_Name t), cell (tli_Type t), cell (''v'' @ Itoa (unat (tli_Version t))),
     cell (Itoa (unat (tli_Points t)))]"

definition target_table :: "bool \<Rightarrow> TargetListItem list \<Rightarrow> PrintData" where
  "target_table remote targets =
     \<lparr>pd_Headings = [heading (if remote then ''Remote Target'' else ''Local Target'') 20 False, heading ''Type'' 0 False,
        heading ''Version'' 0 False, heading ''Points'' 0 True],
      pd_Rows = map target_cells targets, pd_Config = defaultPrintConf\<rparr>"

definition print_around :: "string option \<Rightarrow> PrintData \<Rightarrow> chunks option" where
  "print_around tty pd = map_option (\<lambda>out. say [] @ out @ say []) (print_dropping tty pd)"

definition getListArgs :: "string list \<Rightarrow> string option" where
  "getListArgs args =
     (if args \<noteq> [] then Some ''test161 list-targets does not support positional arguments'' else None)"

definition doListTargets :: "string option \<Rightarrow> 'w SubmitWorld \<Rightarrow> (string, string) gomap \<Rightarrow> TestEnvironment \<Rightarrow>
    bool \<Rightarrow> string list \<Rightarrow> list_result option" where
  "doListTargets tty W msgs env remote args =
     (case getListArgs args of
        Some err \<Rightarrow> Some (1, [err], [])
      | None \<Rightarrow>
          (case (if remote then getRemoteTargets W else Inr (TargetList msgs env)) of
             Inl errs \<Rightarrow> Some (1, errs, [])
           | Inr targets \<Rightarrow>
               map_option (\<lambda>out. (0, [], out)) (print_around tty (target_table remote (sort_key tli_Name targets)))))"

section \<open>Tests\<close>

definition all_tests_config :: "TestEnvironment \<Rightarrow> GroupConfig" where
  "all_tests_config env = \<lparr>gc_Name = [], gc_UseDeps = False, gc_Tests = [''**/*.t''], gc_Env = env\<rparr>"

definition getAllTests :: "Files \<Rightarrow> (string list \<Rightarrow> string list) \<Rightarrow> TestEnvironment \<Rightarrow> (string list + Test list) option" where
  "getAllTests fs arr env =
     (case GroupFromConfig fs arr (all_tests_config env) of
        None \<Rightarrow> None
      | Some (Inl errs) \<Rightarrow> Some (Inl errs)
      | Some (Inr tg) \<Rightarrow> Some (Inr (sort_key t_DependencyID (map snd (tg_Tests tg)))))"

definition with_tests :: "(string list + Test list) option \<Rightarrow> (Test list \<Rightarrow> chunks option) \<Rightarrow> list_result option" where
  "with_tests r f =
     (case r of
        None \<Rightarrow> None
      | Some (Inl errs) \<Rightarrow> Some (1, errs, [])
      | Some (Inr tests) \<Rightarrow> map_option (\<lambda>out. (0, [], out)) (f tests))"

definition test_cells :: "Test \<Rightarrow> Row" where
  "test_cells test = [cell (t_DependencyID test), cell (t_Name test), cell (TrimSpace (t_Description test))]"

definition test_table :: "Test list \<Rightarrow> PrintData" where
  "test_table tests =
     \<lparr>pd_Headings = [heading ''Test ID'' 0 False, heading ''Name'' 0 False, heading ''Description'' 0 False],
      pd_Rows = map test_cells tests, pd_Config = defaultPrintConf\<rparr>"

definition doListTests :: "string option \<Rightarrow> Files \<Rightarrow> (string list \<Rightarrow> string list) \<Rightarrow> TestEnvironment \<Rightarrow> list_result option" where
  "doListTests tty fs arr env = with_tests (getAllTests fs arr env) (\<lambda>tests. print_around tty (test_table tests))"

section \<open>Tags\<close>

definition tag_names :: "Test list \<Rightarrow> (string, bool) gomap" where
  "tag_names tests = fold (\<lambda>test. fold (\<lambda>tag. gm_put tag True) (t_Tags test)) tests []"

definition doListTagnames :: "Files \<Rightarrow> (string list \<Rightarrow> string list) \<Rightarrow> TestEnvironment \<Rightarrow> list_result option" where
  "doListTagnames fs arr env =
     with_tests (getAllTests fs arr env) (\<lambda>tests. Some (concat (map say (gm_keys (tag_names tests)))))"

definition doListAll :: "Files \<Rightarrow> (string list \<Rightarrow> string list) \<Rightarrow> TestEnvironment \<Rightarrow> list_result option" where
  "doListAll fs arr env =
     with_tests (getAllTests fs arr env) (\<lambda>tests.
       Some (concat (map (say \<circ> t_DependencyID) tests) @ concat (map say (gm_keys (tag_names tests))) @
             concat (map (\<lambda>(_, target). say (tgt_Name target)) (env_Targets env))))"

text \<open>The tests of each tag, and the tags to print, in order: all of them, or those that are wanted.\<close>

definition tag_map :: "Test list \<Rightarrow> (string, Test list) gomap" where
  "tag_map tests = fold (\<lambda>test. fold (append_to test) (t_Tags test)) tests []"

definition tags_shown :: "string list \<Rightarrow> (string, Test list) gomap \<Rightarrow> string list" where
  "tags_shown desired tags = filter (\<lambda>tag. \<not> (desired \<noteq> [] \<and> tag \<notin> set desired)) (sort (gm_keys tags))"

definition tag_description :: "TestEnvironment \<Rightarrow> string \<Rightarrow> string" where
  "tag_description env tag = (case gm_get (env_Tags env) tag of Some info \<Rightarrow> tag_Description info | None \<Rightarrow> [])"

definition tag_table :: "TestEnvironment \<Rightarrow> string list \<Rightarrow> PrintData" where
  "tag_table env shown =
     \<lparr>pd_Headings = [heading ''Tag'' 0 False, heading ''Description'' 0 False],
      pd_Rows = map (\<lambda>tag. [cell tag, cell (tag_description env tag)]) shown, pd_Config = defaultPrintConf\<rparr>"

text \<open>A tag with its tests. Without a description there is no end of line after the tag.\<close>

definition tag_entry :: "TestEnvironment \<Rightarrow> (string, Test list) gomap \<Rightarrow> string \<Rightarrow> chunks" where
  "tag_entry env tags tag =
     (case gm_get (env_Tags env) tag of
        Some info \<Rightarrow> (Some Bold, tag @ '':'') # say (''  '' @ tag_Description info)
      | None \<Rightarrow> [(Some Bold, tag)]) @
     concat (map (\<lambda>test. say (''     '' @ '' '' @ t_DependencyID test))
       (case gm_get tags tag of Some ts \<Rightarrow> ts | None \<Rightarrow> [])) @
     say []"

definition doListTags :: "string option \<Rightarrow> Files \<Rightarrow> (string list \<Rightarrow> string list) \<Rightarrow> TestEnvironment \<Rightarrow>
    bool \<Rightarrow> string list \<Rightarrow> list_result option" where
  "doListTags tty fs arr env short desired =
     with_tests (getAllTests fs arr env) (\<lambda>tests.
       (let tags = tag_map tests; shown = tags_shown desired tags
        in if short then
             map_option (\<lambda>out. say [] @ out @ say [])
               (if shown \<noteq> [] then print_dropping tty (tag_table env shown) else Some [])
           else Some (say [] @ concat (map (tag_entry env tags) shown))))"

section \<open>The command\<close>

text \<open>\<open>args\<close> are the arguments after the name of the sub-command, without the flags.\<close>

record ListVars =
  lv_remote :: bool
  lv_short :: bool

definition doListCommand :: "string option \<Rightarrow> 'w SubmitWorld \<Rightarrow> (string, string) gomap \<Rightarrow> Files \<Rightarrow> (string list \<Rightarrow> string list) \<Rightarrow>
    TestEnvironment \<Rightarrow> ListVars \<Rightarrow> string list \<Rightarrow> list_result option" where
  "doListCommand tty W msgs fs arr env vars args =
     (case args of
        [] \<Rightarrow> Some (1, [''Missing argument to list command''], [])
      | what # rest \<Rightarrow>
          if what = ''targets'' then doListTargets tty W msgs env (lv_remote vars) rest
          else if what = ''tags'' then doListTags tty fs arr env (lv_short vars) rest
          else if what = ''tests'' then doListTests tty fs arr env
          else if what = ''all'' then doListAll fs arr env
          else if what = ''tagnames'' then doListTagnames fs arr env
          else Some (1, [CHR ''I'' # ''nvalid option to '' @ [CHR 0x27] @ ''test161 list'' @ [CHR 0x27] @
                 ''.  Must be one of (targets, tags, tests)''], []))"

section \<open>The tests of a tag\<close>

lemma append_to_ok: "gm_ok m \<Longrightarrow> gm_ok (append_to v k m)"
  by (auto simp: append_to_def Let_def split: option.splits)

lemma keys_get: "set (gm_keys m) = {k. gm_get m k \<noteq> None}"
  by (simp add: map_of_eq_None_iff)

lemma distinct_count: "distinct xs \<Longrightarrow> count_list xs x = (if x \<in> set xs then 1 else 0)"
  by (induction xs) auto

lemma fold_append_to:
  "gm_get (fold (append_to v) ks m) j =
     (if j \<in> set ks then Some ((case gm_get m j of Some vs \<Rightarrow> vs | None \<Rightarrow> []) @ replicate (count_list ks j) v) else gm_get m j)"
proof (induction ks arbitrary: m)
  case (Cons k ks)
  have "gm_get (append_to v k m) j = (if j = k then Some ((case gm_get m k of Some vs \<Rightarrow> vs | None \<Rightarrow> []) @ [v]) else gm_get m j)"
    by (rule append_to_get)
  with Cons.IH [of "append_to v k m"] show ?case
    by (cases "j = k"; cases "j \<in> set ks") (auto simp: replicate_append_same split: option.splits)
qed simp

text \<open>The reference: who has the tag, as often as it is written down.\<close>

definition tests_with :: "string \<Rightarrow> Test list \<Rightarrow> Test list" where
  "tests_with tag tests = concat (map (\<lambda>t. replicate (count_list (t_Tags t) tag) t) tests)"

lemma tests_with_distinct: "\<forall>t\<in>set tests. distinct (t_Tags t) \<Longrightarrow> tests_with tag tests = filter (\<lambda>t. tag \<in> set (t_Tags t)) tests"
  by (induction tests) (auto simp: tests_with_def distinct_count)

lemma tag_map_get:
  "gm_get (fold (\<lambda>test. fold (append_to test) (t_Tags test)) tests m) tag =
     (if \<exists>t\<in>set tests. tag \<in> set (t_Tags t)
      then Some ((case gm_get m tag of Some vs \<Rightarrow> vs | None \<Rightarrow> []) @ tests_with tag tests) else gm_get m tag)"
proof (induction tests arbitrary: m)
  case (Cons t tests)
  show ?case
  proof (cases "tag \<in> set (t_Tags t)")
    case True
    moreover have "tests_with tag tests = []" if "\<not> (\<exists>t\<in>set tests. tag \<in> set (t_Tags t))"
      using that by (auto simp: tests_with_def)
    ultimately show ?thesis using Cons.IH [of "fold (append_to t) (t_Tags t) m"]
      by (auto simp: fold_append_to tests_with_def)
  next
    case False
    then show ?thesis using Cons.IH [of "fold (append_to t) (t_Tags t) m"]
      by (simp add: fold_append_to tests_with_def)
  qed
qed simp

lemma tag_map_keys: "set (gm_keys (tag_map tests)) = (\<Union>t\<in>set tests. set (t_Tags t))"
  unfolding keys_get tag_map_def tag_map_get by auto

lemma tag_map_ok: "gm_ok (tag_map tests)"
proof -
  have one: "gm_ok m \<Longrightarrow> gm_ok (fold (append_to t) ks m)" for t ks and m :: "(string, Test list) gomap"
    by (induction ks arbitrary: m) (auto simp: append_to_ok)
  have "gm_ok m \<Longrightarrow> gm_ok (fold (\<lambda>test. fold (append_to test) (t_Tags test)) tests m)" for m
    by (induction tests arbitrary: m) (auto simp: one)
  then show ?thesis by (simp add: tag_map_def)
qed

text \<open>
  The tags that are listed are those of the tests (those that are wanted, if any are named), each
  once and in order; and the tests shown for a tag are the tests that have it, in their order.
\<close>

theorem list_tags_spec:
  assumes "\<forall>t\<in>set tests. distinct (t_Tags t)"
  shows "sorted (tags_shown desired (tag_map tests)) \<and> distinct (tags_shown desired (tag_map tests)) \<and>
    set (tags_shown desired (tag_map tests)) =
      {tag. (\<exists>t\<in>set tests. tag \<in> set (t_Tags t)) \<and> (desired = [] \<or> tag \<in> set desired)} \<and>
    (\<forall>tag\<in>set (tags_shown desired (tag_map tests)).
       gm_get (tag_map tests) tag = Some (filter (\<lambda>t. tag \<in> set (t_Tags t)) tests))"
proof -
  have "distinct (gm_keys (tag_map tests))" using tag_map_ok [of tests] by (simp add: gm_ok_def)
  moreover note tag_map_keys [of tests]
  moreover have "gm_get (tag_map tests) tag = Some (filter (\<lambda>t. tag \<in> set (t_Tags t)) tests)"
    if "\<exists>t\<in>set tests. tag \<in> set (t_Tags t)" for tag
    using that tests_with_distinct [OF assms] unfolding tag_map_def tag_map_get by simp
  ultimately show ?thesis by (auto simp: tags_shown_def intro: sorted_wrt_filter)
qed

text \<open>A tag without a description is not followed by an end of line: the first test is on its line.\<close>

lemma undescribed_tag_line:
  assumes "gm_get (env_Tags env) tag = None" and "gm_get tags tag = Some (t # ts)"
  shows "\<exists>rest. plain (tag_entry env tags tag) = tag @ ''      '' @ t_DependencyID t @ CHR 0x0A # rest"
  using assms by (simp add: tag_entry_def plain_def say_def)

section \<open>The tables have as many cells as headings\<close>

lemma list_tables_shape:
  "\<forall>row\<in>set (pd_Rows (target_table remote targets)). length row = length (pd_Headings (target_table remote targets))"
  "\<forall>row\<in>set (pd_Rows (test_table tests)). length row = length (pd_Headings (test_table tests))"
  "\<forall>row\<in>set (pd_Rows (tag_table env shown)). length row = length (pd_Headings (tag_table env shown))"
  by (auto simp: target_table_def target_cells_def test_table_def test_cells_def tag_table_def)

text \<open>So a list panics only if loading the tests does.\<close>

lemma list_command_returns:
  assumes "getAllTests fs arr env \<noteq> None"
  shows "doListCommand tty W msgs fs arr env vars args \<noteq> None"
proof -
  have tables: "print_dropping tty (target_table remote targets) \<noteq> None" "print_dropping tty (test_table tests) \<noteq> None"
    "print_dropping tty (tag_table env shown) \<noteq> None" for remote targets tests shown
    using print_dropping_ok [OF list_tables_shape(1), where tty = tty] print_dropping_ok [OF list_tables_shape(2), where tty = tty]
      print_dropping_ok [OF list_tables_shape(3), where tty = tty] by (metis option.distinct(1))+
  have w: "with_tests (getAllTests fs arr env) f \<noteq> None" if "\<And>tests. f tests \<noteq> None" for f
    using assms that by (auto simp: with_tests_def split: option.splits sum.splits)
  have targets: "doListTargets tty W msgs env (lv_remote vars) rest \<noteq> None" for rest
    using tables(1) by (auto simp: doListTargets_def print_around_def split: option.splits sum.splits)
  have tags: "doListTags tty fs arr env short rest \<noteq> None" for short rest
    unfolding doListTags_def using tables(3) by (intro w) (auto simp: Let_def)
  have tests: "doListTests tty fs arr env \<noteq> None"
    unfolding doListTests_def using tables(2) by (intro w) (auto simp: print_around_def)
  have rest: "doListAll fs arr env \<noteq> None" "doListTagnames fs arr env \<noteq> None"
    unfolding doListAll_def doListTagnames_def by (intro w; simp)+
  show ?thesis
  proof (cases args)
    case (Cons what r)
    with targets tags tests rest show ?thesis unfolding doListCommand_def list.case by (simp only: split: if_split) simp
  qed (simp add: doListCommand_def)
qed

section \<open>Witness\<close>

definition sample_tagged :: "Test list" where
  "sample_tagged = [(blank_test ''a.t'')\<lparr>t_Tags := [''y'', ''x'']\<rparr>, (blank_test ''b.t'')\<lparr>t_Tags := [''x'']\<rparr>]"

lemma list_tags_spec_witness:
  "gm_get (tag_map sample_tagged) ''x'' = Some sample_tagged \<and> set (tags_shown [''x'', ''z''] (tag_map sample_tagged)) = {''x''}"
proof -
  have distinct: "\<forall>t\<in>set sample_tagged. distinct (t_Tags t)" by (simp add: sample_tagged_def)
  note spec = list_tags_spec [OF distinct, of "[''x'', ''z'']"]
  then have "set (tags_shown [''x'', ''z''] (tag_map sample_tagged)) = {''x''}" by (auto simp: sample_tagged_def)
  moreover from this spec have "gm_get (tag_map sample_tagged) ''x'' = Some (filter (\<lambda>t. ''x'' \<in> set (t_Tags t)) sample_tagged)" by blast
  ultimately show ?thesis by (simp add: sample_tagged_def)
qed

end
