(* ===== verification/ClientConf.thy ===== *)
theory ClientConf
  imports ClientPrint Git Environment
begin

text \<open>
  \<open>test161/conf.go\<close> and \<open>test161/main.go\<close>: how the client finds its directories, the configuration file with
  its commands, the checks before a command runs, and the table of commands. The file system is
  that of \<open>GoFiles\<close>; the YAML library, the modes of files and symbolic links are fields of
  \<open>ConfWorld\<close>.
\<close>

section \<open>Data\<close>

text \<open>
  Only \<open>Users\<close> and \<open>Test161Dir\<close> are in the file, and of a user the address and the token (the hash of
  the key has the tag \<open>yaml:"-"\<close>).
\<close>

record ClientConf =
  cnf_Users :: "SubmissionUserInfo list"
  cnf_Test161Dir :: string
  cnf_OverlayDir :: string
  cnf_Server :: string
  cnf_RootDir :: string
  cnf_SrcDir :: string

definition empty_conf :: ClientConf where
  "empty_conf = \<lparr>cnf_Users = [], cnf_Test161Dir = [], cnf_OverlayDir = [], cnf_Server = [], cnf_RootDir = [], cnf_SrcDir = []\<rparr>"

definition saved_user :: "SubmissionUserInfo \<Rightarrow> SubmissionUserInfo" where
  "saved_user u = u\<lparr>ui_KeyHash := []\<rparr>"

definition saved :: "ClientConf \<Rightarrow> ClientConf" where
  "saved c = empty_conf\<lparr>cnf_Users := map saved_user (cnf_Users c), cnf_Test161Dir := cnf_Test161Dir c\<rparr>"

definition SERVER :: string where
  "SERVER = ''https://test161.ops-class.org''"

definition CLIENT_CONF_FILE :: string where
  "CLIENT_CONF_FILE = ''.test161.conf''"

record ConfWorld =
  cw_HOME :: string
  cw_OVERLAY :: string
  cw_SERVER :: string
  cw_Getwd :: "string + string"
  cw_Abs :: "string \<Rightarrow> string + string"
  cw_EvalSymlinks :: "string \<Rightarrow> string + string"
  cw_executable :: "string \<Rightarrow> bool"
  cw_faults :: faults
  cw_read :: "string \<Rightarrow> string + ClientConf"
  cw_write :: "ClientConf \<Rightarrow> string + string"

section \<open>The configuration file\<close>

definition ioutil_WriteFile :: "faults \<Rightarrow> string \<Rightarrow> string \<Rightarrow> fs \<Rightarrow> string + fs" where
  "ioutil_WriteFile fl p data fs = bind_ok (os_Create fl p fs) (\<lambda>fs'. io_guard fl ''write'' p (Inr (fs'(p \<mapsto> File data))))"

definition ClientConfFromString :: "ConfWorld \<Rightarrow> string \<Rightarrow> string + ClientConf" where
  "ClientConfFromString W txt = bind_ok (cw_read W txt) Inr"

definition ClientConfFromFile :: "ConfWorld \<Rightarrow> string \<Rightarrow> fs \<Rightarrow> string + ClientConf" where
  "ClientConfFromFile W f fs = bind_ok (ioutil_ReadFile (cw_faults W) f fs) (ClientConfFromString W)"

definition conf_file :: "ConfWorld \<Rightarrow> string" where
  "conf_file W = path_Join [cw_HOME W, CLIENT_CONF_FILE]"

text \<open>A failed write may leave an empty file.\<close>

definition ClientConfToFile :: "ConfWorld \<Rightarrow> ClientConf \<Rightarrow> fs \<Rightarrow> string option \<times> fs" where
  "ClientConfToFile W conf fs =
     (case cw_write W conf of
        Inl err \<Rightarrow> (Some err, fs)
      | Inr txt \<Rightarrow>
          (case ioutil_WriteFile (cw_faults W) (conf_file W) txt fs of
             Inl err \<Rightarrow> (Some (''Error writing client file: '' @ err), ignoring (os_Create (cw_faults W) (conf_file W)) fs)
           | Inr fs' \<Rightarrow> (None, fs')))"

text \<open>
  No file, or an empty one, is no configuration; it is not an error. The size of a directory is not
  zero.
\<close>

definition getConfFromFile :: "ConfWorld \<Rightarrow> fs \<Rightarrow> string + ClientConf option" where
  "getConfFromFile W fs =
     (case os_Stat (cw_faults W) (conf_file W) fs of
        Inl _ \<Rightarrow> Inr None
      | Inr info \<Rightarrow> if info = File [] then Inr None else bind_ok (ClientConfFromFile W (conf_file W) fs) (\<lambda>c. Inr (Some c)))"

definition getConfFromFileSafe :: "ConfWorld \<Rightarrow> fs \<Rightarrow> string + ClientConf" where
  "getConfFromFileSafe W fs = bind_ok (getConfFromFile W fs) (\<lambda>c. Inr (case c of None \<Rightarrow> empty_conf | Some c \<Rightarrow> c))"

section \<open>Directories\<close>

definition pathExists :: "ConfWorld \<Rightarrow> fs \<Rightarrow> string \<Rightarrow> bool" where
  "pathExists W fs p \<longleftrightarrow> exists_file (cw_faults W) p fs"

definition double_quoted :: "string \<Rightarrow> string" where
  "double_quoted s = [CHR 0x22] @ s @ [CHR 0x22]"

definition testPath :: "ConfWorld \<Rightarrow> fs \<Rightarrow> string \<Rightarrow> string \<Rightarrow> string list \<Rightarrow> string option" where
  "testPath W fs p desc mustContain =
     (if p \<noteq> [] then
        if \<not> pathExists W fs p then Some (desc @ '': '' @ double_quoted p @ '' does not exist'')
        else map_option (\<lambda>elem. desc @ '' '' @ double_quoted p @ '' does not contain '' @ double_quoted elem)
               (find (\<lambda>elem. \<not> pathExists W fs (path_Join [p, elem])) mustContain)
      else Some (desc @ '' must be specified''))"

definition isRootDir :: "ConfWorld \<Rightarrow> fs \<Rightarrow> string \<Rightarrow> bool" where
  "isRootDir W fs p \<longleftrightarrow>
     testPath W fs p ''root'' [''kernel''] = None \<and>
     (case os_Stat (cw_faults W) (path_Join [p, ''kernel'']) fs of
        Inl _ \<Rightarrow> False
      | Inr fi \<Rightarrow> fi \<noteq> Dir \<and> cw_executable W (path_Join [p, ''kernel'']))"

definition isSourceDir :: "ConfWorld \<Rightarrow> fs \<Rightarrow> string \<Rightarrow> bool" where
  "isSourceDir W fs p \<longleftrightarrow> testPath W fs p ''source'' [''kern'', ''userland'', ''mk''] = None"

definition isTest161Dir :: "ConfWorld \<Rightarrow> fs \<Rightarrow> string \<Rightarrow> bool" where
  "isTest161Dir W fs p \<longleftrightarrow> testPath W fs p ''source'' [''commands'', ''targets'', ''tests''] = None"

text \<open>The loop may not end for some text: the result \<open>None\<close>.\<close>

partial_function (option) search_loop :: "string \<Rightarrow> (string \<Rightarrow> bool) \<Rightarrow> string \<Rightarrow> string \<Rightarrow> string option" where
  "search_loop home fn prev dir =
     (if HasPrefix dir home \<and> prev \<noteq> dir then
        if fn dir then Some dir else search_loop home fn dir (path_Dir dir)
      else Some [])"

definition searchForDir :: "string \<Rightarrow> string \<Rightarrow> (string \<Rightarrow> bool) \<Rightarrow> string option" where
  "searchForDir dir0 home fn = search_loop home fn [] dir0"

definition testJoin :: "string \<Rightarrow> string \<Rightarrow> (string \<Rightarrow> bool) \<Rightarrow> string" where
  "testJoin base dir fn = (let temp = path_Join [base, dir] in if fn temp then temp else [])"

definition clean_links :: "ConfWorld \<Rightarrow> string \<Rightarrow> string \<Rightarrow> string + string" where
  "clean_links W desc p =
     (if p = [] then Inr []
      else (case cw_EvalSymlinks W p of
              Inl err \<Rightarrow> Inl (''An error occurred evaluating symlinks in your '' @ desc @ '' path (): '' @ err)
            | Inr q \<Rightarrow> Inr q))"

text \<open>
  The path in the message is empty, since the call that failed has overwritten it. The two searches
  run at the same time and share nothing.
\<close>

definition inferConf :: "ConfWorld \<Rightarrow> fs \<Rightarrow> (string + ClientConf) option" where
  "inferConf W fs =
     (case cw_Getwd W of
        Inl err \<Rightarrow> Some (Inl (''Cannot retrieve current working directory: '' @ err))
      | Inr wd \<Rightarrow>
          (case cw_Abs W wd of
             Inl err \<Rightarrow> Some (Inl (''Cannot determine absolute path of cwd: '' @ err))
           | Inr cwd \<Rightarrow>
               if cw_HOME W = [] then Some (Inl ''test161 requires your $HOME environment variable to be set'')
               else if \<not> HasPrefix cwd (cw_HOME W) then Some (Inl ''Trying to run test161 outside of your $HOME directory?'')
               else
                 Option.bind (searchForDir cwd (cw_HOME W) (isSourceDir W fs)) (\<lambda>src0.
                 Option.bind (searchForDir cwd (cw_HOME W) (isRootDir W fs)) (\<lambda>root0.
                   (let src = (if src0 = [] \<and> root0 \<noteq> [] then testJoin root0 ''.src'' (pathExists W fs) else src0);
                        root = (if \<not> (src0 = [] \<and> root0 \<noteq> []) \<and> root0 = [] \<and> src0 \<noteq> []
                                then testJoin src0 ''.root'' (pathExists W fs) else root0);
                        test0 = (if src \<noteq> [] then testJoin src ''test161'' (isTest161Dir W fs) else []);
                        test = (if test0 = [] \<and> root \<noteq> [] then testJoin root ''test161'' (isTest161Dir W fs) else test0)
                    in Some (bind_ok (clean_links W ''root'' root) (\<lambda>root.
                             bind_ok (clean_links W ''source'' src) (\<lambda>src.
                             bind_ok (clean_links W ''test161'' test) (\<lambda>test.
                               Inr \<lparr>cnf_Users = [], cnf_Test161Dir = test, cnf_OverlayDir = [], cnf_Server = SERVER,
                                    cnf_RootDir = root, cnf_SrcDir = src\<rparr>)))))))))"

section \<open>Editing the configuration\<close>

definition usage_err :: "string \<Rightarrow> string \<Rightarrow> string" where
  "usage_err what cmd = ''Must specify '' @ what @ '' in '' @ [CHR 0x27] @ ''test161 config '' @ cmd @ [CHR 0x60]"

definition new_user :: "string \<Rightarrow> string \<Rightarrow> SubmissionUserInfo" where
  "new_user email token = \<lparr>ui_Email = email, ui_Token = token, ui_KeyHash = []\<rparr>"

text \<open>An edit of the configuration that was read: an error, or the new one, which is written.\<close>

definition edit_conf :: "ConfWorld \<Rightarrow> (ClientConf \<Rightarrow> string + ClientConf) \<Rightarrow> fs \<Rightarrow> string option \<times> fs" where
  "edit_conf W change fs =
     (case getConfFromFileSafe W fs of
        Inl err \<Rightarrow> (Some err, fs)
      | Inr conf \<Rightarrow> (case change conf of Inl err \<Rightarrow> (Some err, fs) | Inr conf' \<Rightarrow> ClientConfToFile W conf' fs))"

definition addUser :: "ConfWorld \<Rightarrow> string \<Rightarrow> string \<Rightarrow> fs \<Rightarrow> string option \<times> fs" where
  "addUser W email token fs =
     (if email = [] then (Some (usage_err ''an email'' ''add-user''), fs)
      else if token = [] then (Some (usage_err ''a token'' ''add-user''), fs)
      else edit_conf W (\<lambda>conf.
        if \<exists>u\<in>set (cnf_Users conf). ui_Email u = email then Inl (''User '' @ double_quoted email @ '' already exists.'')
        else Inr (conf\<lparr>cnf_Users := cnf_Users conf @ [new_user email token]\<rparr>)) fs)"

text \<open>The first user with the address is taken out or gets the token.\<close>

fun delete_user :: "string \<Rightarrow> SubmissionUserInfo list \<Rightarrow> SubmissionUserInfo list option" where
  "delete_user email [] = None"
| "delete_user email (u # us) =
     (if ui_Email u = email then Some us else map_option (\<lambda>us'. u # us') (delete_user email us))"

fun set_token :: "string \<Rightarrow> string \<Rightarrow> SubmissionUserInfo list \<Rightarrow> SubmissionUserInfo list option" where
  "set_token email token [] = None"
| "set_token email token (u # us) =
     (if ui_Email u = email then Some (u\<lparr>ui_Token := token\<rparr> # us)
      else map_option (\<lambda>us'. u # us') (set_token email token us))"

definition delUser :: "ConfWorld \<Rightarrow> string \<Rightarrow> fs \<Rightarrow> string option \<times> fs" where
  "delUser W email fs =
     (if email = [] then (Some (usage_err ''an email'' ''del-user''), fs)
      else edit_conf W (\<lambda>conf.
        case delete_user email (cnf_Users conf) of
          None \<Rightarrow> Inl (''User '' @ double_quoted email @ '' does not exist in '' @ CLIENT_CONF_FILE)
        | Some us \<Rightarrow> Inr (conf\<lparr>cnf_Users := us\<rparr>)) fs)"

definition changeToken :: "ConfWorld \<Rightarrow> string \<Rightarrow> string \<Rightarrow> fs \<Rightarrow> string option \<times> fs" where
  "changeToken W email token fs =
     (if email = [] then (Some (usage_err ''an email'' ''change-token''), fs)
      else if token = [] then (Some (usage_err ''a token'' ''change-token''), fs)
      else edit_conf W (\<lambda>conf.
        case set_token email token (cnf_Users conf) of
          None \<Rightarrow> Inl (''User '' @ double_quoted email @ '' not found in '' @ CLIENT_CONF_FILE)
        | Some us \<Rightarrow> Inr (conf\<lparr>cnf_Users := us\<rparr>)) fs)"

definition setTest161Dir :: "ConfWorld \<Rightarrow> string \<Rightarrow> fs \<Rightarrow> string option \<times> fs" where
  "setTest161Dir W dir fs =
     (if \<not> pathExists W fs dir then (Some ''Unable to set test161 directory: directory not found'', fs)
      else if \<not> isTest161Dir W fs dir then (Some ''Unable to set test161 directory: invalid test161 directory'', fs)
      else edit_conf W (\<lambda>conf. Inr (conf\<lparr>cnf_Test161Dir := dir\<rparr>)) fs)"

section \<open>Showing the configuration\<close>

definition show_paths :: "ClientConf \<Rightarrow> chunks" where
  "show_paths conf =
     say ([CHR 0x0A] @ ''Path Configuration:'') @ say (replicate 32 CHR ''-'') @
     (if cnf_OverlayDir conf \<noteq> [] then say (''Overlay Directory       : '' @ cnf_OverlayDir conf) else []) @
     say (''Root Directory          : '' @ cnf_RootDir conf) @
     say (''OS/161 Source Directory : '' @ cnf_SrcDir conf) @
     say (''test161 Directory       : '' @ cnf_Test161Dir conf) @
     say (''test161 Server          : '' @ cnf_Server conf) @
     say ([CHR 0x0A, CHR 0x0A] @ ''User Configuration:'') @ say (replicate 32 CHR ''-'') @
     concat (map (\<lambda>u. say ('' - User   : '' @ ui_Email u) @ say (''   Token  : '' @ ui_Token u)) (cnf_Users conf))"

definition show_repo :: "gitRepo \<Rightarrow> chunks" where
  "show_repo git =
     say ([CHR 0x0A, CHR 0x0A] @ ''Git Repository Detail:'') @ say (replicate 32 CHR ''-'') @
     say (''Directory     : '' @ git_dir git) @ say (''Remote Name   : '' @ git_remoteName git) @
     say (''Remote Ref    : '' @ git_remoteRef git) @ say (''Remote URL    : '' @ git_remoteURL git) @
     say (''Local Ref     : '' @ (if git_localRef git = ''HEAD'' then ''(detached HEAD)'' else git_localRef git))"

text \<open>\<open>ssh\<close> is the command \<open>getGitSSHCommand\<close> gives. The remote status is printed over the line before it.\<close>

definition doShowConf :: "'w git_exec \<Rightarrow> string \<Rightarrow> bool \<Rightarrow> ClientConf \<Rightarrow> 'w \<Rightarrow> int \<times> chunks \<times> 'w" where
  "doShowConf exec ssh debug conf w =
     (if cnf_SrcDir conf = [] then (0, show_paths conf, w)
      else
        (case gitRepoFromDir exec ssh (cnf_SrcDir conf) debug w of
           (Inl err, w1) \<Rightarrow> (1, show_paths conf @ say err, w1)
         | (Inr git, w1) \<Rightarrow>
             (case isLocalDirty exec debug git w1 of
                (dirty, w2) \<Rightarrow>
                  (case isRemoteUpToDate exec debug TryDeployKey git w2 of
                     (current, _, w3) \<Rightarrow>
                       (0, show_paths conf @ show_repo git @
                           (case dirty of Inl err \<Rightarrow> say (''Local Status  : '' @ err)
                              | Inr d \<Rightarrow> say (''Local Status  : '' @ (if d then ''dirty'' else ''clean''))) @
                           [(None, ''Remote Status : checking...'')] @ (if debug then say [] else []) @
                           say (CHR 0x0D # ''Remote Status : '' @
                             (case current of Inl _ \<Rightarrow> ''unknown     ''
                                | Inr ok \<Rightarrow> if ok then ''up-to-date  '' else ''out-of-sync  '')) @
                           say [], w3)))))"

section \<open>The command config\<close>

text \<open>A change of the configuration: the exit code, the error if any, and the files. Bad arguments print the usage.\<close>

definition changed :: "string option \<times> fs \<Rightarrow> int \<times> string option \<times> fs" where
  "changed r = (case r of (Some err, fs) \<Rightarrow> (1, Some err, fs) | (None, fs) \<Rightarrow> (0, None, fs))"

definition edit_command :: "ConfWorld \<Rightarrow> string list \<Rightarrow> fs \<Rightarrow> int \<times> string option \<times> fs" where
  "edit_command W args fs =
     (case args of
        what # rest \<Rightarrow>
          if what = ''add-user'' then (case rest of [email, token] \<Rightarrow> changed (addUser W email token fs) | _ \<Rightarrow> (1, None, fs))
          else if what = ''del-user'' then (case rest of [email] \<Rightarrow> changed (delUser W email fs) | _ \<Rightarrow> (1, None, fs))
          else if what = ''change-token'' then (case rest of [email, token] \<Rightarrow> changed (changeToken W email token fs) | _ \<Rightarrow> (1, None, fs))
          else if what = ''test161dir'' then (case rest of [dir] \<Rightarrow> changed (setTest161Dir W dir fs) | _ \<Rightarrow> (1, None, fs))
          else (1, Some (CHR ''I'' # ''nvalid option for config''), fs)
      | [] \<Rightarrow> (0, None, fs))"

definition doConfig :: "ConfWorld \<Rightarrow> 'w git_exec \<Rightarrow> string \<Rightarrow> bool \<Rightarrow> string list \<Rightarrow> ClientConf \<Rightarrow> 'w \<Rightarrow> fs \<Rightarrow>
    int \<times> chunks \<times> string option \<times> 'w \<times> fs" where
  "doConfig W exec ssh debug args conf w fs =
     (if args = [] then (case doShowConf exec ssh debug conf w of (code, out, w') \<Rightarrow> (code, out, None, w', fs))
      else (case edit_command W args fs of (code, err, fs') \<Rightarrow> (code, [], err, w, fs')))"

section \<open>The directories of the client\<close>

text \<open>\<open>os.MkdirAll\<close>: every missing directory on the way. An error ends the program.\<close>

fun mkdirs :: "faults \<Rightarrow> string list \<Rightarrow> fs \<Rightarrow> string + fs" where
  "mkdirs fl [] fs = Inr fs"
| "mkdirs fl (p # ps) fs =
     (case fs p of
        Some Dir \<Rightarrow> mkdirs fl ps fs
      | Some (File _) \<Rightarrow> Inl (''mkdir '' @ p @ '': not a directory'')
      | None \<Rightarrow> bind_ok (os_Mkdir fl p fs) (mkdirs fl ps))"

definition os_MkdirAll :: "faults \<Rightarrow> string \<Rightarrow> fs \<Rightarrow> string + fs" where
  "os_MkdirAll fl p fs = mkdirs fl (map clean_path (prefixes (filter (\<lambda>c. c \<noteq> []) (Split CHR ''/'' p)))) fs"

definition client_dirs :: "ConfWorld \<Rightarrow> string list" where
  "client_dirs W = map (\<lambda>d. path_Join [cw_HOME W, d]) [''.test161/cache'', ''.test161/keys'', ''.test161/usage'']"

fun init_dirs :: "faults \<Rightarrow> string list \<Rightarrow> fs \<Rightarrow> string + fs" where
  "init_dirs fl [] fs = Inr fs"
| "init_dirs fl (dirname # dirs) fs =
     (case os_Stat fl dirname fs of
        Inr _ \<Rightarrow> init_dirs fl dirs fs
      | Inl _ \<Rightarrow>
          (case os_MkdirAll fl dirname fs of
             Inl err \<Rightarrow> Inl (''Error creating '' @ quoted dirname @ '': '' @ err)
           | Inr fs' \<Rightarrow> init_dirs fl dirs fs'))"

section \<open>Commands\<close>

text \<open>\<open>main.go\<close>: what a command requires.\<close>

record test161Command =
  cmd_reqEnv :: bool
  cmd_reqSource :: bool
  cmd_reqRoot :: bool
  cmd_reqTests :: bool

definition no_reqs :: test161Command where
  "no_reqs = \<lparr>cmd_reqEnv = False, cmd_reqSource = False, cmd_reqRoot = False, cmd_reqTests = False\<rparr>"

definition cmdTable :: "(string, test161Command) gomap" where
  "cmdTable =
     [(''run'', no_reqs\<lparr>cmd_reqEnv := True, cmd_reqRoot := True, cmd_reqTests := True\<rparr>),
      (''submit'', no_reqs\<lparr>cmd_reqEnv := True, cmd_reqSource := True, cmd_reqTests := True\<rparr>),
      (''list'', no_reqs\<lparr>cmd_reqEnv := True, cmd_reqTests := True\<rparr>),
      (''config'', no_reqs\<lparr>cmd_reqEnv := True\<rparr>),
      (''version'', no_reqs),
      (''help'', no_reqs),
      (''upload-usage'', no_reqs\<lparr>cmd_reqEnv := True\<rparr>)]"

definition cannot_determine :: "string \<Rightarrow> string" where
  "cannot_determine what = ''Unable to execute command: test161 cannot determine your '' @ what @ '' directory from the CWD.''"

definition checkPaths :: "ConfWorld \<Rightarrow> fs \<Rightarrow> test161Command \<Rightarrow> ClientConf \<Rightarrow> string option" where
  "checkPaths W fs cmd conf =
     (if cnf_RootDir conf = [] \<and> cmd_reqRoot cmd then Some (cannot_determine ''root'')
      else if cnf_SrcDir conf = [] \<and> cmd_reqSource cmd then Some (cannot_determine ''source'')
      else if cnf_Test161Dir conf = [] \<and> cmd_reqTests cmd then Some (cannot_determine ''test161'')
      else if cmd_reqTests cmd \<and> \<not> isTest161Dir W fs (cnf_Test161Dir conf) then
        Some (double_quoted (cnf_Test161Dir conf) @ '' is not a valid test161 directory.'')
      else if cnf_OverlayDir conf \<noteq> [] then testPath W fs (cnf_OverlayDir conf) ''OverlayDirectory'' [''asst1'']
      else None)"

text \<open>
  The configuration and the environment of a command, or the message with which the program exits.
  \<open>newEnv\<close> is \<open>test161.NewEnvironment\<close> without a persistence manager.
\<close>

definition override_conf :: "ConfWorld \<Rightarrow> ClientConf \<Rightarrow> ClientConf option \<Rightarrow> ClientConf" where
  "override_conf W conf confFile =
     (let c1 = (case confFile of
                  None \<Rightarrow> conf
                | Some f \<Rightarrow>
                    (let c = conf\<lparr>cnf_Users := cnf_Users f\<rparr>
                     in if cnf_Test161Dir f \<noteq> [] then c\<lparr>cnf_Test161Dir := cnf_Test161Dir f\<rparr> else c));
          c2 = c1\<lparr>cnf_OverlayDir := cw_OVERLAY W\<rparr>
      in if cw_SERVER W \<noteq> [] then c2\<lparr>cnf_Server := cw_SERVER W\<rparr> else c2)"

definition load_env :: "(string \<Rightarrow> string + TestEnvironment) \<Rightarrow> test161Command \<Rightarrow> ClientConf \<Rightarrow> string + TestEnvironment option" where
  "load_env newEnv cmd conf =
     (if cmd_reqTests cmd then
        (case newEnv (cnf_Test161Dir conf) of
           Inl err \<Rightarrow> Inl (''Unable to create your test161 test environment:'' @ [CHR 0x0A] @ err)
         | Inr env \<Rightarrow> Inr (Some (env\<lparr>env_RootDir := cnf_RootDir conf, env_OverlayRoot := cnf_OverlayDir conf\<rparr>)))
      else Inr None)"

definition envInit :: "ConfWorld \<Rightarrow> (string \<Rightarrow> string + TestEnvironment) \<Rightarrow> fs \<Rightarrow> test161Command \<Rightarrow>
    (string + ClientConf \<times> TestEnvironment option) option" where
  "envInit W newEnv fs cmd =
     map_option (\<lambda>r.
       case r of
         Inl err \<Rightarrow> Inl (''Unable to determine your test161 configuration:'' @ [CHR 0x0A] @ err)
       | Inr conf \<Rightarrow>
           (case getConfFromFile W fs of
              Inl err \<Rightarrow> Inl (''An error occurred reading your '' @ CLIENT_CONF_FILE @ '' file: '' @ err)
            | Inr confFile \<Rightarrow>
                (let conf' = override_conf W conf confFile
                 in case checkPaths W fs cmd conf' of
                      Some err \<Rightarrow> Inl err
                    | None \<Rightarrow> bind_ok (load_env newEnv cmd conf') (\<lambda>env. Inr (conf', env)))))
       (inferConf W fs)"

text \<open>
  The exit code of the program. \<open>run\<close> runs a command in its environment; \<open>args\<close> has the name of the
  program first.
\<close>

definition client_main :: "ConfWorld \<Rightarrow> (string \<Rightarrow> string + TestEnvironment) \<Rightarrow> fs \<Rightarrow>
    (string \<Rightarrow> (ClientConf \<times> TestEnvironment option) option \<Rightarrow> int) \<Rightarrow> string list \<Rightarrow> int option" where
  "client_main W newEnv fs run args =
     (case tl args of
        [] \<Rightarrow> Some 2
      | name # _ \<Rightarrow>
          (case gm_get cmdTable name of
             None \<Rightarrow> Some 2
           | Some cmd \<Rightarrow>
               if cmd_reqEnv cmd then
                 map_option (\<lambda>r. case r of Inl _ \<Rightarrow> 1 | Inr ce \<Rightarrow> run name (Some ce)) (envInit W newEnv fs cmd)
               else Some (run name None)))"

section \<open>The search ends at the nearest directory\<close>

lemma clean_path_length: "length (clean_path cs) < length (clean_path (cs @ [c]))" if "c \<noteq> []"
  using that by (cases "cs = []") (simp_all add: clean_path_def Join_with_snoc)

lemma path_Dir_root: "path_Dir (clean_path []) = clean_path []"
  by (simp add: path_Dir_def clean_path_def path_Clean_def rooted_def HasPrefix_def)

lemma path_Dir_clean:
  assumes "list_all plain_comp (cs @ [c])"
  shows "path_Dir (clean_path (cs @ [c])) = clean_path cs"
proof -
  have c: "CHR ''/'' \<notin> set c" "list_all plain_comp cs" using assms by (simp_all add: plain_comp_def)
  have cut: "rev (dropWhile (\<lambda>x. x \<noteq> CHR ''/'') (rev (s @ CHR ''/'' # c))) = s @ ''/''" for s
  proof -
    have "dropWhile (\<lambda>x. x \<noteq> CHR ''/'') (rev c @ CHR ''/'' # rev s) = CHR ''/'' # rev s"
      using c(1) by (subst dropWhile_append2) auto
    then show ?thesis by simp
  qed
  show ?thesis
  proof (cases "cs = []")
    case True
    have "path_Dir (clean_path (cs @ [c])) = path_Clean ([] @ ''/'')"
      using cut [of "[]"] by (simp add: path_Dir_def clean_path_def True)
    then show ?thesis by (simp add: True path_Clean_def clean_path_def rooted_def HasPrefix_def)
  next
    case False
    have "clean_path (cs @ [c]) = clean_path cs @ CHR ''/'' # c"
      using False by (simp add: clean_path_def Join_with_snoc)
    then have "path_Dir (clean_path (cs @ [c])) = path_Clean (clean_path cs @ ''/'')"
      using cut [of "clean_path cs"] by (simp add: path_Dir_def)
    moreover have "rooted (clean_path cs @ ''/'')" by (simp add: rooted_def HasPrefix_def clean_path_def)
    moreover have "clean_comps True [] (Split CHR ''/'' (clean_path cs @ ''/'')) = cs"
      using clean_path_comps [OF False c(2)] by (simp add: Split_snoc_sep clean_comps_append)
    ultimately show ?thesis by (simp add: path_Clean_rooted)
  qed
qed

text \<open>The directory and its ancestors, from the inside out.\<close>

definition ancestors :: "string list \<Rightarrow> string list" where
  "ancestors cs = map clean_path (rev (prefixes cs))"

lemma ancestors_simps: "ancestors [] = [clean_path []]" "ancestors (cs @ [c]) = clean_path (cs @ [c]) # ancestors cs"
  by (simp_all add: ancestors_def prefixes_snoc)

definition nearest :: "string \<Rightarrow> (string \<Rightarrow> bool) \<Rightarrow> string list \<Rightarrow> string" where
  "nearest home fn dirs = (case find fn (takeWhile (\<lambda>d. HasPrefix d home) dirs) of Some d \<Rightarrow> d | None \<Rightarrow> [])"

lemma search_loop_nearest:
  assumes "list_all plain_comp cs" and "prev \<noteq> clean_path cs"
  shows "search_loop home fn prev (clean_path cs) = Some (nearest home fn (ancestors cs))"
  using assms
proof (induction cs arbitrary: prev rule: rev_induct)
  case Nil
  have "search_loop home fn (clean_path []) (clean_path []) = Some []" by (simp add: search_loop.simps)
  with Nil show ?case
    by (subst search_loop.simps) (simp add: path_Dir_root ancestors_simps nearest_def)
next
  case (snoc c cs)
  have "c \<noteq> []" using snoc.prems(1) by (simp add: plain_comp_def)
  then have "clean_path (cs @ [c]) \<noteq> clean_path cs" using clean_path_length [of c cs] by (metis less_irrefl)
  with snoc.IH snoc.prems have "search_loop home fn (clean_path (cs @ [c])) (clean_path cs) = Some (nearest home fn (ancestors cs))"
    by simp
  with snoc.prems show ?case
    by (subst search_loop.simps) (simp add: path_Dir_clean ancestors_simps nearest_def)
qed

text \<open>
  From a clean absolute directory the search ends. It gives the nearest directory on the way to the
  root that matches, as long as the text of the home directory begins it, and the empty path if
  there is none.
\<close>

theorem search_nearest:
  assumes "list_all plain_comp cs"
  shows "searchForDir (clean_path cs) home fn = Some (nearest home fn (ancestors cs))"
  unfolding searchForDir_def using assms by (rule search_loop_nearest) (simp add: clean_path_def)

lemma searchForDir_clean: "list_all plain_comp cs \<Longrightarrow> searchForDir (clean_path cs) home fn = Some (nearest home fn (ancestors cs))"
  unfolding searchForDir_def by (rule search_loop_nearest) (simp_all add: clean_path_def)

lemma nearest_matches: "nearest home fn dirs \<noteq> [] \<Longrightarrow> fn (nearest home fn dirs) \<and> nearest home fn dirs \<in> set dirs"
proof (cases "find fn (takeWhile (\<lambda>d. HasPrefix d home) dirs)")
  case (Some d)
  then have "d \<in> set (takeWhile (\<lambda>d. HasPrefix d home) dirs)" "fn d" by (auto simp: find_Some_iff)
  with Some show ?thesis by (auto simp: nearest_def dest: set_takeWhileD)
qed (simp add: nearest_def)

section \<open>The configuration before a command\<close>

lemma envInit_ok:
  assumes "envInit W newEnv fs cmd = Some (Inr (conf, env))"
  obtains c0 confFile where "inferConf W fs = Some (Inr c0)" "getConfFromFile W fs = Inr confFile"
    "conf = override_conf W c0 confFile" "checkPaths W fs cmd conf = None" "load_env newEnv cmd conf = Inr env"
proof -
  from assms obtain r where r: "inferConf W fs = Some r" by (auto simp: envInit_def)
  with assms obtain c0 where c0: "r = Inr c0" by (cases r) (simp_all add: envInit_def)
  with assms r obtain confFile where f: "getConfFromFile W fs = Inr confFile"
    by (cases "getConfFromFile W fs") (simp_all add: envInit_def)
  have "checkPaths W fs cmd (override_conf W c0 confFile) = None"
    using assms r c0 f by (cases "checkPaths W fs cmd (override_conf W c0 confFile)") (simp_all add: envInit_def Let_def)
  moreover from this have "override_conf W c0 confFile = conf \<and> load_env newEnv cmd conf = Inr env"
    using assms r c0 f by (auto simp: envInit_def Let_def bind_ok_eq_Inr)
  ultimately show thesis using r c0 f that by blast
qed

text \<open>
  C37. A command that starts has what it requires: a root and a source directory, and a test161 directory
  with commands, targets and tests and its environment; an overlay directory that is set has its
  assignments. The users are those of the configuration file, and the environment variables win.
\<close>

theorem env_checked:
  assumes "envInit W newEnv fs cmd = Some (Inr (conf, env))"
  shows "(cmd_reqRoot cmd \<longrightarrow> cnf_RootDir conf \<noteq> []) \<and> (cmd_reqSource cmd \<longrightarrow> cnf_SrcDir conf \<noteq> []) \<and>
    (cmd_reqTests cmd \<longrightarrow> isTest161Dir W fs (cnf_Test161Dir conf) \<and>
       (\<exists>e. newEnv (cnf_Test161Dir conf) = Inr e \<and>
            env = Some (e\<lparr>env_RootDir := cnf_RootDir conf, env_OverlayRoot := cnf_OverlayDir conf\<rparr>))) \<and>
    (cnf_OverlayDir conf = [] \<or> pathExists W fs (path_Join [cnf_OverlayDir conf, ''asst1''])) \<and>
    cnf_OverlayDir conf = cw_OVERLAY W \<and> (cw_SERVER W \<noteq> [] \<longrightarrow> cnf_Server conf = cw_SERVER W) \<and>
    (case getConfFromFile W fs of Inr (Some f) \<Rightarrow> cnf_Users conf = cnf_Users f | Inr None \<Rightarrow> cnf_Users conf = [] | Inl _ \<Rightarrow> False)"
proof -
  from assms obtain c0 confFile where c: "inferConf W fs = Some (Inr c0)" "getConfFromFile W fs = Inr confFile"
    "conf = override_conf W c0 confFile" "checkPaths W fs cmd conf = None" "load_env newEnv cmd conf = Inr env"
    by (rule envInit_ok)
  have "cnf_Users c0 = []" using c(1)
    by (auto simp: inferConf_def Let_def bind_ok_eq_Inr bind_eq_Some_conv split: sum.splits if_splits)
  then have "case confFile of Some f \<Rightarrow> cnf_Users conf = cnf_Users f | None \<Rightarrow> cnf_Users conf = []"
    "cnf_OverlayDir conf = cw_OVERLAY W" "cw_SERVER W \<noteq> [] \<longrightarrow> cnf_Server conf = cw_SERVER W"
    using c(3) by (auto simp: override_conf_def Let_def split: option.splits)
  moreover have "(cmd_reqRoot cmd \<longrightarrow> cnf_RootDir conf \<noteq> []) \<and> (cmd_reqSource cmd \<longrightarrow> cnf_SrcDir conf \<noteq> []) \<and>
    (cmd_reqTests cmd \<longrightarrow> isTest161Dir W fs (cnf_Test161Dir conf))"
    "cnf_OverlayDir conf = [] \<or> pathExists W fs (path_Join [cnf_OverlayDir conf, ''asst1''])"
    using c(4) by (auto simp: checkPaths_def testPath_def split: if_splits)
  moreover have "cmd_reqTests cmd \<longrightarrow> (\<exists>e. newEnv (cnf_Test161Dir conf) = Inr e \<and>
            env = Some (e\<lparr>env_RootDir := cnf_RootDir conf, env_OverlayRoot := cnf_OverlayDir conf\<rparr>))"
    using c(5) by (auto simp: load_env_def split: sum.splits)
  ultimately show ?thesis using c(2) by (cases confFile) simp_all
qed

text \<open>The configuration is found, or an error is given, whenever the working directory is a clean path.\<close>

lemma inferConf_returns:
  assumes "\<And>wd cwd. cw_Abs W wd = Inr cwd \<Longrightarrow> \<exists>cs. cwd = clean_path cs \<and> list_all plain_comp cs"
  shows "inferConf W fs \<noteq> None"
proof (cases "cw_Getwd W")
  case (Inr wd)
  show ?thesis
  proof (cases "cw_Abs W wd")
    case abs: (Inr cwd)
    from assms [OF this] obtain cs where "cwd = clean_path cs" "list_all plain_comp cs" by blast
    then show ?thesis using Inr abs by (simp add: inferConf_def searchForDir_clean Let_def)
  qed (simp add: inferConf_def Inr)
qed (simp add: inferConf_def)

text \<open>
  The home directory is compared as a text: the home of another user that begins with the same
  letters passes the check for being outside of the own one.
\<close>

lemma other_home_passes:
  assumes "cw_HOME W = ''/home/al''" and "cw_Getwd W = Inr wd" and "cw_Abs W wd = Inr ''/home/alice''"
  shows "\<exists>conf. inferConf W (\<lambda>_. None) = Some (Inr conf)"
proof -
  have "list_all plain_comp [''home'', ''alice'']" by (simp add: plain_comp_def)
  note search = searchForDir_clean [OF this, of "''/home/al''"]
  have missing: "\<not> pathExists W (\<lambda>_. None) p" for p
    by (simp add: pathExists_def exists_file_def os_Stat_def io_guard_def split: option.splits)
  then have "\<not> isSourceDir W (\<lambda>_. None) p" "\<not> isRootDir W (\<lambda>_. None) p" for p
    by (simp_all add: isSourceDir_def isRootDir_def testPath_def)
  then have "nearest home (isSourceDir W (\<lambda>_. None)) ds = []" "nearest home (isRootDir W (\<lambda>_. None)) ds = []" for home ds
    by (metis nearest_matches)+
  with search have "searchForDir ''/home/alice'' ''/home/al'' (isSourceDir W (\<lambda>_. None)) = Some []"
     "searchForDir ''/home/alice'' ''/home/al'' (isRootDir W (\<lambda>_. None)) = Some []" by (simp_all add: clean_path_def)
  then show ?thesis using assms by (simp add: inferConf_def HasPrefix_def clean_links_def)
qed

text \<open>A root directory that is found through the source directory only has to exist.\<close>

lemma root_not_checked:
  assumes "cw_Getwd W = Inr wd" "cw_Abs W wd = Inr cwd" "cw_HOME W \<noteq> []" "HasPrefix cwd (cw_HOME W)"
    and "searchForDir cwd (cw_HOME W) (isSourceDir W fs) = Some src" "src \<noteq> []"
    and "searchForDir cwd (cw_HOME W) (isRootDir W fs) = Some []"
    and "pathExists W fs (path_Join [src, ''.root''])" and "\<And>p. cw_EvalSymlinks W p = Inr p"
  shows "\<exists>conf. inferConf W fs = Some (Inr conf) \<and> cnf_RootDir conf = path_Join [src, ''.root'']"
  using assms by (simp add: inferConf_def testJoin_def clean_links_def Let_def)

section \<open>The configuration file keeps what is written\<close>

text \<open>
  The YAML library: what it writes is not empty and is read back, without the fields that are not in
  the file; and what it reads has only the fields of the file. Reading the file does not fail for
  reasons outside of it.
\<close>

definition yaml_ok :: "ConfWorld \<Rightarrow> bool" where
  "yaml_ok W \<longleftrightarrow>
     (\<forall>c t. cw_write W c = Inr t \<longrightarrow> t \<noteq> [] \<and> cw_read W t = Inr (saved c)) \<and>
     (\<forall>c t. cw_read W t = Inr c \<longrightarrow> saved c = c) \<and>
     (\<forall>op. op \<in> {''stat'', ''open''} \<longrightarrow> cw_faults W op (conf_file W) = None)"

lemma saved_user_simps [simp]: "saved_user (saved_user u) = saved_user u" "saved_user (new_user email token) = new_user email token"
  by (simp_all add: saved_user_def new_user_def)

lemma saved_simps [simp]: "saved empty_conf = empty_conf"
  "saved (c\<lparr>cnf_Users := us\<rparr>) = (saved c)\<lparr>cnf_Users := map saved_user us\<rparr>"
  "saved (c\<lparr>cnf_Test161Dir := d\<rparr>) = (saved c)\<lparr>cnf_Test161Dir := d\<rparr>"
  by (simp_all add: saved_def empty_conf_def)

text \<open>The users of a configuration that was read have no hash, and an edit gives them none.\<close>

lemma saved_users: "saved c = c \<Longrightarrow> map saved_user (cnf_Users c) = cnf_Users c"
  by (drule arg_cong [of _ _ cnf_Users]) (simp add: saved_def)

lemma saved_user_same: "saved_user u = u \<longleftrightarrow> ui_KeyHash u = []"
  by (cases u) (auto simp: saved_user_def)

lemma delete_saved: "delete_user email us = Some us' \<Longrightarrow> map saved_user us = us \<Longrightarrow> map saved_user us' = us'"
  by (induction us arbitrary: us') (auto split: if_splits)

lemma set_token_saved: "set_token email token us = Some us' \<Longrightarrow> map saved_user us = us \<Longrightarrow> map saved_user us' = us'"
  by (induction us arbitrary: us') (auto simp: saved_user_same split: if_splits)

lemma written_conf:
  assumes "yaml_ok W" and "ClientConfToFile W conf fs = (None, fs')"
  shows "getConfFromFileSafe W fs' = Inr (saved conf)"
proof -
  from assms(2) obtain t where t: "cw_write W conf = Inr t" "ioutil_WriteFile (cw_faults W) (conf_file W) t fs = Inr fs'"
    by (auto simp: ClientConfToFile_def split: sum.splits)
  then have "fs' (conf_file W) = Some (File t)"
    by (auto simp: ioutil_WriteFile_def io_guard_def bind_ok_eq_Inr split: option.splits)
  moreover have "t \<noteq> []" "cw_read W t = Inr (saved conf)" using assms(1) t(1) by (auto simp: yaml_ok_def)
  moreover have "cw_faults W ''stat'' (conf_file W) = None" "cw_faults W ''open'' (conf_file W) = None"
    using assms(1) by (simp_all add: yaml_ok_def)
  ultimately show ?thesis
    by (simp add: getConfFromFileSafe_def getConfFromFile_def ClientConfFromFile_def ClientConfFromString_def
        os_Stat_def ioutil_ReadFile_def io_guard_def)
qed

lemma conf_is_saved:
  assumes "yaml_ok W" and "getConfFromFileSafe W fs = Inr c"
  shows "saved c = c"
proof -
  from assms(2) obtain oc where oc: "getConfFromFile W fs = Inr oc" "c = (case oc of None \<Rightarrow> empty_conf | Some c \<Rightarrow> c)"
    by (auto simp: getConfFromFileSafe_def bind_ok_eq_Inr)
  show ?thesis
  proof (cases oc)
    case (Some c')
    with oc(1) obtain t where "cw_read W t = Inr c'"
      by (auto simp: getConfFromFile_def ClientConfFromFile_def ClientConfFromString_def bind_ok_eq_Inr split: sum.splits if_splits)
    with assms(1) Some oc(2) show ?thesis by (auto simp: yaml_ok_def)
  qed (simp add: oc(2))
qed

lemma edit_conf_ok:
  assumes "yaml_ok W" and "edit_conf W change fs = (None, fs')"
  obtains c c' where "getConfFromFileSafe W fs = Inr c" "saved c = c" "change c = Inr c'" "getConfFromFileSafe W fs' = Inr (saved c')"
proof -
  from assms(2) obtain c where c: "getConfFromFileSafe W fs = Inr c"
    by (cases "getConfFromFileSafe W fs") (simp_all add: edit_conf_def)
  with assms(2) obtain c' where c': "change c = Inr c'" by (cases "change c") (simp_all add: edit_conf_def)
  with assms(2) c have "ClientConfToFile W c' fs = (None, fs')" by (simp add: edit_conf_def)
  from written_conf [OF assms(1) this] c c' conf_is_saved [OF assms(1) c] show thesis by (intro that)
qed

lemma addUser_ok:
  assumes "yaml_ok W" and "addUser W email token fs = (None, fs')"
  obtains c where "getConfFromFileSafe W fs = Inr c" "email \<noteq> []" "token \<noteq> []" "email \<notin> ui_Email ` set (cnf_Users c)"
    "getConfFromFileSafe W fs' = Inr (c\<lparr>cnf_Users := cnf_Users c @ [new_user email token]\<rparr>)"
proof -
  have args: "email \<noteq> []" "token \<noteq> []" using assms(2) by (auto simp: addUser_def split: if_splits)
  then have "edit_conf W (\<lambda>conf.
        if \<exists>u\<in>set (cnf_Users conf). ui_Email u = email then Inl (''User '' @ double_quoted email @ '' already exists.'')
        else Inr (conf\<lparr>cnf_Users := cnf_Users conf @ [new_user email token]\<rparr>)) fs = (None, fs')"
    using assms(2) by (simp only: addUser_def if_False)
  from edit_conf_ok [OF assms(1) this] obtain c c' where c: "getConfFromFileSafe W fs = Inr c" "saved c = c"
    "(if \<exists>u\<in>set (cnf_Users c). ui_Email u = email then Inl (''User '' @ double_quoted email @ '' already exists.'')
        else Inr (c\<lparr>cnf_Users := cnf_Users c @ [new_user email token]\<rparr>)) = Inr c'"
    "getConfFromFileSafe W fs' = Inr (saved c')" by blast
  have new: "\<not> (\<exists>u\<in>set (cnf_Users c). ui_Email u = email)" using c(3) by (cases "\<exists>u\<in>set (cnf_Users c). ui_Email u = email") (simp_all only: if_True if_False sum.simps simp_thms)
  with c(3) have "c' = c\<lparr>cnf_Users := cnf_Users c @ [new_user email token]\<rparr>" by (simp only: if_False sum.inject)
  with c(2,4) saved_users [OF c(2)] have "getConfFromFileSafe W fs' = Inr (c\<lparr>cnf_Users := cnf_Users c @ [new_user email token]\<rparr>)" by simp
  moreover have "email \<notin> ui_Email ` set (cnf_Users c)" using new by auto
  ultimately show thesis using that c(1) args by blast
qed

lemma delUser_ok:
  assumes "yaml_ok W" and "delUser W email fs = (None, fs')"
  obtains c us where "getConfFromFileSafe W fs = Inr c" "delete_user email (cnf_Users c) = Some us"
    "getConfFromFileSafe W fs' = Inr (c\<lparr>cnf_Users := us\<rparr>)"
proof -
  have "email \<noteq> []" using assms(2) by (auto simp: delUser_def)
  then have "edit_conf W (\<lambda>conf.
        case delete_user email (cnf_Users conf) of
          None \<Rightarrow> Inl (''User '' @ double_quoted email @ '' does not exist in '' @ CLIENT_CONF_FILE)
        | Some us \<Rightarrow> Inr (conf\<lparr>cnf_Users := us\<rparr>)) fs = (None, fs')" using assms(2) by (simp only: delUser_def if_False)
  from edit_conf_ok [OF assms(1) this] obtain c c' where c: "getConfFromFileSafe W fs = Inr c" "saved c = c"
    "(case delete_user email (cnf_Users c) of
          None \<Rightarrow> Inl (''User '' @ double_quoted email @ '' does not exist in '' @ CLIENT_CONF_FILE)
        | Some us \<Rightarrow> Inr (c\<lparr>cnf_Users := us\<rparr>)) = Inr c'"
    "getConfFromFileSafe W fs' = Inr (saved c')" by blast
  then obtain us where us: "delete_user email (cnf_Users c) = Some us" by (cases "delete_user email (cnf_Users c)") (simp_all only: option.case sum.simps)
  with c(3) have "c' = c\<lparr>cnf_Users := us\<rparr>" by (simp only: option.case sum.inject)
  with c(2,4) delete_saved [OF us saved_users [OF c(2)]] have "getConfFromFileSafe W fs' = Inr (c\<lparr>cnf_Users := us\<rparr>)" by simp
  with c(1) us show thesis by (rule that)
qed

lemma changeToken_ok:
  assumes "yaml_ok W" and "changeToken W email token fs = (None, fs')"
  obtains c us where "getConfFromFileSafe W fs = Inr c" "set_token email token (cnf_Users c) = Some us"
    "getConfFromFileSafe W fs' = Inr (c\<lparr>cnf_Users := us\<rparr>)"
proof -
  have "email \<noteq> []" "token \<noteq> []" using assms(2) by (auto simp: changeToken_def split: if_splits)
  then have "edit_conf W (\<lambda>conf.
        case set_token email token (cnf_Users conf) of
          None \<Rightarrow> Inl (''User '' @ double_quoted email @ '' not found in '' @ CLIENT_CONF_FILE)
        | Some us \<Rightarrow> Inr (conf\<lparr>cnf_Users := us\<rparr>)) fs = (None, fs')" using assms(2) by (simp only: changeToken_def if_False)
  from edit_conf_ok [OF assms(1) this] obtain c c' where c: "getConfFromFileSafe W fs = Inr c" "saved c = c"
    "(case set_token email token (cnf_Users c) of
          None \<Rightarrow> Inl (''User '' @ double_quoted email @ '' not found in '' @ CLIENT_CONF_FILE)
        | Some us \<Rightarrow> Inr (c\<lparr>cnf_Users := us\<rparr>)) = Inr c'"
    "getConfFromFileSafe W fs' = Inr (saved c')" by blast
  then obtain us where us: "set_token email token (cnf_Users c) = Some us" by (cases "set_token email token (cnf_Users c)") (simp_all only: option.case sum.simps)
  with c(3) have "c' = c\<lparr>cnf_Users := us\<rparr>" by (simp only: option.case sum.inject)
  with c(2,4) set_token_saved [OF us saved_users [OF c(2)]] have "getConfFromFileSafe W fs' = Inr (c\<lparr>cnf_Users := us\<rparr>)" by simp
  with c(1) us show thesis by (rule that)
qed

lemma delete_user_snoc:
  "email \<notin> ui_Email ` set us \<Longrightarrow> delete_user email (us @ [new_user email token]) = Some us"
  by (induction us) (auto simp: new_user_def)

lemma delete_user_others:
  "delete_user email us = Some us' \<Longrightarrow> set (map ui_Email us') \<subseteq> set (map ui_Email us) \<and>
     (distinct (map ui_Email us) \<longrightarrow> distinct (map ui_Email us') \<and> us' = filter (\<lambda>u. ui_Email u \<noteq> email) us)"
proof (induction us arbitrary: us')
  case (Cons u us)
  show ?case
  proof (cases "ui_Email u = email")
    case True
    have "filter (\<lambda>u. ui_Email u \<noteq> email) us = us" if "email \<notin> ui_Email ` set us"
      using that by (auto simp: filter_id_conv)
    with True Cons.prems show ?thesis by auto
  next
    case False
    with Cons.prems obtain vs where "delete_user email us = Some vs" "us' = u # vs" by auto
    with Cons.IH [of vs] False show ?thesis by auto
  qed
qed simp

lemma set_token_emails:
  "set_token email token us = Some us' \<Longrightarrow> map ui_Email us' = map ui_Email us \<and> (\<exists>u\<in>set us'. ui_Email u = email \<and> ui_Token u = token)"
  by (induction us arbitrary: us') (auto split: if_splits)

text \<open>
  C39. With a YAML library that reads back what it wrote (but for the fields that are not in the file): a
  user that is added can be read back after the users before, and deleting this user afterwards gives
  the configuration of the beginning.
\<close>

theorem add_then_delete:
  assumes "yaml_ok W" and "addUser W email token fs = (None, fs1)" and "delUser W email fs1 = (None, fs2)"
  shows "\<exists>c. getConfFromFileSafe W fs = Inr c \<and>
    getConfFromFileSafe W fs1 = Inr (c\<lparr>cnf_Users := cnf_Users c @ [new_user email token]\<rparr>) \<and>
    getConfFromFileSafe W fs2 = Inr c"
proof -
  from addUser_ok [OF assms(1,2)] obtain c where c: "getConfFromFileSafe W fs = Inr c" "email \<notin> ui_Email ` set (cnf_Users c)"
    "getConfFromFileSafe W fs1 = Inr (c\<lparr>cnf_Users := cnf_Users c @ [new_user email token]\<rparr>)" by blast
  from delUser_ok [OF assms(1,3)] obtain c1 us where us1: "getConfFromFileSafe W fs1 = Inr c1"
    "delete_user email (cnf_Users c1) = Some us" "getConfFromFileSafe W fs2 = Inr (c1\<lparr>cnf_Users := us\<rparr>)" by blast
  from us1(1) c(3) have "c1 = c\<lparr>cnf_Users := cnf_Users c @ [new_user email token]\<rparr>" by (simp only: sum.inject)
  with us1 have us: "delete_user email (cnf_Users c @ [new_user email token]) = Some us"
    "getConfFromFileSafe W fs2 = Inr (c\<lparr>cnf_Users := us\<rparr>)" by simp_all
  from us(1) delete_user_snoc [OF c(2)] have "us = cnf_Users c" by simp
  with us(2) c show ?thesis by simp
qed

text \<open>Every edit keeps the addresses of the users distinct.\<close>

definition users_distinct :: "ConfWorld \<Rightarrow> fs \<Rightarrow> bool" where
  "users_distinct W fs \<longleftrightarrow>
     (case getConfFromFileSafe W fs of Inl _ \<Rightarrow> True | Inr c \<Rightarrow> distinct (map ui_Email (cnf_Users c)))"

lemma edits_keep_distinct:
  assumes "yaml_ok W" and "users_distinct W fs"
  shows "addUser W email token fs = (None, fs') \<Longrightarrow> users_distinct W fs'"
    and "delUser W email fs = (None, fs') \<Longrightarrow> users_distinct W fs'"
    and "changeToken W email token fs = (None, fs') \<Longrightarrow> users_distinct W fs'"
proof -
  have old: "distinct (map ui_Email (cnf_Users c))" if "getConfFromFileSafe W fs = Inr c" for c
    using assms(2) that by (simp add: users_distinct_def)
  show "users_distinct W fs'" if a: "addUser W email token fs = (None, fs')"
  proof -
    from addUser_ok [OF assms(1) a] obtain c where "getConfFromFileSafe W fs = Inr c" "email \<notin> ui_Email ` set (cnf_Users c)"
      "getConfFromFileSafe W fs' = Inr (c\<lparr>cnf_Users := cnf_Users c @ [new_user email token]\<rparr>)" by blast
    with old show ?thesis by (simp add: users_distinct_def new_user_def)
  qed
  show "users_distinct W fs'" if d: "delUser W email fs = (None, fs')"
  proof -
    from delUser_ok [OF assms(1) d] obtain c us where "getConfFromFileSafe W fs = Inr c" "delete_user email (cnf_Users c) = Some us"
      "getConfFromFileSafe W fs' = Inr (c\<lparr>cnf_Users := us\<rparr>)" by blast
    with old delete_user_others show ?thesis by (fastforce simp: users_distinct_def)
  qed
  show "users_distinct W fs'" if t: "changeToken W email token fs = (None, fs')"
  proof -
    from changeToken_ok [OF assms(1) t] obtain c us where "getConfFromFileSafe W fs = Inr c" "set_token email token (cnf_Users c) = Some us"
      "getConfFromFileSafe W fs' = Inr (c\<lparr>cnf_Users := us\<rparr>)" by blast
    with old set_token_emails [of email token "cnf_Users c" us] show ?thesis by (simp add: users_distinct_def)
  qed
qed

section \<open>The table of commands\<close>

text \<open>A program that does not run a command ends with 1 or 2, and one that does has the environment the table asks for.\<close>

lemma main_runs:
  assumes "client_main W newEnv fs run (prog # name # args) = Some code" and "gm_get cmdTable name = Some cmd"
  shows "code = 1 \<or> (\<not> cmd_reqEnv cmd \<and> code = run name None) \<or>
    (\<exists>conf env. envInit W newEnv fs cmd = Some (Inr (conf, env)) \<and> code = run name (Some (conf, env)))"
proof (cases "cmd_reqEnv cmd")
  case True
  with assms obtain r where "envInit W newEnv fs cmd = Some r" "code = (case r of Inl _ \<Rightarrow> 1 | Inr ce \<Rightarrow> run name (Some ce))"
    by (auto simp: client_main_def)
  then show ?thesis by (cases r) auto
next
  case False
  with assms show ?thesis by (simp add: client_main_def)
qed

section \<open>Witnesses\<close>

definition no_faults :: faults where
  "no_faults = (\<lambda>_ _. None)"

text \<open>
  A concrete format for the file in place of YAML: the directory, then address and token of each user,
  each text with \<open>=\<close> before its characters and \<open>;\<close> behind. It writes and reads every configuration.
\<close>

definition write_text :: "string \<Rightarrow> string" where
  "write_text w = concat (map (\<lambda>c. [CHR ''='', c]) w) @ '';''"

fun read_texts :: "string \<Rightarrow> string \<Rightarrow> string list option" where
  "read_texts w [] = (if w = [] then Some [] else None)"
| "read_texts w [x] = (if x = CHR '';'' then Some [w] else None)"
| "read_texts w (x # c # r) =
     (if x = CHR '';'' then map_option (\<lambda>ws. w # ws) (read_texts [] (c # r))
      else if x = CHR ''='' then read_texts (w @ [c]) r else None)"

fun read_users :: "string list \<Rightarrow> SubmissionUserInfo list option" where
  "read_users [] = Some []"
| "read_users [w] = None"
| "read_users (email # token # ws) = map_option (\<lambda>us. new_user email token # us) (read_users ws)"

definition read_conf :: "string \<Rightarrow> string + ClientConf" where
  "read_conf t =
     (case read_texts [] t of
        Some (dir # ws) \<Rightarrow>
          (case read_users ws of
             Some us \<Rightarrow> Inr (empty_conf\<lparr>cnf_Users := us, cnf_Test161Dir := dir\<rparr>)
           | None \<Rightarrow> Inl ''bad'')
      | _ \<Rightarrow> Inl ''bad'')"

definition write_conf :: "ClientConf \<Rightarrow> string" where
  "write_conf c = concat (map write_text (cnf_Test161Dir c # concat (map (\<lambda>u. [ui_Email u, ui_Token u]) (cnf_Users c))))"

lemma read_texts_step:
  "read_texts w (CHR '';'' # r) = map_option (\<lambda>ws. w # ws) (read_texts [] r)"
  by (cases r) simp_all

lemma read_text_written: "read_texts w (write_text v @ r) = map_option (\<lambda>ws. (w @ v) # ws) (read_texts [] r)"
  by (induction v arbitrary: w) (simp_all add: write_text_def read_texts_step)

lemma read_texts_written: "read_texts [] (concat (map write_text ws)) = Some ws"
  by (induction ws) (simp_all add: read_text_written)

lemma read_users_written:
  "read_users (concat (map (\<lambda>u. [ui_Email u, ui_Token u]) us)) = Some (map saved_user us)"
  by (induction us) (simp_all add: saved_user_def new_user_def)

lemma read_users_saved: "read_users ws = Some us \<Longrightarrow> map saved_user us = us"
  by (induction ws arbitrary: us rule: read_users.induct) auto

lemma read_conf_written: "read_conf (write_conf c) = Inr (saved c)"
  using read_texts_written [of "cnf_Test161Dir c # concat (map (\<lambda>u. [ui_Email u, ui_Token u]) (cnf_Users c))"]
  by (simp add: read_conf_def write_conf_def read_users_written saved_def)

lemma read_conf_saved: "read_conf t = Inr c \<Longrightarrow> saved c = c"
  by (auto simp: read_conf_def saved_def empty_conf_def read_users_saved split: option.splits list.splits)

definition one_conf :: ClientConf where
  "one_conf = empty_conf\<lparr>cnf_Users := [new_user ''a'' ''t'']\<rparr>"

definition sample_conf_world :: ConfWorld where
  "sample_conf_world = \<lparr>cw_HOME = ''/h'', cw_OVERLAY = [], cw_SERVER = ''s'', cw_Getwd = Inr ''/h'', cw_Abs = Inr,
     cw_EvalSymlinks = Inr, cw_executable = (\<lambda>_. True), cw_faults = no_faults,
     cw_read = read_conf, cw_write = (\<lambda>c. Inr (write_conf c))\<rparr>"

definition sample_home :: fs where
  "sample_home p = (if p \<in> {''/h'', ''/h/kern'', ''/h/userland'', ''/h/mk'', ''/h/test161'', ''/h/test161/commands'',
      ''/h/test161/targets'', ''/h/test161/tests''} then Some Dir else None)"

lemma sample_yaml: "yaml_ok sample_conf_world"
proof -
  have "write_conf c \<noteq> []" for c by (simp add: write_conf_def write_text_def)
  then show ?thesis
    by (auto simp: yaml_ok_def sample_conf_world_def no_faults_def read_conf_written read_conf_saved)
qed

lemma search_nearest_witness:
  "searchForDir (clean_path [''h'', ''x'']) ''/h'' (\<lambda>d. d = ''/h'') = Some ''/h''"
proof -
  have "list_all plain_comp [''h'', ''x'']" by (simp add: plain_comp_def)
  from search_nearest [OF this, of "''/h''" "\<lambda>d. d = ''/h''"] show ?thesis
    by (simp add: nearest_def ancestors_def clean_path_def HasPrefix_def)
qed

lemma sample_infer:
  "inferConf sample_conf_world sample_home =
     Some (Inr \<lparr>cnf_Users = [], cnf_Test161Dir = ''/h/test161'', cnf_OverlayDir = [], cnf_Server = SERVER, cnf_RootDir = [], cnf_SrcDir = ''/h''\<rparr>)"
proof -
  have "list_all plain_comp [''h'']" by (simp add: plain_comp_def)
  note search = searchForDir_clean [OF this, of "''/h''"]
  have "nearest ''/h'' (isSourceDir sample_conf_world sample_home) (ancestors [''h'']) = ''/h''"
    "nearest ''/h'' (isRootDir sample_conf_world sample_home) (ancestors [''h'']) = []"
    "testJoin ''/h'' ''.root'' (pathExists sample_conf_world sample_home) = []"
    "testJoin ''/h'' ''test161'' (isTest161Dir sample_conf_world sample_home) = ''/h/test161''" by code_simp+
  moreover have "clean_path [''h''] = ''/h''" by (simp add: clean_path_def)
  moreover have "cw_Getwd sample_conf_world = Inr ''/h''" "cw_Abs sample_conf_world = Inr" "cw_HOME sample_conf_world = ''/h''"
    "cw_EvalSymlinks sample_conf_world = Inr" by (simp_all add: sample_conf_world_def)
  ultimately show ?thesis using search by (simp add: inferConf_def HasPrefix_def clean_links_def)
qed

lemma env_checked_witness:
  "\<exists>conf env. envInit sample_conf_world (\<lambda>_. Inr (fresh_environment None [])) sample_home (no_reqs\<lparr>cmd_reqTests := True\<rparr>) = Some (Inr (conf, env)) \<and>
     isTest161Dir sample_conf_world sample_home (cnf_Test161Dir conf)"
proof -
  let ?conf = "\<lparr>cnf_Users = [], cnf_Test161Dir = ''/h/test161'', cnf_OverlayDir = [], cnf_Server = ''s'', cnf_RootDir = [], cnf_SrcDir = ''/h''\<rparr>"
  have f: "getConfFromFile sample_conf_world sample_home = Inr None" by code_simp
  have t: "isTest161Dir sample_conf_world sample_home ''/h/test161''" by code_simp
  have "cw_OVERLAY sample_conf_world = []" "cw_SERVER sample_conf_world = ''s''" by (simp_all add: sample_conf_world_def)
  then have e: "envInit sample_conf_world (\<lambda>_. Inr (fresh_environment None [])) sample_home (no_reqs\<lparr>cmd_reqTests := True\<rparr>) =
      Some (Inr (?conf, Some ((fresh_environment None [])\<lparr>env_RootDir := [], env_OverlayRoot := []\<rparr>)))"
    by (simp add: envInit_def sample_infer f override_conf_def checkPaths_def no_reqs_def t load_env_def)
  from env_checked [OF e] have "isTest161Dir sample_conf_world sample_home (cnf_Test161Dir ?conf)" by (simp add: no_reqs_def)
  with e show ?thesis by blast
qed

lemma add_then_delete_witness:
  "\<exists>fs1 fs2. addUser sample_conf_world ''a'' ''t'' sample_home = (None, fs1) \<and>
     delUser sample_conf_world ''a'' fs1 = (None, fs2) \<and>
     getConfFromFileSafe sample_conf_world fs2 = getConfFromFileSafe sample_conf_world sample_home"
proof -
  let ?file = "''/h/.test161.conf''"
  have path: "conf_file sample_conf_world = ?file" by code_simp
  have dir: "path_Dir ?file = ''/h''" by code_simp
  have f: "cw_faults sample_conf_world = (\<lambda>_ _. None)" by (simp add: sample_conf_world_def no_faults_def)
  have "saved one_conf = one_conf" by (simp add: one_conf_def)
  then have w: "cw_write sample_conf_world empty_conf = Inr (write_conf empty_conf)"
    "cw_write sample_conf_world one_conf = Inr (write_conf one_conf)"
    "cw_read sample_conf_world (write_conf one_conf) = Inr one_conf" "write_conf one_conf \<noteq> []"
    by (simp_all add: sample_conf_world_def read_conf_written) (simp add: write_conf_def write_text_def)
  have home: "sample_home ?file = None" "sample_home ''/h'' = Some Dir" by (simp_all add: sample_home_def)
  have safe0: "getConfFromFileSafe sample_conf_world sample_home = Inr empty_conf"
    by (simp add: getConfFromFileSafe_def getConfFromFile_def path os_Stat_def io_guard_def f home)
  have one: "empty_conf\<lparr>cnf_Users := cnf_Users empty_conf @ [new_user ''a'' ''t'']\<rparr> = one_conf" by (simp add: one_conf_def empty_conf_def)
  define fs1 where "fs1 = sample_home(?file \<mapsto> File (write_conf one_conf))"
  define fs2 where "fs2 = sample_home(?file \<mapsto> File (write_conf empty_conf))"
  have a: "addUser sample_conf_world ''a'' ''t'' sample_home = (None, fs1)"
    by (simp add: addUser_def edit_conf_def safe0 one ClientConfToFile_def w path ioutil_WriteFile_def os_Create_def io_guard_def f dir home fs1_def)
       (simp add: empty_conf_def one_conf_def w [unfolded one_conf_def empty_conf_def])
  have safe1: "getConfFromFileSafe sample_conf_world fs1 = Inr one_conf"
    by (simp add: getConfFromFileSafe_def getConfFromFile_def path os_Stat_def io_guard_def f fs1_def
        ClientConfFromFile_def ClientConfFromString_def ioutil_ReadFile_def w)
  have del: "delete_user ''a'' (cnf_Users one_conf) = Some []" "one_conf\<lparr>cnf_Users := []\<rparr> = empty_conf"
    by (simp_all add: one_conf_def empty_conf_def new_user_def)
  have d: "delUser sample_conf_world ''a'' fs1 = (None, fs2)"
    by (simp add: delUser_def edit_conf_def safe1 del)
       (simp add: ClientConfToFile_def w path ioutil_WriteFile_def os_Create_def io_guard_def f dir home fs1_def fs2_def)
  from add_then_delete [OF sample_yaml a d] a d show ?thesis by auto
qed

end
