(* ===== verification/ClientArgs.thy ===== *)
theory ClientArgs
  imports ClientLists ClientConf
begin

text \<open>
  The command lines of the client: the flags of Go's \<open>flag\<close> package as \<open>runcmd.go\<close>, \<open>submitcmd.go\<close>,
  \<open>listcmd.go\<close> and \<open>conf.go\<close> use it, the arguments that are left over, and the requests of
  \<open>test161/comm.go\<close>.
\<close>

section \<open>Flags\<close>

datatype flag_kind = Bool_flag | String_flag

type_synonym flags = "(string, flag_kind) gomap"

definition ParseBool :: "string \<Rightarrow> bool option" where
  "ParseBool s =
     (if s \<in> {''1'', ''t'', ''T'', ''TRUE'', ''true'', ''True''} then Some True
      else if s \<in> {''0'', ''f'', ''F'', ''FALSE'', ''false'', ''False''} then Some False else None)"

text \<open>
  The name and the value of an argument that is a flag, without its one or two dashes; the first
  equals sign after the first character separates them.
\<close>

definition flag_name :: "string \<Rightarrow> string \<times> string option" where
  "flag_name s =
     (case dropWhile (\<lambda>c. c \<noteq> CHR ''='') (tl s) of
        [] \<Rightarrow> (s, None)
      | _ # value \<Rightarrow> (hd s # takeWhile (\<lambda>c. c \<noteq> CHR ''='') (tl s), Some value))"

text \<open>
  The assignments in their order and the arguments left over. \<open>None\<close> is an error (a flag that is not
  known, badly written or without its value, or a request for help): the program prints its usage and
  exits with 2.
\<close>

fun parse_flags :: "flags \<Rightarrow> string list \<Rightarrow> ((string \<times> string) list \<times> string list) option" where
  "parse_flags known [] = Some ([], [])"
| "parse_flags known (s # args) =
     (if length s < 2 \<or> hd s \<noteq> CHR ''-'' then Some ([], s # args)
      else if s = ''--'' then Some ([], args)
      else
        (let body = (if s ! 1 = CHR ''-'' then drop 2 s else drop 1 s)
         in if body = [] \<or> hd body \<in> {CHR ''-'', CHR ''=''} then None
            else
              (case flag_name body of
                 (name, val) \<Rightarrow>
                   (case gm_get known name of
                      None \<Rightarrow> None
                    | Some Bool_flag \<Rightarrow>
                        (let v = (case val of None \<Rightarrow> ''true'' | Some v \<Rightarrow> v)
                         in if ParseBool v = None then None
                            else map_option (\<lambda>(as, rest). ((name, v) # as, rest)) (parse_flags known args))
                    | Some String_flag \<Rightarrow>
                        (case val of
                           Some v \<Rightarrow> map_option (\<lambda>(as, rest). ((name, v) # as, rest)) (parse_flags known args)
                         | None \<Rightarrow>
                             (case args of
                                [] \<Rightarrow> None
                              | v # args' \<Rightarrow> map_option (\<lambda>(as, rest). ((name, v) # as, rest)) (parse_flags known args')))))))"

text \<open>A variable takes the last assignment to one of its names.\<close>

definition flag_value :: "string list \<Rightarrow> string \<Rightarrow> (string \<times> string) list \<Rightarrow> string" where
  "flag_value names def as = foldl (\<lambda>v (n, w). if n \<in> set names then w else v) def as"

definition flag_bool :: "string list \<Rightarrow> (string \<times> string) list \<Rightarrow> bool" where
  "flag_bool names as \<longleftrightarrow> ParseBool (flag_value names ''false'' as) = Some True"

section \<open>The commands\<close>

text \<open>\<open>None\<close> exits with the usage; \<open>Inl\<close> is an error of the command.\<close>

definition run_flags :: flags where
  "run_flags =
     [(''dry-run'', Bool_flag), (''d'', Bool_flag), (''explain'', Bool_flag), (''x'', Bool_flag), (''sequential'', Bool_flag),
      (''s'', Bool_flag), (''no-dependencies'', Bool_flag), (''n'', Bool_flag), (''verbose'', String_flag),
      (''v'', String_flag), (''tag'', Bool_flag)]"

definition run_vars :: "(string \<times> string) list \<Rightarrow> string list \<Rightarrow> RunVars" where
  "run_vars as rest =
     \<lparr>rv_dryRun = flag_bool [''dry-run'', ''d''] as, rv_explain = flag_bool [''explain'', ''x''] as,
      rv_sequential = flag_bool [''sequential'', ''s''] as, rv_nodeps = flag_bool [''no-dependencies'', ''n''] as,
      rv_verbose = flag_value [''verbose'', ''v''] ''loud'' as, rv_isTag = flag_bool [''tag''] as, rv_tests = rest\<rparr>"

definition getRunArgs :: "string list \<Rightarrow> (string + RunVars) option" where
  "getRunArgs args =
     map_option (\<lambda>(as, rest).
       let v = run_vars as rest in case checkRunArgs v of Some err \<Rightarrow> Inl err | None \<Rightarrow> Inr v)
     (parse_flags run_flags args)"

definition submit_flags :: flags where
  "submit_flags = [(''debug'', Bool_flag), (''verify'', Bool_flag), (''no-cache'', Bool_flag)]"

definition submit_args :: "string list \<Rightarrow> (string + SubmitArgs) option" where
  "submit_args args =
     map_option (\<lambda>(as, rest). getSubmitArgs (flag_bool [''debug''] as) (flag_bool [''verify''] as) (flag_bool [''no-cache''] as) rest)
       (parse_flags submit_flags args)"

definition list_args :: "string list \<Rightarrow> (string + bool) option" where
  "list_args args =
     map_option (\<lambda>(as, rest). case getListArgs rest of Some err \<Rightarrow> Inl err | None \<Rightarrow> Inr (flag_bool [''remote'', ''r''] as))
       (parse_flags [(''remote'', Bool_flag), (''r'', Bool_flag)] args)"

definition getTagArgs :: "string list \<Rightarrow> (bool \<times> string list) option" where
  "getTagArgs args =
     map_option (\<lambda>(as, rest). (flag_bool [''short'', ''s''] as, rest)) (parse_flags [(''short'', Bool_flag), (''s'', Bool_flag)] args)"

definition config_args :: "string list \<Rightarrow> (bool \<times> string list) option" where
  "config_args args =
     map_option (\<lambda>(as, rest). (flag_bool [''debug''] as, rest)) (parse_flags [(''debug'', Bool_flag)] args)"

section \<open>Requests\<close>

datatype PostEndpoint = ApiEndpointSubmit | ApiEndpointValidate | ApiEndpointUpload

definition endpoint_path :: "PostEndpoint \<Rightarrow> string" where
  "endpoint_path e = (case e of ApiEndpointSubmit \<Rightarrow> ''/api-v1/submit'' | ApiEndpointValidate \<Rightarrow> ''/api-v1/validate''
     | ApiEndpointUpload \<Rightarrow> ''/api-v1/upload'')"

datatype SupportedPostType = PostTypeJSON | PostTypeMultipart | PostTypeText

text \<open>A request with what was given to the agent: texts, and files with the names of their fields.\<close>

record PostRequest =
  pr_Endpoint :: string
  pr_Type :: "SupportedPostType option"
  pr_Sent :: "string list"
  pr_Files :: "(string \<times> string) list"

definition NewPostRequest :: "ClientConf \<Rightarrow> PostEndpoint \<Rightarrow> PostRequest" where
  "NewPostRequest conf endpoint =
     \<lparr>pr_Endpoint = cnf_Server conf @ endpoint_path endpoint, pr_Type = None, pr_Sent = [], pr_Files = []\<rparr>"

definition SetPostType :: "SupportedPostType \<Rightarrow> PostRequest \<Rightarrow> PostRequest" where
  "SetPostType t pr = pr\<lparr>pr_Type := Some t\<rparr>"

text \<open>\<open>marshalled\<close> is the JSON of the object.\<close>

definition QueueJSON :: "string + string \<Rightarrow> string \<Rightarrow> PostRequest \<Rightarrow> string option \<times> PostRequest" where
  "QueueJSON marshalled fieldname pr =
     (case marshalled of
        Inl err \<Rightarrow> (Some err, pr)
      | Inr bytes \<Rightarrow>
          (None, pr\<lparr>pr_Sent := pr_Sent pr @ [if fieldname \<noteq> [] then fieldname @ ''='' @ bytes else bytes]\<rparr>))"

definition QueueFile :: "string \<Rightarrow> string \<Rightarrow> PostRequest \<Rightarrow> PostRequest" where
  "QueueFile fileOnDisk fileFieldName pr = pr\<lparr>pr_Files := pr_Files pr @ [(fileOnDisk, fileFieldName)]\<rparr>"

section \<open>What is written is what is parsed\<close>

definition flag_ok :: "flags \<Rightarrow> string \<times> string \<Rightarrow> bool" where
  "flag_ok known a \<longleftrightarrow>
     fst a \<noteq> [] \<and> hd (fst a) \<noteq> CHR ''-'' \<and> CHR ''='' \<notin> set (fst a) \<and>
     (gm_get known (fst a) = Some String_flag \<or> gm_get known (fst a) = Some Bool_flag \<and> ParseBool (snd a) \<noteq> None)"

definition write_flag :: "string \<times> string \<Rightarrow> string" where
  "write_flag a = ''-'' @ fst a @ ''='' @ snd a"

lemma flag_name_written: "n \<noteq> [] \<Longrightarrow> CHR ''='' \<notin> set n \<Longrightarrow> flag_name (n @ CHR ''='' # v) = (n, Some v)"
proof (cases n)
  case (Cons c cs)
  assume "CHR ''='' \<notin> set n"
  with Cons have "\<forall>x\<in>set cs. x \<noteq> CHR ''=''" by auto
  then have "dropWhile (\<lambda>c. c \<noteq> CHR ''='') (cs @ CHR ''='' # v) = CHR ''='' # v"
    "takeWhile (\<lambda>c. c \<noteq> CHR ''='') (cs @ CHR ''='' # v) = cs" by (simp_all add: dropWhile_append2 takeWhile_append2)
  with Cons show ?thesis by (simp add: flag_name_def)
qed simp

lemma parse_written_flag:
  assumes "flag_ok known a"
  shows "parse_flags known (write_flag a # args) = map_option (\<lambda>(as, rest). (a # as, rest)) (parse_flags known args)"
proof -
  obtain n v where a: "a = (n, v)" by (cases a)
  obtain c cs where n: "n = c # cs" "c \<noteq> CHR ''-''" "CHR ''='' \<notin> set n" using assms a by (cases n) (auto simp: flag_ok_def)
  then have c: "c \<noteq> CHR ''=''" by auto
  have name: "flag_name (c # cs @ CHR ''='' # v) = (c # cs, Some v)" using flag_name_written [of n v] n by simp
  have w: "write_flag (c # cs, v) = CHR ''-'' # c # cs @ CHR ''='' # v" by (simp add: write_flag_def)
  from assms a n(1) consider "gm_get known (c # cs) = Some String_flag" | "gm_get known (c # cs) = Some Bool_flag" "ParseBool v \<noteq> None"
    by (auto simp: flag_ok_def)
  then show ?thesis
    unfolding a n(1) w by cases (use n(2) c name in \<open>auto simp: Let_def\<close>)
qed

lemma parse_flags_rest:
  "rest = [] \<or> length (hd rest) < 2 \<or> hd (hd rest) \<noteq> CHR ''-'' \<Longrightarrow> parse_flags known rest = Some ([], rest)"
  by (cases rest) auto

text \<open>
  Flags that are written as name and value, followed by arguments that begin with no dash, are
  parsed into the same names and values in the same order, and the arguments are left as they are.
\<close>

theorem flags_roundtrip:
  assumes "list_all (flag_ok known) as" and "rest = [] \<or> length (hd rest) < 2 \<or> hd (hd rest) \<noteq> CHR ''-''"
  shows "parse_flags known (map write_flag as @ rest) = Some (as, rest)"
  using assms by (induction as) (simp_all add: parse_flags_rest parse_written_flag del: parse_flags.simps)

text \<open>A run whose arguments are accepted names a test and has one of the three settings of verbosity.\<close>

lemma getRunArgs_ok:
  assumes "getRunArgs args = Some (Inr v)"
  shows "rv_tests v \<noteq> [] \<and> rv_verbose v \<in> {''loud'', ''quiet'', ''whisper''}"
proof -
  from assms obtain as rest where "v = run_vars as rest" "checkRunArgs v = None"
    by (auto simp: getRunArgs_def Let_def split: option.splits)
  then show ?thesis by (simp add: checkRunArgs_def split: if_splits)
qed

lemma flags_roundtrip_witness:
  "parse_flags run_flags [''-v=quiet'', ''-tag=true'', ''boot''] = Some ([(''v'', ''quiet''), (''tag'', ''true'')], [''boot''])"
proof -
  have "list_all (flag_ok run_flags) [(''v'', ''quiet''), (''tag'', ''true'')]"
    by (simp add: flag_ok_def run_flags_def ParseBool_def)
  from flags_roundtrip [OF this, of "[''boot'']"] show ?thesis by (simp add: write_flag_def del: parse_flags.simps)
qed

end
