(* ===== verification/Expect.thy ===== *)
theory Expect
  imports Prelude GoStrings
begin

text \<open>
  \<open>expect/expect.go\<close>: reading a program through a terminal. A reader and an unbounded queue pass what
  the program writes to the caller, as a step relation of their goroutines; a call waits until a
  pattern matches what has arrived, an error was read or the time is up. The terminal, the clock and
  the regular expression library are parameters. Bytes are characters.
\<close>

section \<open>Data\<close>

text \<open>The error of a read; \<open>EIO\<close> inside a path error is how Linux reports a closed terminal.\<close>

datatype read_status = Read_ok | Read_EOF | Read_EIO | Read_error string

record readEvent =
  re_buf :: string
  re_status :: read_status

datatype expect_log =
  Log_Send string
| Log_SendMasked string
| Log_Recv string
| Log_RecvEOF
| Log_ExpectCall
| Log_ExpectReturn

record Match =
  m_Before :: string
  m_Groups :: "string list"

record Expect =
  ex_buffer :: string
  ex_readStatus :: read_status
  ex_log :: "expect_log list"

definition log_event :: "expect_log \<Rightarrow> Expect \<Rightarrow> Expect" where
  "log_event l exp = exp\<lparr>ex_log := ex_log exp @ [l]\<rparr>"

abbreviation READ_SIZE :: nat where
  "READ_SIZE \<equiv> 4094"

text \<open>The time of a call that is not given, in nanoseconds.\<close>

definition expect_timeout :: "int \<Rightarrow> int" where
  "expect_timeout timeout = (if timeout = 0 then 3600 * 1000000000 * 24 * 356 else timeout)"

section \<open>Sending\<close>

text \<open>
  The outcome of each write of the terminal: an error, or how much was written, which is at most
  what was given. \<open>None\<close> when the outcomes end before the data does.
\<close>

fun send :: "bool \<Rightarrow> (string + nat) list \<Rightarrow> string \<Rightarrow> Expect \<Rightarrow> (string option \<times> (string + nat) list \<times> Expect) option" where
  "send masked outcomes [] exp = Some (None, outcomes, exp)"
| "send masked [] (b # bs) exp = None"
| "send masked (Inl err # outcomes) (b # bs) exp = Some (Some err, outcomes, exp)"
| "send masked (Inr n # outcomes) (b # bs) exp =
     send masked outcomes (drop n (b # bs))
       (log_event (if masked then Log_SendMasked (take n (b # bs)) else Log_Send (take n (b # bs))) exp)"

fun SendLn :: "(string + nat) list \<Rightarrow> string list \<Rightarrow> Expect \<Rightarrow> (string option \<times> (string + nat) list \<times> Expect) option" where
  "SendLn outcomes [] exp = Some (None, outcomes, exp)"
| "SendLn outcomes (l # ls) exp =
     (case send False outcomes (l @ [CHR 0x0A]) exp of
        None \<Rightarrow> None
      | Some (Some err, outcomes', exp') \<Rightarrow> Some (Some err, outcomes', exp')
      | Some (None, outcomes', exp') \<Rightarrow> SendLn outcomes' ls exp')"

section \<open>Receiving\<close>

definition mergeRead :: "readEvent \<Rightarrow> Expect \<Rightarrow> Expect" where
  "mergeRead read exp =
     (let e1 = exp\<lparr>ex_buffer := ex_buffer exp @ re_buf read, ex_readStatus := re_status read\<rparr>;
          e2 = (if re_buf read \<noteq> [] then log_event (Log_Recv (re_buf read)) e1 else e1)
      in if re_status read = Read_EOF then log_event Log_RecvEOF e2 else e2)"

text \<open>
  \<open>FindSubmatchIndex\<close> gives the start and the end of the match and of its groups; a group that does
  not take part has none.
\<close>

type_synonym pattern = "string \<Rightarrow> ((nat \<times> nat) \<times> (nat \<times> nat) option list) option"

definition cut :: "string \<Rightarrow> nat \<times> nat \<Rightarrow> string" where
  "cut s se = take (snd se - fst se) (drop (fst se) s)"

definition checkForMatch :: "pattern \<Rightarrow> Expect \<Rightarrow> (Match \<times> Expect) option" where
  "checkForMatch pat exp =
     (case pat (ex_buffer exp) of
        None \<Rightarrow> None
      | Some (whole, groups) \<Rightarrow>
          Some (\<lparr>m_Before = take (fst whole) (ex_buffer exp),
                 m_Groups = cut (ex_buffer exp) whole # map (\<lambda>g. case g of None \<Rightarrow> [] | Some se \<Rightarrow> cut (ex_buffer exp) se) groups\<rparr>,
                exp\<lparr>ex_buffer := drop (snd whole) (ex_buffer exp)\<rparr>))"

datatype expect_error = Err_Read read_status | Err_Timeout

text \<open>What the channel gives within the time: an event, its end, or nothing.\<close>

datatype read_outcome = Got readEvent | Closed | Waited

definition readData :: "read_outcome \<Rightarrow> Expect \<Rightarrow> bool \<times> Expect" where
  "readData out exp = (case out of Got read \<Rightarrow> (True, mergeRead read exp) | Closed \<Rightarrow> (False, exp) | Waited \<Rightarrow> (True, exp))"

text \<open>
  The loop after its first round. Each observation is whether there is time left before the round,
  and the outcome of reading. When the channel is closed the call returns without a log entry.
  \<open>None\<close> is a call that has not returned yet.
\<close>

definition expect_check :: "pattern \<Rightarrow> Expect \<Rightarrow> ((expect_error + Match) \<times> Expect) option" where
  "expect_check pat exp =
     (case checkForMatch pat exp of
        Some (m, exp') \<Rightarrow> Some (Inr m, log_event Log_ExpectReturn exp')
      | None \<Rightarrow>
          if ex_readStatus exp \<noteq> Read_ok then Some (Inl (Err_Read (ex_readStatus exp)), log_event Log_ExpectReturn exp)
          else None)"

fun expect_loop :: "pattern \<Rightarrow> (bool \<times> read_outcome) list \<Rightarrow> Expect \<Rightarrow> ((expect_error + Match) \<times> Expect) option" where
  "expect_loop pat [] exp = None"
| "expect_loop pat ((before, out) # obs) exp =
     (if \<not> before then Some (Inl Err_Timeout, log_event Log_ExpectReturn exp)
      else
        (case readData out exp of
           (False, exp1) \<Rightarrow> Some (Inl (Err_Read Read_EOF), exp1)
         | (True, exp1) \<Rightarrow>
             (case expect_check pat exp1 of Some r \<Rightarrow> Some r | None \<Rightarrow> expect_loop pat obs exp1)))"

definition ExpectRegexp :: "pattern \<Rightarrow> (bool \<times> read_outcome) list \<Rightarrow> Expect \<Rightarrow> ((expect_error + Match) \<times> Expect) option" where
  "ExpectRegexp pat obs exp =
     (let exp1 = log_event Log_ExpectCall exp
      in if ex_readStatus exp1 \<noteq> Read_ok then Some (Inl (Err_Read (ex_readStatus exp1)), log_event Log_ExpectReturn exp1)
         else (case expect_check pat exp1 of Some r \<Rightarrow> Some r | None \<Rightarrow> expect_loop pat obs exp1))"

text \<open>\<open>ExpectEOF\<close> waits for a pattern that no text matches; closing merges everything that is left.\<close>

definition ExpectEOF :: "(bool \<times> read_outcome) list \<Rightarrow> Expect \<Rightarrow> (expect_error option \<times> Expect) option" where
  "ExpectEOF obs exp =
     map_option (\<lambda>(r, exp'). (case r of Inl err \<Rightarrow> Some err | Inr _ \<Rightarrow> None, exp')) (ExpectRegexp (\<lambda>_. None) obs exp)"

definition Close :: "readEvent list \<Rightarrow> Expect \<Rightarrow> Expect" where
  "Close reads exp = fold mergeRead reads exp"

fun fixNewLines :: "string \<Rightarrow> string" where
  "fixNewLines [] = []"
| "fixNewLines [c] = [c]"
| "fixNewLines (c # d # s) =
     (if c = CHR 0x0D \<and> d = CHR 0x0A then CHR 0x0A # fixNewLines s else c # fixNewLines (d # s))"

section \<open>The reader and the queue\<close>

text \<open>
  The reader reads until an error and hands each event to the queue over an unbuffered channel; the
  queue delivers to the caller over another one, and after the reader has closed its channel it
  delivers the rest and closes.
\<close>

datatype reader = Reader_reads | Reader_hands readEvent | Reader_done
datatype shim = Shim_runs | Shim_drains | Shim_closed

record pipe =
  pi_input :: "readEvent list"
  pi_reader :: reader
  pi_queue :: "readEvent list"
  pi_shim :: shim
  pi_received :: "readEvent list"

text \<open>An event as it is handed on: a closed terminal is the end of the input.\<close>

definition translate :: "readEvent \<Rightarrow> readEvent" where
  "translate ev = (if re_status ev = Read_EIO then ev\<lparr>re_status := Read_EOF\<rparr> else ev)"

inductive pipe_step :: "pipe \<Rightarrow> pipe \<Rightarrow> bool" where
  reads: "pi_reader p = Reader_reads \<Longrightarrow> pi_input p = ev # rest \<Longrightarrow>
     pipe_step p (p\<lparr>pi_input := rest, pi_reader := Reader_hands (translate ev)\<rparr>)"
| hands: "pi_reader p = Reader_hands ev \<Longrightarrow> pi_shim p = Shim_runs \<Longrightarrow>
     pipe_step p (p\<lparr>pi_queue := pi_queue p @ [ev],
        pi_reader := (if re_status ev = Read_ok then Reader_reads else Reader_done)\<rparr>)"
| delivers: "pi_queue p = ev # rest \<Longrightarrow> pi_shim p \<noteq> Shim_closed \<Longrightarrow>
     pipe_step p (p\<lparr>pi_queue := rest, pi_received := pi_received p @ [ev]\<rparr>)"
| drains: "pi_reader p = Reader_done \<Longrightarrow> pi_shim p = Shim_runs \<Longrightarrow> pipe_step p (p\<lparr>pi_shim := Shim_drains\<rparr>)"
| closes: "pi_shim p = Shim_drains \<Longrightarrow> pi_queue p = [] \<Longrightarrow> pipe_step p (p\<lparr>pi_shim := Shim_closed\<rparr>)"

inductive_cases pipe_stepE: "pipe_step p q"

definition pipe_start :: "readEvent list \<Rightarrow> pipe \<Rightarrow> bool" where
  "pipe_start input p \<longleftrightarrow>
     p = \<lparr>pi_input = input, pi_reader = Reader_reads, pi_queue = [], pi_shim = Shim_runs, pi_received = []\<rparr>"

definition in_hand :: "reader \<Rightarrow> readEvent list" where
  "in_hand r = (case r of Reader_hands ev \<Rightarrow> [ev] | _ \<Rightarrow> [])"

text \<open>Everything that was read is delivered, queued or in the hand of the reader, in this order.\<close>

definition pipe_inv :: "readEvent list \<Rightarrow> pipe \<Rightarrow> bool" where
  "pipe_inv input p \<longleftrightarrow>
     map translate input = pi_received p @ pi_queue p @ in_hand (pi_reader p) @ map translate (pi_input p) \<and>
     (pi_reader p = Reader_done \<longleftrightarrow> (\<exists>ev\<in>set (pi_received p @ pi_queue p). re_status ev \<noteq> Read_ok)) \<and>
     (\<forall>ev\<in>set (butlast (pi_received p @ pi_queue p)). re_status ev = Read_ok) \<and>
     (pi_shim p \<noteq> Shim_runs \<longrightarrow> pi_reader p = Reader_done) \<and> (pi_shim p = Shim_closed \<longrightarrow> pi_queue p = [])"

lemma pipe_inv_step: "pipe_step p q \<Longrightarrow> pipe_inv input p \<Longrightarrow> pipe_inv input q"
proof (induction rule: pipe_step.induct)
  case (hands p ev)
  then have "\<forall>ev\<in>set (pi_received p @ pi_queue p). re_status ev = Read_ok" by (auto simp: pipe_inv_def)
  with hands show ?case by (auto simp: pipe_inv_def in_hand_def butlast_append)
qed (auto simp: pipe_inv_def in_hand_def)

interpretation pipes: step_system "pipe_start input" pipe_step "pipe_inv input" for input
proof unfold_locales
  show "pipe_inv input s" if "pipe_start input s" for s
    using that by (simp add: pipe_start_def pipe_inv_def in_hand_def)
qed (rule pipe_inv_step)

text \<open>What the reader will read: everything up to the first error.\<close>

fun until_error :: "readEvent list \<Rightarrow> readEvent list" where
  "until_error [] = []"
| "until_error (ev # evs) = (if re_status ev = Read_ok then ev # until_error evs else [ev])"

lemma until_error_prefix:
  "\<forall>ev\<in>set (butlast as). re_status ev = Read_ok \<Longrightarrow> \<exists>ev\<in>set as. re_status ev \<noteq> Read_ok \<Longrightarrow> until_error (as @ bs) = as"
  by (induction as) (auto split: if_splits)

definition pipe_measure :: "pipe \<Rightarrow> nat" where
  "pipe_measure p = 3 * length (pi_input p) + 2 * length (in_hand (pi_reader p)) + length (pi_queue p) +
     (case pi_shim p of Shim_runs \<Rightarrow> 2 | Shim_drains \<Rightarrow> 1 | Shim_closed \<Rightarrow> 0)"

lemma pipe_step_measure: "pipe_step p q \<Longrightarrow> pipe_measure q < pipe_measure p"
  by (induction rule: pipe_step.induct) (auto simp: pipe_measure_def in_hand_def)

text \<open>
  C16. What the caller has received is at every moment the beginning of what the terminal gave, in its
  order. The goroutines end; and if the input ends with an error, then when nothing can move any more
  the caller has received everything up to this error, and its channel is closed.
\<close>

theorem pipe_fifo:
  assumes "reachable (pipe_start input) pipe_step p"
  shows "prefix (pi_received p) (map translate input) \<and> wfP (\<lambda>q p. pipe_step p q) \<and>
    ((\<exists>ev\<in>set input. re_status ev \<noteq> Read_ok) \<and> (\<nexists>q. pipe_step p q) \<longrightarrow>
       pi_shim p = Shim_closed \<and> pi_received p = until_error (map translate input))"
proof (intro conjI impI)
  from pipes.reachable_inv [OF assms] have inv: "pipe_inv input p" .
  then show "prefix (pi_received p) (map translate input)" unfolding pipe_inv_def by (metis prefixI)
  show "wfP (\<lambda>q p. pipe_step p q)"
    by (rule wfp_if_convertible_to_nat [where f = pipe_measure]) (rule pipe_step_measure)
  assume h: "(\<exists>ev\<in>set input. re_status ev \<noteq> Read_ok) \<and> (\<nexists>q. pipe_step p q)"
  then have stuck: "\<not> pipe_step p q" for q by blast
  have bad: "\<exists>ev\<in>set (map translate input). re_status ev \<noteq> Read_ok" 
  proof -
    from h obtain ev where "ev \<in> set input" "re_status (translate ev) \<noteq> Read_ok" by (auto simp: translate_def)
    then show ?thesis by auto
  qed
  have reader: "pi_reader p = Reader_done"
  proof (cases "pi_reader p")
    case Reader_reads
    then have "pi_input p = []" using stuck pipe_step.reads by (cases "pi_input p") blast+
    with inv bad Reader_reads show ?thesis by (auto simp: pipe_inv_def in_hand_def)
  next
    case (Reader_hands ev)
    with inv have "pi_shim p = Shim_runs" by (auto simp: pipe_inv_def)
    with Reader_hands stuck pipe_step.hands show ?thesis by blast
  qed
  have closed: "pi_shim p = Shim_closed"
  proof (cases "pi_shim p")
    case Shim_runs
    with reader stuck pipe_step.drains show ?thesis by blast
  next
    case Shim_drains
    then have "pi_queue p = []" using stuck pipe_step.delivers [of p] by (cases "pi_queue p") auto
    with Shim_drains stuck pipe_step.closes show ?thesis by blast
  qed
  with inv reader have "\<exists>ev\<in>set (pi_received p). re_status ev \<noteq> Read_ok" "\<forall>ev\<in>set (butlast (pi_received p)). re_status ev = Read_ok"
    "map translate input = pi_received p @ map translate (pi_input p)" by (auto simp: pipe_inv_def in_hand_def)
  with until_error_prefix have "pi_received p = until_error (map translate input)" by metis
  with closed show "pi_shim p = Shim_closed" "pi_received p = until_error (map translate input)" by simp_all
qed

section \<open>Nothing that is received is lost\<close>

text \<open>The bytes that the log has received.\<close>

definition received_bytes :: "expect_log list \<Rightarrow> string" where
  "received_bytes ls = concat (map (\<lambda>l. case l of Log_Recv s \<Rightarrow> s | _ \<Rightarrow> []) ls)"

lemma received_bytes_simps [simp]:
  "received_bytes [] = []" "received_bytes (as @ bs) = received_bytes as @ received_bytes bs"
  "received_bytes [Log_Recv s] = s" "received_bytes [Log_RecvEOF] = []" "received_bytes [Log_ExpectReturn] = []"
  "received_bytes [Log_ExpectCall] = []" "received_bytes [Log_Recv s, Log_RecvEOF] = s"
  by (simp_all add: received_bytes_def)

text \<open>The library gives a stretch of the text.\<close>

definition pattern_ok :: "pattern \<Rightarrow> bool" where
  "pattern_ok pat \<longleftrightarrow> (\<forall>s a b groups. pat s = Some ((a, b), groups) \<longrightarrow> a \<le> b \<and> b \<le> length s)"

text \<open>The bytes a call leaves in the buffer come after those that it gives away.\<close>

definition given :: "expect_error + Match \<Rightarrow> string" where
  "given r = (case r of Inl _ \<Rightarrow> [] | Inr m \<Rightarrow> m_Before m @ hd (m_Groups m))"

definition keeps_bytes :: "Expect \<Rightarrow> expect_error + Match \<Rightarrow> Expect \<Rightarrow> bool" where
  "keeps_bytes exp r exp' \<longleftrightarrow>
     (\<exists>new. ex_log exp' = ex_log exp @ new \<and> ex_buffer exp @ received_bytes new = given r @ ex_buffer exp')"

lemma cut_split: "a \<le> b \<Longrightarrow> b \<le> length s \<Longrightarrow> take a s @ cut s (a, b) @ drop b s = s"
  by (simp add: cut_def) (metis append_take_drop_id drop_drop le_add_diff_inverse2)

lemma mergeRead_bytes: "\<exists>new. ex_log (mergeRead read exp) = ex_log exp @ new \<and> ex_buffer exp @ received_bytes new = ex_buffer (mergeRead read exp)"
  by (cases "re_buf read = []"; cases "re_status read = Read_EOF") (auto simp: mergeRead_def log_event_def)

lemma keeps_after: "keeps_bytes exp1 r exp' \<Longrightarrow> ex_log exp1 = ex_log exp @ new \<Longrightarrow> ex_buffer exp @ received_bytes new = ex_buffer exp1 \<Longrightarrow>
    keeps_bytes exp r exp'"
  unfolding keeps_bytes_def by (metis append.assoc received_bytes_simps(2))

lemma expect_check_keeps:
  assumes "pattern_ok pat" and "expect_check pat exp = Some (r, exp')"
  shows "keeps_bytes exp r exp'"
proof (cases "pat (ex_buffer exp)")
  case None
  with assms(2) show ?thesis
    by (auto simp: expect_check_def checkForMatch_def keeps_bytes_def given_def log_event_def split: if_splits)
next
  case (Some m)
  obtain a b groups where m: "m = ((a, b), groups)" by (metis surj_pair)
  with assms(1) Some have "a \<le> b" "b \<le> length (ex_buffer exp)" unfolding pattern_ok_def by blast+
  from cut_split [OF this] show ?thesis
    using assms(2) Some m by (auto simp: expect_check_def checkForMatch_def keeps_bytes_def given_def log_event_def)
qed

lemma expect_loop_keeps:
  "pattern_ok pat \<Longrightarrow> expect_loop pat obs exp = Some (r, exp') \<Longrightarrow> keeps_bytes exp r exp'"
proof (induction pat obs exp rule: expect_loop.induct)
  case (2 pat before out obs exp)
  show ?case
  proof (cases "before")
    case False
    with 2 show ?thesis by (auto simp: keeps_bytes_def given_def log_event_def)
  next
    case before: True
    obtain more exp1 where read: "readData out exp = (more, exp1)" by fastforce
    obtain new where new: "ex_log exp1 = ex_log exp @ new" "ex_buffer exp @ received_bytes new = ex_buffer exp1"
      using read mergeRead_bytes by (cases out) (fastforce simp: readData_def)+
    show ?thesis
    proof (cases more)
      case True
      have "keeps_bytes exp1 r exp'"
      proof (cases "expect_check pat exp1")
        case None
        with 2 before read True show ?thesis by auto
      next
        case (Some x)
        with 2 before read True expect_check_keeps show ?thesis by auto
      qed
      then show ?thesis using new by (rule keeps_after)
    next
      case False
      with 2 before read new show ?thesis by (auto simp: keeps_bytes_def given_def)
    qed
  qed
qed simp

text \<open>
  C17. A call loses no byte and adds none: what was in the buffer, followed by what was received during
  the call, is what the call gives away (the text before the match and the match), followed by what
  is in the buffer after it. A call that ends with an error gives nothing away.
\<close>

theorem expect_keeps_bytes:
  assumes "pattern_ok pat" and "ExpectRegexp pat obs exp = Some (r, exp')"
  shows "\<exists>new. ex_log exp' = ex_log exp @ new \<and>
    ex_buffer exp @ received_bytes new = (case r of Inl _ \<Rightarrow> [] | Inr m \<Rightarrow> m_Before m @ hd (m_Groups m)) @ ex_buffer exp'"
proof -
  let ?exp = "log_event Log_ExpectCall exp"
  have "keeps_bytes ?exp r exp'"
  proof (cases "ex_readStatus ?exp = Read_ok")
    case False
    with assms(2) show ?thesis by (auto simp: ExpectRegexp_def keeps_bytes_def given_def log_event_def Let_def)
  next
    case True
    then show ?thesis using assms expect_check_keeps [OF assms(1), of ?exp] expect_loop_keeps [OF assms(1), of obs ?exp]
      by (cases "expect_check pat ?exp") (auto simp: ExpectRegexp_def Let_def)
  qed
  then have "keeps_bytes exp r exp'" by (rule keeps_after [where new = "[Log_ExpectCall]"]) (simp_all add: log_event_def)
  then show ?thesis by (simp add: keeps_bytes_def given_def)
qed

text \<open>What is sent without an error has been logged in full.\<close>

definition sent_bytes :: "expect_log list \<Rightarrow> string" where
  "sent_bytes ls = concat (map (\<lambda>l. case l of Log_Send s \<Rightarrow> s | Log_SendMasked s \<Rightarrow> s | _ \<Rightarrow> []) ls)"

lemma send_complete:
  "send masked outcomes arr exp = Some (None, outcomes', exp') \<Longrightarrow>
     \<exists>new. ex_log exp' = ex_log exp @ new \<and> sent_bytes new = arr"
proof (induction masked outcomes arr exp rule: send.induct)
  case (4 masked n outcomes b bs exp)
  then obtain new where new: "ex_log exp' = ex_log exp @ (if masked then Log_SendMasked (take n (b # bs)) else Log_Send (take n (b # bs))) # new"
    "sent_bytes new = drop n (b # bs)" by (auto simp: log_event_def)
  have "sent_bytes ((if masked then Log_SendMasked (take n (b # bs)) else Log_Send (take n (b # bs))) # new) = b # bs"
    using new(2) append_take_drop_id [of n "b # bs"] by (simp add: sent_bytes_def del: append_take_drop_id take_Suc_Cons)
  with new(1) show ?case by blast
qed (auto simp: sent_bytes_def)

text \<open>Waiting for the end returns only with an error.\<close>

lemma ExpectEOF_error: "ExpectEOF obs exp = Some (e, exp') \<Longrightarrow> e \<noteq> None"
proof -
  have "expect_loop (\<lambda>_. None) obs exp = Some (r, exp') \<Longrightarrow> \<exists>err. r = Inl err" for r obs exp exp'
    by (induction "\<lambda>_ :: string. None :: ((nat \<times> nat) \<times> (nat \<times> nat) option list) option" obs exp rule: expect_loop.induct)
       (auto simp: expect_check_def checkForMatch_def split: if_splits prod.splits bool.splits)
  then have "ExpectRegexp (\<lambda>_. None) obs exp = Some (r, exp') \<Longrightarrow> \<exists>err. r = Inl err" for r obs exp exp'
    by (auto simp: ExpectRegexp_def expect_check_def checkForMatch_def Let_def split: if_splits)
  moreover assume "ExpectEOF obs exp = Some (e, exp')"
  ultimately show ?thesis by (force simp: ExpectEOF_def)
qed

section \<open>Witnesses\<close>

definition read_of :: "string \<Rightarrow> readEvent" where
  "read_of s = \<lparr>re_buf = s, re_status = Read_ok\<rparr>"

definition find_prompt :: pattern where
  "find_prompt s = map_option (\<lambda>i. ((i, i + 2), [])) (Index s ''$ '')"

lemma expect_keeps_bytes_witness:
  "\<exists>r exp'. ExpectRegexp find_prompt [(True, Got (read_of ''ab$ c''))] \<lparr>ex_buffer = ''x'', ex_readStatus = Read_ok, ex_log = []\<rparr> = Some (r, exp') \<and>
     (\<exists>new. ex_log exp' = new \<and> ''x'' @ received_bytes new = (case r of Inl _ \<Rightarrow> [] | Inr m \<Rightarrow> m_Before m @ hd (m_Groups m)) @ ex_buffer exp')"
proof -
  have ok: "pattern_ok find_prompt"
    unfolding pattern_ok_def find_prompt_def
  proof (intro allI impI)
    fix s a b groups
    assume "map_option (\<lambda>i. ((i, i + 2), [])) (Index s ''$ '') = Some ((a, b), groups)"
    then have i: "Index s ''$ '' = Some a" "b = a + 2" by auto
    have "length s = length (take a s) + length ''$ '' + length (drop (a + length ''$ '') s)"
      using arg_cong [OF Index_Some [OF i(1)], of length] by (simp only: length_append)
    then have "a + 2 \<le> length s" by (simp split: if_splits)
    with i(2) show "a \<le> b \<and> b \<le> length s" by simp
  qed
  have "ExpectRegexp find_prompt [(True, Got (read_of ''ab$ c''))] \<lparr>ex_buffer = ''x'', ex_readStatus = Read_ok, ex_log = []\<rparr> =
     Some (Inr \<lparr>m_Before = ''xab'', m_Groups = [''$ '']\<rparr>,
       \<lparr>ex_buffer = ''c'', ex_readStatus = Read_ok, ex_log = [Log_ExpectCall, Log_Recv ''ab$ c'', Log_ExpectReturn]\<rparr>)" by code_simp
  with expect_keeps_bytes [OF ok this] show ?thesis by simp
qed

definition closed_input :: "readEvent list" where
  "closed_input = [\<lparr>re_buf = ''a'', re_status = Read_EIO\<rparr>]"

definition closed_pipe :: pipe where
  "closed_pipe = \<lparr>pi_input = [], pi_reader = Reader_done, pi_queue = [], pi_shim = Shim_closed,
     pi_received = [\<lparr>re_buf = ''a'', re_status = Read_EOF\<rparr>]\<rparr>"

lemma closed_reachable: "reachable (pipe_start closed_input) pipe_step closed_pipe"
proof -
  let ?ev = "\<lparr>re_buf = ''a'', re_status = Read_EOF\<rparr>"
  let ?p = "\<lambda>input reader queue shim received. \<lparr>pi_input = input, pi_reader = reader, pi_queue = queue, pi_shim = shim, pi_received = received\<rparr>"
  have s0: "reachable (pipe_start closed_input) pipe_step (?p closed_input Reader_reads [] Shim_runs [])"
    by (rule reach_init) (simp add: pipe_start_def)
  have s1: "pipe_step (?p closed_input Reader_reads [] Shim_runs []) (?p [] (Reader_hands ?ev) [] Shim_runs [])"
    using pipe_step.reads [of "?p closed_input Reader_reads [] Shim_runs []"] by (simp add: closed_input_def translate_def)
  have s2: "pipe_step (?p [] (Reader_hands ?ev) [] Shim_runs []) (?p [] Reader_done [?ev] Shim_runs [])"
    using pipe_step.hands [of "?p [] (Reader_hands ?ev) [] Shim_runs []"] by simp
  have s3: "pipe_step (?p [] Reader_done [?ev] Shim_runs []) (?p [] Reader_done [] Shim_runs [?ev])"
    using pipe_step.delivers [of "?p [] Reader_done [?ev] Shim_runs []"] by simp
  have s4: "pipe_step (?p [] Reader_done [] Shim_runs [?ev]) (?p [] Reader_done [] Shim_drains [?ev])"
    using pipe_step.drains [of "?p [] Reader_done [] Shim_runs [?ev]"] by simp
  have s5: "pipe_step (?p [] Reader_done [] Shim_drains [?ev]) closed_pipe"
    using pipe_step.closes [of "?p [] Reader_done [] Shim_drains [?ev]"] by (simp add: closed_pipe_def)
  show ?thesis by (rule reach_step [OF reach_step [OF reach_step [OF reach_step [OF reach_step [OF s0 s1] s2] s3] s4] s5])
qed

lemma pipe_fifo_witness:
  "reachable (pipe_start closed_input) pipe_step closed_pipe \<and> pi_received closed_pipe = until_error (map translate closed_input)"
proof -
  have "\<nexists>q. pipe_step closed_pipe q" by (auto simp: closed_pipe_def elim: pipe_stepE)
  moreover have "\<exists>ev\<in>set closed_input. re_status ev \<noteq> Read_ok" by (simp add: closed_input_def)
  ultimately show ?thesis using pipe_fifo [OF closed_reachable] closed_reachable by blast
qed

end
