(* ===== verification/Launch.thy ===== *)
theory Launch
  imports TestRun Expect
begin

text \<open>
  \<open>start161\<close> of \<open>run.go\<close>: the command that starts the simulator, how it is killed, and the time that
  \<open>expect\<close> waits. Durations are nanoseconds; a number of seconds of type float32 is cut off to an
  integer first. The working directory and the start of a process are parameters.
\<close>

datatype kill_signal = Signal_KILL | Process_Kill

record launched =
  la_Path :: string
  la_Args :: "string list"
  la_Dir :: string
  la_Kill :: kill_signal
  la_Timeout :: int

definition nanoseconds :: "float32 \<Rightarrow> int" where
  "nanoseconds seconds = (if 0 \<le> seconds then \<lfloor>seconds\<rfloor> else \<lceil>seconds\<rceil>) * 1000000000"

definition sys161_path :: "string + string \<Rightarrow> string \<Rightarrow> string + string" where
  "sys161_path getwd p =
     (if HasPrefix p ''./'' then (case getwd of Inl err \<Rightarrow> Inl err | Inr cwd \<Rightarrow> Inr (path_Join [cwd, p])) else Inr p)"

definition start161 :: "string + string \<Rightarrow> (string \<Rightarrow> string list \<Rightarrow> string \<Rightarrow> string option) \<Rightarrow> string \<Rightarrow>
    'a RunTest_scheme \<Rightarrow> string + launched \<times> 'a RunTest_scheme" where
  "start161 getwd startProcess tempDir t =
     bind_ok (sys161_path getwd (sys_Path (t_Sys161 t)))
       (\<lambda>path.
         let args = [''-X'', ''-c'', ''test161.conf'', ''kernel'']
         in case startProcess path args tempDir of
              Some err \<Rightarrow> Inl err
            | None \<Rightarrow>
                Inr (\<lparr>la_Path = path, la_Args = args, la_Dir = tempDir,
                      la_Kill = (if misc_KillOnExit (t_Misc t) = ''true'' then Signal_KILL else Process_Kill),
                      la_Timeout = expect_timeout (nanoseconds (misc_PromptTimeout (t_Misc t)))\<rparr>, started161 t))"

text \<open>\<open>Process.Kill\<close> of the library sends the signal \<open>os.Kill\<close>.\<close>

definition signal_sent :: "kill_signal \<Rightarrow> string" where
  "signal_sent k = (case k of Signal_KILL \<Rightarrow> ''SIGKILL'' | Process_Kill \<Rightarrow> ''SIGKILL'')"

text \<open>So the option \<open>killonexit\<close> changes nothing.\<close>

lemma killonexit_no_effect:
  "start161 getwd startProcess tempDir t = Inr (l, t') \<Longrightarrow>
     start161 getwd startProcess tempDir (t\<lparr>t_Misc := (t_Misc t)\<lparr>misc_KillOnExit := v\<rparr>\<rparr>) = Inr (l1, t1) \<Longrightarrow>
     signal_sent (la_Kill l) = signal_sent (la_Kill l1) \<and> l1 = l\<lparr>la_Kill := la_Kill l1\<rparr>"
  by (auto simp: start161_def signal_sent_def Let_def bind_ok_eq_Inr split: kill_signal.splits option.splits)

text \<open>A timeout below one second becomes the longest one.\<close>

lemma short_timeout:
  assumes "0 \<le> misc_PromptTimeout (t_Misc t)" and "misc_PromptTimeout (t_Misc t) < 1"
    and "start161 getwd startProcess tempDir t = Inr (l, t')"
  shows "la_Timeout l = 356 * 24 * 3600 * 1000000000"
proof -
  have "\<lfloor>misc_PromptTimeout (t_Misc t)\<rfloor> = 0" using assms(1,2) by (simp add: floor_eq_iff)
  with assms(1,3) show ?thesis
    by (auto simp: start161_def expect_timeout_def nanoseconds_def Let_def bind_ok_eq_Inr split: option.splits)
qed

text \<open>A test that starts is running, and its statistics are active.\<close>

lemma start161_running:
  "start161 getwd startProcess tempDir t = Inr (l, t') \<Longrightarrow> r_running t' \<and> r_statActive t' \<and> la_Args l = [''-X'', ''-c'', ''test161.conf'', ''kernel'']"
  by (auto simp: start161_def started161_def Let_def bind_ok_eq_Inr split: option.splits)

end
