(* ===== verification/Mongo.thy ===== *)
theory Mongo
  imports Targets Build Usage Students
begin

text \<open>
  \<open>mongopersist.go\<close>, with the persistence managers that store nothing (\<open>persistence.go\<close>,
  \<open>testing_persistence.go\<close>): which operations on which collections a notification becomes. The
  database is a parameter: it executes an operation, and answers the two queries of a loaded target.
\<close>

section \<open>Operations on the database\<close>

datatype field_value =
  Field_Points uint
| Field_Result TestResult
| Field_Output "OutputLine list"
| Field_Status CommandStatus

type_synonym changes = "(string, field_value) gomap"

datatype document =
  Doc_Test Test
| Doc_Submission Submission
| Doc_BuildTest BuildTest
| Doc_Student Student
| Doc_Target Target
| Doc_UsageStat UsageStat

text \<open>
  Each operation names its collection. A document is replaced by its id, fields are set in the document
  with an id, or in the document that a selector of fields and values finds.
\<close>

datatype mongo_op =
  Op_Insert string document
| Op_UpdateId string string document
| Op_SetId string string changes
| Op_Set string "(string \<times> string) list" changes
| Op_Upsert string "(string \<times> string) list" document

record 'db mongo =
  mg_exec :: "mongo_op \<Rightarrow> 'db \<Rightarrow> string option \<times> 'db"
  mg_targets :: "string \<Rightarrow> uint \<Rightarrow> 'db \<Rightarrow> string + Target list"
  mg_submissions :: "string \<Rightarrow> 'db \<Rightarrow> string + bool"
  mg_uuid :: "'db \<Rightarrow> string"

definition COLLECTION_SUBMISSIONS :: string where "COLLECTION_SUBMISSIONS = ''submissions''"
definition COLLECTION_TESTS :: string where "COLLECTION_TESTS = ''tests''"
definition COLLECTION_STUDENTS :: string where "COLLECTION_STUDENTS = ''students''"
definition COLLECTION_TARGETS :: string where "COLLECTION_TARGETS = ''targets''"
definition COLLECTION_USERS :: string where "COLLECTION_USERS = ''users''"
definition COLLECTION_USAGE :: string where "COLLECTION_USAGE = ''usage''"

section \<open>Notifications\<close>

text \<open>A command comes with the id of its test.\<close>

datatype mongo_entity =
  M_Test Test
| M_Command string Command
| M_Submission Submission
| M_BuildTest BuildTest
| M_BuildCommand string BuildCommand
| M_Student Student
| M_Target Target
| M_UsageStat UsageStat
| M_Other string

definition has_field :: "nat \<Rightarrow> nat \<Rightarrow> bool" where
  "has_field what f \<longleftrightarrow> odd (what div f)"

definition getTestUpdateMap :: "Test \<Rightarrow> nat \<Rightarrow> changes" where
  "getTestUpdateMap test what =
     (if has_field what MSG_FIELD_SCORE then [(''points_earned'', Field_Points (t_PointsEarned test))] else []) @
     (if has_field what MSG_FIELD_STATUS then [(''result'', Field_Result (t_Result test))] else [])"

definition selector :: "string \<Rightarrow> string \<Rightarrow> (string \<times> string) list" where
  "selector test cmd = [(''_id'', test), (''commands._id'', cmd)]"

definition notify_test :: "Test \<Rightarrow> notify_msg \<Rightarrow> nat \<Rightarrow> mongo_op option" where
  "notify_test test msg what =
     (case msg of
        MSG_PERSIST_CREATE \<Rightarrow> Some (Op_Insert COLLECTION_TESTS (Doc_Test test))
      | MSG_PERSIST_COMPLETE \<Rightarrow> Some (Op_UpdateId COLLECTION_TESTS (t_ID test) (Doc_Test test))
      | MSG_PERSIST_UPDATE \<Rightarrow>
          (let changes = (if has_field what MSG_FIELD_SCORE then [(''points_earned'', Field_Points (t_PointsEarned test))] else []) @
                 (if has_field what MSG_FIELD_STATUS then [(''result'', Field_Result (t_Result test))] else [])
           in if changes \<noteq> [] then Some (Op_SetId COLLECTION_TESTS (t_ID test) changes) else None)
      | _ \<Rightarrow> None)"

definition notify_command :: "string \<Rightarrow> Command \<Rightarrow> notify_msg \<Rightarrow> nat \<Rightarrow> mongo_op option" where
  "notify_command test cmd msg what =
     (if msg = MSG_PERSIST_UPDATE then
        Some (Op_Set COLLECTION_TESTS (selector test (c_ID cmd))
          ((if has_field what MSG_FIELD_OUTPUT then [(''commands.$.output'', Field_Output (c_Output cmd))] else []) @
           (if has_field what MSG_FIELD_SCORE then [(''commands.$.points_earned'', Field_Points (c_PointsEarned cmd))] else []) @
           (if has_field what MSG_FIELD_STATUS then [(''commands.$.status'', Field_Status (c_Status cmd))] else [])))
      else None)"

definition notify_submission :: "Submission \<Rightarrow> notify_msg \<Rightarrow> mongo_op option" where
  "notify_submission s msg =
     (case msg of
        MSG_PERSIST_CREATE \<Rightarrow> Some (Op_Insert COLLECTION_SUBMISSIONS (Doc_Submission s))
      | MSG_PERSIST_COMPLETE \<Rightarrow> Some (Op_UpdateId COLLECTION_SUBMISSIONS (sb_ID s) (Doc_Submission s))
      | MSG_PERSIST_UPDATE \<Rightarrow> Some (Op_UpdateId COLLECTION_SUBMISSIONS (sb_ID s) (Doc_Submission s))
      | _ \<Rightarrow> None)"

definition notify_build_test :: "BuildTest \<Rightarrow> notify_msg \<Rightarrow> nat \<Rightarrow> mongo_op option" where
  "notify_build_test test msg what =
     (case msg of
        MSG_PERSIST_CREATE \<Rightarrow> Some (Op_Insert COLLECTION_TESTS (Doc_BuildTest test))
      | MSG_PERSIST_COMPLETE \<Rightarrow> Some (Op_UpdateId COLLECTION_TESTS (bt_ID test) (Doc_BuildTest test))
      | MSG_PERSIST_UPDATE \<Rightarrow>
          if has_field what MSG_FIELD_STATUS
          then Some (Op_SetId COLLECTION_TESTS (bt_ID test) [(''result'', Field_Result (bt_Result test))]) else None
      | _ \<Rightarrow> None)"

definition notify_build_command :: "string \<Rightarrow> BuildCommand \<Rightarrow> notify_msg \<Rightarrow> nat \<Rightarrow> mongo_op option" where
  "notify_build_command test cmd msg what =
     (if msg = MSG_PERSIST_UPDATE then
        Some (Op_Set COLLECTION_TESTS (selector test (bc_ID cmd))
          ((if has_field what MSG_FIELD_OUTPUT then [(''commands.$.output'', Field_Output (bc_Output cmd))] else []) @
           (if has_field what MSG_FIELD_STATUS then [(''commands.$.status'', Field_Status (bc_Status cmd))] else [])))
      else None)"

definition change_msg :: "string \<Rightarrow> string" where
  "change_msg err =
     ''Target details changed and previous submissions exist. Increment the version number of the new target.''
       @ [CHR 0x0A] @ err"

text \<open>
  A target that is loaded. The error of the first query is dropped, so a failed query finds nothing.
  Gives the target, which takes over or gets an id.
\<close>

definition load_target :: "'db mongo \<Rightarrow> Target \<Rightarrow> 'db \<Rightarrow> string option \<times> Target \<times> 'db" where
  "load_target M target db =
     (case (case mg_targets M (tgt_Name target) (tgt_Version target) db of Inl _ \<Rightarrow> [] | Inr ts \<Rightarrow> ts) of
        [] \<Rightarrow>
          (let target = target\<lparr>tgt_ID := mg_uuid M db\<rparr>;
               (err, db') = mg_exec M (Op_Insert COLLECTION_TARGETS (Doc_Target target)) db
           in (err, target, db'))
      | [old] \<Rightarrow>
          (let target = target\<lparr>tgt_ID := tgt_ID old\<rparr>
           in if tgt_FileHash target \<noteq> tgt_FileHash old then
                (case mg_submissions M (tgt_ID target) db of
                   Inl err \<Rightarrow> (Some err, target, db)
                 | Inr found \<Rightarrow>
                     (case isChangeAllowed old target of
                        Some changeErr \<Rightarrow>
                          if found then (Some (change_msg changeErr), target, db)
                          else (case mg_exec M (Op_UpdateId COLLECTION_TARGETS (tgt_ID target) (Doc_Target target)) db of
                                  (err, db') \<Rightarrow> (err, target, db'))
                      | None \<Rightarrow>
                          (case mg_exec M (Op_UpdateId COLLECTION_TARGETS (tgt_ID target) (Doc_Target target)) db of
                             (err, db') \<Rightarrow> (err, target, db'))))
              else (None, target, db))
      | _ \<Rightarrow> (Some (''Multiple targets exist in DB for '' @ [CHR 0x27] @ tgt_Name target @ [CHR 0x27]), target, db))"

text \<open>The operation of every other notification; \<open>Inl\<close> an error without one.\<close>

definition notify_op :: "mongo_entity \<Rightarrow> notify_msg \<Rightarrow> nat \<Rightarrow> string + mongo_op option" where
  "notify_op t msg what =
     (case t of
        M_Test test \<Rightarrow> Inr (notify_test test msg what)
      | M_Command test cmd \<Rightarrow> Inr (notify_command test cmd msg what)
      | M_Submission s \<Rightarrow> Inr (notify_submission s msg)
      | M_BuildTest test \<Rightarrow> Inr (notify_build_test test msg what)
      | M_BuildCommand test cmd \<Rightarrow> Inr (notify_build_command test cmd msg what)
      | M_Student student \<Rightarrow>
          Inr (if msg = MSG_PERSIST_UPDATE then Some (Op_UpdateId COLLECTION_STUDENTS (stu_ID student) (Doc_Student student)) else None)
      | M_Target target \<Rightarrow> Inr None
      | M_UsageStat stat \<Rightarrow>
          if msg = MSG_PERSIST_CREATE then
            if us_ID stat = [] then Inl ''ID required to upsert UsageStat''
            else Inr (Some (Op_Upsert COLLECTION_USAGE [(''_id'', us_ID stat)] (Doc_UsageStat stat)))
          else Inr None
      | M_Other name \<Rightarrow> Inl (''Unexpected type in Notify(): '' @ name))"

definition mongo_Notify :: "'db mongo \<Rightarrow> mongo_entity \<Rightarrow> notify_msg \<Rightarrow> nat \<Rightarrow> 'db \<Rightarrow> string option \<times> mongo_entity \<times> 'db" where
  "mongo_Notify M t msg what db =
     (case t of
        M_Target target \<Rightarrow>
          if msg = MSG_TARGET_LOAD then (case load_target M target db of (err, target', db') \<Rightarrow> (err, M_Target target', db'))
          else (None, t, db)
      | _ \<Rightarrow>
          (case notify_op t msg what of
             Inl err \<Rightarrow> (Some err, t, db)
           | Inr None \<Rightarrow> (None, t, db)
           | Inr (Some op) \<Rightarrow> (case mg_exec M op db of (err, db') \<Rightarrow> (err, t, db'))))"

section \<open>Retrieving\<close>

abbreviation "PERSIST_TYPE_STUDENTS \<equiv> (1 :: nat)"
abbreviation "PERSIST_TYPE_USERS \<equiv> (2 :: nat)"

text \<open>\<open>find\<close> runs the query on a collection, with the fields to select if there is a filter.\<close>

definition mongo_Retrieve :: "(string \<Rightarrow> (string, string) gomap \<Rightarrow> (string, string) gomap option \<Rightarrow> 'db \<Rightarrow> string + 'r list) \<Rightarrow>
    nat \<Rightarrow> (string, string) gomap \<Rightarrow> (string, string) gomap option \<Rightarrow> 'db \<Rightarrow> string + 'r list" where
  "mongo_Retrieve run what who keep db =
     (if what = PERSIST_TYPE_STUDENTS then run COLLECTION_STUDENTS who keep db
      else if what = PERSIST_TYPE_USERS then run COLLECTION_USERS who keep db
      else Inl ''Persistence: Invalid data type'')"

section \<open>The manager for tests\<close>

text \<open>It knows one student, who is staff as well, and stores nothing.\<close>

definition testStudent :: Student where
  "testStudent = (new_student ''test@test161.ops-class.org'')\<lparr>stu_Token := ''TestToken4$5^''\<rparr>"

definition TestingPersistence :: PersistenceManager where
  "TestingPersistence =
     \<lparr>pm_CanRetrieve = True, pm_Notify = (\<lambda>_ _ _. None),
      pm_Students = (\<lambda>email token. Inr (if email = stu_Email testStudent \<and> token = stu_Token testStudent then [testStudent] else [])),
      pm_StaffUsers = (\<lambda>email. Inr (if email = stu_Email testStudent then 1 else 0))\<rparr>"

section \<open>A stored target is kept\<close>

text \<open>
  C30. When a target is loaded whose name and version are stored once, it takes over the id. The stored
  target is replaced only if the content of the file changed, the submissions could be looked up, and
  either there are none for this target or the change keeps what they were graded by. In every other
  case the database stays as it is, and a change that is not allowed is an error.
\<close>

theorem loaded_target_kept:
  assumes "mg_targets M (tgt_Name target) (tgt_Version target) db = Inr [old]"
    and "mongo_Notify M (M_Target target) MSG_TARGET_LOAD what db = (err, t', db')"
  shows "\<exists>new. t' = M_Target new \<and> new = target\<lparr>tgt_ID := tgt_ID old\<rparr> \<and>
    ((err, db') = mg_exec M (Op_UpdateId COLLECTION_TARGETS (tgt_ID old) (Doc_Target new)) db \<and>
       tgt_FileHash target \<noteq> tgt_FileHash old \<and>
       (mg_submissions M (tgt_ID old) db = Inr False \<or>
        mg_submissions M (tgt_ID old) db = Inr True \<and> isChangeAllowed old new = None) \<or>
     db' = db \<and> (err = None \<longrightarrow> tgt_FileHash target = tgt_FileHash old))"
proof -
  define new where "new = target\<lparr>tgt_ID := tgt_ID old\<rparr>"
  have fields: "tgt_ID new = tgt_ID old" "tgt_FileHash new = tgt_FileHash target" by (simp_all add: new_def)
  let ?update = "mg_exec M (Op_UpdateId COLLECTION_TARGETS (tgt_ID old) (Doc_Target new)) db"
  have load: "load_target M target db =
     (if tgt_FileHash target \<noteq> tgt_FileHash old then
        (case mg_submissions M (tgt_ID old) db of
           Inl e \<Rightarrow> (Some e, new, db)
         | Inr found \<Rightarrow>
             (case isChangeAllowed old new of
                Some changeErr \<Rightarrow>
                  if found then (Some (change_msg changeErr), new, db)
                  else (case ?update of (e, db1) \<Rightarrow> (e, new, db1))
              | None \<Rightarrow> (case ?update of (e, db1) \<Rightarrow> (e, new, db1))))
      else (None, new, db))"
    by (cases "mg_submissions M (tgt_ID old) db"; cases "isChangeAllowed old new")
       (simp_all add: load_target_def assms(1) new_def Let_def)
  obtain e db1 where up: "?update = (e, db1)" by fastforce
  have t': "load_target M target db = (err, new, db') \<and> t' = M_Target new"
    using assms(2) load up by (auto simp: mongo_Notify_def split: if_splits sum.splits option.splits)
  show ?thesis
  proof (cases "tgt_FileHash target = tgt_FileHash old")
    case True
    with t' load show ?thesis by (simp add: new_def)
  next
    case changed: False
    show ?thesis
    proof (cases "mg_submissions M (tgt_ID old) db")
      case (Inl e1)
      with t' load changed show ?thesis by (auto simp: new_def)
    next
      case (Inr found)
      show ?thesis
      proof (cases "isChangeAllowed old new = None \<or> \<not> found")
        case True
        then have "load_target M target db = (e, new, db1)"
          using load changed Inr up by (cases "isChangeAllowed old new") auto
        with t' up changed Inr True show ?thesis by (cases found) (auto simp: new_def)
      next
        case False
        then obtain ce where "isChangeAllowed old new = Some ce" "found" by auto
        with t' load changed Inr show ?thesis by (auto simp: new_def)
      qed
    qed
  qed
qed

text \<open>A failed query for a target is taken for a target that is not there: it is inserted under a new id.\<close>

lemma failed_query_inserts:
  assumes "mg_targets M (tgt_Name target) (tgt_Version target) db = Inl err0"
    and "mg_exec M (Op_Insert COLLECTION_TARGETS (Doc_Target (target\<lparr>tgt_ID := mg_uuid M db\<rparr>))) db = (None, db')"
  shows "mongo_Notify M (M_Target target) MSG_TARGET_LOAD what db = (None, M_Target (target\<lparr>tgt_ID := mg_uuid M db\<rparr>), db')"
  using assms by (simp add: mongo_Notify_def load_target_def)

text \<open>An update of a test without a field of interest does nothing, one of a command sets an empty list of fields.\<close>

lemma update_without_fields:
  assumes "\<not> has_field what MSG_FIELD_SCORE" and "\<not> has_field what MSG_FIELD_STATUS" and "\<not> has_field what MSG_FIELD_OUTPUT"
  shows "mongo_Notify M (M_Test test) MSG_PERSIST_UPDATE what db = (None, M_Test test, db)"
    and "notify_command tid cmd MSG_PERSIST_UPDATE what = Some (Op_Set COLLECTION_TESTS (selector tid (c_ID cmd)) [])"
  using assms by (simp_all add: mongo_Notify_def notify_op_def notify_test_def notify_command_def)

section \<open>Witness\<close>

definition sample_mongo :: "(mongo_op list) mongo" where
  "sample_mongo = \<lparr>mg_exec = (\<lambda>op db. (None, db @ [op])), mg_targets = (\<lambda>_ _ _. Inr [NewTarget]),
     mg_submissions = (\<lambda>_ _. Inr True), mg_uuid = (\<lambda>_. ''u'')\<rparr>"

lemma loaded_target_kept_witness:
  "\<exists>err t'. mongo_Notify sample_mongo (M_Target (NewTarget\<lparr>tgt_FileHash := ''x'', tgt_Points := 7\<rparr>)) MSG_TARGET_LOAD 0 [] = (err, t', []) \<and>
     err \<noteq> None"
proof -
  let ?t = "NewTarget\<lparr>tgt_FileHash := ''x'', tgt_Points := 7\<rparr>"
  have one: "mg_targets sample_mongo (tgt_Name ?t) (tgt_Version ?t) [] = Inr [NewTarget]" by (simp add: sample_mongo_def)
  obtain err t' db' where n: "mongo_Notify sample_mongo (M_Target ?t) MSG_TARGET_LOAD 0 [] = (err, t', db')" by (metis surj_pair)
  have "mg_submissions sample_mongo (tgt_ID NewTarget) [] = Inr True" by (simp add: sample_mongo_def)
  moreover have "isChangeAllowed NewTarget (?t\<lparr>tgt_ID := tgt_ID NewTarget\<rparr>) \<noteq> None" by (simp add: isChangeAllowed_def NewTarget_def)
  moreover have "tgt_FileHash ?t \<noteq> tgt_FileHash NewTarget" by (simp add: NewTarget_def)
  ultimately have "db' = [] \<and> err \<noteq> None" using loaded_target_kept [OF one n] by auto
  with n show ?thesis by blast
qed

end
