(* ===== verification/Collab.thy ===== *)
theory Collab
  imports Environment
begin

text \<open>
  \<open>collab.go\<close>: the guidelines on collaboration, by the name of the target. A text begins with an end of
  line, so it is its lines with one before each. The target list of \<open>Environment\<close> has them as its
  parameter \<open>msgs\<close>.
\<close>

definition guidelines :: "string list \<Rightarrow> string" where
  "guidelines ls = concat (map (\<lambda>l. CHR 0x0A # l) ls)"

definition CollabMsgAsst1 :: string where
  "CollabMsgAsst1 = guidelines
     ['' - Pair programming to complete the implementation tasks is strongly'',
      ''   encouraged.'',
      '''',
      '' - Answering the code reading questions side-by-side with your partner is'',
      ''   strongly encouraged.'',
      '' '',
      '' - Helping other students with Git, GDB, editing, and with other parts of the'',
      ''   OS/161 toolchain is encouraged.'',
      '''',
      '' - Discussing the code reading questions and browsing the source tree with'',
      ''   other students is encouraged.'',
      '''',
      '' - Dividing the code reading questions and development tasks between partners'',
      ''   is discouraged.'',
      '''',
      '' - Copying any answers from anyone who is not your partner or anywhere else and'',
      ''   submitting them as your own is cheating.'',
      '''',
      '' - You may not refer to or incorporate any external sources without explicit'',
      ''   permission.'']"

definition CollabMsgAsst2 :: string where
  "CollabMsgAsst2 = guidelines
     ['' - Pair programming to complete the implementation tasks is strongly'',
      ''   encouraged.'',
      '''',
      '' - Writing a design document with your partner is strongly encouraged.'',
      '''',
      '' - Having one partner work on the file system system calls while the other'',
      ''   partner works on process support is a good division of labor. The partner'',
      ''   working on the file system system calls may finish first, at which point they'',
      ''   can help and continue testing.'',
      '''',
      '' - Answering the code reading questions side-by-side with your partner is'',
      ''   strongly encouraged.'',
      '''',
      '' - Discussing the code reading questions and browsing the source tree with other'',
      ''   students is encouraged.'',
      '''',
      '' - Dividing the code reading questions and development tasks between partners is'',
      ''   discouraged.'',
      '''',
      '' - Any arrangement that results in one partner writing the entire design'',
      ''   document is cheating.'',
      '''',
      '' - Any arrangement that results in one partner writing all or almost all of the'',
      ''   code is cheating.'',
      '''',
      '' - Copying any answers from anyone who is not your partner or anywhere else and'',
      ''   submitting them as your own is cheating.'',
      '''',
      '' - You may not refer to or incorporate any external sources without explicit'',
      ''   permission.'']"

definition CollabMsgAsst3 :: string where
  "CollabMsgAsst3 = guidelines
     ['' - Pair programming to complete the implementation tasks is strongly'',
      ''   encouraged.'',
      '''',
      '' - Writing a design document with your partner is strongly encouraged.'',
      '''',
      '' - Answering the code reading questions side-by-side with your partner is'',
      ''   strongly encouraged.'',
      '''',
      '' - Discussing the code reading questions and browsing the source tree with other'',
      ''   students is encouraged.'',
      '''',
      '' - Dividing the code reading questions and development tasks between partners is'',
      ''   discouraged.'',
      '''',
      '' - Any arrangement that results in one partner writing the entire design'',
      ''   document is cheating.'',
      '''',
      '' - Any arrangement that results in one partner writing all or almost all of the'',
      ''   code is cheating.'',
      '''',
      '' - Copying any answers from anyone who is not your partner or anywhere else and'',
      ''   submitting them as your own is cheating.'',
      '''',
      '' - You may not refer to or incorporate any external sources without explicit'',
      ''   permission.'']"

definition collabMsgs :: "(string, string) gomap" where
  "collabMsgs =
     [(''asst1'', CollabMsgAsst1),
      (''asst2'', CollabMsgAsst2),
      (''asst2.1'', CollabMsgAsst2),
      (''asst2.2'', CollabMsgAsst2),
      (''asst3'', CollabMsgAsst3),
      (''asst3.1'', CollabMsgAsst3),
      (''asst3.2'', CollabMsgAsst3),
      (''asst3.3'', CollabMsgAsst3)]"

lemma guidelines_empty [simp]: "guidelines ls = [] \<longleftrightarrow> ls = []"
  by (cases ls) (simp_all add: guidelines_def)

lemma collab_texts: "CollabMsgAsst1 \<noteq> []" "CollabMsgAsst2 \<noteq> []" "CollabMsgAsst3 \<noteq> []"
  by (simp_all add: CollabMsgAsst1_def CollabMsgAsst2_def CollabMsgAsst3_def)

lemma collabMsgs_ok: "gm_ok collabMsgs"
  by (simp add: collabMsgs_def gm_ok_def)

text \<open>A target of the list comes without guidelines only if its name is not in the table.\<close>

lemma guidelines_of_targets:
  assumes "t \<in> set (TargetList collabMsgs env)"
  shows "tli_CollabMsg t = [] \<longleftrightarrow> tli_Name t \<notin> set (gm_keys collabMsgs)"
proof -
  have texts: "m \<noteq> []" if "gm_get collabMsgs k = Some m" for k m
    using that collab_texts by (auto simp: collabMsgs_def split: if_splits)
  have "tli_CollabMsg t = (case gm_get collabMsgs (tli_Name t) of Some m \<Rightarrow> m | None \<Rightarrow> [])"
    using assms by (auto simp: TargetList_def)
  then show ?thesis using texts by (cases "gm_get collabMsgs (tli_Name t)") (force simp: map_of_eq_None_iff dest: map_of_SomeD)+
qed

text \<open>The parts of an assignment have the guidelines of the assignment.\<close>

lemma parts_share_guidelines:
  "\<forall>part\<in>{''.1'', ''.2''}. gm_get collabMsgs (''asst2'' @ part) = gm_get collabMsgs ''asst2''"
  "\<forall>part\<in>{''.1'', ''.2'', ''.3''}. gm_get collabMsgs (''asst3'' @ part) = gm_get collabMsgs ''asst3''"
  by (simp_all add: collabMsgs_def)

end
