(* ===== verification/Spec2Isabelle.thy ===== *)
theory Spec2Isabelle
  imports Prelude GoStrings GoFloat Version Graph TestTypes Samples InputLine Grading SecureOutput MemLeaks Stats
    Monitor Templates ConfCommands TestRun TestGroups Targets Manager Students Submission SubmissionRun
    Runners Environment GoFiles SecureOverlay Build Usage Server UsageServer Git ClientRun Submit
    Printing TestOutput ClientPrint ClientLists ClientConf ClientArgs Expect Launch Mongo Collab
begin

text \<open>
  A verification development for test161, the testing and grading tool of the OS/161 course: a Go
  program that boots student kernels in a simulator, feeds them commands, grades their output, and
  a server that runs the submissions of the students.

  \<^bold>\<open>The program and the theories.\<close> The order below is the order of the imports.

  \<^item> \<open>Prelude\<close>, \<open>GoStrings\<close>, \<open>GoFloat\<close>: what Go gives. Errors are values of a sum type, with the error
    on the left and the text of the Go error as a string; a Go map is an association list whose
    order is the order of a \<open>range\<close> loop, so a theorem about every list is one about every order;
    \<open>uint\<close> is a word of 64 bits, \<open>int\<close> an integer; float32 and float64 values are rationals that are
    rounded after each operation. The contracts \<open>go_map\<close> and \<open>step_system\<close> are locales here.
  \<^item> \<open>Version\<close> is \<open>version.go\<close>. \<open>Graph\<close> is \<open>graph/graph.go\<close>: Kahn's algorithm is sound, ends, and fails
    exactly on cycles.
  \<^item> \<open>TestTypes\<close>, \<open>Samples\<close>: the records of \<open>run.go\<close>, \<open>conf.go\<close>, \<open>commands.go\<close>, \<open>stats.go\<close> and
    \<open>target.go\<close>, and small values of them. A test in a map is known by its key, the command
    under execution by its position.
  \<^item> \<open>InputLine\<close> (\<open>run.go\<close>): splitting and replacing the arguments of a command line. \<open>Grading\<close>: matching
    expected output, partial credit, the verdict on a command. \<open>SecureOutput\<close>: the recogniser of
    signed lines, the check of the keyed hash and of the salt. \<open>MemLeaks\<close>: the memory leak check, its
    penalty, and the points of a finished test.
  \<^item> \<open>Stats\<close>, \<open>Monitor\<close> (\<open>stats.go\<close>): the statistics of the simulator, the sliding window of the monitor
    and its limits; a step relation for the statistics goroutine with an exact-sum invariant.
  \<^item> \<open>Templates\<close> (\<open>commands.go\<close>): command templates and the expansion of expected output, with its cycle
    check. \<open>ConfCommands\<close> (\<open>conf.go\<close>): prefixes, the list of commands of a test.
  \<^item> \<open>TestRun\<close> (\<open>run.go\<close>): the loop over the commands of a test, sending a command with echo and
    retries, and the whole run with its result. The simulator and the clock are a list of observations.
    The verdict of the loop and the result and points of a run are stated exactly; the last command,
    whose grade the code does not look at, is an exception of both.
  \<^item> \<open>TestGroups\<close> (\<open>groups.go\<close>): loading tests, tags, expanding dependencies, and the group of a
    configuration. \<open>Targets\<close> (\<open>target.go\<close>): points and scoring of tests, metatargets, runnable groups,
    the check of a change. \<open>Environment\<close> (\<open>environment.go\<close>, \<open>tags.go\<close>): loading and linking all of them.
    \<open>Collab\<close> (\<open>collab.go\<close>): the guidelines that the list of targets hands to the students.
  \<^item> \<open>Manager\<close> (\<open>manager.go\<close>): the queue of jobs with its capacity, a step relation of the workers, in
    which the capacity may change at any time and a manager whose jobs are finished may start again; it
    refines a machine with a number of slots. \<open>Runners\<close> (\<open>runners.go\<close>): the simple runner and the
    dependency runner as step relations of their goroutines and channels.
  \<^item> \<open>Students\<close>, \<open>Submission\<close>, \<open>SubmissionRun\<close> (\<open>submission.go\<close>, \<open>manager.go\<close>, \<open>persistence.go\<close>): statistics of
    students, validation and the lock on pending submissions (which a submission that is turned away
    keeps for ever), a submission from the build to the
    score, and the submission manager.

  \<^item> \<open>GoFiles\<close>: the file operations of Go over a map from clean paths to entries. \<open>SecureOverlay\<close>, \<open>Build\<close>
    (\<open>build.go\<close>): the secret keys put into the overlay, and the build of a kernel with its steps, handlers
    and clean up.
  \<^item> \<open>Usage\<close> (\<open>usage.go\<close>, \<open>test161/usage.go\<close>): the usage files of the client under their lock, their upload in
    chunks. \<open>UsageServer\<close> (\<open>test161-server/usage.go\<close>, \<open>uploads.go\<close>) receives them. \<open>Server\<close> (the server's
    \<open>submissions.go\<close>, \<open>control.go\<close>, \<open>server.go\<close>, \<open>comm.go\<close>): what the handlers accept and answer.
  \<^item> The client: \<open>Git\<close> (\<open>git.go\<close>), \<open>ClientRun\<close> (\<open>runcmd.go\<close>) and \<open>Submit\<close> (\<open>submitcmd.go\<close>, \<open>comm.go\<close>,
    \<open>errors.go\<close>): the repository, a local run and its scores, the submission of a commit.
  \<^item> What the client shows and reads: \<open>Printing\<close> (\<open>printing.go\<close>) lays out tables and \<open>TestOutput\<close>
    (\<open>output.go\<close>, \<open>consolepersist.go\<close>) writes finished tests; \<open>ClientPrint\<close> (\<open>runcmd.go\<close>) and \<open>ClientLists\<close>
    (\<open>listcmd.go\<close>) make the tables of runs, targets, tests and tags. \<open>ClientConf\<close> (\<open>conf.go\<close>, \<open>main.go\<close>) is the
    search for the directories, the configuration file and the checks before a command; \<open>ClientArgs\<close> the
    flags of all commands and the requests of \<open>comm.go\<close>.
  \<^item> \<open>Expect\<close> (\<open>expect/expect.go\<close>): the reader of the terminal with its unbounded queue as a step relation,
    and the wait for a pattern. \<open>Launch\<close> (\<open>run.go\<close>): the command that starts the simulator. \<open>Mongo\<close>
    (\<open>mongopersist.go\<close>, \<open>persistence.go\<close>): the operations on the database that a notification becomes.

  \<^bold>\<open>What the lemmas show.\<close> Each component has its functional behaviour on all branches, errors
  included, and an invariant where it keeps a state. The step relations (\<open>Monitor\<close>, \<open>Manager\<close>, \<open>Runners\<close>,
  \<open>Submission\<close>, \<open>Expect\<close>) interpret \<open>step_system\<close>, so an invariant shown for each step holds in all reachable
  states; \<open>Manager\<close> and \<open>Runners\<close> also show that no run goes on for ever and what holds when nothing can
  move. The components meet in three chains: a configuration becomes a closed group (\<open>TestGroups\<close>), a
  group gets points (\<open>Targets\<close>), the dependency runner runs it (\<open>Runners\<close>); a byte of output becomes a
  trusted line (\<open>SecureOutput\<close>), a graded command (\<open>Grading\<close>), a verdict (\<open>TestRun\<close>, \<open>MemLeaks\<close>); a request
  of \<open>Submit\<close> passes the checks of \<open>Server\<close> and becomes a submission (\<open>Submission\<close>), a score (\<open>SubmissionRun\<close>), a statistic (\<open>Students\<close>).

  \<^bold>\<open>Fuel and bounds.\<close> The recursions over dependencies (\<open>getDepNodesHelper\<close>, \<open>assignTestRequiredBy\<close>) have
  fuel for their depth, one more than the number of tests; \<open>getDepNodes_total\<close> and
  \<open>assignRequiredBy_required\<close> show that it is enough on the acyclic graphs the callers check for.
  \<open>factorial\<close> of the templates may not return and is a partial function into options. Channels of
  the runners have the capacity of the code, and the theorems show that no send to one is dropped.

  The loops of \<open>Usage\<close> (pruning and sending in chunks) end by measures. Waiting for a lock file and
  asking until the answer is yes or no may not end, which is the result \<open>None\<close>; the standard input is the
  list of what its reads deliver, and each question of \<open>Submit\<close> reads it through a buffer of its own. The loop of \<open>Printing\<close> that
  spreads the room over the columns ends by a measure; \<open>search_loop\<close> of \<open>ClientConf\<close> walks up to the root
  and is a partial function, and \<open>search_nearest\<close> shows that it returns on clean paths. A call of
  \<open>Expect\<close> over a finite list of arrivals that has not returned at its end is \<open>None\<close>.

  \<^bold>\<open>Parameters.\<close> The YAML parser, the file system and globs, MongoDB, the simulator and its
  terminal, the size of the user's terminal, regular expressions, subprocesses, text templates, keyed
  hashes and digests, random numbers, identifiers and the clock are arguments of the definitions,
  mostly fields of the records \<open>Files\<close>, \<open>EnvWorld\<close>, \<open>SubmissionWorld\<close>, \<open>PersistenceManager\<close>, \<open>BuildWorld\<close>,
  \<open>UsageWorld\<close>, \<open>UploadWorld\<close>, \<open>SubmitWorld\<close>, \<open>ConfWorld\<close> and \<open>mongo\<close>. Pointers to tests and targets are
  their keys. What a theorem assumes of them is a hypothesis of its statement: members of gzip
  decompress one after the other and an empty file is \<open>io.EOF\<close> (\<open>gzip_reader\<close>), the YAML library reads
  back what it wrote but for fields with the tag \<open>yaml:"-"\<close> (\<open>yaml_ok\<close>), a regular expression matches
  inside its text (\<open>pattern_ok\<close>).

  \<^bold>\<open>Not modelled.\<close> What is left is input and output that other code carries out: the execution of the
  operations by the MongoDB driver, the marshalling of values as JSON, the creation of the
  pseudo-terminal and of processes, the sockets, signals and the router library of the server, log
  and debugging lines, and the constant help texts of the client.
\<close>

end
